(* ===== verification/Py_Prelude.thy ===== *)
theory Py_Prelude
  imports Main "HOL-Library.AList" "HOL-Library.Multiset" "HOL-Library.Sublist"
    "HOL-Library.Char_ord" "HOL-Library.List_Lexorder"
begin

text \<open>
  The Python notions that every component of the development shares: exceptions as values of a
  sum type with its bind, map and fold; the two interpreters the scripts are written for;
  insertion-ordered dictionaries; the string methods the scripts call (\<open>split\<close>, \<open>join\<close>,
  \<open>strip\<close>, \<open>startswith\<close>, \<open>in\<close>, decimal printing and parsing) and the POSIX path
  functions. Each is an executable function, followed by the generic lemmas the component
  theories use. The collections \<open>res_simps\<close> and \<open>str_simps\<close> hold the rewriting rules.
\<close>

named_theorems res_simps
named_theorems str_simps

section \<open>Exceptions as values\<close>

datatype py_error =
    TypeError | AttributeError | KeyError | IndexError | ValueError | AssertionError
  | ZeroDivisionError | UnboundLocalError | NameError | OSError | StopIteration
  | PyException string | SystemExit int

type_synonym 'a res = "py_error + 'a"

text \<open>The scripts of the repository were written for Python 2 or for Python 3.\<close>

datatype py_version = Py2 | Py3

definition bindE :: "'e + 'a \<Rightarrow> ('a \<Rightarrow> 'e + 'b) \<Rightarrow> 'e + 'b" where
  "bindE m f = (case m of Inl e \<Rightarrow> Inl e | Inr x \<Rightarrow> f x)"

lemma bindE_simps [simp, res_simps]:
  "bindE (Inl e) f = Inl e"
  "bindE (Inr x) f = f x"
  by (simp_all add: bindE_def)

lemma bindE_cong [fundef_cong]:
  "m = m' \<Longrightarrow> (\<And>x. m' = Inr x \<Longrightarrow> f x = g x) \<Longrightarrow> bindE m f = bindE m' g"
  by (cases m') (auto simp: bindE_def)

lemma bindE_Inr_conv [res_simps]:
  "bindE m f = Inr y \<longleftrightarrow> (\<exists>x. m = Inr x \<and> f x = Inr y)"
  by (cases m) auto

lemma bindE_Inl_conv [res_simps]:
  "bindE m f = Inl e \<longleftrightarrow> m = Inl e \<or> (\<exists>x. m = Inr x \<and> f x = Inl e)"
  by (cases m) auto

lemma bindE_assoc: "bindE (bindE m f) g = bindE m (\<lambda>x. bindE (f x) g)"
  by (cases m) auto

definition is_ok :: "'e + 'a \<Rightarrow> bool" where
  "is_ok m = (case m of Inl _ \<Rightarrow> False | Inr _ \<Rightarrow> True)"

lemma is_ok_simps [simp]: "is_ok (Inr x)" "\<not> is_ok (Inl e)"
  by (simp_all add: is_ok_def)

primrec mapE :: "('a \<Rightarrow> 'e + 'b) \<Rightarrow> 'a list \<Rightarrow> 'e + 'b list" where
  "mapE f [] = Inr []"
| "mapE f (x # xs) = bindE (f x) (\<lambda>y. bindE (mapE f xs) (\<lambda>ys. Inr (y # ys)))"

primrec foldE :: "('s \<Rightarrow> 'a \<Rightarrow> 'e + 's) \<Rightarrow> 's \<Rightarrow> 'a list \<Rightarrow> 'e + 's" where
  "foldE f s [] = Inr s"
| "foldE f s (x # xs) = bindE (f s x) (\<lambda>s'. foldE f s' xs)"

lemma mapE_cong [fundef_cong]:
  "xs = ys \<Longrightarrow> (\<And>x. x \<in> set ys \<Longrightarrow> f x = g x) \<Longrightarrow> mapE f xs = mapE g ys"
  by (induction xs arbitrary: ys) auto

lemma foldE_cong [fundef_cong]:
  assumes "s = t" and "xs = ys" and "\<And>a x. x \<in> set ys \<Longrightarrow> f a x = g a x"
  shows "foldE f s xs = foldE g t ys"
proof -
  from assms(3) have "foldE f t ys = foldE g t ys"
  proof (induction ys arbitrary: t)
    case (Cons y ys)
    have "f t y = g t y" by (rule Cons.prems) simp
    moreover have "foldE f u ys = foldE g u ys" for u
      by (rule Cons.IH) (rule Cons.prems, simp)
    ultimately show ?case by (simp only: foldE.simps)
  qed simp
  with assms(1,2) show ?thesis by simp
qed

lemma mapE_length: "mapE f xs = Inr ys \<Longrightarrow> length ys = length xs"
  by (induction xs arbitrary: ys) (auto simp: bindE_Inr_conv)

lemma mapE_all_Inr: "(\<And>x. x \<in> set xs \<Longrightarrow> f x = Inr (g x)) \<Longrightarrow> mapE f xs = Inr (map g xs)"
  by (induction xs) auto

lemma foldE_append: "foldE f s (xs @ ys) = bindE (foldE f s xs) (\<lambda>s'. foldE f s' ys)"
proof (induction xs arbitrary: s)
  case (Cons x xs)
  then show ?case by (cases "f s x") auto
qed simp

lemma foldE_append_Inr: "foldE f s xs = Inr t \<Longrightarrow> foldE f s (xs @ ys) = foldE f t ys"
  by (simp add: foldE_append)

lemma foldE_all_Inr: "(\<And>s x. x \<in> set xs \<Longrightarrow> f s x = Inr (g s x)) \<Longrightarrow> foldE f s xs = Inr (foldl g s xs)"
  by (induction xs arbitrary: s) auto

lemma foldE_inv:
  assumes "foldE f s xs = Inr t" and "I s"
    and "\<And>a x b. I a \<Longrightarrow> x \<in> set xs \<Longrightarrow> f a x = Inr b \<Longrightarrow> I b"
  shows "I t"
  using assms
proof (induction xs arbitrary: s)
  case (Cons x xs)
  from Cons.prems(1) obtain s' where s': "f s x = Inr s'" "foldE f s' xs = Inr t"
    by (auto simp: bindE_Inr_conv)
  have "I s'" by (rule Cons.prems(3) [OF Cons.prems(2) _ s'(1)]) simp
  with s'(2) show ?case
  proof (rule Cons.IH)
    fix a x b
    assume "I a" and "x \<in> set xs" and "f a x = Inr b"
    then show "I b" by (intro Cons.prems(3) [of a x b]) simp_all
  qed
qed simp

section \<open>Dictionaries\<close>

text \<open>
  A dictionary is an association list with distinct keys. \<open>d[k] = v\<close> replaces the value of a
  present key in its place and appends a new key at the end, \<open>del d[k]\<close> removes it; the order of
  the list is the order of \<open>keys()\<close> and \<open>items()\<close> (the insertion order of CPython 3.7).
\<close>

type_synonym ('k, 'v) dict = "('k \<times> 'v) list"

definition dict_set :: "'k \<Rightarrow> 'v \<Rightarrow> ('k, 'v) dict \<Rightarrow> ('k, 'v) dict" where
  "dict_set k v d = AList.update k v d"

definition dict_del :: "'k \<Rightarrow> ('k, 'v) dict \<Rightarrow> ('k, 'v) dict" where
  "dict_del k d = AList.delete k d"

definition dict_get :: "('k, 'v) dict \<Rightarrow> 'k \<Rightarrow> 'v option" where
  "dict_get d k = map_of d k"

definition dict_keys :: "('k, 'v) dict \<Rightarrow> 'k list" where
  "dict_keys d = map fst d"

definition dict_in :: "'k \<Rightarrow> ('k, 'v) dict \<Rightarrow> bool" where
  "dict_in k d = (dict_get d k \<noteq> None)"

definition dict_ok :: "('k, 'v) dict \<Rightarrow> bool" where
  "dict_ok d = distinct (map fst d)"

text \<open>
  The contract the scripts rely on, stated once as an interface: what a lookup returns after an
  assignment and after a deletion, and which keys are enumerated.
\<close>

locale py_mapping =
  fixes mset_item :: "'k \<Rightarrow> 'v \<Rightarrow> 'm \<Rightarrow> 'm"
    and mdel_item :: "'k \<Rightarrow> 'm \<Rightarrow> 'm"
    and mget_item :: "'m \<Rightarrow> 'k \<Rightarrow> 'v option"
    and mkeys :: "'m \<Rightarrow> 'k list"
    and mok :: "'m \<Rightarrow> bool"
    and mempty :: 'm
  assumes get_set: "mok m \<Longrightarrow> mget_item (mset_item k v m) k' = (if k' = k then Some v else mget_item m k')"
    and get_del: "mok m \<Longrightarrow> mget_item (mdel_item k m) k' = (if k' = k then None else mget_item m k')"
    and get_empty: "mget_item mempty k = None"
    and keys_get: "mok m \<Longrightarrow> k \<in> set (mkeys m) \<longleftrightarrow> mget_item m k \<noteq> None"
    and keys_distinct: "mok m \<Longrightarrow> distinct (mkeys m)"
    and ok_set: "mok m \<Longrightarrow> mok (mset_item k v m)"
    and ok_del: "mok m \<Longrightarrow> mok (mdel_item k m)"
    and ok_empty: "mok mempty"
begin

lemma keys_set: "mok m \<Longrightarrow> set (mkeys (mset_item k v m)) = insert k (set (mkeys m))"
  by (auto simp: keys_get ok_set get_set split: if_splits)

lemma keys_del: "mok m \<Longrightarrow> set (mkeys (mdel_item k m)) = set (mkeys m) - {k}"
  by (auto simp: keys_get ok_del get_del split: if_splits)

lemma keys_empty: "mkeys mempty = []"
  using keys_get [OF ok_empty] get_empty by (metis empty_iff list.set(1) list.set_intros(1) neq_Nil_conv)

lemma length_keys_set: "mok m \<Longrightarrow> mget_item m k = None \<Longrightarrow>
    length (mkeys (mset_item k v m)) = Suc (length (mkeys m))"
  using keys_set [of m k v] keys_distinct [of m] keys_distinct [OF ok_set, of m k v] keys_get [of m k]
  by (simp add: distinct_card [symmetric])

lemma length_keys_del:
  assumes "mok m" and "mget_item m k \<noteq> None"
  shows "Suc (length (mkeys (mdel_item k m))) = length (mkeys m)"
proof -
  have "k \<in> set (mkeys m)" using assms by (simp add: keys_get)
  then have "Suc (card (set (mkeys m) - {k})) = card (set (mkeys m))"
    by (rule card_Suc_Diff1 [OF finite_set])
  then show ?thesis
    using assms(1) by (simp add: keys_del keys_distinct ok_del flip: distinct_card)
qed

end

interpretation dict: py_mapping dict_set dict_del dict_get dict_keys dict_ok "[]"
proof
  show "dict_ok m \<Longrightarrow> dict_get (dict_set k v m) k' = (if k' = k then Some v else dict_get m k')" for m k v k'
    by (auto simp: dict_get_def dict_set_def update_conv')
  show "dict_ok m \<Longrightarrow> dict_get (dict_del k m) k' = (if k' = k then None else dict_get m k')" for m k k'
    by (auto simp: dict_get_def dict_del_def delete_conv')
  show "dict_get [] k = None" for k
    by (simp add: dict_get_def)
  show "dict_ok m \<Longrightarrow> k \<in> set (dict_keys m) \<longleftrightarrow> dict_get m k \<noteq> None" for m k
    by (auto simp: dict_get_def dict_keys_def map_of_eq_None_iff)
  show "dict_ok m \<Longrightarrow> distinct (dict_keys m)" for m
    by (simp add: dict_ok_def dict_keys_def)
  show "dict_ok m \<Longrightarrow> dict_ok (dict_set k v m)" for m k v
    by (simp add: dict_ok_def dict_set_def distinct_update)
  show "dict_ok m \<Longrightarrow> dict_ok (dict_del k m)" for m k
    by (simp add: dict_ok_def dict_del_def distinct_delete)
  show "dict_ok []"
    by (simp add: dict_ok_def)
qed

text \<open>An association list updated in place answers as a map, whether or not its keys are distinct.\<close>

lemma dict_get_set: "dict_get (dict_set k v m) k' = (if k' = k then Some v else dict_get m k')"
  by (simp add: dict_get_def dict_set_def update_conv')

end
