(* ===== verification/Py_Strings.thy ===== *)
theory Py_Strings
  imports Py_Prelude
begin

text \<open>
  The string methods of the standard library that the scripts call, on strings as lists of
  characters: \<open>split\<close> with and without a limit, \<open>join\<close>, \<open>strip\<close>, substring test,
  decimal conversion, and the POSIX path functions \<open>join\<close>, \<open>basename\<close>, \<open>normpath\<close>.
  The lemmas are the round trips between splitting and joining, printing and parsing.
\<close>

section \<open>Splitting and joining\<close>

fun py_split :: "'a \<Rightarrow> 'a list \<Rightarrow> 'a list list" where
  "py_split c [] = [[]]"
| "py_split c (x # xs) =
     (if x = c then [] # py_split c xs
      else (case py_split c xs of [] \<Rightarrow> [[x]] | y # ys \<Rightarrow> (x # y) # ys))"

fun py_join :: "'a list \<Rightarrow> 'a list list \<Rightarrow> 'a list" where
  "py_join sep [] = []"
| "py_join sep [x] = x"
| "py_join sep (x # y # zs) = x @ sep @ py_join sep (y # zs)"

text \<open>\<open>s.split(c, 1)\<close>: at most one split, at the first occurrence.\<close>

definition py_split1 :: "'a \<Rightarrow> 'a list \<Rightarrow> 'a list list" where
  "py_split1 c s =
     (if c \<in> set s then [takeWhile (\<lambda>x. x \<noteq> c) s, tl (dropWhile (\<lambda>x. x \<noteq> c) s)] else [s])"

lemma py_split_not_Nil [simp]: "py_split c s \<noteq> []"
  by (induction s) (auto split: list.splits)

lemma py_join_Cons: "zs \<noteq> [] \<Longrightarrow> py_join sep (x # zs) = x @ sep @ py_join sep zs"
  by (cases zs) auto

lemma py_join_split [simp, str_simps]: "py_join [c] (py_split c s) = s"
proof (induction s)
  case (Cons x s)
  show ?case
  proof (cases "py_split c s")
    case (Cons y ys)
    with Cons.IH show ?thesis by (cases ys) auto
  qed simp
qed simp

lemma py_split_no_sep: "c \<notin> set s \<Longrightarrow> py_split c s = [s]"
  by (induction s) auto

lemma py_split_append:
  "c \<notin> set s \<Longrightarrow> py_split c (s @ c # t) = s # py_split c t"
  by (induction s) auto

lemma py_split_join [str_simps]:
  "xs \<noteq> [] \<Longrightarrow> (\<And>x. x \<in> set xs \<Longrightarrow> c \<notin> set x) \<Longrightarrow> py_split c (py_join [c] xs) = xs"
proof (induction xs rule: list_nonempty_induct)
  case (single x)
  then show ?case by (simp add: py_split_no_sep)
next
  case (cons x xs)
  then have "py_split c (py_join [c] xs) = xs" by simp
  moreover have "py_split c (py_join [c] (x # xs)) = x # py_split c (py_join [c] xs)"
    using cons.hyps cons.prems [of x] by (simp add: py_join_Cons py_split_append)
  ultimately show ?case by simp
qed

lemma py_split_fields: "x \<in> set (py_split c s) \<Longrightarrow> c \<notin> set x"
proof (induction s arbitrary: x)
  case (Cons y s)
  then show ?case by (cases "py_split c s") (auto split: if_splits)
qed simp

lemma py_split1_append:
  "c \<notin> set s \<Longrightarrow> py_split1 c (s @ c # t) = [s, t]"
  by (simp add: py_split1_def takeWhile_append dropWhile_append)

lemma py_split1_no_sep: "c \<notin> set s \<Longrightarrow> py_split1 c s = [s]"
  by (simp add: py_split1_def)

lemma py_split1_cases:
  obtains "c \<notin> set s" "py_split1 c s = [s]"
  | a b where "s = a @ c # b" "c \<notin> set a" "py_split1 c s = [a, b]"
proof (cases "c \<in> set s")
  case True
  then obtain a b where "s = a @ c # b" "c \<notin> set a"
    by (meson split_list_first)
  with that(2) show ?thesis by (simp add: py_split1_append)
next
  case False
  with that(1) show ?thesis by (simp add: py_split1_no_sep)
qed

section \<open>White space and substrings\<close>

definition py_space :: "char \<Rightarrow> bool" where
  "py_space c = (let n = (of_char c :: nat)
     in (9 \<le> n \<and> n \<le> 13) \<or> (28 \<le> n \<and> n \<le> 32) \<or> n = 133 \<or> n = 160)"

definition py_lstrip :: "string \<Rightarrow> string" where
  "py_lstrip s = dropWhile py_space s"

definition py_rstrip :: "string \<Rightarrow> string" where
  "py_rstrip s = rev (dropWhile py_space (rev s))"

definition py_strip :: "string \<Rightarrow> string" where
  "py_strip s = py_rstrip (py_lstrip s)"

fun py_contains :: "'a list \<Rightarrow> 'a list \<Rightarrow> bool" where
  "py_contains p [] = (p = [])"
| "py_contains p (x # xs) = (prefix p (x # xs) \<or> py_contains p xs)"

lemma py_contains_sublist: "py_contains p s \<longleftrightarrow> sublist p s"
  by (induction s) (auto simp: sublist_Cons_right)

definition newline :: char where
  "newline = CHR 0x0A"

definition py_upper :: "string \<Rightarrow> string" where
  "py_upper s = map (\<lambda>c. if CHR ''a'' \<le> c \<and> c \<le> CHR ''z'' then char_of (of_char c - 32 :: nat) else c) s"

section \<open>Decimal numbers\<close>

definition digit_char :: "nat \<Rightarrow> char" where
  "digit_char d = char_of (48 + d)"

definition is_digit :: "char \<Rightarrow> bool" where
  "is_digit c = (48 \<le> (of_char c :: nat) \<and> (of_char c :: nat) \<le> 57)"

definition digit_val :: "char \<Rightarrow> nat" where
  "digit_val c = of_char c - 48"

fun show_nat :: "nat \<Rightarrow> string" where
  "show_nat n = (if n < 10 then [digit_char n] else show_nat (n div 10) @ [digit_char (n mod 10)])"

declare show_nat.simps [simp del]

definition show_int :: "int \<Rightarrow> string" where
  "show_int i = (if i < 0 then CHR ''-'' # show_nat (nat (- i)) else show_nat (nat i))"

text \<open>\<open>int(s)\<close> on a string of decimal digits.\<close>

definition parse_nat :: "string \<Rightarrow> nat" where
  "parse_nat s = foldl (\<lambda>n c. 10 * n + digit_val c) 0 s"

definition all_digits :: "string \<Rightarrow> bool" where
  "all_digits s = (s \<noteq> [] \<and> list_all is_digit s)"

lemma of_char_digit: "d < 10 \<Longrightarrow> of_char (digit_char d) = (48 + d :: nat)"
  by (simp add: digit_char_def)

lemma digit_char_props [simp]:
  "d < 10 \<Longrightarrow> is_digit (digit_char d)"
  "d < 10 \<Longrightarrow> digit_val (digit_char d) = d"
  by (simp_all add: is_digit_def digit_val_def of_char_digit)

lemma show_nat_digits [simp]: "list_all is_digit (show_nat n)"
proof (induction n rule: show_nat.induct)
  case (1 n)
  then show ?case by (subst show_nat.simps) auto
qed

lemma show_nat_not_Nil [simp]: "show_nat n \<noteq> []"
  by (subst show_nat.simps) simp

lemma all_digits_show_nat [simp]: "all_digits (show_nat n)"
  by (simp add: all_digits_def)

lemma parse_nat_snoc: "parse_nat (s @ [c]) = 10 * parse_nat s + digit_val c"
  by (simp add: parse_nat_def)

lemma parse_show_nat [simp, str_simps]: "parse_nat (show_nat n) = n"
proof (induction n rule: show_nat.induct)
  case (1 n)
  show ?case
  proof (cases "n < 10")
    case True
    then show ?thesis by (subst show_nat.simps) (simp add: parse_nat_def)
  next
    case False
    with 1 show ?thesis
      by (subst show_nat.simps) (simp add: parse_nat_snoc)
  qed
qed

lemma not_digit_chars [simp]:
  "\<not> is_digit CHR '' ''" "\<not> is_digit CHR ''-''" "\<not> is_digit CHR '',''" "\<not> is_digit CHR ''+''"
  "\<not> is_digit CHR ''@''" "\<not> is_digit newline" "\<not> is_digit CHR ''.''"
  by (simp_all add: is_digit_def newline_def)

lemma show_nat_no_char: "\<not> is_digit c \<Longrightarrow> c \<notin> set (show_nat n)"
  using show_nat_digits [of n] by (auto simp: list_all_iff)

section \<open>POSIX paths\<close>

text \<open>\<open>os.path.join(a, b)\<close>: an absolute second component replaces the first.\<close>

definition path_join :: "string \<Rightarrow> string \<Rightarrow> string" where
  "path_join a b =
     (if prefix ''/'' b then b
      else if a = [] \<or> last a = CHR ''/'' then a @ b
      else a @ ''/'' @ b)"

definition basename :: "string \<Rightarrow> string" where
  "basename p = last (py_split CHR ''/'' p)"

text \<open>
  \<open>os.path.normpath\<close> drops empty components and \<open>.\<close>, and lets \<open>..\<close> remove the component
  before it; at the root it is dropped, and in front of a relative path it is kept. The stack holds
  the components read so far, the last one first.
\<close>

fun norm_comps :: "bool \<Rightarrow> string list \<Rightarrow> string list \<Rightarrow> string list" where
  "norm_comps absl st [] = rev st"
| "norm_comps absl st (c # cs) =
     (if c = [] \<or> c = ''.'' then norm_comps absl st cs
      else if c \<noteq> ''..'' then norm_comps absl (c # st) cs
      else (case st of
              [] \<Rightarrow> (if absl then norm_comps absl [] cs else norm_comps absl [c] cs)
            | d # st' \<Rightarrow> (if d = ''..'' then norm_comps absl (c # st) cs else norm_comps absl st' cs)))"

definition abs_comps :: "string \<Rightarrow> string \<Rightarrow> string list" where
  \<comment> \<open>the components of \<open>os.path.abspath(p)\<close> in the working directory \<open>cwd\<close>\<close>
  "abs_comps cwd p = norm_comps True [] (py_split CHR ''/'' (path_join cwd p))"

definition posix_root :: "string \<Rightarrow> string" where
  \<comment> \<open>POSIX allows two leading slashes to mean something of their own, so \<open>normpath\<close> keeps exactly two; three or more are one\<close>
  "posix_root p = (if prefix ''//'' p \<and> \<not> prefix ''///'' p then ''//'' else ''/'')"

definition abspath :: "string \<Rightarrow> string \<Rightarrow> string" where
  "abspath cwd p = posix_root (path_join cwd p) @ py_join ''/'' (abs_comps cwd p)"

definition plain_comp :: "string \<Rightarrow> bool" where
  "plain_comp c = (c \<noteq> [] \<and> c \<noteq> ''.'' \<and> c \<noteq> ''..'' \<and> CHR ''/'' \<notin> set c)"

lemma norm_comps_plain:
  "list_all plain_comp cs \<Longrightarrow> norm_comps True st (cs @ ds) = norm_comps True (rev cs @ st) ds"
  by (induction cs arbitrary: st) (auto simp: plain_comp_def)

lemma norm_comps_up:
  "list_all plain_comp (rev st) \<Longrightarrow>
     norm_comps True st (replicate n ''..'' @ ds) = norm_comps True (drop n st) ds"
proof (induction n arbitrary: st)
  case (Suc n)
  then show ?case by (cases st) (auto simp: plain_comp_def)
qed simp

lemma plain_norm_comps:
  "list_all plain_comp st \<Longrightarrow> (\<And>c. c \<in> set cs \<Longrightarrow> CHR ''/'' \<notin> set c) \<Longrightarrow>
     list_all plain_comp (norm_comps True st cs)"
proof (induction cs arbitrary: st)
  case (Cons c cs)
  then show ?case
    by (cases st) (auto simp: plain_comp_def)
qed (simp add: list_all_iff)

lemma plain_abs_comps [simp]: "list_all plain_comp (abs_comps cwd p)"
  unfolding abs_comps_def by (rule plain_norm_comps) (auto dest: py_split_fields)

end
