(* ===== verification/Config_File.thy ===== *)
theory Config_File
  imports Py_Strings
begin

text \<open>
  \<^verbatim>\<open>utils.py\<close>: reading Python lists and Booleans out of a file, and the \<^verbatim>\<open>.ns3rc\<close>
  configuration file. A file system is a map from a path to the lines of the file; the built-in
  \<open>eval\<close> is the parameter \<open>ev\<close>, about which nothing is assumed. The lemmas say which text of
  the file is evaluated, and which errors the two readers raise.
\<close>

section \<open>Values and files\<close>

datatype pyval =
    PyNone | PyBool bool | PyInt int | PyStr string | PyTuple "pyval list" | PyList "pyval list"

primrec truthy :: "pyval \<Rightarrow> bool" where
  "truthy PyNone = False"
| "truthy (PyBool b) = b"
| "truthy (PyInt i) = (i \<noteq> 0)"
| "truthy (PyStr s) = (s \<noteq> [])"
| "truthy (PyTuple vs) = (vs \<noteq> [])"
| "truthy (PyList vs) = (vs \<noteq> [])"

type_synonym file_system = "string \<Rightarrow> string list option"
type_synonym evaluator = "string \<Rightarrow> pyval res"

section \<open>The two readers\<close>

definition strip_comment :: "string \<Rightarrow> string" where
  \<comment> \<open>\<open>if '#' in line: (line, comment) = line.split('#', 1)\<close>\<close>
  "strip_comment line = (if CHR ''#'' \<in> set line then hd (py_split1 CHR ''#'' line) else line)"

definition eval_rhs :: "evaluator \<Rightarrow> string \<Rightarrow> pyval res" where
  \<comment> \<open>\<open>eval(text.split('=', 1)[1].strip())\<close>\<close>
  "eval_rhs ev text =
     (case py_split1 CHR ''='' text of
        [_, rhs] \<Rightarrow> ev (py_strip rhs)
      | _ \<Rightarrow> Inl IndexError)"

fun scan_list :: "evaluator \<Rightarrow> string \<Rightarrow> string \<Rightarrow> bool \<Rightarrow> string list \<Rightarrow> pyval res" where
  "scan_list ev list_name list_string multi [] = Inr (PyList [])"
| "scan_list ev list_name list_string multi (l # ls) =
     (let line = strip_comment l in
      if py_contains list_name line \<or> multi then
        (let list_string' = list_string @ line in
         if CHR '']'' \<notin> set list_string' then scan_list ev list_name list_string' True ls
         else eval_rhs ev list_string')
      else scan_list ev list_name list_string multi ls)"

definition get_list_from_file :: "file_system \<Rightarrow> evaluator \<Rightarrow> string \<Rightarrow> string \<Rightarrow> pyval res" where
  "get_list_from_file fs ev file_path list_name =
     (case fs file_path of
        None \<Rightarrow> Inr (PyList [])
      | Some lines \<Rightarrow> scan_list ev list_name [] False lines)"

fun scan_bool :: "evaluator \<Rightarrow> string \<Rightarrow> string list \<Rightarrow> pyval option res" where
  \<comment> \<open>\<open>None\<close>: \<open>bool_found\<close> is still False at the end of the file\<close>
  "scan_bool ev bool_name [] = Inr None"
| "scan_bool ev bool_name (l # ls) =
     (let line = strip_comment l in
      if py_contains bool_name line then bindE (eval_rhs ev line) (\<lambda>v. Inr (Some v))
      else scan_bool ev bool_name ls)"

text \<open>
  \<open>bool_found\<close> is assigned only when the file exists, so for a missing file the test
  \<open>if bool_found\<close> reads an unbound local variable.
\<close>

definition get_bool_from_file :: "file_system \<Rightarrow> evaluator \<Rightarrow> string \<Rightarrow> string \<Rightarrow> pyval \<Rightarrow> pyval res" where
  "get_bool_from_file fs ev file_path bool_name value_if_missing =
     (case fs file_path of
        None \<Rightarrow> Inl UnboundLocalError
      | Some lines \<Rightarrow>
          bindE (scan_bool ev bool_name lines)
            (\<lambda>found. Inr (case found of None \<Rightarrow> value_if_missing | Some v \<Rightarrow> v)))"

section \<open>The configuration file\<close>

definition all_modules :: pyval where
  "all_modules = PyList [PyStr ''all_modules'']"

definition read_config_at :: "file_system \<Rightarrow> evaluator \<Rightarrow> string \<Rightarrow> (bool \<times> pyval \<times> pyval \<times> pyval) res" where
  \<comment> \<open>lines 113 to 129: the file was found\<close>
  "read_config_at fs ev path =
     bindE (get_list_from_file fs ev path ''modules_enabled'') (\<lambda>mods.
     let modules_enabled = (if truthy mods then mods else all_modules) in
     bindE (get_bool_from_file fs ev path ''examples_enabled'' (PyBool False)) (\<lambda>examples_enabled.
     bindE (get_bool_from_file fs ev path ''tests_enabled'' (PyBool False)) (\<lambda>tests_enabled.
     Inr (True, modules_enabled, examples_enabled, tests_enabled))))"

definition read_config_file ::
    "file_system \<Rightarrow> evaluator \<Rightarrow> string \<Rightarrow> (bool \<times> pyval \<times> pyval \<times> pyval) res" where
  \<comment> \<open>\<open>home\<close> is \<open>os.path.expanduser('~/')\<close>\<close>
  "read_config_file fs ev home =
     (if fs ''.ns3rc'' = None
      then (if fs (home @ ''.ns3rc'') = None
            then Inr (False, all_modules, PyBool False, PyBool False)
            else read_config_at fs ev (home @ ''.ns3rc''))
      else read_config_at fs ev ''.ns3rc'')"

section \<open>Which text is evaluated\<close>

lemma strip_comment_no_hash [simp]: "CHR ''#'' \<notin> set (strip_comment l)"
  by (rule py_split1_cases [of "CHR ''#''" l]) (auto simp: strip_comment_def)

lemma strip_comment_id: "CHR ''#'' \<notin> set l \<Longrightarrow> strip_comment l = l"
  by (simp add: strip_comment_def)

lemma strip_comment_hash: "CHR ''#'' \<notin> set a \<Longrightarrow> strip_comment (a @ CHR ''#'' # b) = a"
  by (simp add: strip_comment_def py_split1_append)

lemma scan_list_skip:
  "\<forall>l \<in> set pre. \<not> py_contains nm (strip_comment l) \<Longrightarrow>
     scan_list ev nm acc False (pre @ ls) = scan_list ev nm acc False ls"
  by (induction pre) auto

lemma scan_list_multi:
  "CHR '']'' \<notin> set (acc @ concat (map strip_comment mid)) \<Longrightarrow>
     scan_list ev nm acc True (mid @ ls) =
     scan_list ev nm (acc @ concat (map strip_comment mid)) True ls"
  by (induction mid arbitrary: acc) (auto simp: Let_def)

lemma scan_list_hit:
  assumes "py_contains nm (strip_comment l)"
    and "CHR '']'' \<notin> set (concat (map strip_comment (butlast (l # mid))))"
    and "CHR '']'' \<in> set (strip_comment (last (l # mid)))"
  shows "scan_list ev nm [] False ((l # mid) @ post) = eval_rhs ev (concat (map strip_comment (l # mid)))"
proof (cases mid rule: rev_cases)
  case Nil
  with assms show ?thesis by (simp add: Let_def)
next
  case (snoc init z)
  from assms(2) snoc have *: "CHR '']'' \<notin> set (strip_comment l @ concat (map strip_comment init))"
    by (auto simp: butlast_append)
  then have "scan_list ev nm [] False ((l # mid) @ post) =
      scan_list ev nm (strip_comment l) True (init @ z # post)"
    using assms(1) snoc by (simp add: Let_def)
  also have "\<dots> = scan_list ev nm (strip_comment l @ concat (map strip_comment init)) True (z # post)"
    by (rule scan_list_multi) (use * in simp)
  also have "\<dots> = eval_rhs ev (concat (map strip_comment (l # mid)))"
    using assms(3) snoc by (simp add: Let_def)
  finally show ?thesis .
qed

lemma eval_rhs_split: "CHR ''='' \<notin> set lhs \<Longrightarrow> eval_rhs ev (lhs @ CHR ''='' # rhs) = ev (py_strip rhs)"
  by (simp add: eval_rhs_def py_split1_append)

lemma scan_bool_skip:
  "\<forall>l \<in> set pre. \<not> py_contains nm (strip_comment l) \<Longrightarrow> scan_bool ev nm (pre @ ls) = scan_bool ev nm ls"
  by (induction pre) auto

lemma eval_rhs_Inl: "eval_rhs ev t = Inl e \<Longrightarrow> e = IndexError \<or> (\<exists>s. ev s = Inl e)"
  by (rule py_split1_cases [of "CHR ''=''" t]) (auto simp: eval_rhs_def)

lemma scan_list_Inl: "scan_list ev nm acc m ls = Inl e \<Longrightarrow> e = IndexError \<or> (\<exists>s. ev s = Inl e)"
  by (induction ls arbitrary: acc m) (auto simp: Let_def split: if_splits dest: eval_rhs_Inl)

lemma scan_bool_Inl: "scan_bool ev nm ls = Inl e \<Longrightarrow> e = IndexError \<or> (\<exists>s. ev s = Inl e)"
  by (induction ls) (auto simp: Let_def bindE_Inl_conv split: if_splits dest: eval_rhs_Inl)

lemma get_list_Inl: "get_list_from_file fs ev p nm = Inl e \<Longrightarrow> e = IndexError \<or> (\<exists>s. ev s = Inl e)"
  by (auto simp: get_list_from_file_def split: option.splits dest: scan_list_Inl)

lemma get_bool_Inl:
  "fs p \<noteq> None \<Longrightarrow> get_bool_from_file fs ev p nm d = Inl e \<Longrightarrow> e = IndexError \<or> (\<exists>s. ev s = Inl e)"
  using scan_bool_Inl [of ev nm _ e]
  by (cases "fs p") (fastforce simp: get_bool_from_file_def bindE_Inl_conv)+

section \<open>Properties\<close>

text \<open>
  a list that spans several lines is read whole, whatever comments its lines carry and
  whatever follows it. If the lines before it do not mention the name, its first line does, and the
  first closing bracket is on its last line, the reader evaluates exactly the text after the first
  equals sign, comments removed and white space stripped.
\<close>

theorem get_list_from_file_spec:
  assumes "fs path = Some (pre @ (l # mid) @ post)"
    and "\<forall>x \<in> set pre. \<not> py_contains nm (strip_comment x)"
    and "py_contains nm (strip_comment l)"
    and "CHR '']'' \<notin> set (concat (map strip_comment (butlast (l # mid))))"
    and "CHR '']'' \<in> set (strip_comment (last (l # mid)))"
    and "concat (map strip_comment (l # mid)) = lhs @ CHR ''='' # rhs"
    and "CHR ''='' \<notin> set lhs"
  shows "get_list_from_file fs ev path nm = ev (py_strip rhs)"
proof -
  have "get_list_from_file fs ev path nm = scan_list ev nm [] False ((l # mid) @ post)"
    using assms(1) scan_list_skip [OF assms(2)] by (simp add: get_list_from_file_def)
  also have "\<dots> = eval_rhs ev (lhs @ CHR ''='' # rhs)"
    using scan_list_hit [OF assms(3-5)] assms(6) by simp
  finally show ?thesis using assms(7) by (simp add: eval_rhs_split)
qed

theorem get_list_from_file_spec_witness:
  "get_list_from_file [''f'' \<mapsto> [''x = 1'', ''mods = [1, # one'', '' 2]'', ''mods = []'']]
     (\<lambda>s. Inr (PyStr s)) ''f'' ''mods'' = Inr (PyStr ''[1,  2]'')"
proof -
  have "get_list_from_file [''f'' \<mapsto> [''x = 1''] @ (''mods = [1, # one'' # ['' 2]'']) @ [''mods = []'']]
     (\<lambda>s. Inr (PyStr s)) ''f'' ''mods'' = Inr (PyStr (py_strip '' [1,  2]''))"
    by (rule get_list_from_file_spec [where pre = "[''x = 1'']" and l = "''mods = [1, # one''"
          and mid = "['' 2]'']" and post = "[''mods = []'']" and lhs = "''mods ''"])
      (simp_all add: strip_comment_def py_split1_def)
  then show ?thesis
    by (simp add: py_strip_def py_lstrip_def py_rstrip_def py_space_def)
qed

text \<open>
  for a file that does not exist \<^verbatim>\<open>get_bool_from_file\<close> raises an unbound-variable
  error, whatever the value to return when missing; its doc comment promises that value.
\<close>

theorem get_bool_missing_file:
  "get_bool_from_file (fs(path := None)) ev path nm d = Inl UnboundLocalError"
  by (simp add: get_bool_from_file_def)

text \<open>
  \<^verbatim>\<open>read_config_file\<close> never meets that error: it looks for the file first, so an
  error it raises is the missing equals sign of a line or comes from evaluating a line's text. With
  no configuration file it returns the documented defaults.
\<close>

theorem read_config_file_errors:
  "(read_config_file fs ev home = Inl e \<longrightarrow> e = IndexError \<or> (\<exists>s. ev s = Inl e)) \<and>
   read_config_file Map.empty ev home = Inr (False, all_modules, PyBool False, PyBool False)"
proof -
  have "e = IndexError \<or> (\<exists>s. ev s = Inl e)"
    if "read_config_at fs ev p = Inl e" and "fs p \<noteq> None" for p
    using that(1) get_bool_Inl [of fs p, OF that(2)] get_list_Inl [of fs ev p]
    by (fastforce simp: read_config_at_def bindE_Inl_conv Let_def)
  then show ?thesis by (auto simp: read_config_file_def split: if_splits)
qed

theorem read_config_file_errors_witness:
  "read_config_file [''.ns3rc'' \<mapsto> [''modules_enabled []'']] (\<lambda>s. Inr PyNone) ''~/'' = Inl IndexError \<and>
   (IndexError = IndexError \<or> (\<exists>s. (\<lambda>s::string. Inr PyNone :: pyval res) s = Inl IndexError))"
proof -
  have "read_config_file [''.ns3rc'' \<mapsto> [''modules_enabled []'']] (\<lambda>s. Inr PyNone) ''~/'' = Inl IndexError"
    by (simp add: read_config_file_def read_config_at_def get_list_from_file_def strip_comment_def
        eval_rhs_def py_split1_def)
  with read_config_file_errors [of "[''.ns3rc'' \<mapsto> [''modules_enabled []'']]" "\<lambda>s. Inr PyNone" "''~/''"]
  show ?thesis by blast
qed

end
