(* ===== verification/Wutils_Path.thy ===== *)
theory Wutils_Path
  imports Py_Strings
begin

text \<open>
  The pure helpers of \<^verbatim>\<open>wutils.py\<close>: \<open>relpath\<close> (the fallback for interpreters whose
  \<^verbatim>\<open>os.path\<close> has none), \<open>uniquify_list\<close> and \<open>get_command_template\<close>. The main
  lemma resolves a relative path again and finds the path it was computed from.
\<close>

section \<open>Relative paths\<close>

fun common_len :: "'a list \<Rightarrow> 'a list \<Rightarrow> nat" where
  \<comment> \<open>\<open>len(os.path.commonprefix([xs, ys]))\<close>\<close>
  "common_len (x # xs) (y # ys) = (if x = y then Suc (common_len xs ys) else 0)"
| "common_len _ _ = 0"

definition join_all :: "string list \<Rightarrow> string" where
  \<comment> \<open>\<open>os.path.join(*rel_list)\<close>\<close>
  "join_all rel_list = foldl path_join (hd rel_list) (tl rel_list)"

definition relpath :: "string \<Rightarrow> string \<Rightarrow> string \<Rightarrow> string res" where
  "relpath cwd path start =
     (if path = [] then Inl ValueError
      else let start_list = py_split CHR ''/'' (abspath cwd start);
               path_list = py_split CHR ''/'' (abspath cwd path);
               i = common_len start_list path_list;
               rel_list = replicate (length start_list - i) ''..'' @ drop i path_list
           in if rel_list = [] then Inr ''.'' else Inr (join_all rel_list))"

text \<open>\<open>os.path.relpath\<close> of the standard library drops the empty component of the root.\<close>

definition os_relpath :: "string \<Rightarrow> string \<Rightarrow> string \<Rightarrow> string res" where
  "os_relpath cwd path start =
     (if path = [] then Inl ValueError
      else let start_list = abs_comps cwd start;
               path_list = abs_comps cwd path;
               i = common_len start_list path_list;
               rel_list = replicate (length start_list - i) ''..'' @ drop i path_list
           in if rel_list = [] then Inr ''.'' else Inr (join_all rel_list))"

section \<open>Order-preserving removal of duplicates\<close>

fun uniquify_from :: "'a list \<Rightarrow> 'a list \<Rightarrow> 'a list" where
  \<comment> \<open>the first argument is the set \<open>seen\<close>\<close>
  "uniquify_from seen [] = []"
| "uniquify_from seen (x # xs) =
     (if x \<in> set seen then uniquify_from seen xs else x # uniquify_from (x # seen) xs)"

definition uniquify_list :: "'a list \<Rightarrow> 'a list" where
  "uniquify_list seq = uniquify_from [] seq"

definition get_command_template :: "string \<Rightarrow> string list \<Rightarrow> string" where
  \<comment> \<open>\<open>tmpl\<close> is \<open>Options.options.command_template\<close>; \<open>None\<close> and the empty string are falsy\<close>
  "get_command_template tmpl arguments =
     foldl (\<lambda>cmd arg. cmd @ '' '' @ arg) (if tmpl = [] then ''%s'' else tmpl) arguments"

section \<open>Joining and normalising\<close>

lemma norm_comps_append:
  "norm_comps True st (xs @ ys) = norm_comps True (rev (norm_comps True st xs)) ys"
proof (induction xs arbitrary: st)
  case (Cons x xs)
  then show ?case by (cases st) auto
qed simp

lemma norm_comps_skip_Nil: "norm_comps True st ([] # cs) = norm_comps True st cs"
  by simp

lemma py_split_snoc: "py_split c (s @ [c]) = py_split c s @ [[]]"
proof (induction s)
  case (Cons x s)
  then show ?case by (cases "py_split c s") auto
qed simp

lemma py_split_append_any: "py_split c (s @ c # t) = py_split c s @ py_split c t"
proof (induction s)
  case (Cons x s)
  then show ?case by (cases "py_split c s") auto
qed simp

lemma norm_split_path_join:
  assumes "\<not> prefix ''/'' b"
  shows "norm_comps True [] (py_split CHR ''/'' (path_join a b)) =
         norm_comps True [] (py_split CHR ''/'' a @ py_split CHR ''/'' b)"
proof (cases a rule: rev_cases)
  case Nil
  with assms show ?thesis by (simp add: path_join_def)
next
  case (snoc a' c)
  show ?thesis
  proof (cases "c = CHR ''/''")
    case True
    with snoc assms show ?thesis
      by (simp add: path_join_def py_split_snoc py_split_append_any norm_comps_append)
  next
    case False
    with snoc assms show ?thesis
      by (simp add: path_join_def py_split_append_any [of _ "a' @ [c]", simplified])
  qed
qed

lemma abs_comps_join:
  assumes "\<not> prefix ''/'' r"
  shows "abs_comps cwd (path_join start r) =
         norm_comps True (rev (abs_comps cwd start)) (py_split CHR ''/'' r)"
proof (cases "prefix ''/'' start")
  case True
  then have "prefix ''/'' (path_join start r)"
    using assms by (auto simp: path_join_def)
  then have "abs_comps cwd (path_join start r) = norm_comps True [] (py_split CHR ''/'' (path_join start r))"
    by (simp add: abs_comps_def path_join_def)
  also have "\<dots> = norm_comps True (rev (norm_comps True [] (py_split CHR ''/'' start))) (py_split CHR ''/'' r)"
    by (simp add: norm_split_path_join [OF assms] norm_comps_append)
  finally show ?thesis using True by (simp add: abs_comps_def path_join_def)
next
  case False
  then have no: "\<not> prefix ''/'' (path_join start r)"
    using assms by (cases start) (auto simp: path_join_def)
  have "abs_comps cwd (path_join start r) =
      norm_comps True (rev (norm_comps True [] (py_split CHR ''/'' cwd))) (py_split CHR ''/'' (path_join start r))"
    by (simp add: abs_comps_def norm_split_path_join [OF no] norm_comps_append)
  moreover have "norm_comps True st (py_split CHR ''/'' (path_join start r)) =
      norm_comps True st (py_split CHR ''/'' start @ py_split CHR ''/'' r)" for st
  proof (cases start rule: rev_cases)
    case Nil
    with assms show ?thesis by (simp add: path_join_def)
  next
    case (snoc a' c)
    with assms show ?thesis
      by (cases "c = CHR ''/''")
        (simp_all add: path_join_def py_split_snoc py_split_append_any norm_comps_append
          py_split_append_any [of _ "a' @ [c]", simplified])
  qed
  ultimately show ?thesis
    by (simp add: abs_comps_def norm_split_path_join [OF False] norm_comps_append)
qed

section \<open>What a relative path resolves to\<close>

text \<open>
  The list that is joined holds components and, from the root, empty strings. Reading the joined
  text back gives the same components as the list, whatever directory it is read in.
\<close>

abbreviation relative :: "string \<Rightarrow> bool" where
  "relative b \<equiv> \<not> prefix ''/'' b"

lemma norm_comps_nonempty: "norm_comps True st cs = norm_comps True st (filter (\<lambda>c. c \<noteq> []) cs)"
proof (induction cs arbitrary: st)
  case (Cons c cs)
  then show ?case by (cases st) auto
qed simp

lemma norm_split_join:
  assumes "relative b"
  shows "norm_comps True st (py_split CHR ''/'' (path_join a b)) = norm_comps True st (py_split CHR ''/'' a @ py_split CHR ''/'' b)"
proof (cases a rule: rev_cases)
  case (snoc a' c)
  with assms show ?thesis
    by (cases "c = CHR ''/''")
      (simp_all add: path_join_def py_split_snoc py_split_append_any norm_comps_append
        py_split_append_any [of _ "a' @ [c]", simplified])
qed (use assms in \<open>simp add: path_join_def\<close>)

definition rel_part :: "string \<Rightarrow> bool" where
  "rel_part c = (CHR ''/'' \<notin> set c)"

lemma rel_part_props: "rel_part c \<Longrightarrow> relative c" "rel_part c \<Longrightarrow> py_split CHR ''/'' c = [c]"
  by (auto simp: rel_part_def py_split_no_sep prefix_def)

lemma relative_join: "relative a \<Longrightarrow> relative b \<Longrightarrow> relative (path_join a b)"
  by (cases a) (auto simp: path_join_def)

lemma fold_join:
  assumes "relative a" and "list_all rel_part xs"
  shows "relative (foldl path_join a xs)"
    "norm_comps True st (py_split CHR ''/'' (foldl path_join a xs)) = norm_comps True st (py_split CHR ''/'' a @ xs)"
  using assms
proof (induction xs arbitrary: a)
  case (Cons b xs)
  { case 1 then show ?case using Cons.IH(1) by (simp add: relative_join rel_part_props) }
  { case 2
    then have b: "relative b" "py_split CHR ''/'' b = [b]" "relative (path_join a b)" by (simp_all add: relative_join rel_part_props)
    have "norm_comps True st (py_split CHR ''/'' (foldl path_join a (b # xs))) =
        norm_comps True st (py_split CHR ''/'' (path_join a b) @ xs)"
      using Cons.IH(2) b(3) 2 by simp
    also have "\<dots> = norm_comps True st ((py_split CHR ''/'' a @ [b]) @ xs)"
      unfolding norm_comps_append [of st _ xs] norm_split_join [OF b(1)] b(2) ..
    finally show ?case by simp }
qed simp_all

lemma join_all_read:
  assumes "list_all rel_part rel" and "rel \<noteq> []"
  shows "relative (join_all rel)" "norm_comps True st (py_split CHR ''/'' (join_all rel)) = norm_comps True st rel"
proof -
  obtain x xs where rel: "rel = x # xs" using assms(2) by (cases rel) auto
  show "relative (join_all rel)" "norm_comps True st (py_split CHR ''/'' (join_all rel)) = norm_comps True st rel"
    using fold_join [of x xs] assms(1) by (simp_all add: join_all_def rel rel_part_props)
qed

lemma posix_root_join: "relative r \<Longrightarrow> posix_root (path_join a r) = posix_root a"
proof -
  assume r: "relative r"
  show ?thesis
  proof (cases a)
    case Nil
    with r show ?thesis by (cases r) (auto simp: posix_root_def path_join_def)
  next
    case (Cons c1 a1)
    show ?thesis
    proof (cases a1)
      case Nil
      with r Cons show ?thesis by (cases r) (auto simp: posix_root_def path_join_def)
    next
      case c2: (Cons c2 a2)
      with r Cons show ?thesis by (cases a2; cases r) (auto simp: posix_root_def path_join_def)
    qed
  qed
qed

lemma path_root_joined: "relative r \<Longrightarrow> posix_root (path_join cwd (path_join start r)) = posix_root (path_join cwd start)"
proof (cases "relative start")
  case True
  assume "relative r"
  then show ?thesis using True by (simp add: posix_root_join relative_join)
next
  case False
  assume r: "relative r"
  from False have "\<not> relative (path_join start r)" using r by (auto simp: path_join_def)
  with False have "path_join cwd (path_join start r) = path_join start r" "path_join cwd start = start"
    by (simp_all add: path_join_def)
  then show ?thesis using r by (simp add: posix_root_join)
qed

text \<open>The list of a path: its root gives one or two empty strings, and an empty rest one more.\<close>

definition rooted :: "bool \<Rightarrow> string list \<Rightarrow> string list" where
  "rooted two cs = (if two then [[]] else []) @ [] # (if cs = [] then [[]] else cs)"

lemma abspath_split: "py_split CHR ''/'' (abspath cwd p) = rooted (posix_root (path_join cwd p) = ''//'') (abs_comps cwd p)"
proof (cases "abs_comps cwd p = []")
  case False
  have "py_split CHR ''/'' (py_join ''/'' (abs_comps cwd p)) = abs_comps cwd p"
    by (rule py_split_join [OF False])
      (use plain_abs_comps [of cwd p] in \<open>auto simp: list_all_iff plain_comp_def\<close>)
  with False show ?thesis by (simp add: abspath_def rooted_def posix_root_def)
qed (simp add: abspath_def rooted_def posix_root_def)

lemma common_len_le: "common_len xs ys \<le> length xs" "common_len xs ys \<le> length ys"
  by (induction xs ys rule: common_len.induct) auto

lemma common_len_take: "take (common_len xs ys) xs = take (common_len xs ys) ys"
  by (induction xs ys rule: common_len.induct) auto

lemma resolve_rel_list:
  assumes "list_all plain_comp sl" and "list_all plain_comp pl"
  shows "norm_comps True (rev sl) (replicate (length sl - common_len sl pl) ''..'' @ drop (common_len sl pl) pl) = pl"
proof -
  let ?i = "common_len sl pl"
  have "norm_comps True (rev sl) (replicate (length sl - ?i) ''..'' @ drop ?i pl) =
      norm_comps True (drop (length sl - ?i) (rev sl)) (drop ?i pl)"
    by (rule norm_comps_up) (use assms(1) in simp)
  also have "drop (length sl - ?i) (rev sl) = rev (take ?i pl)"
    by (simp add: drop_rev common_len_le common_len_take)
  also have "norm_comps True (rev (take ?i pl)) (drop ?i pl) = pl"
    using norm_comps_plain [of "drop ?i pl" "rev (take ?i pl)" "[]"] assms(2)
    by (simp add: list_all_iff) (metis append_take_drop_id in_set_dropD rev_append rev_rev_ident)
  finally show ?thesis .
qed

text \<open>Enough steps up lead to the root, and empty strings do not count.\<close>

lemma resolve_from_root:
  assumes "list_all plain_comp sl" "list_all plain_comp pl" and "length sl \<le> k" and "filter (\<lambda>c. c \<noteq> []) cs = pl"
  shows "norm_comps True (rev sl) (replicate k ''..'' @ cs) = pl"
proof -
  have "norm_comps True (rev sl) (replicate k ''..'' @ cs) = norm_comps True (drop k (rev sl)) cs"
    by (rule norm_comps_up) (use assms(1) in simp)
  also have "\<dots> = norm_comps True [] pl" using assms(3,4) by (subst norm_comps_nonempty) simp
  also have "\<dots> = pl" using norm_comps_plain [of pl "[]" "[]"] assms(2) by simp
  finally show ?thesis .
qed

lemma plain_nonempty: "list_all plain_comp cs \<Longrightarrow> filter (\<lambda>c. c \<noteq> []) cs = cs"
  by (auto simp: list_all_iff plain_comp_def intro: filter_True)

lemma resolve_rooted:
  fixes sl pl :: "string list" and s2 p2 :: bool
  defines "L \<equiv> rooted s2 sl" and "M \<equiv> rooted p2 pl"
  assumes plain: "list_all plain_comp sl" "list_all plain_comp pl"
  shows "norm_comps True (rev sl) (replicate (length L - common_len L M) ''..'' @ drop (common_len L M) M) = pl"
proof (cases "sl = [] \<or> pl = [] \<or> s2 \<noteq> p2")
  case True
  have first: "sl \<noteq> [] \<Longrightarrow> hd sl \<noteq> []" "pl \<noteq> [] \<Longrightarrow> hd pl \<noteq> []" using plain by (cases sl; cases pl; auto simp: plain_comp_def)+
  have "length sl \<le> length L - common_len L M" "filter (\<lambda>c. c \<noteq> []) (drop (common_len L M) M) = pl"
    using True first plain_nonempty [OF plain(2)] by (cases sl; cases pl; cases s2; cases p2; simp add: L_def M_def rooted_def)+
  then show ?thesis by (rule resolve_from_root [OF plain])
next
  case False
  then show ?thesis using resolve_rel_list [OF plain] by (cases s2) (simp_all add: L_def M_def rooted_def)
qed

lemma rel_parts:
  assumes "list_all plain_comp pl"
  shows "list_all rel_part (replicate n ''..'' @ drop i (rooted b pl))"
proof -
  have sub: "set (rooted b pl) \<subseteq> insert [] (set pl)" by (cases b; cases pl) (auto simp: rooted_def)
  have part: "rel_part c" if "c \<in> insert [] (set pl)" for c
  proof (cases "c = []")
    case False
    then have "plain_comp c" using that assms unfolding list_all_iff by blast
    then show ?thesis by (simp add: plain_comp_def rel_part_def)
  qed (simp add: rel_part_def)
  have "list_all rel_part (drop i (rooted b pl))"
    unfolding list_all_iff
  proof
    fix c
    assume "c \<in> set (drop i (rooted b pl))"
    then have "c \<in> set (rooted b pl)" by (rule in_set_dropD)
    then show "rel_part c" by (intro part subsetD [OF sub])
  qed
  moreover have "rel_part ''..''" by (simp add: rel_part_def)
  then have "list_all rel_part (replicate n ''..'')" by (induction n) simp_all
  ultimately show ?thesis by simp
qed

lemma os_relpath_resolves:
  assumes "path \<noteq> []"
  shows "\<exists>r. os_relpath cwd path start = Inr r \<and> relative r \<and> abs_comps cwd (path_join start r) = abs_comps cwd path"
proof -
  let ?sl = "abs_comps cwd start" and ?pl = "abs_comps cwd path"
  let ?rel = "replicate (length ?sl - common_len ?sl ?pl) ''..'' @ drop (common_len ?sl ?pl) ?pl"
  have res: "norm_comps True (rev ?sl) ?rel = ?pl" by (rule resolve_rel_list) simp_all
  have "drop (common_len ?sl ?pl) ?pl = drop (1 + common_len ?sl ?pl) (rooted False ?pl) \<or> drop (common_len ?sl ?pl) ?pl = []"
    by (auto simp: rooted_def)
  then have parts: "list_all rel_part ?rel"
    using rel_parts [of ?pl "length ?sl - common_len ?sl ?pl" "1 + common_len ?sl ?pl" False] by (elim disjE) simp_all
  show ?thesis
  proof (cases "?rel = []")
    case True
    then have "os_relpath cwd path start = Inr ''.''" using assms by (simp add: os_relpath_def Let_def)
    moreover have "abs_comps cwd (path_join start ''.'') = ?pl" using res True by (simp add: abs_comps_join)
    ultimately show ?thesis by simp
  next
    case False
    then have "os_relpath cwd path start = Inr (join_all ?rel)"
      unfolding os_relpath_def Let_def using assms by (simp only: if_False)
    moreover have "abs_comps cwd (path_join start (join_all ?rel)) = ?pl"
      unfolding abs_comps_join [OF join_all_read(1) [OF parts False]] join_all_read(2) [OF parts False] by (rule res)
    ultimately show ?thesis using join_all_read(1) [OF parts False] by blast
  qed
qed

lemma relpath_resolves:
  assumes "path \<noteq> []"
  shows "\<exists>r. relpath cwd path start = Inr r \<and> relative r \<and> abs_comps cwd (path_join start r) = abs_comps cwd path"
proof -
  let ?sl = "abs_comps cwd start" and ?pl = "abs_comps cwd path"
  let ?L = "rooted (posix_root (path_join cwd start) = ''//'') ?sl" and ?M = "rooted (posix_root (path_join cwd path) = ''//'') ?pl"
  let ?rel = "replicate (length ?L - common_len ?L ?M) ''..'' @ drop (common_len ?L ?M) ?M"
  have res: "norm_comps True (rev ?sl) ?rel = ?pl" by (rule resolve_rooted) simp_all
  have parts: "list_all rel_part ?rel" by (rule rel_parts) simp
  show ?thesis
  proof (cases "?rel = []")
    case True
    then have "relpath cwd path start = Inr ''.''" using assms by (simp add: relpath_def abspath_split Let_def)
    moreover have "abs_comps cwd (path_join start ''.'') = ?pl" using res True by (simp add: abs_comps_join)
    ultimately show ?thesis by simp
  next
    case False
    then have "relpath cwd path start = Inr (join_all ?rel)"
      unfolding relpath_def abspath_split Let_def using assms by (simp only: if_False)
    moreover have "abs_comps cwd (path_join start (join_all ?rel)) = ?pl"
      unfolding abs_comps_join [OF join_all_read(1) [OF parts False]] join_all_read(2) [OF parts False] by (rule res)
    ultimately show ?thesis using join_all_read(1) [OF parts False] by blast
  qed
qed

section \<open>Properties\<close>

text \<open>
  C15: \<open>relpath\<close> raises for an empty path only. For any other path its result is relative, and joined
  to the start directory it names the path again: the components are the same, with \<open>.\<close>, \<open>..\<close> and
  repeated slashes, at the root and for relative arguments. The root is that of the start directory,
  so the location is the same exactly when both or neither of the two have a root of two slashes.
\<close>

theorem relpath_roundtrip:
  "relpath cwd [] start = Inl ValueError \<and>
   (path \<noteq> [] \<longrightarrow> (\<exists>r. relpath cwd path start = Inr r \<and> \<not> prefix ''/'' r \<and>
      abspath cwd (path_join start r) = posix_root (path_join cwd start) @ py_join ''/'' (abs_comps cwd path) \<and>
      (abspath cwd (path_join start r) = abspath cwd path \<longleftrightarrow> posix_root (path_join cwd start) = posix_root (path_join cwd path))))"
proof (intro conjI impI)
  show "relpath cwd [] start = Inl ValueError" by (simp add: relpath_def)
  assume "path \<noteq> []"
  then obtain r where r: "relpath cwd path start = Inr r" "relative r" "abs_comps cwd (path_join start r) = abs_comps cwd path"
    using relpath_resolves by blast
  have "abspath cwd (path_join start r) = posix_root (path_join cwd start) @ py_join ''/'' (abs_comps cwd path)"
    using r by (simp add: abspath_def path_root_joined)
  with r show "\<exists>r. relpath cwd path start = Inr r \<and> relative r \<and>
      abspath cwd (path_join start r) = posix_root (path_join cwd start) @ py_join ''/'' (abs_comps cwd path) \<and>
      (abspath cwd (path_join start r) = abspath cwd path \<longleftrightarrow> posix_root (path_join cwd start) = posix_root (path_join cwd path))"
    by (auto simp: abspath_def)
qed

theorem relpath_roundtrip_witness:
  "(\<exists>r. relpath ''/w'' ''b/../c'' ''/w/a/d'' = Inr r \<and> abspath ''/w'' (path_join ''/w/a/d'' r) = abspath ''/w'' ''b/../c'') \<and>
   (\<exists>r. relpath ''/w'' ''//a'' ''/a'' = Inr r \<and> abspath ''/w'' (path_join ''/a'' r) \<noteq> abspath ''/w'' ''//a'')"
proof -
  have "posix_root (path_join ''/w'' ''/w/a/d'') = posix_root (path_join ''/w'' ''b/../c'')" "posix_root (path_join ''/w'' ''/a'') \<noteq> posix_root (path_join ''/w'' ''//a'')"
    by code_simp+
  moreover have "''b/../c'' \<noteq> []" "''//a'' \<noteq> []" by simp_all
  ultimately show ?thesis
    using relpath_roundtrip [of "''/w''" "''/w/a/d''" "''b/../c''"] relpath_roundtrip [of "''/w''" "''/a''" "''//a''"] by blast
qed

text \<open>
  \<open>uniquify_list\<close> keeps the first occurrence of every element, in order: it is the reverse of
  the library's \<open>remdups\<close> (which keeps last occurrences) on the reversed sequence.
\<close>

lemma uniquify_from_filter:
  "uniquify_from seen xs = filter (\<lambda>x. x \<notin> set seen) (rev (remdups (rev xs)))"
proof (induction xs arbitrary: seen)
  case (Cons x xs)
  have "rev (remdups (rev xs @ [x])) = x # filter (\<lambda>y. y \<noteq> x) (rev (remdups (rev xs)))"
  proof (induction xs rule: rev_induct)
    case (snoc y ys)
    then show ?case by auto
  qed simp
  with Cons.IH show ?case by (auto intro: filter_cong)
qed simp

theorem uniquify_list_first_occurrences:
  "uniquify_list seq = rev (remdups (rev seq))"
  by (simp add: uniquify_list_def uniquify_from_filter)

end
