(* ===== verification/Test_Env.thy ===== *)
theory Test_Env
  imports Complex_Main Config_File Wutils_Path
begin

text \<open>
  The environment of \<^verbatim>\<open>test.py\<close>: the configuration variables read out of waf's state
  (\<open>read_waf_config\<close>), the search paths handed to the child processes (\<open>make_paths\<close>), one
  child process run to its end (\<open>run_job_synchronously\<close>), and the examples that can be run
  (\<open>parse_examples_to_run_file\<close>). A child process is the parameter \<open>proc\<close>, from the
  command line and directory to its outcome; \<open>eval\<close> and \<open>exec\<close> are parameters too. Printing
  in verbose mode is left out.
\<close>

section \<open>Configuration variables\<close>

record waf_config =
  NS3_BASEDIR :: string
  NS3_BUILDDIR :: string
  NS3_ENABLED_MODULES :: "string list option"
  NS3_ENABLED_CONTRIBUTED_MODULES :: "string list option"
  NS3_MODULE_PATH :: "string list option"
  NSC_ENABLED :: bool
  ENABLE_REAL_TIME :: bool
  ENABLE_THREADING :: bool
  ENABLE_EXAMPLES :: bool
  ENABLE_TESTS :: bool
  NSCLICK :: bool
  ENABLE_BRITE :: bool
  ENABLE_OPENFLOW :: bool
  ENABLE_PYTHON_BINDINGS :: "bool option"
  EXAMPLE_DIRECTORIES :: "string list"
  APPNAME :: string
  BUILD_PROFILE :: string
  BUILD_PROFILE_SUFFIX :: string
  VERSION :: string
  PYTHON :: "string list"
  VALGRIND_FOUND :: bool

text \<open>
  The module-level assignments. A variable of type \<open>option\<close> has none: it exists only once the
  configuration cache has been executed. The two directories are assigned before they are read.
\<close>

definition initial_config :: waf_config where
  "initial_config =
     \<lparr> NS3_BASEDIR = [], NS3_BUILDDIR = [], NS3_ENABLED_MODULES = None,
       NS3_ENABLED_CONTRIBUTED_MODULES = None, NS3_MODULE_PATH = None,
       NSC_ENABLED = False, ENABLE_REAL_TIME = False, ENABLE_THREADING = False,
       ENABLE_EXAMPLES = True, ENABLE_TESTS = True, NSCLICK = False, ENABLE_BRITE = False,
       ENABLE_OPENFLOW = False, ENABLE_PYTHON_BINDINGS = None, EXAMPLE_DIRECTORIES = [],
       APPNAME = [], BUILD_PROFILE = [], BUILD_PROFILE_SUFFIX = [], VERSION = [], PYTHON = [],
       VALGRIND_FOUND = True \<rparr>"

definition interesting_config_items :: "string list" where
  "interesting_config_items =
     [''NS3_ENABLED_MODULES'', ''NS3_ENABLED_CONTRIBUTED_MODULES'', ''NS3_MODULE_PATH'',
      ''NSC_ENABLED'', ''ENABLE_REAL_TIME'', ''ENABLE_THREADING'', ''ENABLE_EXAMPLES'',
      ''ENABLE_TESTS'', ''EXAMPLE_DIRECTORIES'', ''ENABLE_PYTHON_BINDINGS'', ''NSCLICK'',
      ''ENABLE_BRITE'', ''ENABLE_OPENFLOW'', ''APPNAME'', ''BUILD_PROFILE'', ''VERSION'',
      ''PYTHON'', ''VALGRIND_FOUND'']"

type_synonym executor = "string \<Rightarrow> waf_config \<Rightarrow> waf_config res"

definition read_assignment :: "evaluator \<Rightarrow> string \<Rightarrow> pyval res" where
  \<comment> \<open>\<open>key, val = line.split('='); eval(val.strip())\<close>\<close>
  "read_assignment ev line =
     (case py_split CHR ''='' line of [_, val] \<Rightarrow> ev (py_strip val) | _ \<Rightarrow> Inl ValueError)"

definition scan_lock_line ::
    "evaluator \<Rightarrow> pyval option \<times> pyval option \<Rightarrow> string \<Rightarrow> (pyval option \<times> pyval option) res" where
  "scan_lock_line ev dirs line =
     bindE (if prefix ''top_dir ='' line
            then bindE (read_assignment ev line) (\<lambda>v. Inr (Some v, snd dirs)) else Inr dirs) (\<lambda>dirs.
     if prefix ''out_dir ='' line
     then bindE (read_assignment ev line) (\<lambda>v. Inr (fst dirs, Some v)) else Inr dirs)"

definition as_str :: "pyval \<Rightarrow> string res" where
  "as_str v = (case v of PyStr s \<Rightarrow> Inr s | _ \<Rightarrow> Inl TypeError)"

definition bound_str :: "pyval option \<Rightarrow> string res" where
  "bound_str v = (case v of None \<Rightarrow> Inl UnboundLocalError | Some v \<Rightarrow> as_str v)"

definition exec_line :: "executor \<Rightarrow> waf_config \<Rightarrow> string \<Rightarrow> waf_config res" where
  "exec_line ex cfg line =
     foldE (\<lambda>cfg item. if prefix item line then ex line cfg else Inr cfg) cfg interesting_config_items"

definition lock_file :: "file_system \<Rightarrow> string \<Rightarrow> string list res" where
  "lock_file fs platform =
     (case fs (''.lock-waf_'' @ platform @ ''_build'') of
        Some ls \<Rightarrow> Inr ls
      | None \<Rightarrow> (case fs ''.lock-waf_linux2_build'' of Some ls \<Rightarrow> Inr ls | None \<Rightarrow> Inl (SystemExit 2)))"

definition read_waf_config ::
    "file_system \<Rightarrow> evaluator \<Rightarrow> executor \<Rightarrow> string \<Rightarrow> waf_config \<Rightarrow> waf_config res" where
  "read_waf_config fs ev ex platform cfg =
     bindE (lock_file fs platform) (\<lambda>lines.
     bindE (foldE (scan_lock_line ev) (None, None) lines) (\<lambda>dirs.
     bindE (bound_str (fst dirs)) (\<lambda>top_dir.
     bindE (bound_str (snd dirs)) (\<lambda>out_dir.
     case fs (out_dir @ ''/c4che/_cache.py'') of
       None \<Rightarrow> Inl OSError
     | Some cache \<Rightarrow>
         foldE (exec_line ex) (cfg\<lparr>NS3_BASEDIR := top_dir, NS3_BUILDDIR := out_dir\<rparr>) cache))))"

section \<open>Search paths\<close>

type_synonym environ = "(string, string) dict"

definition env_append :: "string \<Rightarrow> string \<Rightarrow> environ \<Rightarrow> string \<Rightarrow> environ" where
  \<comment> \<open>\<open>os.environ[key] += sep + path\<close>\<close>
  "env_append key sep env path =
     dict_set key ((case dict_get env key of None \<Rightarrow> [] | Some old \<Rightarrow> old) @ sep @ path) env"

definition extend_search_path :: "string \<Rightarrow> string \<Rightarrow> string list \<Rightarrow> environ \<Rightarrow> environ" where
  "extend_search_path key sep paths env =
     foldl (env_append key sep) (if dict_in key env then env else dict_set key [] env) paths"

definition make_paths :: "waf_config \<Rightarrow> string \<Rightarrow> environ \<Rightarrow> environ res" where
  "make_paths cfg platform env =
     (let have_PYTHONPATH = dict_in ''PYTHONPATH'' env;
          pypath = path_join (path_join (NS3_BUILDDIR cfg) ''bindings'') ''python'';
          env1 = dict_set ''PYTHONPATH'' pypath env;
          env2 = (if \<not> have_PYTHONPATH then dict_set ''PYTHONPATH'' pypath env1
                  else env_append ''PYTHONPATH'' '':'' env1 pypath)
      in case NS3_MODULE_PATH cfg of
           None \<Rightarrow> Inl NameError
         | Some paths \<Rightarrow>
             Inr (if platform = ''darwin'' then extend_search_path ''DYLD_LIBRARY_PATH'' '':'' paths env2
                  else if platform = ''win32'' then extend_search_path ''PATH'' '';'' paths env2
                  else if platform = ''cygwin'' then extend_search_path ''PATH'' '':'' paths env2
                  else extend_search_path ''LD_LIBRARY_PATH'' '':'' paths env2))"

section \<open>Running one child process\<close>

text \<open>The two outputs are \<open>None\<close> when the bytes cannot be decoded.\<close>

record proc_result =
  pr_code :: int
  pr_out :: "string option"
  pr_err :: "string option"
  pr_time :: rat

type_synonym proc_oracle = "string \<Rightarrow> string \<Rightarrow> proc_result"

definition job_command :: "waf_config \<Rightarrow> string \<Rightarrow> bool \<Rightarrow> bool \<Rightarrow> string \<Rightarrow> string res" where
  "job_command cfg shell_command valgrind is_python build_path =
     bindE (if is_python
            then (case PYTHON cfg of
                    [] \<Rightarrow> Inl IndexError
                  | py # _ \<Rightarrow> Inr (py @ '' '' @ path_join (NS3_BASEDIR cfg) shell_command))
            else if build_path \<noteq> [] then Inr (path_join build_path shell_command)
            else Inr (path_join (NS3_BUILDDIR cfg) shell_command)) (\<lambda>path_cmd.
     Inr (if valgrind
          then ''valgrind --suppressions='' @ path_join (NS3_BASEDIR cfg) ''testpy.supp'' @
               '' --leak-check=full --show-reachable=yes --error-exitcode=2 --errors-for-leak-kinds=all '' @
               path_cmd
          else path_cmd))"

definition run_job_synchronously ::
    "waf_config \<Rightarrow> proc_oracle \<Rightarrow> string \<Rightarrow> string \<Rightarrow> bool \<Rightarrow> bool \<Rightarrow> string \<Rightarrow>
       (int \<times> string option \<times> string option \<times> rat) res" where
  "run_job_synchronously cfg proc shell_command directory valgrind is_python build_path =
     bindE (job_command cfg shell_command valgrind is_python build_path) (\<lambda>cmd.
     let r = proc cmd directory;
         retval = pr_code r;
         retval = (if pr_out r = None then 1 else retval);
         retval = (if pr_err r = None then 1 else retval)
     in Inr (retval, pr_out r, pr_err r, pr_time r))"

section \<open>The examples to run\<close>

record example_lists =
  example_tests :: "(string \<times> string \<times> pyval \<times> pyval) list"
  example_names_original :: "string list"
  python_tests :: "(string \<times> pyval) list"

definition unpack :: "pyval \<Rightarrow> pyval list res" where
  "unpack v =
     (case v of PyTuple vs \<Rightarrow> Inr vs | PyList vs \<Rightarrow> Inr vs
      | PyStr s \<Rightarrow> Inr (map (\<lambda>c. PyStr [c]) s) | _ \<Rightarrow> Inl TypeError)"

definition as_name :: "pyval \<Rightarrow> string res" where
  \<comment> \<open>\<open>example_name.split\<close>: only a string has that method\<close>
  "as_name v = (case v of PyStr s \<Rightarrow> Inr s | _ \<Rightarrow> Inl AttributeError)"

definition example_args :: "string list \<Rightarrow> string" where
  \<comment> \<open>\<open>if len(example_name_parts) != 1\<close>: a space and the arguments are appended\<close>
  "example_args parts = (if length parts \<noteq> 1 then '' '' @ parts ! 1 else [])"

definition add_cpp_example ::
    "waf_config \<Rightarrow> file_system \<Rightarrow> string \<Rightarrow> string \<Rightarrow> example_lists \<Rightarrow> pyval \<Rightarrow> example_lists res" where
  "add_cpp_example cfg fs cwd cpp_executable_dir st entry =
     bindE (unpack entry) (\<lambda>vs. case vs of
       [n, do_run, do_valgrind_run] \<Rightarrow>
         bindE (as_name n) (\<lambda>example_name_original.
         let example_name_parts = py_split1 CHR '' '' example_name_original;
             example_name = hd example_name_parts;
             example_path = path_join cpp_executable_dir
               (APPNAME cfg @ VERSION cfg @ ''-'' @ example_name @ BUILD_PROFILE_SUFFIX cfg)
         in bindE (os_relpath cwd cpp_executable_dir (NS3_BUILDDIR cfg)) (\<lambda>rel.
         let example_name = path_join rel example_name in
         if fs example_path = None then Inr st
         else Inr (st\<lparr>example_tests := example_tests st @
                        [(example_name @ example_args example_name_parts,
                          example_path @ example_args example_name_parts, do_run, do_valgrind_run)],
                      example_names_original := example_names_original st @ [example_name_original]\<rparr>)))
     | _ \<Rightarrow> Inl ValueError)"

definition add_python_example ::
    "file_system \<Rightarrow> string \<Rightarrow> example_lists \<Rightarrow> pyval \<Rightarrow> example_lists res" where
  "add_python_example fs python_script_dir st entry =
     bindE (unpack entry) (\<lambda>vs. case vs of
       [n, do_run] \<Rightarrow>
         bindE (as_name n) (\<lambda>name.
         let example_name_parts = py_split1 CHR '' '' name;
             example_path = path_join python_script_dir (hd example_name_parts)
         in if fs example_path = None then Inr st
            else Inr (st\<lparr>python_tests := python_tests st @
                           [(example_path @ example_args example_name_parts, do_run)]\<rparr>))
     | _ \<Rightarrow> Inl ValueError)"

definition parse_examples_to_run_file ::
    "waf_config \<Rightarrow> file_system \<Rightarrow> evaluator \<Rightarrow> string \<Rightarrow> string \<Rightarrow> string \<Rightarrow> string \<Rightarrow>
       example_lists \<Rightarrow> example_lists res" where
  "parse_examples_to_run_file cfg fs ev cwd examples_to_run_path cpp_executable_dir python_script_dir st =
     (if fs examples_to_run_path = None then Inr st
      else bindE (get_list_from_file fs ev examples_to_run_path ''cpp_examples'') (\<lambda>cpp.
           bindE (unpack cpp) (\<lambda>cpp_examples.
           bindE (foldE (add_cpp_example cfg fs cwd cpp_executable_dir) st cpp_examples) (\<lambda>st.
           bindE (get_list_from_file fs ev examples_to_run_path ''python_examples'') (\<lambda>py.
           bindE (unpack py) (\<lambda>python_examples.
           foldE (add_python_example fs python_script_dir) st python_examples))))))"

section \<open>What the search paths become\<close>

lemmas dict_laws = dict.get_set dict.ok_set dict.ok_del dict.get_del

declare dict_get_set [simp]

lemma env_append_get:
  "dict_get (env_append key sep env path) k =
     (if k = key then Some ((case dict_get env key of None \<Rightarrow> [] | Some old \<Rightarrow> old) @ sep @ path)
      else dict_get env k)"
  by (simp add: env_append_def)

lemma env_append_list_get:
  "dict_get env key = Some old \<Longrightarrow>
     dict_get (foldl (env_append key sep) env paths) k =
       (if k = key then Some (old @ concat (map (\<lambda>p. sep @ p) paths)) else dict_get env k)"
  by (induction paths arbitrary: env old) (simp_all add: env_append_get)

lemma extend_search_path_get:
  "dict_get (extend_search_path key sep paths env) k =
     (if k = key then Some ((case dict_get env key of None \<Rightarrow> [] | Some old \<Rightarrow> old) @
                            concat (map (\<lambda>p. sep @ p) paths))
      else dict_get env k)"
  by (auto simp: extend_search_path_def dict_in_def env_append_list_get)

definition search_path_variable :: "string \<Rightarrow> string \<times> string" where
  \<comment> \<open>the variable of a platform and its separator, as the doc comment of \<open>make_paths\<close> lists them\<close>
  "search_path_variable platform =
     (if platform = ''darwin'' then (''DYLD_LIBRARY_PATH'', '':'')
      else if platform = ''win32'' then (''PATH'', '';'')
      else if platform = ''cygwin'' then (''PATH'', '':'')
      else (''LD_LIBRARY_PATH'', '':''))"

lemma make_paths_eq:
  "make_paths cfg platform env =
     (case NS3_MODULE_PATH cfg of
        None \<Rightarrow> Inl NameError
      | Some paths \<Rightarrow>
          Inr (extend_search_path (fst (search_path_variable platform)) (snd (search_path_variable platform)) paths
                 (let py = path_join (path_join (NS3_BUILDDIR cfg) ''bindings'') ''python''
                  in if dict_in ''PYTHONPATH'' env
                     then env_append ''PYTHONPATH'' '':'' (dict_set ''PYTHONPATH'' py env) py
                     else dict_set ''PYTHONPATH'' py (dict_set ''PYTHONPATH'' py env))))"
  by (simp add: make_paths_def search_path_variable_def Let_def split: option.split)

section \<open>What the example lists hold\<close>

definition examples_ok :: "file_system \<Rightarrow> example_lists \<Rightarrow> bool" where
  "examples_ok fs st =
     (length (example_tests st) = length (example_names_original st) \<and>
      (\<forall>(name, path, r, v) \<in> set (example_tests st).
         \<exists>exe args. path = exe @ args \<and> (args = [] \<or> prefix '' '' args) \<and> fs exe \<noteq> None) \<and>
      (\<forall>(path, r) \<in> set (python_tests st).
         \<exists>script args. path = script @ args \<and> (args = [] \<or> prefix '' '' args) \<and> fs script \<noteq> None))"

definition examples_extend :: "example_lists \<Rightarrow> example_lists \<Rightarrow> bool" where
  "examples_extend st st' =
     (prefix (example_tests st) (example_tests st') \<and>
      prefix (example_names_original st) (example_names_original st') \<and>
      prefix (python_tests st) (python_tests st'))"

lemma examples_extend_refl [simp]: "examples_extend st st"
  by (simp add: examples_extend_def)

lemma examples_extend_trans: "examples_extend a b \<Longrightarrow> examples_extend b c \<Longrightarrow> examples_extend a c"
  by (auto simp: examples_extend_def)

lemma example_args_form: "example_args parts = [] \<or> prefix '' '' (example_args parts)"
  by (simp add: example_args_def)

lemma add_cpp_example_cases:
  assumes "add_cpp_example cfg fs cwd dir st entry = Inr st'"
  obtains "st' = st"
  | name exe parts r v nm where "fs exe \<noteq> None"
      "st' = st\<lparr>example_tests := example_tests st @ [(name, exe @ example_args parts, r, v)],
                example_names_original := example_names_original st @ [nm]\<rparr>"
proof -
  from assms obtain vs where "unpack entry = Inr vs"
    by (auto simp: add_cpp_example_def bindE_Inr_conv)
  with assms obtain n r v where "unpack entry = Inr [n, r, v]"
    by (simp add: add_cpp_example_def split: list.split_asm)
  moreover from this assms obtain nm where "as_name n = Inr nm"
    by (auto simp: add_cpp_example_def bindE_Inr_conv)
  moreover from calculation assms obtain rel where "os_relpath cwd dir (NS3_BUILDDIR cfg) = Inr rel"
    by (auto simp: add_cpp_example_def bindE_Inr_conv Let_def)
  moreover define parts where "parts = py_split1 CHR '' '' nm"
  moreover define exe where
    "exe = path_join dir (APPNAME cfg @ VERSION cfg @ ''-'' @ hd parts @ BUILD_PROFILE_SUFFIX cfg)"
  moreover define name where "name = path_join rel (hd parts) @ example_args parts"
  ultimately have st': "st' = (if fs exe = None then st
       else st\<lparr>example_tests := example_tests st @ [(name, exe @ example_args parts, r, v)],
              example_names_original := example_names_original st @ [nm]\<rparr>)"
    using assms by (auto simp: add_cpp_example_def Let_def split: if_splits)
  show ?thesis
  proof (cases "fs exe = None")
    case True
    with st' that(1) show ?thesis by simp
  next
    case False
    from that(2) [OF False] st' False show ?thesis by simp
  qed
qed

lemma add_cpp_example_ok:
  assumes "add_cpp_example cfg fs cwd dir st entry = Inr st'" and "examples_ok fs st"
  shows "examples_ok fs st' \<and> examples_extend st st'"
  using assms(1)
proof (cases rule: add_cpp_example_cases)
  case 1
  with assms(2) show ?thesis by simp
next
  case (2 name exe parts r v nm)
  with example_args_form [of parts]
  have "\<exists>e as. exe @ example_args parts = e @ as \<and> (as = [] \<or> prefix '' '' as) \<and> fs e \<noteq> None"
    by blast
  with assms(2) show ?thesis
    unfolding 2(2) examples_ok_def examples_extend_def by simp
qed

lemma add_python_example_cases:
  assumes "add_python_example fs dir st entry = Inr st'"
  obtains "st' = st"
  | exe parts r where "fs exe \<noteq> None"
      "st' = st\<lparr>python_tests := python_tests st @ [(exe @ example_args parts, r)]\<rparr>"
proof -
  from assms obtain vs where "unpack entry = Inr vs"
    by (auto simp: add_python_example_def bindE_Inr_conv)
  with assms obtain n r where "unpack entry = Inr [n, r]"
    by (simp add: add_python_example_def split: list.split_asm)
  moreover from this assms obtain nm where "as_name n = Inr nm"
    by (auto simp: add_python_example_def bindE_Inr_conv)
  ultimately show ?thesis
    using assms that
    by (auto simp: add_python_example_def bindE_Inr_conv Let_def split: if_splits)
qed

lemma add_python_example_ok:
  assumes "add_python_example fs dir st entry = Inr st'" and "examples_ok fs st"
  shows "examples_ok fs st' \<and> examples_extend st st'"
  using assms(1)
proof (cases rule: add_python_example_cases)
  case 1
  with assms(2) show ?thesis by simp
next
  case (2 exe parts r)
  with example_args_form [of parts]
  have "\<exists>e as. exe @ example_args parts = e @ as \<and> (as = [] \<or> prefix '' '' as) \<and> fs e \<noteq> None"
    by blast
  with assms(2) show ?thesis
    unfolding 2(2) examples_ok_def examples_extend_def by simp
qed

lemma foldE_examples_ok:
  assumes "foldE f st xs = Inr st'" and "examples_ok fs st"
    and step: "\<And>a x b. f a x = Inr b \<Longrightarrow> examples_ok fs a \<Longrightarrow> examples_ok fs b \<and> examples_extend a b"
  shows "examples_ok fs st' \<and> examples_extend st st'"
proof -
  have "(\<lambda>s. examples_ok fs s \<and> examples_extend st s) st'"
    using assms(1)
  proof (rule foldE_inv)
    show "examples_ok fs st \<and> examples_extend st st" using assms(2) by simp
  next
    fix a x b
    assume "examples_ok fs a \<and> examples_extend st a" and "f a x = Inr b"
    then show "examples_ok fs b \<and> examples_extend st b"
      using step examples_extend_trans by blast
  qed
  then show ?thesis by simp
qed

lemma parse_examples_ok:
  assumes "parse_examples_to_run_file cfg fs ev cwd p dir pydir st = Inr st'" and "examples_ok fs st"
  shows "examples_ok fs st' \<and> examples_extend st st'"
proof (cases "fs p = None")
  case True
  with assms show ?thesis by (simp add: parse_examples_to_run_file_def)
next
  case False
  with assms(1) obtain xs st1 ys where
    cpp: "foldE (add_cpp_example cfg fs cwd dir) st xs = Inr st1" and
    py: "foldE (add_python_example fs pydir) st1 ys = Inr st'"
    by (auto simp: parse_examples_to_run_file_def bindE_Inr_conv)
  have 1: "examples_ok fs st1 \<and> examples_extend st st1"
    by (rule foldE_examples_ok [OF cpp assms(2)]) (rule add_cpp_example_ok)
  moreover have "examples_ok fs st' \<and> examples_extend st1 st'"
    by (rule foldE_examples_ok [OF py]) (use 1 in simp, rule add_python_example_ok)
  ultimately show ?thesis using examples_extend_trans by blast
qed

section \<open>Properties\<close>

text \<open>
  \<open>make_paths\<close> extends the loader's search path of the platform with every module directory,
  after the inherited value and in order, and changes no variable other than that one and
  \<^verbatim>\<open>PYTHONPATH\<close>. The inherited \<^verbatim>\<open>PYTHONPATH\<close> is lost: it is overwritten before it is
  extended, so a set variable ends up as the bindings directory twice.
\<close>

theorem make_paths_result:
  assumes "NS3_MODULE_PATH cfg = Some paths"
    and "search_path_variable platform = (key, sep)"
    and "py = path_join (path_join (NS3_BUILDDIR cfg) ''bindings'') ''python''"
  shows "\<exists>env'. make_paths cfg platform env = Inr env' \<and>
     dict_get env' key = Some ((case dict_get env key of None \<Rightarrow> [] | Some old \<Rightarrow> old) @
                               concat (map (\<lambda>p. sep @ p) paths)) \<and>
     dict_get env' ''PYTHONPATH'' = Some (if dict_in ''PYTHONPATH'' env then py @ '':'' @ py else py) \<and>
     (\<forall>k. k \<noteq> key \<longrightarrow> k \<noteq> ''PYTHONPATH'' \<longrightarrow> dict_get env' k = dict_get env k)"
proof -
  have "key \<noteq> ''PYTHONPATH''"
    using assms(2) by (auto simp: search_path_variable_def split: if_splits)
  then show ?thesis
    using assms by (auto simp: make_paths_eq extend_search_path_get env_append_get Let_def)
qed

theorem make_paths_result_witness:
  "\<exists>env'. make_paths (initial_config\<lparr>NS3_MODULE_PATH := Some [''/m''], NS3_BUILDDIR := ''/b''\<rparr>) ''linux''
            [(''PYTHONPATH'', ''/user'')] = Inr env' \<and>
     dict_get env' ''LD_LIBRARY_PATH'' = Some '':/m'' \<and>
     dict_get env' ''PYTHONPATH'' = Some ''/b/bindings/python:/b/bindings/python''"
  using make_paths_result [of "initial_config\<lparr>NS3_MODULE_PATH := Some [''/m''], NS3_BUILDDIR := ''/b''\<rparr>"
      "[''/m'']" "''linux''" "''LD_LIBRARY_PATH''" "'':''" "''/b/bindings/python''" "[(''PYTHONPATH'', ''/user'')]"]
  by (simp add: search_path_variable_def path_join_def dict_in_def dict_get_def) blast

text \<open>
  reading an \<^verbatim>\<open>examples-to-run.py\<close> file only appends to the three lists, keeps the list of
  examples and the list of their original names of one length, and adds only programs and scripts
  that exist, each followed by nothing or by a space and its arguments.
\<close>

theorem parse_examples_to_run_file_ok:
  assumes "parse_examples_to_run_file cfg fs ev cwd p dir pydir st = Inr st'" and "examples_ok fs st"
  shows "examples_ok fs st' \<and> examples_extend st st'"
  using assms by (rule parse_examples_ok)

definition demo_fs :: file_system where
  "demo_fs = [''e/to-run.py'' \<mapsto> [''cpp_examples = [x]''], ''/b/e/ns-foo'' \<mapsto> []]"

definition demo_ev :: evaluator where
  "demo_ev s = Inr (PyList [PyTuple [PyStr ''foo --n'', PyStr ''True'', PyStr ''True'']])"

definition demo_config :: waf_config where
  "demo_config = initial_config\<lparr>NS3_BUILDDIR := ''/b'', APPNAME := ''ns''\<rparr>"

definition no_examples :: example_lists where
  "no_examples = \<lparr>example_tests = [], example_names_original = [], python_tests = []\<rparr>"

theorem parse_examples_to_run_file_ok_witness:
  "\<exists>st. parse_examples_to_run_file demo_config demo_fs demo_ev ''/w'' ''e/to-run.py'' ''/b/e'' ''e'' no_examples = Inr st \<and>
    map fst (example_tests st) = [''e/foo --n''] \<and> examples_ok demo_fs st"
proof -
  let ?st1 = "\<lparr>example_tests = [(''e/foo --n'', ''/b/e/ns-foo --n'', PyStr ''True'', PyStr ''True'')],
    example_names_original = [''foo --n''], python_tests = []\<rparr>"
  have eq: "parse_examples_to_run_file demo_config demo_fs demo_ev ''/w'' ''e/to-run.py'' ''/b/e'' ''e'' no_examples
      = Inr ?st1"
    by (simp add: parse_examples_to_run_file_def get_list_from_file_def demo_fs_def demo_ev_def demo_config_def
        initial_config_def strip_comment_def eval_rhs_def py_split1_def unpack_def as_name_def no_examples_def
        add_cpp_example_def os_relpath_def abs_comps_def join_all_def path_join_def example_args_def Let_def)
  have "examples_ok demo_fs no_examples"
    by (simp add: examples_ok_def no_examples_def)
  from parse_examples_to_run_file_ok [OF eq this] eq show ?thesis by auto
qed

end
