(* ===== verification/Py_Int.thy ===== *)
theory Py_Int
  imports Py_Strings
begin

text \<open>
  \<open>int(s, radix)\<close> of the standard library, used by the option parser and by \<^verbatim>\<open>rad_util.py\<close>, and
  Python slices with negative bounds. The lemmas read back what \<open>show_nat\<close> and the binary digits
  print.
\<close>

section \<open>Reading integers\<close>

definition char_lower :: "char \<Rightarrow> char" where
  "char_lower c = (if CHR ''A'' \<le> c \<and> c \<le> CHR ''Z'' then char_of (of_char c + 32 :: nat) else c)"

definition radix_digit :: "char \<Rightarrow> nat option" where
  "radix_digit c =
     (let n = of_char (char_lower c) :: nat
      in if 48 \<le> n \<and> n \<le> 57 then Some (n - 48) else if 97 \<le> n \<and> n \<le> 122 then Some (n - 87) else None)"

fun radix_digits :: "nat \<Rightarrow> nat \<Rightarrow> string \<Rightarrow> nat option" where
  "radix_digits r acc [] = Some acc"
| "radix_digits r acc (c # cs) =
     (case radix_digit c of
        None \<Rightarrow> None
      | Some d \<Rightarrow> if d < r then radix_digits r (r * acc + d) cs else None)"

text \<open>\<open>int(s, radix)\<close>: blanks around, a sign, the prefix of the radix, digits with single underscores.\<close>

definition py_int :: "nat \<Rightarrow> string \<Rightarrow> int option" where
  "py_int r s0 =
     (let s1 = py_strip s0;
          (neg, s2) = (if prefix ''-'' s1 then (True, tl s1) else if prefix ''+'' s1 then (False, tl s1) else (False, s1));
          pfx = (if r = 16 then ''0x'' else if r = 8 then ''0o'' else if r = 2 then ''0b'' else []);
          has_pfx = (pfx \<noteq> [] \<and> prefix pfx (map char_lower s2));
          groups = py_split CHR ''_'' (if has_pfx then drop 2 s2 else s2);
          groups' = (if has_pfx \<and> length groups > 1 \<and> hd groups = [] then tl groups else groups)
      in if [] \<in> set groups' then None
         else map_option (\<lambda>n. if neg then - int n else int n) (radix_digits r 0 (concat groups')))"

section \<open>Slices\<close>

text \<open>\<open>s[:k]\<close> and \<open>s[k:]\<close>; a negative bound counts from the end, and bounds are clipped.\<close>

definition slice_bound :: "nat \<Rightarrow> int \<Rightarrow> nat" where
  "slice_bound n k = (if k < 0 then nat (int n + k) else min n (nat k))"

definition slice_to :: "'a list \<Rightarrow> int \<Rightarrow> 'a list" where
  "slice_to s k = take (slice_bound (length s) k) s"

definition slice_from :: "'a list \<Rightarrow> int \<Rightarrow> 'a list" where
  "slice_from s k = drop (slice_bound (length s) k) s"

lemma slice_append: "slice_to s k @ slice_from s k = s"
  by (simp add: slice_to_def slice_from_def)

lemma length_slice_from_neg: "k < 0 \<Longrightarrow> length (slice_from s k) = min (length s) (nat (- k))"
  by (auto simp: slice_from_def slice_bound_def)

section \<open>What printing and reading have to do with each other\<close>

lemma radix_digit_show: "d < 10 \<Longrightarrow> radix_digit (digit_char d) = Some d"
proof -
  assume d: "d < 10"
  have n: "of_char (digit_char d) = (48 + d :: nat)" using d by (rule of_char_digit)
  have "char_lower (digit_char d) = digit_char d"
    using d n by (simp add: char_lower_def less_eq_char_def)
  with d n show ?thesis by (simp add: radix_digit_def Let_def)
qed

lemma radix_digits_append:
  "radix_digits r acc (s @ t) = (case radix_digits r acc s of None \<Rightarrow> None | Some a \<Rightarrow> radix_digits r a t)"
  by (induction r acc s rule: radix_digits.induct) (auto split: option.splits)

lemma radix_digits_show: "radix_digits 10 0 (show_nat n) = Some n"
proof (induction n rule: show_nat.induct)
  case (1 n)
  then show ?case
    by (subst show_nat.simps) (auto simp: radix_digits_append radix_digit_show)
qed

lemma digit_not_space: "is_digit c \<Longrightarrow> \<not> py_space c"
  by (auto simp: is_digit_def py_space_def Let_def)

lemma minus_not_space: "\<not> py_space CHR ''-''"
  by code_simp

lemma py_strip_id:
  assumes "s \<noteq> []" and "\<not> py_space (hd s)" and "\<not> py_space (last s)"
  shows "py_strip s = s"
proof -
  have "py_lstrip s = s" using assms by (cases s) (simp_all add: py_lstrip_def)
  moreover have "dropWhile py_space (rev s) = rev s"
    using assms by (cases s rule: rev_cases) simp_all
  ultimately show ?thesis by (simp add: py_strip_def py_rstrip_def)
qed

lemma show_nat_last_digit: "is_digit (last (show_nat n))"
  by (metis show_nat_digits show_nat_not_Nil last_in_set list_all_iff)

lemma show_nat_hd_digit: "is_digit (hd (show_nat n))"
  by (metis show_nat_digits show_nat_not_Nil hd_in_set list_all_iff)

lemma digit_char_0: "digit_char 0 = CHR ''0''"
  by code_simp

lemma show_nat_hd_pos: "n > 0 \<Longrightarrow> hd (show_nat n) \<noteq> CHR ''0''"
proof (induction n rule: show_nat.induct)
  case (1 n)
  show ?case
  proof (cases "n < 10")
    case True
    have "digit_char n \<noteq> digit_char 0"
      using True 1(2) of_char_digit [of n] of_char_digit [of 0] by (metis add_left_cancel less_numeral_extra(3) zero_less_numeral)
    moreover have "digit_char 0 = CHR ''0''" by (rule digit_char_0)
    ultimately show ?thesis using True by (subst show_nat.simps) simp
  next
    case False
    with 1 show ?thesis by (subst show_nat.simps) simp
  qed
qed

lemma py_int_show_nat: "py_int 10 (show_nat n) = Some (int n)"
proof -
  have strip: "py_strip (show_nat n) = show_nat n"
    by (rule py_strip_id) (simp_all add: digit_not_space show_nat_last_digit show_nat_hd_digit)
  obtain c cs where cs: "show_nat n = c # cs" "is_digit c"
    using show_nat_hd_digit [of n] show_nat_not_Nil [of n] by (cases "show_nat n") simp_all
  then have "\<not> prefix ''-'' (show_nat n)" "\<not> prefix ''+'' (show_nat n)"
    using not_digit_chars by auto
  moreover have "py_split CHR ''_'' (show_nat n) = [show_nat n]"
    by (rule py_split_no_sep, rule show_nat_no_char) (simp add: is_digit_def)
  ultimately show ?thesis
    using show_nat_not_Nil [of n] by (simp add: py_int_def strip Let_def radix_digits_show del: show_nat_not_Nil)
qed

lemma py_int_neg_show_nat: "py_int 10 (CHR ''-'' # show_nat n) = Some (- int n)"
proof -
  have strip: "py_strip (CHR ''-'' # show_nat n) = CHR ''-'' # show_nat n"
    by (rule py_strip_id) (simp_all add: digit_not_space show_nat_last_digit minus_not_space)
  have "py_split CHR ''_'' (show_nat n) = [show_nat n]"
    by (rule py_split_no_sep, rule show_nat_no_char) (simp add: is_digit_def)
  moreover have "[] \<noteq> show_nat n" using show_nat_not_Nil [of n] by (rule not_sym)
  ultimately show ?thesis
    by (simp add: py_int_def strip Let_def radix_digits_show)
qed

end
