(* ===== verification/Test_Options.thy ===== *)
theory Test_Options
  imports Py_Int
begin

text \<open>
  The command line of \<^verbatim>\<open>test.py\<close>: the option table of \<open>main\<close> with its defaults, read the
  way \<open>optparse\<close> reads it (clusters of short flags, \<open>--long=value\<close>, \<open>--long value\<close>,
  unique prefixes of long names, \<open>--\<close>, ignored positional arguments), the colour switch and
  the colour table. The main lemma is the round trip from an options record through its command
  line back to the record.
\<close>

section \<open>The options\<close>

record test_options =
  opt_buildpath :: string
  opt_constrain :: string
  opt_duration :: bool
  opt_example :: string
  opt_update_data :: bool
  opt_fullness :: string
  opt_valgrind :: bool
  opt_kinds :: bool
  opt_list :: bool
  opt_multiple :: bool
  opt_nowaf :: bool
  opt_pyexample :: string
  opt_retain :: bool
  opt_suite :: string
  opt_text :: string
  opt_verbose :: bool
  opt_html :: string
  opt_xml :: string
  opt_nocolor :: bool
  opt_process_limit :: int

definition default_options :: test_options where
  "default_options =
     \<lparr> opt_buildpath = [], opt_constrain = [], opt_duration = False, opt_example = [],
       opt_update_data = False, opt_fullness = ''QUICK'', opt_valgrind = False, opt_kinds = False,
       opt_list = False, opt_multiple = False, opt_nowaf = False, opt_pyexample = [],
       opt_retain = False, opt_suite = [], opt_text = [], opt_verbose = False, opt_html = [],
       opt_xml = [], opt_nocolor = False, opt_process_limit = 0 \<rparr>"

datatype option_action =
    StoreTrue "test_options \<Rightarrow> test_options"
  | StoreString "string \<Rightarrow> test_options \<Rightarrow> test_options"
  | StoreChoice "string list" "string \<Rightarrow> test_options \<Rightarrow> test_options"
  | StoreInt "int \<Rightarrow> test_options \<Rightarrow> test_options"
  | ShowHelp

record option_spec =
  short_name :: "char option"
  long_names :: "string list"
  option_act :: option_action

definition option_table :: "option_spec list" where
  "option_table =
     [\<lparr> short_name = Some CHR ''h'', long_names = [''--help''], option_act = ShowHelp \<rparr>,
      \<lparr> short_name = Some CHR ''b'', long_names = [''--buildpath''],
        option_act = StoreString (\<lambda>v o'. o'\<lparr>opt_buildpath := v\<rparr>) \<rparr>,
      \<lparr> short_name = Some CHR ''c'', long_names = [''--constrain''],
        option_act = StoreString (\<lambda>v o'. o'\<lparr>opt_constrain := v\<rparr>) \<rparr>,
      \<lparr> short_name = Some CHR ''d'', long_names = [''--duration''],
        option_act = StoreTrue (\<lambda>o'. o'\<lparr>opt_duration := True\<rparr>) \<rparr>,
      \<lparr> short_name = Some CHR ''e'', long_names = [''--example''],
        option_act = StoreString (\<lambda>v o'. o'\<lparr>opt_example := v\<rparr>) \<rparr>,
      \<lparr> short_name = Some CHR ''u'', long_names = [''--update-data''],
        option_act = StoreTrue (\<lambda>o'. o'\<lparr>opt_update_data := True\<rparr>) \<rparr>,
      \<lparr> short_name = Some CHR ''f'', long_names = [''--fullness''],
        option_act = StoreChoice [''QUICK'', ''EXTENSIVE'', ''TAKES_FOREVER''] (\<lambda>v o'. o'\<lparr>opt_fullness := v\<rparr>) \<rparr>,
      \<lparr> short_name = Some CHR ''g'', long_names = [''--grind''],
        option_act = StoreTrue (\<lambda>o'. o'\<lparr>opt_valgrind := True\<rparr>) \<rparr>,
      \<lparr> short_name = Some CHR ''k'', long_names = [''--kinds''],
        option_act = StoreTrue (\<lambda>o'. o'\<lparr>opt_kinds := True\<rparr>) \<rparr>,
      \<lparr> short_name = Some CHR ''l'', long_names = [''--list''],
        option_act = StoreTrue (\<lambda>o'. o'\<lparr>opt_list := True\<rparr>) \<rparr>,
      \<lparr> short_name = Some CHR ''m'', long_names = [''--multiple''],
        option_act = StoreTrue (\<lambda>o'. o'\<lparr>opt_multiple := True\<rparr>) \<rparr>,
      \<lparr> short_name = Some CHR ''n'', long_names = [''--nowaf''],
        option_act = StoreTrue (\<lambda>o'. o'\<lparr>opt_nowaf := True\<rparr>) \<rparr>,
      \<lparr> short_name = Some CHR ''p'', long_names = [''--pyexample''],
        option_act = StoreString (\<lambda>v o'. o'\<lparr>opt_pyexample := v\<rparr>) \<rparr>,
      \<lparr> short_name = Some CHR ''r'', long_names = [''--retain''],
        option_act = StoreTrue (\<lambda>o'. o'\<lparr>opt_retain := True\<rparr>) \<rparr>,
      \<lparr> short_name = Some CHR ''s'', long_names = [''--suite''],
        option_act = StoreString (\<lambda>v o'. o'\<lparr>opt_suite := v\<rparr>) \<rparr>,
      \<lparr> short_name = Some CHR ''t'', long_names = [''--text''],
        option_act = StoreString (\<lambda>v o'. o'\<lparr>opt_text := v\<rparr>) \<rparr>,
      \<lparr> short_name = Some CHR ''v'', long_names = [''--verbose''],
        option_act = StoreTrue (\<lambda>o'. o'\<lparr>opt_verbose := True\<rparr>) \<rparr>,
      \<lparr> short_name = Some CHR ''w'', long_names = [''--web'', ''--html''],
        option_act = StoreString (\<lambda>v o'. o'\<lparr>opt_html := v\<rparr>) \<rparr>,
      \<lparr> short_name = Some CHR ''x'', long_names = [''--xml''],
        option_act = StoreString (\<lambda>v o'. o'\<lparr>opt_xml := v\<rparr>) \<rparr>,
      \<lparr> short_name = None, long_names = [''--nocolor''],
        option_act = StoreTrue (\<lambda>o'. o'\<lparr>opt_nocolor := True\<rparr>) \<rparr>,
      \<lparr> short_name = None, long_names = [''--jobs''],
        option_act = StoreInt (\<lambda>v o'. o'\<lparr>opt_process_limit := v\<rparr>) \<rparr>]"

section \<open>Integers of the command line\<close>

definition parse_num :: "string \<Rightarrow> int option" where
  "parse_num val =
     (let head2 = map char_lower (take 2 val)
      in if head2 = ''0x'' then py_int 16 val
         else if head2 = ''0b'' then py_int 2 (if drop 2 val = [] then ''0'' else drop 2 val)
         else if prefix ''0'' val then py_int 8 val
         else py_int 10 val)"

section \<open>Reading the arguments\<close>

definition takes_value :: "option_action \<Rightarrow> bool" where
  "takes_value a = (case a of StoreTrue _ \<Rightarrow> False | ShowHelp \<Rightarrow> False | _ \<Rightarrow> True)"

text \<open>\<open>parser.error\<close> prints the usage and exits with status 2; \<open>--help\<close> exits with status 0.\<close>

definition apply_value :: "option_action \<Rightarrow> string \<Rightarrow> test_options \<Rightarrow> test_options res" where
  "apply_value a v o' =
     (case a of
        StoreTrue f \<Rightarrow> Inr (f o')
      | StoreString f \<Rightarrow> Inr (f v o')
      | StoreChoice cs f \<Rightarrow> if v \<in> set cs then Inr (f v o') else Inl (SystemExit 2)
      | StoreInt f \<Rightarrow> (case parse_num v of None \<Rightarrow> Inl (SystemExit 2) | Some i \<Rightarrow> Inr (f i o'))
      | ShowHelp \<Rightarrow> Inl (SystemExit 0))"

definition match_long :: "option_spec list \<Rightarrow> string \<Rightarrow> option_action option" where
  "match_long tbl name =
     (let entries = concat (map (\<lambda>s. map (\<lambda>n. (n, option_act s)) (long_names s)) tbl)
      in case map_of entries name of
           Some a \<Rightarrow> Some a
         | None \<Rightarrow> (case filter (\<lambda>(n, a). prefix name n) entries of [(n, a)] \<Rightarrow> Some a | _ \<Rightarrow> None))"

definition match_short :: "option_spec list \<Rightarrow> char \<Rightarrow> option_action option" where
  "match_short tbl c = map_option option_act (find (\<lambda>s. short_name s = Some c) tbl)"

text \<open>One cluster of short options; the second component is an option still without its value.\<close>

fun short_cluster ::
    "option_spec list \<Rightarrow> test_options \<Rightarrow> string \<Rightarrow> (test_options \<times> option_action option) res" where
  "short_cluster tbl o' [] = Inr (o', None)"
| "short_cluster tbl o' (c # cs) =
     (case match_short tbl c of
        None \<Rightarrow> Inl (SystemExit 2)
      | Some a \<Rightarrow>
          if takes_value a
          then (if cs = [] then Inr (o', Some a)
                else bindE (apply_value a cs o') (\<lambda>o''. Inr (o'', None)))
          else bindE (apply_value a [] o') (\<lambda>o''. short_cluster tbl o'' cs))"

fun parse_args :: "option_spec list \<Rightarrow> test_options \<Rightarrow> string list \<Rightarrow> test_options res" where
  "parse_args tbl o' [] = Inr o'"
| "parse_args tbl o' (arg # rest) =
     (if arg = ''--'' then Inr o'
      else if prefix ''--'' arg then
        (let parts = py_split1 CHR ''='' arg
         in case match_long tbl (hd parts) of
              None \<Rightarrow> Inl (SystemExit 2)
            | Some a \<Rightarrow>
                if takes_value a then
                  (case tl parts of
                     v # _ \<Rightarrow> bindE (apply_value a v o') (\<lambda>o''. parse_args tbl o'' rest)
                   | [] \<Rightarrow> (case rest of
                              [] \<Rightarrow> Inl (SystemExit 2)
                            | v # rest' \<Rightarrow> bindE (apply_value a v o') (\<lambda>o''. parse_args tbl o'' rest')))
                else if tl parts \<noteq> [] then Inl (SystemExit 2)
                else bindE (apply_value a [] o') (\<lambda>o''. parse_args tbl o'' rest))
      else if prefix ''-'' arg \<and> length arg > 1 then
        bindE (short_cluster tbl o' (tl arg)) (\<lambda>(o'', pending).
          case pending of
            None \<Rightarrow> parse_args tbl o'' rest
          | Some a \<Rightarrow> (case rest of
                         [] \<Rightarrow> Inl (SystemExit 2)
                       | v # rest' \<Rightarrow> bindE (apply_value a v o'') (\<lambda>o3. parse_args tbl o3 rest')))
      else parse_args tbl o' rest)"

definition envcolor :: "(string, string) dict \<Rightarrow> string" where
  \<comment> \<open>\<open>os.environ.get('NOCOLOR','') and 'no' or 'auto' or 'yes'\<close>\<close>
  "envcolor env = (case dict_get env ''NOCOLOR'' of Some v \<Rightarrow> (if v \<noteq> [] then ''no'' else ''auto'') | None \<Rightarrow> ''auto'')"

definition main_setup :: "string list \<Rightarrow> (string, string) dict \<Rightarrow> (test_options \<times> bool) res" where
  \<comment> \<open>the options and \<open>colors_lst['USE']\<close> with which \<open>run_tests\<close> is called\<close>
  "main_setup args env =
     bindE (parse_args option_table default_options args) (\<lambda>options.
     Inr (options, \<not> (opt_nocolor options \<or> envcolor env = ''no'')))"

section \<open>Colours\<close>

definition esc_code :: "string \<Rightarrow> string" where
  "esc_code s = CHR 0x1B # s"

definition colors_lst :: "(string, string) dict" where
  "colors_lst =
     [(''BOLD'', esc_code ''[01;1m''), (''RED'', esc_code ''[01;31m''), (''GREEN'', esc_code ''[32m''),
      (''YELLOW'', esc_code ''[33m''), (''PINK'', esc_code ''[35m''), (''BLUE'', esc_code ''[01;34m''),
      (''CYAN'', esc_code ''[36m''), (''GREY'', esc_code ''[37m''), (''NORMAL'', esc_code ''[0m''),
      (''cursor_on'', esc_code ''[?25h''), (''cursor_off'', esc_code ''[?25l'')]"

definition get_color :: "bool \<Rightarrow> string \<Rightarrow> string" where
  "get_color use cl = (if use then (case dict_get colors_lst cl of Some c \<Rightarrow> c | None \<Rightarrow> []) else [])"

section \<open>From the record to the command line\<close>

definition flag_arg :: "string \<Rightarrow> bool \<Rightarrow> string list" where
  "flag_arg name b = (if b then [name] else [])"

definition render_options :: "test_options \<Rightarrow> string list" where
  "render_options o' =
     (''--buildpath='' @ opt_buildpath o') # (''--constrain='' @ opt_constrain o') #
     flag_arg ''--duration'' (opt_duration o') @ (''--example='' @ opt_example o') #
     flag_arg ''--update-data'' (opt_update_data o') @ (''--fullness='' @ opt_fullness o') #
     flag_arg ''--grind'' (opt_valgrind o') @ flag_arg ''--kinds'' (opt_kinds o') @
     flag_arg ''--list'' (opt_list o') @ flag_arg ''--multiple'' (opt_multiple o') @
     flag_arg ''--nowaf'' (opt_nowaf o') @ (''--pyexample='' @ opt_pyexample o') #
     flag_arg ''--retain'' (opt_retain o') @ (''--suite='' @ opt_suite o') # (''--text='' @ opt_text o') #
     flag_arg ''--verbose'' (opt_verbose o') @ (''--html='' @ opt_html o') # (''--xml='' @ opt_xml o') #
     flag_arg ''--nocolor'' (opt_nocolor o') @ (''--jobs='' @ show_int (opt_process_limit o')) # []"

definition options_ok :: "test_options \<Rightarrow> bool" where
  "options_ok o' = (opt_fullness o' \<in> {''QUICK'', ''EXTENSIVE'', ''TAKES_FOREVER''})"

lemma parse_args_value:
  assumes "match_long option_table (''--'' @ nm) = Some a" and "takes_value a" and "CHR ''='' \<notin> set nm"
  shows "parse_args option_table o' ((''--'' @ nm @ ''='' @ v) # rest) =
           bindE (apply_value a v o') (\<lambda>o''. parse_args option_table o'' rest)"
proof -
  have "py_split1 CHR ''='' (''--'' @ nm @ ''='' @ v) = [''--'' @ nm, v]"
    using py_split1_append [of "CHR ''=''" "''--'' @ nm" v] assms(3) by simp
  with assms(1,2) show ?thesis by (simp add: Let_def)
qed

lemma parse_args_flag:
  assumes "match_long option_table (''--'' @ nm) = Some (StoreTrue f)" and "CHR ''='' \<notin> set nm" and "nm \<noteq> []"
  shows "parse_args option_table o' (flag_arg (''--'' @ nm) b @ rest) =
           parse_args option_table (if b then f o' else o') rest"
proof -
  have "py_split1 CHR ''='' (''--'' @ nm) = [''--'' @ nm]"
    using assms(2) by (simp add: py_split1_no_sep)
  with assms(1,3) show ?thesis by (simp add: flag_arg_def takes_value_def apply_value_def Let_def)
qed

section \<open>The round trip\<close>

lemma take2_lower: "\<forall>c \<in> set s. char_lower c \<noteq> d \<Longrightarrow> map char_lower (take 2 s) \<noteq> [e, d]"
  by (cases s; cases "tl s") (auto simp: take_Cons')

lemma char_lower_digit: "is_digit c \<Longrightarrow> char_lower c = c"
  by (auto simp: is_digit_def char_lower_def less_eq_char_def)

lemma show_nat_no_radix: "\<not> is_digit d \<Longrightarrow> map char_lower (take 2 (show_nat n)) \<noteq> [e, d]"
  using show_nat_digits [of n] by (intro take2_lower) (auto simp: list_all_iff char_lower_digit)

lemma parse_num_show_int [simp]: "parse_num (show_int i) = Some i"
proof (cases "i < 0")
  case True
  have "char_lower CHR ''-'' \<noteq> CHR ''0''" by code_simp
  with True show ?thesis
    by (simp add: show_int_def parse_num_def Let_def py_int_neg_show_nat)
next
  case nonneg: False
  show ?thesis
  proof (cases "i = 0")
    case True
    then have "show_int i = ''0''"
      using digit_char_0 by (simp add: show_int_def show_nat.simps)
    moreover have "parse_num ''0'' = Some 0" by code_simp
    ultimately show ?thesis using True by simp
  next
    case False
    with nonneg have "hd (show_nat (nat i)) \<noteq> CHR ''0''" by (intro show_nat_hd_pos) simp
    then have "\<not> prefix ''0'' (show_nat (nat i))" by (cases "show_nat (nat i)") auto
    moreover have "map char_lower (take 2 (show_nat (nat i))) \<noteq> ''0x''"
      "map char_lower (take 2 (show_nat (nat i))) \<noteq> ''0b''"
      by (rule show_nat_no_radix, simp add: is_digit_def)+
    ultimately show ?thesis
      using nonneg by (simp add: show_int_def parse_num_def Let_def py_int_show_nat)
  qed
qed

lemma opt_arg_buildpath: "parse_args option_table o' ((''--buildpath='' @ v) # rest) =
    parse_args option_table (o'\<lparr>opt_buildpath := v\<rparr>) rest"
  using parse_args_value [of "''buildpath''" "StoreString (\<lambda>v o'. o'\<lparr>opt_buildpath := v\<rparr>)" o' v rest]
  by (simp add: option_table_def match_long_def takes_value_def apply_value_def)

lemma opt_arg_constrain: "parse_args option_table o' ((''--constrain='' @ v) # rest) =
    parse_args option_table (o'\<lparr>opt_constrain := v\<rparr>) rest"
  using parse_args_value [of "''constrain''" "StoreString (\<lambda>v o'. o'\<lparr>opt_constrain := v\<rparr>)" o' v rest]
  by (simp add: option_table_def match_long_def takes_value_def apply_value_def)

lemma opt_arg_example: "parse_args option_table o' ((''--example='' @ v) # rest) =
    parse_args option_table (o'\<lparr>opt_example := v\<rparr>) rest"
  using parse_args_value [of "''example''" "StoreString (\<lambda>v o'. o'\<lparr>opt_example := v\<rparr>)" o' v rest]
  by (simp add: option_table_def match_long_def takes_value_def apply_value_def)

lemma opt_arg_pyexample: "parse_args option_table o' ((''--pyexample='' @ v) # rest) =
    parse_args option_table (o'\<lparr>opt_pyexample := v\<rparr>) rest"
  using parse_args_value [of "''pyexample''" "StoreString (\<lambda>v o'. o'\<lparr>opt_pyexample := v\<rparr>)" o' v rest]
  by (simp add: option_table_def match_long_def takes_value_def apply_value_def)

lemma opt_arg_suite: "parse_args option_table o' ((''--suite='' @ v) # rest) =
    parse_args option_table (o'\<lparr>opt_suite := v\<rparr>) rest"
  using parse_args_value [of "''suite''" "StoreString (\<lambda>v o'. o'\<lparr>opt_suite := v\<rparr>)" o' v rest]
  by (simp add: option_table_def match_long_def takes_value_def apply_value_def)

lemma opt_arg_text: "parse_args option_table o' ((''--text='' @ v) # rest) =
    parse_args option_table (o'\<lparr>opt_text := v\<rparr>) rest"
  using parse_args_value [of "''text''" "StoreString (\<lambda>v o'. o'\<lparr>opt_text := v\<rparr>)" o' v rest]
  by (simp add: option_table_def match_long_def takes_value_def apply_value_def)

lemma opt_arg_html: "parse_args option_table o' ((''--html='' @ v) # rest) =
    parse_args option_table (o'\<lparr>opt_html := v\<rparr>) rest"
  using parse_args_value [of "''html''" "StoreString (\<lambda>v o'. o'\<lparr>opt_html := v\<rparr>)" o' v rest]
  by (simp add: option_table_def match_long_def takes_value_def apply_value_def)

lemma opt_arg_xml: "parse_args option_table o' ((''--xml='' @ v) # rest) =
    parse_args option_table (o'\<lparr>opt_xml := v\<rparr>) rest"
  using parse_args_value [of "''xml''" "StoreString (\<lambda>v o'. o'\<lparr>opt_xml := v\<rparr>)" o' v rest]
  by (simp add: option_table_def match_long_def takes_value_def apply_value_def)

lemma opt_flag_duration: "parse_args option_table o' (flag_arg ''--duration'' b @ rest) =
    parse_args option_table (if b then o'\<lparr>opt_duration := True\<rparr> else o') rest"
  using parse_args_flag [of "''duration''" "\<lambda>o'. o'\<lparr>opt_duration := True\<rparr>" o' b rest]
  by (simp add: option_table_def match_long_def)

lemma opt_flag_update_data: "parse_args option_table o' (flag_arg ''--update-data'' b @ rest) =
    parse_args option_table (if b then o'\<lparr>opt_update_data := True\<rparr> else o') rest"
  using parse_args_flag [of "''update-data''" "\<lambda>o'. o'\<lparr>opt_update_data := True\<rparr>" o' b rest]
  by (simp add: option_table_def match_long_def)

lemma opt_flag_valgrind: "parse_args option_table o' (flag_arg ''--grind'' b @ rest) =
    parse_args option_table (if b then o'\<lparr>opt_valgrind := True\<rparr> else o') rest"
  using parse_args_flag [of "''grind''" "\<lambda>o'. o'\<lparr>opt_valgrind := True\<rparr>" o' b rest]
  by (simp add: option_table_def match_long_def)

lemma opt_flag_kinds: "parse_args option_table o' (flag_arg ''--kinds'' b @ rest) =
    parse_args option_table (if b then o'\<lparr>opt_kinds := True\<rparr> else o') rest"
  using parse_args_flag [of "''kinds''" "\<lambda>o'. o'\<lparr>opt_kinds := True\<rparr>" o' b rest]
  by (simp add: option_table_def match_long_def)

lemma opt_flag_list: "parse_args option_table o' (flag_arg ''--list'' b @ rest) =
    parse_args option_table (if b then o'\<lparr>opt_list := True\<rparr> else o') rest"
  using parse_args_flag [of "''list''" "\<lambda>o'. o'\<lparr>opt_list := True\<rparr>" o' b rest]
  by (simp add: option_table_def match_long_def)

lemma opt_flag_multiple: "parse_args option_table o' (flag_arg ''--multiple'' b @ rest) =
    parse_args option_table (if b then o'\<lparr>opt_multiple := True\<rparr> else o') rest"
  using parse_args_flag [of "''multiple''" "\<lambda>o'. o'\<lparr>opt_multiple := True\<rparr>" o' b rest]
  by (simp add: option_table_def match_long_def)

lemma opt_flag_nowaf: "parse_args option_table o' (flag_arg ''--nowaf'' b @ rest) =
    parse_args option_table (if b then o'\<lparr>opt_nowaf := True\<rparr> else o') rest"
  using parse_args_flag [of "''nowaf''" "\<lambda>o'. o'\<lparr>opt_nowaf := True\<rparr>" o' b rest]
  by (simp add: option_table_def match_long_def)

lemma opt_flag_retain: "parse_args option_table o' (flag_arg ''--retain'' b @ rest) =
    parse_args option_table (if b then o'\<lparr>opt_retain := True\<rparr> else o') rest"
  using parse_args_flag [of "''retain''" "\<lambda>o'. o'\<lparr>opt_retain := True\<rparr>" o' b rest]
  by (simp add: option_table_def match_long_def)

lemma opt_flag_verbose: "parse_args option_table o' (flag_arg ''--verbose'' b @ rest) =
    parse_args option_table (if b then o'\<lparr>opt_verbose := True\<rparr> else o') rest"
  using parse_args_flag [of "''verbose''" "\<lambda>o'. o'\<lparr>opt_verbose := True\<rparr>" o' b rest]
  by (simp add: option_table_def match_long_def)

lemma opt_flag_nocolor: "parse_args option_table o' (flag_arg ''--nocolor'' b @ rest) =
    parse_args option_table (if b then o'\<lparr>opt_nocolor := True\<rparr> else o') rest"
  using parse_args_flag [of "''nocolor''" "\<lambda>o'. o'\<lparr>opt_nocolor := True\<rparr>" o' b rest]
  by (simp add: option_table_def match_long_def)

lemma opt_arg_fullness: "v \<in> {''QUICK'', ''EXTENSIVE'', ''TAKES_FOREVER''} \<Longrightarrow>
    parse_args option_table o' ((''--fullness='' @ v) # rest) = parse_args option_table (o'\<lparr>opt_fullness := v\<rparr>) rest"
  using parse_args_value [of "''fullness''" "StoreChoice [''QUICK'', ''EXTENSIVE'', ''TAKES_FOREVER''] (\<lambda>v o'. o'\<lparr>opt_fullness := v\<rparr>)" o' v rest]
  by (simp add: option_table_def match_long_def takes_value_def apply_value_def)

lemma opt_arg_jobs: "parse_args option_table o' ((''--jobs='' @ show_int i) # rest) =
    parse_args option_table (o'\<lparr>opt_process_limit := i\<rparr>) rest"
  using parse_args_value [of "''jobs''" "StoreInt (\<lambda>v o'. o'\<lparr>opt_process_limit := v\<rparr>)" o' "show_int i" rest]
  by (simp add: option_table_def match_long_def takes_value_def apply_value_def)

lemmas opt_args = opt_arg_fullness opt_arg_jobs
  opt_arg_buildpath
  opt_arg_constrain
  opt_arg_example
  opt_arg_pyexample
  opt_arg_suite
  opt_arg_text
  opt_arg_html
  opt_arg_xml
  opt_flag_duration
  opt_flag_update_data
  opt_flag_valgrind
  opt_flag_kinds
  opt_flag_list
  opt_flag_multiple
  opt_flag_nowaf
  opt_flag_retain
  opt_flag_verbose
  opt_flag_nocolor

text \<open>
  C17: the command line is read back: rendering an options record as arguments and parsing them over
  the defaults gives the record, for every record whose fullness is one of the three choices.
\<close>

theorem parse_render_options:
  assumes "options_ok opts"
  shows "parse_args option_table default_options (render_options opts) = Inr opts"
proof -
  have full: "opt_fullness opts \<in> {''QUICK'', ''EXTENSIVE'', ''TAKES_FOREVER''}"
    using assms by (simp add: options_ok_def)
  have "parse_args option_table default_options (render_options opts) =
      parse_args option_table opts []"
    unfolding render_options_def opt_args opt_arg_fullness [OF full]
    by (cases opts) (simp add: default_options_def)
  then show ?thesis by simp
qed

theorem parse_render_options_witness:
  "parse_args option_table default_options
     (render_options (default_options\<lparr>opt_suite := ''tcp'', opt_valgrind := True, opt_process_limit := 4\<rparr>)) =
   Inr (default_options\<lparr>opt_suite := ''tcp'', opt_valgrind := True, opt_process_limit := 4\<rparr>)"
  by (rule parse_render_options) (simp add: options_ok_def default_options_def)

end
