(* ===== verification/Fnmatch.thy ===== *)
theory Fnmatch
  imports Py_Strings
begin

text \<open>
  \<open>fnmatch.filter\<close> of the standard library, which \<^verbatim>\<open>test.py\<close> uses to select suites and
  examples by name: \<open>*\<close>, \<open>?\<close>, \<open>[seq]\<close> and \<open>[!seq]\<close>, and an opening bracket that is
  never closed stands for itself. The lemmas cover the patterns without special characters.
\<close>

datatype glob = GStar | GAny | GChar char | GSet bool "(char \<times> char) list"

fun class_items :: "string \<Rightarrow> (char \<times> char) list" where
  "class_items (a # b # c # s) =
     (if b = CHR ''-'' then (a, c) # class_items s else (a, a) # class_items (b # c # s))"
| "class_items (a # s) = (a, a) # class_items s"
| "class_items [] = []"

definition glob_set :: "string \<Rightarrow> glob" where
  "glob_set stuff =
     (case stuff of
        CHR ''!'' # s \<Rightarrow> GSet True (class_items s)
      | s \<Rightarrow> GSet False (class_items s))"

text \<open>The text up to the closing bracket, which is not the first character of the set.\<close>

definition bracket_split :: "string \<Rightarrow> (string \<times> string) option" where
  "bracket_split s =
     (let (neg, s1) = (if prefix ''!'' s then (''!'', tl s) else ([], s));
          (fst_c, s2) = (if prefix '']'' s1 then ('']'', tl s1) else ([], s1))
      in if CHR '']'' \<in> set s2
         then Some (neg @ fst_c @ takeWhile (\<lambda>c. c \<noteq> CHR '']'') s2, tl (dropWhile (\<lambda>c. c \<noteq> CHR '']'') s2))
         else None)"

lemma bracket_split_shorter:
  assumes "bracket_split s = Some (stuff, rest)"
  shows "length rest \<le> length s"
proof -
  define s1 where "s1 = (if prefix ''!'' s then tl s else s)"
  define s2 where "s2 = (if prefix '']'' s1 then tl s1 else s1)"
  from assms have "rest = tl (dropWhile (\<lambda>c. c \<noteq> CHR '']'') s2)"
    unfolding bracket_split_def s1_def s2_def by (simp add: Let_def split: if_splits)
  then have "length rest \<le> length s2"
    using length_dropWhile_le [of "\<lambda>c. c \<noteq> CHR '']''" s2] by simp
  moreover have "length s2 \<le> length s1" by (simp add: s2_def)
  moreover have "length s1 \<le> length s" by (simp add: s1_def)
  ultimately show ?thesis by simp
qed

function glob_parse :: "string \<Rightarrow> glob list" where
  "glob_parse [] = []"
| "glob_parse (c # s) =
     (if c = CHR ''*'' then GStar # glob_parse s
      else if c = CHR ''?'' then GAny # glob_parse s
      else if c = CHR ''['' then
        (case bracket_split s of
           None \<Rightarrow> GChar c # glob_parse s
         | Some (stuff, rest) \<Rightarrow> glob_set stuff # glob_parse rest)
      else GChar c # glob_parse s)"
  by pat_completeness auto
termination
  by (relation "measure length") (auto dest: bracket_split_shorter)

fun glob_char :: "glob \<Rightarrow> char \<Rightarrow> bool" where
  "glob_char GStar c = False"
| "glob_char GAny c = True"
| "glob_char (GChar d) c = (c = d)"
| "glob_char (GSet neg items) c = (neg \<noteq> list_ex (\<lambda>(lo, hi). lo \<le> c \<and> c \<le> hi) items)"

fun glob_match :: "glob list \<Rightarrow> string \<Rightarrow> bool" where
  "glob_match [] [] = True"
| "glob_match [] (c # s) = False"
| "glob_match (GStar # g) [] = glob_match g []"
| "glob_match (GStar # g) (c # s) = (glob_match g (c # s) \<or> glob_match (GStar # g) s)"
| "glob_match (x # g) [] = False"
| "glob_match (x # g) (c # s) = (glob_char x c \<and> glob_match g s)"

definition fnmatch_filter :: "string list \<Rightarrow> string \<Rightarrow> string list" where
  "fnmatch_filter names pat = filter (glob_match (glob_parse pat)) names"

definition plain_pattern :: "string \<Rightarrow> bool" where
  "plain_pattern s = list_all (\<lambda>c. c \<noteq> CHR ''*'' \<and> c \<noteq> CHR ''?'' \<and> c \<noteq> CHR ''['') s"

lemma glob_parse_plain: "plain_pattern s \<Longrightarrow> glob_parse s = map GChar s"
  by (induction s) (auto simp: plain_pattern_def)

lemma glob_match_chars: "glob_match (map GChar p) s \<longleftrightarrow> s = p"
proof (induction p arbitrary: s)
  case Nil
  then show ?case by (cases s) auto
next
  case (Cons c p)
  then show ?case by (cases s) auto
qed

lemma fnmatch_filter_plain: "plain_pattern p \<Longrightarrow> fnmatch_filter names p = filter (\<lambda>s. s = p) names"
  unfolding fnmatch_filter_def by (rule filter_cong) (simp_all add: glob_parse_plain glob_match_chars)

lemma fnmatch_filter_subset: "set (fnmatch_filter names p) \<subseteq> set names"
  by (auto simp: fnmatch_filter_def)

end
