(* ===== verification/Test_Jobs.thy ===== *)
theory Test_Jobs
  imports Test_Env Test_Options Fnmatch
begin

text \<open>
  What \<open>run_tests\<close> of \<^verbatim>\<open>test.py\<close> decides before the workers report: the waf target, the
  suites and examples that are selected by the options, the number of workers, and the jobs put on
  the input queue, each with its command line and the reason it is skipped, if any. The lemmas
  describe the queue as a whole: which groups of jobs are dispatched under which options, and how
  many jobs end the workers.
\<close>

section \<open>Jobs\<close>

record job =
  is_break :: bool
  is_skip :: bool
  skip_reason :: string
  is_example :: bool
  is_pyexample :: bool
  shell_command :: string
  display_name :: string
  basedir :: string
  tempdir :: string
  cwd :: string
  tmp_file_name :: string
  returncode :: int
  elapsed_time :: rat
  build_path :: string

text \<open>\<open>self.returncode = False\<close> compares equal to 0.\<close>

definition new_job :: job where
  "new_job =
     \<lparr> is_break = False, is_skip = False, skip_reason = [], is_example = False, is_pyexample = False,
       shell_command = [], display_name = [], basedir = [], tempdir = [], cwd = [],
       tmp_file_name = [], returncode = 0, elapsed_time = 0, build_path = [] \<rparr>"

definition set_is_break :: "bool \<Rightarrow> job \<Rightarrow> job" where "set_is_break v j = j\<lparr>is_break := v\<rparr>"
definition set_is_skip :: "bool \<Rightarrow> job \<Rightarrow> job" where "set_is_skip v j = j\<lparr>is_skip := v\<rparr>"
definition set_skip_reason :: "string \<Rightarrow> job \<Rightarrow> job" where "set_skip_reason v j = j\<lparr>skip_reason := v\<rparr>"
definition set_is_example :: "bool \<Rightarrow> job \<Rightarrow> job" where "set_is_example v j = j\<lparr>is_example := v\<rparr>"
definition set_is_pyexample :: "bool \<Rightarrow> job \<Rightarrow> job" where "set_is_pyexample v j = j\<lparr>is_pyexample := v\<rparr>"
definition set_shell_command :: "string \<Rightarrow> job \<Rightarrow> job" where "set_shell_command v j = j\<lparr>shell_command := v\<rparr>"
definition set_build_path :: "string \<Rightarrow> job \<Rightarrow> job" where "set_build_path v j = j\<lparr>build_path := v\<rparr>"
definition set_display_name :: "string \<Rightarrow> job \<Rightarrow> job" where "set_display_name v j = j\<lparr>display_name := v\<rparr>"
definition set_basedir :: "string \<Rightarrow> job \<Rightarrow> job" where "set_basedir v j = j\<lparr>basedir := v\<rparr>"
definition set_tempdir :: "string \<Rightarrow> job \<Rightarrow> job" where "set_tempdir v j = j\<lparr>tempdir := v\<rparr>"
definition set_cwd :: "string \<Rightarrow> job \<Rightarrow> job" where "set_cwd v j = j\<lparr>cwd := v\<rparr>"
definition set_tmp_file_name :: "string \<Rightarrow> job \<Rightarrow> job" where "set_tmp_file_name v j = j\<lparr>tmp_file_name := v\<rparr>"
definition set_returncode :: "int \<Rightarrow> job \<Rightarrow> job" where "set_returncode v j = j\<lparr>returncode := v\<rparr>"
definition set_elapsed_time :: "rat \<Rightarrow> job \<Rightarrow> job" where "set_elapsed_time v j = j\<lparr>elapsed_time := v\<rparr>"

lemmas job_setters =
  set_is_break_def set_is_skip_def set_skip_reason_def set_is_example_def set_is_pyexample_def
  set_shell_command_def set_build_path_def set_display_name_def set_basedir_def set_tempdir_def
  set_cwd_def set_tmp_file_name_def set_returncode_def set_elapsed_time_def

section \<open>The tables of the module\<close>

definition core_kinds :: "string list" where
  "core_kinds = [''core'', ''performance'', ''system'', ''unit'']"

definition core_valgrind_skip_tests :: "string list" where
  "core_valgrind_skip_tests =
     [''ns3-tcp-cwnd'', ''nsc-tcp-loss'', ''ns3-tcp-interoperability'', ''routing-click'',
      ''lte-rr-ff-mac-scheduler'', ''lte-tdmt-ff-mac-scheduler'', ''lte-fdmt-ff-mac-scheduler'',
      ''lte-pf-ff-mac-scheduler'', ''lte-tta-ff-mac-scheduler'', ''lte-fdbet-ff-mac-scheduler'',
      ''lte-ttbet-ff-mac-scheduler'', ''lte-fdtbfq-ff-mac-scheduler'',
      ''lte-tdtbfq-ff-mac-scheduler'', ''lte-pss-ff-mac-scheduler'']"

definition core_nsc_missing_skip_tests :: "string list" where
  "core_nsc_missing_skip_tests = [''ns3-tcp-cwnd'', ''nsc-tcp-loss'', ''ns3-tcp-interoperability'']"

section \<open>Before the queue\<close>

text \<open>
  What \<open>run_tests\<close> reads from outside: the child processes, the files, the evaluation of a
  condition string, the current directory, the platform, the exit status of waf, and the two ways
  the number of processors is found (\<open>os.sysconf\<close>, else the two outputs of \<open>sysctl\<close>).
\<close>

record world =
  w_proc :: proc_oracle
  w_fs :: file_system
  w_eval :: evaluator
  w_cwd :: string
  w_platform :: string
  w_waf :: "string \<Rightarrow> int"
  w_sysconf :: "int option"
  w_sysctl :: "string option \<times> string option"

definition set_suffix :: "waf_config \<Rightarrow> waf_config" where
  "set_suffix cfg =
     (if BUILD_PROFILE cfg = ''release'' then cfg\<lparr>BUILD_PROFILE_SUFFIX := []\<rparr>
      else cfg\<lparr>BUILD_PROFILE_SUFFIX := ''-'' @ BUILD_PROFILE cfg\<rparr>)"

definition test_runner_name :: "waf_config \<Rightarrow> string" where
  "test_runner_name cfg = APPNAME cfg @ VERSION cfg @ ''-'' @ ''test-runner'' @ BUILD_PROFILE_SUFFIX cfg"

definition waf_command :: "test_options \<Rightarrow> string" where
  "waf_command opts =
     (if opt_kinds opts \<or> opt_list opts \<or> (opt_constrain opts \<noteq> [] \<and> opt_constrain opts \<in> set core_kinds)
      then ''./waf --target=test-runner''
      else if opt_example opts \<noteq> [] then ''./waf --target='' @ basename (opt_example opts)
      else ''./waf'')"

definition run_waf :: "world \<Rightarrow> test_options \<Rightarrow> int option" where
  \<comment> \<open>the status \<open>run_tests\<close> returns at once when waf fails\<close>
  "run_waf w opts =
     (if opt_nowaf opts then None
      else if w_waf w (waf_command opts) \<noteq> 0 then Some (w_waf w (waf_command opts)) else None)"

definition py_str_list :: "pyval \<Rightarrow> string list res" where
  \<comment> \<open>iterating over \<open>os.path.basename(program)\<close> needs strings\<close>
  "py_str_list v = bindE (unpack v) (mapE as_str)"

definition runnable_programs :: "pyval \<Rightarrow> (string, string) dict res" where
  "runnable_programs v =
     bindE (py_str_list v) (\<lambda>programs.
     Inr (foldl (\<lambda>d program. dict_set (basename program) program d) [] programs))"

definition read_build_status :: "world \<Rightarrow> waf_config \<Rightarrow> ((string, string) dict \<times> pyval) res" where
  "read_build_status w cfg =
     (let build_status_file = path_join (NS3_BUILDDIR cfg) ''build-status.py''
      in if w_fs w build_status_file \<noteq> None
         then bindE (get_list_from_file (w_fs w) (w_eval w) build_status_file ''ns3_runnable_programs'') (\<lambda>programs.
              bindE (get_list_from_file (w_fs w) (w_eval w) build_status_file ''ns3_runnable_scripts'') (\<lambda>scripts.
              bindE (runnable_programs programs) (\<lambda>d. Inr (d, scripts))))
         else Inl (SystemExit 2))"

definition directory_examples :: "world \<Rightarrow> waf_config \<Rightarrow> example_lists \<Rightarrow> string \<Rightarrow> example_lists res" where
  "directory_examples w cfg st directory =
     (let example_directory = path_join ''examples'' directory
      in parse_examples_to_run_file cfg (w_fs w) (w_eval w) (w_cwd w)
           (path_join example_directory ''examples-to-run.py'')
           (path_join (NS3_BUILDDIR cfg) example_directory) example_directory st)"

definition module_examples ::
    "string \<Rightarrow> world \<Rightarrow> waf_config \<Rightarrow> example_lists \<Rightarrow> string \<Rightarrow> example_lists res" where
  \<comment> \<open>\<open>module[len("ns3-"):]\<close> under \<^verbatim>\<open>src\<close> or \<^verbatim>\<open>contrib\<close>\<close>
  "module_examples tree_dir w cfg st mdl =
     (let module_directory = path_join tree_dir (drop 4 mdl);
          example_directory = path_join module_directory ''examples''
      in parse_examples_to_run_file cfg (w_fs w) (w_eval w) (w_cwd w)
           (path_join (path_join module_directory ''test'') ''examples-to-run.py'')
           (path_join (NS3_BUILDDIR cfg) example_directory) example_directory st)"

definition bound_global :: "'a option \<Rightarrow> 'a res" where
  "bound_global v = (case v of None \<Rightarrow> Inl NameError | Some x \<Rightarrow> Inr x)"

definition collect_examples :: "world \<Rightarrow> waf_config \<Rightarrow> example_lists res" where
  "collect_examples w cfg =
     bindE (foldE (directory_examples w cfg)
              \<lparr>example_tests = [], example_names_original = [], python_tests = []\<rparr>
              (EXAMPLE_DIRECTORIES cfg)) (\<lambda>st.
     bindE (bound_global (NS3_ENABLED_MODULES cfg)) (\<lambda>mods.
     bindE (foldE (module_examples ''src'' w cfg) st mods) (\<lambda>st.
     bindE (bound_global (NS3_ENABLED_CONTRIBUTED_MODULES cfg)) (\<lambda>cmods.
     foldE (module_examples ''contrib'' w cfg) st cmods))))"

section \<open>Which suites are run\<close>

definition runner_output :: "world \<Rightarrow> waf_config \<Rightarrow> string \<Rightarrow> (int \<times> string option) res" where
  \<comment> \<open>\<open>run_job_synchronously(os.path.join("utils", test_runner_name + args), os.getcwd(), False, False)\<close>\<close>
  "runner_output w cfg args =
     bindE (run_job_synchronously cfg (w_proc w) (path_join ''utils'' (test_runner_name cfg @ args)) (w_cwd w)
              False False []) (\<lambda>(rc, out, err, et). Inr (rc, out))"

definition decoded :: "string option \<Rightarrow> string res" where
  \<comment> \<open>output still in bytes is decoded again, which raises again\<close>
  "decoded out = (case out of None \<Rightarrow> Inl ValueError | Some s \<Rightarrow> Inr s)"

definition select_suites :: "world \<Rightarrow> waf_config \<Rightarrow> test_options \<Rightarrow> (string list \<times> bool) res" where
  "select_suites w cfg opts =
     (if opt_suite opts \<noteq> [] then
        bindE (runner_output w cfg '' --print-test-name-list'') (\<lambda>(rc, out).
        bindE (decoded out) (\<lambda>suites.
        let suites_found = fnmatch_filter (py_split newline suites) (opt_suite opts)
        in if suites_found = [] then Inl (SystemExit 2)
           else Inr (py_split newline (py_join [newline] suites_found), length suites_found = 1)))
      else if opt_example opts = [] \<and> opt_pyexample opts = [] then
        bindE (if opt_constrain opts \<noteq> []
               then runner_output w cfg ('' --print-test-name-list --test-type='' @ opt_constrain opts)
               else runner_output w cfg '' --print-test-name-list'') (\<lambda>(rc, out).
        bindE (decoded out) (\<lambda>suites. Inr (py_split newline suites, False)))
      else Inr (py_split newline [], False))"

definition remove_suites :: "string list \<Rightarrow> string list \<Rightarrow> string list" where
  \<comment> \<open>\<open>if t in suite_list: suite_list.remove(t)\<close> for every \<open>t\<close>\<close>
  "remove_suites perf suite_list =
     foldl (\<lambda>suite_list t. if t \<in> set suite_list then remove1 t suite_list else suite_list) suite_list perf"

definition suite_list_of :: "world \<Rightarrow> waf_config \<Rightarrow> test_options \<Rightarrow> string list res" where
  "suite_list_of w cfg opts =
     bindE (select_suites w cfg opts) (\<lambda>(suite_list, single_suite).
     if \<not> single_suite \<and> opt_constrain opts \<noteq> ''performance'' then
       bindE (runner_output w cfg ('' --print-test-name-list --test-type='' @ ''performance'')) (\<lambda>(rc, out).
       bindE (decoded out) (\<lambda>performance_tests.
       Inr (remove_suites (py_split newline performance_tests) suite_list)))
     else Inr suite_list)"

definition processor_count :: "world \<Rightarrow> test_options \<Rightarrow> int res" where
  "processor_count w opts =
     bindE (if w_platform w \<noteq> ''win32''
            then (case w_sysconf w of
                    Some n \<Rightarrow> Inr n
                  | None \<Rightarrow> bindE (decoded (fst (w_sysctl w))) (\<lambda>out.
                            bindE (decoded (snd (w_sysctl w))) (\<lambda>err.
                            if err = [] then (case py_int 10 out of Some n \<Rightarrow> Inr n | None \<Rightarrow> Inl ValueError)
                            else Inr 1)))
            else Inr 1) (\<lambda>processors.
     Inr (if opt_process_limit opts \<noteq> 0
          then (if processors < opt_process_limit opts then processors else opt_process_limit opts)
          else processors))"

section \<open>The jobs on the input queue\<close>

definition suite_job :: "world \<Rightarrow> waf_config \<Rightarrow> test_options \<Rightarrow> string \<Rightarrow> string \<Rightarrow> job" where
  "suite_job w cfg opts output_dir test =
     (let job0 = set_is_pyexample False (set_is_example False new_job);
          job1 = set_tmp_file_name (path_join output_dir (test @ ''.xml'')) (set_display_name test job0);
          job2 = set_tempdir output_dir (set_basedir (w_cwd w) (set_cwd (w_cwd w) job1));
          multiple = (if opt_multiple opts then [] else '' --stop-on-failure'');
          fullness = (if opt_fullness opts \<noteq> [] then '' --fullness='' @ py_upper (opt_fullness opts)
                      else '' --fullness=QUICK'');
          path_cmd = path_join ''utils'' (test_runner_name cfg @ '' --test-name='' @ test @ multiple @ fullness);
          job3 = set_shell_command path_cmd job2;
          job4 = (if opt_valgrind opts \<and> test \<in> set core_valgrind_skip_tests
                  then set_skip_reason ''crashes valgrind'' (set_is_skip True job3) else job3)
      in if \<not> NSC_ENABLED cfg \<and> test \<in> set core_nsc_missing_skip_tests
         then set_skip_reason ''requires NSC'' (set_is_skip True job4) else job4)"

definition suite_jobs :: "world \<Rightarrow> waf_config \<Rightarrow> test_options \<Rightarrow> string \<Rightarrow> string list \<Rightarrow> job list" where
  "suite_jobs w cfg opts output_dir suite_list =
     map (suite_job w cfg opts output_dir) (filter (\<lambda>t. t \<noteq> []) (map py_strip suite_list))"

definition eval_cond :: "world \<Rightarrow> pyval \<Rightarrow> bool res" where
  "eval_cond w v =
     (case v of PyStr s \<Rightarrow> bindE (w_eval w s) (\<lambda>r. Inr (truthy r)) | _ \<Rightarrow> Inl TypeError)"

definition script_name :: "string \<Rightarrow> string" where
  \<comment> \<open>\<open>os.path.basename(test.split(' ', 1)[0])\<close>\<close>
  "script_name test = basename (hd (py_split1 CHR '' '' test))"

definition example_job :: "world \<Rightarrow> test_options \<Rightarrow> string \<Rightarrow> string \<Rightarrow> string \<Rightarrow> job" where
  "example_job w opts output_dir name test =
     set_build_path (opt_buildpath opts) (set_shell_command test
       (set_tempdir output_dir (set_basedir (w_cwd w) (set_cwd output_dir
         (set_tmp_file_name [] (set_display_name name
           (set_is_pyexample False (set_is_example True new_job))))))))"

definition queue_example ::
    "world \<Rightarrow> test_options \<Rightarrow> string \<Rightarrow> (string, string) dict \<Rightarrow> job list \<Rightarrow>
       string \<times> string \<times> pyval \<times> pyval \<Rightarrow> job list res" where
  "queue_example w opts output_dir programs jobs =
     (\<lambda>(name, test, do_run, do_valgrind_run).
        if dict_in (script_name test) programs then
          bindE (eval_cond w do_run) (\<lambda>run.
          if run then
            bindE (if opt_valgrind opts then eval_cond w do_valgrind_run else Inr True) (\<lambda>valgrind_run.
            let job0 = example_job w opts output_dir name test;
                job1 = (if opt_valgrind opts \<and> \<not> valgrind_run
                        then set_skip_reason ''skip in valgrind runs'' (set_is_skip True job0) else job0)
            in Inr (jobs @ [job1]))
          else Inr jobs)
        else Inr jobs)"

definition no_selection :: "test_options \<Rightarrow> bool" where
  "no_selection opts = (opt_suite opts = [] \<and> opt_example opts = [] \<and> opt_pyexample opts = [])"

definition example_jobs ::
    "world \<Rightarrow> waf_config \<Rightarrow> test_options \<Rightarrow> string \<Rightarrow> (string, string) dict \<Rightarrow>
       (string \<times> string \<times> pyval \<times> pyval) list \<Rightarrow> job list res" where
  "example_jobs w cfg opts output_dir programs tests =
     (if no_selection opts then
        (if (opt_constrain opts = [] \<or> opt_constrain opts = ''example'') \<and> ENABLE_EXAMPLES cfg
         then foldE (queue_example w opts output_dir programs) [] tests
         else Inr [])
      else if opt_example opts \<noteq> [] then
        (let example_name = APPNAME cfg @ VERSION cfg @ ''-'' @ opt_example opts @ BUILD_PROFILE_SUFFIX cfg;
             key_list = dict_keys programs;
             example_name_key_list = fnmatch_filter key_list example_name
         in mapE (\<lambda>k. case dict_get programs k of
                        None \<Rightarrow> Inl KeyError
                      | Some p \<Rightarrow> Inr (example_job w opts output_dir (abspath (w_cwd w) p) (abspath (w_cwd w) p)))
              example_name_key_list)
      else Inr [])"

definition py_in :: "string \<Rightarrow> pyval \<Rightarrow> bool res" where
  \<comment> \<open>\<open>name in container\<close>\<close>
  "py_in s v =
     (case v of
        PyList vs \<Rightarrow> Inr (PyStr s \<in> set vs)
      | PyTuple vs \<Rightarrow> Inr (PyStr s \<in> set vs)
      | PyStr t \<Rightarrow> Inr (py_contains s t)
      | _ \<Rightarrow> Inl TypeError)"

definition pyexample_job :: "world \<Rightarrow> string \<Rightarrow> string \<Rightarrow> job" where
  "pyexample_job w output_dir test =
     set_build_path [] (set_shell_command test
       (set_tempdir output_dir (set_basedir (w_cwd w) (set_cwd output_dir
         (set_tmp_file_name [] (set_display_name test (set_is_pyexample True new_job)))))))"

definition queue_pyexample ::
    "world \<Rightarrow> waf_config \<Rightarrow> test_options \<Rightarrow> string \<Rightarrow> pyval \<Rightarrow> job list \<Rightarrow> string \<times> pyval \<Rightarrow> job list res" where
  "queue_pyexample w cfg opts output_dir scripts jobs =
     (\<lambda>(test, do_run).
        bindE (py_in (script_name test) scripts) (\<lambda>runnable.
        if runnable then
          bindE (eval_cond w do_run) (\<lambda>run.
          if run then
            (let job0 = pyexample_job w output_dir test;
                 job1 = (if opt_valgrind opts
                         then set_skip_reason ''skip in valgrind runs'' (set_is_skip True job0) else job0)
             in bindE (bound_global (ENABLE_PYTHON_BINDINGS cfg)) (\<lambda>bindings.
                Inr (jobs @ [if \<not> bindings
                             then set_skip_reason ''requires Python bindings'' (set_is_skip True job1)
                             else job1])))
          else Inr jobs)
        else Inr jobs))"

definition pyexample_jobs ::
    "world \<Rightarrow> waf_config \<Rightarrow> test_options \<Rightarrow> string \<Rightarrow> pyval \<Rightarrow> (string \<times> pyval) list \<Rightarrow> job list res" where
  "pyexample_jobs w cfg opts output_dir scripts tests =
     (if no_selection opts then
        (if (opt_constrain opts = [] \<or> opt_constrain opts = ''pyexample'') \<and> ENABLE_EXAMPLES cfg
         then foldE (queue_pyexample w cfg opts output_dir scripts) [] tests
         else Inr [])
      else if opt_pyexample opts \<noteq> [] then
        bindE (py_in (basename (opt_pyexample opts)) scripts) (\<lambda>runnable.
        Inr (if \<not> runnable then [] else [pyexample_job w output_dir (opt_pyexample opts)]))
      else Inr [])"

definition break_job :: job where
  "break_job = set_is_break True new_job"

definition dispatch ::
    "world \<Rightarrow> waf_config \<Rightarrow> test_options \<Rightarrow> string \<Rightarrow> (string, string) dict \<Rightarrow> pyval \<Rightarrow>
       example_lists \<Rightarrow> (job list \<times> nat) res" where
  \<comment> \<open>the jobs of the input queue in their order, and the number of workers, each of which is
    sent a break job after them\<close>
  "dispatch w cfg opts output_dir programs scripts st =
     bindE (suite_list_of w cfg opts) (\<lambda>suite_list.
     bindE (processor_count w opts) (\<lambda>processors.
     bindE (example_jobs w cfg opts output_dir programs (example_tests st)) (\<lambda>ex.
     bindE (pyexample_jobs w cfg opts output_dir scripts (python_tests st)) (\<lambda>py.
     Inr (suite_jobs w cfg opts output_dir suite_list @ ex @ py, nat processors)))))"

definition input_queue_of :: "job list \<times> nat \<Rightarrow> job list" where
  "input_queue_of d = fst d @ replicate (snd d) break_job"

section \<open>Removing the performance suites\<close>

lemma remove_suites_Cons: "remove_suites (t # perf) ts = remove_suites perf (remove1 t ts)"
  by (simp add: remove_suites_def remove1_idem)

lemma remove_suites_filter:
  "distinct ts \<Longrightarrow> remove_suites perf ts = filter (\<lambda>t. t \<notin> set perf) ts"
proof (induction perf arbitrary: ts)
  case Nil
  then show ?case by (simp add: remove_suites_def)
next
  case (Cons t perf)
  then have "remove_suites (t # perf) ts = filter (\<lambda>u. u \<notin> set perf) (remove1 t ts)"
    by (simp add: remove_suites_Cons)
  also have "\<dots> = filter (\<lambda>u. u \<notin> set perf) (filter (\<lambda>u. u \<noteq> t) ts)"
    using Cons.prems by (simp add: distinct_remove1_removeAll removeAll_filter_not_eq) (metis (mono_tags))
  also have "\<dots> = filter (\<lambda>u. u \<notin> set (t # perf)) ts"
    by (simp add: conj_commute)
  finally show ?case .
qed

section \<open>What each group of jobs looks like\<close>

definition skip_with :: "string \<Rightarrow> job \<Rightarrow> job" where
  "skip_with reason j = set_skip_reason reason (set_is_skip True j)"

lemma skip_with_sel [simp]:
  "is_skip (skip_with r j)" "skip_reason (skip_with r j) = r" "is_break (skip_with r j) = is_break j"
  "is_example (skip_with r j) = is_example j" "is_pyexample (skip_with r j) = is_pyexample j"
  "shell_command (skip_with r j) = shell_command j" "display_name (skip_with r j) = display_name j"
  by (simp_all add: skip_with_def job_setters)

lemma new_job_sel [simp]:
  "\<not> is_break new_job" "\<not> is_skip new_job" "\<not> is_example new_job" "\<not> is_pyexample new_job"
  "skip_reason new_job = []"
  by (simp_all add: new_job_def)

lemma break_job_sel [simp]: "is_break break_job"
  by (simp add: break_job_def job_setters)

lemma suite_job_sel [simp]:
  "\<not> is_break (suite_job w cfg opts dir t)" "\<not> is_example (suite_job w cfg opts dir t)"
  "\<not> is_pyexample (suite_job w cfg opts dir t)" "display_name (suite_job w cfg opts dir t) = t"
  "is_skip (suite_job w cfg opts dir t) \<longleftrightarrow>
     (opt_valgrind opts \<and> t \<in> set core_valgrind_skip_tests) \<or>
     (\<not> NSC_ENABLED cfg \<and> t \<in> set core_nsc_missing_skip_tests)"
  "skip_reason (suite_job w cfg opts dir t) =
     (if \<not> NSC_ENABLED cfg \<and> t \<in> set core_nsc_missing_skip_tests then ''requires NSC''
      else if opt_valgrind opts \<and> t \<in> set core_valgrind_skip_tests then ''crashes valgrind'' else [])"
  by (simp_all add: suite_job_def job_setters Let_def new_job_def)

lemma example_job_sel [simp]:
  "\<not> is_break (example_job w opts dir nm t)" "\<not> is_skip (example_job w opts dir nm t)"
  "is_example (example_job w opts dir nm t)" "\<not> is_pyexample (example_job w opts dir nm t)"
  "display_name (example_job w opts dir nm t) = nm" "shell_command (example_job w opts dir nm t) = t"
  by (simp_all add: example_job_def job_setters new_job_def)

lemma pyexample_job_sel [simp]:
  "\<not> is_break (pyexample_job w dir t)" "\<not> is_skip (pyexample_job w dir t)"
  "\<not> is_example (pyexample_job w dir t)" "is_pyexample (pyexample_job w dir t)"
  "display_name (pyexample_job w dir t) = t"
  by (simp_all add: pyexample_job_def job_setters new_job_def)

definition example_shape :: "job \<Rightarrow> bool" where
  "example_shape j = (\<not> is_break j \<and> is_example j \<and> \<not> is_pyexample j)"

definition pyexample_shape :: "test_options \<Rightarrow> job \<Rightarrow> bool" where
  "pyexample_shape opts j =
     (\<not> is_break j \<and> \<not> is_example j \<and> is_pyexample j \<and> (no_selection opts \<longrightarrow> opt_valgrind opts \<longrightarrow> is_skip j))"

lemma queue_example_cases:
  assumes "queue_example w opts dir programs jobs x = Inr jobs'"
  shows "jobs' = jobs \<or> (\<exists>nm t. jobs' = jobs @ [example_job w opts dir nm t] \<or>
           jobs' = jobs @ [skip_with ''skip in valgrind runs'' (example_job w opts dir nm t)] \<and> opt_valgrind opts)"
proof -
  obtain nm t r v where x: "x = (nm, t, r, v)" by (metis prod_cases4)
  show ?thesis
    using assms unfolding x queue_example_def skip_with_def
    by (auto simp: bindE_Inr_conv Let_def split: if_splits)
qed

lemma queue_example_shape:
  assumes "queue_example w opts dir programs jobs x = Inr jobs'" and "list_all example_shape jobs"
  shows "list_all example_shape jobs'"
  using queue_example_cases [OF assms(1)] assms(2) by (auto simp: example_shape_def)

lemma queue_pyexample_cases:
  assumes "queue_pyexample w cfg opts dir scripts jobs x = Inr jobs'"
  shows "jobs' = jobs \<or> (\<exists>t j. jobs' = jobs @ [j] \<and>
           (j = pyexample_job w dir t \<and> \<not> opt_valgrind opts \<or>
            j = skip_with ''skip in valgrind runs'' (pyexample_job w dir t) \<or>
            j = skip_with ''requires Python bindings'' (pyexample_job w dir t) \<or>
            j = skip_with ''requires Python bindings'' (skip_with ''skip in valgrind runs'' (pyexample_job w dir t))))"
proof -
  obtain t r where x: "x = (t, r)" by (cases x)
  show ?thesis
    using assms unfolding x queue_pyexample_def skip_with_def
    by (auto simp: bindE_Inr_conv Let_def split: if_splits)
qed

lemma queue_pyexample_shape:
  assumes "queue_pyexample w cfg opts dir scripts jobs x = Inr jobs'"
    and "list_all (pyexample_shape opts) jobs"
  shows "list_all (pyexample_shape opts) jobs'"
  using queue_pyexample_cases [OF assms(1)] assms(2) by (auto simp: pyexample_shape_def)

lemma example_jobs_explicit:
  assumes "\<not> no_selection opts" and "opt_example opts \<noteq> []"
    and "example_jobs w cfg opts dir programs tests = Inr ex"
  shows "ex = map (\<lambda>k. let p = abspath (w_cwd w) (the (dict_get programs k)) in example_job w opts dir p p)
                (fnmatch_filter (dict_keys programs)
                   (APPNAME cfg @ VERSION cfg @ ''-'' @ opt_example opts @ BUILD_PROFILE_SUFFIX cfg))"
proof -
  let ?keys = "fnmatch_filter (dict_keys programs)
                   (APPNAME cfg @ VERSION cfg @ ''-'' @ opt_example opts @ BUILD_PROFILE_SUFFIX cfg)"
  let ?f = "\<lambda>k. case dict_get programs k of None \<Rightarrow> Inl KeyError
                | Some p \<Rightarrow> Inr (example_job w opts dir (abspath (w_cwd w) p) (abspath (w_cwd w) p))"
  have "mapE ?f ?keys = Inr ex"
    using assms by (simp add: example_jobs_def Let_def)
  moreover have "mapE ?f ?keys = Inr (map (\<lambda>k. let p = abspath (w_cwd w) (the (dict_get programs k))
                                                in example_job w opts dir p p) ?keys)"
  proof (rule mapE_all_Inr)
    fix k
    assume "k \<in> set ?keys"
    then have "k \<in> set (dict_keys programs)" using fnmatch_filter_subset by blast
    then obtain p where "dict_get programs k = Some p"
      by (auto simp: dict_keys_def dict_get_def dest: weak_map_of_SomeI)
    then show "?f k = Inr (let p = abspath (w_cwd w) (the (dict_get programs k)) in example_job w opts dir p p)"
      by (simp add: Let_def)
  qed
  ultimately show ?thesis by simp
qed

lemma example_jobs_shape:
  assumes "example_jobs w cfg opts dir programs tests = Inr ex"
  shows "list_all example_shape ex"
proof (cases "no_selection opts")
  case True
  show ?thesis
  proof (cases "(opt_constrain opts = [] \<or> opt_constrain opts = ''example'') \<and> ENABLE_EXAMPLES cfg")
    case True
    then have "foldE (queue_example w opts dir programs) [] tests = Inr ex"
      using assms \<open>no_selection opts\<close> by (simp add: example_jobs_def)
    then show ?thesis
      by (rule foldE_inv [where I = "list_all example_shape"]) (simp, rule queue_example_shape)
  next
    case False
    then have "ex = []" using assms \<open>no_selection opts\<close> by (simp add: example_jobs_def split: if_splits)
    then show ?thesis by simp
  qed
next
  case False
  show ?thesis
  proof (cases "opt_example opts = []")
    case True
    then have "ex = []" using assms False by (simp add: example_jobs_def)
    then show ?thesis by simp
  next
    case nonempty: False
    from example_jobs_explicit [OF False nonempty assms] show ?thesis
      by (auto simp: list_all_iff example_shape_def Let_def)
  qed
qed

lemma pyexample_jobs_shape:
  assumes "pyexample_jobs w cfg opts dir scripts tests = Inr py"
  shows "list_all (pyexample_shape opts) py"
proof (cases "no_selection opts")
  case True
  show ?thesis
  proof (cases "(opt_constrain opts = [] \<or> opt_constrain opts = ''pyexample'') \<and> ENABLE_EXAMPLES cfg")
    case True
    then have "foldE (queue_pyexample w cfg opts dir scripts) [] tests = Inr py"
      using assms \<open>no_selection opts\<close> by (simp add: pyexample_jobs_def)
    then show ?thesis
      by (rule foldE_inv [where I = "list_all (pyexample_shape opts)"]) (simp, rule queue_pyexample_shape)
  next
    case False
    then have "py = []" using assms \<open>no_selection opts\<close> by (simp add: pyexample_jobs_def split: if_splits)
    then show ?thesis by simp
  qed
next
  case False
  then show ?thesis
    using assms by (auto simp: pyexample_jobs_def bindE_Inr_conv pyexample_shape_def split: if_splits)
qed

section \<open>What is wanted\<close>

text \<open>
  The queue as the options, the configuration and the test runner determine it, written with
  filters over what is there; nothing is taken out of a list, joined or split again. A line of the
  queue says what kind of job it is, its name, its command and whether it is skipped.
\<close>

type_synonym queued_line = "(bool \<times> bool \<times> bool) \<times> string \<times> string \<times> bool"

definition queue_line :: "job \<Rightarrow> queued_line" where
  "queue_line j = ((is_break j, is_example j, is_pyexample j), display_name j, shell_command j, is_skip j)"

definition holds :: "world \<Rightarrow> pyval \<Rightarrow> bool" where
  "holds w v = (case v of PyStr s \<Rightarrow> (case w_eval w s of Inr r \<Rightarrow> truthy r | Inl _ \<Rightarrow> False) | _ \<Rightarrow> False)"

definition listed :: "world \<Rightarrow> waf_config \<Rightarrow> string \<Rightarrow> string list" where
  \<comment> \<open>the lines that the test runner prints\<close>
  "listed w cfg type =
     (case runner_output w cfg ('' --print-test-name-list'' @ type) of
        Inr (_, Some out) \<Rightarrow> py_split newline out
      | _ \<Rightarrow> [])"

definition wanted_suites :: "world \<Rightarrow> waf_config \<Rightarrow> test_options \<Rightarrow> string list" where
  "wanted_suites w cfg opts =
     (let every = listed w cfg (if opt_suite opts = [] \<and> opt_constrain opts \<noteq> [] then '' --test-type='' @ opt_constrain opts else []);
          named = (if opt_suite opts \<noteq> [] then filter (glob_match (glob_parse (opt_suite opts))) every
                   else if no_selection opts then every else []);
          asked_for = opt_suite opts \<noteq> [] \<and> length named = 1 \<or> opt_constrain opts = ''performance''
      in filter (\<lambda>t. t \<noteq> [])
           (map py_strip (filter (\<lambda>t. asked_for \<or> t \<notin> set (listed w cfg '' --test-type=performance'')) named)))"

definition wanted_suite_lines :: "world \<Rightarrow> waf_config \<Rightarrow> test_options \<Rightarrow> queued_line list" where
  "wanted_suite_lines w cfg opts =
     map (\<lambda>t. ((False, False, False), t,
         path_join ''utils'' (test_runner_name cfg @ '' --test-name='' @ t @
           (if opt_multiple opts then [] else '' --stop-on-failure'') @
           (if opt_fullness opts = [] then '' --fullness=QUICK'' else '' --fullness='' @ py_upper (opt_fullness opts))),
         opt_valgrind opts \<and> t \<in> set core_valgrind_skip_tests \<or> \<not> NSC_ENABLED cfg \<and> t \<in> set core_nsc_missing_skip_tests))
       (wanted_suites w cfg opts)"

definition wanted_example_lines ::
    "world \<Rightarrow> waf_config \<Rightarrow> test_options \<Rightarrow> (string, string) dict \<Rightarrow> (string \<times> string \<times> pyval \<times> pyval) list \<Rightarrow> queued_line list" where
  "wanted_example_lines w cfg opts programs tests =
     (if no_selection opts then
        (if opt_constrain opts \<in> {[], ''example''} \<and> ENABLE_EXAMPLES cfg
         then map (\<lambda>(name, test, run, valgrind_run). ((False, True, False), name, test, opt_valgrind opts \<and> \<not> holds w valgrind_run))
                (filter (\<lambda>(name, test, run, valgrind_run). dict_in (script_name test) programs \<and> holds w run) tests)
         else [])
      else if opt_example opts = [] then []
      else map (\<lambda>k. let p = abspath (w_cwd w) (the (dict_get programs k)) in ((False, True, False), p, p, False))
             (filter (glob_match (glob_parse (APPNAME cfg @ VERSION cfg @ ''-'' @ opt_example opts @ BUILD_PROFILE_SUFFIX cfg)))
               (dict_keys programs)))"

definition wanted_pyexample_lines ::
    "world \<Rightarrow> waf_config \<Rightarrow> test_options \<Rightarrow> pyval \<Rightarrow> (string \<times> pyval) list \<Rightarrow> queued_line list" where
  "wanted_pyexample_lines w cfg opts scripts tests =
     (if no_selection opts then
        (if opt_constrain opts \<in> {[], ''pyexample''} \<and> ENABLE_EXAMPLES cfg
         then map (\<lambda>(test, run). ((False, False, True), test, test, opt_valgrind opts \<or> ENABLE_PYTHON_BINDINGS cfg = Some False))
                (filter (\<lambda>(test, run). py_in (script_name test) scripts = Inr True \<and> holds w run) tests)
         else [])
      else if opt_pyexample opts \<noteq> [] \<and> py_in (basename (opt_pyexample opts)) scripts = Inr True
      then [((False, False, True), opt_pyexample opts, opt_pyexample opts, False)]
      else [])"

text \<open>The lists of the code are these.\<close>

lemma foldE_filter:
  assumes "foldE f s xs = Inr s'"
    and "\<And>s x s'. f s x = Inr s' \<Longrightarrow> map g s' = map g s @ (if P x then [h x] else [])"
  shows "map g s' = map g s @ map h (filter P xs)"
  using assms(1)
proof (induction xs arbitrary: s)
  case (Cons x xs)
  then obtain s1 where "f s x = Inr s1" "foldE f s1 xs = Inr s'" by (auto simp: bindE_Inr_conv)
  then show ?case using Cons.IH [of s1] assms(2) [of s x s1] by simp
qed simp

lemma eval_cond_holds: "eval_cond w v = Inr b \<Longrightarrow> b = holds w v"
  by (cases v) (auto simp: eval_cond_def holds_def bindE_Inr_conv)

lemma queue_line_sel [simp]:
  "queue_line (suite_job w cfg opts dir t) = ((False, False, False), t,
     path_join ''utils'' (test_runner_name cfg @ '' --test-name='' @ t @
       (if opt_multiple opts then [] else '' --stop-on-failure'') @
       (if opt_fullness opts = [] then '' --fullness=QUICK'' else '' --fullness='' @ py_upper (opt_fullness opts))),
     opt_valgrind opts \<and> t \<in> set core_valgrind_skip_tests \<or> \<not> NSC_ENABLED cfg \<and> t \<in> set core_nsc_missing_skip_tests)"
  "queue_line (example_job w opts dir nm t) = ((False, True, False), nm, t, False)"
  "queue_line (pyexample_job w dir t) = ((False, False, True), t, t, False)"
  "queue_line (skip_with r j) = (fst (queue_line j), fst (snd (queue_line j)), fst (snd (snd (queue_line j))), True)"
  "queue_line break_job = ((True, False, False), [], [], False)"
  by (simp_all add: queue_line_def suite_job_def example_job_def pyexample_job_def break_job_def skip_with_def job_setters new_job_def Let_def)

lemma example_lines:
  assumes "example_jobs w cfg opts dir programs tests = Inr ex"
  shows "map queue_line ex = wanted_example_lines w cfg opts programs tests"
proof -
  have one: "map queue_line s' = map queue_line s @
      (if (case x of (name, test, run, v) \<Rightarrow> dict_in (script_name test) programs \<and> holds w run)
       then [case x of (name, test, run, v) \<Rightarrow> ((False, True, False), name, test, opt_valgrind opts \<and> \<not> holds w v)] else [])"
    if "queue_example w opts dir programs s x = Inr s'" for s x s'
    using that
    by (cases x) (auto simp: queue_example_def bindE_Inr_conv Let_def simp flip: skip_with_def dest!: eval_cond_holds split: if_splits)
  consider "no_selection opts" | "\<not> no_selection opts" "opt_example opts = []" | "\<not> no_selection opts" "opt_example opts \<noteq> []" by blast
  then show ?thesis
  proof cases
    case 1
    then show ?thesis
      using assms foldE_filter [of "queue_example w opts dir programs" "[]" tests ex queue_line, OF _ one]
      by (auto simp: example_jobs_def wanted_example_lines_def split: if_splits)
  next
    case 3
    from example_jobs_explicit [OF this assms] 3 show ?thesis
      by (simp add: wanted_example_lines_def fnmatch_filter_def o_def Let_def)
  qed (use assms in \<open>simp_all add: example_jobs_def wanted_example_lines_def\<close>)
qed

lemma pyexample_lines:
  assumes "pyexample_jobs w cfg opts dir scripts tests = Inr py"
  shows "map queue_line py = wanted_pyexample_lines w cfg opts scripts tests"
proof -
  have one: "map queue_line s' = map queue_line s @
      (if (case x of (test, run) \<Rightarrow> py_in (script_name test) scripts = Inr True \<and> holds w run)
       then [case x of (test, run) \<Rightarrow> ((False, False, True), test, test, opt_valgrind opts \<or> ENABLE_PYTHON_BINDINGS cfg = Some False)] else [])"
    if "queue_pyexample w cfg opts dir scripts s x = Inr s'" for s x s'
    using that
    by (cases x) (auto simp: queue_pyexample_def bindE_Inr_conv Let_def bound_global_def simp flip: skip_with_def
        dest!: eval_cond_holds split: if_splits option.splits)
  show ?thesis
  proof (cases "no_selection opts")
    case True
    then show ?thesis
      using assms foldE_filter [of "queue_pyexample w cfg opts dir scripts" "[]" tests py queue_line, OF _ one]
      by (auto simp: pyexample_jobs_def wanted_pyexample_lines_def split: if_splits)
  next
    case False
    then show ?thesis using assms by (auto simp: pyexample_jobs_def wanted_pyexample_lines_def bindE_Inr_conv split: if_splits)
  qed
qed

lemma listed_output: "runner_output w cfg ('' --print-test-name-list'' @ ty) = Inr (rc, Some out) \<Longrightarrow> listed w cfg ty = py_split newline out"
  by (simp add: listed_def)

lemma decoded_Inr: "decoded out = Inr s \<longleftrightarrow> out = Some s"
  by (cases out) (simp_all add: decoded_def)

lemma select_wanted:
  assumes "select_suites w cfg opts = Inr (ts, single)"
    and every: "every = listed w cfg (if opt_suite opts = [] \<and> opt_constrain opts \<noteq> [] then '' --test-type='' @ opt_constrain opts else [])"
    and named: "named = (if opt_suite opts \<noteq> [] then filter (glob_match (glob_parse (opt_suite opts))) every else if no_selection opts then every else [])"
  shows "single = (opt_suite opts \<noteq> [] \<and> length named = 1) \<and> (if opt_suite opts = [] \<and> \<not> no_selection opts then ts = [[]] else ts = named)"
proof (cases "opt_suite opts = []")
  case False
  then obtain rc out where o: "runner_output w cfg '' --print-test-name-list'' = Inr (rc, Some out)"
    and f: "fnmatch_filter (py_split newline out) (opt_suite opts) \<noteq> []"
      "ts = py_split newline (py_join [newline] (fnmatch_filter (py_split newline out) (opt_suite opts)))"
      "single = (length (fnmatch_filter (py_split newline out) (opt_suite opts)) = 1)"
    using assms(1) by (auto simp: select_suites_def bindE_Inr_conv decoded_Inr Let_def split: if_splits)
  have e: "every = py_split newline out" using False o listed_output [of w cfg "[]"] by (simp add: every)
  have n: "fnmatch_filter (py_split newline out) (opt_suite opts) = named" using False by (simp add: named e fnmatch_filter_def)
  have "py_split newline (py_join [newline] named) = named"
  proof (rule py_split_join)
    show "named \<noteq> []" using f(1) n by simp
    fix x
    assume "x \<in> set named"
    then have "x \<in> set (py_split newline out)" using fnmatch_filter_subset n by blast
    then show "newline \<notin> set x" by (rule py_split_fields)
  qed
  then show ?thesis using False f by (simp add: n)
next
  case True
  show ?thesis
  proof (cases "no_selection opts")
    case none: True
    then obtain rc out where o: "ts = py_split newline out" "\<not> single"
        "runner_output w cfg ('' --print-test-name-list'' @ (if opt_constrain opts \<noteq> [] then '' --test-type='' @ opt_constrain opts else [])) = Inr (rc, Some out)"
      using assms(1) True by (auto simp: select_suites_def no_selection_def bindE_Inr_conv decoded_Inr split: if_splits)
    from listed_output [OF o(3)] show ?thesis using True none o by (simp add: named every split: if_splits)
  next
    case False
    with True assms(1) show ?thesis by (auto simp: select_suites_def no_selection_def named)
  qed
qed

lemma suite_lines:
  assumes "suite_list_of w cfg opts = Inr ts"
    and "\<And>ty. distinct (listed w cfg ty)"
  shows "map queue_line (suite_jobs w cfg opts dir ts) = wanted_suite_lines w cfg opts"
proof -
  let ?every = "listed w cfg (if opt_suite opts = [] \<and> opt_constrain opts \<noteq> [] then '' --test-type='' @ opt_constrain opts else [])"
  let ?named = "if opt_suite opts \<noteq> [] then filter (glob_match (glob_parse (opt_suite opts))) ?every else if no_selection opts then ?every else []"
  let ?perf = "listed w cfg '' --test-type=performance''"
  let ?asked = "opt_suite opts \<noteq> [] \<and> length ?named = 1 \<or> opt_constrain opts = ''performance''"
  obtain ss single where sel: "select_suites w cfg opts = Inr (ss, single)"
    and ts: "ts = ss \<and> ?asked \<or> ts = remove_suites ?perf ss \<and> \<not> ?asked"
  proof -
    from assms(1) obtain ss single where sel: "select_suites w cfg opts = Inr (ss, single)"
      and r: "(if \<not> single \<and> opt_constrain opts \<noteq> ''performance'' then
          bindE (runner_output w cfg ('' --print-test-name-list --test-type='' @ ''performance'')) (\<lambda>(rc, out).
          bindE (decoded out) (\<lambda>performance_tests. Inr (remove_suites (py_split newline performance_tests) ss))) else Inr ss) = Inr ts"
      by (auto simp: suite_list_of_def bindE_Inr_conv)
    have "single = (opt_suite opts \<noteq> [] \<and> length ?named = 1)" using select_wanted [OF sel refl refl] by (rule conjunct1)
    with r that [OF sel] show thesis
      using listed_output [of w cfg "'' --test-type=performance''"] by (auto simp: bindE_Inr_conv decoded_Inr split: if_splits)
  qed
  have ss: "if opt_suite opts = [] \<and> \<not> no_selection opts then ss = [[]] else ss = ?named"
    using select_wanted [OF sel refl refl] by (rule conjunct2)
  have dist: "distinct ss" using ss assms(2) by (auto split: if_splits)
  have ts': "ts = filter (\<lambda>t. ?asked \<or> t \<notin> set ?perf) ss" using ts remove_suites_filter [OF dist] by auto
  have names: "filter (\<lambda>t. t \<noteq> []) (map py_strip ts) = wanted_suites w cfg opts"
  proof (cases "opt_suite opts = [] \<and> \<not> no_selection opts")
    case True
    then have "ss = [[]]" using ss by simp
    then have "set ts \<subseteq> {[]}" unfolding ts' by auto
    then have "filter (\<lambda>t. t \<noteq> []) (map py_strip ts) = []"
      by (auto simp: filter_empty_conv py_strip_def py_rstrip_def py_lstrip_def)
    then show ?thesis using True by (simp add: wanted_suites_def Let_def)
  next
    case False
    then have "ss = ?named" using ss by (simp only: if_False)
    then show ?thesis unfolding ts' wanted_suites_def Let_def by simp
  qed
  show ?thesis unfolding suite_jobs_def wanted_suite_lines_def names by simp
qed

lemma processors_min:
  assumes "processor_count w opts = Inr m"
  shows "\<exists>p. m = (if opt_process_limit opts = 0 then p else min p (opt_process_limit opts)) \<and>
    (w_platform w = ''win32'' \<longrightarrow> p = 1) \<and> (\<forall>k. w_platform w \<noteq> ''win32'' \<and> w_sysconf w = Some k \<longrightarrow> p = k) \<and>
    (\<forall>out err. w_platform w \<noteq> ''win32'' \<and> w_sysconf w = None \<and> decoded (fst (w_sysctl w)) = Inr out \<and> decoded (snd (w_sysctl w)) = Inr err \<longrightarrow>
      (if err = [] then py_int 10 out = Some p else p = 1))"
proof -
  from assms obtain p where p:
    "(if w_platform w \<noteq> ''win32''
      then (case w_sysconf w of Some n \<Rightarrow> Inr n
            | None \<Rightarrow> bindE (decoded (fst (w_sysctl w))) (\<lambda>out. bindE (decoded (snd (w_sysctl w))) (\<lambda>err.
                if err = [] then (case py_int 10 out of Some n \<Rightarrow> Inr n | None \<Rightarrow> Inl ValueError) else Inr 1)))
      else Inr 1) = Inr p"
    "Inr (if opt_process_limit opts \<noteq> 0 then (if p < opt_process_limit opts then p else opt_process_limit opts) else p) = (Inr m :: int res)"
    unfolding processor_count_def bindE_Inr_conv by blast
  from p(2) have "m = (if opt_process_limit opts = 0 then p else min p (opt_process_limit opts))" by (auto split: if_splits)
  with p(1) show ?thesis by (intro exI [of _ p]) (auto split: option.splits if_splits)
qed

section \<open>Properties\<close>


text \<open>
  performance suites only run when they are asked for. Unless a single suite was requested or
  the constraint is \<open>performance\<close>, the suites run are those the test runner printed, in their
  order, without the ones it prints as performance tests.
\<close>

theorem suites_without_performance:
  assumes "select_suites w cfg opts = Inr (suites, single)" and "distinct suites"
    and "runner_output w cfg '' --print-test-name-list --test-type=performance'' = Inr (rc, Some perf)"
  shows "suite_list_of w cfg opts =
     Inr (if single \<or> opt_constrain opts = ''performance'' then suites
          else filter (\<lambda>t. t \<notin> set (py_split newline perf)) suites)"
  using assms by (auto simp: suite_list_of_def decoded_def remove_suites_filter)

text \<open>
  a suite is skipped exactly when it is known to crash under valgrind and valgrind was asked
  for, or when it needs the missing NSC; the second reason replaces the first. The command line
  names the suite, stops at the first failure unless \<open>--multiple\<close> was given, and passes the
  fullness in upper case.
\<close>

theorem suite_jobs_skips:
  "list_all (\<lambda>j. is_skip j = ((opt_valgrind opts \<and> display_name j \<in> set core_valgrind_skip_tests) \<or>
                            (\<not> NSC_ENABLED cfg \<and> display_name j \<in> set core_nsc_missing_skip_tests)) \<and>
               skip_reason j = (if \<not> NSC_ENABLED cfg \<and> display_name j \<in> set core_nsc_missing_skip_tests
                                then ''requires NSC''
                                else if opt_valgrind opts \<and> display_name j \<in> set core_valgrind_skip_tests
                                then ''crashes valgrind'' else []) \<and>
               shell_command j = path_join ''utils'' (test_runner_name cfg @ '' --test-name='' @ display_name j @
                 (if opt_multiple opts then [] else '' --stop-on-failure'') @
                 (if opt_fullness opts = [] then '' --fullness=QUICK''
                  else '' --fullness='' @ py_upper (opt_fullness opts))))
     (suite_jobs w cfg opts dir suites) \<and>
   map display_name (suite_jobs w cfg opts dir suites) = filter (\<lambda>t. t \<noteq> []) (map py_strip suites)"
proof -
  have "shell_command (suite_job w cfg opts dir t) =
      path_join ''utils'' (test_runner_name cfg @ '' --test-name='' @ t @
        (if opt_multiple opts then [] else '' --stop-on-failure'') @
        (if opt_fullness opts = [] then '' --fullness=QUICK''
         else '' --fullness='' @ py_upper (opt_fullness opts)))" for t
    by (simp add: suite_job_def job_setters Let_def)
  then show ?thesis
    by (simp add: suite_jobs_def list_all_iff o_def)
qed

text \<open>
  an example that is requested by name is run whatever its conditions say: one job, never
  skipped, for every runnable program whose file name matches the pattern built from it, and the
  condition strings are not evaluated.
\<close>

theorem explicit_examples:
  assumes "opt_example opts \<noteq> []"
    and "example_jobs w cfg opts dir programs tests = Inr ex"
  shows "map display_name ex =
       map (\<lambda>k. abspath (w_cwd w) (the (dict_get programs k)))
         (fnmatch_filter (dict_keys programs)
            (APPNAME cfg @ VERSION cfg @ ''-'' @ opt_example opts @ BUILD_PROFILE_SUFFIX cfg)) \<and>
     list_all (\<lambda>j. is_example j \<and> \<not> is_skip j \<and> shell_command j = display_name j) ex \<and>
     example_jobs (w\<lparr>w_eval := ev\<rparr>) cfg opts dir programs tests' = Inr ex"
proof -
  have ns: "\<not> no_selection opts" using assms(1) by (simp add: no_selection_def)
  have "example_job (w\<lparr>w_eval := ev\<rparr>) opts dir = example_job w opts dir"
    by (simp add: fun_eq_iff example_job_def)
  then have "example_jobs (w\<lparr>w_eval := ev\<rparr>) cfg opts dir programs tests' = Inr ex"
    using assms ns by (simp add: example_jobs_def cong: option.case_cong)
  with example_jobs_explicit [OF ns assms] show ?thesis
    by (auto simp: list_all_iff Let_def)
qed

section \<open>Witnesses\<close>

definition demo_world :: world where
  "demo_world =
     \<lparr> w_proc = (\<lambda>cmd dir. \<lparr>pr_code = 0,
                  pr_out = Some (if suffix ''performance'' cmd then ''perf'' @ [newline]
                                 else ''tcp'' @ [newline] @ ''perf'' @ [newline]),
                  pr_err = Some [], pr_time = 0\<rparr>),
       w_fs = (\<lambda>p. None), w_eval = (\<lambda>s. Inr (PyBool True)), w_cwd = ''/w'', w_platform = ''linux'',
       w_waf = (\<lambda>c. 0), w_sysconf = Some 2, w_sysctl = (None, None) \<rparr>"

definition demo_programs :: "(string, string) dict" where
  "demo_programs = [(''ns-foo'', ''e/ns-foo'')]"

theorem suites_without_performance_witness:
  "suite_list_of demo_world demo_config default_options = Inr [''tcp'']"
proof -
  have sel: "select_suites demo_world demo_config default_options = Inr ([''tcp'', ''perf'', []], False)"
    by code_simp
  have perf: "runner_output demo_world demo_config '' --print-test-name-list --test-type=performance'' =
      Inr (0, Some (''perf'' @ [newline]))"
    by code_simp
  have "py_split newline (''perf'' @ [newline]) = [''perf'', []]" by code_simp
  with suites_without_performance [OF sel _ perf] show ?thesis
    by (simp add: default_options_def)
qed

definition bound_config :: waf_config where
  "bound_config = demo_config\<lparr>ENABLE_PYTHON_BINDINGS := Some True\<rparr>"

definition demo_examples :: example_lists where
  "demo_examples =
     \<lparr>example_tests = [(''foo'', ''e/ns-foo --fast'', PyStr ''True'', PyStr ''False''), (''bar'', ''e/ns-bar'', PyStr ''True'', PyStr ''True'')],
      example_names_original = [], python_tests = [(''e/a.py'', PyStr ''True''), (''e/b.py'', PyStr ''True'')]\<rparr>"


theorem explicit_examples_witness:
  "\<exists>ex. example_jobs demo_world demo_config (default_options\<lparr>opt_example := ''foo''\<rparr>) ''/o'' demo_programs [] =
      Inr ex \<and> map display_name ex = [''/w/e/ns-foo''] \<and> list_all (\<lambda>j. is_example j \<and> \<not> is_skip j) ex"
proof -
  let ?opts = "default_options\<lparr>opt_example := ''foo''\<rparr>"
  have keys: "fnmatch_filter (dict_keys demo_programs) ''ns-foo'' = [''ns-foo'']" by code_simp
  have path: "abspath (w_cwd demo_world) ''e/ns-foo'' = ''/w/e/ns-foo''" by code_simp
  let ?ex = "[example_job demo_world ?opts ''/o'' ''/w/e/ns-foo'' ''/w/e/ns-foo'']"
  have ex: "example_jobs demo_world demo_config ?opts ''/o'' demo_programs [] = Inr ?ex"
    using keys path
    by (simp add: example_jobs_def no_selection_def demo_config_def initial_config_def dict_get_def demo_programs_def)
  have "opt_example ?opts \<noteq> []" by simp
  from explicit_examples [OF this ex] ex show ?thesis by (auto simp: list_all_iff)
qed

end
