(* ===== verification/Worker_Pool.thy ===== *)
theory Worker_Pool
  imports Test_Jobs
begin

text \<open>
  The worker threads of \<^verbatim>\<open>test.py\<close>: the two unbounded queues, the loop of
  \<open>worker_thread.run\<close>, the interrupt flag set by \<open>sigint_hook\<close>, and the main thread that puts
  the jobs, then collects one answer per job and joins the threads. The threads interleave in any
  order: one step of one of them is one transition of an inductive relation. The lemmas are the
  invariant that no job is lost or duplicated, that the break jobs are read last, that every run
  is finite, and that a state without a successor has collected every job.
\<close>

section \<open>The queue\<close>

text \<open>\<open>queue.Queue(0)\<close>: \<open>put\<close> never blocks, \<open>get\<close> waits while the queue is empty.\<close>

definition queue_put :: "'a list \<Rightarrow> 'a \<Rightarrow> 'a list" where
  "queue_put q x = q @ [x]"

fun queue_get :: "'a list \<Rightarrow> ('a \<times> 'a list) option" where
  "queue_get [] = None"
| "queue_get (x # q) = Some (x, q)"

locale fifo =
  fixes put :: "'q \<Rightarrow> 'a \<Rightarrow> 'q" and get :: "'q \<Rightarrow> ('a \<times> 'q) option"
    and items :: "'q \<Rightarrow> 'a list" and empty_queue :: 'q
  assumes items_put: "items (put q x) = items q @ [x]"
    and get_None: "get q = None \<longleftrightarrow> items q = []"
    and get_Some: "get q = Some (x, q') \<Longrightarrow> items q = x # items q'"
    and items_empty: "items empty_queue = []"
begin

lemma put_all: "items (foldl put q xs) = items q @ xs"
  by (induction xs arbitrary: q) (simp_all add: items_put)

lemma mset_put: "mset (items (put q x)) = add_mset x (mset (items q))"
  by (simp add: items_put)

lemma mset_get: "get q = Some (x, q') \<Longrightarrow> mset (items q) = add_mset x (mset (items q'))"
  by (simp add: get_Some)

lemma get_first: "items q = x # xs \<Longrightarrow> \<exists>q'. get q = Some (x, q') \<and> items q' = xs"
  using get_None [of q] get_Some [of q] by (cases "get q") force+

end

interpretation queue: fifo queue_put queue_get "\<lambda>q. q" "[]"
proof
  show "queue_get q = None \<longleftrightarrow> q = []" for q :: "'a list" by (cases q) simp_all
  show "queue_get q = Some (x, q') \<Longrightarrow> q = x # q'" for q q' :: "'a list" and x by (cases q) simp_all
qed (simp_all add: queue_put_def)

section \<open>One job in a worker\<close>

text \<open>
  The part of \<open>run\<close> between taking a job that is neither a break nor skipped and putting it on
  the output queue. An exception ends the thread with the job lost.
\<close>

definition suite_command :: "test_options \<Rightarrow> job \<Rightarrow> string" where
  "suite_command opts j =
     shell_command j @ '' --xml --tempdir='' @ tempdir j @ '' --out='' @ tmp_file_name j @ '' '' @
       (if opt_update_data opts then ''--update-data'' else [])"

definition run_work :: "waf_config \<Rightarrow> proc_oracle \<Rightarrow> test_options \<Rightarrow> job \<Rightarrow> job res" where
  "run_work cfg proc opts j =
     bindE (if is_example j \<or> is_pyexample j
            then run_job_synchronously cfg proc (shell_command j) (cwd j) (opt_valgrind opts)
                   (is_pyexample j) (build_path j)
            else run_job_synchronously cfg proc (suite_command opts j) (cwd j) (opt_valgrind opts) False [])
       (\<lambda>(rc, out, err, et). Inr (set_elapsed_time et (set_returncode rc j)))"

section \<open>The threads\<close>

datatype worker = Waiting | Got job | Running job | Stopped | Died py_error job

record pool =
  todo :: "job list"
  inq :: "job list"
  outq :: "job list"
  workers :: "worker list"
  thread_exit :: bool
  remaining :: nat
  collected :: "job list"

text \<open>
  The main thread starts the workers, puts every job and then one break job per worker, and only
  then begins to collect. A second interrupt changes nothing, so the interrupt is one transition.
\<close>

definition init_pool :: "job list \<Rightarrow> nat \<Rightarrow> pool" where
  "init_pool jobs n =
     \<lparr> todo = input_queue_of (jobs, n), inq = [], outq = [], workers = replicate n Waiting,
       thread_exit = False, remaining = length jobs, collected = [] \<rparr>"

inductive pool_step :: "(job \<Rightarrow> job res) \<Rightarrow> pool \<Rightarrow> pool \<Rightarrow> bool" for work where
  main_put: "todo s = j # js \<Longrightarrow> pool_step work s (s\<lparr>todo := js, inq := queue_put (inq s) j\<rparr>)"
| worker_get: "i < length (workers s) \<Longrightarrow> workers s ! i = Waiting \<Longrightarrow> queue_get (inq s) = Some (j, q) \<Longrightarrow>
    pool_step work s (s\<lparr>inq := q, workers := (workers s)[i := Got j]\<rparr>)"
| worker_break: "i < length (workers s) \<Longrightarrow> workers s ! i = Got j \<Longrightarrow> is_break j \<Longrightarrow>
    pool_step work s (s\<lparr>workers := (workers s)[i := Stopped]\<rparr>)"
| worker_exit: "i < length (workers s) \<Longrightarrow> workers s ! i = Got j \<Longrightarrow> \<not> is_break j \<Longrightarrow> thread_exit s \<Longrightarrow>
    pool_step work s (s\<lparr>workers := (workers s)[i := Waiting],
                        outq := queue_put (outq s) (set_is_break True j)\<rparr>)"
| worker_skip: "i < length (workers s) \<Longrightarrow> workers s ! i = Got j \<Longrightarrow> \<not> is_break j \<Longrightarrow> \<not> thread_exit s \<Longrightarrow>
    is_skip j \<Longrightarrow> pool_step work s (s\<lparr>workers := (workers s)[i := Waiting], outq := queue_put (outq s) j\<rparr>)"
| worker_launch: "i < length (workers s) \<Longrightarrow> workers s ! i = Got j \<Longrightarrow> \<not> is_break j \<Longrightarrow> \<not> thread_exit s \<Longrightarrow>
    \<not> is_skip j \<Longrightarrow> pool_step work s (s\<lparr>workers := (workers s)[i := Running j]\<rparr>)"
| worker_finish: "i < length (workers s) \<Longrightarrow> workers s ! i = Running j \<Longrightarrow> work j = Inr j' \<Longrightarrow>
    pool_step work s (s\<lparr>workers := (workers s)[i := Waiting], outq := queue_put (outq s) j'\<rparr>)"
| worker_die: "i < length (workers s) \<Longrightarrow> workers s ! i = Running j \<Longrightarrow> work j = Inl e \<Longrightarrow>
    pool_step work s (s\<lparr>workers := (workers s)[i := Died e j]\<rparr>)"
| sigint: "\<not> thread_exit s \<Longrightarrow> pool_step work s (s\<lparr>thread_exit := True\<rparr>)"
| main_get: "todo s = [] \<Longrightarrow> remaining s > 0 \<Longrightarrow> queue_get (outq s) = Some (j, q) \<Longrightarrow>
    pool_step work s (s\<lparr>outq := q, remaining := remaining s - 1, collected := collected s @ [j]\<rparr>)"

inductive_cases pool_stepE [consumes 1, case_names main_put worker_get worker_break worker_exit
  worker_skip worker_launch worker_finish worker_die sigint main_get]:
  "pool_step work s s'"

definition pool_reach :: "(job \<Rightarrow> job res) \<Rightarrow> pool \<Rightarrow> pool \<Rightarrow> bool" where
  "pool_reach work = (pool_step work)\<^sup>*\<^sup>*"

text \<open>The main thread is past its collecting loop and every \<open>join\<close> returns.\<close>

definition pool_done :: "pool \<Rightarrow> bool" where
  "pool_done s = (todo s = [] \<and> remaining s = 0 \<and> list_all (\<lambda>w. w = Stopped \<or> (\<exists>e j. w = Died e j)) (workers s))"

section \<open>A scheduler\<close>

text \<open>The same transitions as a function of the thread that moves, to evaluate schedules.\<close>

datatype action = MainPut | MainGet | Interrupt | WorkerMove nat

definition worker_move :: "(job \<Rightarrow> job res) \<Rightarrow> pool \<Rightarrow> nat \<Rightarrow> pool option" where
  "worker_move work s i =
     (if i < length (workers s) then
        (case workers s ! i of
           Waiting \<Rightarrow> (case queue_get (inq s) of
               None \<Rightarrow> None
             | Some (j, q) \<Rightarrow> Some (s\<lparr>inq := q, workers := (workers s)[i := Got j]\<rparr>))
         | Got j \<Rightarrow> Some
             (if is_break j then s\<lparr>workers := (workers s)[i := Stopped]\<rparr>
              else if thread_exit s then
                s\<lparr>workers := (workers s)[i := Waiting], outq := queue_put (outq s) (set_is_break True j)\<rparr>
              else if is_skip j then
                s\<lparr>workers := (workers s)[i := Waiting], outq := queue_put (outq s) j\<rparr>
              else s\<lparr>workers := (workers s)[i := Running j]\<rparr>)
         | Running j \<Rightarrow> Some
             (case work j of
                Inr j' \<Rightarrow> s\<lparr>workers := (workers s)[i := Waiting], outq := queue_put (outq s) j'\<rparr>
              | Inl e \<Rightarrow> s\<lparr>workers := (workers s)[i := Died e j]\<rparr>)
         | Stopped \<Rightarrow> None
         | Died e j \<Rightarrow> None)
      else None)"

definition do_action :: "(job \<Rightarrow> job res) \<Rightarrow> pool \<Rightarrow> action \<Rightarrow> pool option" where
  "do_action work s a =
     (case a of
        MainPut \<Rightarrow> (case todo s of [] \<Rightarrow> None | j # js \<Rightarrow> Some (s\<lparr>todo := js, inq := queue_put (inq s) j\<rparr>))
      | MainGet \<Rightarrow> (if todo s = [] \<and> remaining s > 0 then
            (case queue_get (outq s) of
               None \<Rightarrow> None
             | Some (j, q) \<Rightarrow>
                 Some (s\<lparr>outq := q, remaining := remaining s - 1, collected := collected s @ [j]\<rparr>))
          else None)
      | Interrupt \<Rightarrow> (if thread_exit s then None else Some (s\<lparr>thread_exit := True\<rparr>))
      | WorkerMove i \<Rightarrow> worker_move work s i)"

fun run_schedule :: "(job \<Rightarrow> job res) \<Rightarrow> pool \<Rightarrow> action list \<Rightarrow> pool option" where
  "run_schedule work s [] = Some s"
| "run_schedule work s (a # as) =
     (case do_action work s a of None \<Rightarrow> None | Some s' \<Rightarrow> run_schedule work s' as)"

text \<open>No thread can move; an interrupt may still arrive.\<close>

definition pool_blocked :: "(job \<Rightarrow> job res) \<Rightarrow> pool \<Rightarrow> bool" where
  "pool_blocked work s =
     (do_action work s MainPut = None \<and> do_action work s MainGet = None \<and>
      list_all (\<lambda>i. worker_move work s i = None) [0..<length (workers s)])"

lemma do_action_step: "do_action work s a = Some s' \<Longrightarrow> pool_step work s s'"
  by (cases a)
    (auto simp: do_action_def worker_move_def intro: pool_step.intros pool_step.main_get [unfolded One_nat_def]
      split: list.splits if_splits option.splits worker.splits sum.splits)

lemma step_do_action: "pool_step work s s' \<Longrightarrow> \<exists>a. do_action work s a = Some s'"
proof (induction rule: pool_step.induct)
  case (main_put s j js)
  then show ?case by (intro exI [of _ MainPut]) (simp add: do_action_def)
next
  case (sigint s)
  then show ?case by (intro exI [of _ Interrupt]) (simp add: do_action_def)
next
  case (main_get s j q)
  then show ?case by (intro exI [of _ MainGet]) (simp add: do_action_def)
next
  case (worker_get i s j q)
  then show ?case by (intro exI [of _ "WorkerMove i"]) (simp add: do_action_def worker_move_def)
next
  case (worker_break i s j)
  then show ?case by (intro exI [of _ "WorkerMove i"]) (simp add: do_action_def worker_move_def)
next
  case (worker_exit i s j)
  then show ?case by (intro exI [of _ "WorkerMove i"]) (simp add: do_action_def worker_move_def)
next
  case (worker_skip i s j)
  then show ?case by (intro exI [of _ "WorkerMove i"]) (simp add: do_action_def worker_move_def)
next
  case (worker_launch i s j)
  then show ?case by (intro exI [of _ "WorkerMove i"]) (simp add: do_action_def worker_move_def)
next
  case (worker_finish i s j j')
  then show ?case by (intro exI [of _ "WorkerMove i"]) (simp add: do_action_def worker_move_def)
next
  case (worker_die i s j e)
  then show ?case by (intro exI [of _ "WorkerMove i"]) (simp add: do_action_def worker_move_def)
qed

lemma blocked_no_action: "pool_blocked work s \<longleftrightarrow> (\<forall>a. a \<noteq> Interrupt \<longrightarrow> do_action work s a = None)"
proof
  assume b: "pool_blocked work s"
  show "\<forall>a. a \<noteq> Interrupt \<longrightarrow> do_action work s a = None"
  proof (intro allI impI)
    fix a
    assume "a \<noteq> Interrupt"
    with b show "do_action work s a = None"
      by (cases a) (auto simp: pool_blocked_def list_all_iff do_action_def worker_move_def)
  qed
next
  assume "\<forall>a. a \<noteq> Interrupt \<longrightarrow> do_action work s a = None"
  then have "do_action work s MainPut = None" "do_action work s MainGet = None"
    "\<And>i. do_action work s (WorkerMove i) = None" by simp_all
  then show "pool_blocked work s" by (simp add: pool_blocked_def list_all_iff do_action_def)
qed

lemma blocked_only_interrupt:
  "pool_blocked work s \<longleftrightarrow> (\<forall>s'. pool_step work s s' \<longrightarrow> do_action work s Interrupt = Some s')"
  unfolding blocked_no_action
proof
  assume b: "\<forall>a. a \<noteq> Interrupt \<longrightarrow> do_action work s a = None"
  show "\<forall>s'. pool_step work s s' \<longrightarrow> do_action work s Interrupt = Some s'"
    using b step_do_action [of work s] by (metis option.distinct(1))
next
  assume only: "\<forall>s'. pool_step work s s' \<longrightarrow> do_action work s Interrupt = Some s'"
  show "\<forall>a. a \<noteq> Interrupt \<longrightarrow> do_action work s a = None"
  proof (intro allI impI, rule ccontr)
    fix a
    assume a: "a \<noteq> Interrupt" and "do_action work s a \<noteq> None"
    then obtain s' where s': "do_action work s a = Some s'" by auto
    with only do_action_step have "do_action work s Interrupt = Some s'" by blast
    then have s'_eq: "s' = s\<lparr>thread_exit := True\<rparr>" and "\<not> thread_exit s"
      by (simp_all add: do_action_def split: if_splits)
    then have "thread_exit s' \<noteq> thread_exit s" by simp
    moreover have "thread_exit s' = thread_exit s"
      using s' a by (cases a) (auto simp: do_action_def worker_move_def
          split: list.splits if_splits option.splits worker.splits sum.splits)
    ultimately show False by simp
  qed
qed

lemma run_schedule_reach: "run_schedule work s as = Some s' \<Longrightarrow> pool_reach work s s'"
proof (induction as arbitrary: s)
  case (Cons a as)
  then obtain t where "do_action work s a = Some t" "run_schedule work t as = Some s'"
    by (auto split: option.splits)
  with Cons.IH [of t] show ?case
    using do_action_step [of work s a t] by (auto simp: pool_reach_def intro: converse_rtranclp_into_rtranclp)
qed (simp add: pool_reach_def)

lemma run_schedule_steps: "run_schedule work s as = Some s' \<Longrightarrow> (pool_step work ^^ length as) s s'"
proof (induction as arbitrary: s)
  case (Cons a as)
  then obtain t where t: "do_action work s a = Some t" "run_schedule work t as = Some s'"
    by (auto split: option.splits)
  from relpowp_Suc_I2 [OF do_action_step [OF t(1)] Cons.IH [OF t(2)]] show ?case by simp
qed simp

section \<open>The invariant\<close>

fun held :: "worker \<Rightarrow> job list" where
  "held Waiting = []"
| "held (Got j) = [j]"
| "held (Running j) = [j]"
| "held Stopped = []"
| "held (Died e j) = [j]"

fun stopping :: "worker \<Rightarrow> bool" where
  "stopping (Got j) = is_break j"
| "stopping Stopped = True"
| "stopping _ = False"

definition in_flight :: "worker list \<Rightarrow> job list" where
  "in_flight ws = filter (\<lambda>j. \<not> is_break j) (concat (map held ws))"

text \<open>What identifies a job while its status fields change.\<close>

definition job_key :: "job \<Rightarrow> job" where
  "job_key j = j\<lparr>is_break := False, returncode := 0, elapsed_time := 0\<rparr>"

definition job_result :: "(job \<Rightarrow> job res) \<Rightarrow> job \<Rightarrow> job" where
  "job_result work j = (if is_skip j then j else case work j of Inr j' \<Rightarrow> j' | Inl e \<Rightarrow> j)"

definition answer_of :: "(job \<Rightarrow> job res) \<Rightarrow> job list \<Rightarrow> job \<Rightarrow> bool" where
  "answer_of work jobs j = (\<exists>j0 \<in> set jobs. j = job_result work j0 \<or> j = set_is_break True j0)"

definition queue_inv :: "job list \<Rightarrow> nat \<Rightarrow> nat \<Rightarrow> pool \<Rightarrow> bool" where
  \<comment> \<open>\<open>k\<close> elements of the input sequence have been taken\<close>
  "queue_inv jobs n k s =
     (inq s @ todo s = drop k (input_queue_of (jobs, n)) \<and> k \<le> length jobs + n \<and>
      length (workers s) = n \<and> length (filter stopping (workers s)) = k - length jobs \<and>
      remaining s + length (collected s) = length jobs)"

definition job_inv :: "(job \<Rightarrow> job res) \<Rightarrow> job list \<Rightarrow> nat \<Rightarrow> pool \<Rightarrow> bool" where
  "job_inv work jobs k s =
     (image_mset job_key (mset (in_flight (workers s) @ outq s @ collected s)) =
        image_mset job_key (mset (take k jobs)) \<and>
      (\<not> thread_exit s \<longrightarrow>
        image_mset (job_result work) (mset (in_flight (workers s))) + mset (outq s @ collected s) =
          image_mset (job_result work) (mset (take k jobs))) \<and>
      set (in_flight (workers s)) \<subseteq> set jobs \<and>
      (\<forall>j. Running j \<in> set (workers s) \<longrightarrow> \<not> is_break j \<and> \<not> is_skip j) \<and>
      (\<forall>e j. Died e j \<in> set (workers s) \<longrightarrow> \<not> is_break j \<and> \<not> is_skip j \<and> work j = Inl e) \<and>
      list_all (answer_of work jobs) (outq s @ collected s))"

lemma split_at:
  assumes "i < length ws" and "ws ! i = w"
  obtains A B where "ws = A @ w # B" and "\<And>v. (A @ w # B)[i := v] = A @ v # B"
proof -
  define A where "A = take i ws"
  define B where "B = drop (Suc i) ws"
  have "ws = A @ w # B" unfolding A_def B_def using assms id_take_nth_drop by blast
  moreover have "length A = i" using assms(1) by (simp add: A_def)
  ultimately show ?thesis by (intro that) auto
qed

lemma in_flight_split [simp]:
  "in_flight (A @ B) = in_flight A @ in_flight B"
  "in_flight (w # B) = filter (\<lambda>j. \<not> is_break j) (held w) @ in_flight B"
  "in_flight [] = []"
  by (simp_all add: in_flight_def)

lemma job_key_break [simp]: "job_key (set_is_break b j) = job_key j"
  by (simp add: job_key_def set_is_break_def)

lemma input_queue_next:
  assumes "drop k (input_queue_of (jobs, n)) = j # js" and "\<forall>j \<in> set jobs. \<not> is_break j"
  shows "drop (Suc k) (input_queue_of (jobs, n)) = js \<and> k < length jobs + n \<and>
     (k < length jobs \<and> \<not> is_break j \<and> j \<in> set jobs \<and> take (Suc k) jobs = take k jobs @ [j] \<or>
      length jobs \<le> k \<and> is_break j \<and> take (Suc k) jobs = take k jobs)"
proof -
  let ?q = "input_queue_of (jobs, n)"
  have len: "length ?q = length jobs + n" by (simp add: input_queue_of_def)
  have k: "k < length ?q" using assms(1) by (metis drop_all list.distinct(1) not_le_imp_less)
  have j: "j = ?q ! k" and js: "js = drop (Suc k) ?q"
    using assms(1) Cons_nth_drop_Suc [OF k] by simp_all
  show ?thesis
  proof (cases "k < length jobs")
    case True
    then have "j = jobs ! k" using j by (simp add: input_queue_of_def nth_append)
    with True js assms(2) k len show ?thesis by (simp add: take_Suc_conv_app_nth)
  next
    case False
    then have "j = break_job" using j k len by (simp add: input_queue_of_def nth_append)
    with False js k len show ?thesis by simp
  qed
qed

lemma queue_inv_init: "queue_inv jobs n 0 (init_pool jobs n)"
  by (simp add: queue_inv_def init_pool_def filter_replicate)

lemma job_inv_init: "job_inv work jobs 0 (init_pool jobs n)"
  by (induction n) (simp_all add: job_inv_def init_pool_def)

section \<open>Jobs run by any work function that keeps their identity\<close>

locale job_runner =
  fixes work :: "job \<Rightarrow> job res"
  assumes work_key: "work j = Inr j' \<Longrightarrow> job_key j' = job_key j"
    and work_break: "work j = Inr j' \<Longrightarrow> is_break j' = is_break j"
begin

lemma result_key [simp]: "job_key (job_result work j) = job_key j"
  by (auto simp: job_result_def work_key split: sum.splits)

lemma answer_ofI:
  "j \<in> set jobs \<Longrightarrow> job_result work j = j' \<Longrightarrow> answer_of work jobs j'"
  "j \<in> set jobs \<Longrightarrow> answer_of work jobs (set_is_break True j)"
  by (auto simp: answer_of_def)

lemma inv_step:
  assumes "pool_step work s s'" and q: "queue_inv jobs n k s" and v: "job_inv work jobs k s"
    and nb: "\<forall>j \<in> set jobs. \<not> is_break j"
  shows "\<exists>k'. queue_inv jobs n k' s' \<and> job_inv work jobs k' s'"
  using assms(1)
proof (cases rule: pool_stepE)
  case (main_put j js)
  with q v have "queue_inv jobs n k s' \<and> job_inv work jobs k s'"
    by (simp add: queue_inv_def job_inv_def queue_put_def)
  then show ?thesis by blast
next
  case (worker_get i j qq)
  from worker_get(2,3) obtain A B where ws: "workers s = A @ Waiting # B"
    and upd: "\<And>v. (A @ Waiting # B)[i := v] = A @ v # B" by (rule split_at) blast
  have inq: "inq s = j # qq" using worker_get(4) by (rule queue.get_Some)
  with q have "drop k (input_queue_of (jobs, n)) = j # (qq @ todo s)"
    by (simp add: queue_inv_def)
  note nxt = input_queue_next [OF this nb]
  have "queue_inv jobs n (Suc k) s'"
    using q nxt unfolding worker_get(1) queue_inv_def upd ws by (auto simp: Suc_diff_le)
  moreover have "job_inv work jobs (Suc k) s'"
    using v nxt unfolding worker_get(1) job_inv_def upd ws by auto
  ultimately show ?thesis by blast
next
  case (worker_break i j)
  from worker_break(2,3) obtain A B where ws: "workers s = A @ Got j # B"
    and upd: "\<And>v. (A @ Got j # B)[i := v] = A @ v # B" by (rule split_at) blast
  have "queue_inv jobs n k s'"
    using q worker_break(4) unfolding worker_break(1) queue_inv_def upd ws by simp
  moreover have "job_inv work jobs k s'"
    using v worker_break(4) unfolding worker_break(1) job_inv_def upd ws by auto
  ultimately show ?thesis by blast
next
  case (worker_exit i j)
  from worker_exit(2,3) obtain A B where ws: "workers s = A @ Got j # B"
    and upd: "\<And>v. (A @ Got j # B)[i := v] = A @ v # B" by (rule split_at) blast
  have "queue_inv jobs n k s'"
    using q worker_exit(4) unfolding worker_exit(1) queue_inv_def upd ws by simp
  moreover have "job_inv work jobs k s'"
    using v worker_exit(4,5) unfolding worker_exit(1) job_inv_def upd ws
    by (auto simp: queue_put_def intro: answer_ofI)
  ultimately show ?thesis by blast
next
  case (worker_skip i j)
  from worker_skip(2,3) obtain A B where ws: "workers s = A @ Got j # B"
    and upd: "\<And>v. (A @ Got j # B)[i := v] = A @ v # B" by (rule split_at) blast
  have res: "job_result work j = j" using worker_skip(6) by (simp add: job_result_def)
  have "queue_inv jobs n k s'"
    using q worker_skip(4) unfolding worker_skip(1) queue_inv_def upd ws by simp
  moreover have "job_inv work jobs k s'"
    using v worker_skip(4,5) res unfolding worker_skip(1) job_inv_def upd ws
    by (auto simp: queue_put_def intro: answer_ofI)
  ultimately show ?thesis by blast
next
  case (worker_launch i j)
  from worker_launch(2,3) obtain A B where ws: "workers s = A @ Got j # B"
    and upd: "\<And>v. (A @ Got j # B)[i := v] = A @ v # B" by (rule split_at) blast
  have "queue_inv jobs n k s'"
    using q worker_launch(4) unfolding worker_launch(1) queue_inv_def upd ws by simp
  moreover have "job_inv work jobs k s'"
    using v worker_launch(4-6) unfolding worker_launch(1) job_inv_def upd ws by auto
  ultimately show ?thesis by blast
next
  case (worker_finish i j j')
  from worker_finish(2,3) obtain A B where ws: "workers s = A @ Running j # B"
    and upd: "\<And>v. (A @ Running j # B)[i := v] = A @ v # B" by (rule split_at) blast
  have j: "\<not> is_break j" "\<not> is_skip j" using v unfolding job_inv_def ws by auto
  then have res: "job_result work j = j'" using worker_finish(4) by (simp add: job_result_def)
  have "queue_inv jobs n k s'"
    using q unfolding worker_finish(1) queue_inv_def upd ws by simp
  moreover have "job_inv work jobs k s'"
    using v j res work_key [OF worker_finish(4)] unfolding worker_finish(1) job_inv_def upd ws
    by (auto simp: queue_put_def intro: answer_ofI)
  ultimately show ?thesis by blast
next
  case (worker_die i j e)
  from worker_die(2,3) obtain A B where ws: "workers s = A @ Running j # B"
    and upd: "\<And>v. (A @ Running j # B)[i := v] = A @ v # B" by (rule split_at) blast
  have j: "\<not> is_break j" "\<not> is_skip j" using v unfolding job_inv_def ws by auto
  have "queue_inv jobs n k s'"
    using q unfolding worker_die(1) queue_inv_def upd ws by simp
  moreover have "job_inv work jobs k s'"
    using v j worker_die(4) unfolding worker_die(1) job_inv_def upd ws by auto
  ultimately show ?thesis by blast
next
  case sigint
  with q v have "queue_inv jobs n k s' \<and> job_inv work jobs k s'"
    by (simp add: queue_inv_def job_inv_def)
  then show ?thesis by blast
next
  case (main_get j qq)
  have "outq s = j # qq" using main_get(4) by (rule queue.get_Some)
  with main_get q v have "queue_inv jobs n k s' \<and> job_inv work jobs k s'"
    by (auto simp: queue_inv_def job_inv_def)
  then show ?thesis by blast
qed

lemma inv_reach:
  assumes "pool_reach work (init_pool jobs n) s" and "\<forall>j \<in> set jobs. \<not> is_break j"
  shows "\<exists>k. queue_inv jobs n k s \<and> job_inv work jobs k s"
  using assms(1) unfolding pool_reach_def
proof (induction rule: rtranclp_induct)
  case base
  show ?case using queue_inv_init job_inv_init by blast
next
  case (step s s')
  then show ?case using inv_step [OF _ _ _ assms(2)] by blast
qed

lemma waiting_jobs:
  assumes "queue_inv jobs n k s" and "\<forall>j \<in> set jobs. \<not> is_break j"
  shows "filter (\<lambda>j. \<not> is_break j) (inq s @ todo s) = drop k jobs"
proof -
  have "filter (\<lambda>j. \<not> is_break j) (drop k jobs) = drop k jobs"
    using assms(2) by (intro filter_True) (auto dest: in_set_dropD)
  moreover have "drop k (input_queue_of (jobs, n)) = drop k jobs @ replicate (n - (k - length jobs)) break_job"
    by (simp add: input_queue_of_def)
  ultimately show ?thesis using assms(1) by (simp add: queue_inv_def filter_replicate)
qed

lemma nothing_lost:
  assumes "pool_reach work (init_pool jobs n) s" and "\<forall>j \<in> set jobs. \<not> is_break j"
  shows "image_mset job_key (mset (filter (\<lambda>j. \<not> is_break j) (inq s @ todo s) @
             in_flight (workers s) @ outq s @ collected s)) = image_mset job_key (mset jobs)"
proof -
  from inv_reach [OF assms] obtain k where q: "queue_inv jobs n k s" and v: "job_inv work jobs k s"
    by blast
  have "image_mset job_key (mset (drop k jobs)) + image_mset job_key (mset (take k jobs)) =
      image_mset job_key (mset (drop k jobs) + mset (take k jobs))" by simp
  also have "\<dots> = image_mset job_key (mset jobs)"
    by (metis add.commute append_take_drop_id mset_append)
  finally have split: "image_mset job_key (mset (drop k jobs)) + image_mset job_key (mset (take k jobs)) =
      image_mset job_key (mset jobs)" .
  have taken: "image_mset job_key (mset (in_flight (workers s) @ outq s @ collected s)) =
      image_mset job_key (mset (take k jobs))"
    using v by (simp only: job_inv_def)
  show ?thesis
    unfolding waiting_jobs [OF q assms(2)] mset_append [of "drop k jobs"] image_mset_union [of job_key "mset (drop k jobs)"] taken
    by (rule split)
qed

lemma size_answers:
  assumes "job_inv work jobs k s"
  shows "length (in_flight (workers s)) + length (outq s) + length (collected s) = min k (length jobs)"
proof -
  have "size (image_mset job_key (mset (in_flight (workers s) @ outq s @ collected s))) =
      size (image_mset job_key (mset (take k jobs)))"
    using assms by (simp only: job_inv_def)
  then show ?thesis by (simp add: min.commute)
qed

lemma in_flight_held:
  "Got j \<in> set ws \<Longrightarrow> \<not> is_break j \<Longrightarrow> j \<in> set (in_flight ws)"
  "Running j \<in> set ws \<Longrightarrow> \<not> is_break j \<Longrightarrow> j \<in> set (in_flight ws)"
  "Died e j \<in> set ws \<Longrightarrow> \<not> is_break j \<Longrightarrow> j \<in> set (in_flight ws)"
  by (induction ws) auto

text \<open>In a blocked state no worker holds a job, and the main thread has put everything.\<close>

lemma stuck_workers:
  assumes stuck: "pool_blocked work s" and w: "w \<in> set (workers s)"
  shows "w = Waiting \<and> inq s = [] \<or> w = Stopped \<or> (\<exists>e j. w = Died e j)"
proof -
  from w obtain i where i: "i < length (workers s)" "workers s ! i = w"
    by (auto simp: in_set_conv_nth)
  then have "worker_move work s i = None"
    using stuck by (simp add: pool_blocked_def list_all_iff)
  with i show ?thesis
    by (cases w; cases "inq s") (auto simp: worker_move_def)
qed

lemma stuck_main:
  assumes stuck: "pool_blocked work s"
  shows "todo s = []" and "remaining s = 0 \<or> outq s = []"
proof -
  show "todo s = []"
    using stuck by (cases "todo s") (simp_all add: pool_blocked_def do_action_def)
  then show "remaining s = 0 \<or> outq s = []"
    using stuck by (cases "outq s") (auto simp: pool_blocked_def do_action_def split: if_splits)
qed

lemma stuck_done:
  assumes reach: "pool_reach work (init_pool jobs n) s" and nb: "\<forall>j \<in> set jobs. \<not> is_break j"
    and ok: "\<forall>j \<in> set jobs. is_skip j \<or> is_ok (work j)" and n: "0 < n"
    and stuck: "pool_blocked work s"
  shows "pool_done s \<and> image_mset job_key (mset (collected s)) = image_mset job_key (mset jobs) \<and>
     list_all (answer_of work jobs) (collected s) \<and>
     (\<not> thread_exit s \<longrightarrow> mset (collected s) = image_mset (job_result work) (mset jobs))"
proof -
  from inv_reach [OF reach nb] obtain k where q: "queue_inv jobs n k s" and v: "job_inv work jobs k s"
    by blast
  have nodie: "Died e j \<notin> set (workers s)" for e j
  proof
    assume died: "Died e j \<in> set (workers s)"
    then have "\<not> is_break j" "\<not> is_skip j" "work j = Inl e" using v by (auto simp: job_inv_def)
    moreover have "j \<in> set jobs" using v in_flight_held(3) [OF died] \<open>\<not> is_break j\<close> by (auto simp: job_inv_def)
    ultimately show False using ok by auto
  qed
  have ws: "w = Waiting \<and> inq s = [] \<or> w = Stopped" if "w \<in> set (workers s)" for w
    using stuck_workers [OF stuck that] nodie that by auto
  then have "concat (map held (workers s)) = []" by fastforce
  then have flight: "in_flight (workers s) = []" by (simp add: in_flight_def)
  have todo: "todo s = []" by (rule stuck_main(1) [OF stuck])
  have len: "length (workers s) = n" "length (filter stopping (workers s)) = k - length jobs"
    "inq s = drop k (input_queue_of (jobs, n))"
    "remaining s + length (collected s) = length jobs" "k \<le> length jobs + n"
    using q todo by (simp_all add: queue_inv_def)
  have qlen: "length (input_queue_of (jobs, n)) = length jobs + n" by (simp add: input_queue_of_def)
  have rem: "remaining s = 0"
  proof (rule ccontr)
    assume r: "remaining s \<noteq> 0"
    then have "outq s = []" using stuck_main(2) [OF stuck] by simp
    with size_answers [OF v] flight len(4) r have k: "k < length jobs" by simp
    then have "filter stopping (workers s) = []" using len(2) by simp
    moreover obtain w where w: "w \<in> set (workers s)" using n len(1) by (cases "workers s") auto
    ultimately have "inq s = []" using ws [OF w] by (auto simp: filter_empty_conv)
    then show False using len(3) qlen k n by simp
  qed
  have "size (mset (collected s)) = length jobs" using len(4) rem by simp
  with size_answers [OF v] flight have size: "length (outq s) + length jobs = min k (length jobs)" by simp
  then have k: "length jobs \<le> k" by linarith
  with size have outq: "outq s = []" by simp
  have "Waiting \<notin> set (workers s)"
  proof
    assume w: "Waiting \<in> set (workers s)"
    then have "inq s = []" using ws by blast
    then have "k = length jobs + n" using len(3,5) qlen by simp
    then have "length (filter stopping (workers s)) = length (workers s)" using len by simp
    then have "stopping Waiting" using w by (metis length_filter_less less_irrefl)
    then show False by simp
  qed
  then have "pool_done s" using ws todo rem by (auto simp: pool_done_def list_all_iff)
  then show ?thesis using v flight outq k by (simp add: job_inv_def)
qed

end

section \<open>Runs are finite\<close>

fun worker_weight :: "worker \<Rightarrow> nat" where
  "worker_weight (Got j) = 4"
| "worker_weight (Running j) = 3"
| "worker_weight _ = 0"

definition pool_weight :: "pool \<Rightarrow> nat" where
  "pool_weight s =
     6 * length (todo s) + 5 * length (inq s) + sum_list (map worker_weight (workers s)) +
     length (outq s) + (if thread_exit s then 0 else 1)"

lemma worker_update_weight:
  assumes "i < length ws" and "ws ! i = w"
  shows "sum_list (map worker_weight (ws[i := v])) + worker_weight w =
     sum_list (map worker_weight ws) + worker_weight v"
  using assms by (rule split_at) simp

lemma pool_step_weight: "pool_step work s s' \<Longrightarrow> pool_weight s' < pool_weight s"
proof (induction rule: pool_step.induct)
  case (main_put s j js)
  then show ?case by (simp add: pool_weight_def queue_put_def)
next
  case (worker_get i s j q)
  from worker_update_weight [OF worker_get(1,2), of "Got j"] queue.get_Some [OF worker_get(3)] show ?case
    unfolding pool_weight_def
    by simp
next
  case (worker_break i s j)
  from worker_update_weight [OF worker_break(1,2), of "Stopped"] show ?case
    unfolding pool_weight_def
    by simp
next
  case (worker_exit i s j)
  from worker_update_weight [OF worker_exit(1,2), of "Waiting"] show ?case
    unfolding pool_weight_def queue_put_def
    by simp
next
  case (worker_skip i s j)
  from worker_update_weight [OF worker_skip(1,2), of "Waiting"] show ?case
    unfolding pool_weight_def queue_put_def
    by simp
next
  case (worker_launch i s j)
  from worker_update_weight [OF worker_launch(1,2), of "Running j"] show ?case
    unfolding pool_weight_def
    by simp
next
  case (worker_finish i s j j')
  from worker_update_weight [OF worker_finish(1,2), of "Waiting"] show ?case
    unfolding pool_weight_def queue_put_def
    by simp
next
  case (worker_die i s j e)
  from worker_update_weight [OF worker_die(1,2), of "Died e j"] show ?case
    unfolding pool_weight_def
    by simp
next
  case (main_get s j q)
  from queue.get_Some [OF main_get(3)] show ?case by (simp add: pool_weight_def)
qed (simp add: pool_weight_def)

lemma pool_steps_weight: "(pool_step work ^^ m) s s' \<Longrightarrow> m + pool_weight s' \<le> pool_weight s"
proof (induction m arbitrary: s')
  case (Suc m)
  then obtain t where "(pool_step work ^^ m) s t" "pool_step work t s'" by auto
  with Suc.IH [of t] pool_step_weight [of work t s'] show ?case by simp
qed simp

lemma init_pool_weight: "pool_weight (init_pool jobs n) = 6 * (length jobs + n) + 1"
  by (simp add: pool_weight_def init_pool_def input_queue_of_def sum_list_0)

section \<open>The contract holds for the worker threads\<close>

lemma run_job_ok_iff:
  "is_ok (run_job_synchronously cfg proc cmd dir valgrind is_python bp) \<longleftrightarrow> \<not> is_python \<or> PYTHON cfg \<noteq> []"
  by (auto simp: run_job_synchronously_def job_command_def Let_def split: list.splits)

lemma run_work_ok_iff: "is_ok (run_work cfg proc opts j) \<longleftrightarrow> \<not> is_pyexample j \<or> PYTHON cfg \<noteq> []"
proof -
  have bind_ok: "is_ok (bindE m (\<lambda>(a, b, c, d). Inr (f a d))) = is_ok m"
    for m :: "(int \<times> string option \<times> string option \<times> rat) res" and f :: "int \<Rightarrow> rat \<Rightarrow> job"
    by (cases m) auto
  show ?thesis
    unfolding run_work_def bind_ok [where f = "\<lambda>a d. set_elapsed_time d (set_returncode a j)"]
    by (simp add: run_job_ok_iff)
qed

lemma run_work_result:
  assumes "run_work cfg proc opts j = Inr j'"
  obtains rc et where "j' = j\<lparr>returncode := rc, elapsed_time := et\<rparr>"
  using assms by (auto simp: run_work_def bindE_Inr_conv set_elapsed_time_def set_returncode_def)

interpretation pool: job_runner "run_work cfg proc opts" for cfg proc opts
proof
  show "job_key j' = job_key j" if "run_work cfg proc opts j = Inr j'" for j j'
    using that by (rule run_work_result) (simp add: job_key_def)
  show "is_break j' = is_break j" if "run_work cfg proc opts j = Inr j'" for j j'
    using that by (rule run_work_result) simp
qed

section \<open>Properties\<close>

definition work_ok :: "waf_config \<Rightarrow> job list \<Rightarrow> bool" where
  \<comment> \<open>the jobs are no break jobs, and there is an interpreter for the Python examples among them\<close>
  "work_ok cfg jobs =
     list_all (\<lambda>j. \<not> is_break j \<and> (is_skip j \<or> \<not> is_pyexample j \<or> PYTHON cfg \<noteq> [])) jobs"

text \<open>
  C7: no job is lost or duplicated, whatever the interleaving and whenever an interrupt arrives: in
  every reachable state the jobs still to be taken, those in the workers, those on the output queue
  and those collected are together the dispatched jobs, up to the fields a run changes.
\<close>

theorem pool_no_job_lost:
  assumes "pool_reach (run_work cfg proc opts) (init_pool jobs n) s" and "list_all (\<lambda>j. \<not> is_break j) jobs"
  shows "image_mset job_key (mset (filter (\<lambda>j. \<not> is_break j) (inq s @ todo s) @
             in_flight (workers s) @ outq s @ collected s)) = image_mset job_key (mset jobs)"
  using assms pool.nothing_lost by (simp only: list_all_iff)

text \<open>
  C8: every run ends. From the start no sequence of transitions of the threads, with the interrupt
  among them, is longer than six per dispatched job and per worker, and one more.
\<close>

theorem pool_runs_bounded:
  assumes "(pool_step (run_work cfg proc opts) ^^ m) (init_pool jobs n) s"
  shows "m \<le> 6 * (length jobs + n) + 1"
  using pool_steps_weight [OF assms] by (simp add: init_pool_weight)

text \<open>
  C1: the collecting loop never waits for an answer that does not come. With at least one worker
  and an interpreter for the Python examples, a reachable state in which no thread can move is one
  where the main thread has collected one answer for every job and all workers have stopped, so
  that every \<open>join\<close> returns. Each answer is a job with its result, or one sent back as a break;
  without an interrupt the answers are exactly the results of the jobs.
\<close>

theorem pool_completes:
  assumes "pool_reach (run_work cfg proc opts) (init_pool jobs n) s"
    and "work_ok cfg jobs" and "0 < n" and "pool_blocked (run_work cfg proc opts) s"
  shows "pool_done s \<and> image_mset job_key (mset (collected s)) = image_mset job_key (mset jobs) \<and>
     list_all (answer_of (run_work cfg proc opts) jobs) (collected s) \<and>
     (\<not> thread_exit s \<longrightarrow>
        mset (collected s) = image_mset (job_result (run_work cfg proc opts)) (mset jobs))"
proof (rule pool.stuck_done [OF assms(1) _ _ assms(3,4)])
  show "\<forall>j \<in> set jobs. \<not> is_break j" using assms(2) by (simp add: work_ok_def list_all_iff)
  show "\<forall>j \<in> set jobs. is_skip j \<or> is_ok (run_work cfg proc opts j)"
    using assms(2) by (auto simp: work_ok_def list_all_iff run_work_ok_iff)
qed

text \<open>
  when the loop does wait forever. A negative \<open>--jobs\<close> starts no worker at all, so a single
  dispatched job is never answered; and when the configuration has no Python interpreter, the
  worker that takes a Python example dies and its answer is never put. In both cases a state is
  reached in which no thread can move and the main thread still expects an answer.
\<close>

theorem pool_waits_forever:
  assumes "\<not> is_break j" and "\<not> is_skip j"
    and "processor_count w opts = Inr p \<and> nat p = 0 \<or> is_pyexample j \<and> PYTHON cfg = [] \<and> nat p = 1"
  shows "\<exists>s. pool_reach (run_work cfg proc opts) (init_pool [j] (nat p)) s \<and>
     pool_blocked (run_work cfg proc opts) s \<and> 0 < remaining s \<and> collected s = []"
proof (cases "nat p = 0")
  case True
  let ?s = "(init_pool [j] 0)\<lparr>todo := [], inq := [j]\<rparr>"
  have "run_schedule (run_work cfg proc opts) (init_pool [j] 0) [MainPut] = Some ?s"
    by (simp add: do_action_def init_pool_def input_queue_of_def queue_put_def)
  then have "pool_reach (run_work cfg proc opts) (init_pool [j] 0) ?s" by (rule run_schedule_reach)
  moreover have "pool_blocked (run_work cfg proc opts) ?s"
    by (simp add: pool_blocked_def do_action_def init_pool_def)
  ultimately show ?thesis using True by (intro exI [of _ ?s]) (simp add: init_pool_def)
next
  case False
  with assms(3) have py: "is_pyexample j" "PYTHON cfg = []" and p: "nat p = Suc 0" by auto
  then obtain e where e: "run_work cfg proc opts j = Inl e"
    using run_work_ok_iff [of cfg proc opts j] by (cases "run_work cfg proc opts j") auto
  let ?s = "(init_pool [j] 1)\<lparr>todo := [], inq := [break_job], workers := [Died e j]\<rparr>"
  have "run_schedule (run_work cfg proc opts) (init_pool [j] 1)
      [MainPut, MainPut, WorkerMove 0, WorkerMove 0, WorkerMove 0] = Some ?s"
    using assms(1,2) e
    by (simp add: do_action_def worker_move_def init_pool_def input_queue_of_def queue_put_def)
  then have "pool_reach (run_work cfg proc opts) (init_pool [j] 1) ?s" by (rule run_schedule_reach)
  moreover have "pool_blocked (run_work cfg proc opts) ?s"
    by (simp add: pool_blocked_def do_action_def worker_move_def init_pool_def)
  ultimately show ?thesis using p by (intro exI [of _ ?s]) (simp add: init_pool_def)
qed

section \<open>Witnesses\<close>

definition demo_job :: job where
  "demo_job = set_is_skip True (set_display_name ''tcp'' new_job)"

definition demo_final :: pool where
  "demo_final =
     \<lparr> todo = [], inq = [], outq = [], workers = [Stopped], thread_exit = False, remaining = 0,
       collected = [demo_job] \<rparr>"

lemma demo_job_sel [simp]: "is_skip demo_job" "\<not> is_break demo_job" "\<not> is_pyexample demo_job"
  by (simp_all add: demo_job_def job_setters)

lemma demo_schedule:
  "run_schedule (run_work cfg proc opts) (init_pool [demo_job] 1)
     [MainPut, WorkerMove 0, MainPut, WorkerMove 0, WorkerMove 0, MainGet, WorkerMove 0] = Some demo_final"
  by (simp add: do_action_def worker_move_def init_pool_def input_queue_of_def queue_put_def demo_final_def)

lemmas demo_run = run_schedule_reach [OF demo_schedule]

theorem pool_no_job_lost_witness:
  "image_mset job_key (mset (filter (\<lambda>j. \<not> is_break j) (inq demo_final @ todo demo_final) @
     in_flight (workers demo_final) @ outq demo_final @ collected demo_final)) =
   image_mset job_key (mset [demo_job])"
  by (rule pool_no_job_lost [OF demo_run [of demo_config "w_proc demo_world" default_options]]) simp

theorem pool_runs_bounded_witness:
  "(pool_step (run_work demo_config (w_proc demo_world) default_options) ^^ 7) (init_pool [demo_job] 1) demo_final \<and>
   7 \<le> 6 * (length [demo_job] + 1) + 1"
proof -
  have "(pool_step (run_work demo_config (w_proc demo_world) default_options) ^^ 7) (init_pool [demo_job] 1) demo_final"
    using run_schedule_steps [OF demo_schedule [of demo_config "w_proc demo_world" default_options]]
    by (simp add: numeral_eq_Suc)
  then show ?thesis using pool_runs_bounded by blast
qed

theorem pool_completes_witness:
  "pool_done demo_final \<and>
   mset (collected demo_final) =
     image_mset (job_result (run_work demo_config (w_proc demo_world) default_options)) (mset [demo_job])"
proof -
  have "pool_blocked (run_work demo_config (w_proc demo_world) default_options) demo_final"
    by (simp add: pool_blocked_def do_action_def worker_move_def demo_final_def)
  moreover have "work_ok demo_config [demo_job]" by (simp add: work_ok_def)
  moreover have "\<not> thread_exit demo_final" by (simp add: demo_final_def)
  ultimately show ?thesis
    using pool_completes [OF demo_run [of demo_config "w_proc demo_world" default_options]] by simp
qed

theorem pool_waits_forever_witness:
  "\<exists>s. pool_reach (run_work demo_config (w_proc demo_world) (default_options\<lparr>opt_process_limit := -1\<rparr>))
        (init_pool [new_job] (nat (-1))) s \<and> 0 < remaining s"
proof -
  have "processor_count demo_world (default_options\<lparr>opt_process_limit := -1\<rparr>) = Inr (-1)"
    by (simp add: processor_count_def demo_world_def)
  then have "\<exists>s. pool_reach (run_work demo_config (w_proc demo_world) (default_options\<lparr>opt_process_limit := -1\<rparr>))
      (init_pool [new_job] (nat (-1))) s \<and>
      pool_blocked (run_work demo_config (w_proc demo_world) (default_options\<lparr>opt_process_limit := -1\<rparr>)) s \<and>
      0 < remaining s \<and> collected s = []"
    by (intro pool_waits_forever [of _ demo_world]) simp_all
  then show ?thesis by blast
qed

end
