(* ===== verification/Test_Report.thy ===== *)
theory Test_Report
  imports Worker_Pool
begin

text \<open>
  The second half of \<open>run_tests\<close>: what the main thread does with the answers of the workers. Each
  answer is classified by its return code, counted, printed and written to the XML results file;
  then the summary is printed and the exit status computed. The state is the record \<open>tally\<close> of
  the local variables together with the printed text and the text of the results file. The lemmas
  relate the counters, the progress line, the results file and the exit status to the answers.
\<close>

section \<open>Printing\<close>

definition round_half_even :: "rat \<Rightarrow> int" where
  "round_half_even x =
     (let f = \<lfloor>x\<rfloor>; d = x - of_int f
      in if d < 1/2 then f else if d > 1/2 then f + 1 else if even f then f else f + 1)"

text \<open>\<open>'%.3f' % x\<close>; the rational is the exact value of the float.\<close>

definition show_fixed3 :: "rat \<Rightarrow> string" where
  "show_fixed3 x =
     (let m = nat (round_half_even (1000 * \<bar>x\<bar>)); frac = show_nat (1000 + m mod 1000)
      in (if x < 0 then ''-'' else []) @ show_nat (m div 1000) @ ''.'' @ tl frac)"

definition nl :: string where
  "nl = [newline]"

section \<open>Statuses\<close>

datatype status = PASS | FAIL | VALGR | CRASH | SKIP

definition status_of :: "job \<Rightarrow> status" where
  "status_of j =
     (if is_skip j then SKIP
      else if returncode j = 0 then PASS
      else if returncode j = 1 then FAIL
      else if returncode j = 2 then VALGR
      else CRASH)"

definition show_status :: "status \<Rightarrow> string" where
  "show_status st =
     (case st of PASS \<Rightarrow> ''PASS'' | FAIL \<Rightarrow> ''FAIL'' | VALGR \<Rightarrow> ''VALGR'' | CRASH \<Rightarrow> ''CRASH'' | SKIP \<Rightarrow> ''SKIP'')"

definition status_color :: "status \<Rightarrow> string" where
  "status_color st =
     (case st of PASS \<Rightarrow> ''GREEN'' | FAIL \<Rightarrow> ''RED'' | VALGR \<Rightarrow> ''CYAN'' | CRASH \<Rightarrow> ''PINK'' | SKIP \<Rightarrow> ''GREY'')"

definition status_print :: "bool \<Rightarrow> status \<Rightarrow> string" where
  "status_print use st = get_color use (status_color st) @ show_status st @ get_color use ''NORMAL''"

definition kind_of :: "job \<Rightarrow> string" where
  "kind_of j = (if is_example j \<or> is_pyexample j then ''Example'' else ''TestSuite'')"

section \<open>One answer\<close>

record tally =
  passed_tests :: nat
  failed_tests :: nat
  failed_testnames :: "string list"
  crashed_tests :: nat
  crashed_testnames :: "string list"
  valgrind_errors :: nat
  valgrind_testnames :: "string list"
  skipped_tests :: nat
  skipped_testnames :: "string list"
  printed :: string
  xml_results :: string

definition results_header :: string where
  "results_header = ''<?xml version=\"1.0\"?>'' @ nl @ ''<Results>'' @ nl"

definition initial_tally :: tally where
  "initial_tally =
     \<lparr> passed_tests = 0, failed_tests = 0, failed_testnames = [], crashed_tests = 0,
       crashed_testnames = [], valgrind_errors = 0, valgrind_testnames = [], skipped_tests = 0,
       skipped_testnames = [], printed = [], xml_results = results_header \<rparr>"

definition count_status :: "job \<Rightarrow> tally \<Rightarrow> tally" where
  "count_status j t =
     (if is_skip j then
        t\<lparr>skipped_tests := skipped_tests t + 1,
          skipped_testnames := skipped_testnames t @ [display_name j @ ('' ('' @ skip_reason j @ '')'')]\<rparr>
      else if returncode j = 0 then t\<lparr>passed_tests := passed_tests t + 1\<rparr>
      else if returncode j = 1 then
        t\<lparr>failed_tests := failed_tests t + 1, failed_testnames := failed_testnames t @ [display_name j]\<rparr>
      else if returncode j = 2 then
        t\<lparr>valgrind_errors := valgrind_errors t + 1,
          valgrind_testnames := valgrind_testnames t @ [display_name j]\<rparr>
      else t\<lparr>crashed_tests := crashed_tests t + 1, crashed_testnames := crashed_testnames t @ [display_name j]\<rparr>)"

definition progress_count :: "tally \<Rightarrow> nat" where
  "progress_count t = passed_tests t + failed_tests t + skipped_tests t + crashed_tests t"

definition progress_line :: "test_options \<Rightarrow> bool \<Rightarrow> nat \<Rightarrow> job \<Rightarrow> tally \<Rightarrow> string" where
  "progress_line opts use total_tests j t =
     ''['' @ show_nat (progress_count t) @ ''/'' @ show_nat total_tests @ ''] '' @
     (if opt_duration opts \<or> opt_constrain opts = ''performance''
      then status_print use (status_of j) @ '' ('' @ show_fixed3 (elapsed_time j) @ ''): ''
      else status_print use (status_of j) @ '': '') @
     kind_of j @ '' '' @ display_name j @ nl"

text \<open>
  What one answer appends to the results file. For a suite that ran to its end that is the file it
  wrote itself; a missing file is an uncaught error.
\<close>

definition example_entry :: "job \<Rightarrow> string" where
  "example_entry j =
     ''<Example>'' @ nl @ ''  <Name>'' @ display_name j @ ''</Name>'' @ nl @
     (case status_of j of
        PASS \<Rightarrow> ''  <Result>PASS</Result>''
      | FAIL \<Rightarrow> ''  <Result>FAIL</Result>''
      | VALGR \<Rightarrow> ''  <Result>VALGR</Result>''
      | SKIP \<Rightarrow> ''  <Result>SKIP</Result>''
      | CRASH \<Rightarrow> ''  <Result>CRASH</Result>'') @ nl @
     ''  <Time real=\"'' @ show_fixed3 (elapsed_time j) @ ''\"/>'' @ nl @ ''</Example>'' @ nl"

definition suite_entry :: "(string \<Rightarrow> string option) \<Rightarrow> job \<Rightarrow> string res" where
  "suite_entry files j =
     (if is_skip j then
        Inr (''<Test>'' @ nl @ ''  <Name>'' @ display_name j @ ''</Name>'' @ nl @
             ''  <Result>SKIP</Result>'' @ nl @ ''  <Reason>'' @ skip_reason j @ ''</Reason>'' @ nl @
             ''</Test>'' @ nl)
      else if returncode j = 0 \<or> returncode j = 1 \<or> returncode j = 2 then
        (case files (tmp_file_name j) of None \<Rightarrow> Inl OSError | Some text \<Rightarrow> Inr text)
      else
        Inr (''<Test>'' @ nl @ ''  <Name>'' @ display_name j @ ''</Name>'' @ nl @
             ''  <Result>CRASH</Result>'' @ nl @ ''</Test>'' @ nl))"

definition xml_entry :: "(string \<Rightarrow> string option) \<Rightarrow> job \<Rightarrow> string res" where
  "xml_entry files j = (if is_example j \<or> is_pyexample j then Inr (example_entry j) else suite_entry files j)"

definition collect_answer ::
    "test_options \<Rightarrow> bool \<Rightarrow> (string \<Rightarrow> string option) \<Rightarrow> nat \<Rightarrow> tally \<Rightarrow> job \<Rightarrow> tally res" where
  "collect_answer opts use files total_tests t j =
     (if is_break j then Inr t
      else (let t1 = count_status j t;
                t2 = t1\<lparr>printed := printed t1 @ progress_line opts use total_tests j t1\<rparr>
            in bindE (xml_entry files j) (\<lambda>entry. Inr (t2\<lparr>xml_results := xml_results t2 @ entry\<rparr>))))"

definition collect_answers ::
    "test_options \<Rightarrow> bool \<Rightarrow> (string \<Rightarrow> string option) \<Rightarrow> nat \<Rightarrow> job list \<Rightarrow> tally res" where
  "collect_answers opts use files total_tests answers =
     foldE (collect_answer opts use files total_tests) initial_tally answers"

definition close_results :: "tally \<Rightarrow> tally" where
  "close_results t = t\<lparr>xml_results := xml_results t @ ''</Results>'' @ nl\<rparr>"

section \<open>The summary and the exit status\<close>

definition name_list :: "string \<Rightarrow> string list \<Rightarrow> string" where
  "name_list title names =
     (if names = [] then []
      else title @ nl @ ''    '' @ py_join (nl @ ''    '') (sort names) @ nl)"

definition summary :: "nat \<Rightarrow> tally \<Rightarrow> string" where
  "summary total_tests t =
     show_nat (passed_tests t) @ '' of '' @ show_nat total_tests @ '' tests passed ('' @
     show_nat (passed_tests t) @ '' passed, '' @ show_nat (skipped_tests t) @ '' skipped, '' @
     show_nat (failed_tests t) @ '' failed, '' @ show_nat (crashed_tests t) @ '' crashed, '' @
     show_nat (valgrind_errors t) @ '' valgrind errors)'' @ nl @
     name_list ''List of SKIPped tests:'' (skipped_testnames t) @
     name_list ''List of FAILed tests:'' (failed_testnames t) @
     name_list ''List of CRASHed tests:'' (crashed_testnames t) @
     name_list ''List of VALGR failures:'' (valgrind_testnames t)"

definition closing_notes :: "waf_config \<Rightarrow> test_options \<Rightarrow> string" where
  "closing_notes cfg opts =
     (if \<not> ENABLE_TESTS cfg \<or> \<not> ENABLE_EXAMPLES cfg then
        nl @
        (if \<not> ENABLE_TESTS cfg then
           ''***  Note: ns-3 tests are currently disabled. Enable them by adding'' @ nl @
           ''***  \"--enable-tests\" to ./waf configure or modifying your .ns3rc file.'' @ nl @ nl
         else []) @
        (if \<not> ENABLE_EXAMPLES cfg then
           ''***  Note: ns-3 examples are currently disabled. Enable them by adding'' @ nl @
           ''***  \"--enable-examples\" to ./waf configure or modifying your .ns3rc file.'' @ nl @ nl
         else [])
      else []) @
     (if opt_valgrind opts \<and> \<not> VALGRIND_FOUND cfg then
        nl @
        ''***  Note: you are trying to use valgrind, but valgrind could not be found'' @ nl @
        ''***  on your machine.  All tests and examples will crash or be skipped.'' @ nl @ nl
      else [])"

definition exit_status :: "nat \<Rightarrow> tally \<Rightarrow> int" where
  "exit_status total_tests t = (if passed_tests t + skipped_tests t = total_tests then 0 else 1)"

section \<open>What the counters mean\<close>

definition real_answers :: "job list \<Rightarrow> job list" where
  "real_answers answers = filter (\<lambda>j. \<not> is_break j) answers"

definition with_status :: "status \<Rightarrow> job list \<Rightarrow> job list" where
  "with_status st answers = filter (\<lambda>j. status_of j = st) (real_answers answers)"

definition counts_ok :: "job list \<Rightarrow> tally \<Rightarrow> bool" where
  "counts_ok answers t =
     (passed_tests t = length (with_status PASS answers) \<and>
      failed_tests t = length (with_status FAIL answers) \<and>
      crashed_tests t = length (with_status CRASH answers) \<and>
      valgrind_errors t = length (with_status VALGR answers) \<and>
      skipped_tests t = length (with_status SKIP answers) \<and>
      failed_testnames t = map display_name (with_status FAIL answers) \<and>
      crashed_testnames t = map display_name (with_status CRASH answers) \<and>
      valgrind_testnames t = map display_name (with_status VALGR answers) \<and>
      skipped_testnames t = map (\<lambda>j. display_name j @ '' ('' @ skip_reason j @ '')'') (with_status SKIP answers))"

lemma with_status_snoc:
  "with_status st (answers @ [j]) =
     with_status st answers @ (if \<not> is_break j \<and> status_of j = st then [j] else [])"
  by (simp add: with_status_def real_answers_def)

lemma counts_ok_step:
  assumes "collect_answer opts use files tot t j = Inr t'" and "counts_ok answers t"
  shows "counts_ok (answers @ [j]) t'"
proof (cases "is_break j")
  case True
  then show ?thesis using assms by (simp add: collect_answer_def counts_ok_def with_status_snoc)
next
  case False
  with assms(1) obtain p x where "t' = (count_status j t)\<lparr>printed := p, xml_results := x\<rparr>"
    by (auto simp: collect_answer_def Let_def bindE_Inr_conv)
  with False assms(2) show ?thesis
    by (auto simp: count_status_def counts_ok_def with_status_snoc status_of_def)
qed

lemma foldE_answers_inv:
  assumes "foldE f t0 xs = Inr t" and "I [] t0"
    and "\<And>done t j t'. I done t \<Longrightarrow> f t j = Inr t' \<Longrightarrow> I (done @ [j]) t'"
  shows "I xs t"
proof -
  have "foldE f t0 xs = Inr t \<Longrightarrow> I xs t" for t
  proof (induction xs arbitrary: t rule: rev_induct)
    case Nil
    with assms(2) show ?case by simp
  next
    case (snoc j xs)
    from snoc.prems obtain u where "foldE f t0 xs = Inr u" "f u j = Inr t"
      by (auto simp: foldE_append bindE_Inr_conv)
    with snoc.IH assms(3) show ?case by blast
  qed
  from this [OF assms(1)] show ?thesis .
qed

lemma collect_counts:
  assumes "collect_answers opts use files tot answers = Inr t"
  shows "counts_ok answers t"
  using assms unfolding collect_answers_def
proof (rule foldE_answers_inv)
  show "counts_ok [] initial_tally"
    by (simp add: counts_ok_def initial_tally_def with_status_def real_answers_def)
qed (rule counts_ok_step)

lemma with_status_total:
  "length (with_status PASS answers) + length (with_status FAIL answers) + length (with_status CRASH answers) +
   length (with_status VALGR answers) + length (with_status SKIP answers) = length (real_answers answers)"
proof (induction answers)
  case (Cons j answers)
  then show ?case by (cases "status_of j") (auto simp: with_status_def real_answers_def)
qed (simp add: with_status_def real_answers_def)

lemma length_filter_all: "length (filter P xs) = length xs \<longleftrightarrow> list_all P xs"
proof (induction xs)
  case (Cons x xs)
  have "length (filter P xs) \<noteq> Suc (length xs)"
    using length_filter_le [of P xs] by linarith
  with Cons show ?case by auto
qed simp

lemma exit_status_good:
  assumes "collect_answers opts use files total_tests answers = Inr t" and "length answers = total_tests"
  shows "exit_status total_tests t = 0 \<longleftrightarrow>
     list_all (\<lambda>j. \<not> is_break j \<and> (is_skip j \<or> returncode j = 0)) answers"
proof -
  let ?good = "\<lambda>j. \<not> is_break j \<and> (is_skip j \<or> returncode j = 0)"
  have "length (with_status PASS answers) + length (with_status SKIP answers) = length (filter ?good answers)"
    by (induction answers) (auto simp: with_status_def real_answers_def status_of_def)
  then have "passed_tests t + skipped_tests t = length (filter ?good answers)"
    using collect_counts [OF assms(1)] by (simp add: counts_ok_def)
  then show ?thesis
    by (simp add: exit_status_def assms(2) [symmetric] length_filter_all)
qed

section \<open>The results file\<close>

lemma collect_answer_xml:
  assumes "collect_answer opts use files tot t j = Inr t'"
  shows "if is_break j then t' = t
         else \<exists>entry. xml_entry files j = Inr entry \<and> xml_results t' = xml_results t @ entry"
proof (cases "is_break j")
  case True
  with assms show ?thesis by (simp add: collect_answer_def)
next
  case False
  with assms obtain entry where "xml_entry files j = Inr entry"
    "t' = (let t1 = count_status j t in t1\<lparr>printed := printed t1 @ progress_line opts use tot j t1,
             xml_results := xml_results t1 @ entry\<rparr>)"
    by (auto simp: collect_answer_def Let_def bindE_Inr_conv)
  moreover have "xml_results (count_status j t) = xml_results t" by (simp add: count_status_def)
  ultimately show ?thesis using False by (simp add: Let_def)
qed

lemma mapE_snoc: "mapE f (xs @ [x]) = bindE (mapE f xs) (\<lambda>ys. bindE (f x) (\<lambda>y. Inr (ys @ [y])))"
proof (induction xs)
  case Nil
  then show ?case by (cases "f x") simp_all
next
  case (Cons a xs)
  then show ?case by (cases "f a"; cases "mapE f xs"; cases "f x") simp_all
qed

definition results_ok :: "(string \<Rightarrow> string option) \<Rightarrow> job list \<Rightarrow> tally \<Rightarrow> bool" where
  "results_ok files answers t =
     (case mapE (xml_entry files) (real_answers answers) of
        Inl e \<Rightarrow> False | Inr entries \<Rightarrow> xml_results t = results_header @ concat entries)"

lemma collect_results:
  assumes "collect_answers opts use files tot answers = Inr t"
  shows "results_ok files answers t"
  using assms unfolding collect_answers_def
proof (rule foldE_answers_inv)
  show "results_ok files [] initial_tally"
    by (simp add: results_ok_def real_answers_def initial_tally_def)
next
  fix seen t j t'
  assume ok: "results_ok files seen t" and step: "collect_answer opts use files tot t j = Inr t'"
  then obtain entries where e: "mapE (xml_entry files) (real_answers seen) = Inr entries"
    "xml_results t = results_header @ concat entries"
    by (auto simp: results_ok_def split: sum.split_asm)
  show "results_ok files (seen @ [j]) t'"
    using collect_answer_xml [OF step] e
    by (auto simp: results_ok_def real_answers_def mapE_snoc split: if_splits)
qed

section \<open>Properties\<close>

text \<open>
  C10: the counters and the four lists of names are exactly what the answers say: each counter is
  the number of answers, other than breaks, with that status, each list holds their names in the
  order of the answers, and the five counters add up to the number of answers that are no breaks.
\<close>

theorem collected_counts:
  assumes "collect_answers opts use files total_tests answers = Inr t"
  shows "counts_ok answers t \<and>
     passed_tests t + failed_tests t + crashed_tests t + valgrind_errors t + skipped_tests t =
       length (real_answers answers)"
  using collect_counts [OF assms] with_status_total [of answers] by (simp add: counts_ok_def)

text \<open>
  \<^verbatim>\<open>test.py\<close> exits with status 0 exactly when every dispatched job was answered by a
  job that was skipped or returned 0; an answer sent back as a break after an interrupt counts as
  a failure.
\<close>

theorem exit_status_success:
  assumes "collect_answers opts use files total_tests answers = Inr t" and "length answers = total_tests"
  shows "exit_status total_tests t = 0 \<longleftrightarrow>
     list_all (\<lambda>j. \<not> is_break j \<and> (is_skip j \<or> returncode j = 0)) answers"
  using assms by (rule exit_status_good)

text \<open>
  the progress counter does not count valgrind errors. After all answers the number printed in
  front of the slash is the number of real answers less the valgrind errors, so when there is one
  it never reaches the total.
\<close>

theorem progress_misses_valgrind_errors:
  assumes "collect_answers opts use files total_tests answers = Inr t"
  shows "progress_count t + length (with_status VALGR answers) = length (real_answers answers) \<and>
     (length answers = total_tests \<and> with_status VALGR answers \<noteq> [] \<longrightarrow> progress_count t < total_tests)"
proof -
  have "length (real_answers answers) \<le> length answers" by (simp add: real_answers_def)
  moreover have "progress_count t + length (with_status VALGR answers) = length (real_answers answers)"
    using collect_counts [OF assms] with_status_total [of answers]
    by (simp add: counts_ok_def progress_count_def)
  ultimately show ?thesis by (cases "with_status VALGR answers") auto
qed

text \<open>
  the results file is the header, one entry for every answer that is no break in the order of
  the answers, and the closing tag. The entry of a suite that returned 0, 1 or 2 is the file the
  suite wrote and nothing more; in particular a suite with a valgrind error leaves the same entry
  as one that passed, and no result says so.
\<close>

theorem results_file_entries:
  assumes "collect_answers opts use files total_tests answers = Inr t"
  shows "\<exists>entries. mapE (xml_entry files) (real_answers answers) = Inr entries \<and>
     xml_results (close_results t) = results_header @ concat entries @ ''</Results>'' @ nl \<and>
     (\<forall>j. \<not> is_example j \<and> \<not> is_pyexample j \<and> \<not> is_skip j \<and> returncode j \<in> {0, 1, 2} \<longrightarrow>
        xml_entry files j = xml_entry files (set_returncode 0 j))"
proof -
  have "xml_entry files j = xml_entry files (set_returncode 0 j)"
    if "\<not> is_example j \<and> \<not> is_pyexample j \<and> \<not> is_skip j \<and> returncode j \<in> {0, 1, 2}" for j
    using that by (auto simp: xml_entry_def suite_entry_def set_returncode_def)
  then show ?thesis
    using collect_results [OF assms]
    by (auto simp: results_ok_def close_results_def split: sum.split_asm)
qed

section \<open>Witnesses\<close>

definition demo_answers :: "job list" where
  "demo_answers =
     [set_tmp_file_name ''t'' (set_display_name ''tcp'' new_job),
      set_returncode 2 (set_is_example True (set_display_name ''udp'' new_job)), demo_job]"

definition demo_files :: "string \<Rightarrow> string option" where
  "demo_files p = (if p = ''t'' then Some ''<Test/>'' else None)"

definition demo_tally :: tally where
  "demo_tally =
     (case collect_answers default_options False demo_files 3 demo_answers of Inl e \<Rightarrow> initial_tally | Inr t \<Rightarrow> t)"

lemmas demo_answer_simps =
  demo_answers_def demo_job_def job_setters new_job_def

lemma demo_collect: "collect_answers default_options False demo_files 3 demo_answers = Inr demo_tally"
proof -
  have "is_ok (collect_answers default_options False demo_files 3 demo_answers)"
    by (simp add: collect_answers_def demo_answer_simps collect_answer_def xml_entry_def suite_entry_def
        demo_files_def Let_def)
  then show ?thesis by (auto simp: demo_tally_def is_ok_def split: sum.splits)
qed

theorem collected_counts_witness:
  "valgrind_errors demo_tally = 1 \<and> valgrind_testnames demo_tally = [''udp''] \<and> passed_tests demo_tally = 1"
  using collected_counts [OF demo_collect]
  by (simp add: counts_ok_def with_status_def real_answers_def demo_answer_simps status_of_def)

theorem exit_status_success_witness: "exit_status 3 demo_tally \<noteq> 0"
  using exit_status_success [OF demo_collect] by (simp add: demo_answer_simps)

theorem progress_misses_valgrind_errors_witness: "progress_count demo_tally < 3"
  using progress_misses_valgrind_errors [OF demo_collect]
  by (simp add: with_status_def real_answers_def demo_answer_simps status_of_def)

theorem results_file_entries_witness:
  "\<exists>e2 e3. xml_results (close_results demo_tally) =
     results_header @ (''<Test/>'' @ e2 @ e3) @ ''</Results>'' @ nl"
  using results_file_entries [OF demo_collect]
  by (auto simp: real_answers_def demo_answer_simps xml_entry_def suite_entry_def demo_files_def)

end
