(* ===== verification/Test_Render.thy ===== *)
theory Test_Render
  imports Test_Report
begin

text \<open>
  The reports of \<^verbatim>\<open>test.py\<close>: \<open>read_test\<close>, the text report (\<open>node_to_text\<close>,
  \<open>translate_to_text\<close>) and the HTML report (\<open>translate_to_html\<close>). The parsed results file is a
  tree of elements. The HTML text is written as a list of tags and raw pieces, which \<open>render\<close>
  turns into the text of the file, so that the nesting of the tags can be stated. The lemmas show
  which reports are well nested and count the rows that are closed with the wrong tag.
\<close>

section \<open>Elements\<close>

datatype xml = Elem (xtag: string) (xattrs: "(string \<times> string) list") (xtext: "string option") (xchildren: "xml list")

definition xfind :: "string \<Rightarrow> xml \<Rightarrow> xml option" where
  "xfind tag e = find (\<lambda>c. xtag c = tag) (xchildren e)"

definition xfindall :: "string \<Rightarrow> xml \<Rightarrow> xml list" where
  "xfindall tag e = filter (\<lambda>c. xtag c = tag) (xchildren e)"

definition xget :: "string \<Rightarrow> xml \<Rightarrow> string option" where
  "xget k e = map_of (xattrs e) k"

text \<open>\<open>e.find(tag).text\<close>: the attribute of \<open>None\<close> when there is no such child.\<close>

definition child_text :: "string \<Rightarrow> xml \<Rightarrow> string option res" where
  "child_text tag e = (case xfind tag e of None \<Rightarrow> Inl AttributeError | Some c \<Rightarrow> Inr (xtext c))"

definition show_opt :: "string option \<Rightarrow> string" where
  \<comment> \<open>\<open>"%s" % value\<close>\<close>
  "show_opt v = (case v of None \<Rightarrow> ''None'' | Some s \<Rightarrow> s)"

definition read_test :: "xml \<Rightarrow> (string option \<times> string option \<times> string option \<times> string option) res" where
  "read_test test =
     bindE (child_text ''Result'' test) (\<lambda>result.
     bindE (child_text ''Name'' test) (\<lambda>name.
     let reason = (case xfind ''Reason'' test of None \<Rightarrow> Some [] | Some r \<Rightarrow> xtext r);
         time_real = (case xfind ''Time'' test of None \<Rightarrow> Some [] | Some t \<Rightarrow> xget ''real'' t)
     in Inr (result, name, reason, time_real)))"

section \<open>The text report\<close>

definition details_to_text :: "xml \<Rightarrow> string res" where
  "details_to_text details =
     bindE (child_text ''Message'' details) (\<lambda>message.
     bindE (child_text ''Condition'' details) (\<lambda>cond.
     bindE (child_text ''Actual'' details) (\<lambda>actual.
     bindE (child_text ''Limit'' details) (\<lambda>limit.
     bindE (child_text ''File'' details) (\<lambda>file.
     bindE (child_text ''Line'' details) (\<lambda>line.
     Inr (''    Details:'' @ nl @ ''      Message:   '' @ show_opt message @ nl @
          ''      Condition: '' @ show_opt cond @ nl @ ''      Actual:    '' @ show_opt actual @ nl @
          ''      Limit:     '' @ show_opt limit @ nl @ ''      File:      '' @ show_opt file @ nl @
          ''      Line:      '' @ show_opt line @ nl)))))))"

definition test_line :: "string \<Rightarrow> string option \<times> string option \<times> string option \<times> string option \<Rightarrow> string" where
  "test_line test_type =
     (\<lambda>(result, name, reason, time_real).
        let reason' = (if reason \<noteq> None \<and> reason \<noteq> Some [] then Some ('' ('' @ the reason @ '')'') else reason)
        in show_opt result @ '': Test '' @ test_type @ '' \"'' @ show_opt name @ ''\" ('' @
           show_opt time_real @ '')'' @ show_opt reason' @ nl)"

lemma xfindall_size: "c \<in> set (xfindall tag e) \<Longrightarrow> size c < size e"
  by (cases e) (auto simp: xfindall_def dest: size_list_estimation' [of _ _ "size _" size] intro: le_imp_less_Suc)

function node_to_text :: "xml \<Rightarrow> string \<Rightarrow> string res" where
  "node_to_text test test_type =
     bindE (read_test test) (\<lambda>r.
     bindE (mapE details_to_text (xfindall ''FailureDetails'' test)) (\<lambda>details.
     bindE (mapE (\<lambda>child. node_to_text child ''Case'') (xfindall ''Test'' test)) (\<lambda>children.
     Inr (test_line test_type r @ concat details @ concat children))))"
  by pat_completeness auto
termination
  by (relation "measure (\<lambda>(e, _). size e)") (auto dest: xfindall_size)

declare node_to_text.simps [simp del]

definition example_to_text :: "xml \<Rightarrow> string res" where
  "example_to_text example =
     bindE (child_text ''Result'' example) (\<lambda>result.
     bindE (child_text ''Name'' example) (\<lambda>name.
     let time_real = (case xfind ''Time'' example of None \<Rightarrow> Some [] | Some t \<Rightarrow> xget ''real'' t)
     in Inr (show_opt result @ '': Example \"'' @ show_opt name @ ''\" ('' @ show_opt time_real @ '')'' @ nl)))"

text \<open>The name and the text of the file; \<open>et\<close> is the root element of the parsed results.\<close>

definition translate_to_text :: "xml \<Rightarrow> string \<Rightarrow> (string \<times> string) res" where
  "translate_to_text et text_file =
     bindE (mapE (\<lambda>test. node_to_text test ''Suite'') (xfindall ''Test'' et)) (\<lambda>tests.
     bindE (mapE example_to_text (xfindall ''Example'' et)) (\<lambda>examples.
     Inr (text_file @ ''.txt'', concat tests @ concat examples)))"

section \<open>The HTML report\<close>

datatype markup = Open string string | Close string | Raw string

definition quoted_attr :: "string \<Rightarrow> string" where
  "quoted_attr a = (if a = [] then [] else '' '' @ a)"

fun render_piece :: "markup \<Rightarrow> string" where
  "render_piece (Open t a) = ''<'' @ t @ quoted_attr a @ ''>''"
| "render_piece (Close t) = ''</'' @ t @ ''>''"
| "render_piece (Raw s) = s"

definition render :: "markup list \<Rightarrow> string" where
  "render ms = concat (map render_piece ms)"

definition tagged :: "string \<Rightarrow> string \<Rightarrow> string \<Rightarrow> markup list" where
  \<comment> \<open>an element on a line of its own\<close>
  "tagged t a s = [Open t a, Raw s, Close t, Raw nl]"

definition green :: string where "green = ''style=\"color:green\"''"
definition orange :: string where "orange = ''style=\"color:#ff6600\"''"
definition red :: string where "red = ''style=\"color:red\"''"

definition open_line :: "string \<Rightarrow> markup list" where "open_line t = [Open t [], Raw nl]"
definition close_line :: "string \<Rightarrow> markup list" where "close_line t = [Close t, Raw nl]"

definition html_details :: "xml \<Rightarrow> markup list res" where
  "html_details details =
     bindE (child_text ''Message'' details) (\<lambda>message.
     bindE (child_text ''Condition'' details) (\<lambda>cond.
     bindE (child_text ''Actual'' details) (\<lambda>actual.
     bindE (child_text ''Limit'' details) (\<lambda>limit.
     bindE (child_text ''File'' details) (\<lambda>file.
     bindE (child_text ''Line'' details) (\<lambda>line.
     Inr ([Open ''td'' []] @
          [Open ''b'' [], Raw ''Message: '', Close ''b'', Raw (show_opt message @ '', '')] @
          [Open ''b'' [], Raw ''Condition: '', Close ''b'', Raw (show_opt cond @ '', '')] @
          [Open ''b'' [], Raw ''Actual: '', Close ''b'', Raw (show_opt actual @ '', '')] @
          [Open ''b'' [], Raw ''Limit: '', Close ''b'', Raw (show_opt limit @ '', '')] @
          [Open ''b'' [], Raw ''File: '', Close ''b'', Raw (show_opt file @ '', '')] @
          [Open ''b'' [], Raw ''Line: '', Close ''b'', Raw (show_opt line)] @
          close_line ''td'')))))))"

text \<open>A row of a failed case ends with a second \<open></td>\<close> where \<open></tr>\<close> is meant.\<close>

definition html_failure_row ::
    "string option \<times> string option \<times> string option \<Rightarrow> bool \<Rightarrow> xml \<Rightarrow> markup list res" where
  "html_failure_row =
     (\<lambda>(result, name, time) first_row details.
        bindE (html_details details) (\<lambda>cells.
        Inr (open_line ''tr'' @
             (if first_row
              then tagged ''td'' red (show_opt result) @ tagged ''td'' [] (show_opt name) @
                   tagged ''td'' [] (show_opt time)
              else tagged ''td'' [] [] @ tagged ''td'' [] [] @ tagged ''td'' [] []) @
             cells @ close_line ''td'')))"

definition html_case :: "xml \<Rightarrow> markup list res" where
  "html_case c =
     bindE (read_test c) (\<lambda>(result, name, reason, time).
     if result = Some ''FAIL'' then
       (case xfindall ''FailureDetails'' c of
          [] \<Rightarrow> Inr []
        | d # ds \<Rightarrow> bindE (html_failure_row (result, name, time) True d) (\<lambda>r.
                    bindE (mapE (html_failure_row (result, name, time) False) ds) (\<lambda>rs.
                    Inr (r @ concat rs))))
     else
       Inr (open_line ''tr'' @ tagged ''td'' green (show_opt result) @ tagged ''td'' [] (show_opt name) @
            tagged ''td'' [] (show_opt time) @ tagged ''td'' [] (show_opt reason) @ close_line ''tr''))"

definition html_suite_header ::
    "string option \<Rightarrow> string option \<Rightarrow> string option \<Rightarrow> string option \<Rightarrow> markup list" where
  "html_suite_header result name reason time =
     (if result = Some ''PASS''
      then tagged ''h3'' green (show_opt result @ '': '' @ show_opt name @ '' ('' @ show_opt time @ '')'')
      else if result = Some ''SKIP''
      then tagged ''h3'' orange (show_opt result @ '': '' @ show_opt name @ '' ('' @ show_opt time @
             '') ('' @ show_opt reason @ '')'')
      else tagged ''h3'' red (show_opt result @ '': '' @ show_opt name @ '' ('' @ show_opt time @ '')''))"

definition html_suite :: "xml \<Rightarrow> markup list res" where
  "html_suite suite =
     bindE (read_test suite) (\<lambda>(result, name, reason, time).
     let header = html_suite_header result name reason time;
         start = [Open ''table'' ''border=\"1\"'', Raw nl] @ tagged ''th'' [] '' Result ''
     in if result \<in> {Some ''CRASH'', Some ''SKIP'', Some ''VALGR''} then
          Inr (header @ start @ open_line ''tr'' @
               (if result = Some ''SKIP'' then tagged ''td'' orange (show_opt result)
                else tagged ''td'' red (show_opt result)) @
               close_line ''tr'' @ close_line ''table'')
        else
          bindE (mapE html_case (xfindall ''Test'' suite)) (\<lambda>rows.
          Inr (header @ start @ tagged ''th'' [] ''Test Case Name'' @ tagged ''th'' [] '' Time '' @
               (if result = Some ''FAIL'' then tagged ''th'' [] ''Failure Details'' else []) @
               concat rows @ close_line ''table'')))"

text \<open>The status cell of a skipped example is closed with \<open></fd>\<close>.\<close>

definition html_example :: "xml \<Rightarrow> markup list res" where
  "html_example example =
     bindE (read_test example) (\<lambda>(result, name, reason, time).
     Inr (open_line ''tr'' @
          (if result = Some ''PASS'' then tagged ''td'' green (show_opt result)
           else if result = Some ''SKIP''
           then [Open ''td'' orange, Raw (show_opt result), Close ''fd'', Raw nl]
           else tagged ''td'' red (show_opt result)) @
          tagged ''td'' [] (show_opt name) @ tagged ''td'' [] (show_opt time) @
          tagged ''td'' [] (show_opt reason) @ close_line ''tr''))"

definition html_document :: "xml \<Rightarrow> markup list res" where
  "html_document et =
     bindE (mapE html_suite (xfindall ''Test'' et)) (\<lambda>suites.
     bindE (mapE html_example (xfindall ''Example'' et)) (\<lambda>examples.
     Inr (open_line ''html'' @ open_line ''body'' @
          [Open ''center'' [], Open ''h1'' [], Raw ''ns-3 Test Results'', Close ''h1'', Close ''center'', Raw nl] @
          tagged ''h2'' [] ''Test Suites'' @ concat suites @
          tagged ''h2'' [] ''Examples'' @ [Open ''table'' ''border=\"1\"'', Raw nl] @
          tagged ''th'' [] '' Result '' @ tagged ''th'' [] ''Example Name'' @
          tagged ''th'' [] ''Elapsed Time'' @ tagged ''th'' [] ''Details'' @
          concat examples @ close_line ''table'' @ close_line ''body'' @ close_line ''html'')))"

definition translate_to_html :: "xml \<Rightarrow> string \<Rightarrow> (string \<times> string) res" where
  "translate_to_html et html_file =
     bindE (html_document et) (\<lambda>ms. Inr (html_file @ ''.html'', render ms))"

section \<open>Nesting\<close>

fun tag_stack :: "string list \<Rightarrow> markup list \<Rightarrow> string list option" where
  "tag_stack st [] = Some st"
| "tag_stack st (Open t a # ms) = tag_stack (t # st) ms"
| "tag_stack st (Raw s # ms) = tag_stack st ms"
| "tag_stack st (Close t # ms) =
     (case st of [] \<Rightarrow> None | u # st' \<Rightarrow> if u = t then tag_stack st' ms else None)"

definition well_nested :: "markup list \<Rightarrow> bool" where
  "well_nested ms = (\<forall>st. tag_stack st ms = Some st)"

definition closes :: "string \<Rightarrow> markup list \<Rightarrow> nat" where
  "closes t ms = length (filter (\<lambda>m. m = Close t) ms)"

definition opens :: "string \<Rightarrow> markup list \<Rightarrow> nat" where
  "opens t ms = length (filter (\<lambda>m. case m of Open u a \<Rightarrow> u = t | _ \<Rightarrow> False) ms)"

lemma tag_stack_append:
  "tag_stack st (ms @ ns) = (case tag_stack st ms of None \<Rightarrow> None | Some st' \<Rightarrow> tag_stack st' ns)"
  by (induction st ms rule: tag_stack.induct) (auto split: list.splits)

lemma well_nested_append [intro]: "well_nested ms \<Longrightarrow> well_nested ns \<Longrightarrow> well_nested (ms @ ns)"
  by (simp add: well_nested_def tag_stack_append)

lemma well_nested_concat: "(\<And>ms. ms \<in> set mss \<Longrightarrow> well_nested ms) \<Longrightarrow> well_nested (concat mss)"
  by (induction mss) (auto simp: well_nested_def tag_stack_append)

lemma well_nested_basic [simp]: "well_nested []" "well_nested (tagged t a s)"
  by (simp_all add: well_nested_def tagged_def)

lemma well_nested_wrap: "well_nested ms \<Longrightarrow> well_nested ([Open t a, Raw s] @ ms @ close_line t)"
  by (simp add: well_nested_def tag_stack_append close_line_def)

text \<open>A piece that no stack of open tags accepts.\<close>

definition ill_nested :: "markup list \<Rightarrow> bool" where
  "ill_nested ms = (\<forall>st. tag_stack st ms = None)"

definition nests :: "bool \<Rightarrow> markup list \<Rightarrow> bool" where
  "nests ok ms = (if ok then well_nested ms else ill_nested ms)"

lemma well_not_ill: "well_nested ms \<Longrightarrow> \<not> ill_nested ms"
  by (simp add: well_nested_def ill_nested_def)

lemma nests_append: "nests a ms \<Longrightarrow> nests b ns \<Longrightarrow> nests (a \<and> b) (ms @ ns)"
  by (auto simp: nests_def well_nested_def ill_nested_def tag_stack_append split: if_splits)

lemma nests_concat:
  "list_all2 (\<lambda>x ms. nests (P x) ms) xs mss \<Longrightarrow> nests (list_all P xs) (concat mss)"
proof (induction rule: list_all2_induct)
  case Nil
  then show ?case by (simp add: nests_def)
next
  case (Cons x xs ms mss)
  then show ?case using nests_append by fastforce
qed

lemma mapE_list_all2:
  "mapE f xs = Inr ys \<Longrightarrow> (\<And>x y. x \<in> set xs \<Longrightarrow> f x = Inr y \<Longrightarrow> R x y) \<Longrightarrow> list_all2 R xs ys"
  by (induction xs arbitrary: ys) (auto simp: bindE_Inr_conv)

lemma nests_mapE:
  assumes "mapE f xs = Inr mss" and "\<And>x ms. x \<in> set xs \<Longrightarrow> f x = Inr ms \<Longrightarrow> nests (P x) ms"
  shows "nests (list_all P xs) (concat mss)"
  using nests_concat [OF mapE_list_all2 [OF assms]] .

lemma nests_frame:
  assumes "nests ok ms" and "\<And>st. tag_stack st pre = Some (ctx @ st)" and "\<And>st. tag_stack (ctx @ st) post = Some st"
  shows "nests ok (pre @ ms @ post)"
proof (cases ok)
  case True
  then show ?thesis using assms by (simp add: nests_def well_nested_def tag_stack_append)
next
  case False
  then show ?thesis using assms by (simp add: nests_def ill_nested_def tag_stack_append)
qed

definition result_is :: "string list \<Rightarrow> xml \<Rightarrow> bool" where
  "result_is rs e = (case child_text ''Result'' e of Inr (Some r) \<Rightarrow> r \<in> set rs | _ \<Rightarrow> False)"

lemma read_test_result:
  "read_test e = Inr (result, name, reason, time) \<Longrightarrow> result_is rs e \<longleftrightarrow> result \<in> Some ` set rs"
  by (auto simp: read_test_def bindE_Inr_conv result_is_def Let_def split: option.splits)

definition good_case :: "xml \<Rightarrow> bool" where
  "good_case c = (\<not> (result_is [''FAIL''] c \<and> xfindall ''FailureDetails'' c \<noteq> []))"

definition good_suite :: "xml \<Rightarrow> bool" where
  "good_suite s = (result_is [''CRASH'', ''SKIP'', ''VALGR''] s \<or> list_all good_case (xfindall ''Test'' s))"

definition good_example :: "xml \<Rightarrow> bool" where
  "good_example e = (\<not> result_is [''SKIP''] e)"

lemma failure_row_ill: "html_failure_row r first_row d = Inr ms \<Longrightarrow> ill_nested (ms @ ns)"
  by (cases r) (auto simp: html_failure_row_def html_details_def bindE_Inr_conv ill_nested_def tag_stack_append
      open_line_def close_line_def tagged_def)

lemma html_case_nests: "html_case c = Inr ms \<Longrightarrow> nests (good_case c) ms"
proof -
  assume c: "html_case c = Inr ms"
  then obtain result name reason time where r: "read_test c = Inr (result, name, reason, time)"
    by (auto simp: html_case_def bindE_Inr_conv)
  show ?thesis
  proof (cases "result = Some ''FAIL''")
    case True
    then have fail: "result_is [''FAIL''] c" using read_test_result [OF r, of "[''FAIL'']"] by simp
    show ?thesis
    proof (cases "xfindall ''FailureDetails'' c")
      case Nil
      then show ?thesis using c r True fail by (simp add: html_case_def nests_def good_case_def)
    next
      case (Cons d ds)
      then obtain m ns where "html_failure_row (result, name, time) True d = Inr m" "ms = m @ ns"
        using c r True by (auto simp: html_case_def bindE_Inr_conv)
      then have "ill_nested ms" using failure_row_ill by simp
      then show ?thesis using fail Cons by (simp add: nests_def good_case_def)
    qed
  next
    case False
    then have "good_case c" using read_test_result [OF r, of "[''FAIL'']"] by (auto simp: good_case_def)
    moreover have "well_nested ms"
      using c r False by (auto simp: html_case_def well_nested_def tag_stack_append open_line_def
          close_line_def tagged_def)
    ultimately show ?thesis by (simp add: nests_def)
  qed
qed

lemma suite_header_nests [simp]: "well_nested (html_suite_header result name reason time)"
  by (simp add: html_suite_header_def)

lemma suite_header_stack [simp]: "tag_stack st (html_suite_header result name reason time) = Some st"
  using suite_header_nests unfolding well_nested_def by blast

lemma html_suite_nests: "html_suite s = Inr ms \<Longrightarrow> nests (good_suite s) ms"
proof -
  assume s: "html_suite s = Inr ms"
  then obtain result name reason time where r: "read_test s = Inr (result, name, reason, time)"
    by (auto simp: html_suite_def bindE_Inr_conv)
  have short: "result_is [''CRASH'', ''SKIP'', ''VALGR''] s \<longleftrightarrow> result \<in> {Some ''CRASH'', Some ''SKIP'', Some ''VALGR''}"
    using read_test_result [OF r, of "[''CRASH'', ''SKIP'', ''VALGR'']"] by auto
  show ?thesis
  proof (cases "result \<in> {Some ''CRASH'', Some ''SKIP'', Some ''VALGR''}")
    case True
    then have "well_nested ms"
      using s r by (auto simp: html_suite_def well_nested_def tag_stack_append open_line_def
          close_line_def tagged_def)
    moreover have "good_suite s" using True short by (simp add: good_suite_def)
    ultimately show ?thesis by (simp add: nests_def)
  next
    case False
    then obtain rows where rows: "mapE html_case (xfindall ''Test'' s) = Inr rows"
      using s r by (auto simp: html_suite_def bindE_Inr_conv)
    let ?pre = "html_suite_header result name reason time @ [Open ''table'' ''border=\"1\"'', Raw nl] @ tagged ''th'' [] '' Result '' @
       tagged ''th'' [] ''Test Case Name'' @ tagged ''th'' [] '' Time '' @
       (if result = Some ''FAIL'' then tagged ''th'' [] ''Failure Details'' else [])"
    have ms: "ms = ?pre @ concat rows @ close_line ''table''"
      using s r False rows by (simp add: html_suite_def Let_def)
    have "nests (list_all good_case (xfindall ''Test'' s)) (concat rows)"
      by (rule nests_mapE [OF rows]) (rule html_case_nests)
    then have "nests (list_all good_case (xfindall ''Test'' s)) ms"
      unfolding ms by (rule nests_frame [where ctx = "[''table'']"])
      (simp_all add: tagged_def close_line_def tag_stack_append)
    then show ?thesis using False short by (simp add: good_suite_def)
  qed
qed

lemma html_example_nests: "html_example e = Inr ms \<Longrightarrow> nests (good_example e) ms"
proof -
  assume e: "html_example e = Inr ms"
  then obtain result name reason time where r: "read_test e = Inr (result, name, reason, time)"
    by (auto simp: html_example_def bindE_Inr_conv)
  have "result_is [''SKIP''] e \<longleftrightarrow> result = Some ''SKIP''"
    using read_test_result [OF r, of "[''SKIP'']"] by simp
  then show ?thesis
    using e r by (auto simp: html_example_def good_example_def nests_def well_nested_def ill_nested_def
        tag_stack_append open_line_def close_line_def tagged_def)
qed

lemma html_document_nests:
  assumes "html_document et = Inr ms"
  shows "nests (list_all good_suite (xfindall ''Test'' et) \<and> list_all good_example (xfindall ''Example'' et)) ms"
proof -
  from assms obtain suites examples where su: "mapE html_suite (xfindall ''Test'' et) = Inr suites"
    and ex: "mapE html_example (xfindall ''Example'' et) = Inr examples"
    by (auto simp: html_document_def bindE_Inr_conv)
  let ?mid = "tagged ''h2'' [] ''Examples'' @ [Open ''table'' ''border=\"1\"'', Raw nl] @
          tagged ''th'' [] '' Result '' @ tagged ''th'' [] ''Example Name'' @
          tagged ''th'' [] ''Elapsed Time'' @ tagged ''th'' [] ''Details''"
  let ?pre = "open_line ''html'' @ open_line ''body'' @
          [Open ''center'' [], Open ''h1'' [], Raw ''ns-3 Test Results'', Close ''h1'', Close ''center'', Raw nl] @
          tagged ''h2'' [] ''Test Suites''"
  have ms: "ms = ?pre @ (concat suites @ (?mid @ concat examples @ close_line ''table'')) @
      (close_line ''body'' @ close_line ''html'')"
    using assms su ex by (simp add: html_document_def)
  have 1: "nests (list_all good_suite (xfindall ''Test'' et)) (concat suites)"
    by (rule nests_mapE [OF su]) (rule html_suite_nests)
  have "nests (list_all good_example (xfindall ''Example'' et)) (concat examples)"
    by (rule nests_mapE [OF ex]) (rule html_example_nests)
  then have 2: "nests (list_all good_example (xfindall ''Example'' et)) (?mid @ concat examples @ close_line ''table'')"
    by (rule nests_frame [where ctx = "[''table'']"]) (simp_all add: tagged_def close_line_def)
  show ?thesis
    unfolding ms
    by (rule nests_frame [OF nests_append [OF 1 2], where ctx = "[''body'', ''html'']"])
      (simp_all add: tagged_def close_line_def open_line_def)
qed

section \<open>Which results can be reported\<close>

definition has_children :: "string list \<Rightarrow> xml \<Rightarrow> bool" where
  "has_children tags e = list_all (\<lambda>t. xfind t e \<noteq> None) tags"

function complete_test :: "xml \<Rightarrow> bool" where
  "complete_test e =
     (has_children [''Result'', ''Name''] e \<and>
      list_all (has_children [''Message'', ''Condition'', ''Actual'', ''Limit'', ''File'', ''Line''])
        (xfindall ''FailureDetails'' e) \<and>
      list_all complete_test (xfindall ''Test'' e))"
  by pat_completeness auto
termination
  by (relation "measure size") (auto dest: xfindall_size)

declare complete_test.simps [simp del]

lemma child_text_ok: "is_ok (child_text t e) \<longleftrightarrow> xfind t e \<noteq> None"
  by (auto simp: child_text_def split: option.splits)

lemma is_ok_bindE: "is_ok (bindE m f) \<longleftrightarrow> (\<exists>x. m = Inr x \<and> is_ok (f x))"
  by (cases m) auto

lemma is_ok_bind_total: "(\<And>x. is_ok (f x)) \<Longrightarrow> is_ok (bindE m f) \<longleftrightarrow> is_ok m"
  by (cases m) auto

lemma is_ok_mapE: "is_ok (mapE f xs) \<longleftrightarrow> list_all (\<lambda>x. is_ok (f x)) xs"
proof (induction xs)
  case (Cons x xs)
  then show ?case by (cases "f x"; cases "mapE f xs") auto
qed simp

lemma is_ok_bind_same: "(\<And>x. is_ok (f x) = b) \<Longrightarrow> is_ok (bindE m f) \<longleftrightarrow> is_ok m \<and> b"
  by (cases m) auto

lemma read_test_ok: "is_ok (read_test e) \<longleftrightarrow> has_children [''Result'', ''Name''] e"
  unfolding read_test_def Let_def
  by (simp add: is_ok_bind_same [where b = "is_ok (child_text ''Name'' e)"] is_ok_bind_total child_text_ok has_children_def)

lemma details_to_text_ok:
  "is_ok (details_to_text d) \<longleftrightarrow>
     has_children [''Message'', ''Condition'', ''Actual'', ''Limit'', ''File'', ''Line''] d"
  unfolding details_to_text_def has_children_def child_text_def
  by (auto split: option.split)

lemma node_to_text_ok: "is_ok (node_to_text e ty) \<longleftrightarrow> complete_test e"
proof (induction e arbitrary: ty rule: complete_test.induct)
  case (1 e)
  let ?details = "mapE details_to_text (xfindall ''FailureDetails'' e)"
  let ?children = "mapE (\<lambda>child. node_to_text child ''Case'') (xfindall ''Test'' e)"
  have children: "list_all (\<lambda>c. is_ok (node_to_text c ''Case'')) (xfindall ''Test'' e) \<longleftrightarrow>
      list_all complete_test (xfindall ''Test'' e)"
    using 1 by (intro list.pred_cong) simp_all
  have "is_ok (node_to_text e ty) \<longleftrightarrow> is_ok (read_test e) \<and> is_ok ?details \<and> is_ok ?children"
    by (subst node_to_text.simps) (cases "read_test e"; cases ?details; cases ?children; simp)
  then show ?case
    by (subst complete_test.simps) (simp add: children read_test_ok is_ok_mapE details_to_text_ok)
qed

section \<open>Properties\<close>

text \<open>
  C11: the tags of the HTML report are nested properly exactly when no test case failed with
  details inside a suite that is shown in full, and no example was skipped. Each row of a failed
  case is closed with a second cell end instead of the row end, and the status of a skipped example
  with a tag that was never opened.
\<close>

theorem html_nesting:
  assumes "html_document et = Inr ms"
  shows "tag_stack [] ms = (if list_all good_suite (xfindall ''Test'' et) \<and>
                              list_all good_example (xfindall ''Example'' et) then Some [] else None)"
  using html_document_nests [OF assms] by (simp add: nests_def well_nested_def ill_nested_def split: if_splits)

text \<open>
  the text report is written exactly for the results in which every test, at any depth, has a
  result and a name and every failure all its six fields, and every example has a result and a name;
  anything else is an error.
\<close>

theorem text_report_ok:
  "is_ok (translate_to_text et text_file) \<longleftrightarrow>
     list_all complete_test (xfindall ''Test'' et) \<and>
     list_all (has_children [''Result'', ''Name'']) (xfindall ''Example'' et)"
proof -
  have ex: "is_ok (example_to_text e) \<longleftrightarrow> has_children [''Result'', ''Name''] e" for e
    unfolding example_to_text_def has_children_def child_text_def Let_def
    by (auto split: option.split)
  let ?tests = "mapE (\<lambda>test. node_to_text test ''Suite'') (xfindall ''Test'' et)"
  let ?examples = "mapE example_to_text (xfindall ''Example'' et)"
  have "is_ok (translate_to_text et text_file) \<longleftrightarrow> is_ok ?tests \<and> is_ok ?examples"
    by (cases ?tests; cases ?examples) (simp_all add: translate_to_text_def)
  then show ?thesis by (simp add: is_ok_mapE node_to_text_ok ex)
qed

definition demo_skipped :: xml where
  "demo_skipped = Elem ''Results'' [] None
     [Elem ''Example'' [] None
        [Elem ''Name'' [] (Some ''udp'') [], Elem ''Result'' [] (Some ''SKIP'') []]]"

theorem html_nesting_witness:
  "\<exists>ms. html_document demo_skipped = Inr ms \<and> tag_stack [] ms = None"
proof -
  have "is_ok (html_document demo_skipped)"
    by (simp add: demo_skipped_def html_document_def html_example_def read_test_def child_text_def
        xfind_def xfindall_def Let_def)
  then obtain ms where ms: "html_document demo_skipped = Inr ms"
    by (cases "html_document demo_skipped") simp_all
  have "\<not> list_all good_example (xfindall ''Example'' demo_skipped)"
    by (simp add: demo_skipped_def good_example_def result_is_def child_text_def xfind_def xfindall_def)
  with html_nesting [OF ms] ms show ?thesis by auto
qed

end
