(* ===== verification/Test_Runner.thy ===== *)
theory Test_Runner
  imports Test_Render
begin

text \<open>
  \<open>run_tests\<close> of \<^verbatim>\<open>test.py\<close> as the composition of its phases: configuration, build, search
  paths, examples, the early exits of \<open>--kinds\<close> and \<open>--list\<close>, the dispatch of the jobs, the
  answers of the workers, and the reports. The workers are the argument \<open>gather\<close>, from the
  dispatched jobs and the number of workers to the answers in the order they were collected; the
  property says what every interleaving of \<open>Worker_Pool\<close> makes of it.
\<close>

section \<open>Set up\<close>

record run_setup =
  su_config :: waf_config
  su_environ :: environ
  su_programs :: "(string, string) dict"
  su_scripts :: pyval
  su_examples :: example_lists

text \<open>The left result is the status of a waf run that failed, which \<open>run_tests\<close> returns.\<close>

definition prepare ::
    "world \<Rightarrow> executor \<Rightarrow> environ \<Rightarrow> test_options \<Rightarrow> (int + run_setup) res" where
  "prepare w ex env opts =
     bindE (read_waf_config (w_fs w) (w_eval w) ex (w_platform w) initial_config) (\<lambda>cfg0.
     let cfg = set_suffix cfg0
     in case run_waf w opts of
          Some status \<Rightarrow> Inr (Inl status)
        | None \<Rightarrow>
            bindE (make_paths cfg (w_platform w) env) (\<lambda>env'.
            bindE (read_build_status w cfg) (\<lambda>(programs, scripts).
            bindE (collect_examples w cfg) (\<lambda>examples.
            Inr (Inr \<lparr> su_config = cfg, su_environ = dict_set ''NS_LOG'' [] env', su_programs = programs,
                       su_scripts = scripts, su_examples = examples \<rparr>)))))"

section \<open>Listing\<close>

definition print_kinds :: "world \<Rightarrow> waf_config \<Rightarrow> string option res" where
  \<comment> \<open>the printed text; \<open>None\<close> stands for output that could not be decoded\<close>
  "print_kinds w cfg =
     bindE (runner_output w cfg '' --print-test-type-list'') (\<lambda>(rc, out). Inr out)"

definition print_list :: "world \<Rightarrow> waf_config \<Rightarrow> test_options \<Rightarrow> string list \<Rightarrow> string list res" where
  "print_list w cfg opts example_names =
     bindE (if opt_constrain opts \<noteq> []
            then runner_output w cfg ('' --print-test-name-list --print-test-types --test-type='' @ opt_constrain opts)
            else runner_output w cfg '' --print-test-name-list --print-test-types'') (\<lambda>(rc, out).
     if rc \<noteq> 0 then
       Inr [''test.py error:  test-runner return code returned '' @ show_int rc,
            ''To debug, try running '' @ [CHR 0x27] @ ''./waf --run \"test-runner --print-test-name-list\"'' @ [CHR 0x27] @ nl]
     else
       bindE (decoded out) (\<lambda>text.
       let list_items = sort (py_split newline text)
       in Inr ([''Test Type    Test Name'', ''---------    ---------''] @
               filter (\<lambda>item. py_strip item \<noteq> []) list_items @
               map (\<lambda>item. ''example      '' @ item) (sort example_names) @ [[]])))"

section \<open>The reports\<close>

record test_run =
  tr_status :: int
  tr_tally :: tally
  tr_files :: "(string \<times> string) list"
  tr_output_removed :: bool

definition write_reports ::
    "(string \<Rightarrow> xml res) \<Rightarrow> test_options \<Rightarrow> string \<Rightarrow> (string \<times> string) list res" where
  "write_reports et_parse opts results =
     bindE (if opt_html opts \<noteq> []
            then bindE (et_parse results) (\<lambda>et. bindE (translate_to_html et (opt_html opts)) (\<lambda>f. Inr [f]))
            else Inr []) (\<lambda>html.
     bindE (if opt_text opts \<noteq> []
            then bindE (et_parse results) (\<lambda>et. bindE (translate_to_text et (opt_text opts)) (\<lambda>f. Inr [f]))
            else Inr []) (\<lambda>text.
     Inr (html @ text @ (if opt_xml opts \<noteq> [] then [(opt_xml opts @ ''.xml'', results)] else []))))"

definition finish_run ::
    "(string \<Rightarrow> xml res) \<Rightarrow> waf_config \<Rightarrow> test_options \<Rightarrow> bool \<Rightarrow> (string \<Rightarrow> string option) \<Rightarrow> nat \<Rightarrow>
       job list \<Rightarrow> test_run res" where
  "finish_run et_parse cfg opts use files total_tests answers =
     bindE (collect_answers opts use files total_tests answers) (\<lambda>t0.
     let t1 = close_results t0;
         t2 = t1\<lparr>printed := printed t1 @ summary total_tests t1\<rparr>
     in bindE (write_reports et_parse opts (xml_results t2)) (\<lambda>reports.
        Inr \<lparr> tr_status = exit_status total_tests t2,
              tr_tally = t2\<lparr>printed := printed t2 @ closing_notes cfg opts\<rparr>,
              tr_files = reports, tr_output_removed = \<not> opt_retain opts \<rparr>))"

section \<open>The whole run\<close>

datatype run_outcome =
    WafFailed int
  | Listed "string option option" "string list option"
  | Ran test_run

definition run_tests ::
    "world \<Rightarrow> executor \<Rightarrow> environ \<Rightarrow> (string \<Rightarrow> string option) \<Rightarrow> (string \<Rightarrow> xml res) \<Rightarrow>
       (run_setup \<Rightarrow> job list \<Rightarrow> nat \<Rightarrow> job list) \<Rightarrow> string \<Rightarrow> test_options \<Rightarrow> bool \<Rightarrow> run_outcome res" where
  "run_tests w ex env files et_parse gather output_dir opts use =
     bindE (prepare w ex env opts) (\<lambda>prepared. case prepared of
         Inl status \<Rightarrow> Inr (WafFailed status)
       | Inr su \<Rightarrow>
           bindE (if opt_kinds opts then bindE (print_kinds w (su_config su)) (\<lambda>k. Inr (Some k)) else Inr None) (\<lambda>kinds.
           bindE (if opt_list opts
                  then bindE (print_list w (su_config su) opts (example_names_original (su_examples su))) (\<lambda>l. Inr (Some l))
                  else Inr None) (\<lambda>listing.
           if opt_kinds opts \<or> opt_list opts then Inr (Listed kinds listing)
           else
             bindE (dispatch w (su_config su) opts output_dir (su_programs su) (su_scripts su) (su_examples su))
               (\<lambda>(jobs, n).
             bindE (finish_run et_parse (su_config su) opts use files (length jobs) (gather su jobs n)) (\<lambda>r.
             Inr (Ran r))))))"

definition test_main ::
    "world \<Rightarrow> executor \<Rightarrow> environ \<Rightarrow> (string \<Rightarrow> string option) \<Rightarrow> (string \<Rightarrow> xml res) \<Rightarrow>
       (test_options \<Rightarrow> run_setup \<Rightarrow> job list \<Rightarrow> nat \<Rightarrow> job list) \<Rightarrow> string \<Rightarrow> string list \<Rightarrow> run_outcome res" where
  "test_main w ex env files et_parse gather output_dir args =
     bindE (main_setup args env) (\<lambda>(opts, use).
     run_tests w ex env files et_parse (gather opts) output_dir opts use)"

section \<open>What the workers may answer\<close>

text \<open>The answers of some run of the threads that can go no further.\<close>

definition possible_answers ::
    "waf_config \<Rightarrow> proc_oracle \<Rightarrow> test_options \<Rightarrow> job list \<Rightarrow> nat \<Rightarrow> bool \<Rightarrow> job list \<Rightarrow> bool" where
  "possible_answers cfg proc opts jobs n interrupted answers =
     (\<exists>s. pool_reach (run_work cfg proc opts) (init_pool jobs n) s \<and>
          pool_blocked (run_work cfg proc opts) s \<and> thread_exit s = interrupted \<and> collected s = answers)"

definition job_succeeds :: "waf_config \<Rightarrow> proc_oracle \<Rightarrow> test_options \<Rightarrow> job \<Rightarrow> bool" where
  "job_succeeds cfg proc opts j =
     (is_skip j \<or> (case run_work cfg proc opts j of Inl e \<Rightarrow> False | Inr j' \<Rightarrow> returncode j' = 0))"

lemma run_work_keeps:
  assumes "run_work cfg proc opts j = Inr j'"
  shows "is_skip j' = is_skip j \<and> is_break j' = is_break j \<and> is_example j' = is_example j \<and>
    is_pyexample j' = is_pyexample j \<and> display_name j' = display_name j \<and> tmp_file_name j' = tmp_file_name j"
  using assms by (rule run_work_result) simp

lemma job_result_good:
  assumes "\<not> is_break j" and "is_skip j \<or> \<not> is_pyexample j \<or> PYTHON cfg \<noteq> []"
  shows "(let j' = job_result (run_work cfg proc opts) j
          in \<not> is_break j' \<and> (is_skip j' \<or> returncode j' = 0)) \<longleftrightarrow> job_succeeds cfg proc opts j"
proof (cases "is_skip j")
  case True
  then show ?thesis using assms(1) by (simp add: job_result_def job_succeeds_def)
next
  case False
  then have "is_ok (run_work cfg proc opts j)" using assms(2) by (simp add: run_work_ok_iff)
  then obtain j' where j': "run_work cfg proc opts j = Inr j'" by (cases "run_work cfg proc opts j") auto
  with run_work_keeps [OF j'] False assms(1) show ?thesis
    by (simp add: job_result_def job_succeeds_def)
qed

lemma dispatch_work_ok:
  assumes "dispatch w cfg opts dir programs scripts st = Inr (jobs, n)" and "PYTHON cfg \<noteq> []"
  shows "work_ok cfg jobs"
proof -
  from assms(1) obtain ts ex py where jobs: "jobs = suite_jobs w cfg opts dir ts @ ex @ py"
    and ex: "example_jobs w cfg opts dir programs (example_tests st) = Inr ex"
    and py: "pyexample_jobs w cfg opts dir scripts (python_tests st) = Inr py"
    by (auto simp: dispatch_def bindE_Inr_conv)
  have "list_all (\<lambda>j. \<not> is_break j) (suite_jobs w cfg opts dir ts)"
    by (auto simp: suite_jobs_def list_all_iff)
  with example_jobs_shape [OF ex] pyexample_jobs_shape [OF py] assms(2) show ?thesis
    by (auto simp: jobs work_ok_def list_all_iff example_shape_def pyexample_shape_def)
qed

lemma job_succeeds_key:
  assumes "job_key j = job_key j'"
  shows "job_succeeds cfg proc opts j \<longleftrightarrow> job_succeeds cfg proc opts j'"
proof -
  have same: "is_skip j = is_skip j'" "is_example j = is_example j'" "is_pyexample j = is_pyexample j'"
    "shell_command j = shell_command j'" "cwd j = cwd j'" "build_path j = build_path j'"
    "tempdir j = tempdir j'" "tmp_file_name j = tmp_file_name j'"
    using assms unfolding job_key_def by (cases j; cases j'; simp)+
  define run where "run j = (if is_example j \<or> is_pyexample j
      then run_job_synchronously cfg proc (shell_command j) (cwd j) (opt_valgrind opts) (is_pyexample j) (build_path j)
      else run_job_synchronously cfg proc (suite_command opts j) (cwd j) (opt_valgrind opts) False [])" for j
  have code: "(case run_work cfg proc opts j of Inl e \<Rightarrow> False | Inr j' \<Rightarrow> returncode j' = 0) =
      (case run j of Inl e \<Rightarrow> False | Inr (rc, out, err, et) \<Rightarrow> rc = 0)" for j
    unfolding run_work_def run_def [symmetric]
    by (cases "run j") (auto simp: set_elapsed_time_def set_returncode_def)
  have "run j = run j'" by (simp add: run_def same suite_command_def)
  then show ?thesis by (simp add: job_succeeds_def code same)
qed

text \<open>When every answer is good, so is every job: each job has an answer with its key.\<close>

lemma good_answers_jobs:
  fixes cfg proc opts
  defines "work \<equiv> run_work cfg proc opts"
  assumes keys: "image_mset job_key (mset answers) = image_mset job_key (mset jobs)"
    and ans: "list_all (answer_of work jobs) answers"
    and all: "list_all (\<lambda>j. \<not> is_break j \<and> (is_skip j \<or> returncode j = 0)) answers"
    and good: "\<And>j. j \<in> set jobs \<Longrightarrow>
      (\<not> is_break (job_result work j) \<and> (is_skip (job_result work j) \<or> returncode (job_result work j) = 0)) =
        job_succeeds cfg proc opts j"
  shows "list_all (job_succeeds cfg proc opts) jobs"
  unfolding list_all_iff
proof
  fix j
  assume "j \<in> set jobs"
  then have "job_key j \<in># image_mset job_key (mset jobs)" by simp
  then have "job_key j \<in> job_key ` set answers" by (simp only: keys [symmetric]) simp
  then obtain a where a: "a \<in> set answers" "job_key a = job_key j" by auto
  have ga: "\<not> is_break a \<and> (is_skip a \<or> returncode a = 0)" using all a(1) by (simp add: list_all_iff)
  obtain j0 where j0: "j0 \<in> set jobs" "a = job_result work j0 \<or> a = set_is_break True j0"
    using ans a(1) by (auto simp: list_all_iff answer_of_def)
  with ga have aj: "a = job_result work j0" by (auto simp: set_is_break_def)
  with ga good [OF j0(1)] have "job_succeeds cfg proc opts j0" by simp
  moreover have "job_key j0 = job_key j" using a(2) aj by (simp add: work_def)
  ultimately show "job_succeeds cfg proc opts j" using job_succeeds_key by blast
qed

section \<open>Properties\<close>

text \<open>
  C2: the exit status does not depend on how the threads interleave. For the jobs that were
  dispatched, at least one worker and an interpreter, every run of the threads that was not
  interrupted gives status 0 exactly when every job was skipped or returned 0; after an interrupt
  the status can only be 0 if that holds as well.
\<close>

theorem exit_status_schedule_independent:
  assumes "dispatch w cfg opts dir programs scripts st = Inr (jobs, n)" and "0 < n" and "PYTHON cfg \<noteq> []"
    and "possible_answers cfg (w_proc w) opts jobs n interrupted answers"
    and "finish_run et_parse cfg opts use files (length jobs) answers = Inr r"
  shows "(tr_status r = 0 \<longrightarrow> list_all (job_succeeds cfg (w_proc w) opts) jobs) \<and>
     (\<not> interrupted \<longrightarrow> (tr_status r = 0 \<longleftrightarrow> list_all (job_succeeds cfg (w_proc w) opts) jobs))"
proof -
  let ?work = "run_work cfg (w_proc w) opts"
  let ?good = "\<lambda>j. \<not> is_break j \<and> (is_skip j \<or> returncode j = 0)"
  have ok: "work_ok cfg jobs" using assms(1,3) by (rule dispatch_work_ok)
  from assms(4) obtain s where s: "pool_reach ?work (init_pool jobs n) s" "pool_blocked ?work s"
    "thread_exit s = interrupted" "collected s = answers"
    by (auto simp: possible_answers_def)
  note final = pool.stuck_done [OF s(1) _ _ assms(2) s(2)]
  have nb: "\<forall>j \<in> set jobs. \<not> is_break j" and okj: "\<forall>j \<in> set jobs. is_skip j \<or> is_ok (?work j)"
    using ok by (auto simp: work_ok_def list_all_iff run_work_ok_iff)
  from final [OF nb okj] s(3,4)
  have keys: "image_mset job_key (mset answers) = image_mset job_key (mset jobs)"
    and ans: "list_all (answer_of ?work jobs) answers"
    and exact: "\<not> interrupted \<Longrightarrow> mset answers = image_mset (job_result ?work) (mset jobs)"
    by simp_all
  have len: "length answers = length jobs"
    using keys by (metis size_image_mset size_mset)
  from assms(5) obtain t where t: "collect_answers opts use files (length jobs) answers = Inr t"
    and st: "tr_status r = exit_status (length jobs) t"
    by (auto simp: finish_run_def bindE_Inr_conv Let_def close_results_def exit_status_def)
  have status: "tr_status r = 0 \<longleftrightarrow> list_all ?good answers"
    unfolding st by (rule exit_status_good [OF t len])
  have good: "?good (job_result ?work j) \<longleftrightarrow> job_succeeds cfg (w_proc w) opts j" if "j \<in> set jobs" for j
    using job_result_good [of j cfg "w_proc w" opts] that ok
    by (auto simp: work_ok_def list_all_iff Let_def)
  have "list_all (job_succeeds cfg (w_proc w) opts) jobs" if "list_all ?good answers"
    using keys ans that good by (rule good_answers_jobs)
  moreover have "list_all ?good answers \<longleftrightarrow> list_all (job_succeeds cfg (w_proc w) opts) jobs" if "\<not> interrupted"
  proof -
    have "set answers = job_result ?work ` set jobs"
      using exact [OF that] by (metis set_image_mset set_mset_mset)
    then show ?thesis using good by (simp add: list_all_iff)
  qed
  ultimately show ?thesis using status by auto
qed

text \<open>
  \<open>--kinds\<close> and \<open>--list\<close> run no test: whatever the workers would answer, the run ends with the
  listing, or with the error or the failed waf run it met before; and a failed waf run is
  returned before anything else is read.
\<close>

theorem listing_runs_nothing:
  assumes "opt_kinds opts \<or> opt_list opts"
  shows "run_tests w ex env files et_parse gather output_dir opts use =
       run_tests w ex env files' et_parse' gather' output_dir' opts use' \<and>
     (\<forall>r. run_tests w ex env files et_parse gather output_dir opts use \<noteq> Inr (Ran r))"
proof -
  have "run_tests w ex env files et_parse gather output_dir opts use =
      bindE (prepare w ex env opts) (\<lambda>prepared. case prepared of
         Inl status \<Rightarrow> Inr (WafFailed status)
       | Inr su \<Rightarrow>
           bindE (if opt_kinds opts then bindE (print_kinds w (su_config su)) (\<lambda>k. Inr (Some k)) else Inr None) (\<lambda>kinds.
           bindE (if opt_list opts
                  then bindE (print_list w (su_config su) opts (example_names_original (su_examples su))) (\<lambda>l. Inr (Some l))
                  else Inr None) (\<lambda>listing. Inr (Listed kinds listing))))"
    for files et_parse gather output_dir use
    by (simp only: run_tests_def eqTrueI [OF assms] if_True)
  note eq = this
  show ?thesis
    unfolding eq [of files et_parse gather output_dir use] eq [of files' et_parse' gather' output_dir' use']
    by (auto simp: bindE_Inr_conv split: sum.splits)
qed

section \<open>Witnesses\<close>

definition demo_py_config :: waf_config where
  "demo_py_config = demo_config\<lparr>PYTHON := [''python''], NS3_MODULE_PATH := Some []\<rparr>"

definition demo_suite :: job where
  "demo_suite = suite_job demo_world demo_py_config default_options ''/o'' ''tcp''"

lemma demo_dispatch:
  "dispatch demo_world demo_py_config default_options ''/o'' demo_programs (PyList []) no_examples = Inr ([demo_suite], 2)"
proof -
  have "suite_list_of demo_world demo_py_config default_options = Inr [''tcp'']" by code_simp
  moreover have "processor_count demo_world default_options = Inr 2"
    by (simp add: processor_count_def demo_world_def default_options_def)
  moreover have "py_strip ''tcp'' = ''tcp''" by code_simp
  ultimately show ?thesis
    by (simp add: dispatch_def suite_jobs_def example_jobs_def pyexample_jobs_def no_examples_def
        no_selection_def default_options_def demo_suite_def)
qed

lemma demo_suite_runs:
  "run_work demo_py_config (w_proc demo_world) default_options demo_suite = Inr demo_suite"
  by (simp add: run_work_def run_job_synchronously_def job_command_def demo_world_def demo_suite_def
      default_options_def suite_job_def job_setters new_job_def Let_def demo_py_config_def demo_config_def
      initial_config_def core_nsc_missing_skip_tests_def)

lemma demo_suite_answers:
  "possible_answers demo_py_config (w_proc demo_world) default_options [demo_suite] 2 False [demo_suite]"
proof -
  let ?work = "run_work demo_py_config (w_proc demo_world) default_options"
  let ?s = "\<lparr> todo = [], inq = [], outq = [], workers = [Stopped, Stopped], thread_exit = False,
              remaining = 0, collected = [demo_suite] \<rparr>"
  have "\<not> is_skip demo_suite"
    by (simp add: demo_suite_def default_options_def core_nsc_missing_skip_tests_def)
  moreover have "\<not> is_break demo_suite" by (simp add: demo_suite_def)
  ultimately have "run_schedule ?work (init_pool [demo_suite] 2)
      [MainPut, WorkerMove 1, WorkerMove 1, WorkerMove 1, MainPut, MainPut, WorkerMove 0, WorkerMove 0,
       WorkerMove 1, MainGet, WorkerMove 1] = Some ?s"
    by (simp add: do_action_def worker_move_def init_pool_def input_queue_of_def queue_put_def
        demo_suite_runs numeral_2_eq_2)
  moreover have "pool_blocked ?work ?s"
    by (simp add: pool_blocked_def do_action_def worker_move_def upt_rec)
  ultimately have "pool_reach ?work (init_pool [demo_suite] 2) ?s \<and> pool_blocked ?work ?s"
    by (blast intro: run_schedule_reach)
  then show ?thesis unfolding possible_answers_def by (intro exI [of _ ?s]) simp
qed

theorem exit_status_schedule_independent_witness:
  "\<exists>r. finish_run (\<lambda>s. Inl ValueError) demo_py_config default_options False (\<lambda>p. Some ''<Test/>'') 1 [demo_suite] =
      Inr r \<and> tr_status r = 0 \<and>
      list_all (job_succeeds demo_py_config (w_proc demo_world) default_options) [demo_suite]"
proof -
  let ?run = "finish_run (\<lambda>s. Inl ValueError) demo_py_config default_options False (\<lambda>p. Some ''<Test/>'')
    (length [demo_suite]) [demo_suite]"
  have skip: "\<not> is_skip demo_suite" and code: "returncode demo_suite = 0" and "\<not> is_break demo_suite"
    by (simp_all add: demo_suite_def default_options_def core_nsc_missing_skip_tests_def suite_job_def
        job_setters new_job_def Let_def)
  moreover have "\<not> is_example demo_suite" "\<not> is_pyexample demo_suite" by (simp_all add: demo_suite_def)
  ultimately have "is_ok ?run"
    by (simp add: finish_run_def collect_answers_def collect_answer_def xml_entry_def suite_entry_def
        Let_def write_reports_def default_options_def)
  then obtain r where r: "?run = Inr r" by (cases ?run) simp_all
  have py: "PYTHON demo_py_config \<noteq> []" by (simp add: demo_py_config_def)
  have "list_all (job_succeeds demo_py_config (w_proc demo_world) default_options) [demo_suite]"
    using demo_suite_runs code by (simp add: job_succeeds_def)
  with exit_status_schedule_independent [OF demo_dispatch _ py demo_suite_answers r] r show ?thesis by simp
qed

theorem listing_runs_nothing_witness:
  "run_tests demo_world (\<lambda>l c. Inr c) [] demo_files (\<lambda>s. Inl ValueError) (\<lambda>su js n. []) ''/o''
     (default_options\<lparr>opt_list := True\<rparr>) True \<notin> range (\<lambda>r. Inr (Ran r))"
  using listing_runs_nothing [of "default_options\<lparr>opt_list := True\<rparr>"] by auto

end
