(* ===== verification/Shlex.thy ===== *)
theory Shlex
  imports Py_Strings
begin

text \<open>
  \<open>shlex.split\<close> as \<^verbatim>\<open>shellcmd.py\<close> and \<^verbatim>\<open>wutils.py\<close> use it (POSIX rules, no comments): the
  scanner is a state machine over the characters, with the token read so far and whether it
  contains a quoted part. The lemma is the round trip with single-quoted words.
\<close>

datatype lex_state = LBegin | LWord | LQuote char | LEscape lex_state

definition lex_white :: "char \<Rightarrow> bool" where
  "lex_white c = (c \<in> {CHR '' '', CHR 0x09, CHR 0x0A, CHR 0x0D})"

definition lex_backslash :: char where "lex_backslash = CHR 0x5C"
definition lex_single :: char where "lex_single = CHR 0x27"
definition lex_double :: char where "lex_double = CHR 0x22"

definition is_quote :: "char \<Rightarrow> bool" where
  "is_quote c = (c = lex_single \<or> c = lex_double)"

fun shlex_from :: "lex_state \<Rightarrow> string \<Rightarrow> bool \<Rightarrow> string \<Rightarrow> string list res" where
  "shlex_from LBegin tok quoted [] = Inr []"
| "shlex_from LWord tok quoted [] = Inr (if tok = [] \<and> \<not> quoted then [] else [tok])"
| "shlex_from (LQuote q) tok quoted [] = Inl ValueError"
| "shlex_from (LEscape st) tok quoted [] = Inl ValueError"
| "shlex_from LBegin tok quoted (c # cs) =
     (if lex_white c then shlex_from LBegin tok quoted cs
      else if c = lex_backslash then shlex_from (LEscape LWord) tok quoted cs
      else if is_quote c then shlex_from (LQuote c) tok quoted cs
      else shlex_from LWord [c] quoted cs)"
| "shlex_from LWord tok quoted (c # cs) =
     (if lex_white c
      then (if tok = [] \<and> \<not> quoted then shlex_from LBegin [] False cs
            else bindE (shlex_from LBegin [] False cs) (\<lambda>ts. Inr (tok # ts)))
      else if is_quote c then shlex_from (LQuote c) tok quoted cs
      else if c = lex_backslash then shlex_from (LEscape LWord) tok quoted cs
      else shlex_from LWord (tok @ [c]) quoted cs)"
| "shlex_from (LQuote q) tok quoted (c # cs) =
     (if c = q then shlex_from LWord tok True cs
      else if c = lex_backslash \<and> q = lex_double then shlex_from (LEscape (LQuote q)) tok True cs
      else shlex_from (LQuote q) (tok @ [c]) True cs)"
| "shlex_from (LEscape st) tok quoted (c # cs) =
     (let keep = (case st of LQuote q \<Rightarrow> c \<noteq> lex_backslash \<and> c \<noteq> q | _ \<Rightarrow> False)
      in shlex_from st (tok @ (if keep then [lex_backslash] else []) @ [c]) quoted cs)"

definition shlex_split :: "string \<Rightarrow> string list res" where
  "shlex_split s = shlex_from LBegin [] False s"

text \<open>A word between single quotes; a single quote inside is written between double quotes.\<close>

fun quote_chars :: "string \<Rightarrow> string" where
  "quote_chars [] = []"
| "quote_chars (c # cs) =
     (if c = lex_single then [lex_single, lex_double, lex_single, lex_double, lex_single] else [c]) @ quote_chars cs"

definition shlex_quote :: "string \<Rightarrow> string" where
  "shlex_quote s = [lex_single] @ quote_chars s @ [lex_single]"

lemma lex_chars [simp]:
  "lex_single \<noteq> lex_double" "lex_double \<noteq> lex_single" "lex_single \<noteq> lex_backslash" "lex_double \<noteq> lex_backslash"
  "is_quote lex_single" "is_quote lex_double" "\<not> lex_white lex_single" "\<not> lex_white lex_double"
  "lex_white CHR '' ''" "\<not> is_quote CHR '' ''"
  by (simp_all add: lex_single_def lex_double_def lex_backslash_def is_quote_def lex_white_def)

lemma shlex_quoted_chars:
  "shlex_from (LQuote lex_single) tok True (quote_chars s @ lex_single # rest) =
     shlex_from LWord (tok @ s) True rest"
  by (induction s arbitrary: tok) simp_all

lemma shlex_quoted_word: "shlex_from LBegin [] False (shlex_quote s @ rest) = shlex_from LWord s True rest"
proof -
  have first: "shlex_from (LQuote lex_single) [] False (c # cs) = shlex_from (LQuote lex_single) [] True (c # cs)" for c cs
    by simp
  have "quote_chars s @ lex_single # rest = hd (quote_chars s @ [lex_single]) # tl (quote_chars s @ lex_single # rest)"
    by (cases "quote_chars s") simp_all
  then have "shlex_from (LQuote lex_single) [] False (quote_chars s @ lex_single # rest) =
      shlex_from (LQuote lex_single) [] True (quote_chars s @ lex_single # rest)"
    using first by metis
  then show ?thesis by (simp add: shlex_quote_def shlex_quoted_chars)
qed

lemma shlex_split_quoted: "shlex_split (py_join '' '' (map shlex_quote ws)) = Inr ws"
proof (induction ws)
  case Nil
  then show ?case by (simp add: shlex_split_def)
next
  case (Cons w ws)
  show ?case
  proof (cases ws)
    case Nil
    then show ?thesis using shlex_quoted_word [of w "[]"] by (simp add: shlex_split_def)
  next
    case (Cons v vs)
    then have "py_join '' '' (map shlex_quote (w # ws)) =
        shlex_quote w @ CHR '' '' # py_join '' '' (map shlex_quote ws)"
      by simp
    then show ?thesis
      using Cons.IH by (simp add: shlex_split_def shlex_quoted_word)
  qed
qed

text \<open>
  splitting undoes quoting: any list of words, with blanks, quotes or nothing in them, joined
  as single-quoted words with a space between, is split into those words again.
\<close>

theorem shlex_roundtrip: "shlex_split (py_join '' '' (map shlex_quote ws)) = Inr ws"
  by (rule shlex_split_quoted)

end
