(* ===== verification/Wutils_Run.thy ===== *)
theory Wutils_Run
  imports Wutils_Path Shlex
begin

text \<open>
  The runners of \<^verbatim>\<open>wutils.py\<close>: finding a program among the build's task generators, the
  environment of its process, the command line it is started with and what its exit status turns
  into. The objects of waf (options, task generators, build environment), the processes and the
  names of the signals are parameters, collected in one record.
\<close>

section \<open>The world of a waf command\<close>

record program_obj =
  is_ns3_program :: bool
  obj_name :: string
  obj_dir :: string \<comment> \<open>\<open>obj.path.abspath()\<close>\<close>
  obj_build_dir :: string \<comment> \<open>\<open>obj.path.get_bld().abspath()\<close>\<close>
  obj_target :: string \<comment> \<open>\<open>obj.path.find_or_declare(obj.target).abspath()\<close>\<close>

record waf_world =
  ww_cwd :: string
  ww_launch_dir :: string
  ww_platform :: string
  ww_windows :: bool
  ww_pathsep :: char
  ww_environ :: "(string, string) dict"
  ww_all_task_gen :: "program_obj list"
  ww_module_path :: "string list"
  ww_executable_path :: "string list"
  ww_pymoddir :: string
  ww_pyvizdir :: string
  ww_valgrind :: "string list"
  ww_python :: "string list"
  ww_signals :: "(string \<times> int) list"
  ww_popen :: "string list \<Rightarrow> (string, string) dict \<Rightarrow> string option \<Rightarrow> (int \<times> string option) res"

record waf_options =
  wo_gdb :: bool
  wo_valgrind :: bool
  wo_command_template :: "string option"
  wo_cwd_launch :: string

datatype value_error = ProgramNotFound string "string list" | NoPathGiven

datatype waf_error =
    Conflicting string string
  | ValgrindMissing
  | PopenFailed "string list"
  | Terminated "string list" string
  | ExitedWith "string list" int
  | NotAvailable value_error

datatype run_error = WafError waf_error | Raised py_error

definition raised :: "'a res \<Rightarrow> run_error + 'a" where
  "raised m = (case m of Inl e \<Rightarrow> Inl (Raised e) | Inr x \<Rightarrow> Inr x)"

section \<open>Finding a program\<close>

definition program_names :: "waf_world \<Rightarrow> program_obj \<Rightarrow> value_error + string list" where
  "program_names w obj =
     (case os_relpath (ww_cwd w) (obj_dir obj) (abspath (ww_cwd w) (ww_launch_dir w)) of
        Inl _ \<Rightarrow> Inl NoPathGiven
      | Inr rel \<Rightarrow> Inr [obj_name obj, path_join rel (obj_name obj)])"

definition below_launch_dir :: "waf_world \<Rightarrow> program_obj \<Rightarrow> bool" where
  "below_launch_dir w obj =
     (let launch_dir = abspath (ww_cwd w) (ww_launch_dir w)
      in prefix launch_dir (obj_dir obj) \<or> prefix launch_dir (obj_build_dir obj))"

fun find_in :: "waf_world \<Rightarrow> string \<Rightarrow> string list \<Rightarrow> program_obj list \<Rightarrow> value_error + program_obj" where
  "find_in w program_name found_programs [] = Inl (ProgramNotFound program_name found_programs)"
| "find_in w program_name found_programs (obj # objs) =
     (if \<not> is_ns3_program obj then find_in w program_name found_programs objs
      else if \<not> below_launch_dir w obj then find_in w program_name found_programs objs
      else bindE (program_names w obj) (\<lambda>names.
           if program_name \<in> set names then Inr obj
           else find_in w program_name (found_programs @ names) objs))"

definition find_program :: "waf_world \<Rightarrow> string \<Rightarrow> value_error + program_obj" where
  "find_program w program_name = find_in w program_name [] (ww_all_task_gen w)"

section \<open>The environment of a process\<close>

definition env_update :: "(string, string) dict \<Rightarrow> (string, string) dict \<Rightarrow> (string, string) dict" where
  "env_update env d = foldl (\<lambda>e (k, v). dict_set k v e) env d"

definition path_variable :: "string \<Rightarrow> string" where
  "path_variable platform =
     (if platform = ''linux2'' \<or> platform = ''linux'' then ''LD_LIBRARY_PATH''
      else if platform = ''darwin'' then ''DYLD_LIBRARY_PATH''
      else if platform = ''win32'' then ''PATH''
      else if platform = ''cygwin'' then ''PATH''
      else if prefix ''freebsd'' platform then ''LD_LIBRARY_PATH''
      else ''LD_LIBRARY_PATH'')"

definition put_before :: "char \<Rightarrow> string \<Rightarrow> string list \<Rightarrow> (string, string) dict \<Rightarrow> (string, string) dict" where
  \<comment> \<open>\<open>env[key] = os.pathsep.join(dirs + [env[key]])\<close>, or without the old value\<close>
  "put_before sep key dirs env =
     dict_set key (py_join [sep] (dirs @ (case dict_get env key of Some old \<Rightarrow> [old] | None \<Rightarrow> []))) env"

definition get_proc_env :: "waf_world \<Rightarrow> (string, string) dict option \<Rightarrow> (string, string) dict" where
  "get_proc_env w os_env =
     (let pathvar = path_variable (ww_platform w);
          proc_env0 = (case os_env of None \<Rightarrow> ww_environ w | Some d \<Rightarrow> env_update (ww_environ w) d);
          proc_env1 = put_before (ww_pathsep w) pathvar (ww_module_path w) proc_env0;
          proc_env2 = put_before (ww_pathsep w) ''PYTHONPATH'' [ww_pymoddir w, ww_pyvizdir w] proc_env1
      in put_before (ww_pathsep w) ''PATH'' (ww_executable_path w) proc_env2)"

section \<open>Starting a process\<close>

definition template_given :: "waf_options \<Rightarrow> bool" where
  "template_given o' = (case wo_command_template o' of None \<Rightarrow> False | Some t \<Rightarrow> t \<noteq> [])"

definition signal_name :: "(string \<times> int) list \<Rightarrow> int \<Rightarrow> string option" where
  "signal_name sigs retval =
     map_option fst (find (\<lambda>(nm, val). 3 < length nm \<and> take 3 nm = ''SIG'' \<and> nm ! 3 \<noteq> CHR ''_'' \<and> val = - retval) sigs)"

definition check_retval :: "waf_world \<Rightarrow> string list \<Rightarrow> int \<Rightarrow> run_error + int" where
  "check_retval w argv retval =
     (if retval \<noteq> 0 then
        (case (if retval < 0 then signal_name (ww_signals w) retval else None) of
           Some signame \<Rightarrow> Inl (WafError (Terminated argv signame))
         | None \<Rightarrow> Inl (WafError (ExitedWith argv retval)))
      else Inr retval)"

text \<open>
  The loop \<open>for line in stderrdata\<close> runs over the characters of the decoded text, not over its
  lines.
\<close>

definition leak_summary_seen :: "string \<Rightarrow> bool" where
  "leak_summary_seen stderrdata = list_ex (\<lambda>line. py_contains ''== LEAK SUMMARY'' line) (map (\<lambda>c. [c]) stderrdata)"

definition run_under_valgrind ::
    "waf_world \<Rightarrow> (string, string) dict \<Rightarrow> string list \<Rightarrow> string option \<Rightarrow> run_error + int" where
  "run_under_valgrind w proc_env argv cwd =
     (case ww_valgrind w of
        [] \<Rightarrow> Inl (WafError ValgrindMissing)
      | vg # _ \<Rightarrow>
          (let argv' = [vg, ''--leak-check=full'', ''--show-reachable=yes'', ''--error-exitcode=1''] @ argv
           in bindE (raised (ww_popen w argv' proc_env cwd)) (\<lambda>(rc, err).
              case err of
                None \<Rightarrow> Inl (Raised ValueError)
              | Some stderrdata \<Rightarrow>
                  let retval = (if rc = 0 \<and> leak_summary_seen stderrdata then 1 else rc)
                  in check_retval w argv' retval)))"

definition run_directly ::
    "waf_world \<Rightarrow> (string, string) dict \<Rightarrow> string list \<Rightarrow> string option \<Rightarrow> run_error + int" where
  "run_directly w proc_env argv cwd =
     (case ww_popen w argv proc_env cwd of
        Inl e \<Rightarrow> if ww_windows w \<and> e = OSError then Inl (WafError (PopenFailed argv)) else Inl (Raised e)
      | Inr (rc, err) \<Rightarrow> check_retval w argv rc)"

definition run_argv ::
    "waf_world \<Rightarrow> waf_options \<Rightarrow> string list \<Rightarrow> (string, string) dict option \<Rightarrow> string option \<Rightarrow> bool \<Rightarrow>
       run_error + int" where
  "run_argv w o' argv os_env cwd force_no_valgrind =
     (let proc_env = get_proc_env w os_env in
      if wo_valgrind o' \<and> template_given o' then Inl (WafError (Conflicting ''--command-template'' ''--valgrind''))
      else if wo_gdb o' \<and> template_given o' then Inl (WafError (Conflicting ''--command-template'' ''--gdb''))
      else if wo_gdb o' \<and> wo_valgrind o' then Inl (WafError (Conflicting ''--gdb'' ''--valgrind''))
      else if wo_gdb o' then
        bindE (raised (ww_popen w ([''gdb'', ''--args''] @ argv) proc_env cwd)) (\<lambda>(rc, err). Inr rc)
      else if wo_valgrind o' \<and> \<not> force_no_valgrind then run_under_valgrind w proc_env argv cwd
      else run_directly w proc_env argv cwd)"

section \<open>The command line of a program\<close>

definition strip_cc :: "string \<Rightarrow> string" where
  \<comment> \<open>\<open>program_name.rsplit('.', 1)[0]\<close> when the name ends with \<open>.cc\<close>\<close>
  "strip_cc nm = (if suffix ''.cc'' nm then take (length nm - 3) nm else nm)"

text \<open>
  \<open>template % (path,)\<close> for the conversions the templates use, \<open>%s\<close> and \<open>%%\<close>; the argument is gone
  once it has been inserted. Any other conversion is counted as an error.
\<close>

fun percent_format :: "string \<Rightarrow> string option \<Rightarrow> string res" where
  "percent_format [] None = Inr []"
| "percent_format [] (Some a) = Inl TypeError"
| "percent_format [c] a =
     (if c = CHR ''%'' then Inl ValueError else bindE (percent_format [] a) (\<lambda>r. Inr (c # r)))"
| "percent_format (c # d # cs) a =
     (if c \<noteq> CHR ''%'' then bindE (percent_format (d # cs) a) (\<lambda>r. Inr (c # r))
      else if d = CHR ''%'' then bindE (percent_format cs a) (\<lambda>r. Inr (d # r))
      else if d = CHR ''s'' then
        (case a of None \<Rightarrow> Inl TypeError | Some v \<Rightarrow> bindE (percent_format cs None) (\<lambda>r. Inr (v @ r)))
      else Inl ValueError)"

definition double_backslashes :: "string \<Rightarrow> string" where
  "double_backslashes s = concat (map (\<lambda>c. if c = lex_backslash then [c, c] else [c]) s)"

definition program_of :: "waf_world \<Rightarrow> string \<Rightarrow> run_error + program_obj" where
  "program_of w program_name =
     (case find_program w program_name of Inl ex \<Rightarrow> Inl (WafError (NotAvailable ex)) | Inr obj \<Rightarrow> Inr obj)"

definition get_run_program ::
    "waf_world \<Rightarrow> string \<Rightarrow> string option \<Rightarrow> run_error + string \<times> string list" where
  "get_run_program w program_string command_template =
     (if command_template = None \<or> command_template = Some ''%s'' then
        bindE (raised (shlex_split program_string)) (\<lambda>argv.
        case argv of
          [] \<Rightarrow> Inl (Raised IndexError)
        | a # args \<Rightarrow>
            let program_name = strip_cc a
            in bindE (program_of w program_name) (\<lambda>obj. Inr (program_name, obj_target obj # args)))
      else
        let program_name = strip_cc program_string
        in bindE (program_of w program_name) (\<lambda>obj.
           bindE (raised (percent_format (the command_template) (Some (obj_target obj)))) (\<lambda>tmpl.
           bindE (raised (shlex_split (double_backslashes tmpl))) (\<lambda>execvec.
           Inr (program_name, execvec)))))"

definition visualize_arg :: "bool \<Rightarrow> string list" where
  "visualize_arg v = (if v then [''--SimulatorImplementationType=ns3::VisualSimulatorImpl''] else [])"

definition launch_cwd :: "waf_options \<Rightarrow> string \<Rightarrow> string" where
  \<comment> \<open>\<open>Options.options.cwd_launch\<close> unless it is empty, else \<open>Options.cwd_launch\<close>\<close>
  "launch_cwd o' module_cwd = (if wo_cwd_launch o' \<noteq> [] then wo_cwd_launch o' else module_cwd)"

definition run_program ::
    "waf_world \<Rightarrow> waf_options \<Rightarrow> string \<Rightarrow> string \<Rightarrow> string option \<Rightarrow> string option \<Rightarrow> bool \<Rightarrow> run_error + int" where
  "run_program w o' module_cwd program_string command_template cwd visualize =
     bindE (get_run_program w program_string command_template) (\<lambda>(dummy_program_name, execvec).
     let cwd' = (case cwd of None \<Rightarrow> launch_cwd o' module_cwd | Some d \<Rightarrow> d)
     in run_argv w o' (execvec @ visualize_arg visualize) None (Some cwd') False)"

definition run_python_program ::
    "waf_world \<Rightarrow> waf_options \<Rightarrow> string \<Rightarrow> string \<Rightarrow> bool \<Rightarrow> run_error + int" where
  "run_python_program w o' module_cwd program_string visualize =
     bindE (raised (shlex_split program_string)) (\<lambda>execvec.
     case ww_python w of
       [] \<Rightarrow> Inl (Raised IndexError)
     | py # _ \<Rightarrow> run_argv w o' ([py] @ execvec @ visualize_arg visualize) None (Some (launch_cwd o' module_cwd)) False)"

section \<open>Lemmas\<close>

lemma no_leak_summary: "\<not> leak_summary_seen stderrdata"
proof -
  have "\<not> py_contains ''== LEAK SUMMARY'' [c]" for c
    using sublist_length_le [of "''== LEAK SUMMARY''" "[c]"] by (auto simp: py_contains_sublist)
  then show ?thesis by (auto simp: leak_summary_seen_def list_ex_iff)
qed

lemma check_retval_Inr: "check_retval w argv rc = Inr r \<longleftrightarrow> rc = 0 \<and> r = 0"
  by (auto simp: check_retval_def split: option.splits)

lemma raised_Inr [simp]: "raised m = Inr x \<longleftrightarrow> m = Inr x"
  by (cases m) (auto simp: raised_def)

lemma put_before_get:
  "dict_get (put_before sep key dirs env) k =
     (if k = key then Some (py_join [sep] (dirs @ (case dict_get env key of Some old \<Rightarrow> [old] | None \<Rightarrow> [])))
      else dict_get env k)"
  by (simp add: put_before_def dict_get_set)

lemma path_variable_cases:
  "path_variable platform \<in> {''LD_LIBRARY_PATH'', ''DYLD_LIBRARY_PATH'', ''PATH''}"
  by (simp add: path_variable_def)

lemma find_in_sound:
  "find_in w nm found objs = Inr obj \<Longrightarrow>
   obj \<in> set objs \<and> is_ns3_program obj \<and> below_launch_dir w obj \<and> (\<exists>names. program_names w obj = Inr names \<and> nm \<in> set names)"
  by (induction w nm found objs rule: find_in.induct) (auto simp: bindE_Inr_conv split: if_splits)

text \<open>A word without blanks and quotes is one token, and a doubled backslash is one backslash.\<close>

definition plain_word :: "string \<Rightarrow> bool" where
  "plain_word s = (s \<noteq> [] \<and> list_all (\<lambda>c. \<not> lex_white c \<and> \<not> is_quote c) s)"

lemma backslash_chars [simp]: "\<not> lex_white lex_backslash" "\<not> is_quote lex_backslash"
  by (simp_all add: lex_white_def is_quote_def lex_backslash_def lex_single_def lex_double_def)

lemma lex_rest_of_word:
  "list_all (\<lambda>c. \<not> lex_white c \<and> \<not> is_quote c) s \<Longrightarrow>
   shlex_from LWord tok False (double_backslashes s @ rest) = shlex_from LWord (tok @ s) False rest"
  by (induction s arbitrary: tok) (auto simp: double_backslashes_def)

lemma lex_word:
  "plain_word s \<Longrightarrow> shlex_from LBegin [] False (double_backslashes s @ rest) = shlex_from LWord s False rest"
proof (cases s)
  case (Cons c cs)
  assume "plain_word s"
  then have c: "\<not> lex_white c" "\<not> is_quote c" and cs: "list_all (\<lambda>c. \<not> lex_white c \<and> \<not> is_quote c) cs"
    using Cons by (auto simp: plain_word_def)
  have "double_backslashes s @ rest = (if c = lex_backslash then [c, c] else [c]) @ double_backslashes cs @ rest"
    by (simp add: Cons double_backslashes_def)
  then show ?thesis using c lex_rest_of_word [OF cs, of "[c]" rest] by (cases "c = lex_backslash") (simp_all add: Cons)
qed (simp add: plain_word_def)

lemma lex_words:
  "list_all plain_word ws \<Longrightarrow> shlex_split (double_backslashes (py_join '' '' ws)) = Inr ws"
proof (induction ws)
  case Nil
  then show ?case by (simp add: shlex_split_def double_backslashes_def)
next
  case (Cons w ws)
  then have w: "plain_word w" by simp
  show ?case
  proof (cases ws)
    case Nil
    then show ?thesis
      using lex_word [OF w, of "[]"] w by (simp add: shlex_split_def plain_word_def)
  next
    case (Cons v vs)
    have sp: "CHR '' '' \<noteq> lex_backslash" by (simp add: lex_backslash_def)
    have "double_backslashes (py_join '' '' (w # ws)) = double_backslashes w @ CHR '' '' # double_backslashes (py_join '' '' ws)"
      using Cons sp by (simp add: double_backslashes_def)
    then show ?thesis
      using lex_word [OF w, of "CHR '' '' # double_backslashes (py_join '' '' ws)"] w Cons.IH Cons.prems
      by (simp add: shlex_split_def plain_word_def)
  qed
qed

lemma percent_plain: "CHR ''%'' \<notin> set s \<Longrightarrow> percent_format s None = Inr s"
proof (induction s)
  case (Cons c s)
  then show ?case by (cases s) auto
qed simp

lemma percent_s: "CHR ''%'' \<notin> set s \<Longrightarrow> percent_format (CHR ''%'' # CHR ''s'' # s) (Some v) = Inr (v @ s)"
  by (simp add: percent_plain)

lemma command_template_join:
  "get_command_template [] args = py_join '' '' (''%s'' # args)"
proof -
  have "foldl (\<lambda>cmd arg. cmd @ '' '' @ arg) c args = c @ concat (map (\<lambda>a. '' '' @ a) args)" for c
    by (induction args arbitrary: c) simp_all
  moreover have "py_join '' '' (c # args) = c @ concat (map (\<lambda>a. '' '' @ a) args)" for c
  proof (induction args arbitrary: c)
    case (Cons a args)
    then show ?case by (simp add: py_join_Cons)
  qed simp
  ultimately show ?thesis by (simp add: get_command_template_def)
qed

lemma join_percent: "list_all (\<lambda>a. CHR ''%'' \<notin> set a) args \<Longrightarrow> CHR ''%'' \<notin> set (py_join '' '' args)"
proof (induction args)
  case (Cons a args)
  then show ?case by (cases args) auto
qed simp

lemma template_split:
  assumes "args \<noteq> []" and "list_all (\<lambda>a. CHR ''%'' \<notin> set a) args"
  shows "percent_format (get_command_template [] args) (Some v) = Inr (py_join '' '' (v # args))"
proof -
  have "get_command_template [] args = CHR ''%'' # CHR ''s'' # CHR '' '' # py_join '' '' args"
    using assms(1) by (simp add: command_template_join py_join_Cons)
  moreover have "CHR ''%'' \<notin> set (CHR '' '' # py_join '' '' args)" using join_percent [OF assms(2)] by simp
  ultimately show ?thesis using assms(1) percent_s by (simp add: py_join_Cons)
qed

section \<open>Properties\<close>

text \<open>
  Unless the debugger was asked for, \<open>run_argv\<close> returns 0 or raises; and under valgrind the text
  of the report changes nothing: the search for the leak summary looks at single characters, so a
  program that leaks and exits with 0 counts as a success, although the code means to return 1.
\<close>

theorem run_argv_success:
  assumes "run_argv w o' argv os_env cwd force = Inr r" and "\<not> wo_gdb o'"
  shows "r = 0 \<and> (\<exists>argv' report. ww_popen w argv' (get_proc_env w os_env) cwd = Inr (0, report) \<and>
     (wo_valgrind o' \<and> \<not> force \<longrightarrow> (\<forall>report'.
        run_argv (w\<lparr>ww_popen := \<lambda>a e d. Inr (0, Some report')\<rparr>) o' argv os_env cwd force = Inr 0)))"
proof -
  have env: "get_proc_env (w\<lparr>ww_popen := f\<rparr>) os_env = get_proc_env w os_env" for f
    by (cases os_env) (simp_all add: get_proc_env_def)
  show ?thesis
  proof (cases "wo_valgrind o' \<and> \<not> force")
    case True
    then have r: "run_under_valgrind w (get_proc_env w os_env) argv cwd = Inr r" and t: "\<not> template_given o'"
      using assms by (auto simp: run_argv_def Let_def split: if_splits)
    then obtain vg vgs where vg: "ww_valgrind w = vg # vgs" by (auto simp: run_under_valgrind_def split: list.splits)
    have "run_argv (w\<lparr>ww_popen := \<lambda>a e d. Inr (0, Some report')\<rparr>) o' argv os_env cwd force = Inr 0" for report'
      using True t assms(2) vg
      by (simp add: run_argv_def Let_def run_under_valgrind_def raised_def no_leak_summary check_retval_def)
    with r vg show ?thesis
      by (auto simp: run_under_valgrind_def bindE_Inr_conv check_retval_Inr no_leak_summary Let_def split: option.splits)
  next
    case False
    then have "run_directly w (get_proc_env w os_env) argv cwd = Inr r"
      using assms by (auto simp: run_argv_def Let_def split: if_splits)
    then obtain report where "ww_popen w argv (get_proc_env w os_env) cwd = Inr (0, report)" and "r = 0"
      by (auto simp: run_directly_def check_retval_Inr split: sum.splits if_splits)
    then show ?thesis using False by blast
  qed
qed

definition demo_waf :: waf_world where
  "demo_waf =
     \<lparr> ww_cwd = ''/r'', ww_launch_dir = ''/r'', ww_platform = ''linux'', ww_windows = False, ww_pathsep = CHR '':'',
       ww_environ = [(''PATH'', ''/bin'')],
       ww_all_task_gen = [\<lparr> is_ns3_program = True, obj_name = ''udp-echo'', obj_dir = ''/r/examples/udp'',
                            obj_build_dir = ''/r/build/examples/udp'', obj_target = ''/r/build/ns3-udp-echo'' \<rparr>],
       ww_module_path = [''/r/build/lib''], ww_executable_path = [''/r/build/bin''], ww_pymoddir = ''/r/build/py'',
       ww_pyvizdir = ''/r/viz'', ww_valgrind = [''valgrind''], ww_python = [''python''], ww_signals = [(''SIGSEGV'', 11)],
       ww_popen = \<lambda>argv env cwd. Inr (0, Some ''== LEAK SUMMARY'') \<rparr>"

definition demo_waf_options :: waf_options where
  "demo_waf_options = \<lparr> wo_gdb = False, wo_valgrind = True, wo_command_template = None, wo_cwd_launch = ''/r'' \<rparr>"

theorem run_argv_success_witness:
  "run_argv demo_waf demo_waf_options [''/r/build/ns3-udp-echo''] None None False = Inr 0 \<and>
   run_argv (demo_waf\<lparr>ww_popen := \<lambda>a e d. Inr (0, Some ''clean'')\<rparr>) demo_waf_options [''/r/build/ns3-udp-echo''] None None False = Inr 0"
proof -
  have "run_argv demo_waf demo_waf_options [''/r/build/ns3-udp-echo''] None None False = Inr 0"
    by (simp add: run_argv_def demo_waf_def demo_waf_options_def template_given_def run_under_valgrind_def raised_def
        no_leak_summary check_retval_def Let_def)
  moreover have "\<not> wo_gdb demo_waf_options" "wo_valgrind demo_waf_options \<and> \<not> False"
    by (simp_all add: demo_waf_options_def)
  ultimately show ?thesis
    using run_argv_success [of demo_waf demo_waf_options "[''/r/build/ns3-udp-echo'']" None None False 0] by blast
qed

text \<open>
  The environment of a process: the loader path of the platform, \<^verbatim>\<open>PYTHONPATH\<close> and \<^verbatim>\<open>PATH\<close> get
  the directories of the build in front of the value they had, where they had one, in this order
  when the loader path is \<^verbatim>\<open>PATH\<close> itself; every other variable is inherited or replaced by the caller.
\<close>

theorem proc_env_paths:
  "dict_get (get_proc_env w os_env) k =
     (let env0 = (case os_env of None \<Rightarrow> ww_environ w | Some d \<Rightarrow> env_update (ww_environ w) d);
          old = (case dict_get env0 k of Some v \<Rightarrow> [v] | None \<Rightarrow> []);
          join = py_join [ww_pathsep w];
          pathvar = path_variable (ww_platform w)
      in if k = ''PYTHONPATH'' then Some (join ([ww_pymoddir w, ww_pyvizdir w] @ old))
         else if k = ''PATH'' \<and> pathvar = ''PATH''
         then Some (join (ww_executable_path w @ [join (ww_module_path w @ old)]))
         else if k = ''PATH'' then Some (join (ww_executable_path w @ old))
         else if k = pathvar then Some (join (ww_module_path w @ old))
         else dict_get env0 k)"
  using path_variable_cases [of "ww_platform w"]
  by (auto simp: get_proc_env_def Let_def put_before_get)

text \<open>
  The command line. A program that is found is an ns-3 program below the launch directory with that
  name or that relative path; its executable replaces the name and the quoted arguments arrive as
  they were. With a template of arguments appended to \<open>%s\<close> the executable and these arguments
  arrive unchanged too, backslashes included, as long as they hold no blank and no quote.
\<close>

theorem run_program_command:
  assumes "find_program w (strip_cc nm) = Inr obj"
    and "list_all plain_word (obj_target obj # args)" and "list_all (\<lambda>a. CHR ''%'' \<notin> set a) args" and "args \<noteq> []"
  shows "get_run_program w (py_join '' '' (map shlex_quote (nm # any))) None = Inr (strip_cc nm, obj_target obj # any) \<and>
     get_run_program w nm (Some (get_command_template [] args)) = Inr (strip_cc nm, obj_target obj # args) \<and>
     is_ns3_program obj \<and> below_launch_dir w obj \<and>
     (\<exists>names. program_names w obj = Inr names \<and> strip_cc nm \<in> set names)"
proof -
  have p: "program_of w (strip_cc nm) = Inr obj" using assms(1) by (simp add: program_of_def)
  have "get_command_template [] args \<noteq> ''%s''"
    using assms(4) by (cases args) (auto simp: command_template_join py_join_Cons)
  moreover have "percent_format (get_command_template [] args) (Some (obj_target obj)) = Inr (py_join '' '' (obj_target obj # args))"
    by (rule template_split [OF assms(4,3)])
  moreover have "shlex_split (double_backslashes (py_join '' '' (obj_target obj # args))) = Inr (obj_target obj # args)"
    by (rule lex_words [OF assms(2)])
  ultimately have "get_run_program w nm (Some (get_command_template [] args)) = Inr (strip_cc nm, obj_target obj # args)"
    using p by (simp add: get_run_program_def raised_def Let_def del: py_join.simps)
  moreover have "get_run_program w (py_join '' '' (map shlex_quote (nm # any))) None = Inr (strip_cc nm, obj_target obj # any)"
    using p shlex_split_quoted [of "nm # any"] by (simp add: get_run_program_def raised_def Let_def del: py_join.simps list.map)
  ultimately show ?thesis using find_in_sound [OF assms(1) [unfolded find_program_def]] by blast
qed

theorem run_program_command_witness:
  "get_run_program demo_waf ''examples/udp/udp-echo.cc'' (Some ''%s --n=1'') =
     Inr (''examples/udp/udp-echo'', [''/r/build/ns3-udp-echo'', ''--n=1''])"
proof -
  have f: "find_program demo_waf (strip_cc ''examples/udp/udp-echo.cc'') = Inr (hd (ww_all_task_gen demo_waf))"
    by code_simp
  have "list_all plain_word (obj_target (hd (ww_all_task_gen demo_waf)) # [''--n=1''])"
    "list_all (\<lambda>a. CHR ''%'' \<notin> set a) [''--n=1'']" "[''--n=1''] \<noteq> []"
    by code_simp+
  from run_program_command [OF f this]
  have "get_run_program demo_waf ''examples/udp/udp-echo.cc'' (Some (get_command_template [] [''--n=1''])) =
      Inr (strip_cc ''examples/udp/udp-echo.cc'', obj_target (hd (ww_all_task_gen demo_waf)) # [''--n=1''])"
    by blast
  moreover have "get_command_template [] [''--n=1''] = ''%s --n=1''"
    "strip_cc ''examples/udp/udp-echo.cc'' = ''examples/udp/udp-echo''"
    "obj_target (hd (ww_all_task_gen demo_waf)) = ''/r/build/ns3-udp-echo''"
    by code_simp+
  ultimately show ?thesis by simp
qed

end
