(* ===== verification/Shell_Parse.thy ===== *)
theory Shell_Parse
  imports Shlex
begin

text \<open>
  \<^verbatim>\<open>waf-tools/shellcmd.py\<close>, the parser: \<open>Pipeline.parse\<close> is a machine of six states over the
  tokens, building a list of commands, directory changes and operators; its assertions are errors.
  The lemmas say which lists a successful parse can return, and that a pipeline in canonical form
  is read back from its tokens.
\<close>

section \<open>Nodes\<close>

text \<open>Where an output stream goes: inherited, the constants \<open>PIPE\<close> and \<open>STDOUT\<close>, or a file.\<close>

datatype redirect = Inherit | ToPipe | ToStdout | ToFile string

record command =
  cmd_name :: string
  cmd_argv :: "string list"
  cmd_stdin :: "string option"
  cmd_stdout :: redirect
  cmd_stderr :: redirect
  cmd_env_vars :: "(string, string) dict option"

definition new_command :: "string \<Rightarrow> command" where
  "new_command name =
     \<lparr> cmd_name = name, cmd_argv = [name], cmd_stdin = None, cmd_stdout = Inherit, cmd_stderr = Inherit,
       cmd_env_vars = None \<rparr>"

datatype node = NCommand command | NChdir "string option" | NPipe | NAnd | NOr

text \<open>
  \<open>get_abbreviated_command\<close>. The last branch of the code tests for \<open>And\<close> a second time, so an
  \<open>Or\<close> contributes nothing.
\<close>

definition abbreviate :: "node \<Rightarrow> string list" where
  "abbreviate n =
     (case n of
        NCommand c \<Rightarrow> [cmd_name c]
      | NChdir d \<Rightarrow> [''cd '' @ (case d of None \<Rightarrow> ''None'' | Some s \<Rightarrow> s)]
      | NPipe \<Rightarrow> [''|'']
      | NAnd \<Rightarrow> [''&&'']
      | NOr \<Rightarrow> [])"

definition get_abbreviated_command :: "node list \<Rightarrow> string" where
  "get_abbreviated_command pipeline = py_join '' '' (concat (map abbreviate pipeline))"

section \<open>The parser\<close>

definition word_char :: "char \<Rightarrow> bool" where
  "word_char c = (is_digit c \<or> (CHR ''a'' \<le> c \<and> c \<le> CHR ''z'') \<or> (CHR ''A'' \<le> c \<and> c \<le> CHR ''Z'') \<or> c = CHR ''_'')"

definition chomp :: "string \<Rightarrow> string" where
  \<comment> \<open>\<open>$\<close> also matches in front of a final line break\<close>
  "chomp s = (if s \<noteq> [] \<and> last s = newline then butlast s else s)"

definition env_var_match :: "string \<Rightarrow> (string \<times> string) option" where
  \<comment> \<open>the groups of \<open>^([a-zA-Z0-9_]+)=(\S+)$\<close>\<close>
  "env_var_match token =
     (case py_split1 CHR ''='' token of
        [k, v] \<Rightarrow> (if k \<noteq> [] \<and> list_all word_char k \<and> chomp v \<noteq> [] \<and> list_all (\<lambda>c. \<not> py_space c) (chomp v)
                  then Some (k, chomp v) else None)
      | _ \<Rightarrow> None)"

datatype parse_state = BEGIN_S | COMMAND_S | CHDIR_S | STDERR_S | STDOUT_S | STDIN_S

record parser =
  p_state :: parse_state
  p_current :: "node option"
  p_pipeline :: "node list"
  p_env_vars :: "(string, string) dict"

definition init_parser :: parser where
  "init_parser = \<lparr> p_state = BEGIN_S, p_current = None, p_pipeline = [], p_env_vars = [] \<rparr>"

definition py_assert :: "bool \<Rightarrow> unit res" where
  "py_assert b = (if b then Inr () else Inl AssertionError)"

definition commit_command :: "parser \<Rightarrow> parser res" where
  "commit_command p =
     (case p_current p of
        None \<Rightarrow> Inl AssertionError
      | Some n \<Rightarrow> Inr (p\<lparr>p_pipeline := p_pipeline p @ [n], p_current := None\<rparr>))"

definition current_command :: "parser \<Rightarrow> command res" where
  "current_command p = (case p_current p of Some (NCommand c) \<Rightarrow> Inr c | _ \<Rightarrow> Inl AttributeError)"

definition commit_op :: "node \<Rightarrow> parser \<Rightarrow> parser res" where
  \<comment> \<open>\<open>_commit_command\<close>, append the operator, back to \<open>BEGIN\<close>\<close>
  "commit_op op p =
     bindE (commit_command p) (\<lambda>p'. Inr (p'\<lparr>p_pipeline := p_pipeline p' @ [op], p_state := BEGIN_S\<rparr>))"

definition token_begin :: "parser \<Rightarrow> string \<Rightarrow> parser res" where
  "token_begin p token =
     (case env_var_match token of
        Some (k, v) \<Rightarrow> Inr (p\<lparr>p_env_vars := dict_set k v (p_env_vars p)\<rparr>)
      | None \<Rightarrow>
          bindE (py_assert (p_current p = None)) (\<lambda>_.
          if token = ''cd'' then
            bindE (py_assert (p_env_vars p = [])) (\<lambda>_.
            Inr (p\<lparr>p_current := Some (NChdir None), p_state := CHDIR_S\<rparr>))
          else if p_env_vars p \<noteq> [] then
            Inr (p\<lparr>p_current := Some (NCommand ((new_command token)\<lparr>cmd_env_vars := Some (p_env_vars p)\<rparr>)),
                   p_env_vars := [], p_state := COMMAND_S\<rparr>)
          else Inr (p\<lparr>p_current := Some (NCommand (new_command token)), p_state := COMMAND_S\<rparr>)))"

definition token_command :: "parser \<Rightarrow> string \<Rightarrow> parser res" where
  "token_command p token =
     bindE (current_command p) (\<lambda>c.
     if token = ''>'' then Inr (p\<lparr>p_state := STDOUT_S\<rparr>)
     else if token = ''2>'' then Inr (p\<lparr>p_state := STDERR_S\<rparr>)
     else if token = ''2>&1'' then
       bindE (py_assert (cmd_stderr c = Inherit)) (\<lambda>_.
       Inr (p\<lparr>p_current := Some (NCommand (c\<lparr>cmd_stderr := ToStdout\<rparr>))\<rparr>))
     else if token = ''<'' then Inr (p\<lparr>p_state := STDIN_S\<rparr>)
     else if token = ''|'' then
       bindE (py_assert (cmd_stdout c = Inherit)) (\<lambda>_.
       commit_op NPipe (p\<lparr>p_current := Some (NCommand (c\<lparr>cmd_stdout := ToPipe\<rparr>))\<rparr>))
     else if token = ''&&'' then commit_op NAnd p
     else if token = ''||'' then commit_op NOr p
     else Inr (p\<lparr>p_current := Some (NCommand (c\<lparr>cmd_argv := cmd_argv c @ [token]\<rparr>))\<rparr>))"

definition token_chdir :: "parser \<Rightarrow> string \<Rightarrow> parser res" where
  "token_chdir p token =
     (if token = ''&&'' then commit_op NAnd p
      else (case p_current p of
              Some (NChdir None) \<Rightarrow> Inr (p\<lparr>p_current := Some (NChdir (Some token))\<rparr>)
            | Some (NChdir (Some d)) \<Rightarrow> Inl AssertionError
            | _ \<Rightarrow> Inl AttributeError))"

definition token_redirect :: "parser \<Rightarrow> string \<Rightarrow> parser res" where
  "token_redirect p token =
     bindE (current_command p) (\<lambda>c.
     case p_state p of
       STDOUT_S \<Rightarrow>
         bindE (py_assert (cmd_stdout c = Inherit)) (\<lambda>_.
         Inr (p\<lparr>p_current := Some (NCommand (c\<lparr>cmd_stdout := ToFile token\<rparr>)), p_state := COMMAND_S\<rparr>))
     | STDERR_S \<Rightarrow>
         bindE (py_assert (cmd_stderr c = Inherit)) (\<lambda>_.
         Inr (p\<lparr>p_current := Some (NCommand (c\<lparr>cmd_stderr := ToFile token\<rparr>)), p_state := COMMAND_S\<rparr>))
     | STDIN_S \<Rightarrow>
         bindE (py_assert (cmd_stdin c = None)) (\<lambda>_.
         Inr (p\<lparr>p_current := Some (NCommand (c\<lparr>cmd_stdin := Some token\<rparr>)), p_state := COMMAND_S\<rparr>))
     | _ \<Rightarrow> Inr p)"

definition parse_token :: "parser \<Rightarrow> string \<Rightarrow> parser res" where
  "parse_token p token =
     (case p_state p of
        BEGIN_S \<Rightarrow> token_begin p token
      | COMMAND_S \<Rightarrow> token_command p token
      | CHDIR_S \<Rightarrow> token_chdir p token
      | _ \<Rightarrow> token_redirect p token)"

definition parse_tokens :: "string list \<Rightarrow> node list res" where
  "parse_tokens tokens =
     bindE (foldE parse_token init_parser tokens) (\<lambda>p.
     bindE (commit_command p) (\<lambda>p'. Inr (p_pipeline p')))"

definition parse_command :: "string \<Rightarrow> node list res" where
  "parse_command command = bindE (shlex_split command) parse_tokens"

section \<open>The shape of a parsed pipeline\<close>

text \<open>
  Operands and operators alternate; a command writes to the pipe exactly when a pipe follows it, and
  a directory change is followed by \<open>&&\<close> or by nothing.
\<close>

fun wf_pipeline :: "node list \<Rightarrow> bool" where
  "wf_pipeline [NCommand c] = (cmd_stdout c \<noteq> ToPipe)"
| "wf_pipeline [NChdir d] = True"
| "wf_pipeline (NCommand c # op # ns) =
     ((op = NPipe \<and> cmd_stdout c = ToPipe \<or> op \<in> {NAnd, NOr} \<and> cmd_stdout c \<noteq> ToPipe) \<and> wf_pipeline ns)"
| "wf_pipeline (NChdir d # op # ns) = (op = NAnd \<and> wf_pipeline ns)"
| "wf_pipeline _ = False"

text \<open>Complete operands, each with the operator after it.\<close>

fun wf_ops :: "node list \<Rightarrow> bool" where
  "wf_ops [] = True"
| "wf_ops (NCommand c # op # ns) =
     ((op = NPipe \<and> cmd_stdout c = ToPipe \<or> op \<in> {NAnd, NOr} \<and> cmd_stdout c \<noteq> ToPipe) \<and> wf_ops ns)"
| "wf_ops (NChdir d # op # ns) = (op = NAnd \<and> wf_ops ns)"
| "wf_ops _ = False"

lemma wf_ops_append: "wf_ops ns \<Longrightarrow> wf_ops ms \<Longrightarrow> wf_ops (ns @ ms)"
  by (induction ns rule: wf_ops.induct) auto

lemma wf_ops_pipeline: "wf_ops ns \<Longrightarrow> wf_pipeline ms \<Longrightarrow> wf_pipeline (ns @ ms)"
proof (induction ns rule: wf_ops.induct)
  case (2 c op ns)
  then show ?case by (cases "ns @ ms") auto
next
  case (3 d op ns)
  then show ?case by (cases "ns @ ms") auto
qed auto

definition parser_ok :: "parser \<Rightarrow> bool" where
  "parser_ok p =
     (wf_ops (p_pipeline p) \<and>
      (case p_state p of
         BEGIN_S \<Rightarrow> p_current p = None
       | CHDIR_S \<Rightarrow> (\<exists>d. p_current p = Some (NChdir d)) \<and> p_env_vars p = []
       | _ \<Rightarrow> (\<exists>c. p_current p = Some (NCommand c) \<and> cmd_stdout c \<noteq> ToPipe \<and> cmd_stderr c \<noteq> ToPipe \<and>
                  cmd_argv c \<noteq> [] \<and> hd (cmd_argv c) = cmd_name c \<and> cmd_env_vars c \<noteq> Some []) \<and>
              p_env_vars p = []))"

lemma py_assert_conv [simp]:
  "py_assert b = Inr u \<longleftrightarrow> b" "py_assert b = Inl e \<longleftrightarrow> \<not> b \<and> e = AssertionError"
  by (auto simp: py_assert_def)

lemma py_assert_True [simp]: "py_assert True = Inr ()"
  by simp

lemma parser_ok_init: "parser_ok init_parser"
  by (simp add: parser_ok_def init_parser_def)

lemma commit_op_ok:
  assumes "commit_op op p = Inr p'" and "wf_ops (p_pipeline p)" and "p_current p = Some n" and "wf_ops [n, op]"
    and "p_env_vars p = []"
  shows "parser_ok p'"
  using assms wf_ops_append [OF assms(2,4)]
  by (auto simp: commit_op_def commit_command_def parser_ok_def)

lemma parse_token_ok:
  assumes "parse_token p token = Inr p'" and "parser_ok p"
  shows "parser_ok p'"
proof (cases "p_state p")
  case BEGIN_S
  with assms have "token_begin p token = Inr p'" "p_current p = None" "wf_ops (p_pipeline p)"
    by (auto simp: parse_token_def parser_ok_def)
  then show ?thesis
    using BEGIN_S by (auto simp: token_begin_def parser_ok_def bindE_Inr_conv new_command_def
        split: option.split_asm if_splits)
next
  case COMMAND_S
  with assms obtain c where tok: "token_command p token = Inr p'" and ops: "wf_ops (p_pipeline p)"
    and c: "p_current p = Some (NCommand c)" "cmd_stdout c \<noteq> ToPipe" "cmd_stderr c \<noteq> ToPipe"
      "cmd_argv c \<noteq> []" "hd (cmd_argv c) = cmd_name c" "cmd_env_vars c \<noteq> Some []" and env: "p_env_vars p = []"
    by (auto simp: parse_token_def parser_ok_def)
  have cur: "current_command p = Inr c" using c by (simp add: current_command_def)
  consider "token = ''|''" | "token = ''&&''" | "token = ''||''" | "token \<notin> {''|'', ''&&'', ''||''}" by blast
  then show ?thesis
  proof cases
    case 1
    then have "commit_op NPipe (p\<lparr>p_current := Some (NCommand (c\<lparr>cmd_stdout := ToPipe\<rparr>))\<rparr>) = Inr p'"
      using tok cur by (auto simp: token_command_def bindE_Inr_conv)
    then show ?thesis
      by (rule commit_op_ok [where n = "NCommand (c\<lparr>cmd_stdout := ToPipe\<rparr>)"]) (use ops env in simp_all)
  next
    case 2
    then have "commit_op NAnd p = Inr p'" using tok cur by (simp add: token_command_def)
    then show ?thesis by (rule commit_op_ok [where n = "NCommand c"]) (use ops env c in simp_all)
  next
    case 3
    then have "commit_op NOr p = Inr p'" using tok cur by (simp add: token_command_def)
    then show ?thesis by (rule commit_op_ok [where n = "NCommand c"]) (use ops env c in simp_all)
  next
    case 4
    then show ?thesis
      using tok cur ops c env COMMAND_S
      by (auto simp: token_command_def parser_ok_def bindE_Inr_conv split: if_splits)
  qed
next
  case CHDIR_S
  with assms obtain d where tok: "token_chdir p token = Inr p'" and ops: "wf_ops (p_pipeline p)"
    and d: "p_current p = Some (NChdir d)" and env: "p_env_vars p = []"
    by (auto simp: parse_token_def parser_ok_def)
  show ?thesis
  proof (cases "token = ''&&''")
    case True
    then have "commit_op NAnd p = Inr p'" using tok by (simp add: token_chdir_def)
    then show ?thesis by (rule commit_op_ok [where n = "NChdir d"]) (use ops env d in simp_all)
  next
    case False
    then show ?thesis using tok ops d env CHDIR_S
      by (auto simp: token_chdir_def parser_ok_def split: option.splits)
  qed
qed (use assms in \<open>auto simp: parse_token_def parser_ok_def token_redirect_def current_command_def bindE_Inr_conv\<close>)

lemma parse_tokens_wf:
  assumes "parse_tokens tokens = Inr pipeline"
  shows "wf_pipeline pipeline"
proof -
  from assms obtain p n where p: "foldE parse_token init_parser tokens = Inr p" and n: "p_current p = Some n"
    and pl: "pipeline = p_pipeline p @ [n]"
    by (auto simp: parse_tokens_def bindE_Inr_conv commit_command_def split: option.splits)
  have "parser_ok p"
    using p by (rule foldE_inv) (rule parser_ok_init, rule parse_token_ok)
  then have "wf_ops (p_pipeline p)" "wf_pipeline [n]"
    using n by (auto simp: parser_ok_def split: parse_state.splits)
  then show ?thesis unfolding pl by (rule wf_ops_pipeline)
qed

section \<open>Writing a pipeline as tokens\<close>

definition unparse_command :: "command \<Rightarrow> string list" where
  "unparse_command c =
     (case cmd_env_vars c of None \<Rightarrow> [] | Some d \<Rightarrow> map (\<lambda>(k, v). k @ ''='' @ v) d) @ cmd_argv c @
     (case cmd_stdin c of None \<Rightarrow> [] | Some f \<Rightarrow> [''<'', f]) @
     (case cmd_stdout c of ToFile f \<Rightarrow> [''>'', f] | _ \<Rightarrow> []) @
     (case cmd_stderr c of ToFile f \<Rightarrow> [''2>'', f] | ToStdout \<Rightarrow> [''2>&1''] | _ \<Rightarrow> [])"

definition unparse_node :: "node \<Rightarrow> string list" where
  "unparse_node n =
     (case n of
        NCommand c \<Rightarrow> unparse_command c
      | NChdir None \<Rightarrow> [''cd'']
      | NChdir (Some d) \<Rightarrow> [''cd'', d]
      | NPipe \<Rightarrow> [''|''] | NAnd \<Rightarrow> [''&&''] | NOr \<Rightarrow> [''||''])"

definition unparse :: "node list \<Rightarrow> string list" where
  "unparse ns = concat (map unparse_node ns)"

definition shell_operators :: "string list" where
  "shell_operators = [''>'', ''2>'', ''2>&1'', ''<'', ''|'', ''&&'', ''||'']"

definition plain_command :: "command \<Rightarrow> bool" where
  "plain_command c =
     ((\<exists>args. cmd_argv c = cmd_name c # args \<and> list_all (\<lambda>a. a \<notin> set shell_operators) args) \<and>
      env_var_match (cmd_name c) = None \<and> cmd_name c \<noteq> ''cd'' \<and> cmd_stderr c \<noteq> ToPipe \<and> cmd_stdout c \<noteq> ToStdout \<and>
      (case cmd_env_vars c of None \<Rightarrow> True
       | Some d \<Rightarrow> d \<noteq> [] \<and> distinct (map fst d) \<and> list_all (\<lambda>(k, v). env_var_match (k @ ''='' @ v) = Some (k, v)) d))"

definition plain_node :: "node \<Rightarrow> bool" where
  "plain_node n = (case n of NCommand c \<Rightarrow> plain_command c | NChdir (Some d) \<Rightarrow> d \<noteq> ''&&'' | _ \<Rightarrow> True)"

definition begin_parser :: "node list \<Rightarrow> parser" where
  "begin_parser ns = \<lparr> p_state = BEGIN_S, p_current = None, p_pipeline = ns, p_env_vars = [] \<rparr>"

definition command_parser :: "node list \<Rightarrow> command \<Rightarrow> parser" where
  "command_parser ns c = \<lparr> p_state = COMMAND_S, p_current = Some (NCommand c), p_pipeline = ns, p_env_vars = [] \<rparr>"

lemma dict_set_append: "k \<notin> fst ` set d \<Longrightarrow> dict_set k v d = d @ [(k, v)]"
  unfolding dict_set_def by (induction d) auto

lemma parse_env_tokens:
  assumes "list_all (\<lambda>(k, v). env_var_match (k @ ''='' @ v) = Some (k, v)) d"
    and "distinct (map fst (e @ d))"
  shows "foldE parse_token ((begin_parser ns)\<lparr>p_env_vars := e\<rparr>) (map (\<lambda>(k, v). k @ ''='' @ v) d) =
     Inr ((begin_parser ns)\<lparr>p_env_vars := e @ d\<rparr>)"
  using assms
proof (induction d arbitrary: e)
  case (Cons kv d)
  obtain k v where kv: "kv = (k, v)" by (cases kv)
  have "dict_set k v e = e @ [(k, v)]" using Cons.prems(2) kv by (intro dict_set_append) auto
  then have step: "parse_token ((begin_parser ns)\<lparr>p_env_vars := e\<rparr>) (k @ ''='' @ v) =
      Inr ((begin_parser ns)\<lparr>p_env_vars := e @ [(k, v)]\<rparr>)"
    using Cons.prems(1) kv by (simp add: parse_token_def token_begin_def begin_parser_def)
  have "foldE parse_token ((begin_parser ns)\<lparr>p_env_vars := e @ [(k, v)]\<rparr>) (map (\<lambda>(k, v). k @ ''='' @ v) d) =
      Inr ((begin_parser ns)\<lparr>p_env_vars := (e @ [(k, v)]) @ d\<rparr>)"
    using Cons.prems kv by (intro Cons.IH) simp_all
  with step kv show ?case by simp
qed (simp add: begin_parser_def)

lemma parse_args:
  "list_all (\<lambda>a. a \<notin> set shell_operators) args \<Longrightarrow>
     foldE parse_token (command_parser ns c) args =
       Inr (command_parser ns (c\<lparr>cmd_argv := cmd_argv c @ args\<rparr>))"
proof (induction args arbitrary: c)
  case (Cons a args)
  then have "parse_token (command_parser ns c) a = Inr (command_parser ns (c\<lparr>cmd_argv := cmd_argv c @ [a]\<rparr>))"
    by (simp add: parse_token_def token_command_def current_command_def command_parser_def shell_operators_def)
  with Cons show ?case by simp
qed (simp add: command_parser_def)

lemma parse_name:
  assumes "env_var_match nm = None" and "nm \<noteq> ''cd''"
  shows "parse_token ((begin_parser ns)\<lparr>p_env_vars := e\<rparr>) nm =
     Inr (command_parser ns ((new_command nm)\<lparr>cmd_env_vars := if e = [] then None else Some e\<rparr>))"
  using assms by (simp add: parse_token_def token_begin_def begin_parser_def command_parser_def new_command_def)

lemma parse_redirects:
  assumes "cmd_stdin c = None" and "cmd_stdout c = Inherit" and "cmd_stderr c = Inherit"
    and "r \<noteq> ToPipe" and "q \<noteq> ToStdout"
  shows "foldE parse_token (command_parser ns c)
       ((case i of None \<Rightarrow> [] | Some f \<Rightarrow> [''<'', f]) @ (case q of ToFile f \<Rightarrow> [''>'', f] | _ \<Rightarrow> []) @
        (case r of ToFile f \<Rightarrow> [''2>'', f] | ToStdout \<Rightarrow> [''2>&1''] | _ \<Rightarrow> [])) =
     Inr (command_parser ns (c\<lparr>cmd_stdin := i, cmd_stdout := if q = ToPipe then Inherit else q, cmd_stderr := r\<rparr>))"
proof -
  have in': "foldE parse_token (command_parser ns c) (case i of None \<Rightarrow> [] | Some f \<Rightarrow> [''<'', f]) =
      Inr (command_parser ns (c\<lparr>cmd_stdin := i\<rparr>))"
    using assms(1) by (cases i) (auto simp: parse_token_def token_command_def token_redirect_def
        current_command_def command_parser_def)
  have out: "foldE parse_token (command_parser ns c') (case q of ToFile f \<Rightarrow> [''>'', f] | _ \<Rightarrow> []) =
      Inr (command_parser ns (c'\<lparr>cmd_stdout := if q = ToPipe then Inherit else q\<rparr>))"
    if "cmd_stdout c' = Inherit" for c'
    using that assms(5) by (cases q) (auto simp: parse_token_def token_command_def token_redirect_def
        current_command_def command_parser_def py_assert_def)
  have err: "foldE parse_token (command_parser ns c')
        (case r of ToFile f \<Rightarrow> [''2>'', f] | ToStdout \<Rightarrow> [''2>&1''] | _ \<Rightarrow> []) =
      Inr (command_parser ns (c'\<lparr>cmd_stderr := r\<rparr>))" if "cmd_stderr c' = Inherit" for c'
    using that assms(4) by (cases r) (auto simp: parse_token_def token_command_def token_redirect_def
        current_command_def command_parser_def py_assert_def)
  show ?thesis
    using assms(2,3) by (simp add: foldE_append in' out err)
qed

text \<open>A command is read with its output inherited until the pipe after it is read.\<close>

definition before_pipe :: "command \<Rightarrow> command" where
  "before_pipe c = c\<lparr>cmd_stdout := if cmd_stdout c = ToPipe then Inherit else cmd_stdout c\<rparr>"

lemma parse_unparse_command:
  assumes "plain_command c"
  shows "foldE parse_token (begin_parser ns) (unparse_command c) = Inr (command_parser ns (before_pipe c))"
proof -
  from assms obtain args where argv: "cmd_argv c = cmd_name c # args"
    and args: "list_all (\<lambda>a. a \<notin> set shell_operators) args"
    and nm: "env_var_match (cmd_name c) = None" "cmd_name c \<noteq> ''cd''"
    and red: "cmd_stderr c \<noteq> ToPipe" "cmd_stdout c \<noteq> ToStdout"
    by (auto simp: plain_command_def)
  let ?d = "case cmd_env_vars c of None \<Rightarrow> [] | Some d \<Rightarrow> d"
  have d: "list_all (\<lambda>(k, v). env_var_match (k @ ''='' @ v) = Some (k, v)) ?d" "distinct (map fst ([] @ ?d))"
    "(if ?d = [] then None else Some ?d) = cmd_env_vars c"
    using assms by (auto simp: plain_command_def split: option.splits)
  have toks: "(case cmd_env_vars c of None \<Rightarrow> [] | Some d \<Rightarrow> map (\<lambda>(k, v). k @ ''='' @ v) d) =
      map (\<lambda>(k, v). k @ ''='' @ v) ?d"
    by (simp split: option.split)
  have env: "foldE parse_token (begin_parser ns) (map (\<lambda>(k, v). k @ ''='' @ v) ?d) =
      Inr ((begin_parser ns)\<lparr>p_env_vars := ?d\<rparr>)"
    using parse_env_tokens [OF d(1,2), of ns] by (simp add: begin_parser_def)
  let ?c = "(new_command (cmd_name c))\<lparr>cmd_env_vars := cmd_env_vars c, cmd_argv := cmd_argv c\<rparr>"
  have argv': "foldE parse_token ((begin_parser ns)\<lparr>p_env_vars := ?d\<rparr>) (cmd_argv c) = Inr (command_parser ns ?c)"
    by (simp add: argv parse_name [OF nm] d(3) parse_args [OF args] new_command_def)
  have inh: "cmd_stdin ?c = None" "cmd_stdout ?c = Inherit" "cmd_stderr ?c = Inherit"
    by (simp_all add: new_command_def)
  have c: "?c\<lparr>cmd_stdin := cmd_stdin c,
      cmd_stdout := if cmd_stdout c = ToPipe then Inherit else cmd_stdout c, cmd_stderr := cmd_stderr c\<rparr> =
      before_pipe c"
    by (simp add: before_pipe_def new_command_def)
  show ?thesis
    unfolding unparse_command_def toks foldE_append env bindE_simps argv' parse_redirects [OF inh red, unfolded foldE_append] c ..
qed

lemma parse_node:
  assumes "plain_node n" and "\<forall>c. n = NCommand c \<longrightarrow> cmd_stdout c \<noteq> ToPipe" and "n \<notin> {NPipe, NAnd, NOr}"
  shows "\<exists>p. foldE parse_token (begin_parser ns) (unparse_node n) = Inr p \<and>
     p_current p = Some n \<and> p_pipeline p = ns \<and> p_env_vars p = [] \<and> p_state p = (case n of NCommand c \<Rightarrow> COMMAND_S | _ \<Rightarrow> CHDIR_S)"
proof (cases n)
  case (NCommand c)
  then show ?thesis
    using parse_unparse_command [of c ns] assms
    by (simp add: plain_node_def unparse_node_def before_pipe_def command_parser_def)
next
  case (NChdir d)
  have "env_var_match ''cd'' = None" by code_simp
  then show ?thesis
    using NChdir assms by (cases d) (simp_all add: plain_node_def unparse_node_def begin_parser_def
        parse_token_def token_begin_def token_chdir_def)
qed (use assms in simp_all)

lemma parse_node_op:
  assumes "plain_node n" and "\<forall>c. n = NCommand c \<longrightarrow> cmd_stdout c \<noteq> ToPipe" and "n \<notin> {NPipe, NAnd, NOr}"
    and "op = NAnd \<or> op = NOr \<and> (\<exists>c. n = NCommand c)"
  shows "foldE parse_token (begin_parser ns) (unparse_node n @ unparse_node op) = Inr (begin_parser (ns @ [n, op]))"
proof -
  from parse_node [OF assms(1-3), of ns] obtain p where p: "foldE parse_token (begin_parser ns) (unparse_node n) = Inr p"
    "p_current p = Some n" "p_pipeline p = ns" "p_env_vars p = []"
    "p_state p = (case n of NCommand c \<Rightarrow> COMMAND_S | _ \<Rightarrow> CHDIR_S)" by blast
  have "commit_op op p = Inr (begin_parser (ns @ [n, op]))"
    using p by (cases p) (simp add: commit_op_def commit_command_def begin_parser_def)
  moreover have "parse_token p ''&&'' = commit_op NAnd p"
    using p assms(3) by (cases n) (simp_all add: parse_token_def token_command_def token_chdir_def current_command_def)
  moreover have "parse_token p ''||'' = commit_op NOr p" if "n = NCommand c" for c
    using p that by (simp add: parse_token_def token_command_def current_command_def)
  ultimately show ?thesis
    using assms(4) p(1) by (auto simp: foldE_append unparse_node_def)
qed

lemma parse_piped:
  assumes "plain_command c" and "cmd_stdout c = ToPipe"
  shows "foldE parse_token (begin_parser ns) (unparse_node (NCommand c) @ unparse_node NPipe) =
     Inr (begin_parser (ns @ [NCommand c, NPipe]))"
proof -
  have "foldE parse_token (begin_parser ns) (unparse_node (NCommand c)) = Inr (command_parser ns (before_pipe c))"
    using parse_unparse_command [OF assms(1)] by (simp add: unparse_node_def)
  moreover have "(before_pipe c)\<lparr>cmd_stdout := ToPipe\<rparr> = c"
    using assms(2) by (simp add: before_pipe_def)
  ultimately show ?thesis
    using assms(2) by (simp add: foldE_append unparse_node_def[of NPipe] parse_token_def token_command_def current_command_def
        command_parser_def commit_op_def commit_command_def begin_parser_def before_pipe_def)
qed

lemma parse_unparse_from:
  assumes "wf_pipeline ns" and "list_all plain_node ns"
  shows "\<exists>p. foldE parse_token (begin_parser ms) (unparse ns) = Inr p \<and>
     bindE (commit_command p) (\<lambda>p'. Inr (p_pipeline p')) = Inr (ms @ ns)"
  using assms
proof (induction ns arbitrary: ms rule: wf_pipeline.induct)
  case (1 c)
  then show ?case using parse_node [of "NCommand c" ms]
    by (auto simp: unparse_def commit_command_def)
next
  case (2 d)
  then show ?case using parse_node [of "NChdir d" ms]
    by (auto simp: unparse_def commit_command_def)
next
  case (3 c op ns)
  have opd: "foldE parse_token (begin_parser ms) (unparse_node (NCommand c) @ unparse_node op) =
      Inr (begin_parser (ms @ [NCommand c, op]))"
  proof (cases "op = NPipe")
    case True
    then show ?thesis using 3 parse_piped [of c ms] by (simp add: plain_node_def)
  next
    case False
    then show ?thesis using 3 by (intro parse_node_op) auto
  qed
  have "wf_pipeline ns" "list_all plain_node ns" using "3.prems" by simp_all
  from "3.IH" [OF this, of "ms @ [NCommand c, op]"] obtain p where "foldE parse_token (begin_parser (ms @ [NCommand c, op])) (unparse ns) = Inr p"
    "bindE (commit_command p) (\<lambda>p'. Inr (p_pipeline p')) = Inr ((ms @ [NCommand c, op]) @ ns)"
    by blast
  with foldE_append_Inr [OF opd, of "unparse ns"] show ?case
    by (intro exI [of _ p]) (simp add: unparse_def)
next
  case (4 d op ns)
  then have opd: "foldE parse_token (begin_parser ms) (unparse_node (NChdir d) @ unparse_node op) =
      Inr (begin_parser (ms @ [NChdir d, op]))"
    by (intro parse_node_op) auto
  have "wf_pipeline ns" "list_all plain_node ns" using "4.prems" by simp_all
  from "4.IH" [OF this, of "ms @ [NChdir d, op]"] obtain p where "foldE parse_token (begin_parser (ms @ [NChdir d, op])) (unparse ns) = Inr p"
    "bindE (commit_command p) (\<lambda>p'. Inr (p_pipeline p')) = Inr ((ms @ [NChdir d, op]) @ ns)"
    by blast
  with foldE_append_Inr [OF opd, of "unparse ns"] show ?case
    by (intro exI [of _ p]) (simp add: unparse_def)
qed simp_all

section \<open>Properties\<close>

text \<open>
  C14: whatever a successful parse returns alternates operands and operators and starts and ends
  with an operand; a command writes to the pipe exactly when a pipe follows it, and a directory
  change is followed by \<open>&&\<close> or ends the pipeline. These are the facts \<open>run\<close> asserts.
\<close>

theorem parse_well_formed:
  assumes "parse_command text = Inr pipeline"
  shows "wf_pipeline pipeline"
  using assms parse_tokens_wf by (auto simp: parse_command_def bindE_Inr_conv)

text \<open>
  C6: every well-formed pipeline whose words are not operators is read back from its text: its
  tokens, quoted and joined with spaces, parse to that pipeline, with the environment, the
  redirections and the operators.
\<close>

theorem parse_unparse:
  assumes "wf_pipeline pipeline" and "list_all plain_node pipeline"
  shows "parse_command (py_join '' '' (map shlex_quote (unparse pipeline))) = Inr pipeline"
proof -
  have "begin_parser [] = init_parser" by (simp add: begin_parser_def init_parser_def)
  with parse_unparse_from [OF assms, of "[]"] show ?thesis
    by (auto simp: parse_command_def shlex_split_quoted parse_tokens_def)
qed

text \<open>
  a redirection at the very end of the text is dropped: when a text parses to a pipeline, so
  does the same list of tokens with \<open>>\<close>, \<open>2>\<close> or \<open><\<close> after it, if the last operand is a command
  whose tokens are complete, and the result is the same pipeline.
\<close>

theorem trailing_redirect_dropped:
  assumes "foldE parse_token init_parser tokens = Inr p" and "p_state p = COMMAND_S"
    and "r \<in> {''>'', ''2>'', ''<''}"
  shows "parse_tokens (tokens @ [r]) = parse_tokens tokens \<and> is_ok (parse_tokens tokens)"
proof -
  have "parser_ok p"
    using assms(1) by (rule foldE_inv) (rule parser_ok_init, rule parse_token_ok)
  then obtain c where c: "p_current p = Some (NCommand c)"
    using assms(2) by (auto simp: parser_ok_def)
  with assms(2,3) obtain st where "parse_token p r = Inr (p\<lparr>p_state := st\<rparr>)"
    by (auto simp: parse_token_def token_command_def current_command_def)
  with assms(1) c show ?thesis
    by (simp add: parse_tokens_def foldE_append commit_command_def)
qed

definition demo_pipeline :: "node list" where
  "demo_pipeline =
     [NCommand ((new_command ''./foo.py'')\<lparr>cmd_stderr := ToStdout, cmd_stdin := Some ''xxx'', cmd_stdout := ToPipe\<rparr>),
      NPipe, NCommand (new_command ''cat''), NAnd, NCommand (new_command ''ls'')]"

theorem parse_well_formed_witness: "wf_pipeline demo_pipeline"
proof -
  have "parse_command ''./foo.py 2>&1 < xxx | cat && ls'' = Inr demo_pipeline" by code_simp
  then show ?thesis by (rule parse_well_formed)
qed

theorem parse_unparse_witness:
  "parse_command (py_join '' '' (map shlex_quote (unparse demo_pipeline))) = Inr demo_pipeline"
proof (rule parse_unparse)
  show "wf_pipeline demo_pipeline" by (simp add: demo_pipeline_def new_command_def)
  have "env_var_match ''./foo.py'' = None" "env_var_match ''cat'' = None" "env_var_match ''ls'' = None"
    by code_simp+
  then show "list_all plain_node demo_pipeline"
    by (simp add: demo_pipeline_def plain_node_def plain_command_def new_command_def)
qed

theorem trailing_redirect_dropped_witness:
  "parse_tokens [''ls'', ''>''] = parse_tokens [''ls'']"
proof -
  have "env_var_match ''ls'' = None" by code_simp
  then have "foldE parse_token init_parser [''ls''] = Inr (command_parser [] (new_command ''ls''))"
    by (simp add: parse_token_def token_begin_def init_parser_def command_parser_def)
  from trailing_redirect_dropped [OF this, of "''>''"] show ?thesis by (simp add: command_parser_def)
qed

end
