(* ===== verification/Shell_Run.thy ===== *)
theory Shell_Run
  imports Shell_Parse
begin

text \<open>
  \<^verbatim>\<open>waf-tools/shellcmd.py\<close>, \<open>Pipeline.run\<close>: the loop that opens the redirections, starts the
  commands of a pipe, waits for them and decides at each operator whether to go on. The state
  carries the local variables and the events seen from outside (files opened and closed,
  processes started and waited for); an exception leaves the state it happened in, so that files
  left open can be seen. The exit status of the \<open>i\<close>-th process is a parameter.
\<close>

section \<open>State and events\<close>

datatype stream =
    SInherit | SReadFile string | SOutputOf nat | SNewPipe | SToStdout | SWriteFile string | SDevNull

datatype event =
    OpenRead string | OpenWrite string
  | Spawn nat "string list" stream stream stream "(string, string) dict option" "string option"
  | Wait nat | CloseFile string | Show string

record shell_world =
  sw_open :: "string \<Rightarrow> bool"
  sw_spawn :: "string list \<Rightarrow> bool"
  sw_exit :: "nat \<Rightarrow> int"
  sw_environ :: "(string, string) dict"

record run_state =
  r_files :: "stream list"
  r_procs :: "nat list"
  r_display :: "string list"
  r_piping :: bool
  r_cwd :: string
  r_next :: nat
  r_events :: "event list"

type_synonym 'a run_result = "run_state \<times> 'a res"

definition init_run :: run_state where
  "init_run = \<lparr> r_files = [], r_procs = [], r_display = [], r_piping = False, r_cwd = ''.'', r_next = 0, r_events = [] \<rparr>"

definition bindR :: "'a run_result \<Rightarrow> ('a \<Rightarrow> run_state \<Rightarrow> 'b run_result) \<Rightarrow> 'b run_result" where
  "bindR m f = (case m of (s, Inl e) \<Rightarrow> (s, Inl e) | (s, Inr x) \<Rightarrow> f x s)"

lemma bindR_simps [simp]:
  "bindR (s, Inl e) f = (s, Inl e)" "bindR (s, Inr x) f = f x s"
  by (simp_all add: bindR_def)

lemma bindR_cong [fundef_cong]:
  "m = m' \<Longrightarrow> (\<And>x s. m' = (s, Inr x) \<Longrightarrow> f x s = g x s) \<Longrightarrow> bindR m f = bindR m' g"
  by (auto simp: bindR_def split: prod.splits sum.splits)

definition emit :: "event \<Rightarrow> run_state \<Rightarrow> run_state" where
  "emit e s = s\<lparr>r_events := r_events s @ [e]\<rparr>"

definition display :: "bool \<Rightarrow> string \<Rightarrow> run_state \<Rightarrow> run_state" where
  "display verbose t s = (if verbose then s\<lparr>r_display := r_display s @ [t]\<rparr> else s)"

section \<open>Opening the streams\<close>

definition open_out_file :: "shell_world \<Rightarrow> string \<Rightarrow> run_state \<Rightarrow> stream run_result" where
  \<comment> \<open>\<open>_open_out_file\<close>, and the file put on \<open>files_to_close\<close>\<close>
  "open_out_file w f s =
     (if f \<in> {''NUL:'', ''/dev/null''} then (s\<lparr>r_files := r_files s @ [SDevNull]\<rparr>, Inr SDevNull)
      else if sw_open w f
      then ((emit (OpenWrite f) s)\<lparr>r_files := r_files s @ [SWriteFile f]\<rparr>, Inr (SWriteFile f))
      else (s, Inl OSError))"

definition open_stdin :: "bool \<Rightarrow> shell_world \<Rightarrow> command \<Rightarrow> run_state \<Rightarrow> stream run_result" where
  "open_stdin verbose w c s =
     (if r_piping s then (s, if r_procs s = [] then Inl IndexError else Inr (SOutputOf (last (r_procs s))))
      else (case cmd_stdin c of
              None \<Rightarrow> (s, Inr SInherit)
            | Some f \<Rightarrow>
                if sw_open w f
                then ((display verbose (''< '' @ f) (emit (OpenRead f) s))\<lparr>r_files := r_files s @ [SReadFile f]\<rparr>,
                      Inr (SReadFile f))
                else (s, Inl OSError)))"

definition open_stdout :: "bool \<Rightarrow> shell_world \<Rightarrow> command \<Rightarrow> run_state \<Rightarrow> stream run_result" where
  "open_stdout verbose w c s =
     (case cmd_stdout c of
        Inherit \<Rightarrow> (s, Inr SInherit)
      | ToPipe \<Rightarrow> (s, Inr SNewPipe)
      | ToStdout \<Rightarrow> (s, Inl TypeError)
      | ToFile f \<Rightarrow> bindR (open_out_file w f s) (\<lambda>h s. (display verbose (''> '' @ f) s, Inr h)))"

definition open_stderr :: "bool \<Rightarrow> shell_world \<Rightarrow> command \<Rightarrow> run_state \<Rightarrow> stream run_result" where
  "open_stderr verbose w c s =
     (case cmd_stderr c of
        Inherit \<Rightarrow> (s, Inr SInherit)
      | ToPipe \<Rightarrow> (s, Inr SNewPipe)
      | ToStdout \<Rightarrow> (display verbose ''2>&1'' s, Inr SToStdout)
      | ToFile f \<Rightarrow> bindR (open_out_file w f s) (\<lambda>h s. (display verbose (''2> '' @ f) s, Inr h)))"

definition command_env :: "shell_world \<Rightarrow> command \<Rightarrow> (string, string) dict option" where
  "command_env w c =
     (case cmd_env_vars c of
        None \<Rightarrow> None
      | Some d \<Rightarrow> (if d = [] then None else Some (foldl (\<lambda>env (k, v). dict_set k v env) (sw_environ w) d)))"

definition command_text :: "command \<Rightarrow> string" where
  "command_text c =
     (case cmd_env_vars c of
        None \<Rightarrow> py_join '' '' (cmd_argv c)
      | Some d \<Rightarrow> (if d = [] then py_join '' '' (cmd_argv c)
                  else py_join '' '' (map (\<lambda>(k, v). k @ ''='' @ v) d) @ '' '' @ py_join '' '' (cmd_argv c)))"

section \<open>Starting and waiting\<close>

definition start_command :: "bool \<Rightarrow> shell_world \<Rightarrow> command \<Rightarrow> run_state \<Rightarrow> unit run_result" where
  "start_command verbose w c s0 =
     bindR (open_stdin verbose w c (display verbose (command_text c) s0)) (\<lambda>stdin s.
     bindR (open_stdout verbose w c s) (\<lambda>stdout s.
     bindR (open_stderr verbose w c s) (\<lambda>stderr s.
     let proc_cwd = (if r_cwd s = ''.'' then None else Some (r_cwd s))
     in if sw_spawn w (cmd_argv c)
        then ((emit (Spawn (r_next s) (cmd_argv c) stdin stdout stderr (command_env w c) proc_cwd) s)
                \<lparr>r_procs := r_procs s @ [r_next s], r_next := Suc (r_next s)\<rparr>, Inr ())
        else (s, Inl OSError))))"

definition pipe_status :: "int list \<Rightarrow> int" where
  \<comment> \<open>\<open>for r in retvals: if r: retval = retvals[-1]; break\<close>\<close>
  "pipe_status rs = (if list_ex (\<lambda>r. r \<noteq> 0) rs then last rs else 0)"

definition exec_piped_commands :: "shell_world \<Rightarrow> run_state \<Rightarrow> run_state \<times> int" where
  "exec_piped_commands w s =
     (s\<lparr>r_events := r_events s @ map Wait (r_procs s)\<rparr>, pipe_status (map (sw_exit w) (r_procs s)))"

fun close_event :: "stream \<Rightarrow> event list" where
  "close_event (SReadFile f) = [CloseFile f]"
| "close_event (SWriteFile f) = [CloseFile f]"
| "close_event _ = []"

definition close_files :: "run_state \<Rightarrow> run_state" where
  "close_files s = s\<lparr>r_events := r_events s @ concat (map close_event (r_files s)), r_files := []\<rparr>"

definition finish_pipeline :: "bool \<Rightarrow> shell_world \<Rightarrow> run_state \<Rightarrow> int option run_result" where
  \<comment> \<open>the last command of the pipeline was started\<close>
  "finish_pipeline verbose w s =
     (let (s1, retval) = exec_piped_commands w s;
          s2 = (if verbose then emit (Show (py_join '' '' (r_display s1) @ '': exit code '' @ show_int retval)) s1 else s1)
      in (close_files s2, Inr (Some retval)))"

text \<open>
  After an operator. The messages of the verbose mode read \<open>retval\<close>, which is only assigned when
  the whole pipeline is finished, so they raise an error.
\<close>

definition after_group :: "bool \<Rightarrow> shell_world \<Rightarrow> (int \<Rightarrow> bool) \<Rightarrow> run_state \<Rightarrow> int option run_result" where
  "after_group verbose w stops s =
     (let (s1, this_retval) = exec_piped_commands w s; s2 = close_files s1
      in if verbose then (s2, Inl UnboundLocalError)
         else if stops this_retval then (s2, Inr (Some this_retval))
         else (s2\<lparr>r_piping := False, r_procs := [], r_display := []\<rparr>, Inr None))"

definition after_command :: "bool \<Rightarrow> shell_world \<Rightarrow> node \<Rightarrow> run_state \<Rightarrow> int option run_result" where
  "after_command verbose w op s =
     (case op of
        NPipe \<Rightarrow> (s\<lparr>r_piping := True, r_display := r_display s @ [''|'']\<rparr>, Inr None)
      | NOr \<Rightarrow> after_group verbose w (\<lambda>r. r = 0) s
      | NAnd \<Rightarrow> after_group verbose w (\<lambda>r. r \<noteq> 0) s
      | _ \<Rightarrow> (s, Inr None))"

fun run_from :: "bool \<Rightarrow> shell_world \<Rightarrow> node list \<Rightarrow> run_state \<Rightarrow> int option run_result" where
  "run_from verbose w [] s = (s, Inr None)"
| "run_from verbose w (NChdir d # rest) s =
     (case rest of
        [] \<Rightarrow> (s, Inl IndexError)
      | next_op # rest' \<Rightarrow>
          if next_op \<noteq> NAnd then (s, Inl AssertionError)
          else (case d of
                  None \<Rightarrow> (s, Inl TypeError)
                | Some dir \<Rightarrow>
                    run_from verbose w rest'
                      (display verbose (''cd '' @ dir @ '' &&'') (s\<lparr>r_cwd := path_join (r_cwd s) dir\<rparr>))))"
| "run_from verbose w (NCommand c # rest) s =
     bindR (start_command verbose w c s) (\<lambda>_ s1.
     case rest of
       [] \<Rightarrow> finish_pipeline verbose w s1
     | next_node # rest' \<Rightarrow>
         bindR (after_command verbose w next_node s1) (\<lambda>r s2.
         case r of Some retval \<Rightarrow> (s2, Inr (Some retval)) | None \<Rightarrow> run_from verbose w rest' s2))"
| "run_from verbose w (op # rest) s = (s, Inl AssertionError)"

definition run_pipeline :: "bool \<Rightarrow> shell_world \<Rightarrow> node list \<Rightarrow> int option run_result" where
  "run_pipeline verbose w pipeline = run_from verbose w pipeline init_run"

section \<open>The bookkeeping invariant\<close>

fun opened_by :: "event \<Rightarrow> string list" where
  "opened_by (OpenRead f) = [f]"
| "opened_by (OpenWrite f) = [f]"
| "opened_by _ = []"

fun closed_by :: "event \<Rightarrow> string list" where
  "closed_by (CloseFile f) = [f]"
| "closed_by _ = []"

fun spawned_by :: "event \<Rightarrow> nat list" where
  "spawned_by (Spawn i argv x y z env d) = [i]"
| "spawned_by _ = []"

fun waited_by :: "event \<Rightarrow> nat list" where
  "waited_by (Wait i) = [i]"
| "waited_by _ = []"

definition opened :: "event list \<Rightarrow> string multiset" where
  "opened es = mset (concat (map opened_by es))"

definition closed :: "event list \<Rightarrow> string multiset" where
  "closed es = mset (concat (map closed_by es))"

definition spawned :: "event list \<Rightarrow> nat list" where
  "spawned es = concat (map spawned_by es)"

definition waited :: "event list \<Rightarrow> nat list" where
  "waited es = concat (map waited_by es)"

fun file_of :: "stream \<Rightarrow> string list" where
  "file_of (SReadFile f) = [f]"
| "file_of (SWriteFile f) = [f]"
| "file_of _ = []"

lemmas event_defs = opened_def closed_def spawned_def waited_def

definition run_inv :: "run_state \<Rightarrow> bool" where
  "run_inv s =
     (opened (r_events s) = closed (r_events s) + mset (concat (map file_of (r_files s))) \<and>
      spawned (r_events s) = [0..<r_next s] \<and> waited (r_events s) @ r_procs s = [0..<r_next s])"

definition all_settled :: "run_state \<Rightarrow> bool" where
  "all_settled s =
     (opened (r_events s) = closed (r_events s) \<and> spawned (r_events s) = [0..<r_next s] \<and>
      waited (r_events s) = [0..<r_next s])"

lemma run_inv_init: "run_inv init_run"
  by (simp add: run_inv_def init_run_def event_defs)

lemma display_sel [simp]:
  "r_files (display v t s) = r_files s" "r_procs (display v t s) = r_procs s"
  "r_piping (display v t s) = r_piping s" "r_cwd (display v t s) = r_cwd s"
  "r_next (display v t s) = r_next s" "r_events (display v t s) = r_events s"
  by (simp_all add: display_def)

lemma emit_sel [simp]:
  "r_files (emit e s) = r_files s" "r_procs (emit e s) = r_procs s" "r_piping (emit e s) = r_piping s"
  "r_cwd (emit e s) = r_cwd s" "r_next (emit e s) = r_next s" "r_events (emit e s) = r_events s @ [e]"
  by (simp_all add: emit_def)

lemma run_inv_display [simp]: "run_inv (display v t s) = run_inv s"
  by (simp add: run_inv_def)

lemma open_out_file_inv: "run_inv s \<Longrightarrow> open_out_file w f s = (s', r) \<Longrightarrow> run_inv s'"
  by (auto simp: open_out_file_def run_inv_def event_defs split: if_splits)

lemma open_stdin_inv: "run_inv s \<Longrightarrow> open_stdin v w c s = (s', r) \<Longrightarrow> run_inv s'"
  by (auto simp: open_stdin_def run_inv_def event_defs split: if_splits option.splits)

lemma bindR_inv:
  assumes "bindR m f = (s', r)" and "\<And>s x. m = (s, x) \<Longrightarrow> I s" and "\<And>x s t u. I s \<Longrightarrow> f x s = (t, u) \<Longrightarrow> I t"
  shows "I s'"
proof -
  obtain s x where m: "m = (s, x)" by (cases m)
  show ?thesis
  proof (cases x)
    case (Inl e)
    then show ?thesis using assms(1,2) m by simp
  next
    case (Inr y)
    then show ?thesis using assms m by simp
  qed
qed

lemma open_file_display_inv:
  assumes "bindR (open_out_file w f s) (\<lambda>h s. (display v t s, Inr h)) = (s', r)" and "run_inv s"
  shows "run_inv s'"
  using assms(1) by (rule bindR_inv [where I = run_inv]) (use assms(2) open_out_file_inv in auto)

lemma open_stdout_inv: "run_inv s \<Longrightarrow> open_stdout v w c s = (s', r) \<Longrightarrow> run_inv s'"
  using open_file_display_inv by (cases "cmd_stdout c") (auto simp: open_stdout_def)

lemma open_stderr_inv: "run_inv s \<Longrightarrow> open_stderr v w c s = (s', r) \<Longrightarrow> run_inv s'"
  using open_file_display_inv by (cases "cmd_stderr c") (auto simp: open_stderr_def)

text \<open>The state after the three streams are open, or the first of them failed.\<close>

definition open_streams ::
    "bool \<Rightarrow> shell_world \<Rightarrow> command \<Rightarrow> run_state \<Rightarrow> (stream \<times> stream \<times> stream) run_result" where
  "open_streams v w c s =
     bindR (open_stdin v w c s) (\<lambda>i s. bindR (open_stdout v w c s) (\<lambda>out s.
     bindR (open_stderr v w c s) (\<lambda>err s. (s, Inr (i, out, err)))))"

lemma open_streams_inv:
  assumes "open_streams v w c s = (s', r)" and "run_inv s"
  shows "run_inv s'"
  using assms(1) unfolding open_streams_def
proof (rule bindR_inv [where I = run_inv])
  show "run_inv t" if "open_stdin v w c s = (t, x)" for t x
    using assms(2) that by (rule open_stdin_inv)
  fix i t t' u
  assume t: "run_inv t"
  assume "bindR (open_stdout v w c t) (\<lambda>out s. bindR (open_stderr v w c s) (\<lambda>err s. (s, Inr (i, out, err)))) = (t', u)"
  then show "run_inv t'"
  proof (rule bindR_inv [where I = run_inv])
    show "run_inv t1" if "open_stdout v w c t = (t1, x)" for t1 x
      using t that by (rule open_stdout_inv)
    fix out t1 t2 u1
    assume t1: "run_inv t1"
    assume "bindR (open_stderr v w c t1) (\<lambda>err s. (s, Inr (i, out, err))) = (t2, u1)"
    then show "run_inv t2"
      by (rule bindR_inv [where I = run_inv]) (use t1 open_stderr_inv in auto)
  qed
qed

definition spawn_command ::
    "shell_world \<Rightarrow> command \<Rightarrow> stream \<times> stream \<times> stream \<Rightarrow> run_state \<Rightarrow> unit run_result" where
  "spawn_command w c =
     (\<lambda>(i, out, err) s.
        if sw_spawn w (cmd_argv c)
        then ((emit (Spawn (r_next s) (cmd_argv c) i out err (command_env w c)
                 (if r_cwd s = ''.'' then None else Some (r_cwd s))) s)
                \<lparr>r_procs := r_procs s @ [r_next s], r_next := Suc (r_next s)\<rparr>, Inr ())
        else (s, Inl OSError))"

lemma bindR_assoc: "bindR (bindR m f) g = bindR m (\<lambda>x s. bindR (f x s) g)"
  by (auto simp: bindR_def split: prod.splits sum.splits)

lemma start_command_split:
  "start_command v w c s = bindR (open_streams v w c (display v (command_text c) s)) (spawn_command w c)"
  by (simp add: start_command_def open_streams_def spawn_command_def bindR_assoc Let_def)

lemma start_command_inv:
  assumes "run_inv s" and "start_command v w c s = (s', r)"
  shows "run_inv s'"
  using assms(2) unfolding start_command_split
proof (rule bindR_inv [where I = run_inv])
  show "run_inv t" if "open_streams v w c (display v (command_text c) s) = (t, x)" for t x
    using that by (rule open_streams_inv) (simp add: assms(1))
  show "run_inv t'" if "run_inv t" "spawn_command w c x t = (t', u)" for x t t' u
    using that by (cases x) (auto simp: spawn_command_def run_inv_def event_defs split: if_splits)
qed

lemma close_event_sel [simp]:
  "concat (map closed_by (close_event h)) = file_of h" "concat (map opened_by (close_event h)) = []"
  "concat (map spawned_by (close_event h)) = []" "concat (map waited_by (close_event h)) = []"
  by (cases h; simp)+

lemma closed_files:
  "closed (concat (map close_event hs)) = mset (concat (map file_of hs))"
  "opened (concat (map close_event hs)) = {#}"
  "spawned (concat (map close_event hs)) = []"
  "waited (concat (map close_event hs)) = []"
  unfolding event_defs by (induction hs) simp_all

lemma event_append [simp]:
  "opened (es @ fs) = opened es + opened fs" "closed (es @ fs) = closed es + closed fs"
  "spawned (es @ fs) = spawned es @ spawned fs" "waited (es @ fs) = waited es @ waited fs"
  by (simp_all add: event_defs)

lemma wait_events [simp]:
  "opened (map Wait ps) = {#}" "closed (map Wait ps) = {#}" "spawned (map Wait ps) = []" "waited (map Wait ps) = ps"
  unfolding event_defs by (induction ps) simp_all

lemma show_events [simp]:
  "opened (Show t # es) = opened es" "closed (Show t # es) = closed es"
  "spawned (Show t # es) = spawned es" "waited (Show t # es) = waited es"
  by (simp_all add: event_defs)

text \<open>Waiting for every process and closing every file settles the books.\<close>

definition settle :: "shell_world \<Rightarrow> run_state \<Rightarrow> run_state" where
  "settle w s = close_files (fst (exec_piped_commands w s))"

lemma settle_settled: "run_inv s \<Longrightarrow> all_settled (settle w s)"
  by (simp add: run_inv_def all_settled_def settle_def close_files_def exec_piped_commands_def closed_files)

lemma settle_inv: "run_inv s \<Longrightarrow> run_inv ((settle w s)\<lparr>r_piping := False, r_procs := [], r_display := []\<rparr>)"
  by (simp add: run_inv_def settle_def close_files_def exec_piped_commands_def closed_files)

lemma finish_pipeline_settled:
  assumes "run_inv s" and "finish_pipeline v w s = (s', r)"
  shows "all_settled s'"
  using assms
  by (cases v) (auto simp: finish_pipeline_def exec_piped_commands_def all_settled_def close_files_def
      run_inv_def closed_files emit_def Let_def)

lemma after_group_cases:
  assumes "after_group v w stops s = (s', r)"
  obtains "s' = settle w s" "r = Inl UnboundLocalError" v
  | "s' = settle w s" "\<not> v" "r = Inr (Some (snd (exec_piped_commands w s)))" "stops (snd (exec_piped_commands w s))"
  | "s' = (settle w s)\<lparr>r_piping := False, r_procs := [], r_display := []\<rparr>" "\<not> v" "r = Inr None"
    "\<not> stops (snd (exec_piped_commands w s))"
  using assms by (auto simp: after_group_def settle_def exec_piped_commands_def Let_def split: if_splits)

lemma after_command_inv:
  assumes "run_inv s" and "after_command v w op s = (s', r)"
  shows "case r of Inr None \<Rightarrow> run_inv s' | Inr (Some x) \<Rightarrow> all_settled s' | Inl e \<Rightarrow> all_settled s'"
proof -
  have group: ?thesis if "after_group v w stops s = (s', r)" for stops
    using that by (rule after_group_cases) (use settle_settled [OF assms(1)] settle_inv [OF assms(1)] in auto)
  show ?thesis
    using assms group by (cases op) (auto simp: after_command_def run_inv_def)
qed

lemma run_from_settled:
  assumes "run_inv s" and "run_from v w ns s = (s', Inr (Some retval))"
  shows "all_settled s'"
  using assms
proof (induction v w ns s rule: run_from.induct)
  case (2 v w d rest s)
  then show ?case by (auto simp: run_inv_def split: list.splits if_splits option.splits)
next
  case (3 v w c rest s)
  obtain s1 x where start: "start_command v w c s = (s1, x)" by fastforce
  then have inv1: "run_inv s1" using 3(2) start_command_inv by blast
  from 3(3) start have x: "x = Inr ()" by (cases x) auto
  show ?case
  proof (cases rest)
    case Nil
    then show ?thesis using 3(3) start x inv1 finish_pipeline_settled by auto
  next
    case (Cons op rest')
    obtain s2 r where after: "after_command v w op s1 = (s2, r)" by fastforce
    note inv2 = after_command_inv [OF inv1 after]
    show ?thesis
    proof (cases "r = Inr None")
      case True
      then show ?thesis
        using 3(1) [OF start [unfolded x] Cons after [unfolded True]] 3(3) start x Cons after inv2 by auto
    next
      case False
      then show ?thesis
        using 3(3) start x Cons after inv2 by (cases r) (auto split: option.splits)
    qed
  qed
qed simp_all

section \<open>What a run returns\<close>

text \<open>A pipeline as a list of pipes, each with the number of its commands and the operator after it.\<close>

fun pipe_groups :: "nat \<Rightarrow> node list \<Rightarrow> (nat \<times> node option) list" where
  "pipe_groups n (NChdir d # op # ns) = pipe_groups n ns"
| "pipe_groups n [NCommand c] = [(Suc n, None)]"
| "pipe_groups n (NCommand c # op # ns) =
     (if op = NPipe then pipe_groups (Suc n) ns else (Suc n, Some op) # pipe_groups 0 ns)"
| "pipe_groups n _ = []"

text \<open>The value the code computes: the first operator that stops ends the run.\<close>

fun group_value :: "(nat \<Rightarrow> int) \<Rightarrow> nat \<Rightarrow> (nat \<times> node option) list \<Rightarrow> int" where
  "group_value ex k [] = 0"
| "group_value ex k ((n, op) # gs) =
     (let st = pipe_status (map ex [k..<k + n])
      in if op = Some NOr then (if st = 0 then 0 else group_value ex (k + n) gs)
         else if op = Some NAnd then (if st \<noteq> 0 then st else group_value ex (k + n) gs)
         else st)"

text \<open>
  The shell's reading of the same list, which uses nothing of the code: the status of a pipe is that
  of its last command, an operator decides only about the pipe after it, and the status so far goes
  on to the next operator.
\<close>

fun shell_value :: "(nat \<Rightarrow> int) \<Rightarrow> nat \<Rightarrow> node option \<Rightarrow> int \<Rightarrow> (nat \<times> node option) list \<Rightarrow> int" where
  "shell_value ex k prev st [] = st"
| "shell_value ex k prev st ((n, op) # gs) =
     (if prev = Some NAnd \<and> st \<noteq> 0 \<or> prev = Some NOr \<and> st = 0 then shell_value ex k op st gs
      else shell_value ex (k + n) op (ex (k + n - 1)) gs)"

definition world_ok :: "shell_world \<Rightarrow> bool" where
  "world_ok w = ((\<forall>f. sw_open w f) \<and> (\<forall>a. sw_spawn w a))"

definition runnable :: "node list \<Rightarrow> bool" where
  \<comment> \<open>no output sent to itself, no \<open>cd\<close> without a directory and none at the end\<close>
  "runnable ns =
     (ns \<noteq> [] \<and> (\<exists>c. last ns = NCommand c) \<and>
      list_all (\<lambda>n. n \<noteq> NChdir None \<and> (\<forall>c. n = NCommand c \<longrightarrow> cmd_stdout c \<noteq> ToStdout)) ns)"

definition keeps :: "run_state \<Rightarrow> run_state \<Rightarrow> bool" where
  "keeps s s' = (r_procs s' = r_procs s \<and> r_next s' = r_next s \<and> r_piping s' = r_piping s \<and> r_cwd s' = r_cwd s)"

lemma keeps_simps [simp]: "keeps s s" "keeps s (display v t s') = keeps s s'" "keeps (display v t s) s' = keeps s s'"
  by (simp_all add: keeps_def)

lemma keeps_trans: "keeps a b \<Longrightarrow> keeps b c \<Longrightarrow> keeps a c"
  by (simp add: keeps_def)

lemma open_out_file_ok:
  assumes "world_ok w"
  shows "\<exists>s' h. open_out_file w f s = (s', Inr h) \<and> keeps s s'"
  using assms by (auto simp: open_out_file_def world_ok_def keeps_def)

lemma open_stdin_ok:
  assumes "world_ok w" and "r_piping s \<longrightarrow> r_procs s \<noteq> []"
  shows "\<exists>s' h. open_stdin v w c s = (s', Inr h) \<and> keeps s s'"
  using assms by (cases "cmd_stdin c") (auto simp: open_stdin_def world_ok_def keeps_def)

lemma open_stdout_ok:
  assumes "world_ok w" and "cmd_stdout c \<noteq> ToStdout"
  obtains s' h where "open_stdout v w c s = (s', Inr h)" "keeps s s'"
proof (cases "cmd_stdout c")
  case (ToFile f)
  obtain s' h where "open_out_file w f s = (s', Inr h)" "keeps s s'" using open_out_file_ok [OF assms(1)] by blast
  with ToFile show ?thesis by (intro that [of "display v (''> '' @ f) s'" h]) (simp_all add: open_stdout_def)
qed (use assms that in \<open>simp_all add: open_stdout_def\<close>)

lemma open_stderr_ok:
  assumes "world_ok w"
  obtains s' h where "open_stderr v w c s = (s', Inr h)" "keeps s s'"
proof (cases "cmd_stderr c")
  case (ToFile f)
  obtain s' h where "open_out_file w f s = (s', Inr h)" "keeps s s'" using open_out_file_ok [OF assms] by blast
  with ToFile show ?thesis by (intro that [of "display v (''2> '' @ f) s'" h]) (simp_all add: open_stderr_def)
qed (use that in \<open>simp_all add: open_stderr_def\<close>)

lemma open_streams_ok:
  assumes "world_ok w" and "cmd_stdout c \<noteq> ToStdout" and "r_piping s \<longrightarrow> r_procs s \<noteq> []"
  obtains s' h where "open_streams v w c s = (s', Inr h)" "keeps s s'"
proof -
  obtain s1 i where s1: "open_stdin v w c s = (s1, Inr i)" "keeps s s1"
    using open_stdin_ok [OF assms(1,3)] by blast
  obtain s2 out where s2: "open_stdout v w c s1 = (s2, Inr out)" "keeps s1 s2"
    by (rule open_stdout_ok [OF assms(1,2)])
  obtain s3 err where s3: "open_stderr v w c s2 = (s3, Inr err)" "keeps s2 s3"
    by (rule open_stderr_ok [OF assms(1)])
  have "keeps s s3" using s1(2) s2(2) s3(2) keeps_trans by blast
  then show ?thesis by (intro that [of s3 "(i, out, err)"]) (simp_all add: open_streams_def s1 s2 s3)
qed

lemma start_command_ok:
  assumes "world_ok w" and "cmd_stdout c \<noteq> ToStdout" and "r_piping s \<longrightarrow> r_procs s \<noteq> []"
  obtains s' where "start_command v w c s = (s', Inr ())" "r_procs s' = r_procs s @ [r_next s]"
    "r_next s' = Suc (r_next s)" "r_piping s' = r_piping s"
proof -
  have "r_piping (display v (command_text c) s) \<longrightarrow> r_procs (display v (command_text c) s) \<noteq> []"
    using assms(3) by simp
  then obtain s1 h where
    s1: "open_streams v w c (display v (command_text c) s) = (s1, Inr h)" "keeps (display v (command_text c) s) s1"
    by (rule open_streams_ok [OF assms(1,2)])
  obtain i out err where "h = (i, out, err)" by (cases h)
  with s1 show ?thesis
    using assms(1) that by (simp add: start_command_split spawn_command_def world_ok_def keeps_def)
qed

lemma runnable_Cons: "runnable (n # op # ns) \<Longrightarrow> ns \<noteq> [] \<Longrightarrow> runnable ns"
  by (simp add: runnable_def)

lemma run_from_value:
  assumes "world_ok w" and "wf_pipeline ns" and "runnable ns"
    and "r_procs s = [k..<r_next s]" and "k \<le> r_next s" and "r_piping s \<longrightarrow> k < r_next s"
  shows "snd (run_from False w ns s) = Inr (Some (group_value (sw_exit w) k (pipe_groups (r_next s - k) ns)))"
  using assms(2-)
proof (induction ns arbitrary: s k rule: wf_pipeline.induct)
  case (1 c)
  from "1.prems" have out: "cmd_stdout c \<noteq> ToStdout" by (simp add: runnable_def)
  have "r_piping s \<longrightarrow> r_procs s \<noteq> []" using "1.prems"(3,5) by auto
  from start_command_ok [OF assms(1) out this] obtain s1 where
    s1: "start_command False w c s = (s1, Inr ())" "r_procs s1 = r_procs s @ [r_next s]" by blast
  then show ?case using "1.prems"(3,4) by (simp add: finish_pipeline_def exec_piped_commands_def Let_def)
next
  case (2 d)
  then show ?case by (simp add: runnable_def)
next
  case (3 c op ns)
  from "3.prems" have out: "cmd_stdout c \<noteq> ToStdout" and wf: "wf_pipeline ns"
    and op: "op = NPipe \<or> op = NAnd \<or> op = NOr" by (auto simp: runnable_def)
  have run: "runnable ns" by (rule runnable_Cons [OF "3.prems"(2)]) (use wf in auto)
  have "r_piping s \<longrightarrow> r_procs s \<noteq> []" using "3.prems"(3,5) by auto
  from start_command_ok [OF assms(1) out this] obtain s1 where
    s1: "start_command False w c s = (s1, Inr ())" "r_procs s1 = r_procs s @ [r_next s]"
      "r_next s1 = Suc (r_next s)" by blast
  have procs: "r_procs s1 = [k..<r_next s1]" "k < r_next s1" "r_next s1 - k = Suc (r_next s - k)"
    using s1(2,3) "3.prems"(3,4) by simp_all
  show ?case
  proof (cases "op = NPipe")
    case True
    let ?s2 = "s1\<lparr>r_piping := True, r_display := r_display s1 @ [''|'']\<rparr>"
    have "snd (run_from False w ns ?s2) = Inr (Some (group_value (sw_exit w) k (pipe_groups (r_next ?s2 - k) ns)))"
      by (rule "3.IH") (use wf run procs in simp_all)
    then show ?thesis using True s1(1) procs(3) by (simp add: after_command_def)
  next
    case False
    let ?st = "pipe_status (map (sw_exit w) [k..<r_next s1])"
    let ?s2 = "(settle w s1)\<lparr>r_piping := False, r_procs := [], r_display := []\<rparr>"
    have next2: "r_next ?s2 = r_next s1"
      by (simp add: settle_def close_files_def exec_piped_commands_def)
    have IH: "snd (run_from False w ns ?s2) = Inr (Some (group_value (sw_exit w) (r_next s1) (pipe_groups 0 ns)))"
      using "3.IH" [of ?s2 "r_next s1"] wf run next2 by simp
    have st: "snd (exec_piped_commands w s1) = ?st"
      using procs(1) by (simp add: exec_piped_commands_def)
    have after: "after_group False w stops s1 =
        (if stops ?st then (settle w s1, Inr (Some ?st)) else (?s2, Inr None))" for stops
      using st by (simp add: after_group_def settle_def exec_piped_commands_def Let_def)
    have two: "pipe_groups (r_next s - k) (NCommand c # op # ns) = (r_next s1 - k, Some op) # pipe_groups 0 ns"
      using False procs(3) by (cases ns) simp_all
    have k: "k + (r_next s1 - k) = r_next s1" using procs(2) by simp
    have gval: "group_value (sw_exit w) k (pipe_groups (r_next s - k) (NCommand c # op # ns)) =
       (if op = NOr then (if ?st = 0 then 0 else group_value (sw_exit w) (r_next s1) (pipe_groups 0 ns))
        else if ?st \<noteq> 0 then ?st else group_value (sw_exit w) (r_next s1) (pipe_groups 0 ns))"
      unfolding two using op False by (auto simp: Let_def k)
    show ?thesis
      unfolding gval using op False IH after s1(1) by (auto simp: after_command_def)
  qed
next
  case (4 d op ns)
  then obtain dir where d: "d = Some dir" by (cases d) (auto simp: runnable_def)
  from "4.prems" have wf: "wf_pipeline ns" and op: "op = NAnd" by auto
  have run: "runnable ns" by (rule runnable_Cons [OF "4.prems"(2)]) (use wf in auto)
  let ?s1 = "s\<lparr>r_cwd := path_join (r_cwd s) dir\<rparr>"
  have "snd (run_from False w ns ?s1) = Inr (Some (group_value (sw_exit w) k (pipe_groups (r_next ?s1 - k) ns)))"
    by (rule "4.IH") (use wf run "4.prems" in simp_all)
  then show ?case using d op by (simp add: display_def)
qed simp_all

text \<open>The last pipe of a pipeline has no operator after it, the others have the ones between them.\<close>

fun groups_end :: "(nat \<times> node option) list \<Rightarrow> bool" where
  "groups_end [] = False"
| "groups_end [(n, op)] = (op = None)"
| "groups_end ((n, op) # gs) = ((op = Some NAnd \<or> op = Some NOr) \<and> groups_end gs)"

lemma pipe_groups_end: "wf_pipeline ns \<Longrightarrow> runnable ns \<Longrightarrow> groups_end (pipe_groups n ns)"
proof (induction ns arbitrary: n rule: wf_pipeline.induct)
  case (3 c op ns)
  have "wf_pipeline ns" using "3.prems" by simp
  moreover have "runnable ns" by (rule runnable_Cons [OF "3.prems"(2)]) (use calculation in auto)
  ultimately have ends: "groups_end (pipe_groups m ns)" for m by (rule "3.IH")
  have op: "op = NPipe \<or> op = NAnd \<or> op = NOr" using "3.prems"(1) by auto
  have "pipe_groups n (NCommand c # op # ns) =
      (if op = NPipe then pipe_groups (Suc n) ns else (Suc n, Some op) # pipe_groups 0 ns)"
    by (cases ns) simp_all
  moreover obtain g gs where "pipe_groups 0 ns = g # gs" using ends [of 0] by (cases "pipe_groups 0 ns") auto
  ultimately show ?case using op ends [of "Suc n"] ends [of 0] by auto
next
  case (4 d op ns)
  have "wf_pipeline ns" using "4.prems" by simp
  moreover have "runnable ns" by (rule runnable_Cons [OF "4.prems"(2)]) (use calculation in auto)
  ultimately show ?case using "4.IH" by simp
qed (simp_all add: runnable_def)

definition only_op :: "node \<Rightarrow> (nat \<times> node option) list \<Rightarrow> bool" where
  "only_op op gs = list_all (\<lambda>g. snd g = None \<or> snd g = Some op) gs"

lemma shell_value_skips:
  assumes "only_op op gs" and "groups_end gs" and "op = NAnd \<and> st \<noteq> 0 \<or> op = NOr \<and> st = 0"
  shows "shell_value ex k (Some op) st gs = st"
  using assms
proof (induction gs rule: groups_end.induct)
  case (3 n o2 g gs)
  then show ?case by (auto simp: only_op_def)
qed (auto simp: only_op_def)

lemma pipe_status_last: "0 < n \<Longrightarrow> pipe_status (map ex [k..<k + n]) = ex (k + n - 1)"
proof -
  assume n: "0 < n"
  then have "last (map ex [k..<k + n]) = ex (k + n - 1)" by (simp add: last_map)
  moreover have "k + n - 1 \<in> set [k..<k + n]" using n by auto
  ultimately show ?thesis unfolding pipe_status_def list_ex_iff by (metis (mono_tags, lifting) image_eqI list.set_map)
qed

lemma pipe_groups_positive: "list_all (\<lambda>g. 0 < fst g) (pipe_groups n p)"
  by (induction n p rule: pipe_groups.induct) simp_all

lemma group_value_shell:
  assumes "only_op NAnd gs \<or> only_op NOr gs" and "groups_end gs" and "list_all (\<lambda>g. 0 < fst g) gs"
    and "prev = None \<or> prev = Some NAnd \<and> st = 0 \<or> prev = Some NOr \<and> st \<noteq> 0"
  shows "group_value ex k gs = shell_value ex k prev st gs"
  using assms
proof (induction gs arbitrary: k prev st rule: groups_end.induct)
  case (2 n op)
  then show ?case by (auto simp: Let_def pipe_status_last)
next
  case (3 n op g gs)
  let ?st = "ex (k + n - 1)"
  have st: "pipe_status (map ex [k..<k + n]) = ?st" using "3.prems"(3) by (simp add: pipe_status_last)
  have gs: "only_op NAnd (g # gs) \<or> only_op NOr (g # gs)" "groups_end (g # gs)"
    and op: "op = Some NAnd \<and> only_op NAnd (g # gs) \<or> op = Some NOr \<and> only_op NOr (g # gs)"
    using "3.prems"(1,2) by (auto simp: only_op_def)
  have sh: "shell_value ex k prev st ((n, op) # g # gs) = shell_value ex (k + n) op ?st (g # gs)"
    using "3.prems"(4) by auto
  show ?case
  proof (cases "op = Some NAnd \<and> ?st \<noteq> 0 \<or> op = Some NOr \<and> ?st = 0")
    case True
    then have "shell_value ex (k + n) op ?st (g # gs) = ?st"
      using op gs(2) by (elim disjE) (auto intro: shell_value_skips)
    then show ?thesis unfolding sh using True by (auto simp: Let_def st)
  next
    case False
    then have "group_value ex (k + n) (g # gs) = shell_value ex (k + n) op ?st (g # gs)"
      using op gs "3.prems"(3) by (intro "3.IH") auto
    then show ?thesis unfolding sh using False op by (auto simp: Let_def st simp del: shell_value.simps)
  qed
qed simp

section \<open>Which errors a run can raise\<close>

definition run_errors :: "bool \<Rightarrow> node list \<Rightarrow> py_error set" where
  \<comment> \<open>a file or program that cannot be opened, a \<open>cd\<close> that ends the pipeline or names no
    directory, an output sent to itself, and the messages of the verbose mode\<close>
  "run_errors verbose ns =
     {OSError} \<union> (if \<exists>d. last ns = NChdir d then {IndexError} else {}) \<union>
     (if NChdir None \<in> set ns \<or> (\<exists>c. NCommand c \<in> set ns \<and> cmd_stdout c = ToStdout) then {TypeError} else {}) \<union>
     (if verbose then {UnboundLocalError} else {})"

lemma open_out_file_errors: "open_out_file w f s = (s', Inl e) \<Longrightarrow> e = OSError"
  by (auto simp: open_out_file_def split: if_splits)

lemma bindR_Inl_conv: "bindR m f = (s', Inl e) \<longleftrightarrow> m = (s', Inl e) \<or> (\<exists>s x. m = (s, Inr x) \<and> f x s = (s', Inl e))"
  by (cases m; cases "snd m") auto

lemma bindR_Inr_conv: "bindR m f = (s', Inr y) \<longleftrightarrow> (\<exists>s x. m = (s, Inr x) \<and> f x s = (s', Inr y))"
  by (cases m; cases "snd m") auto

lemma open_stdin_errors:
  "open_stdin v w c s = (s', Inl e) \<Longrightarrow> (r_piping s \<longrightarrow> r_procs s \<noteq> []) \<Longrightarrow> e = OSError"
  by (auto simp: open_stdin_def split: if_splits option.splits)

lemma open_stdout_errors: "open_stdout v w c s = (s', Inl e) \<Longrightarrow> e = OSError \<or> e = TypeError \<and> cmd_stdout c = ToStdout"
  by (cases "cmd_stdout c") (auto simp: open_stdout_def bindR_Inl_conv dest: open_out_file_errors)

lemma open_stderr_errors: "open_stderr v w c s = (s', Inl e) \<Longrightarrow> e = OSError"
  by (cases "cmd_stderr c") (auto simp: open_stderr_def bindR_Inl_conv dest: open_out_file_errors)

lemma start_command_errors:
  assumes "start_command v w c s = (s', Inl e)" and "r_piping s \<longrightarrow> r_procs s \<noteq> []"
  shows "e = OSError \<or> e = TypeError \<and> cmd_stdout c = ToStdout"
proof -
  have "r_piping (display v (command_text c) s) \<longrightarrow> r_procs (display v (command_text c) s) \<noteq> []"
    using assms(2) by simp
  note stdin = open_stdin_errors [OF _ this]
  from assms(1) show ?thesis
    by (auto simp: start_command_split open_streams_def spawn_command_def bindR_Inl_conv split: if_splits
        dest: stdin open_stdout_errors open_stderr_errors)
qed

lemma start_command_procs: "start_command v w c s = (s', Inr ()) \<Longrightarrow> r_procs s' \<noteq> []"
  by (auto simp: start_command_split spawn_command_def bindR_Inr_conv split: if_splits)

lemma after_command_errors:
  assumes "after_command v w op s = (s', Inl e)"
  shows "v \<and> e = UnboundLocalError"
  using assms by (cases op) (auto simp: after_command_def elim!: after_group_cases)

lemma after_command_piping:
  assumes "after_command v w op s = (s', Inr None)" and "op = NPipe \<or> op = NAnd \<or> op = NOr" and "r_procs s \<noteq> []"
  shows "r_piping s' \<longrightarrow> r_procs s' \<noteq> []"
  using assms by (auto simp: after_command_def elim!: after_group_cases)

lemma run_errors_Cons: "ns \<noteq> [] \<Longrightarrow> e \<in> run_errors v ns \<Longrightarrow> e \<in> run_errors v (n # op # ns)"
  by (auto simp: run_errors_def split: if_splits)

lemma run_from_errors:
  assumes "wf_pipeline ns" and "run_from v w ns s = (s', Inl e)" and "r_piping s \<longrightarrow> r_procs s \<noteq> []"
  shows "e \<in> run_errors v ns"
  using assms
proof (induction ns arbitrary: s rule: wf_pipeline.induct)
  case (1 c)
  then show ?case
    by (auto simp: bindR_Inl_conv finish_pipeline_def run_errors_def Let_def split: prod.splits
        dest: start_command_errors)
next
  case (2 d)
  then show ?case by (simp add: run_errors_def)
next
  case (3 c op ns)
  from "3.prems"(1) have wf: "wf_pipeline ns" and op: "op = NPipe \<or> op = NAnd \<or> op = NOr" by auto
  then have ne: "ns \<noteq> []" by auto
  obtain s1 x where start: "start_command v w c s = (s1, x)" by fastforce
  show ?case
  proof (cases x)
    case (Inl f)
    then have "e = OSError \<or> e = TypeError \<and> cmd_stdout c = ToStdout"
      using "3.prems"(2,3) start start_command_errors by simp
    then show ?thesis by (auto simp: run_errors_def)
  next
    case (Inr u)
    then have s1: "r_procs s1 \<noteq> []" using start start_command_procs by simp
    obtain s2 r where after: "after_command v w op s1 = (s2, r)" by fastforce
    show ?thesis
    proof (cases r)
      case (Inl f)
      then have "v \<and> e = UnboundLocalError"
        using "3.prems"(2) start \<open>x = Inr u\<close> after after_command_errors [of v w op s1 s2 f] by simp
      then show ?thesis by (simp add: run_errors_def)
    next
      case r: (Inr res)
      then have "res = None" and run: "run_from v w ns s2 = (s', Inl e)"
        using "3.prems"(2) start Inr after by (auto split: option.splits)
      then have "e \<in> run_errors v ns"
        using "3.IH" [OF wf run] after_command_piping [OF _ op s1] after r by simp
      then show ?thesis by (rule run_errors_Cons [OF ne])
    qed
  qed
next
  case (4 d op ns)
  from "4.prems"(1) have wf: "wf_pipeline ns" and op: "op = NAnd" by auto
  then have ne: "ns \<noteq> []" by auto
  show ?case
  proof (cases d)
    case None
    then show ?thesis using "4.prems"(2) op by (auto simp: run_errors_def)
  next
    case (Some dir)
    let ?s1 = "display v (''cd '' @ dir @ '' &&'') (s\<lparr>r_cwd := path_join (r_cwd s) dir\<rparr>)"
    have "run_from v w ns ?s1 = (s', Inl e)" using "4.prems"(2) Some op by simp
    then have "e \<in> run_errors v ns" using "4.prems"(3) by (intro "4.IH" [OF wf, of ?s1]) simp_all
    then show ?thesis by (rule run_errors_Cons [OF ne])
  qed
qed simp_all

lemma run_from_verbose:
  assumes "world_ok w" and "wf_pipeline ns" and "runnable ns" and "r_piping s \<longrightarrow> r_procs s \<noteq> []"
    and "pipe_groups n ns = (m, Some op) # gs"
  shows "snd (run_from True w ns s) = Inl UnboundLocalError"
  using assms(2-)
proof (induction ns arbitrary: s n rule: wf_pipeline.induct)
  case (3 c op' ns)
  from "3.prems" have out: "cmd_stdout c \<noteq> ToStdout" and wf: "wf_pipeline ns"
    and op: "op' = NPipe \<or> op' = NAnd \<or> op' = NOr" by (auto simp: runnable_def)
  have run: "runnable ns" by (rule runnable_Cons [OF "3.prems"(2)]) (use wf in auto)
  from start_command_ok [OF assms(1) out "3.prems"(3)] obtain s1 where
    s1: "start_command True w c s = (s1, Inr ())" "r_procs s1 = r_procs s @ [r_next s]" by blast
  show ?case
  proof (cases "op' = NPipe")
    case True
    then have "pipe_groups (Suc n) ns = (m, Some op) # gs" using "3.prems"(4) by (cases ns) auto
    then have "snd (run_from True w ns (s1\<lparr>r_piping := True, r_display := r_display s1 @ [''|'']\<rparr>)) =
        Inl UnboundLocalError"
      using s1(2) by (intro "3.IH" [OF wf run]) simp_all
    then show ?thesis using True s1(1) by (simp add: after_command_def)
  next
    case False
    have "after_group True w stops s1 = (settle w s1, Inl UnboundLocalError)" for stops
      by (simp add: after_group_def settle_def exec_piped_commands_def)
    then have "after_command True w op' s1 = (settle w s1, Inl UnboundLocalError)"
      using op False by (auto simp: after_command_def)
    then show ?thesis using s1(1) by simp
  qed
next
  case (4 d op' ns)
  then obtain dir where d: "d = Some dir" by (cases d) (auto simp: runnable_def)
  from "4.prems" have wf: "wf_pipeline ns" and op: "op' = NAnd" by auto
  have run: "runnable ns" by (rule runnable_Cons [OF "4.prems"(2)]) (use wf in auto)
  have "snd (run_from True w ns (display True (''cd '' @ dir @ '' &&'') (s\<lparr>r_cwd := path_join (r_cwd s) dir\<rparr>))) =
      Inl UnboundLocalError"
    using "4.prems" by (intro "4.IH" [OF wf run]) simp_all
  then show ?case using d op by simp
qed simp_all

section \<open>Properties\<close>


text \<open>
  C25: with both operators the run can stop where the shell goes on: when \<open>a\<close> fails in
  \<open>a && b || c\<close>, its status is returned and \<open>c\<close> is never started, and when \<open>a\<close> succeeds in
  \<open>a || b && c\<close>, 0 is returned and \<open>c\<close> is never started; the shell would run \<open>c\<close> in both and
  return its status.
\<close>

theorem mixed_operators_stop:
  assumes "world_ok w" and "wf_pipeline p" and "runnable p"
    and "pipe_groups 0 p = [(1, Some op), (1, Some op'), (1, None)]"
    and "op = NAnd \<and> op' = NOr \<and> sw_exit w 0 \<noteq> 0 \<or> op = NOr \<and> op' = NAnd \<and> sw_exit w 0 = 0"
  shows "snd (run_pipeline False w p) = Inr (Some (sw_exit w 0)) \<and>
     shell_value (sw_exit w) 0 None 0 (pipe_groups 0 p) = sw_exit w 1"
proof -
  have "snd (run_pipeline False w p) = Inr (Some (group_value (sw_exit w) 0 (pipe_groups 0 p)))"
    using run_from_value [OF assms(1-3), of init_run 0] by (simp add: run_pipeline_def init_run_def)
  moreover have "pipe_status [x] = x" for x by (simp add: pipe_status_def)
  ultimately show ?thesis
    unfolding assms(4) using assms(5) by (auto simp: Let_def)
qed

text \<open>
  C12: when a run returns a status, every file it opened has been closed, once for each time it was
  opened, and every process it started has been waited for exactly once, in the order of the starts.
\<close>

theorem run_leaves_nothing:
  assumes "run_pipeline verbose w p = (s, Inr (Some retval))"
  shows "opened (r_events s) = closed (r_events s) \<and> spawned (r_events s) = [0..<r_next s] \<and>
     waited (r_events s) = [0..<r_next s]"
  using run_from_settled [OF run_inv_init assms [unfolded run_pipeline_def]] by (simp add: all_settled_def)

text \<open>
  no assertion of \<open>run\<close> fails on what \<open>parse\<close> returns: the errors left are a file or program
  that cannot be opened, a directory change that ends the pipeline, a \<open>cd\<close> without a directory, an
  output sent to itself, and the messages of the verbose mode.
\<close>

theorem run_of_parsed_errors:
  assumes "parse_command text = Inr p" and "run_pipeline verbose w p = (s, Inl e)"
  shows "e \<in> run_errors verbose p"
proof -
  have "wf_pipeline p" using assms(1) parse_tokens_wf by (auto simp: parse_command_def bindE_Inr_conv)
  then show ?thesis
    using assms(2) unfolding run_pipeline_def by (rule run_from_errors) (simp add: init_run_def)
qed

text \<open>
  in verbose mode a pipeline with an operator never returns: after the first pipe its message
  reads the unassigned \<open>retval\<close>.
\<close>

theorem verbose_operator_fails:
  assumes "world_ok w" and "wf_pipeline p" and "runnable p" and "pipe_groups 0 p = (m, Some op) # gs"
  shows "snd (run_pipeline True w p) = Inl UnboundLocalError"
  using run_from_verbose [OF assms(1-3) _ assms(4), of init_run] by (simp add: run_pipeline_def init_run_def)

section \<open>Witnesses\<close>

definition demo_shell_world :: "(nat \<Rightarrow> int) \<Rightarrow> shell_world" where
  "demo_shell_world ex = \<lparr> sw_open = (\<lambda>f. True), sw_spawn = (\<lambda>a. True), sw_exit = ex, sw_environ = [] \<rparr>"

definition three :: "node \<Rightarrow> node \<Rightarrow> node list" where
  "three op op' = [NCommand (new_command ''a''), op, NCommand (new_command ''b''), op', NCommand (new_command ''c'')]"

lemma three_ok:
  assumes "op \<in> {NAnd, NOr}" and "op' \<in> {NAnd, NOr}"
  shows "wf_pipeline (three op op')" and "runnable (three op op')"
    and "pipe_groups 0 (three op op') = [(1, Some op), (1, Some op'), (1, None)]"
  using assms by (auto simp: three_def runnable_def new_command_def)

lemma demo_world_ok: "world_ok (demo_shell_world ex)"
  by (simp add: world_ok_def demo_shell_world_def)


theorem mixed_operators_stop_witness:
  "snd (run_pipeline False (demo_shell_world (\<lambda>i. if i = 0 then 3 else 0)) (three NAnd NOr)) = Inr (Some 3)"
  using mixed_operators_stop [OF demo_world_ok [of "\<lambda>i. if i = 0 then 3 else 0"] three_ok [of NAnd NOr]]
  by (simp add: demo_shell_world_def)

theorem run_leaves_nothing_witness:
  "\<exists>s. run_pipeline False (demo_shell_world (\<lambda>i. 0)) demo_pipeline = (s, Inr (Some 0)) \<and>
     opened (r_events s) = closed (r_events s) \<and> waited (r_events s) = [0, 1, 2]"
proof -
  define r where "r = run_pipeline False (demo_shell_world (\<lambda>i. 0)) demo_pipeline"
  have "snd r = Inr (Some 0)" "r_next (fst r) = 3"
    unfolding r_def by code_simp+
  then have r: "run_pipeline False (demo_shell_world (\<lambda>i. 0)) demo_pipeline = (fst r, Inr (Some 0))"
    unfolding r_def by (metis prod.collapse)
  from run_leaves_nothing [OF r] r \<open>r_next (fst r) = 3\<close> show ?thesis
    by (intro exI [of _ "fst r"]) (simp add: upt_rec)
qed

theorem run_of_parsed_errors_witness:
  "snd (run_pipeline False (demo_shell_world (\<lambda>i. 0)) [NChdir (Some ''x'')]) = Inl IndexError \<and>
   IndexError \<in> run_errors False [NChdir (Some ''x'')]"
proof -
  have p: "parse_command ''cd x'' = Inr [NChdir (Some ''x'')]" by code_simp
  have r: "run_pipeline False (demo_shell_world (\<lambda>i. 0)) [NChdir (Some ''x'')] = (init_run, Inl IndexError)"
    by (simp add: run_pipeline_def)
  from run_of_parsed_errors [OF p r] r show ?thesis by simp
qed

theorem verbose_operator_fails_witness:
  "snd (run_pipeline True (demo_shell_world (\<lambda>i. 0)) (three NAnd NAnd)) = Inl UnboundLocalError"
  by (rule verbose_operator_fails [OF demo_world_ok three_ok [of NAnd NAnd]]) simp_all

end
