(* ===== verification/Rad_Util.thy ===== *)
theory Rad_Util
  imports Complex_Main Py_Int
begin

unbundle bit_operations_syntax

text \<open>
  The integer and list functions of \<^verbatim>\<open>bindings/python/rad_util.py\<close>: binary strings, greatest
  common factor, permutations, Gray code, rotations, common prefixes and suffixes, duplicates,
  command-line dictionaries. Integers are unbounded, as in Python; functions that only make sense
  on floats are not modelled. The file is Python 2 code; where Python 3 differs, the interpreter is
  a parameter.
\<close>

section \<open>Binary strings\<close>

definition hex2bin :: "char \<Rightarrow> string res" where
  "hex2bin c =
     (case map_of [(CHR ''0'', ''0000''), (CHR ''1'', ''0001''), (CHR ''2'', ''0010''), (CHR ''3'', ''0011''),
                   (CHR ''4'', ''0100''), (CHR ''5'', ''0101''), (CHR ''6'', ''0110''), (CHR ''7'', ''0111''),
                   (CHR ''8'', ''1000''), (CHR ''9'', ''1001''), (CHR ''a'', ''1010''), (CHR ''b'', ''1011''),
                   (CHR ''c'', ''1100''), (CHR ''d'', ''1101''), (CHR ''e'', ''1110''), (CHR ''f'', ''1111'')] c of
        Some b \<Rightarrow> Inr b | None \<Rightarrow> Inl KeyError)"

definition hex_char :: "nat \<Rightarrow> char" where
  "hex_char d = (if d < 10 then char_of (48 + d) else char_of (87 + d))"

fun hex_nat :: "nat \<Rightarrow> string" where
  "hex_nat n = (if n < 16 then [hex_char n] else hex_nat (n div 16) @ [hex_char (n mod 16)])"

declare hex_nat.simps [simp del]

definition py_hex :: "int \<Rightarrow> string" where
  "py_hex i = (if i < 0 then ''-0x'' @ hex_nat (nat (- i)) else ''0x'' @ hex_nat (nat i))"

definition int2bin :: "int \<Rightarrow> int \<Rightarrow> string res" where
  "int2bin i n =
     bindE (mapE hex2bin (slice_from (filter (\<lambda>c. c \<noteq> CHR ''l'') (map char_lower (py_hex i))) 2)) (\<lambda>parts.
     let result = concat parts in
     if CHR ''1'' \<in> set (slice_to result (- n)) then Inl ValueError
     else (let result = slice_from result (- n)
           in Inr (replicate (nat (n - int (length result))) CHR ''0'' @ result)))"

definition bin2int :: "string \<Rightarrow> int res" where
  "bin2int bin_string = (case py_int 2 bin_string of Some i \<Rightarrow> Inr i | None \<Rightarrow> Inl ValueError)"

definition reverse_string :: "'a list \<Rightarrow> 'a list" where
  "reverse_string input_string = rev input_string"

definition transpose_matrix :: "'a list list \<Rightarrow> 'a list list" where
  \<comment> \<open>\<open>map(list, zip(*matrix))\<close>: as long as the shortest row\<close>
  "transpose_matrix matrix =
     (if matrix = [] then []
      else map (\<lambda>j. map (\<lambda>row. row ! j) matrix) [0..<Min (set (map length matrix))])"

section \<open>Areas and factors\<close>

text \<open>Integer coordinates; the points are scaled in place, and \<open>area / 2\<close> is a Python 2 division.\<close>

fun shoelace :: "(int \<times> int) list \<Rightarrow> int" where
  "shoelace ((x0, y0) # (x1, y1) # ps) = x1 * y0 - y1 * x0 + shoelace ((x1, y1) # ps)"
| "shoelace _ = 0"

definition polygon_area :: "(int \<times> int) list \<Rightarrow> int \<Rightarrow> ((int \<times> int) list \<times> rat) res" where
  "polygon_area points_list precision =
     (let scaled = map (\<lambda>(x, y). (x * precision, y * precision)) points_list
      in if scaled = [] then Inl IndexError
         else if precision = 0 then Inl ZeroDivisionError
         else (let points = (if last scaled \<noteq> hd scaled then scaled @ [hd scaled] else scaled);
                   area = \<bar>shoelace points div 2\<bar>
               in Inr (points, of_int area / of_int (precision ^ 2))))"

function gcf_loop :: "int \<Rightarrow> int \<Rightarrow> int" where
  "gcf_loop result remainder = (if remainder = 0 then result else gcf_loop remainder (result mod remainder))"
  by pat_completeness auto
termination
proof (relation "measure (\<lambda>(_, r). nat \<bar>r\<bar>)")
  fix result remainder :: int
  assume "remainder \<noteq> 0"
  then show "((remainder, result mod remainder), (result, remainder)) \<in> measure (\<lambda>(_, r). nat \<bar>r\<bar>)"
    by (simp add: abs_mod_less)
qed simp

declare gcf_loop.simps [simp del]

definition gcf :: "int \<Rightarrow> int \<Rightarrow> int" where
  \<comment> \<open>on integers \<open>abs(remainder) > epsilon\<close> says \<open>remainder != 0\<close>\<close>
  "gcf a b = \<bar>gcf_loop (max a b) (min a b)\<bar>"

definition py_lcm :: "py_version \<Rightarrow> int \<Rightarrow> int \<Rightarrow> rat" where
  \<comment> \<open>\<open>a * (b / denom)\<close>: the floor of the quotient in Python 2, the quotient in Python 3\<close>
  "py_lcm v a b =
     (let denom = gcf a b
      in if denom = 0 then 0
         else case v of Py2 \<Rightarrow> of_int (a * (b div denom)) | Py3 \<Rightarrow> of_int a * (of_int b / of_int denom))"

definition reduce_fraction :: "int \<times> int \<Rightarrow> (int \<times> int) res" where
  "reduce_fraction =
     (\<lambda>(numerator, denominator).
        let common_factor = \<bar>gcf numerator denominator\<bar>
        in if common_factor = 0 then Inl ZeroDivisionError
           else Inr (numerator div common_factor, denominator div common_factor))"

section \<open>Lists and dictionaries\<close>

definition insert_at :: "nat \<Rightarrow> 'a \<Rightarrow> 'a list \<Rightarrow> 'a list" where
  "insert_at i x xs = take i xs @ x # drop i xs"

fun permutations :: "'a list \<Rightarrow> 'a list list" where
  "permutations (x # y # xs) =
     concat (map (\<lambda>sub_list. map (\<lambda>i. insert_at i x sub_list) [0..<length (x # y # xs)]) (permutations (y # xs)))"
| "permutations xs = [xs]"

fun dedupe :: "'a list \<Rightarrow> 'a list \<Rightarrow> 'a list" where
  "dedupe seen [] = []"
| "dedupe seen (x # xs) = (if x \<in> set seen then dedupe seen xs else x # dedupe (seen @ [x]) xs)"

text \<open>The order of the keys of a Python 2 dictionary is arbitrary: \<open>key_order\<close> permutes them.\<close>

definition uniquify :: "bool \<Rightarrow> ('a list \<Rightarrow> 'a list) \<Rightarrow> 'a list \<Rightarrow> bool \<Rightarrow> 'a list" where
  "uniquify hashable key_order seq preserve_order =
     (if hashable
      then (if preserve_order then dedupe [] seq
            else key_order (dict_keys (foldl (\<lambda>d x. dict_set x (0::nat) d) [] seq)))
      else foldl (\<lambda>result x. if x \<notin> set result then result @ [x] else result) [] seq)"

definition reverse_dict :: "('k, 'v) dict \<Rightarrow> ('v, 'k) dict" where
  "reverse_dict d = foldl (\<lambda>result (key, val). dict_set val key result) [] d"

definition lsb :: "int \<Rightarrow> nat \<Rightarrow> int" where
  "lsb x n = x AND (2 ^ n - 1)"

definition gray_encode :: "int \<Rightarrow> int" where
  "gray_encode i = i XOR drop_bit 1 i"

section \<open>All binary strings\<close>

text \<open>
  One pass of the inner loop of \<open>binary_range\<close>: the bits, least significant first, and the toggle
  list, whose last element says that the counter has run over.
\<close>

function toggle_bits :: "nat \<Rightarrow> nat \<Rightarrow> string \<Rightarrow> nat list \<Rightarrow> string \<times> nat list" where
  "toggle_bits bits i v toggle =
     (if i < bits \<and> toggle ! i = 1
      then (if v ! i = CHR ''0''
            then toggle_bits bits (Suc i) (v[i := CHR ''1'']) (toggle[Suc i := 0])
            else toggle_bits bits (Suc i) (v[i := CHR ''0'']) (toggle[Suc i := 1]))
      else (v, toggle))"
  by pat_completeness auto
termination
  by (relation "measure (\<lambda>(bits, i, v, toggle). bits - i)") auto

declare toggle_bits.simps [simp del]

partial_function (option) binary_range_loop ::
    "nat \<Rightarrow> string \<Rightarrow> nat list \<Rightarrow> string list \<Rightarrow> string list option" where
  "binary_range_loop bits v toggle l =
     (if toggle ! bits \<noteq> 1
      then (case toggle_bits bits 0 v (1 # replicate bits 0) of
              (v', toggle') \<Rightarrow> binary_range_loop bits v' toggle' (l @ [rev v]))
      else Some l)"

definition binary_range :: "nat \<Rightarrow> string list option" where
  \<comment> \<open>\<open>None\<close> would be a loop that does not end\<close>
  "binary_range bits = binary_range_loop bits (replicate bits CHR ''0'') (1 # replicate bits 0) []"

section \<open>Common parts and rotations\<close>

fun common_prefix :: "string \<Rightarrow> string \<Rightarrow> string" where
  "common_prefix (a # s) (b # t) = (if a \<noteq> b then [] else a # common_prefix s t)"
| "common_prefix _ _ = []"

definition find_common_fixes :: "string \<Rightarrow> string \<Rightarrow> string \<times> string" where
  "find_common_fixes s1 s2 = (common_prefix s1 s2, rev (common_prefix (rev s1) (rev s2)))"

definition is_rotated :: "'a list \<Rightarrow> 'a list \<Rightarrow> bool res" where
  "is_rotated seq1 seq2 =
     (if length seq1 \<noteq> length seq2 then Inr False
      else (case seq2 of
              [] \<Rightarrow> Inl IndexError
            | head_item # _ \<Rightarrow>
                let start_indexes = filter (\<lambda>i. seq1 ! i = head_item) [0..<length seq1];
                    double_seq1 = seq1 @ seq1
                in Inr (list_ex (\<lambda>i. take (length seq1) (drop i double_seq1) = seq2) start_indexes)))"

datatype arg_value = ArgText string | ArgNone | ArgList "string list"

definition get_args :: "string list \<Rightarrow> (string, arg_value) dict" where
  "get_args argv =
     (let (d, args) = foldl (\<lambda>(d, args) arg.
            if prefix ''-'' arg
            then (let parts = py_split CHR ''='' (dropWhile (\<lambda>c. c = CHR ''-'') arg)
                  in case parts of
                       [k, v] \<Rightarrow> (dict_set k (ArgText v) d, args)
                     | _ \<Rightarrow> (dict_set (hd parts) ArgNone d, args))
            else (d, args @ [arg])) ([], []) argv
      in dict_set ''args'' (ArgList args) d)"

section \<open>Greatest common factors\<close>

lemma gcf_loop_gcd: "\<bar>gcf_loop a b\<bar> = gcd a b"
proof (induction a b rule: gcf_loop.induct)
  case (1 a b)
  show ?case
  proof (cases "b = 0")
    case False
    with 1 have "\<bar>gcf_loop b (a mod b)\<bar> = gcd b (a mod b)" by simp
    also have "\<dots> = gcd a b" by (simp add: gcd_red_int [symmetric])
    finally show ?thesis using False by (subst gcf_loop.simps) simp
  qed (subst gcf_loop.simps, simp)
qed

lemma gcf_gcd: "gcf a b = gcd a b"
  by (simp add: gcf_def gcf_loop_gcd max_def min_def gcd.commute)

lemma reduce_fraction_lowest:
  assumes "(n, d) \<noteq> (0, 0)"
  shows "\<exists>n' d'. reduce_fraction (n, d) = Inr (n', d') \<and> n * d' = n' * d \<and> coprime n' d' \<and> sgn d' = sgn d"
proof -
  have g: "gcd n d > 0" using assms by simp
  have "n div gcd n d * gcd n d = n" "d div gcd n d * gcd n d = d" by simp_all
  then have "n * (d div gcd n d) = n div gcd n d * d" by (metis mult.assoc mult.commute)
  moreover have "coprime (n div gcd n d) (d div gcd n d)" using g assms by (intro div_gcd_coprime) auto
  moreover have "sgn (d div gcd n d) = sgn d"
    using g \<open>d div gcd n d * gcd n d = d\<close> by (metis mult.commute mult_sgn_abs sgn_mult sgn_pos mult.left_neutral)
  moreover have "reduce_fraction (n, d) = Inr (n div gcd n d, d div gcd n d)"
    using assms by (auto simp: reduce_fraction_def gcf_gcd Let_def)
  ultimately show ?thesis by blast
qed

section \<open>Permutations\<close>

lemma mset_insert_at [simp]: "mset (insert_at i x xs) = add_mset x (mset xs)"
proof -
  have "mset (insert_at i x xs) = add_mset x (mset (take i xs) + mset (drop i xs))"
    by (simp add: insert_at_def)
  also have "mset (take i xs) + mset (drop i xs) = mset xs"
    by (metis append_take_drop_id mset_append)
  finally show ?thesis .
qed

lemma insert_at_split: "ys = zs @ x # us \<Longrightarrow> ys = insert_at (length zs) x (zs @ us)"
  by (simp add: insert_at_def)

lemma in_set_concat_map: "x \<in> set (concat (map f xs)) \<longleftrightarrow> (\<exists>a \<in> set xs. x \<in> set (f a))"
  by simp

lemma set_permutations: "set (permutations xs) = {ys. mset ys = mset xs}"
proof (induction xs rule: permutations.induct)
  case (1 x y xs)
  show ?case
  proof (intro set_eqI iffI)
    fix ys
    assume "ys \<in> set (permutations (x # y # xs))"
    with 1 show "ys \<in> {ys. mset ys = mset (x # y # xs)}" by auto
  next
    fix ys
    assume "ys \<in> {ys. mset ys = mset (x # y # xs)}"
    then have m: "mset ys = mset (x # y # xs)" by simp
    then have "x \<in> set ys" by (metis list.set_intros(1) mset_eq_setD)
    then obtain zs us where split: "ys = zs @ x # us" by (meson split_list)
    then have "mset (zs @ us) = mset (y # xs)" using m by simp
    then have sub: "zs @ us \<in> set (permutations (y # xs))" using 1 by simp
    have "length zs < length (x # y # xs)" using m split by (metis size_mset length_append length_Cons le_add1 less_Suc_eq_le add_Suc_right)
    then have "insert_at (length zs) x (zs @ us) \<in> set (map (\<lambda>i. insert_at i x (zs @ us)) [0..<length (x # y # xs)])"
      unfolding set_map set_upt by (intro imageI) simp
    then have "ys \<in> set (map (\<lambda>i. insert_at i x (zs @ us)) [0..<length (x # y # xs)])"
      by (simp only: insert_at_split [OF split])
    with sub show "ys \<in> set (permutations (x # y # xs))"
      unfolding permutations.simps(1) in_set_concat_map by (rule bexI [rotated])
  qed
qed (auto simp: mset_single_iff_right)

lemma length_permutations: "xs \<noteq> [] \<Longrightarrow> length (permutations xs) = fact (length xs)"
  by (induction xs rule: permutations.induct) (auto simp: length_concat o_def sum_list_triv algebra_simps)

section \<open>Rotations\<close>

lemma take_drop_rotate: "i \<le> length xs \<Longrightarrow> take (length xs) (drop i (xs @ xs)) = rotate i xs"
  by (cases "i = length xs") (simp_all add: rotate_drop_take)

lemma is_rotated_rotate:
  assumes "seq1 \<noteq> []"
  shows "is_rotated seq1 seq2 = Inr (\<exists>i < length seq1. seq2 = rotate i seq1)"
proof (cases "length seq1 = length seq2")
  case True
  then obtain h t where seq2: "seq2 = h # t" using assms by (cases seq2) auto
  have hd: "seq1 ! i = h" if "seq2 = rotate i seq1" "i < length seq1" for i
    using that seq2 assms by (metis hd_rotate_conv_nth list.sel(1) mod_less)
  have "list_ex (\<lambda>i. take (length seq1) (drop i (seq1 @ seq1)) = seq2) (filter (\<lambda>i. seq1 ! i = h) [0..<length seq1]) \<longleftrightarrow>
      (\<exists>i < length seq1. seq1 ! i = h \<and> rotate i seq1 = seq2)"
    unfolding list_ex_iff set_filter set_upt
    by (auto simp del: drop_append take_append simp: take_drop_rotate)
  also have "\<dots> \<longleftrightarrow> (\<exists>i < length seq1. seq2 = rotate i seq1)" using hd by blast
  finally show ?thesis
    using True seq2 by (simp add: is_rotated_def Let_def del: drop_append take_append)
next
  case False
  then show ?thesis by (auto simp: is_rotated_def)
qed

section \<open>Counting in binary\<close>

text \<open>The bits of a number, least significant first, and adding one to them.\<close>

fun lsb_bits :: "nat \<Rightarrow> nat \<Rightarrow> string" where
  "lsb_bits 0 k = []"
| "lsb_bits (Suc n) k = (if odd k then CHR ''1'' else CHR ''0'') # lsb_bits n (k div 2)"

fun inc_bits :: "string \<Rightarrow> string \<times> bool" where
  "inc_bits [] = ([], True)"
| "inc_bits (c # v) =
     (if c = CHR ''0'' then (CHR ''1'' # v, False)
      else (let (v', carry) = inc_bits v in (CHR ''0'' # v', carry)))"

lemma length_lsb_bits [simp]: "length (lsb_bits n k) = n"
  by (induction n arbitrary: k) simp_all

lemma inc_lsb_bits: "inc_bits (lsb_bits n k) = (lsb_bits n (Suc k), Suc k mod 2 ^ n = 0)"
proof (induction n arbitrary: k)
  case (Suc n)
  show ?case
  proof (cases "even k")
    case True
    then have "\<not> 2 ^ Suc n dvd Suc k"
      by (metis dvd_mult_left even_Suc power_Suc)
    with True show ?thesis by (simp add: mod_eq_0_iff_dvd)
  next
    case False
    then have k: "Suc k = 2 * Suc (k div 2)" by presburger
    then have "Suc k mod 2 ^ Suc n = 0 \<longleftrightarrow> Suc (k div 2) mod 2 ^ n = 0"
      by (simp only: power_Suc mult_mod_right [symmetric]) simp
    moreover have "Suc k div 2 = Suc (k div 2)" "even (Suc k)" using False by presburger+
    ultimately show ?thesis using False Suc [of "k div 2"] by simp
  qed
qed simp

lemma toggle_bits_inc:
  assumes "length v = bits - i" and "length pre = i" and "length toggle = Suc bits" and "i \<le> bits"
    and "toggle ! i = 1" and "\<forall>j. i < j \<and> j \<le> bits \<longrightarrow> toggle ! j = 0"
  shows "fst (toggle_bits bits i (pre @ v) toggle) = pre @ fst (inc_bits v) \<and>
     (snd (toggle_bits bits i (pre @ v) toggle) ! bits = 1) = snd (inc_bits v)"
  using assms
proof (induction v arbitrary: i pre toggle)
  case Nil
  then show ?case by (subst (1 2) toggle_bits.simps) auto
next
  case (Cons c v)
  then have i: "i < bits" by simp
  have nth: "(pre @ c # v) ! i = c" using Cons.prems(2) by (simp add: nth_append)
  have upd: "(pre @ c # v)[i := d] = (pre @ [d]) @ v" for d
    using Cons.prems(2) by (simp add: list_update_append)
  show ?case
  proof (cases "c = CHR ''0''")
    case True
    have stop: "toggle_bits bits (Suc i) ((pre @ [CHR ''1'']) @ v) (toggle[Suc i := 0]) =
        ((pre @ [CHR ''1'']) @ v, toggle[Suc i := 0])"
      using i Cons.prems(3) by (subst toggle_bits.simps) simp
    have "toggle[Suc i := 0] ! bits \<noteq> 1"
      using i Cons.prems(3,6) by (cases "Suc i = bits") auto
    then show ?thesis
      using True i Cons.prems(5) nth upd stop by (subst (1 2) toggle_bits.simps) simp
  next
    case False
    have "toggle_bits bits i (pre @ c # v) toggle =
        toggle_bits bits (Suc i) ((pre @ [CHR ''0'']) @ v) (toggle[Suc i := 1])"
      using False i Cons.prems(5) nth upd by (subst toggle_bits.simps) simp
    moreover have "\<forall>j. Suc i < j \<and> j \<le> bits \<longrightarrow> toggle[Suc i := 1] ! j = 0"
      using Cons.prems(6) by auto
    ultimately show ?thesis
      using Cons.IH [of "Suc i" "pre @ [CHR ''0'']" "toggle[Suc i := 1]"] False i Cons.prems
      by (cases "inc_bits v") simp
  qed
qed

lemma binary_range_loop_from:
  assumes "0 < bits" and "k < 2 ^ bits" and "toggle ! bits \<noteq> 1"
  shows "binary_range_loop bits (lsb_bits bits k) toggle l =
     Some (l @ map (\<lambda>i. rev (lsb_bits bits i)) [k..<2 ^ bits])"
  using assms(2,3)
proof (induction "2 ^ bits - k" arbitrary: k toggle l rule: less_induct)
  case less
  let ?t = "toggle_bits bits 0 (lsb_bits bits k) (1 # replicate bits 0)"
  have "fst ?t = lsb_bits bits (Suc k) \<and> (snd ?t ! bits = 1) = (Suc k mod 2 ^ bits = 0)"
  proof -
    have zero: "\<forall>j. 0 < j \<and> j \<le> bits \<longrightarrow> (1 # replicate bits 0) ! j = (0::nat)"
      by (auto simp: nth_Cons')
    show ?thesis
      using toggle_bits_inc [OF _ _ _ _ _ zero, of "lsb_bits bits k" "[]"] by (simp add: inc_lsb_bits)
  qed
  then obtain tg where t: "?t = (lsb_bits bits (Suc k), tg)" "(tg ! bits = 1) = (Suc k mod 2 ^ bits = 0)"
    by (cases ?t) auto
  have step: "binary_range_loop bits (lsb_bits bits k) toggle l =
      binary_range_loop bits (lsb_bits bits (Suc k)) tg (l @ [rev (lsb_bits bits k)])"
    using less.prems(2) t(1) by (subst binary_range_loop.simps) simp
  have upt: "[k..<2 ^ bits] = k # [Suc k..<2 ^ bits]" using less.prems(1) by (simp add: upt_conv_Cons)
  show ?case
  proof (cases "Suc k = 2 ^ bits")
    case True
    then have "binary_range_loop bits (lsb_bits bits (Suc k)) tg l' = Some l'" for l'
      using t(2) by (subst binary_range_loop.simps) simp
    then show ?thesis using step upt True by simp
  next
    case False
    then have k: "Suc k < 2 ^ bits" using less.prems(1) by simp
    then have "tg ! bits \<noteq> 1" using t(2) by simp
    with less.hyps [of "Suc k" tg] k step upt less.prems(1) show ?thesis by simp
  qed
qed

lemma binary_range_lsb:
  assumes "0 < bits"
  shows "binary_range bits = Some (map (\<lambda>i. rev (lsb_bits bits i)) [0..<2 ^ bits])"
proof -
  have "replicate bits CHR ''0'' = lsb_bits bits 0" by (induction bits) simp_all
  then show ?thesis
    using binary_range_loop_from [of bits 0 "1 # replicate bits 0" "[]"] assms
    by (simp add: binary_range_def nth_Cons')
qed

section \<open>Binary strings and numbers\<close>

definition bit_char :: "char \<Rightarrow> bool" where
  "bit_char c = (c = CHR ''0'' \<or> c = CHR ''1'')"

lemma radix_bits: "radix_digit CHR ''0'' = Some 0" "radix_digit CHR ''1'' = Some 1"
  by code_simp+

fun bits_val :: "string \<Rightarrow> nat" where
  "bits_val [] = 0"
| "bits_val (c # s) = (if c = CHR ''1'' then 2 ^ length s else 0) + bits_val s"

lemma radix_bits_val:
  "list_all bit_char s \<Longrightarrow> radix_digits 2 acc s = Some (acc * 2 ^ length s + bits_val s)"
  by (induction s arbitrary: acc) (auto simp: bit_char_def radix_bits algebra_simps)

lemma bits_val_less: "bits_val s < 2 ^ length s"
  by (induction s) auto

lemma bits_val_zero: "bits_val s = 0 \<longleftrightarrow> CHR ''1'' \<notin> set s"
  by (induction s) auto

lemma bits_val_append: "bits_val (s @ t) = bits_val s * 2 ^ length t + bits_val t"
  by (induction s) (auto simp: algebra_simps power_add)

lemma bits_val_unique:
  "list_all bit_char s \<Longrightarrow> list_all bit_char t \<Longrightarrow> length s = length t \<Longrightarrow> bits_val s = bits_val t \<Longrightarrow> s = t"
proof (induction s arbitrary: t)
  case (Cons c s)
  then obtain d u where t: "t = d # u" "length s = length u" by (cases t) auto
  with Cons.prems bits_val_less [of s] bits_val_less [of u] have "c = d" "bits_val s = bits_val u"
    by (auto simp: bit_char_def split: if_splits)
  with Cons t show ?case by simp
qed simp

lemma hex2bin_table:
  "list_all (\<lambda>d. case hex2bin (hex_char d) of Inl e \<Rightarrow> False
     | Inr b \<Rightarrow> length b = 4 \<and> list_all bit_char b \<and> radix_digits 2 0 b = Some d \<and>
         char_lower (hex_char d) = hex_char d \<and> hex_char d \<noteq> CHR ''l'') [0..<16]"
  by code_simp

lemma hex2bin_digit:
  assumes "d < 16"
  shows "\<exists>b. hex2bin (hex_char d) = Inr b \<and> list_all bit_char b \<and> length b = 4 \<and> bits_val b = d \<and>
    char_lower (hex_char d) = hex_char d \<and> hex_char d \<noteq> CHR ''l''"
proof -
  have "case hex2bin (hex_char d) of Inl e \<Rightarrow> False
     | Inr b \<Rightarrow> length b = 4 \<and> list_all bit_char b \<and> radix_digits 2 0 b = Some d \<and>
         char_lower (hex_char d) = hex_char d \<and> hex_char d \<noteq> CHR ''l''"
    using hex2bin_table assms by (simp only: list_all_iff) simp
  then show ?thesis by (cases "hex2bin (hex_char d)") (auto simp: radix_bits_val)
qed

lemma hex_nat_plain: "filter (\<lambda>c. c \<noteq> CHR ''l'') (map char_lower (hex_nat n)) = hex_nat n"
proof (induction n rule: hex_nat.induct)
  case (1 n)
  have "char_lower (hex_char (n mod 16)) = hex_char (n mod 16)" "hex_char (n mod 16) \<noteq> CHR ''l''"
    using hex2bin_digit [of "n mod 16"] by auto
  with 1 show ?case by (subst (1 2) hex_nat.simps) auto
qed

lemma mapE_append_Inr:
  "mapE f xs = Inr ys \<Longrightarrow> mapE f zs = Inr us \<Longrightarrow> mapE f (xs @ zs) = Inr (ys @ us)"
  by (induction xs arbitrary: ys) (auto simp: bindE_Inr_conv)

lemma hex_nat_bits:
  "\<exists>parts. mapE hex2bin (hex_nat n) = Inr parts \<and> list_all bit_char (concat parts) \<and> bits_val (concat parts) = n"
proof (induction n rule: hex_nat.induct)
  case (1 n)
  from hex2bin_digit [of "n mod 16"] obtain b where b: "hex2bin (hex_char (n mod 16)) = Inr b"
    "list_all bit_char b" "length b = 4" "bits_val b = n mod 16" by auto
  show ?case
  proof (cases "n < 16")
    case True
    then have "hex_nat n = [hex_char n]" by (subst hex_nat.simps) simp
    with True b show ?thesis by (intro exI [of _ "[b]"]) simp
  next
    case False
    with 1 obtain parts where parts: "mapE hex2bin (hex_nat (n div 16)) = Inr parts"
      "list_all bit_char (concat parts)" "bits_val (concat parts) = n div 16" by auto
    have "hex_nat n = hex_nat (n div 16) @ [hex_char (n mod 16)]" using False by (subst hex_nat.simps) simp
    then have "mapE hex2bin (hex_nat n) = Inr (parts @ [b])"
      using mapE_append_Inr [OF parts(1), of "[hex_char (n mod 16)]" "[b]"] b(1) by simp
    then show ?thesis using parts b by (intro exI [of _ "parts @ [b]"]) (simp add: bits_val_append)
  qed
qed

lemma py_hex_digits: "0 \<le> i \<Longrightarrow>
    slice_from (filter (\<lambda>c. c \<noteq> CHR ''l'') (map char_lower (py_hex i))) 2 = hex_nat (nat i)"
proof -
  assume "0 \<le> i"
  have low: "char_lower CHR ''0'' = CHR ''0''" "char_lower CHR ''x'' = CHR ''x''" by code_simp+
  have "filter (\<lambda>c. c \<noteq> CHR ''l'') (map char_lower (py_hex i)) = ''0x'' @ hex_nat (nat i)"
    using \<open>0 \<le> i\<close> low by (simp add: py_hex_def hex_nat_plain)
  then show ?thesis by (simp add: slice_from_def slice_bound_def)
qed

lemma int2bin_fits:
  assumes "0 \<le> i" and "i < 2 ^ n" and "0 < n"
  shows "\<exists>s. int2bin i (int n) = Inr s \<and> length s = n \<and> list_all bit_char s \<and> bits_val s = nat i"
proof -
  from hex_nat_bits [of "nat i"] obtain parts where parts: "mapE hex2bin (hex_nat (nat i)) = Inr parts"
    "list_all bit_char (concat parts)" "bits_val (concat parts) = nat i" by blast
  let ?hi = "slice_to (concat parts) (- int n)" and ?lo = "slice_from (concat parts) (- int n)"
  have split: "concat parts = ?hi @ ?lo" by (simp add: slice_append)
  have len: "length ?lo = min (length (concat parts)) n" using assms(3) by (simp add: length_slice_from_neg)
  have nat: "nat i < 2 ^ n" using assms by (simp add: nat_less_iff)
  have bits: "list_all bit_char ?hi" "list_all bit_char ?lo"
    using parts(2) split by (metis list_all_append)+
  have val: "nat i = bits_val ?hi * 2 ^ length ?lo + bits_val ?lo"
    using parts(3) split by (metis bits_val_append)
  have hi: "bits_val ?hi = 0"
  proof (rule ccontr)
    assume nz: "bits_val ?hi \<noteq> 0"
    then have "?hi \<noteq> []" by auto
    then have "length ?lo = n" using len split by (metis append_Nil length_append less_add_same_cancel2 length_greater_0_conv linorder_not_less min.absorb1 min_def nat_neq_iff)
    then have "2 ^ n \<le> nat i" using val nz by (metis le_add1 le_trans mult_le_mono1 nat_mult_1 not_less_eq_eq One_nat_def not_gr_zero less_eq_Suc_le)
    then show False using nat by simp
  qed
  then have "CHR ''1'' \<notin> set ?hi" by (simp add: bits_val_zero)
  then have "int2bin i (int n) = Inr (replicate (n - length ?lo) CHR ''0'' @ ?lo)"
    using parts(1) assms(1) by (simp add: int2bin_def py_hex_digits Let_def nat_diff_distrib')
  moreover have "bits_val (replicate k CHR ''0'' @ t) = bits_val t" "list_all bit_char (replicate k CHR ''0'')" for k t
    by (induction k) (simp_all add: bit_char_def)
  ultimately show ?thesis using val hi bits len by simp
qed

lemma int2bin_too_large:
  assumes "2 ^ n \<le> i" and "0 < n"
  shows "int2bin i (int n) = Inl ValueError"
proof -
  have i: "0 \<le> i" using assms(1) by (metis order_trans zero_le_numeral zero_le_power)
  from hex_nat_bits [of "nat i"] obtain parts where parts: "mapE hex2bin (hex_nat (nat i)) = Inr parts"
    "list_all bit_char (concat parts)" "bits_val (concat parts) = nat i" by blast
  let ?hi = "slice_to (concat parts) (- int n)" and ?lo = "slice_from (concat parts) (- int n)"
  have split: "concat parts = ?hi @ ?lo" by (simp add: slice_append)
  have len: "length ?lo \<le> n" using assms(2) by (simp add: length_slice_from_neg)
  have val: "nat i = bits_val ?hi * 2 ^ length ?lo + bits_val ?lo"
    using parts(3) split by (metis bits_val_append)
  have "2 ^ n \<le> nat i" using assms(1) by (simp add: le_nat_iff)
  moreover have "bits_val ?lo < 2 ^ n"
    using bits_val_less [of ?lo] len by (meson less_le_trans one_le_numeral power_increasing)
  ultimately have "nat i \<noteq> bits_val ?lo" by linarith
  then have "bits_val ?hi \<noteq> 0" using val by fastforce
  then have "CHR ''1'' \<in> set ?hi" by (simp add: bits_val_zero)
  then show ?thesis using parts(1) i by (simp add: int2bin_def py_hex_digits Let_def)
qed

lemma bits_val_lsb: "k < 2 ^ n \<Longrightarrow> bits_val (rev (lsb_bits n k)) = k"
proof (induction n arbitrary: k)
  case (Suc n)
  then have "k div 2 < 2 ^ n" by auto
  with Suc.IH [of "k div 2"] show ?case
    by (auto simp: bits_val_append) presburger
qed simp

lemma lsb_bits_chars: "list_all bit_char (lsb_bits n k)"
  by (induction n arbitrary: k) (simp_all add: bit_char_def)

lemma int2bin_lsb: "k < 2 ^ n \<Longrightarrow> 0 < n \<Longrightarrow> int2bin (int k) (int n) = Inr (rev (lsb_bits n k))"
proof -
  assume k: "k < 2 ^ n" and n: "0 < n"
  then have "int k < 2 ^ n" by (metis of_nat_less_iff of_nat_numeral of_nat_power)
  with int2bin_fits [of "int k" n] n obtain s where s: "int2bin (int k) (int n) = Inr s" "length s = n"
    "list_all bit_char s" "bits_val s = k" by auto
  have "s = rev (lsb_bits n k)"
    by (rule bits_val_unique) (use s lsb_bits_chars in \<open>simp_all add: bits_val_lsb [OF k] list_all_iff\<close>)
  with s(1) show ?thesis by simp
qed

lemma bit_char_not_space: "bit_char c \<Longrightarrow> \<not> py_space c"
proof -
  assume "bit_char c"
  moreover have "\<not> py_space CHR ''0''" "\<not> py_space CHR ''1''" by code_simp+
  ultimately show ?thesis by (auto simp: bit_char_def)
qed

lemma bit_char_lower: "bit_char c \<Longrightarrow> char_lower c = c"
proof -
  assume "bit_char c"
  moreover have "char_lower CHR ''0'' = CHR ''0''" "char_lower CHR ''1'' = CHR ''1''" by code_simp+
  ultimately show ?thesis by (auto simp: bit_char_def)
qed

lemma not_bit_chars: "\<not> bit_char CHR ''_''" "\<not> bit_char CHR ''b''" "\<not> bit_char CHR ''-''" "\<not> bit_char CHR ''+''"
  by (simp_all add: bit_char_def)

lemma bin2int_bits:
  assumes "list_all bit_char s" and "s \<noteq> []"
  shows "bin2int s = Inr (int (bits_val s))"
proof -
  have chars: "\<forall>c \<in> set s. bit_char c" using assms(1) by (simp add: list_all_iff)
  have strip: "py_strip s = s"
    using assms(2) chars bit_char_not_space by (intro py_strip_id) (simp_all add: hd_in_set last_in_set)
  obtain c t where s: "s = c # t" using assms(2) by (cases s) auto
  then have c: "bit_char c" using assms(1) by simp
  have no: "CHR ''_'' \<notin> set s" using chars not_bit_chars(1) by blast
  have "map char_lower s = s" by (rule map_idI) (use chars bit_char_lower in blast)
  moreover have "\<not> prefix ''0b'' s"
  proof
    assume "prefix ''0b'' s"
    then have "CHR ''b'' \<in> set s" by (auto simp: prefix_def)
    with chars not_bit_chars(2) show False by blast
  qed
  ultimately have "\<not> prefix ''0b'' (map char_lower s)" by simp
  moreover have "\<not> prefix ''-'' s" "\<not> prefix ''+'' s" using s c not_bit_chars(3,4) by auto
  ultimately have "py_int 2 s = Some (int (bits_val s))"
    using assms(2) by (simp add: py_int_def strip py_split_no_sep [OF no] Let_def radix_bits_val [OF assms(1)])
  then show ?thesis by (simp add: bin2int_def)
qed

section \<open>Common parts, duplicates, reversed dictionaries\<close>

lemma common_prefix_prefix: "prefix (common_prefix s t) s" "prefix (common_prefix s t) t"
  by (induction s t rule: common_prefix.induct) auto

lemma common_prefix_longest: "prefix p s \<Longrightarrow> prefix p t \<Longrightarrow> prefix p (common_prefix s t)"
  by (induction s t arbitrary: p rule: common_prefix.induct) (auto simp: prefix_Cons)

lemma dedupe_set: "set (dedupe seen xs) = set xs - set seen"
  by (induction seen xs rule: dedupe.induct) auto

lemma dedupe_distinct: "distinct (dedupe seen xs)"
  by (induction seen xs rule: dedupe.induct) (auto simp: dedupe_set)

lemma slow_unique:
  "distinct result \<Longrightarrow>
     distinct (foldl (\<lambda>result x. if x \<notin> set result then result @ [x] else result) result xs) \<and>
     set (foldl (\<lambda>result x. if x \<notin> set result then result @ [x] else result) result xs) = set result \<union> set xs"
  by (induction xs arbitrary: result) auto

lemma dict_set_keys: "dict_ok d \<Longrightarrow> dict_ok (dict_set k v d) \<and> set (dict_keys (dict_set k v d)) = insert k (set (dict_keys d))"
  by (simp add: dict.ok_set dict.keys_set)

lemma unique_keys:
  "dict_ok d \<Longrightarrow> dict_ok (foldl (\<lambda>d x. dict_set x v d) d xs) \<and>
     set (dict_keys (foldl (\<lambda>d x. dict_set x v d) d xs)) = set (dict_keys d) \<union> set xs"
proof (induction xs arbitrary: d)
  case (Cons x xs)
  have "dict_ok (dict_set x v d)" "set (dict_keys (dict_set x v d)) = insert x (set (dict_keys d))"
    using dict_set_keys [OF Cons.prems] by simp_all
  with Cons.IH [of "dict_set x v d"] show ?case by simp
qed simp

lemma uniquify_unique:
  assumes "\<And>ks. mset (key_order ks) = mset ks"
  shows "distinct (uniquify hashable key_order seq preserve_order) \<and>
    set (uniquify hashable key_order seq preserve_order) = set seq"
proof -
  let ?d = "foldl (\<lambda>d x. dict_set x (0::nat) d) [] seq"
  have "dict_ok ?d \<and> set (dict_keys ?d) = set seq"
    using unique_keys [of "[]" 0 seq] by (simp add: dict_ok_def dict_keys_def)
  then have "distinct (dict_keys ?d)" "set (dict_keys ?d) = set seq"
    using dict.keys_distinct by blast+
  moreover have "distinct (key_order (dict_keys ?d)) = distinct (dict_keys ?d)"
    "set (key_order (dict_keys ?d)) = set (dict_keys ?d)"
    using assms [of "dict_keys ?d"] by (rule mset_eq_imp_distinct_iff, rule mset_eq_setD)
  ultimately have "distinct (key_order (dict_keys ?d)) \<and> set (key_order (dict_keys ?d)) = set seq" by simp
  then show ?thesis
    using dedupe_distinct [of "[]" seq] dedupe_set [of "[]" seq] slow_unique [of "[]" seq]
    by (simp add: uniquify_def)
qed

lemma mapE_map: "mapE f (map g xs) = mapE (f \<circ> g) xs"
  by (induction xs) simp_all

section \<open>Properties\<close>

text \<open>
  \<open>binary_range(n)\<close> terminates for every positive width and counts: it returns the strings
  \<open>int2bin(i, n)\<close> for all \<open>i\<close> below \<open>2 ** n\<close> in order, and \<open>bin2int\<close> reads them back as those
  numbers.
\<close>

theorem binary_range_counts:
  assumes "0 < n"
  shows "\<exists>l. binary_range n = Some l \<and>
     mapE (\<lambda>i. int2bin (int i) (int n)) [0..<2 ^ n] = Inr l \<and> mapE bin2int l = Inr (map int [0..<2 ^ n])"
proof -
  let ?l = "map (\<lambda>i. rev (lsb_bits n i)) [0..<2 ^ n]"
  have "mapE (\<lambda>i. int2bin (int i) (int n)) [0..<2 ^ n] = Inr ?l"
    using assms by (intro mapE_all_Inr int2bin_lsb) simp_all
  moreover have "bin2int (rev (lsb_bits n i)) = Inr (int i)" if "i < 2 ^ n" for i
  proof -
    have "rev (lsb_bits n i) \<noteq> []" using assms by (metis length_lsb_bits length_rev less_numeral_extra(3) list.size(3))
    moreover have "list_all bit_char (rev (lsb_bits n i))" using lsb_bits_chars [of n i] by (simp add: list_all_iff)
    ultimately show ?thesis using that by (simp add: bin2int_bits bits_val_lsb)
  qed
  then have "mapE bin2int ?l = Inr (map int [0..<2 ^ n])"
    using mapE_all_Inr [of "[0..<2 ^ n]" "\<lambda>i. bin2int (rev (lsb_bits n i))" int] by (simp add: mapE_map o_def)
  ultimately show ?thesis using binary_range_lsb [OF assms] by blast
qed

text \<open>
  \<open>int2bin\<close> is exact: a number that fits in \<open>n\<close> bits is written as \<open>n\<close> binary digits that
  read back as the number, and any larger one is a \<open>ValueError\<close>.
\<close>

theorem int2bin_exact:
  assumes "0 \<le> i" and "0 < n"
  shows "if i < 2 ^ n
     then \<exists>s. int2bin i (int n) = Inr s \<and> length s = n \<and> bin2int s = Inr i
     else int2bin i (int n) = Inl ValueError"
proof (cases "i < 2 ^ n")
  case True
  then obtain s where s: "int2bin i (int n) = Inr s" "length s = n" "list_all bit_char s" "bits_val s = nat i"
    using int2bin_fits [OF assms(1) _ assms(2)] by blast
  with bin2int_bits [of s] assms True show ?thesis by auto
next
  case False
  with int2bin_too_large [of n i] assms(2) show ?thesis by simp
qed

text \<open>
  \<open>permutations\<close> returns every rearrangement of its list and nothing else, and one list for
  each way of choosing positions.
\<close>

theorem permutations_all:
  "set (permutations xs) = {ys. mset ys = mset xs} \<and> (xs \<noteq> [] \<longrightarrow> length (permutations xs) = fact (length xs))"
  using set_permutations length_permutations by blast

text \<open>
  \<open>is_rotated\<close> on a nonempty list answers whether the second list is a rotation of the first,
  repeated items included.
\<close>

theorem is_rotated_iff:
  assumes "seq1 \<noteq> []"
  shows "is_rotated seq1 seq2 = Inr (\<exists>i < length seq1. seq2 = rotate i seq1)"
  using assms by (rule is_rotated_rotate)

text \<open>\<open>gcf\<close> is the greatest common divisor for integers of any sign, 0 included.\<close>

theorem gcf_is_gcd: "gcf a b = gcd a b"
  by (rule gcf_gcd)

theorem binary_range_counts_witness: "binary_range 2 = Some [''00'', ''01'', ''10'', ''11'']"
proof -
  obtain l where l: "binary_range 2 = Some l" "mapE (\<lambda>i. int2bin (int i) (int 2)) [0..<2 ^ 2] = Inr l"
    using binary_range_counts [of 2] by auto
  moreover have "mapE (\<lambda>i. int2bin (int i) (int 2)) [0..<2 ^ 2] = Inr [''00'', ''01'', ''10'', ''11'']"
    by code_simp
  ultimately show ?thesis by simp
qed

theorem int2bin_exact_witness: "int2bin 15 2 = Inl ValueError \<and> (\<exists>s. int2bin 123 8 = Inr s \<and> length s = 8)"
  using int2bin_exact [of 15 2] int2bin_exact [of 123 8] by auto

theorem permutations_all_witness: "length (permutations [1::nat, 2, 3]) = 6"
  using permutations_all [of "[1::nat, 2, 3]"] by (simp add: fact_numeral)

theorem is_rotated_iff_witness: "is_rotated ''ABCA'' ''AABC'' = Inr True"
proof -
  have "\<exists>i < length ''ABCA''. ''AABC'' = rotate i ''ABCA''"
    by (rule exI [of _ 3]) (simp add: numeral_3_eq_3)
  then show ?thesis using is_rotated_iff [of "''ABCA''" "''AABC''"] by simp
qed

end
