(* ===== verification/Topsort.thy ===== *)
theory Topsort
  imports Rad_Util
begin

text \<open>
  \<^verbatim>\<open>bindings/python/topsort.py\<close>: \<open>topsort\<close>, \<open>topsort_levels\<close> and its core. The file is written
  for Python 2: it calls \<open>has_key\<close>, which Python 3 dictionaries do not have, and the order of the
  keys of a dictionary is arbitrary, so that order is the parameter \<open>key_order\<close>, a function that
  permutes the list of keys. The lemmas relate the two dictionaries to the edges that start at an
  element not yet taken.
\<close>

section \<open>The code\<close>

datatype 'a sort_error =
    PyError py_error
  | CycleError "'a list" "('a, int) dict" "('a, 'a list) dict"

type_synonym 'a num_parents = "('a, int) dict"
type_synonym 'a children = "('a, 'a list) dict"

definition has_key :: "py_version \<Rightarrow> 'k \<Rightarrow> ('k, 'v) dict \<Rightarrow> 'a sort_error + bool" where
  "has_key py k d = (case py of Py2 \<Rightarrow> Inr (dict_in k d) | Py3 \<Rightarrow> Inl (PyError AttributeError))"

definition add_pair :: "py_version \<Rightarrow> 'a num_parents \<times> 'a children \<Rightarrow> 'a \<times> 'a \<Rightarrow>
    'a sort_error + 'a num_parents \<times> 'a children" where
  "add_pair py =
     (\<lambda>(num_parents, children) (parent, child).
        bindE (has_key py parent num_parents) (\<lambda>h.
        let np1 = (if \<not> h then dict_set parent 0 num_parents else num_parents)
        in bindE (has_key py child np1) (\<lambda>h.
        let np2 = (if \<not> h then dict_set child 0 np1 else np1)
        in case dict_get np2 child of
             None \<Rightarrow> Inl (PyError KeyError)
           | Some n \<Rightarrow>
               Inr (dict_set child (n + 1) np2,
                    dict_set parent ((case dict_get children parent of None \<Rightarrow> [] | Some cs \<Rightarrow> cs) @ [child]) children))))"

definition read_pairs :: "py_version \<Rightarrow> ('a \<times> 'a) list \<Rightarrow> 'a sort_error + 'a num_parents \<times> 'a children" where
  "read_pairs py pairlist = foldE (add_pair py) ([], []) pairlist"

text \<open>\<open>num_parents[child] -= 1\<close> for every child; the new elements without parents, in order.\<close>

definition knock_down_one :: "'a num_parents \<times> 'a list \<Rightarrow> 'a \<Rightarrow> 'a sort_error + 'a num_parents \<times> 'a list" where
  "knock_down_one =
     (\<lambda>(np, new) child.
        case dict_get np child of
          None \<Rightarrow> Inl (PyError KeyError)
        | Some n \<Rightarrow> Inr (dict_set child (n - 1) np, if n - 1 = 0 then new @ [child] else new))"

definition knock_down :: "'a num_parents \<Rightarrow> 'a list \<Rightarrow> 'a sort_error + 'a num_parents \<times> 'a list" where
  "knock_down np cs = foldE knock_down_one (np, []) cs"

definition roots :: "('a list \<Rightarrow> 'a list) \<Rightarrow> 'a num_parents \<Rightarrow> 'a list" where
  \<comment> \<open>\<open>[x for x in num_parents.keys() if num_parents[x] == 0]\<close>\<close>
  "roots key_order np = filter (\<lambda>x. dict_get np x = Some 0) (key_order (dict_keys np))"

definition retire :: "py_version \<Rightarrow> 'a num_parents \<Rightarrow> 'a children \<Rightarrow> 'a \<Rightarrow>
    'a sort_error + 'a num_parents \<times> 'a children \<times> 'a list" where
  \<comment> \<open>the body of the loops: delete the element, knock down its children, delete their list\<close>
  "retire py np ch p =
     (case dict_get np p of
        None \<Rightarrow> Inl (PyError KeyError)
      | Some _ \<Rightarrow>
          bindE (has_key py p ch) (\<lambda>h.
          if h then
            (case dict_get ch p of
               None \<Rightarrow> Inl (PyError KeyError)
             | Some cs \<Rightarrow> bindE (knock_down (dict_del p np) cs) (\<lambda>(np', new). Inr (np', dict_del p ch, new)))
          else Inr (dict_del p np, ch, [])))"

lemma dict_set_length: "dict_get d k \<noteq> None \<Longrightarrow> length (dict_set k v d) = length d"
  unfolding dict_get_def dict_set_def by (induction d) auto

lemma delete_length: "dict_get d k \<noteq> None \<Longrightarrow> length (dict_del k d) < length d"
  unfolding dict_get_def dict_del_def
proof (induction d)
  case (Cons kv d)
  have "length (AList.delete k d) \<le> length d" by (rule length_delete_le)
  with Cons show ?case by (cases kv) (auto split: if_splits)
qed simp

lemma knock_down_length: "foldE knock_down_one (np, new) cs = Inr (np', new') \<Longrightarrow> length np' = length np"
proof (induction cs arbitrary: np new)
  case (Cons c cs)
  then obtain n where "dict_get np c = Some n"
    by (auto simp: knock_down_one_def bindE_Inr_conv split: option.splits)
  with Cons show ?case by (auto simp: knock_down_one_def dict_set_length)
qed simp

lemma retire_length: "retire py np ch p = Inr (np', ch', new) \<Longrightarrow> length np' < length np"
  by (auto simp: retire_def knock_down_def bindE_Inr_conv delete_length split: option.splits if_splits
      dest!: knock_down_length)

function topsort_loop :: "py_version \<Rightarrow> 'a list \<Rightarrow> 'a list \<Rightarrow> 'a num_parents \<Rightarrow> 'a children \<Rightarrow>
    'a sort_error + 'a list \<times> 'a num_parents \<times> 'a children" where
  "topsort_loop py seen [] np ch = Inr (seen, np, ch)"
| "topsort_loop py seen (p # todo) np ch =
     bindE (retire py np ch p) (\<lambda>(np', ch', new). topsort_loop py (seen @ [p]) (todo @ new) np' ch')"
  by pat_completeness auto
termination
  by (relation "measure (\<lambda>(_, _, _, np, _). length np)") (auto dest: retire_length)

definition topsort :: "py_version \<Rightarrow> ('a list \<Rightarrow> 'a list) \<Rightarrow> ('a \<times> 'a) list \<Rightarrow> 'a sort_error + 'a list" where
  "topsort py key_order pairlist =
     bindE (read_pairs py pairlist) (\<lambda>(np, ch).
     bindE (topsort_loop py [] (roots key_order np) np ch) (\<lambda>(answer, np', ch').
     if np' \<noteq> [] then Inl (CycleError answer np' ch') else Inr answer))"

text \<open>
  The generator: the levels it yields and how it ends. \<open>raise StopIteration\<close> ends a Python 2
  generator; a Python 3 generator turns it into an error.
\<close>

definition retire_level :: "py_version \<Rightarrow> 'a num_parents \<Rightarrow> 'a children \<Rightarrow> 'a list \<Rightarrow>
    'a sort_error + 'a num_parents \<times> 'a children" where
  "retire_level py np ch level =
     foldE (\<lambda>(np, ch) p. bindE (retire py np ch p) (\<lambda>(np', ch', new). Inr (np', ch'))) (np, ch) level"

lemma retire_level_length:
  "retire_level py np ch level = Inr (np', ch') \<Longrightarrow> level \<noteq> [] \<Longrightarrow> length np' < length np"
proof -
  have le: "foldE (\<lambda>(np, ch) p. bindE (retire py np ch p) (\<lambda>(np', ch', new). Inr (np', ch'))) (np, ch) level = Inr (np', ch')
      \<Longrightarrow> length np' \<le> length np \<and> (level \<noteq> [] \<longrightarrow> length np' < length np)" for level np ch
  proof (induction level arbitrary: np ch)
    case (Cons p level)
    then obtain np1 ch1 new where "retire py np ch p = Inr (np1, ch1, new)"
      "foldE (\<lambda>(np, ch) p. bindE (retire py np ch p) (\<lambda>(np', ch', new). Inr (np', ch'))) (np1, ch1) level = Inr (np', ch')"
      by (auto simp: bindE_Inr_conv)
    with Cons.IH [of np1 ch1] retire_length [of py np ch p np1 ch1 new] show ?case by simp
  qed simp
  show "retire_level py np ch level = Inr (np', ch') \<Longrightarrow> level \<noteq> [] \<Longrightarrow> length np' < length np"
    using le unfolding retire_level_def by blast
qed

function levels_loop :: "py_version \<Rightarrow> ('a list \<Rightarrow> 'a list) \<Rightarrow> 'a list list \<Rightarrow> 'a num_parents \<Rightarrow> 'a children \<Rightarrow>
    'a list list \<times> 'a sort_error" where
  "levels_loop py key_order out np ch =
     (let level_parents = roots key_order np in
      if level_parents = [] then
        (out, if np \<noteq> [] then CycleError [] np ch else PyError (case py of Py2 \<Rightarrow> StopIteration | Py3 \<Rightarrow> PyException ''RuntimeError''))
      else (case retire_level py np ch level_parents of
              Inl e \<Rightarrow> (out @ [level_parents], e)
            | Inr (np', ch') \<Rightarrow> levels_loop py key_order (out @ [level_parents]) np' ch'))"
  by pat_completeness auto
termination
  by (relation "measure (\<lambda>(_, _, _, np, _). length np)") (auto dest: retire_level_length)

declare levels_loop.simps [simp del]

definition topsort_levels_core :: "py_version \<Rightarrow> ('a list \<Rightarrow> 'a list) \<Rightarrow> 'a num_parents \<Rightarrow> 'a children \<Rightarrow>
    'a list list \<times> 'a sort_error" where
  "topsort_levels_core py key_order np ch = levels_loop py key_order [] np ch"

definition topsort_levels :: "py_version \<Rightarrow> ('a list \<Rightarrow> 'a list) \<Rightarrow> ('a \<times> 'a) list \<Rightarrow>
    'a sort_error + 'a list list \<times> 'a sort_error" where
  "topsort_levels py key_order pairlist =
     bindE (read_pairs py pairlist) (\<lambda>(np, ch). Inr (topsort_levels_core py key_order np ch))"


text \<open>
  \<open>find_cycles\<close>, run to its end: the cycles it yields, in order. The stack \<open>paths\<close> has its top at
  the end of the list; the order in which the dictionary is iterated is that of its keys.
\<close>

fun find_dup :: "'a list list \<Rightarrow> 'a list \<Rightarrow> bool res" where
  "find_dup [] cycle = Inr False"
| "find_dup (other_cycle # cycles) cycle =
     bindE (is_rotated other_cycle cycle) (\<lambda>b. if b then Inr True else find_dup cycles cycle)"

definition visit_child :: "'a list \<Rightarrow> 'a list list \<times> 'a set \<times> 'a list list \<Rightarrow> 'a \<Rightarrow>
    ('a list list \<times> 'a set \<times> 'a list list) res" where
  "visit_child path =
     (\<lambda>(paths, visited_nodes, cycles) child.
        if child \<in> set path then
          (let cycle = dropWhile (\<lambda>x. x \<noteq> child) path in
           bindE (find_dup cycles cycle) (\<lambda>is_dup.
           Inr (paths, visited_nodes, if \<not> is_dup then cycles @ [cycle] else cycles)))
        else Inr (paths @ [path @ [child]], insert child visited_nodes, cycles))"

definition graph_nodes :: "('a, 'a list) dict \<Rightarrow> 'a set" where
  "graph_nodes pc = (\<Union>(_, cs) \<in> set pc. set cs)"

definition unseen :: "('a, 'a list) dict \<Rightarrow> 'a list \<Rightarrow> nat" where
  "unseen pc path = card (graph_nodes pc - set path)"

lemma visit_children_paths:
  "foldE (visit_child path) (paths, visited, cycles) cs = Inr (paths', visited', cycles') \<Longrightarrow>
   paths' = paths @ map (\<lambda>c. path @ [c]) (filter (\<lambda>c. c \<notin> set path) cs) \<and>
   visited' = visited \<union> (set cs - set path)"
proof (induction cs arbitrary: paths visited cycles)
  case (Cons c cs)
  from Cons.prems obtain s where s: "visit_child path (paths, visited, cycles) c = Inr s"
      "foldE (visit_child path) s cs = Inr (paths', visited', cycles')"
    by (auto simp: bindE_Inr_conv)
  show ?case
  proof (cases "c \<in> set path")
    case True
    then obtain more where "s = (paths, visited, more)"
      using s(1) by (auto simp: visit_child_def bindE_Inr_conv Let_def)
    with Cons.IH s(2) True show ?thesis by auto
  next
    case False
    then have "s = (paths @ [path @ [c]], insert c visited, cycles)"
      using s(1) by (simp add: visit_child_def)
    then have "foldE (visit_child path) (paths @ [path @ [c]], insert c visited, cycles) cs = Inr (paths', visited', cycles')"
      using s(2) by simp
    from Cons.IH [OF this] False show ?thesis by auto
  qed
qed simp

lemma unseen_child:
  assumes "dict_get pc p = Some cs" and "c \<in> set cs" and "c \<notin> set path"
  shows "unseen pc (path @ [c]) < unseen pc path"
proof -
  have fin: "finite (graph_nodes pc - set path)" by (auto simp: graph_nodes_def)
  have "(p, cs) \<in> set pc" using assms(1) by (auto simp: dict_get_def dest: map_of_SomeD)
  then have "c \<in> graph_nodes pc - set path" using assms(2,3) by (auto simp: graph_nodes_def)
  then have "graph_nodes pc - set (path @ [c]) \<subset> graph_nodes pc - set path" by auto
  then show ?thesis unfolding unseen_def by (rule psubset_card_mono [OF fin])
qed

lemma pop_mult:
  assumes "paths \<noteq> []"
  shows "(mset (map f (butlast paths)), mset (map f paths)) \<in> mult less_than"
proof -
  have "mset (map f paths) = mset (map f (butlast paths)) + {#f (last paths)#}"
    using assms by (metis append_butlast_last_id mset_append mset_single_iff_right map_append list.map mset.simps)
  then show ?thesis using one_step_implies_mult [of "{#f (last paths)#}" "{#}"] by simp
qed

lemma push_mult:
  assumes "paths \<noteq> []" and "\<forall>x \<in> set new. f x < (f (last paths) :: nat)"
  shows "(mset (map f (butlast paths @ new)), mset (map f paths)) \<in> mult less_than"
proof -
  have "mset (map f paths) = mset (map f (butlast paths)) + {#f (last paths)#}"
    using assms(1) by (metis append_butlast_last_id mset_append mset_single_iff_right map_append list.map mset.simps)
  moreover have "(mset (map f (butlast paths)) + mset (map f new), mset (map f (butlast paths)) + {#f (last paths)#}) \<in> mult less_than"
    using assms(2) by (intro one_step_implies_mult) auto
  ultimately show ?thesis by simp
qed

function cycles_loop :: "('a, 'a list) dict \<Rightarrow> 'a list list \<Rightarrow> 'a set \<Rightarrow> 'a list list \<Rightarrow>
    ('a set \<times> 'a list list) res" where
  "cycles_loop pc paths visited cycles =
     (if paths = [] then Inr (visited, cycles)
      else let path = last paths; paths' = butlast paths in
        if path = [] then Inl IndexError
        else (case dict_get pc (last path) of
                None \<Rightarrow> cycles_loop pc paths' visited cycles
              | Some children \<Rightarrow>
                  (case foldE (visit_child path) (paths', visited, cycles) children of
                     Inl e \<Rightarrow> Inl e
                   | Inr (paths'', visited', cycles') \<Rightarrow> cycles_loop pc paths'' visited' cycles')))"
  by pat_completeness auto
termination
proof (relation "inv_image (mult less_than) (\<lambda>(pc, paths, _). mset (map (unseen pc) paths))")
  show "wf (inv_image (mult less_than) (\<lambda>(pc, paths, _). mset (map (unseen pc) paths)))"
    by (simp add: wf_mult)
next
  fix pc :: "('a, 'a list) dict" and paths visited cycles path paths' children x2 paths'' p visited' cycles'
  assume "paths \<noteq> []" "path = last paths" "paths' = butlast paths" "dict_get pc (last path) = Some children"
    "foldE (visit_child path) (paths', visited, cycles) children = Inr x2" "(paths'', p) = x2" "(visited', cycles') = p"
  moreover from this have "paths'' = butlast paths @ map (\<lambda>c. path @ [c]) (filter (\<lambda>c. c \<notin> set path) children)"
    using visit_children_paths by blast
  ultimately show "((pc, paths'', visited', cycles'), pc, paths, visited, cycles)
      \<in> inv_image (mult less_than) (\<lambda>(pc, paths, _). mset (map (unseen pc) paths))"
    using push_mult [of paths "map (\<lambda>c. path @ [c]) (filter (\<lambda>c. c \<notin> set path) children)" "unseen pc"]
    by (auto simp: unseen_child o_def multiset.map_comp)
next
  fix pc :: "('a, 'a list) dict" and paths :: "'a list list" and visited :: "'a set" and cycles :: "'a list list"
    and path and paths'
  assume "paths \<noteq> []" "path = last paths" "paths' = butlast paths"
  then show "((pc, paths', visited, cycles), pc, paths, visited, cycles)
      \<in> inv_image (mult less_than) (\<lambda>(pc, paths, _). mset (map (unseen pc) paths))"
    using pop_mult [of paths "unseen pc"] by simp
qed

declare cycles_loop.simps [simp del]

definition start_node :: "('a, 'a list) dict \<Rightarrow> 'a set \<times> 'a list list \<Rightarrow> 'a \<Rightarrow> ('a set \<times> 'a list list) res" where
  "start_node pc = (\<lambda>(visited_nodes, cycles) parent.
     if parent \<in> visited_nodes then Inr (visited_nodes, cycles)
     else cycles_loop pc [[parent]] visited_nodes cycles)"

definition find_cycles :: "('a list \<Rightarrow> 'a list) \<Rightarrow> ('a, 'a list) dict \<Rightarrow> 'a list list res" where
  "find_cycles key_order parent_children =
     bindE (foldE (start_node parent_children) ({}, []) (key_order (dict_keys parent_children)))
       (\<lambda>(visited_nodes, cycles). Inr cycles)"

section \<open>The graph\<close>

definition nodes :: "('a \<times> 'a) list \<Rightarrow> 'a set" where
  "nodes es = fst ` set es \<union> snd ` set es"

definition successors :: "('a \<times> 'a) list \<Rightarrow> 'a \<Rightarrow> 'a list" where
  "successors es p = map snd (filter (\<lambda>e. fst e = p) es)"

definition live_parents :: "('a \<times> 'a) list \<Rightarrow> 'a set \<Rightarrow> 'a \<Rightarrow> nat" where
  "live_parents es R x = length (filter (\<lambda>e. snd e = x \<and> fst e \<notin> R) es)"

fun parents_first :: "('a \<times> 'a) list \<Rightarrow> 'a list \<Rightarrow> 'a list \<Rightarrow> bool" where
  "parents_first es seen [] = True"
| "parents_first es seen (x # xs) =
     ((\<forall>e \<in> set es. snd e = x \<longrightarrow> fst e \<in> set seen) \<and> parents_first es (seen @ [x]) xs)"

definition counts_live :: "('a \<times> 'a) list \<Rightarrow> 'a set \<Rightarrow> 'a num_parents \<Rightarrow> 'a children \<Rightarrow> bool" where
  "counts_live es R np ch \<longleftrightarrow> dict_ok np \<and> dict_ok ch \<and>
     (\<forall>x. dict_get np x = (if x \<in> nodes es - R then Some (int (live_parents es R x)) else None)) \<and>
     (\<forall>x. dict_get ch x = (if x \<in> R \<or> successors es x = [] then None else Some (successors es x)))"

named_theorems graph_simps

lemma nodes_snoc [graph_simps]: "nodes (es @ [(p, c)]) = insert p (insert c (nodes es))"
  by (auto simp: nodes_def)

lemma successors_snoc [graph_simps]:
  "successors (es @ [(p, c)]) x = (if x = p then successors es x @ [c] else successors es x)"
  by (auto simp: successors_def)

lemma live_snoc [graph_simps]:
  "live_parents (es @ [(p, c)]) {} x = (if x = c then Suc (live_parents es {} x) else live_parents es {} x)"
  by (auto simp: live_parents_def)

lemma live_not_node: "x \<notin> nodes es \<Longrightarrow> live_parents es R x = 0"
  by (force simp: live_parents_def nodes_def filter_empty_conv)

lemma set_successors: "set (successors es p) = {c. (p, c) \<in> set es}"
  by (force simp: successors_def)

lemma live_0_iff: "live_parents es R x = 0 \<longleftrightarrow> (\<forall>p. (p, x) \<in> set es \<longrightarrow> p \<in> R)"
  by (force simp: live_parents_def filter_empty_conv)

lemma live_0_edges: "live_parents es R x = 0 \<longleftrightarrow> (\<forall>e \<in> set es. snd e = x \<longrightarrow> fst e \<in> R)"
  by (force simp: live_parents_def filter_empty_conv)

lemma live_retire:
  "p \<notin> R \<Longrightarrow> live_parents es R x = live_parents es (insert p R) x + count_list (successors es p) x"
  by (induction es) (auto simp: live_parents_def successors_def)

lemma parents_first_snoc:
  "parents_first es seen (xs @ [x]) \<longleftrightarrow>
     parents_first es seen xs \<and> (\<forall>e \<in> set es. snd e = x \<longrightarrow> fst e \<in> set (seen @ xs))"
  by (induction xs arbitrary: seen) auto

lemma parents_first_closed:
  "parents_first es seen xs \<Longrightarrow> (p, c) \<in> set es \<Longrightarrow> c \<in> set xs \<Longrightarrow> p \<in> set seen \<union> set xs"
  by (induction xs arbitrary: seen) force+

section \<open>Reading the pairs\<close>

definition touch :: "'a \<Rightarrow> 'a num_parents \<Rightarrow> 'a num_parents" where
  "touch x np = (if dict_in x np then np else dict_set x 0 np)"

lemma touch_if: "(if \<not> dict_in x np then dict_set x 0 np else np) = touch x np"
  by (simp add: touch_def)

lemma add_pair_py2:
  "add_pair Py2 (np, ch) (p, c) =
     (case dict_get (touch c (touch p np)) c of
        None \<Rightarrow> Inl (PyError KeyError)
      | Some n \<Rightarrow> Inr (dict_set c (n + 1) (touch c (touch p np)),
                     dict_set p ((case dict_get ch p of None \<Rightarrow> [] | Some cs \<Rightarrow> cs) @ [c]) ch))"
  by (simp only: add_pair_def has_key_def prod.case py_version.case bindE_simps touch_if Let_def)

lemma read_pairs_counts:
  "\<exists>np ch. read_pairs Py2 es = Inr (np, ch) \<and> counts_live es {} np ch"
proof (induction es rule: rev_induct)
  case Nil
  then show ?case
    by (simp add: read_pairs_def counts_live_def nodes_def successors_def dict_ok_def dict.get_empty)
next
  case (snoc e es)
  obtain p c where e: "e = (p, c)" by (cases e)
  from snoc obtain np ch where IH: "read_pairs Py2 es = Inr (np, ch)" "counts_live es {} np ch"
    by blast
  have ok: "dict_ok np" "dict_ok ch" using IH by (auto simp: counts_live_def)
  have np: "dict_get np x = (if x \<in> nodes es then Some (int (live_parents es {} x)) else None)"
    and ch: "dict_get ch x = (if successors es x = [] then None else Some (successors es x))" for x
    using IH by (auto simp: counts_live_def)
  define np2 where "np2 = touch c (touch p np)"
  have np1: "dict_ok (touch p np)"
      "dict_get (touch p np) x = (if x \<in> insert p (nodes es) then Some (int (live_parents es {} x)) else None)" for x
    using ok by (auto simp: touch_def dict.ok_set dict.get_set np dict_in_def live_not_node split: if_splits)
  have np2: "dict_ok np2" "dict_get np2 x = (if x \<in> insert p (insert c (nodes es)) then Some (int (live_parents es {} x)) else None)" for x
    using np1 unfolding np2_def touch_def [of c]
    by (auto simp: dict.ok_set dict.get_set dict_in_def live_not_node split: if_splits)
  have step: "add_pair Py2 (np, ch) (p, c) =
      Inr (dict_set c (int (live_parents es {} c) + 1) np2, dict_set p (successors es p @ [c]) ch)"
    by (simp add: add_pair_py2 ch np2 flip: np2_def)
  have "counts_live (es @ [(p, c)]) {} (dict_set c (int (live_parents es {} c) + 1) np2)
      (dict_set p (successors es p @ [c]) ch)"
    by (simp add: counts_live_def dict.ok_set dict.get_set np2 ok ch graph_simps)
  moreover have "read_pairs Py2 (es @ [e]) =
      Inr (dict_set c (int (live_parents es {} c) + 1) np2, dict_set p (successors es p @ [c]) ch)"
    using IH(1) step by (simp add: read_pairs_def foldE_append e)
  ultimately show ?case using e by blast
qed

lemma knock_down_spec:
  assumes "dict_ok np" and "\<And>c. c \<in> set cs \<Longrightarrow> \<exists>n. dict_get np c = Some n \<and> int (count_list cs c) \<le> n"
  shows "\<exists>np' more. foldE knock_down_one (np, new) cs = Inr (np', new @ more) \<and> dict_ok np' \<and> distinct more \<and>
     (\<forall>x. dict_get np' x = map_option (\<lambda>n. n - int (count_list cs x)) (dict_get np x)) \<and>
     set more = {c \<in> set cs. dict_get np c = Some (int (count_list cs c))}"
  using assms
proof (induction cs arbitrary: np new)
  case Nil
  then show ?case by (auto simp: option.map_ident)
next
  case (Cons c cs)
  from Cons.prems(2) [of c] obtain n where n: "dict_get np c = Some n" "int (count_list (c # cs) c) \<le> n"
    by auto
  define np1 where "np1 = dict_set c (n - 1) np"
  have np1: "dict_ok np1" "dict_get np1 x = (if x = c then Some (n - 1) else dict_get np x)" for x
    using Cons.prems(1) by (auto simp: np1_def dict.ok_set dict.get_set)
  have pre: "\<exists>k. dict_get np1 d = Some k \<and> int (count_list cs d) \<le> k" if "d \<in> set cs" for d
    using that Cons.prems(2) [of d] n np1 by (auto split: if_splits)
  define new1 where "new1 = (if n - 1 = 0 then new @ [c] else new)"
  obtain np' more where IH: "foldE knock_down_one (np1, new1) cs = Inr (np', new1 @ more)" "dict_ok np'" "distinct more"
      "\<forall>x. dict_get np' x = map_option (\<lambda>n. n - int (count_list cs x)) (dict_get np1 x)"
      "set more = {c \<in> set cs. dict_get np1 c = Some (int (count_list cs c))}"
    using Cons.IH [OF np1(1) pre] by blast
  define more1 where "more1 = (if n - 1 = 0 then c # more else more)"
  have "foldE knock_down_one (np, new) (c # cs) = Inr (np', new @ more1)"
    using IH(1) n by (simp add: knock_down_one_def more1_def new1_def flip: np1_def)
  moreover have zero: "c \<notin> set cs" if "n = 1"
    using n(2) that count_list_0_iff [of cs c] by simp
  moreover have "distinct more1" using IH(3,5) zero by (auto simp: more1_def)
  moreover have "\<forall>x. dict_get np' x = map_option (\<lambda>n. n - int (count_list (c # cs) x)) (dict_get np x)"
    using IH(4) np1 n by (auto simp: option.map_comp)
  moreover have "set more1 = {d \<in> set (c # cs). dict_get np d = Some (int (count_list (c # cs) d))}"
    using IH(5) np1 n zero count_list_0_iff [of cs c] by (auto simp: more1_def split: if_splits)
  ultimately show ?case using IH(2) by blast
qed

section \<open>The loop\<close>

lemma retire_spec:
  assumes cl: "counts_live es R np ch" and p: "p \<in> nodes es - R" "live_parents es R p = 0"
    and closed: "\<And>q c. (q, c) \<in> set es \<Longrightarrow> c \<in> R \<Longrightarrow> q \<in> R"
  shows "\<exists>np' ch' new. retire Py2 np ch p = Inr (np', ch', new) \<and> counts_live es (insert p R) np' ch' \<and>
     distinct new \<and>
     set new = {c \<in> nodes es - insert p R. live_parents es (insert p R) c = 0 \<and> live_parents es R c \<noteq> 0}"
proof -
  have ok: "dict_ok np" "dict_ok ch"
    and np: "dict_get np x = (if x \<in> nodes es - R then Some (int (live_parents es R x)) else None)"
    and ch: "dict_get ch x = (if x \<in> R \<or> successors es x = [] then None else Some (successors es x))" for x
    using cl by (auto simp: counts_live_def)
  have live: "live_parents es R x = live_parents es (insert p R) x + count_list (successors es p) x" for x
    using p(1) by (intro live_retire) simp
  have succ: "c \<in> nodes es - insert p R" if "c \<in> set (successors es p)" for c
  proof -
    have e: "(p, c) \<in> set es" using that by (simp add: set_successors)
    have "c \<noteq> p" using e p by (auto simp: live_0_iff)
    moreover have "c \<notin> R" using closed [OF e] p(1) by blast
    moreover have "c \<in> nodes es" using e by (force simp: nodes_def)
    ultimately show ?thesis by blast
  qed
  have del: "dict_get (dict_del p np) x = (if x \<in> nodes es - insert p R then Some (int (live_parents es R x)) else None)" for x
    using ok(1) by (auto simp: dict.get_del np)
  show ?thesis
  proof (cases "successors es p = []")
    case True
    have "retire Py2 np ch p = Inr (dict_del p np, ch, [])"
      using p True by (simp add: retire_def np ch has_key_def dict_in_def)
    moreover have "counts_live es (insert p R) (dict_del p np) ch"
      using ok True live by (auto simp: counts_live_def dict.ok_del del ch)
    ultimately show ?thesis using True live by auto
  next
    case False
    have "\<exists>np' more. foldE knock_down_one (dict_del p np, []) (successors es p) = Inr (np', [] @ more) \<and> dict_ok np' \<and>
        distinct more \<and>
        (\<forall>x. dict_get np' x = map_option (\<lambda>n. n - int (count_list (successors es p) x)) (dict_get (dict_del p np) x)) \<and>
        set more = {c \<in> set (successors es p). dict_get (dict_del p np) c = Some (int (count_list (successors es p) c))}"
      using succ live by (intro knock_down_spec) (auto simp: del dict.ok_del ok)
    then obtain np' more where K: "foldE knock_down_one (dict_del p np, []) (successors es p) = Inr (np', more)"
        "dict_ok np'" "distinct more"
        "\<And>x. dict_get np' x = map_option (\<lambda>n. n - int (count_list (successors es p) x)) (dict_get (dict_del p np) x)"
        "set more = {c \<in> set (successors es p). dict_get (dict_del p np) c = Some (int (count_list (successors es p) c))}"
      by auto
    have "retire Py2 np ch p = Inr (np', dict_del p ch, more)"
      using p False K(1) by (simp add: retire_def np ch has_key_def dict_in_def knock_down_def)
    moreover have "counts_live es (insert p R) np' (dict_del p ch)"
      using K(2) ok by (auto simp: counts_live_def dict.ok_del dict.get_del K(4) del ch live)
    moreover have "set more = {c \<in> nodes es - insert p R. live_parents es (insert p R) c = 0 \<and> live_parents es R c \<noteq> 0}"
    proof -
      have "c \<in> set more \<longleftrightarrow> c \<in> nodes es - insert p R \<and> live_parents es (insert p R) c = 0 \<and> live_parents es R c \<noteq> 0" for c
        using succ [of c] live [of c] count_list_0_iff [of "successors es p" c] by (auto simp: K(5) del)
      then show ?thesis by blast
    qed
    ultimately show ?thesis using K(3) by blast
  qed
qed

definition sort_inv :: "('a \<times> 'a) list \<Rightarrow> 'a list \<Rightarrow> 'a list \<Rightarrow> 'a num_parents \<Rightarrow> 'a children \<Rightarrow> bool" where
  "sort_inv es seen todo np ch \<longleftrightarrow> counts_live es (set seen) np ch \<and> distinct (seen @ todo) \<and>
     set todo = {x \<in> nodes es - set seen. live_parents es (set seen) x = 0} \<and>
     parents_first es [] seen \<and> set seen \<subseteq> nodes es"

lemma live_mono_0: "live_parents es R x = 0 \<Longrightarrow> R \<subseteq> S \<Longrightarrow> live_parents es S x = 0"
  by (auto simp: live_0_iff)

lemma topsort_loop_inv:
  assumes "sort_inv es seen todo np ch"
  shows "\<exists>answer np' ch'. topsort_loop Py2 seen todo np ch = Inr (answer, np', ch') \<and> sort_inv es answer [] np' ch'"
  using assms
proof (induction Py2 seen todo np ch rule: topsort_loop.induct)
  case (1 seen np ch)
  then show ?case by simp
next
  case (2 seen p todo np ch)
  let ?R = "set seen"
  have inv: "counts_live es ?R np ch" "distinct (seen @ p # todo)"
      "set (p # todo) = {x \<in> nodes es - ?R. live_parents es ?R x = 0}" "parents_first es [] seen" "?R \<subseteq> nodes es"
    using "2.prems" by (auto simp: sort_inv_def)
  have p: "p \<in> nodes es - ?R" "live_parents es ?R p = 0" using inv(3) by auto
  have closed: "q \<in> ?R" if "(q, c) \<in> set es" "c \<in> ?R" for q c
    using parents_first_closed [OF inv(4) that] by simp
  obtain np' ch' new where r: "retire Py2 np ch p = Inr (np', ch', new)" "counts_live es (insert p ?R) np' ch'"
      "distinct new" and new: "set new = {c \<in> nodes es - insert p ?R. live_parents es (insert p ?R) c = 0 \<and> live_parents es ?R c \<noteq> 0}"
    using retire_spec [OF inv(1) p] closed by blast
  have todo: "set todo = {x \<in> nodes es - insert p ?R. live_parents es ?R x = 0}"
    using inv(2,3) by auto
  have "sort_inv es (seen @ [p]) (todo @ new) np' ch'"
    unfolding sort_inv_def
  proof (intro conjI)
    show "counts_live es (set (seen @ [p])) np' ch'" using r(2) by simp
    show "distinct ((seen @ [p]) @ todo @ new)" using inv(2) r(3) new todo by auto
    show "set (todo @ new) = {x \<in> nodes es - set (seen @ [p]). live_parents es (set (seen @ [p])) x = 0}"
      using todo new live_mono_0 [of es ?R _ "insert p ?R"] by auto
    show "parents_first es [] (seen @ [p])" using inv(4) p(2) by (auto simp: parents_first_snoc live_0_iff)
    show "set (seen @ [p]) \<subseteq> nodes es" using inv(5) p by auto
  qed
  from "2.hyps" [OF r(1) refl refl this] r(1) show ?case by simp
qed

lemma takeWhile_short: "x \<in> set xs \<Longrightarrow> length (takeWhile (\<lambda>y. y \<noteq> x) xs) < length xs"
  by (induction xs) auto

lemma parents_first_acyclic:
  assumes "parents_first es [] xs" and "nodes es \<subseteq> set xs" and "distinct xs"
  shows "acyclic (set es)"
proof -
  define pos where "pos x = length (takeWhile (\<lambda>y. y \<noteq> x) xs)" for x
  have step: "pos p < pos c" if "(p, c) \<in> set es" for p c
  proof -
    have c: "c \<in> set xs" using that assms(2) by (force simp: nodes_def)
    then obtain ys zs where xs: "xs = ys @ c # zs" "c \<notin> set ys" by (meson split_list_first)
    have "takeWhile (\<lambda>y. y \<noteq> c) (ys @ c # zs) = ys"
      using xs(2) by (subst takeWhile_append2) auto
    then have pos_c: "pos c = length ys" using xs by (simp add: pos_def)
    have "parents_first es [] (ys @ [c])"
      using assms(1) unfolding xs(1)
      by (induction zs rule: rev_induct) (simp_all add: parents_first_snoc flip: append_assoc append_Cons)
    then have "p \<in> set ys" using that by (force simp: parents_first_snoc)
    then have "pos p < length ys"
      unfolding pos_def xs(1) by (subst takeWhile_append1) (auto simp: takeWhile_short)
    then show ?thesis using pos_c by simp
  qed
  have "pos a < pos b" if "(a, b) \<in> (set es)\<^sup>+" for a b
    using that by (induction rule: trancl_induct) (auto dest: step intro: less_trans)
  then show ?thesis by (auto simp: acyclic_def)
qed

lemma unretired_cycle:
  assumes "x \<in> nodes es - R" and "\<And>x. x \<in> nodes es - R \<Longrightarrow> live_parents es R x \<noteq> 0"
  shows "\<not> acyclic (set es)"
proof
  assume "acyclic (set es)"
  then have "wf (set es)" by (rule finite_acyclic_wf [OF finite_set])
  from wfE_min [OF this assms(1)] obtain z where z: "z \<in> nodes es - R"
      "\<And>y. (y, z) \<in> set es \<Longrightarrow> y \<notin> nodes es - R" by blast
  from assms(2) [OF z(1)] obtain q where "(q, z) \<in> set es" "q \<notin> R" by (auto simp: live_0_iff)
  with z(2) [of q] show False by (force simp: nodes_def)
qed

lemma roots_set:
  assumes "counts_live es R np ch" and "\<And>xs. mset (key_order xs) = mset xs"
  shows "set (roots key_order np) = {x \<in> nodes es - R. live_parents es R x = 0}" and "distinct (roots key_order np)"
proof -
  have ko: "set (key_order xs) = set xs" "distinct (key_order xs) = distinct xs" for xs
    using mset_eq_setD [OF assms(2) [of xs]] mset_eq_imp_distinct_iff [OF assms(2) [of xs]] by simp_all
  show "set (roots key_order np) = {x \<in> nodes es - R. live_parents es R x = 0}"
  proof -
    have np: "dict_ok np" "dict_get np x = (if x \<in> nodes es - R then Some (int (live_parents es R x)) else None)" for x
      using assms(1) by (simp_all add: counts_live_def)
    have "x \<in> set (roots key_order np) \<longleftrightarrow> x \<in> nodes es - R \<and> live_parents es R x = 0" for x
      by (simp add: roots_def ko dict.keys_get [OF np(1)] np(2))
    then show ?thesis by blast
  qed
  show "distinct (roots key_order np)"
    using assms(1) by (simp add: roots_def ko counts_live_def dict.keys_distinct)
qed

section \<open>Cycles\<close>

definition edge :: "('a, 'a list) dict \<Rightarrow> 'a \<Rightarrow> 'a \<Rightarrow> bool" where
  "edge pc a b = (case dict_get pc a of None \<Rightarrow> False | Some cs \<Rightarrow> b \<in> set cs)"

definition simple_path :: "('a, 'a list) dict \<Rightarrow> 'a list \<Rightarrow> bool" where
  "simple_path pc xs \<longleftrightarrow> xs \<noteq> [] \<and> distinct xs \<and> successively (edge pc) xs"

definition simple_cycle :: "('a, 'a list) dict \<Rightarrow> 'a list \<Rightarrow> bool" where
  "simple_cycle pc xs \<longleftrightarrow> simple_path pc xs \<and> edge pc (last xs) (hd xs)"

definition rotation :: "'a list \<Rightarrow> 'a list \<Rightarrow> bool" where
  "rotation xs ys \<longleftrightarrow> (\<exists>k. ys = rotate k xs)"

definition found :: "'a list list \<Rightarrow> 'a list \<Rightarrow> bool" where
  "found cycles c \<longleftrightarrow> (\<exists>d \<in> set cycles. rotation d c)"

definition all_simple :: "('a, 'a list) dict \<Rightarrow> 'a list list \<Rightarrow> bool" where
  "all_simple pc cycles \<longleftrightarrow> (\<forall>c \<in> set cycles. simple_cycle pc c) \<and> sorted_wrt (\<lambda>c d. \<not> rotation c d) cycles"

definition covers :: "('a, 'a list) dict \<Rightarrow> 'a list list \<Rightarrow> 'a list \<Rightarrow> bool" where
  "covers pc cycles path \<longleftrightarrow>
     (\<forall>q d. simple_path pc (path @ q) \<and> edge pc (last (path @ q)) d \<and> d \<in> set (path @ q) \<longrightarrow>
        found cycles (dropWhile (\<lambda>x. x \<noteq> d) (path @ q)))"

lemma rotation_sym: "rotation xs ys \<Longrightarrow> rotation ys xs"
proof -
  assume "rotation xs ys"
  then obtain k where k: "ys = rotate k xs" by (auto simp: rotation_def)
  have "rotate (length xs - k mod length xs) ys = xs"
  proof (cases "xs = []")
    case False
    have "ys = rotate (k mod length xs) xs" using k by (simp flip: rotate_conv_mod)
    moreover have "length xs - k mod length xs + k mod length xs = length xs"
      using False by (simp add: less_imp_le)
    ultimately show ?thesis by (simp add: rotate_rotate rotate_id)
  qed (simp add: k)
  then show ?thesis unfolding rotation_def by metis
qed

lemma rotation_trans: "rotation xs ys \<Longrightarrow> rotation ys zs \<Longrightarrow> rotation xs zs"
  unfolding rotation_def by (metis rotate_rotate)

lemma find_dup_spec: "\<forall>c \<in> set cycles. c \<noteq> [] \<Longrightarrow> find_dup cycles c = Inr (found cycles c)"
proof (induction cycles)
  case (Cons d cycles)
  then have "is_rotated d c = Inr (\<exists>i < length d. c = rotate i d)" by (simp add: is_rotated_rotate)
  moreover have "(\<exists>i < length d. c = rotate i d) \<longleftrightarrow> rotation d c"
    unfolding rotation_def using Cons.prems rotate_conv_mod [of _ d] by (metis length_greater_0_conv list.set_intros(1) mod_less_divisor)
  ultimately show ?case using Cons by (simp add: found_def)
qed (simp add: found_def)

lemma simple_cycle_rotate: "simple_cycle pc c \<Longrightarrow> simple_cycle pc (rotate k c)"
proof (induction k)
  case (Suc k)
  have "simple_cycle pc (rotate1 d)" if "simple_cycle pc d" for d
  proof (cases d)
    case (Cons x xs)
    with that show ?thesis
      by (cases "xs = []") (auto simp: simple_cycle_def simple_path_def successively_append_iff successively_Cons)
  qed (use that in simp)
  with Suc show ?case by simp
qed simp

lemma close_path:
  assumes "simple_path pc path" and "c \<in> set path" and "edge pc (last path) c"
  shows "simple_cycle pc (dropWhile (\<lambda>x. x \<noteq> c) path)"
proof -
  obtain ys zs where p: "path = ys @ c # zs" "c \<notin> set ys" using assms(2) by (meson split_list_first)
  have "dropWhile (\<lambda>x. x \<noteq> c) path = c # zs" unfolding p(1) using p(2) by (subst dropWhile_append2) auto
  then show ?thesis
    using assms by (auto simp: p(1) simple_cycle_def simple_path_def successively_append_iff)
qed

lemma visit_children_spec:
  assumes "simple_path pc path" and "all_simple pc cycles" and "\<forall>c \<in> set cs. edge pc (last path) c"
  shows "\<exists>more. foldE (visit_child path) (paths, visited, cycles) cs =
      Inr (paths @ map (\<lambda>c. path @ [c]) (filter (\<lambda>c. c \<notin> set path) cs), visited \<union> (set cs - set path), cycles @ more) \<and>
    all_simple pc (cycles @ more) \<and>
    (\<forall>c \<in> set cs \<inter> set path. found (cycles @ more) (dropWhile (\<lambda>x. x \<noteq> c) path))"
  using assms(2,3)
proof (induction cs arbitrary: paths visited cycles)
  case Nil
  then show ?case by simp
next
  case (Cons c cs)
  let ?new = "dropWhile (\<lambda>x. x \<noteq> c) path"
  define add where "add = (if c \<in> set path \<and> \<not> found cycles ?new then [?new] else [])"
  have ne: "\<forall>c \<in> set cycles. c \<noteq> []"
    using Cons.prems(1) by (auto simp: all_simple_def simple_cycle_def simple_path_def)
  have simple: "all_simple pc (cycles @ add)"
    using Cons.prems close_path [OF assms(1)]
    by (auto simp: add_def all_simple_def sorted_wrt_append found_def)
  define paths1 where "paths1 = (if c \<in> set path then paths else paths @ [path @ [c]])"
  define visited1 where "visited1 = (if c \<in> set path then visited else insert c visited)"
  have step: "visit_child path (paths, visited, cycles) c = Inr (paths1, visited1, cycles @ add)"
    by (simp add: visit_child_def find_dup_spec [OF ne] Let_def add_def paths1_def visited1_def)
  obtain more where more: "foldE (visit_child path) (paths1, visited1, cycles @ add) cs =
      Inr (paths1 @ map (\<lambda>c. path @ [c]) (filter (\<lambda>c. c \<notin> set path) cs), visited1 \<union> (set cs - set path), (cycles @ add) @ more)"
    "all_simple pc ((cycles @ add) @ more)"
    "\<forall>c \<in> set cs \<inter> set path. found ((cycles @ add) @ more) (dropWhile (\<lambda>x. x \<noteq> c) path)"
    using Cons.IH [OF simple] Cons.prems(2) by (meson list.set_intros(2))
  have self: "rotation ?new ?new" unfolding rotation_def by (metis rotate0 id_apply)
  have "found (cycles @ add @ more) ?new" if "c \<in> set path"
    using that self by (cases "found cycles ?new") (auto simp: found_def add_def)
  moreover have "foldE (visit_child path) (paths, visited, cycles) (c # cs) =
      Inr (paths @ map (\<lambda>c. path @ [c]) (filter (\<lambda>c. c \<notin> set path) (c # cs)), visited \<union> (set (c # cs) - set path), cycles @ add @ more)"
    using step more(1) by (auto simp: paths1_def visited1_def)
  ultimately show ?case using more(2,3) by (intro exI [of _ "add @ more"]) auto
qed

lemma covers_step:
  assumes "\<And>c. edge pc (last path) c \<Longrightarrow> c \<in> set path \<Longrightarrow> found cycles (dropWhile (\<lambda>x. x \<noteq> c) path)"
    and "\<And>c. edge pc (last path) c \<Longrightarrow> c \<notin> set path \<Longrightarrow> covers pc cycles (path @ [c])"
    and "path \<noteq> []"
  shows "covers pc cycles path"
  unfolding covers_def
proof (intro allI impI)
  fix q d
  assume q: "simple_path pc (path @ q) \<and> edge pc (last (path @ q)) d \<and> d \<in> set (path @ q)"
  show "found cycles (dropWhile (\<lambda>x. x \<noteq> d) (path @ q))"
  proof (cases q)
    case Nil
    with q assms(1) show ?thesis by simp
  next
    case (Cons c q')
    have "edge pc (last path) c" "c \<notin> set path"
      using q assms(3) by (auto simp: Cons simple_path_def successively_append_iff)
    then have "covers pc cycles (path @ [c])" by (rule assms(2))
    then show ?thesis using q by (simp add: Cons covers_def)
  qed
qed

lemma found_append: "found cycles c \<Longrightarrow> found (cycles @ more) c"
  by (auto simp: found_def)

lemma covers_append: "covers pc cycles path \<Longrightarrow> covers pc (cycles @ more) path"
  by (auto simp: covers_def found_append)

lemma simple_path_snoc:
  "simple_path pc (path @ [c]) \<longleftrightarrow> (path = [] \<or> simple_path pc path \<and> c \<notin> set path \<and> edge pc (last path) c)"
  by (cases "path = []") (auto simp: simple_path_def successively_append_iff)

lemma cycles_loop_spec:
  assumes "\<forall>path \<in> set paths. simple_path pc path" and "all_simple pc cycles"
  shows "\<exists>visited' more. cycles_loop pc paths visited cycles = Inr (visited', cycles @ more) \<and>
     all_simple pc (cycles @ more) \<and> (\<forall>path \<in> set paths. covers pc (cycles @ more) path) \<and>
     (\<forall>x \<in> visited'. x \<in> visited \<or> (\<exists>path \<in> set paths. (edge pc)\<^sup>*\<^sup>* (last path) x))"
  using assms
proof (induction pc paths visited cycles rule: cycles_loop.induct)
  case (1 pc paths visited cycles)
  show ?case
  proof (cases "paths = []")
    case True
    with "1.prems" show ?thesis by (simp add: cycles_loop.simps)
  next
    case False
    let ?path = "last paths" and ?rest = "butlast paths"
    have split: "set paths = insert ?path (set ?rest)"
      using append_butlast_last_id [OF False] by (metis insert_is_Un list.simps(15) set_append sup_commute set_empty2)
    have sp: "simple_path pc ?path" and rest: "\<forall>path \<in> set ?rest. simple_path pc path"
      using "1.prems"(1) split by auto
    have ne: "?path \<noteq> []" using sp by (simp add: simple_path_def)
    show ?thesis
    proof (cases "dict_get pc (last ?path)")
      case None
      have eq: "cycles_loop pc paths visited cycles = cycles_loop pc ?rest visited cycles"
        using False ne None by (subst cycles_loop.simps) (simp add: Let_def)
      have "covers pc cycles' ?path" for cycles'
        by (rule covers_step) (use None ne in \<open>simp_all add: edge_def\<close>)
      with "1.IH"(1) [OF False refl refl ne None rest "1.prems"(2)] show ?thesis
        unfolding eq split by auto
    next
      case (Some cs)
      have edges: "edge pc (last ?path) c \<longleftrightarrow> c \<in> set cs" for c using Some by (simp add: edge_def)
      let ?new = "map (\<lambda>c. ?path @ [c]) (filter (\<lambda>c. c \<notin> set ?path) cs)"
      let ?vis = "visited \<union> (set cs - set ?path)"
      obtain more where fold: "foldE (visit_child ?path) (?rest, visited, cycles) cs = Inr (?rest @ ?new, ?vis, cycles @ more)"
        and simple: "all_simple pc (cycles @ more)"
        and dups: "\<forall>c \<in> set cs \<inter> set ?path. found (cycles @ more) (dropWhile (\<lambda>x. x \<noteq> c) ?path)"
        using visit_children_spec [OF sp "1.prems"(2), of cs ?rest visited] edges by blast
      have eq: "cycles_loop pc paths visited cycles = cycles_loop pc (?rest @ ?new) ?vis (cycles @ more)"
        using False ne Some fold by (subst cycles_loop.simps) (simp add: Let_def)
      have "\<forall>path \<in> set (?rest @ ?new). simple_path pc path"
        using rest sp by (auto simp: simple_path_snoc edges)
      from "1.IH"(2) [OF False refl refl ne Some fold refl refl this simple] obtain visited' more' where
        IH: "cycles_loop pc (?rest @ ?new) ?vis (cycles @ more) = Inr (visited', cycles @ more @ more')"
          "all_simple pc (cycles @ more @ more')"
          "\<forall>path \<in> set (?rest @ ?new). covers pc (cycles @ more @ more') path"
          "\<forall>x \<in> visited'. x \<in> ?vis \<or> (\<exists>path \<in> set (?rest @ ?new). (edge pc)\<^sup>*\<^sup>* (last path) x)"
        by auto
      have "covers pc (cycles @ more @ more') ?path"
      proof (rule covers_step [OF _ _ ne])
        fix c assume "edge pc (last ?path) c" "c \<in> set ?path"
        then have "found (cycles @ more) (dropWhile (\<lambda>x. x \<noteq> c) ?path)" using dups edges by blast
        then show "found (cycles @ more @ more') (dropWhile (\<lambda>x. x \<noteq> c) ?path)"
          using found_append [of "cycles @ more" _ more'] by simp
      next
        fix c assume "edge pc (last ?path) c" "c \<notin> set ?path"
        then show "covers pc (cycles @ more @ more') (?path @ [c])" using IH(3) edges by auto
      qed
      moreover have "\<forall>x \<in> visited'. x \<in> visited \<or> (\<exists>path \<in> set paths. (edge pc)\<^sup>*\<^sup>* (last path) x)"
      proof
        fix x assume "x \<in> visited'"
        then consider "x \<in> visited" | "x \<in> set cs" | path where "path \<in> set ?rest" "(edge pc)\<^sup>*\<^sup>* (last path) x"
          | c where "c \<in> set cs" "(edge pc)\<^sup>*\<^sup>* c x"
          using IH(4) by fastforce
        then show "x \<in> visited \<or> (\<exists>path \<in> set paths. (edge pc)\<^sup>*\<^sup>* (last path) x)"
        proof cases
          case 2
          then have "(edge pc)\<^sup>*\<^sup>* (last ?path) x" using edges by blast
          then show ?thesis using split by blast
        next
          case 4
          then have "(edge pc)\<^sup>*\<^sup>* (last ?path) x" using edges by (meson converse_rtranclp_into_rtranclp)
          then show ?thesis using split by blast
        qed (use split in auto)
      qed
      ultimately show ?thesis using eq IH split by auto
    qed
  qed
qed

lemma start_nodes_spec:
  assumes "all_simple pc cycles" and "\<forall>x \<in> visited. \<exists>s \<in> S. (edge pc)\<^sup>*\<^sup>* s x"
    and "\<forall>s \<in> S. covers pc cycles [s]"
  shows "\<exists>visited' more S'. foldE (start_node pc) (visited, cycles) ks = Inr (visited', cycles @ more) \<and>
     all_simple pc (cycles @ more) \<and> S \<subseteq> S' \<and> (\<forall>s \<in> S'. covers pc (cycles @ more) [s]) \<and>
     (\<forall>k \<in> set ks. \<exists>s \<in> S'. (edge pc)\<^sup>*\<^sup>* s k)"
  using assms
proof (induction ks arbitrary: visited cycles S)
  case Nil
  then show ?case by auto
next
  case (Cons k ks)
  show ?case
  proof (cases "k \<in> visited")
    case True
    then have eq: "foldE (start_node pc) (visited, cycles) (k # ks) = foldE (start_node pc) (visited, cycles) ks"
      by (simp add: start_node_def)
    have "\<exists>s \<in> S. (edge pc)\<^sup>*\<^sup>* s k" using True Cons.prems(2) by blast
    moreover obtain visited' more S' where *: "foldE (start_node pc) (visited, cycles) ks = Inr (visited', cycles @ more)"
        "all_simple pc (cycles @ more)" "S \<subseteq> S'" "\<forall>s \<in> S'. covers pc (cycles @ more) [s]"
        "\<forall>k \<in> set ks. \<exists>s \<in> S'. (edge pc)\<^sup>*\<^sup>* s k"
      using Cons.IH [OF Cons.prems] by blast
    ultimately have "(\<forall>k' \<in> set (k # ks). \<exists>s \<in> S'. (edge pc)\<^sup>*\<^sup>* s k')" by auto
    with * show ?thesis unfolding eq by blast
  next
    case False
    have "\<forall>path \<in> set [[k]]. simple_path pc path" by (simp add: simple_path_def)
    from cycles_loop_spec [OF this Cons.prems(1), of visited] obtain visited1 more where
      l: "cycles_loop pc [[k]] visited cycles = Inr (visited1, cycles @ more)" "all_simple pc (cycles @ more)"
        "covers pc (cycles @ more) [k]" "\<forall>x \<in> visited1. x \<in> visited \<or> (edge pc)\<^sup>*\<^sup>* k x"
      by auto
    have A: "\<forall>x \<in> visited1. \<exists>s \<in> insert k S. (edge pc)\<^sup>*\<^sup>* s x" using l(4) Cons.prems(2) by blast
    have B: "\<forall>s \<in> insert k S. covers pc (cycles @ more) [s]" using l(3) Cons.prems(3) covers_append by blast
    obtain visited' more' S' where
      IH: "foldE (start_node pc) (visited1, cycles @ more) ks = Inr (visited', cycles @ more @ more')"
        "all_simple pc (cycles @ more @ more')" "insert k S \<subseteq> S'" "\<forall>s \<in> S'. covers pc (cycles @ more @ more') [s]"
        "\<forall>k \<in> set ks. \<exists>s \<in> S'. (edge pc)\<^sup>*\<^sup>* s k"
      using Cons.IH [OF l(2) A B] unfolding append_assoc by blast
    have "foldE (start_node pc) (visited, cycles) (k # ks) = Inr (visited', cycles @ more @ more')"
      using False l(1) IH(1) by (simp add: start_node_def)
    moreover have "\<exists>s \<in> S'. (edge pc)\<^sup>*\<^sup>* s k" using IH(3) by blast
    ultimately show ?thesis
      using IH(2-5) by (intro exI [of _ visited'] exI [of _ "more @ more'"] exI [of _ S']) auto
  qed
qed

lemma enter_set:
  assumes "(edge pc)\<^sup>*\<^sup>* s t" and "t \<in> C"
  shows "\<exists>ys u. u \<in> C \<and> set ys \<inter> C = {} \<and> simple_path pc (ys @ [u]) \<and> hd (ys @ [u]) = s"
  using assms
proof (induction rule: converse_rtranclp_induct)
  case base
  then show ?case by (intro exI [of _ "[]"] exI [of _ t]) (simp add: simple_path_def)
next
  case (step s s')
  then obtain ys u where p: "u \<in> C" "set ys \<inter> C = {}" "simple_path pc (ys @ [u])" "hd (ys @ [u]) = s'" by blast
  consider "s \<in> C" | "s \<notin> C" "s \<in> set ys" | "s \<notin> C" "s \<notin> set ys" by blast
  then show ?case
  proof cases
    case 1
    then show ?thesis by (intro exI [of _ "[]"] exI [of _ s]) (simp add: simple_path_def)
  next
    case 2
    then obtain as bs where ys: "ys = as @ s # bs" by (meson split_list)
    have "simple_path pc ((s # bs) @ [u])"
      using p(3) by (auto simp: ys simple_path_def successively_append_iff)
    then show ?thesis using p(1,2) ys by (intro exI [of _ "s # bs"] exI [of _ u]) auto
  next
    case 3
    then have "simple_path pc ((s # ys) @ [u])"
      using p step.hyps(1) by (cases ys) (auto simp: simple_path_def successively_Cons)
    then show ?thesis using p(1,2) 3 by (intro exI [of _ "s # ys"] exI [of _ u]) auto
  qed
qed

lemma rotate_to: "u \<in> set c \<Longrightarrow> \<exists>k r. rotate k c = u # r"
proof -
  assume "u \<in> set c"
  then obtain i where i: "i < length c" "c ! i = u" by (auto simp: in_set_conv_nth)
  then have "hd (rotate i c) = u" using hd_rotate_conv_nth [of c i] by (cases "c = []") auto
  moreover have "rotate i c \<noteq> []" using i by auto
  ultimately show ?thesis by (metis list.exhaust_sel)
qed

lemma covered_cycle:
  assumes cov: "covers pc cycles [s]" and reach: "(edge pc)\<^sup>*\<^sup>* s t" and c: "simple_cycle pc c" "t \<in> set c"
  shows "found cycles c"
proof -
  from enter_set [OF reach c(2)] obtain ys u where
    p: "u \<in> set c" "set ys \<inter> set c = {}" "simple_path pc (ys @ [u])" "hd (ys @ [u]) = s" by blast
  from rotate_to [OF p(1)] obtain k r where r: "rotate k c = u # r" by blast
  have cyc: "simple_cycle pc (u # r)" using simple_cycle_rotate [OF c(1), of k] r by simp
  have sr: "set (u # r) = set c" using r set_rotate [of k c] by simp
  have path: "simple_path pc (ys @ u # r)"
    using p(2,3) cyc sr by (auto simp: simple_path_def simple_cycle_def successively_append_iff)
  obtain q where q: "ys @ u # r = [s] @ q" using p(4) by (cases ys) auto
  have "u \<notin> set ys" using p(1,2) by auto
  then have "dropWhile (\<lambda>x. x \<noteq> u) (ys @ u # r) = u # r" by (subst dropWhile_append2) auto
  moreover have "edge pc (last (ys @ u # r)) u" using cyc by (simp add: simple_cycle_def)
  ultimately have "found cycles (u # r)" using cov path unfolding covers_def q [symmetric] by (metis in_set_conv_decomp q)
  then obtain d where "d \<in> set cycles" "rotation d (u # r)" by (auto simp: found_def)
  moreover have "rotation (u # r) c" using r rotation_sym unfolding rotation_def by metis
  ultimately show ?thesis unfolding found_def using rotation_trans by blast
qed

text \<open>The levels: the elements whose parents all are in earlier levels.\<close>

fun levels_ok :: "('a \<times> 'a) list \<Rightarrow> 'a set \<Rightarrow> 'a list list \<Rightarrow> bool" where
  "levels_ok es R [] = True"
| "levels_ok es R (level # levels) =
     (level \<noteq> [] \<and> distinct level \<and>
      set level = {x \<in> nodes es - R. \<forall>e \<in> set es. snd e = x \<longrightarrow> fst e \<in> R} \<and>
      levels_ok es (R \<union> set level) levels)"

lemma levels_ok_snoc:
  "levels_ok es R (levels @ [l]) \<longleftrightarrow> levels_ok es R levels \<and> levels_ok es (R \<union> set (concat levels)) [l]"
  by (induction levels arbitrary: R) (auto simp: Un_assoc)

lemma retire_level_spec:
  assumes "counts_live es R np ch" and "distinct ps" and "\<forall>p \<in> set ps. p \<in> nodes es - R \<and> live_parents es R p = 0"
    and "\<forall>e \<in> set es. snd e \<in> R \<longrightarrow> fst e \<in> R"
  shows "\<exists>np' ch'. retire_level Py2 np ch ps = Inr (np', ch') \<and> counts_live es (R \<union> set ps) np' ch'"
  using assms
proof (induction ps arbitrary: R np ch)
  case Nil
  then show ?case by (simp add: retire_level_def)
next
  case (Cons p ps)
  have p: "p \<in> nodes es - R" "live_parents es R p = 0" using Cons.prems(3) by auto
  have "q \<in> R" if "(q, c) \<in> set es" "c \<in> R" for q c using Cons.prems(4) that by auto
  then obtain np1 ch1 new where
    r: "retire Py2 np ch p = Inr (np1, ch1, new)" "counts_live es (insert p R) np1 ch1"
    using retire_spec [OF Cons.prems(1) p] by blast
  have "\<exists>np' ch'. retire_level Py2 np1 ch1 ps = Inr (np', ch') \<and> counts_live es (insert p R \<union> set ps) np' ch'"
  proof (rule Cons.IH [OF r(2)])
    show "distinct ps" using Cons.prems(2) by simp
    show "\<forall>q \<in> set ps. q \<in> nodes es - insert p R \<and> live_parents es (insert p R) q = 0"
      using Cons.prems(2,3) live_mono_0 [of es R _ "insert p R"] by auto
    show "\<forall>e \<in> set es. snd e \<in> insert p R \<longrightarrow> fst e \<in> insert p R"
      using Cons.prems(4) p(2) by (auto simp: live_0_iff)
  qed
  with r(1) show ?case by (auto simp: retire_level_def)
qed

lemma level_parents_first:
  "\<forall>x \<in> set l. \<forall>e \<in> set es. snd e = x \<longrightarrow> fst e \<in> set seen \<Longrightarrow>
   parents_first es seen (l @ r) = parents_first es (seen @ l) r"
proof (induction l arbitrary: seen)
  case (Cons x l)
  have "\<forall>x \<in> set l. \<forall>e \<in> set es. snd e = x \<longrightarrow> fst e \<in> set (seen @ [x'])" for x' using Cons.prems by auto
  from Cons.IH [OF this [of x]] Cons.prems show ?case by simp
qed simp

lemma levels_sort:
  "levels_ok es (set seen) levels \<Longrightarrow> parents_first es seen (concat levels) \<and>
     distinct (concat levels) \<and> set seen \<inter> set (concat levels) = {}"
proof (induction levels arbitrary: seen)
  case (Cons l levels)
  have l: "distinct l" "set l = {x \<in> nodes es - set seen. \<forall>e \<in> set es. snd e = x \<longrightarrow> fst e \<in> set seen}"
    and ls: "levels_ok es (set (seen @ l)) levels"
    using Cons.prems by auto
  have "parents_first es seen (l @ concat levels) = parents_first es (seen @ l) (concat levels)"
    by (rule level_parents_first) (use l(2) in blast)
  then show ?case using Cons.IH [OF ls] l by auto
qed simp

lemma levels_loop_spec:
  assumes ko: "\<And>xs. mset (key_order xs) = mset xs"
    and "counts_live es (set (concat out)) np ch" and "levels_ok es {} out"
    and "\<forall>e \<in> set es. snd e \<in> set (concat out) \<longrightarrow> fst e \<in> set (concat out)" and "set (concat out) \<subseteq> nodes es"
  shows "\<exists>levels e. levels_loop Py2 key_order out np ch = (levels, e) \<and> levels_ok es {} levels \<and>
     (if acyclic (set es) then e = PyError StopIteration \<and> set (concat levels) = nodes es
      else (\<exists>np' ch'. e = CycleError [] np' ch' \<and> set (dict_keys np') = nodes es - set (concat levels)))"
  using assms
proof (induction Py2 key_order out np ch rule: levels_loop.induct)
  case (1 key_order out np ch)
  let ?R = "set (concat out)" and ?L = "roots key_order np"
  have ok: "dict_ok np" "dict_get np x = (if x \<in> nodes es - ?R then Some (int (live_parents es ?R x)) else None)" for x
    using "1.prems"(2) by (simp_all add: counts_live_def)
  have "x \<in> set (dict_keys np) \<longleftrightarrow> x \<in> nodes es - ?R" for x by (simp add: dict.keys_get [OF ok(1)] ok(2))
  then have keys: "set (dict_keys np) = nodes es - ?R" by blast
  have L: "set ?L = {x \<in> nodes es - ?R. live_parents es ?R x = 0}" "distinct ?L"
    using roots_set [OF "1.prems"(2,1)] by blast+
  show ?case
  proof (cases "?L = []")
    case True
    have stuck: "live_parents es ?R x \<noteq> 0" if "x \<in> nodes es - ?R" for x
      using True L(1) that by (metis (mono_tags, lifting) empty_iff list.set(1) mem_Collect_eq)
    have eq: "levels_loop Py2 key_order out np ch = (out, if np \<noteq> [] then CycleError [] np ch else PyError StopIteration)"
      using True by (subst levels_loop.simps) simp
    show ?thesis
    proof (cases "np = []")
      case True
      then have "nodes es = ?R" using keys "1.prems"(5) by (auto simp: dict_keys_def)
      moreover from this have "acyclic (set es)"
        using levels_sort [of es "[]" out] "1.prems"(3) by (intro parents_first_acyclic [of es "concat out"]) simp_all
      ultimately show ?thesis using eq True "1.prems"(3) by simp
    next
      case False
      then have "set (dict_keys np) \<noteq> {}" by (simp add: dict_keys_def)
      then obtain x where "x \<in> nodes es - ?R" unfolding keys by blast
      then have "\<not> acyclic (set es)" by (rule unretired_cycle) (rule stuck)
      then show ?thesis using eq False "1.prems"(3) keys by simp
    qed
  next
    case False
    have "\<forall>p \<in> set ?L. p \<in> nodes es - ?R \<and> live_parents es ?R p = 0" using L(1) by simp
    from retire_level_spec [OF "1.prems"(2) L(2) this "1.prems"(4)] obtain np' ch' where
      r: "retire_level Py2 np ch ?L = Inr (np', ch')" "counts_live es (set (concat (out @ [?L]))) np' ch'"
      by auto
    have eq: "levels_loop Py2 key_order out np ch = levels_loop Py2 key_order (out @ [?L]) np' ch'"
      using False r(1) by (subst levels_loop.simps) simp
    have parents: "x \<in> set ?L \<longleftrightarrow> x \<in> nodes es - ?R \<and> (\<forall>e \<in> set es. snd e = x \<longrightarrow> fst e \<in> ?R)" for x
      unfolding L(1) by (simp add: live_0_edges)
    have "levels_ok es {} (out @ [?L])"
      unfolding levels_ok_snoc using "1.prems"(3) False L(2) parents by auto
    moreover have "\<forall>e \<in> set es. snd e \<in> set (concat (out @ [?L])) \<longrightarrow> fst e \<in> set (concat (out @ [?L]))"
      using "1.prems"(4) parents by simp
    moreover have "set (concat (out @ [?L])) \<subseteq> nodes es" using "1.prems"(5) parents by auto
    ultimately show ?thesis
      using "1.hyps" [OF refl False r(1) refl "1.prems"(1) r(2)] unfolding eq by blast
  qed
qed

section \<open>Properties\<close>

definition sorts :: "('a \<times> 'a) list \<Rightarrow> 'a list \<Rightarrow> bool" where
  "sorts es answer \<longleftrightarrow> distinct answer \<and> set answer = nodes es \<and> parents_first es [] answer"

text \<open>
  C4: Under Python 2, whatever the order of the keys: \<open>topsort\<close> returns a list exactly when the
  pairs have no cycle, and then each element of a pair once with its parents before it; otherwise it
  raises \<open>CycleError\<close>, with elements that all lie outside the list it had built.
\<close>

theorem topsort_correct:
  assumes "\<And>xs. mset (key_order xs) = mset xs"
  shows "case topsort Py2 key_order pairlist of
      Inr answer \<Rightarrow> acyclic (set pairlist) \<and> sorts pairlist answer
    | Inl e \<Rightarrow> \<not> acyclic (set pairlist) \<and>
        (\<exists>answer np ch. e = CycleError answer np ch \<and> parents_first pairlist [] answer \<and>
           set (dict_keys np) = nodes pairlist - set answer \<and> dict_keys np \<noteq> [])"
proof -
  obtain np ch where rp: "read_pairs Py2 pairlist = Inr (np, ch)" "counts_live pairlist {} np ch"
    using read_pairs_counts by blast
  have "sort_inv pairlist [] (roots key_order np) np ch"
    using rp(2) roots_set [OF rp(2) assms] by (auto simp: sort_inv_def)
  from topsort_loop_inv [OF this] obtain answer np' ch' where
    l: "topsort_loop Py2 [] (roots key_order np) np ch = Inr (answer, np', ch')" and i: "sort_inv pairlist answer [] np' ch'"
    by blast
  have "x \<in> set (dict_keys np') \<longleftrightarrow> x \<in> nodes pairlist - set answer" for x
    using i by (simp add: sort_inv_def counts_live_def dict.keys_get)
  then have keys: "set (dict_keys np') = nodes pairlist - set answer" by blast
  have stuck: "live_parents pairlist (set answer) x \<noteq> 0" if "x \<in> nodes pairlist - set answer" for x
    using i that by (auto simp: sort_inv_def)
  show ?thesis
  proof (cases "np' = []")
    case True
    then have "nodes pairlist = set answer" using keys i by (auto simp: sort_inv_def dict_keys_def)
    then have "sorts pairlist answer" using i by (simp add: sort_inv_def sorts_def)
    then show ?thesis
      using rp(1) l True parents_first_acyclic by (auto simp: topsort_def sorts_def)
  next
    case False
    then have ne: "dict_keys np' \<noteq> []" by (simp add: dict_keys_def)
    then obtain x where "x \<in> nodes pairlist - set answer" using keys by (cases "dict_keys np'") auto
    then have "\<not> acyclic (set pairlist)" by (rule unretired_cycle) (rule stuck)
    then show ?thesis using rp(1) l False ne keys i by (auto simp: topsort_def sort_inv_def)
  qed
qed

theorem topsort_correct_witness:
  "topsort Py2 rev [(1::int, 2), (3, 4), (5, 6), (1, 3), (1, 5), (1, 6), (2, 5)] = Inr [1, 2, 3, 5, 4, 6] \<and>
   sorts [(1::int, 2), (3, 4), (5, 6), (1, 3), (1, 5), (1, 6), (2, 5)] [1, 2, 3, 5, 4, 6]"
proof
  show t: "topsort Py2 rev [(1::int, 2), (3, 4), (5, 6), (1, 3), (1, 5), (1, 6), (2, 5)] = Inr [1, 2, 3, 5, 4, 6]"
    by code_simp
  show "sorts [(1::int, 2), (3, 4), (5, 6), (1, 3), (1, 5), (1, 6), (2, 5)] [1, 2, 3, 5, 4, 6]"
    using topsort_correct [of rev "[(1::int, 2), (3, 4), (5, 6), (1, 3), (1, 5), (1, 6), (2, 5)]"] by (simp add: t)
qed

text \<open>
  Under Python 2, whatever the order of the keys: \<open>topsort_levels\<close> yields the levels in order,
  each with exactly the elements whose parents all are in earlier levels; without a cycle they hold
  every element and the generator stops, with a cycle it raises \<open>CycleError\<close> after them.
\<close>

theorem topsort_levels_correct:
  assumes "\<And>xs. mset (key_order xs) = mset xs"
  shows "\<exists>levels e. topsort_levels Py2 key_order pairlist = Inr (levels, e) \<and> levels_ok pairlist {} levels \<and>
     (if acyclic (set pairlist) then e = PyError StopIteration \<and> set (concat levels) = nodes pairlist
      else (\<exists>np ch. e = CycleError [] np ch \<and> set (dict_keys np) = nodes pairlist - set (concat levels)))"
proof -
  obtain np ch where rp: "read_pairs Py2 pairlist = Inr (np, ch)" "counts_live pairlist {} np ch"
    using read_pairs_counts by blast
  have "counts_live pairlist (set (concat [])) np ch" using rp(2) by simp
  from levels_loop_spec [OF assms this] rp(1) show ?thesis
    by (simp add: topsort_levels_def topsort_levels_core_def)
qed

theorem topsort_levels_correct_witness:
  "\<exists>levels e. topsort_levels Py2 rev [(1::int, 2), (2, 3), (3, 4), (4, 3)] = Inr (levels, e) \<and> levels = [[1], [2]] \<and>
     levels_ok [(1::int, 2), (2, 3), (3, 4), (4, 3)] {} levels"
proof -
  have "map_sum id fst (topsort_levels Py2 rev [(1::int, 2), (2, 3), (3, 4), (4, 3)]) = Inr [[1], [2]]"
    by code_simp
  moreover obtain levels e where l: "topsort_levels Py2 rev [(1::int, 2), (2, 3), (3, 4), (4, 3)] = Inr (levels, e)"
      "levels_ok [(1::int, 2), (2, 3), (3, 4), (4, 3)] {} levels"
    using topsort_levels_correct [of rev "[(1::int, 2), (2, 3), (3, 4), (4, 3)]"] mset_rev by blast
  ultimately have "levels = [[1], [2]]" by simp
  with l show ?thesis by blast
qed

text \<open>
  C3: \<open>find_cycles\<close>, run to its end, raises nothing and yields only simple cycles of the graph, and each
  simple cycle of the graph exactly once up to rotation, in whatever order the dictionary is iterated.
\<close>

theorem find_cycles_exact:
  assumes "dict_ok pc" and "\<And>xs. mset (key_order xs) = mset xs"
  shows "\<exists>cycles. find_cycles key_order pc = Inr cycles \<and> (\<forall>c \<in> set cycles. simple_cycle pc c) \<and>
     (\<forall>c. simple_cycle pc c \<longrightarrow> (\<exists>!i. i < length cycles \<and> rotation (cycles ! i) c))"
proof -
  have "all_simple pc []" by (simp add: all_simple_def)
  from start_nodes_spec [OF this, of "{}" "{}" "key_order (dict_keys pc)"] obtain visited cycles S where
    f: "foldE (start_node pc) ({}, []) (key_order (dict_keys pc)) = Inr (visited, cycles)"
      "all_simple pc cycles" "\<forall>s \<in> S. covers pc cycles [s]"
      "\<forall>k \<in> set (key_order (dict_keys pc)). \<exists>s \<in> S. (edge pc)\<^sup>*\<^sup>* s k" by auto
  have keys: "set (key_order (dict_keys pc)) = set (dict_keys pc)" by (rule mset_eq_setD [OF assms(2)])
  have "\<exists>!i. i < length cycles \<and> rotation (cycles ! i) c" if c: "simple_cycle pc c" for c
  proof -
    have "last c \<in> set (dict_keys pc)"
      using c dict.keys_get [OF assms(1)] by (auto simp: simple_cycle_def edge_def split: option.splits)
    then obtain s where s: "s \<in> S" "(edge pc)\<^sup>*\<^sup>* s (last c)" using f(4) keys by blast
    have "found cycles c"
      by (rule covered_cycle [OF _ s(2) c]) (use f(3) s(1) c in \<open>auto simp: simple_cycle_def simple_path_def\<close>)
    then obtain i where i: "i < length cycles" "rotation (cycles ! i) c" by (auto simp: found_def in_set_conv_nth)
    have no: "\<not> (i < j \<and> j < length cycles \<and> rotation (cycles ! i) c \<and> rotation (cycles ! j) c)" for i j
      using f(2) rotation_trans [OF _ rotation_sym] unfolding all_simple_def sorted_wrt_iff_nth_less by metis
    show ?thesis using i no by (metis linorder_neqE_nat)
  qed
  then show ?thesis using f(1,2) by (auto simp: find_cycles_def all_simple_def)
qed

definition diamond :: "(string, string list) dict" where
  "diamond = [(''A'', [''B1'', ''B2'']), (''B1'', [''C'']), (''B2'', [''C'']), (''C'', [''A'', ''B1''])]"

theorem find_cycles_exact_witness:
  "find_cycles rev diamond = Inr [[''C'', ''B1''], [''C'', ''A'', ''B2''], [''C'', ''A'', ''B1'']] \<and>
   (\<exists>!i. i < 3 \<and> rotation ([[''C'', ''B1''], [''C'', ''A'', ''B2''], [''C'', ''A'', ''B1'']] ! i) [''B1'', ''C''])"
proof
  show t: "find_cycles rev diamond = Inr [[''C'', ''B1''], [''C'', ''A'', ''B2''], [''C'', ''A'', ''B1'']]"
    by code_simp
  have "dict_ok diamond" by (simp add: dict_ok_def diamond_def)
  from find_cycles_exact [OF this mset_rev] obtain cycles where
    f: "find_cycles rev diamond = Inr cycles"
      "\<forall>c. simple_cycle diamond c \<longrightarrow> (\<exists>!i. i < length cycles \<and> rotation (cycles ! i) c)" by blast
  have c: "cycles = [[''C'', ''B1''], [''C'', ''A'', ''B2''], [''C'', ''A'', ''B1'']]" using f(1) t by simp
  have "simple_cycle diamond [''B1'', ''C'']" by code_simp
  with f(2) have "\<exists>!i. i < length cycles \<and> rotation (cycles ! i) [''B1'', ''C'']" by blast
  moreover have "length cycles = 3" using c by simp
  ultimately show "\<exists>!i. i < 3 \<and> rotation ([[''C'', ''B1''], [''C'', ''A'', ''B2''], [''C'', ''A'', ''B1'']] ! i) [''B1'', ''C'']"
    by (simp only: c)
qed

text \<open>Under Python 3 the first pair is fatal.\<close>

lemma topsort_python3: "pairlist \<noteq> [] \<Longrightarrow> topsort Py3 key_order pairlist = Inl (PyError AttributeError)"
  by (cases pairlist) (auto simp: topsort_def read_pairs_def add_pair_def has_key_def)

end
