(* ===== verification/Style_Patch.thy ===== *)
theory Style_Patch
  imports Py_Strings
begin

text \<open>
  \<^verbatim>\<open>utils/check-style.py\<close>: the patches it reads from a diff and writes back, the removal of the
  changes that only concern trailing white space, and the check of a list of files. Uncrustify, the
  diff of the standard library, the \<open>patch\<close> program and the comparison of two files are
  parameters; a file is the list of its lines, each with its newline.
\<close>

section \<open>The configuration of the indenter\<close>

definition style_level0 :: "string list" where
  "style_level0 =
     [''sp_func_proto_paren=Add'', ''sp_func_def_paren=Add'', ''sp_func_call_paren=Add'',
      ''sp_after_semi_for=Ignore'', ''sp_before_sparen=Ignore'', ''sp_before_ellipsis=Remove'',
      ''sp_type_func=Ignore'', ''sp_after_type=Ignore'', ''nl_class_leave_one_liners=True'',
      ''nl_enum_leave_one_liners=True'', ''nl_func_leave_one_liners=True'',
      ''nl_assign_leave_one_liners=True'', ''nl_collapse_empty_body=True'',
      ''nl_getset_leave_one_liners=True'', ''nl_if_leave_one_liners=True'', ''nl_fdef_brace=Ignore'',
      ''# finally, indentation configuration'', ''indent_with_tabs=0'', ''indent_namespace=false'',
      ''indent_columns=2'', ''indent_brace=2'', ''indent_case_brace=indent_columns'', ''indent_class=true'',
      ''indent_class_colon=True'', ''indent_switch_case=indent_columns'', ''# alignment'',
      ''indent_align_assign=False'', ''align_left_shift=True'', ''# comment reformating disabled'',
      ''cmt_reflow_mode=1 # do not touch comments at all'',
      ''cmt_indent_multi=False # really, do not touch them'',
      ''disable_processing_cmt= \" *NS_CHECK_STYLE_OFF*\"'',
      ''enable_processing_cmt=  \" *NS_CHECK_STYLE_ON*\"'']"

definition style_level1 :: "string list" where
  "style_level1 =
     [''# extra spaces here and there'', ''sp_brace_typedef=Add'', ''sp_enum_assign=Add'',
      ''sp_before_sparen=Add'', ''sp_after_semi_for=Add'', ''sp_arith=Add'', ''sp_assign=Add'',
      ''sp_compare=Add'', ''sp_func_class_paren=Add'', ''sp_after_type=Add'', ''sp_type_func=Add'',
      ''sp_angle_paren=Add'']"

definition style_level2 :: "string list" where
  "style_level2 =
     [''nl_if_brace=Add'', ''nl_brace_else=Add'', ''nl_elseif_brace=Add'', ''nl_else_brace=Add'',
      ''nl_while_brace=Add'', ''nl_do_brace=Add'', ''nl_for_brace=Add'', ''nl_brace_while=Add'',
      ''nl_switch_brace=Add'', ''nl_after_case=True'', ''nl_namespace_brace=ignore'',
      ''nl_after_brace_open=True'', ''nl_class_leave_one_liners=False'', ''nl_enum_leave_one_liners=False'',
      ''nl_func_leave_one_liners=False'', ''nl_if_leave_one_liners=False'', ''nl_class_colon=Ignore'',
      ''nl_before_access_spec=2'', ''nl_after_access_spec=0'', ''indent_access_spec=-indent_columns'',
      ''nl_after_semicolon=True'', ''pos_class_colon=Lead'', ''pos_class_comma=Trail'',
      ''indent_constr_colon=true'', ''pos_bool=Lead'', ''nl_class_init_args=Add'', ''nl_template_class=Add'',
      ''nl_class_brace=Add'', ''# does not work very well'', ''nl_func_type_name=Ignore'',
      ''nl_func_scope_name=Ignore'', ''nl_func_type_name_class=Ignore'', ''nl_func_proto_type_name=Ignore'',
      ''# function'' @ [CHR 0x5C] @ ''n('', ''nl_func_paren=Remove'', ''nl_fdef_brace=Add'', ''nl_struct_brace=Add'',
      ''nl_enum_brace=Add'', ''nl_union_brace=Add'', ''mod_full_brace_do=Add'', ''mod_full_brace_for=Add'',
      ''mod_full_brace_if=Add'', ''mod_full_brace_while=Add'', ''mod_full_brace_for=Add'',
      ''mod_remove_extra_semicolon=True'', ''# max code width'', ''#code_width=128'',
      ''#ls_for_split_full=True'', ''#ls_func_split_full=True'', ''nl_cpp_lambda_leave_one_liners=True'']"

definition config_text :: "string list \<Rightarrow> string" where
  "config_text ls = newline # concat (map (\<lambda>l. l @ [newline]) ls)"

definition uncrustify_config_file :: "int \<Rightarrow> string" where
  "uncrustify_config_file level =
     config_text style_level0 @
     (if level \<ge> 1 then config_text style_level1 else []) @
     (if level \<ge> 2 then config_text style_level2 else [])"

section \<open>Lines, chunks and patches\<close>

datatype line_type = NoType | SRC | DST | BOTH

record patch_chunk_line =
  pl_type :: line_type
  pl_line :: string

definition new_line :: patch_chunk_line where "new_line = \<lparr>pl_type = NoType, pl_line = []\<rparr>"

definition set_src :: "string \<Rightarrow> patch_chunk_line \<Rightarrow> patch_chunk_line" where
  "set_src s l = l\<lparr>pl_type := SRC, pl_line := s\<rparr>"
definition set_dst :: "string \<Rightarrow> patch_chunk_line \<Rightarrow> patch_chunk_line" where
  "set_dst s l = l\<lparr>pl_type := DST, pl_line := s\<rparr>"
definition set_both :: "string \<Rightarrow> patch_chunk_line \<Rightarrow> patch_chunk_line" where
  "set_both s l = l\<lparr>pl_type := BOTH, pl_line := s\<rparr>"
definition append_to_line :: "string \<Rightarrow> patch_chunk_line \<Rightarrow> patch_chunk_line" where
  "append_to_line s l = l\<lparr>pl_line := pl_line l @ s\<rparr>"
definition is_src :: "patch_chunk_line \<Rightarrow> bool" where "is_src l = (pl_type l = SRC \<or> pl_type l = BOTH)"
definition is_dst :: "patch_chunk_line \<Rightarrow> bool" where "is_dst l = (pl_type l = DST \<or> pl_type l = BOTH)"

definition write_line :: "patch_chunk_line \<Rightarrow> string res" where
  "write_line l =
     (case pl_type l of
        SRC \<Rightarrow> Inr (''-'' @ pl_line l @ [newline])
      | DST \<Rightarrow> Inr (''+'' @ pl_line l @ [newline])
      | BOTH \<Rightarrow> Inr ('' '' @ pl_line l @ [newline])
      | NoType \<Rightarrow> Inl (PyException ''invalid patch''))"

record patch_chunk =
  pc_lines :: "patch_chunk_line list"
  pc_src_pos :: int
  pc_dst_pos :: int

definition new_chunk :: "int \<Rightarrow> int \<Rightarrow> patch_chunk" where
  "new_chunk src_pos dst_pos = \<lparr>pc_lines = [], pc_src_pos = src_pos, pc_dst_pos = dst_pos\<rparr>"

definition add_line :: "patch_chunk_line \<Rightarrow> patch_chunk \<Rightarrow> patch_chunk" where
  "add_line l c = c\<lparr>pc_lines := pc_lines c @ [l]\<rparr>"
definition chunk_src :: "patch_chunk \<Rightarrow> patch_chunk_line list" where "chunk_src c = filter is_src (pc_lines c)"
definition chunk_dst :: "patch_chunk \<Rightarrow> patch_chunk_line list" where "chunk_dst c = filter is_dst (pc_lines c)"
definition src_len :: "patch_chunk \<Rightarrow> nat" where "src_len c = length (chunk_src c)"
definition dst_len :: "patch_chunk \<Rightarrow> nat" where "dst_len c = length (chunk_dst c)"

definition chunk_header :: "patch_chunk \<Rightarrow> string" where
  "chunk_header c =
     ''@@ -'' @ show_int (pc_src_pos c) @ '','' @ show_nat (src_len c) @ '' +'' @
     show_int (pc_dst_pos c) @ '','' @ show_nat (dst_len c) @ '' @@'' @ [newline]"

definition write_chunk :: "patch_chunk \<Rightarrow> string list res" where
  "write_chunk c = bindE (mapE write_line (pc_lines c)) (\<lambda>ls. Inr (chunk_header c # ls))"

record patch =
  pa_src :: string
  pa_dst :: string
  pa_chunks :: "patch_chunk list"

definition new_patch :: patch where "new_patch = \<lparr>pa_src = [], pa_dst = [], pa_chunks = []\<rparr>"

definition add_chunk :: "patch_chunk \<Rightarrow> patch \<Rightarrow> patch" where
  "add_chunk c p = p\<lparr>pa_chunks := pa_chunks p @ [c]\<rparr>"

text \<open>The lines written to the file.\<close>

definition write_patch :: "patch \<Rightarrow> string list res" where
  "write_patch p =
     bindE (mapE write_chunk (pa_chunks p)) (\<lambda>cs.
     Inr ((''--- '' @ pa_src p @ [newline]) # (''+++ '' @ pa_dst p @ [newline]) # concat cs))"

section \<open>Reading a diff\<close>

text \<open>
  The regular expressions: \<open>.\<close> matches no newline and \<open>$\<close> matches at the end and before a newline
  at the end.
\<close>

definition chomp1 :: "string \<Rightarrow> string" where
  "chomp1 s = (if s \<noteq> [] \<and> last s = newline then butlast s else s)"

definition line_rest :: "string \<Rightarrow> string \<Rightarrow> string option" where
  \<comment> \<open>the group of \<open>^pre(.*)$\<close>\<close>
  "line_rest pre line =
     (if prefix pre line \<and> newline \<notin> set (chomp1 (drop (length pre) line))
      then Some (chomp1 (drop (length pre) line)) else None)"

definition number_then :: "string \<Rightarrow> string \<Rightarrow> (string \<times> string) option" where
  \<comment> \<open>\<open>([0-9]+)\<close> and the literal after it: the digits and what follows the literal\<close>
  "number_then lit s =
     (let ds = takeWhile is_digit s; r = dropWhile is_digit s
      in if ds \<noteq> [] \<and> prefix lit r then Some (ds, drop (length lit) r) else None)"

definition chunk_start :: "string \<Rightarrow> (string \<times> string) option" where
  \<comment> \<open>the first and the third group\<close>
  "chunk_start line =
     (if prefix ''@@ -'' line then
        (case number_then '','' (drop 4 line) of None \<Rightarrow> None | Some (a, r) \<Rightarrow>
        (case number_then '' +'' r of None \<Rightarrow> None | Some (b, r) \<Rightarrow>
        (case number_then '','' r of None \<Rightarrow> None | Some (c, r) \<Rightarrow>
        (case number_then '' @@'' r of None \<Rightarrow> None | Some (d, r) \<Rightarrow> Some (a, c)))))
      else None)"

text \<open>
  The patch set with the places of the current patch and of the current chunk. The current chunk is
  an object of its own: it stays the same when a new patch begins.
\<close>

record patch_parser =
  pp_patchset :: "patch list"
  pp_current_patch :: "nat option"
  pp_current_chunk :: "(nat \<times> nat) option"

definition init_patch_parser :: patch_parser where
  "init_patch_parser = \<lparr>pp_patchset = [], pp_current_patch = None, pp_current_chunk = None\<rparr>"

definition add_to_chunk :: "nat \<times> nat \<Rightarrow> patch_chunk_line \<Rightarrow> patch list \<Rightarrow> patch list" where
  "add_to_chunk ij l ps =
     (let p = ps ! fst ij
      in ps[fst ij := p\<lparr>pa_chunks := (pa_chunks p)[snd ij := add_line l (pa_chunks p ! snd ij)]\<rparr>])"

definition add_parsed_line :: "patch_chunk_line \<Rightarrow> patch_parser \<Rightarrow> patch_parser res" where
  "add_parsed_line l st =
     (case pp_current_chunk st of
        None \<Rightarrow> Inl UnboundLocalError
      | Some ij \<Rightarrow> Inr (st\<lparr>pp_patchset := add_to_chunk ij l (pp_patchset st)\<rparr>))"

definition parse_patch_line :: "patch_parser \<Rightarrow> string \<Rightarrow> patch_parser res" where
  "parse_patch_line st line =
     (case line_rest ''--- '' line of
        Some src \<Rightarrow> Inr (st\<lparr>pp_patchset := pp_patchset st @ [new_patch\<lparr>pa_src := src\<rparr>],
                         pp_current_patch := Some (length (pp_patchset st))\<rparr>)
      | None \<Rightarrow>
     (case line_rest ''+++ '' line of
        Some dst \<Rightarrow>
          (case pp_current_patch st of
             None \<Rightarrow> Inl AttributeError
           | Some i \<Rightarrow> Inr (st\<lparr>pp_patchset := (pp_patchset st)[i := (pp_patchset st ! i)\<lparr>pa_dst := dst\<rparr>]\<rparr>))
      | None \<Rightarrow>
     (case chunk_start line of
        Some (a, c) \<Rightarrow>
          (case pp_current_patch st of
             None \<Rightarrow> Inl AttributeError
           | Some i \<Rightarrow>
               let chunk = new_chunk (int (parse_nat a)) (int (parse_nat c)); p = pp_patchset st ! i
               in Inr (st\<lparr>pp_patchset := (pp_patchset st)[i := add_chunk chunk p],
                         pp_current_chunk := Some (i, length (pa_chunks p))\<rparr>))
      | None \<Rightarrow>
     (case line_rest ''-'' line of
        Some s \<Rightarrow> add_parsed_line (set_src s new_line) st
      | None \<Rightarrow>
     (case line_rest ''+'' line of
        Some s \<Rightarrow> add_parsed_line (set_dst s new_line) st
      | None \<Rightarrow>
     (case line_rest '' '' line of
        Some s \<Rightarrow> add_parsed_line (set_both s new_line) st
      | None \<Rightarrow> Inl (PyException []))))))) "

definition parse_patchset :: "string list \<Rightarrow> patch list res" where
  "parse_patchset lines = bindE (foldE parse_patch_line init_patch_parser lines) (\<lambda>st. Inr (pp_patchset st))"

section \<open>Trailing white space\<close>

definition whitespace_split :: "string \<Rightarrow> (string \<times> string) option" where
  \<comment> \<open>the groups of \<open>^(.*)([ \t]+)$\<close>: the first one is greedy and leaves one character\<close>
  "whitespace_split s =
     (let t = chomp1 s
      in if t \<noteq> [] \<and> last t \<in> {CHR '' '', CHR 0x09} \<and> newline \<notin> set t then Some (butlast t, [last t]) else None)"

fun positions :: "(patch_chunk_line \<Rightarrow> bool) \<Rightarrow> nat \<Rightarrow> patch_chunk_line list \<Rightarrow> nat list" where
  \<comment> \<open>the objects of \<open>src()\<close> and \<open>dst()\<close>, as places in the list of lines they share\<close>
  "positions P i [] = []"
| "positions P i (l # ls) = (if P l then [i] else []) @ positions P (Suc i) ls"

definition fix_pair :: "nat \<Rightarrow> nat \<Rightarrow> patch_chunk_line list \<Rightarrow> patch_chunk_line list" where
  "fix_pair s d ls =
     (case whitespace_split (pl_line (ls ! s)) of
        None \<Rightarrow> ls
      | Some (g1, g2) \<Rightarrow> if g1 = pl_line (ls ! d) then ls[d := append_to_line g2 (ls ! d)] else ls)"

text \<open>The second component is false when \<open>dst[i]\<close> raised, which ends the whole removal.\<close>

fun fix_pairs :: "nat list \<Rightarrow> nat list \<Rightarrow> patch_chunk_line list \<Rightarrow> patch_chunk_line list \<times> bool" where
  "fix_pairs [] ds ls = (ls, True)"
| "fix_pairs (s # ss) [] ls = (ls, False)"
| "fix_pairs (s # ss) (d # ds) ls = fix_pairs ss ds (fix_pair s d ls)"

definition fix_chunk :: "patch_chunk \<Rightarrow> patch_chunk \<times> bool" where
  "fix_chunk c =
     (let ls = pc_lines c; r = fix_pairs (positions is_src 0 ls) (positions is_dst 0 ls) ls
      in (c\<lparr>pc_lines := fst r\<rparr>, snd r))"

fun fix_until :: "('a \<Rightarrow> 'a \<times> bool) \<Rightarrow> 'a list \<Rightarrow> 'a list \<times> bool" where
  \<comment> \<open>a loop that the exception leaves\<close>
  "fix_until f [] = ([], True)"
| "fix_until f (x # xs) =
     (let r = f x in if snd r then (let rs = fix_until f xs in (fst r # fst rs, snd rs)) else (fst r # xs, False))"

definition fix_patch :: "patch \<Rightarrow> patch \<times> bool" where
  "fix_patch p = (let r = fix_until fix_chunk (pa_chunks p) in (p\<lparr>pa_chunks := fst r\<rparr>, snd r))"

definition remove_trailing_whitespace_changes :: "string list \<Rightarrow> patch list res" where
  "remove_trailing_whitespace_changes lines =
     bindE (parse_patchset lines) (\<lambda>patchset. Inr (fst (fix_until fix_patch patchset)))"

section \<open>Indenting files\<close>

record style_world =
  sw_uncrustify :: "string \<Rightarrow> string \<Rightarrow> string list res" \<comment> \<open>configuration and source file; the output\<close>
  sw_unified_diff :: "string \<Rightarrow> string list \<Rightarrow> string list \<Rightarrow> string list"
  sw_patch :: "string list \<Rightarrow> string list \<Rightarrow> string list" \<comment> \<open>the diff and the file it is applied to\<close>
  sw_cmp :: "string list \<Rightarrow> string list \<Rightarrow> bool"

type_synonym style_files = "string \<Rightarrow> string list option"

definition open_lines :: "style_files \<Rightarrow> string \<Rightarrow> string list res" where
  "open_lines fs nm = (case fs nm of None \<Rightarrow> Inl OSError | Some ls \<Rightarrow> Inr ls)"

text \<open>
  The diff is a generator: writing it to the debug file consumes it, and nothing is left of it
  afterwards.
\<close>

definition final_diff :: "int \<Rightarrow> bool \<Rightarrow> string list \<Rightarrow> string list res" where
  "final_diff level debug diff =
     (let rest = (if debug then [] else diff)
      in if level < 3
         then bindE (remove_trailing_whitespace_changes rest) (\<lambda>patchset.
              case patchset of [] \<Rightarrow> Inr [] | p # _ \<Rightarrow> write_patch p)
         else Inr rest)"

definition indent :: "style_world \<Rightarrow> style_files \<Rightarrow> string \<Rightarrow> bool \<Rightarrow> int \<Rightarrow> string list res" where
  \<comment> \<open>the content of the output file\<close>
  "indent w fs source debug level =
     bindE (case sw_uncrustify w (uncrustify_config_file level) source of
              Inl OSError \<Rightarrow> Inl (PyException ''uncrustify not installed'')
            | r \<Rightarrow> r) (\<lambda>output.
     bindE (open_lines fs source) (\<lambda>src.
     bindE (final_diff level debug (sw_unified_diff w source src output)) (\<lambda>diff.
     Inr (sw_patch w diff src))))"

definition style_report :: "style_world \<Rightarrow> style_files \<Rightarrow> bool \<Rightarrow> (string \<times> string list) list \<Rightarrow> string list res" where
  "style_report w fs diff failed =
     (if \<not> diff then
        Inr ((''Found '' @ show_nat (length failed) @ '' badly indented files:'' @ [newline]) #
             map (\<lambda>(src, dst). ''  '' @ src @ [newline]) failed)
      else bindE (mapE (\<lambda>(src, dst). bindE (open_lines fs src) (\<lambda>s. Inr (sw_unified_diff w src s dst))) failed)
             (\<lambda>ds. Inr (concat ds)))"

definition indent_files ::
    "style_world \<Rightarrow> style_files \<Rightarrow> string list \<Rightarrow> bool \<Rightarrow> bool \<Rightarrow> int \<Rightarrow> bool \<Rightarrow>
       (bool \<times> style_files \<times> string list) res" where
  \<comment> \<open>the result, the files afterwards and the printed lines\<close>
  "indent_files w fs files diff debug level inplace =
     bindE (mapE (\<lambda>f. bindE (indent w fs f debug level) (\<lambda>dst. Inr (f, dst))) files) (\<lambda>output.
     if inplace then Inr (True, foldl (\<lambda>fs (src, dst). fs(src \<mapsto> dst)) fs output, [])
     else bindE (mapE (\<lambda>(src, dst). bindE (open_lines fs src) (\<lambda>s. Inr (src, dst, sw_cmp w s dst))) output) (\<lambda>cmps.
          let failed = map (\<lambda>(src, dst, b). (src, dst)) (filter (\<lambda>(src, dst, b). \<not> b) cmps)
          in if failed \<noteq> []
             then bindE (style_report w fs diff failed) (\<lambda>out. Inr (False, fs, out))
             else Inr (True, fs, [])))"

record style_options =
  so_debug :: bool
  so_level :: int
  so_git :: bool
  so_file :: string
  so_diff :: bool
  so_in_place :: bool

definition git_modified_files :: "string \<Rightarrow> string list \<Rightarrow> string list" where
  \<comment> \<open>the answer of \<open>git rev-parse\<close>, whose last character is cut off, and the lines of \<open>git diff\<close>\<close>
  "git_modified_files root_dir changed =
     (let files_changed = filter (\<lambda>item. suffix ''.h'' item \<or> suffix ''.cc'' item) (map py_strip changed)
      in map (\<lambda>filename. butlast root_dir @ ''/'' @ py_strip filename) files_changed)"

text \<open>The exit status; an exception that leaves \<open>run_as_main\<close> is printed and gives 1.\<close>

definition run_as_main :: "style_world \<Rightarrow> style_files \<Rightarrow> style_options \<Rightarrow> string \<Rightarrow> string list \<Rightarrow> int \<times> style_files" where
  "run_as_main w fs o' root_dir changed =
     (let check = (\<lambda>files. case indent_files w fs files (so_diff o') (so_debug o') (so_level o') (so_in_place o') of
                     Inl e \<Rightarrow> (1, fs)
                   | Inr (ok, fs', out) \<Rightarrow> (if ok then 0 else 1, fs'))
      in if so_git o' then check (git_modified_files root_dir changed)
         else if so_file o' \<noteq> [] then
           (if fs (so_file o') = None then (1, fs) else check [so_file o'])
         else (1, fs))"

section \<open>What is written is read back\<close>

lemma chomp1_newline [simp]: "chomp1 (s @ [newline]) = s"
  by (simp add: chomp1_def)

lemma line_rest_same: "newline \<notin> set s \<Longrightarrow> line_rest pre (pre @ s @ [newline]) = Some s"
proof -
  assume "newline \<notin> set s"
  moreover have "drop (length pre) (pre @ s @ [newline]) = s @ [newline]" by simp
  moreover have "prefix pre (pre @ s @ [newline])" by simp
  ultimately show ?thesis by (simp only: line_rest_def chomp1_newline if_True simp_thms)
qed

lemma line_rest_other: "\<not> prefix pre line \<Longrightarrow> line_rest pre line = None"
  by (simp add: line_rest_def)

lemma newline_chars [simp]: "newline \<noteq> CHR '' ''" "newline \<noteq> CHR ''-''" "newline \<noteq> CHR ''+''"
    "CHR '' '' \<noteq> newline" "CHR ''-'' \<noteq> newline" "CHR ''+'' \<noteq> newline"
  by (simp_all add: newline_def)

lemma number_then_nat:
  assumes "lit \<noteq> []" and "\<not> is_digit (hd lit)"
  shows "number_then lit (show_nat n @ lit @ r) = Some (show_nat n, r)"
proof -
  have d: "\<forall>x \<in> set (show_nat n). is_digit x" using show_nat_digits [of n] by (simp add: list_all_iff)
  obtain c cs where lit: "lit = c # cs" using assms(1) by (cases lit) auto
  have nc: "\<not> is_digit c" using assms(2) lit by simp
  have "takeWhile is_digit (show_nat n @ c # cs @ r) = show_nat n"
    using d nc by (subst takeWhile_append2) auto
  moreover have "dropWhile is_digit (show_nat n @ c # cs @ r) = c # cs @ r"
    using d nc by (subst dropWhile_append2) auto
  ultimately show ?thesis by (simp add: number_then_def lit Let_def)
qed

lemma chunk_start_header:
  assumes "0 \<le> pc_src_pos c" and "0 \<le> pc_dst_pos c"
  shows "chunk_start (chunk_header c) = Some (show_nat (nat (pc_src_pos c)), show_nat (nat (pc_dst_pos c)))"
proof -
  have int: "show_int i = show_nat (nat i)" if "0 \<le> i" for i using that by (simp add: show_int_def)
  have sep: "\<not> is_digit CHR '',''" "\<not> is_digit CHR '' ''" by (simp_all add: is_digit_def)
  have a: "number_then '','' (show_nat n @ CHR '','' # r) = Some (show_nat n, r)" for n r
    using number_then_nat [of "'',''" n r] sep by simp
  have b: "number_then '' +'' (show_nat n @ CHR '' '' # CHR ''+'' # r) = Some (show_nat n, r)" for n r
    using number_then_nat [of "'' +''" n r] sep by simp
  have d: "number_then '' @@'' (show_nat n @ CHR '' '' # CHR ''@'' # CHR ''@'' # r) = Some (show_nat n, r)" for n r
    using number_then_nat [of "'' @@''" n r] sep by simp
  show ?thesis using assms by (simp add: chunk_start_def chunk_header_def int a b d)
qed

definition line_ok :: "patch_chunk_line \<Rightarrow> bool" where
  "line_ok l = (newline \<notin> set (pl_line l) \<and>
     (case pl_type l of SRC \<Rightarrow> \<not> prefix ''-- '' (pl_line l) | DST \<Rightarrow> \<not> prefix ''++ '' (pl_line l)
      | BOTH \<Rightarrow> True | NoType \<Rightarrow> False))"

definition chunk_ok :: "patch_chunk \<Rightarrow> bool" where
  "chunk_ok c = (0 \<le> pc_src_pos c \<and> 0 \<le> pc_dst_pos c \<and> list_all line_ok (pc_lines c))"

definition patch_ok :: "patch \<Rightarrow> bool" where
  "patch_ok p = (newline \<notin> set (pa_src p) \<and> newline \<notin> set (pa_dst p) \<and> list_all chunk_ok (pa_chunks p))"

lemma parse_written_line:
  assumes "line_ok l" and "write_line l = Inr t"
  shows "parse_patch_line st t = add_parsed_line l st"
proof -
  let ?s = "pl_line l"
  have nl: "newline \<notin> set ?s" using assms(1) by (simp add: line_ok_def)
  have same: "line_rest [c] (c # ?s @ [newline]) = Some ?s" for c using line_rest_same [OF nl, of "[c]"] by simp
  have start: "chunk_start (c # x) = None" if "c \<noteq> CHR ''@''" for c x using that by (simp add: chunk_start_def)
  have short: "prefix ''-- '' (?s @ [newline]) \<longleftrightarrow> prefix ''-- '' ?s" "prefix ''++ '' (?s @ [newline]) \<longleftrightarrow> prefix ''++ '' ?s"
    by (auto simp: prefix_Cons append_eq_Cons_conv prefix_append split: list.splits)
  show ?thesis
  proof (cases "pl_type l")
    case SRC
    have "line_rest ''--- '' (CHR ''-'' # ?s @ [newline]) = None" "line_rest ''+++ '' (CHR ''-'' # ?s @ [newline]) = None"
      using assms(1) SRC short by (auto simp: line_ok_def intro!: line_rest_other)
    moreover have "set_src ?s new_line = l" using SRC by (simp add: set_src_def new_line_def)
    moreover have t: "t = CHR ''-'' # ?s @ [newline]" using assms(2) SRC by (simp add: write_line_def)
    ultimately show ?thesis
      using same [of "CHR ''-''"] start [of "CHR ''-''" "?s @ [newline]"] unfolding t parse_patch_line_def by simp
  next
    case DST
    have "line_rest ''--- '' (CHR ''+'' # ?s @ [newline]) = None" "line_rest ''+++ '' (CHR ''+'' # ?s @ [newline]) = None"
      "line_rest ''-'' (CHR ''+'' # ?s @ [newline]) = None"
      using assms(1) DST short by (auto simp: line_ok_def intro!: line_rest_other)
    moreover have "set_dst ?s new_line = l" using DST by (simp add: set_dst_def new_line_def)
    moreover have t: "t = CHR ''+'' # ?s @ [newline]" using assms(2) DST by (simp add: write_line_def)
    ultimately show ?thesis
      using same [of "CHR ''+''"] start [of "CHR ''+''" "?s @ [newline]"] unfolding t parse_patch_line_def by simp
  next
    case BOTH
    have "line_rest ''--- '' (CHR '' '' # ?s @ [newline]) = None" "line_rest ''+++ '' (CHR '' '' # ?s @ [newline]) = None"
      "line_rest ''-'' (CHR '' '' # ?s @ [newline]) = None" "line_rest ''+'' (CHR '' '' # ?s @ [newline]) = None"
      by (auto intro!: line_rest_other)
    moreover have "set_both ?s new_line = l" using BOTH by (simp add: set_both_def new_line_def)
    moreover have t: "t = CHR '' '' # ?s @ [newline]" using assms(2) BOTH by (simp add: write_line_def)
    ultimately show ?thesis
      using same [of "CHR '' ''"] start [of "CHR '' ''" "?s @ [newline]"] unfolding t parse_patch_line_def by simp
  qed (use assms in \<open>simp add: line_ok_def\<close>)
qed

text \<open>The state in which lines are added to the last chunk of a patch that need not be the last one.\<close>

definition in_chunk :: "patch list \<Rightarrow> patch \<Rightarrow> patch_chunk list \<Rightarrow> patch_chunk \<Rightarrow> patch list \<Rightarrow> nat option \<Rightarrow> patch_parser" where
  "in_chunk ps p cs c qs cur =
     \<lparr>pp_patchset = ps @ [p\<lparr>pa_chunks := cs @ [c]\<rparr>] @ qs, pp_current_patch = cur,
      pp_current_chunk = Some (length ps, length cs)\<rparr>"

lemma add_in_chunk: "add_parsed_line l (in_chunk ps p cs c qs cur) = Inr (in_chunk ps p cs (add_line l c) qs cur)"
  by (simp add: add_parsed_line_def in_chunk_def add_to_chunk_def Let_def nth_append list_update_append)

lemma parse_lines:
  assumes "list_all line_ok ls" and "mapE write_line ls = Inr ts"
  shows "foldE parse_patch_line (in_chunk ps p cs c qs cur) ts =
     Inr (in_chunk ps p cs (c\<lparr>pc_lines := pc_lines c @ ls\<rparr>) qs cur)"
  using assms
proof (induction ls arbitrary: ts c)
  case Nil
  then show ?case by simp
next
  case (Cons l ls)
  from Cons.prems obtain t ts' where t: "write_line l = Inr t" "mapE write_line ls = Inr ts'" "ts = t # ts'"
    by (auto simp: bindE_Inr_conv)
  have "parse_patch_line (in_chunk ps p cs c qs cur) t = Inr (in_chunk ps p cs (add_line l c) qs cur)"
    using parse_written_line [of l t "in_chunk ps p cs c qs cur"] Cons.prems t by (simp add: add_in_chunk)
  then show ?case using Cons.IH [of ts' "add_line l c"] Cons.prems t by (simp add: add_line_def)
qed

definition in_patch :: "patch list \<Rightarrow> patch \<Rightarrow> (nat \<times> nat) option \<Rightarrow> patch_parser" where
  "in_patch ps p ck = \<lparr>pp_patchset = ps @ [p], pp_current_patch = Some (length ps), pp_current_chunk = ck\<rparr>"

lemma in_chunk_patch:
  "in_chunk ps p cs c [] (Some (length ps)) = in_patch ps (p\<lparr>pa_chunks := cs @ [c]\<rparr>) (Some (length ps, length cs))"
  by (simp add: in_chunk_def in_patch_def)

lemma parse_chunk_header:
  assumes "0 \<le> pc_src_pos c" and "0 \<le> pc_dst_pos c"
  shows "parse_patch_line (in_patch ps p ck) (chunk_header c) =
     Inr (in_patch ps (p\<lparr>pa_chunks := pa_chunks p @ [c\<lparr>pc_lines := []\<rparr>]\<rparr>) (Some (length ps, length (pa_chunks p))))"
proof -
  have "line_rest ''--- '' (chunk_header c) = None" "line_rest ''+++ '' (chunk_header c) = None"
    by (auto simp: chunk_header_def intro!: line_rest_other)
  moreover have "new_chunk (int (nat (pc_src_pos c))) (int (nat (pc_dst_pos c))) = c\<lparr>pc_lines := []\<rparr>"
    using assms by (simp add: new_chunk_def)
  ultimately show ?thesis
    using chunk_start_header [OF assms]
    by (simp add: parse_patch_line_def in_patch_def add_chunk_def Let_def nth_append list_update_append)
qed

lemma write_lines_ok: "list_all line_ok ls \<Longrightarrow> \<exists>ts. mapE write_line ls = Inr ts"
proof (induction ls)
  case (Cons l ls)
  then have "\<exists>t. write_line l = Inr t" by (cases "pl_type l") (auto simp: write_line_def line_ok_def)
  with Cons show ?case by auto
qed simp

lemma parse_chunk:
  assumes "chunk_ok c" and "write_chunk c = Inr ts"
  shows "foldE parse_patch_line (in_patch ps p ck) ts =
     Inr (in_patch ps (p\<lparr>pa_chunks := pa_chunks p @ [c]\<rparr>) (Some (length ps, length (pa_chunks p))))"
proof -
  from assms(2) obtain ls where ls: "mapE write_line (pc_lines c) = Inr ls" "ts = chunk_header c # ls"
    by (auto simp: write_chunk_def bindE_Inr_conv)
  have ok: "0 \<le> pc_src_pos c" "0 \<le> pc_dst_pos c" "list_all line_ok (pc_lines c)"
    using assms(1) by (simp_all add: chunk_ok_def)
  have "foldE parse_patch_line (in_patch ps (p\<lparr>pa_chunks := pa_chunks p @ [c\<lparr>pc_lines := []\<rparr>]\<rparr>) (Some (length ps, length (pa_chunks p)))) ls =
      Inr (in_patch ps (p\<lparr>pa_chunks := pa_chunks p @ [c]\<rparr>) (Some (length ps, length (pa_chunks p))))"
    using parse_lines [OF ok(3) ls(1), of ps p "pa_chunks p" "c\<lparr>pc_lines := []\<rparr>" "[]" "Some (length ps)"]
    by (simp add: in_chunk_patch)
  then show ?thesis using parse_chunk_header [OF ok(1,2)] ls(2) by simp
qed

lemma parse_chunks:
  assumes "list_all chunk_ok cs" and "mapE write_chunk cs = Inr tss"
  shows "\<exists>ck'. foldE parse_patch_line (in_patch ps p ck) (concat tss) = Inr (in_patch ps (p\<lparr>pa_chunks := pa_chunks p @ cs\<rparr>) ck')"
  using assms
proof (induction cs arbitrary: p ck tss)
  case Nil
  then show ?case by auto
next
  case (Cons c cs)
  from Cons.prems(2) obtain ts tss' where t: "write_chunk c = Inr ts" "mapE write_chunk cs = Inr tss'" "tss = ts # tss'"
    by (auto simp: bindE_Inr_conv)
  have c: "chunk_ok c" and cs: "list_all chunk_ok cs" using Cons.prems(1) by simp_all
  from Cons.IH [OF cs t(2), of "p\<lparr>pa_chunks := pa_chunks p @ [c]\<rparr>"] parse_chunk [OF c t(1), of ps p ck]
  show ?case by (simp add: t(3) foldE_append)
qed

definition header_lines :: "patch \<Rightarrow> string list" where
  "header_lines p = [''--- '' @ pa_src p @ [newline], ''+++ '' @ pa_dst p @ [newline]]"

lemma parse_header_line:
  "newline \<notin> set s \<Longrightarrow> parse_patch_line \<lparr>pp_patchset = ps, pp_current_patch = cur, pp_current_chunk = ck\<rparr> (''--- '' @ s @ [newline]) =
     Inr (in_patch ps (new_patch\<lparr>pa_src := s\<rparr>) ck)"
  using line_rest_same [of s "''--- ''"] by (simp add: parse_patch_line_def in_patch_def)

lemma parse_header:
  assumes "newline \<notin> set (pa_src p)" and "newline \<notin> set (pa_dst p)"
  shows "foldE parse_patch_line \<lparr>pp_patchset = ps, pp_current_patch = cur, pp_current_chunk = ck\<rparr> (header_lines p) =
     Inr (in_patch ps (p\<lparr>pa_chunks := []\<rparr>) ck)"
proof -
  have "line_rest ''--- '' (''+++ '' @ pa_dst p @ [newline]) = None" by (rule line_rest_other) simp
  then have "parse_patch_line (in_patch ps q ck) (''+++ '' @ pa_dst p @ [newline]) = Inr (in_patch ps (q\<lparr>pa_dst := pa_dst p\<rparr>) ck)" for q
    using line_rest_same [OF assms(2), of "''+++ ''"]
    by (simp add: parse_patch_line_def in_patch_def nth_append list_update_append)
  then show ?thesis
    using parse_header_line [OF assms(1)] by (cases p) (simp add: header_lines_def new_patch_def)
qed

lemma write_patch_lines:
  "write_patch p = bindE (mapE write_chunk (pa_chunks p)) (\<lambda>cs. Inr (header_lines p @ concat cs))"
  by (simp add: write_patch_def header_lines_def)

lemma write_chunks_ok: "list_all chunk_ok cs \<Longrightarrow> \<exists>tss. mapE write_chunk cs = Inr tss"
proof (induction cs)
  case (Cons c cs)
  then have "\<exists>ts. write_chunk c = Inr ts" using write_lines_ok [of "pc_lines c"] by (auto simp: chunk_ok_def write_chunk_def)
  with Cons show ?case by auto
qed simp

lemma parse_patches:
  assumes "list_all patch_ok pats"
  shows "\<exists>tss cur' ck'. mapE write_patch pats = Inr tss \<and>
     foldE parse_patch_line \<lparr>pp_patchset = ps, pp_current_patch = cur, pp_current_chunk = ck\<rparr> (concat tss) =
       Inr \<lparr>pp_patchset = ps @ pats, pp_current_patch = cur', pp_current_chunk = ck'\<rparr>"
  using assms
proof (induction pats arbitrary: ps cur ck)
  case Nil
  then show ?case by simp
next
  case (Cons p pats)
  have ok: "newline \<notin> set (pa_src p)" "newline \<notin> set (pa_dst p)" "list_all chunk_ok (pa_chunks p)"
    using Cons.prems by (simp_all add: patch_ok_def)
  obtain cs where cs: "mapE write_chunk (pa_chunks p) = Inr cs" using write_chunks_ok [OF ok(3)] by blast
  obtain ck1 where c: "foldE parse_patch_line (in_patch ps (p\<lparr>pa_chunks := []\<rparr>) ck) (concat cs) = Inr (in_patch ps p ck1)"
    using parse_chunks [OF ok(3) cs, of ps "p\<lparr>pa_chunks := []\<rparr>" ck] by auto
  have pats: "list_all patch_ok pats" using Cons.prems by simp
  obtain tss cur' ck' where IH: "mapE write_patch pats = Inr tss"
      "foldE parse_patch_line (in_patch ps p ck1) (concat tss) =
       Inr \<lparr>pp_patchset = ps @ p # pats, pp_current_patch = cur', pp_current_chunk = ck'\<rparr>"
    using Cons.IH [OF pats, of "ps @ [p]" "Some (length ps)" ck1] by (auto simp: in_patch_def)
  have "mapE write_patch (p # pats) = Inr ((header_lines p @ concat cs) # tss)"
    using cs IH(1) by (simp add: write_patch_lines)
  then show ?case using parse_header [OF ok(1,2)] c IH(2) by (simp add: foldE_append)
qed

lemma dash_line_splits:
  assumes "chunk_ok (c\<lparr>pc_lines := ls1 @ ls2\<rparr>)" and "list_all chunk_ok later"
    and "newline \<notin> set t" and "newline \<notin> set s" and "newline \<notin> set d"
    and "c1 = c\<lparr>pc_lines := ls1 @ set_src (''-- '' @ t) new_line # ls2\<rparr>"
  shows "\<exists>ts. write_patch \<lparr>pa_src = s, pa_dst = d, pa_chunks = c1 # later\<rparr> = Inr ts \<and>
     parse_patchset ts = Inr [\<lparr>pa_src = s, pa_dst = d, pa_chunks = [c\<lparr>pc_lines := ls1 @ ls2\<rparr>]\<rparr>,
                              \<lparr>pa_src = t, pa_dst = [], pa_chunks = later\<rparr>]"
proof -
  let ?p = "\<lparr>pa_src = s, pa_dst = d, pa_chunks = c1 # later\<rparr>" and ?q = "\<lparr>pa_src = t, pa_dst = [], pa_chunks = []\<rparr>"
  let ?e = "\<lparr>pa_src = s, pa_dst = d, pa_chunks = []\<rparr>"
  let ?dash = "CHR ''-'' # CHR ''-'' # CHR ''-'' # CHR '' '' # t @ [newline]"
  have ok: "list_all line_ok ls1" "list_all line_ok ls2" "0 \<le> pc_src_pos c" "0 \<le> pc_dst_pos c"
    using assms(1) by (simp_all add: chunk_ok_def)
  obtain ts1 ts2 tss where w: "mapE write_line ls1 = Inr ts1" "mapE write_line ls2 = Inr ts2" "mapE write_chunk later = Inr tss"
    using write_lines_ok [OF ok(1)] write_lines_ok [OF ok(2)] write_chunks_ok [OF assms(2)] by blast
  have "write_line (set_src (''-- '' @ t) new_line) = Inr ?dash" by (simp add: write_line_def set_src_def)
  with w(1) have "mapE write_line (ls1 @ set_src (''-- '' @ t) new_line # ls2) = Inr (ts1 @ ?dash # ts2)"
  proof (induction ls1 arbitrary: ts1)
    case Nil
    then show ?case using w(2) by simp
  qed (auto simp: bindE_Inr_conv)
  then have "write_chunk c1 = Inr (chunk_header c1 # ts1 @ ?dash # ts2)"
    by (simp add: write_chunk_def assms(6))
  then have wp: "write_patch ?p = Inr (header_lines ?p @ (chunk_header c1 # ts1 @ ?dash # ts2) @ concat tss)"
    using w(3) by (simp add: write_patch_lines)
  have h: "foldE parse_patch_line init_patch_parser (header_lines ?p) = Inr (in_patch [] ?e None)"
    using parse_header [of ?p "[]" None None] assms(4,5) by (simp add: init_patch_parser_def)
  have h1: "parse_patch_line (in_patch [] ?e None) (chunk_header c1) = Inr (in_chunk [] ?e [] (c\<lparr>pc_lines := []\<rparr>) [] (Some 0))"
    using parse_chunk_header [of c1 "[]" ?e None] ok(3,4) in_chunk_patch [of "[]" ?e "[]" "c\<lparr>pc_lines := []\<rparr>"]
    by (simp add: assms(6))
  have l1: "foldE parse_patch_line (in_chunk [] ?e [] (c\<lparr>pc_lines := []\<rparr>) [] (Some 0)) ts1 =
      Inr (in_chunk [] ?e [] (c\<lparr>pc_lines := ls1\<rparr>) [] (Some 0))"
    using parse_lines [OF ok(1) w(1), of "[]" ?e "[]" "c\<lparr>pc_lines := []\<rparr>" "[]" "Some 0"] by simp
  have da: "parse_patch_line (in_chunk [] ?e [] (c\<lparr>pc_lines := ls1\<rparr>) [] (Some 0)) ?dash =
      Inr (in_chunk [] ?e [] (c\<lparr>pc_lines := ls1\<rparr>) [?q] (Some 1))"
    using line_rest_same [OF assms(3), of "''--- ''"] by (simp add: parse_patch_line_def in_chunk_def new_patch_def)
  have l2: "foldE parse_patch_line (in_chunk [] ?e [] (c\<lparr>pc_lines := ls1\<rparr>) [?q] (Some 1)) ts2 =
      Inr (in_chunk [] ?e [] (c\<lparr>pc_lines := ls1 @ ls2\<rparr>) [?q] (Some 1))"
    using parse_lines [OF ok(2) w(2), of "[]" ?e "[]" "c\<lparr>pc_lines := ls1\<rparr>" "[?q]" "Some 1"] by simp
  let ?f = "\<lparr>pa_src = s, pa_dst = d, pa_chunks = [c\<lparr>pc_lines := ls1 @ ls2\<rparr>]\<rparr>"
  have "in_chunk [] ?e [] (c\<lparr>pc_lines := ls1 @ ls2\<rparr>) [?q] (Some 1) = in_patch [?f] ?q (Some (0, 0))"
    by (simp add: in_chunk_def in_patch_def)
  moreover obtain ck where "foldE parse_patch_line (in_patch [?f] ?q (Some (0, 0))) (concat tss) =
      Inr (in_patch [?f] (?q\<lparr>pa_chunks := later\<rparr>) ck)"
    using parse_chunks [OF assms(2) w(3), of "[?f]" ?q "Some (0, 0)"] by auto
  ultimately have "parse_patchset (header_lines ?p @ (chunk_header c1 # ts1 @ ?dash # ts2) @ concat tss) =
      Inr [?f, ?q\<lparr>pa_chunks := later\<rparr>]"
    using h h1 l1 da l2 by (simp add: parse_patchset_def foldE_append in_patch_def)
  with wp show ?thesis by simp
qed

section \<open>Removing changes of trailing white space\<close>

definition blank :: "char \<Rightarrow> bool" where "blank c = (c = CHR '' '' \<or> c = CHR 0x09)"

definition restore :: "string \<Rightarrow> string \<Rightarrow> string" where
  \<comment> \<open>the new line, or the old one when one blank at its end is all that differs\<close>
  "restore x y = (if x \<noteq> [] \<and> blank (last x) \<and> butlast x = y then x else y)"

lemma whitespace_split_line:
  "newline \<notin> set s \<Longrightarrow> whitespace_split s = (if s \<noteq> [] \<and> blank (last s) then Some (butlast s, [last s]) else None)"
proof -
  assume nl: "newline \<notin> set s"
  then have "chomp1 s = s" by (metis chomp1_def last_in_set)
  then show ?thesis using nl by (auto simp: whitespace_split_def blank_def)
qed

lemma fix_pair_restore:
  assumes "newline \<notin> set (pl_line (ls ! s))"
  shows "fix_pair s d ls = ls[d := (ls ! d)\<lparr>pl_line := restore (pl_line (ls ! s)) (pl_line (ls ! d))\<rparr>]"
proof -
  have self: "ls[d := (ls ! d)\<lparr>pl_line := pl_line (ls ! d)\<rparr>] = ls" by simp
  show ?thesis
  proof (cases "pl_line (ls ! s) \<noteq> [] \<and> blank (last (pl_line (ls ! s))) \<and> butlast (pl_line (ls ! s)) = pl_line (ls ! d)")
    case True
    then have "pl_line (ls ! d) @ [last (pl_line (ls ! s))] = pl_line (ls ! s)"
      by (metis append_butlast_last_id)
    with True show ?thesis
      by (simp add: fix_pair_def whitespace_split_line [OF assms] restore_def append_to_line_def)
  next
    case False
    then show ?thesis
      by (auto simp: fix_pair_def whitespace_split_line [OF assms] restore_def self split: if_splits)
  qed
qed

lemma restore_self: "restore x x = x"
  by (simp add: restore_def)

abbreviation src_line :: "string \<Rightarrow> patch_chunk_line" where "src_line s \<equiv> set_src s new_line"
abbreviation dst_line :: "string \<Rightarrow> patch_chunk_line" where "dst_line s \<equiv> set_dst s new_line"
abbreviation both_line :: "string \<Rightarrow> patch_chunk_line" where "both_line s \<equiv> set_both s new_line"

lemma set_line_simps [simp]:
  "pl_line (src_line s) = s" "pl_line (dst_line s) = s" "pl_line (both_line s) = s"
  "is_src (src_line s)" "\<not> is_dst (src_line s)" "\<not> is_src (dst_line s)" "is_dst (dst_line s)"
  "is_src (both_line s)" "is_dst (both_line s)"
  "(dst_line s)\<lparr>pl_line := t\<rparr> = dst_line t" "(both_line s)\<lparr>pl_line := t\<rparr> = both_line t"
  by (simp_all add: set_src_def set_dst_def set_both_def is_src_def is_dst_def)

lemma positions_append: "positions P i (xs @ ys) = positions P i xs @ positions P (i + length xs) ys"
  by (induction xs arbitrary: i) auto

lemma positions_all: "list_all P ls \<Longrightarrow> positions P i ls = [i..<i + length ls]"
  by (induction ls arbitrary: i) (auto simp: upt_rec)

lemma positions_none: "list_all (\<lambda>l. \<not> P l) ls \<Longrightarrow> positions P i ls = []"
  by (induction ls arbitrary: i) auto

lemma fix_block:
  assumes "length xb = length yb" and "length xa = length ya" and "\<forall>x \<in> set (xa @ xb). newline \<notin> set x"
    and "k = length pre" and "n = length xa + length xb"
  shows "fix_pairs ([k + length xa..<k + n] @ ss) ([k + n + length ya..<k + n + n] @ ds)
       (pre @ map src_line (xa @ xb) @ map dst_line (ya @ yb) @ post) =
     fix_pairs ss ds (pre @ map src_line (xa @ xb) @ map dst_line (ya @ map2 restore xb yb) @ post)"
  using assms
proof (induction xb yb arbitrary: xa ya rule: list_induct2)
  case Nil
  then show ?case by simp
next
  case (Cons x xb y yb)
  let ?ls = "pre @ map src_line (xa @ x # xb) @ map dst_line (ya @ y # yb) @ post"
  have up: "[k + length xa..<k + n] = (k + length xa) # [k + length (xa @ [x])..<k + n]"
    "[k + n + length ya..<k + n + n] = (k + n + length ya) # [k + n + length (ya @ [restore x y])..<k + n + n]"
    using Cons.prems by (simp_all add: upt_rec)
  have at: "?ls ! (k + length xa) = src_line x"
    using Cons.prems by (simp add: nth_append)
  have at': "?ls ! (k + n + length ya) = dst_line y"
    using Cons.prems Cons.hyps by (simp add: nth_append)
  have upd: "?ls[k + n + length ya := dst_line (restore x y)] =
      pre @ map src_line ((xa @ [x]) @ xb) @ map dst_line ((ya @ [restore x y]) @ yb) @ post"
    using Cons.prems Cons.hyps by (simp add: list_update_append)
  have "fix_pair (k + length xa) (k + n + length ya) ?ls =
      pre @ map src_line ((xa @ [x]) @ xb) @ map dst_line ((ya @ [restore x y]) @ yb) @ post"
  proof -
    have "newline \<notin> set (pl_line (?ls ! (k + length xa)))" unfolding at using Cons.prems by simp
    from fix_pair_restore [OF this, of "k + n + length ya"] show ?thesis unfolding at at' using upd by simp
  qed
  then show ?case
    using Cons.IH [of "xa @ [x]" "ya @ [restore x y]"] Cons.prems up by simp
qed

text \<open>A hunk in which every changed block has as many old as new lines.\<close>

datatype hunk_part = Context string | Change "string list" "string list"

primrec part_lines :: "hunk_part \<Rightarrow> patch_chunk_line list" where
  "part_lines (Context s) = [both_line s]"
| "part_lines (Change xs ys) = map src_line xs @ map dst_line ys"

primrec part_ok :: "hunk_part \<Rightarrow> bool" where
  "part_ok (Context s) = (newline \<notin> set s)"
| "part_ok (Change xs ys) = (length xs = length ys \<and> (\<forall>x \<in> set xs. newline \<notin> set x))"

primrec restore_part :: "hunk_part \<Rightarrow> hunk_part" where
  "restore_part (Context s) = Context s"
| "restore_part (Change xs ys) = Change xs (map2 restore xs ys)"

definition hunk_lines :: "hunk_part list \<Rightarrow> patch_chunk_line list" where
  "hunk_lines parts = concat (map part_lines parts)"

lemma fix_hunk:
  "list_all part_ok parts \<Longrightarrow>
   fix_pairs (positions is_src (length pre) (hunk_lines parts)) (positions is_dst (length pre) (hunk_lines parts))
     (pre @ hunk_lines parts) = (pre @ hunk_lines (map restore_part parts), True)"
proof (induction parts arbitrary: pre)
  case Nil
  then show ?case by (simp add: hunk_lines_def)
next
  case (Cons part parts)
  have IH: "fix_pairs (positions is_src (length pre') (hunk_lines parts)) (positions is_dst (length pre') (hunk_lines parts))
      (pre' @ hunk_lines parts) = (pre' @ hunk_lines (map restore_part parts), True)" for pre'
    using Cons by simp
  have split: "hunk_lines (part # parts) = part_lines part @ hunk_lines parts" by (simp add: hunk_lines_def)
  show ?case
  proof (cases part)
    case (Context s)
    have "fix_pair (length pre) (length pre) (pre @ both_line s # hunk_lines parts) = pre @ both_line s # hunk_lines parts"
      using Cons.prems Context fix_pair_restore [of "pre @ both_line s # hunk_lines parts" "length pre" "length pre"]
      by (simp add: restore_self)
    then show ?thesis using IH [of "pre @ [both_line s]"] by (simp add: split Context hunk_lines_def)
  next
    case (Change xs ys)
    let ?k = "length pre" and ?n = "length xs" and ?post = "hunk_lines parts"
    have len: "length xs = length ys" and nl: "\<forall>x \<in> set ([] @ xs). newline \<notin> set x" using Cons.prems Change by auto
    have s: "positions is_src ?k (map src_line xs @ map dst_line ys @ ?post) = [?k..<?k + ?n] @ positions is_src (?k + ?n + ?n) ?post"
      using len by (simp add: positions_append positions_all positions_none list_all_iff)
    have d: "positions is_dst ?k (map src_line xs @ map dst_line ys @ ?post) =
        [?k + ?n..<?k + ?n + ?n] @ positions is_dst (?k + ?n + ?n) ?post"
      using len by (simp add: positions_append positions_all positions_none list_all_iff)
    have "fix_pairs ([?k..<?k + ?n] @ positions is_src (?k + ?n + ?n) ?post) ([?k + ?n..<?k + ?n + ?n] @ positions is_dst (?k + ?n + ?n) ?post)
        (pre @ map src_line xs @ map dst_line ys @ ?post) =
      fix_pairs (positions is_src (?k + ?n + ?n) ?post) (positions is_dst (?k + ?n + ?n) ?post)
        (pre @ map src_line xs @ map dst_line (map2 restore xs ys) @ ?post)"
      using fix_block [OF len, of "[]" "[]" ?k pre ?n] nl by simp
    also have "\<dots> = (pre @ map src_line xs @ map dst_line (map2 restore xs ys) @ hunk_lines (map restore_part parts), True)"
      using IH [of "pre @ map src_line xs @ map dst_line (map2 restore xs ys)"] len by (simp add: add.assoc)
    finally show ?thesis using s d by (simp add: split Change hunk_lines_def)
  qed
qed

definition hunk_chunk :: "int \<times> int \<times> hunk_part list \<Rightarrow> patch_chunk" where
  "hunk_chunk = (\<lambda>(a, b, parts). \<lparr>pc_lines = hunk_lines parts, pc_src_pos = a, pc_dst_pos = b\<rparr>)"

definition hunk_patch :: "string \<Rightarrow> string \<Rightarrow> (int \<times> int \<times> hunk_part list) list \<Rightarrow> patch" where
  "hunk_patch s d hs = \<lparr>pa_src = s, pa_dst = d, pa_chunks = map hunk_chunk hs\<rparr>"

definition restore_hunk :: "int \<times> int \<times> hunk_part list \<Rightarrow> int \<times> int \<times> hunk_part list" where
  "restore_hunk = (\<lambda>(a, b, parts). (a, b, map restore_part parts))"

lemma fix_hunk_chunk: "list_all part_ok (snd (snd h)) \<Longrightarrow> fix_chunk (hunk_chunk h) = (hunk_chunk (restore_hunk h), True)"
  using fix_hunk [of "snd (snd h)" "[]"] by (cases h) (simp add: fix_chunk_def hunk_chunk_def restore_hunk_def Let_def)

lemma fix_until_all: "(\<And>x. x \<in> set xs \<Longrightarrow> f x = (g x, True)) \<Longrightarrow> fix_until f xs = (map g xs, True)"
  by (induction xs) (auto simp: Let_def)

lemma fix_hunk_patch:
  assumes "list_all (\<lambda>h. list_all part_ok (snd (snd h))) hs"
  shows "fix_patch (hunk_patch s d hs) = (hunk_patch s d (map restore_hunk hs), True)"
proof -
  have "fix_until fix_chunk (map hunk_chunk hs) = (map hunk_chunk (map restore_hunk hs), True)"
    using assms
  proof (induction hs)
    case (Cons h hs)
    then have "fix_chunk (hunk_chunk h) = (hunk_chunk (restore_hunk h), True)" by (intro fix_hunk_chunk) simp
    with Cons show ?case by (simp add: Let_def)
  qed simp
  then show ?thesis by (simp add: fix_patch_def hunk_patch_def Let_def)
qed

lemma parse_written:
  assumes "list_all patch_ok pats"
  shows "\<exists>tss. mapE write_patch pats = Inr tss \<and> parse_patchset (concat tss) = Inr pats"
  using parse_patches [OF assms, of "[]" None None] by (auto simp: parse_patchset_def init_patch_parser_def)

section \<open>Properties\<close>

text \<open>
  C18: What is written is read back: patches whose lines hold no newline, with no old line that begins
  with \<open>-- \<close> and no new line that begins with \<open>++ \<close>, are parsed from the lines written for them.
\<close>

theorem patch_roundtrip:
  assumes "list_all patch_ok pats"
  shows "\<exists>tss. mapE write_patch pats = Inr tss \<and> parse_patchset (concat tss) = Inr pats"
  using assms by (rule parse_written)

definition demo_hunks :: "(int \<times> int \<times> hunk_part list) list" where
  "demo_hunks = [(3, 3, [Context ''int x;'', Change [''  y ;'', ''z = 1; ''] [''  y;'', ''z = 1;''], Context ''}''])]"

lemma demo_hunks_ok:
  "patch_ok (hunk_patch ''a.cc'' ''/tmp/b'' demo_hunks)" "list_all (\<lambda>h. list_all part_ok (snd (snd h))) demo_hunks"
  by code_simp+

theorem patch_roundtrip_witness:
  "\<exists>tss. mapE write_patch [hunk_patch ''a.cc'' ''/tmp/b'' demo_hunks] = Inr tss \<and>
     parse_patchset (concat tss) = Inr [hunk_patch ''a.cc'' ''/tmp/b'' demo_hunks]"
  by (rule patch_roundtrip) (simp add: demo_hunks_ok)

text \<open>
  An old line that begins with \<open>-- \<close> is taken for the header of a new patch: it disappears from its
  chunk, the lines after it still go to that chunk, and every later chunk goes to the new patch,
  which the caller never writes.
\<close>

theorem dash_line_lost:
  assumes "chunk_ok (c\<lparr>pc_lines := ls1 @ ls2\<rparr>)" and "list_all chunk_ok later"
    and "newline \<notin> set t" and "newline \<notin> set s" and "newline \<notin> set d"
    and "c1 = c\<lparr>pc_lines := ls1 @ src_line (''-- '' @ t) # ls2\<rparr>"
  shows "\<exists>ts. write_patch \<lparr>pa_src = s, pa_dst = d, pa_chunks = c1 # later\<rparr> = Inr ts \<and>
     parse_patchset ts = Inr [\<lparr>pa_src = s, pa_dst = d, pa_chunks = [c\<lparr>pc_lines := ls1 @ ls2\<rparr>]\<rparr>,
                              \<lparr>pa_src = t, pa_dst = [], pa_chunks = later\<rparr>]"
  using assms by (rule dash_line_splits)

theorem dash_line_lost_witness:
  "\<exists>ts. write_patch \<lparr>pa_src = ''a'', pa_dst = ''b'',
       pa_chunks = [(new_chunk 1 1)\<lparr>pc_lines := [both_line ''x'', src_line ''-- i;'', dst_line ''y'']\<rparr>, new_chunk 9 9]\<rparr> = Inr ts \<and>
     parse_patchset ts = Inr
       [\<lparr>pa_src = ''a'', pa_dst = ''b'', pa_chunks = [(new_chunk 1 1)\<lparr>pc_lines := [both_line ''x'', dst_line ''y'']\<rparr>]\<rparr>,
        \<lparr>pa_src = ''i;'', pa_dst = [], pa_chunks = [new_chunk 9 9]\<rparr>]"
proof -
  have "chunk_ok ((new_chunk 1 1)\<lparr>pc_lines := [both_line ''x''] @ [dst_line ''y'']\<rparr>)" "list_all chunk_ok [new_chunk 9 9]"
    "newline \<notin> set ''i;''" "newline \<notin> set ''a''" "newline \<notin> set ''b''"
    by code_simp+
  from dash_line_lost [OF this refl] show ?thesis by simp
qed

text \<open>
  In a diff whose changed blocks have as many new as old lines, a change that only removes one
  blank at the end of a line is undone, and nothing else is touched; a change that removes two or
  more blanks at the end stays.
\<close>

theorem whitespace_changes_removed:
  assumes "patch_ok (hunk_patch s d hs)" and "list_all (\<lambda>h. list_all part_ok (snd (snd h))) hs"
    and "write_patch (hunk_patch s d hs) = Inr ts"
  shows "remove_trailing_whitespace_changes ts = Inr [hunk_patch s d (map restore_hunk hs)]"
proof -
  have "parse_patchset ts = Inr [hunk_patch s d hs]"
    using parse_written [of "[hunk_patch s d hs]"] assms(1,3) by simp
  then show ?thesis
    by (simp add: remove_trailing_whitespace_changes_def fix_hunk_patch [OF assms(2)] Let_def)
qed

theorem whitespace_changes_removed_witness:
  "\<exists>ts. write_patch (hunk_patch ''a.cc'' ''/tmp/b'' demo_hunks) = Inr ts \<and>
     remove_trailing_whitespace_changes ts =
       Inr [hunk_patch ''a.cc'' ''/tmp/b''
             [(3, 3, [Context ''int x;'', Change [''  y ;'', ''z = 1; ''] [''  y;'', ''z = 1; ''], Context ''}''])]]"
proof -
  obtain ts where ts: "write_patch (hunk_patch ''a.cc'' ''/tmp/b'' demo_hunks) = Inr ts"
    using parse_written [of "[hunk_patch ''a.cc'' ''/tmp/b'' demo_hunks]"] demo_hunks_ok by (auto simp: bindE_Inr_conv)
  have "map restore_hunk demo_hunks =
      [(3, 3, [Context ''int x;'', Change [''  y ;'', ''z = 1; ''] [''  y;'', ''z = 1; ''], Context ''}''])]"
    by code_simp
  with whitespace_changes_removed [OF demo_hunks_ok ts] ts show ?thesis by simp
qed

definition checked_files :: "style_options \<Rightarrow> string \<Rightarrow> string list \<Rightarrow> string list" where
  "checked_files o' root_dir changed = (if so_git o' then git_modified_files root_dir changed else [so_file o'])"

definition style_ok :: "style_world \<Rightarrow> style_files \<Rightarrow> style_options \<Rightarrow> string \<Rightarrow> bool" where
  "style_ok w fs o' f =
     (case indent w fs f (so_debug o') (so_level o') of
        Inl e \<Rightarrow> False
      | Inr dst \<Rightarrow> so_in_place o' \<or> (case fs f of None \<Rightarrow> False | Some src \<Rightarrow> sw_cmp w src dst))"

lemma mapE_is_ok: "is_ok (mapE f xs) \<longleftrightarrow> list_all (\<lambda>x. is_ok (f x)) xs"
proof (induction xs)
  case (Cons x xs)
  then show ?case by (cases "f x"; cases "mapE f xs") auto
qed simp

lemma is_ok_bind: "is_ok (bindE m (\<lambda>x. Inr (g x))) = is_ok m"
  by (cases m) simp_all

lemma indent_opens: "indent w fs f debug level = Inr dst \<Longrightarrow> fs f \<noteq> None"
  by (auto simp: indent_def bindE_Inr_conv open_lines_def split: option.splits)

lemma indent_files_ok:
  "(\<exists>fs' out. indent_files w fs files diff debug level inplace = Inr (True, fs', out)) \<longleftrightarrow>
     list_all (\<lambda>f. case indent w fs f debug level of Inl e \<Rightarrow> False
       | Inr dst \<Rightarrow> inplace \<or> (case fs f of None \<Rightarrow> False | Some src \<Rightarrow> sw_cmp w src dst)) files"
proof (cases "list_all (\<lambda>f. is_ok (indent w fs f debug level)) files")
  case False
  then have "\<not> is_ok (mapE (\<lambda>f. bindE (indent w fs f debug level) (\<lambda>dst. Inr (f, dst))) files)"
    by (simp add: mapE_is_ok is_ok_bind)
  then obtain e where "mapE (\<lambda>f. bindE (indent w fs f debug level) (\<lambda>dst. Inr (f, dst))) files = Inl e"
    by (auto simp: is_ok_def split: sum.splits)
  with False show ?thesis by (auto simp: indent_files_def list_all_iff is_ok_def split: sum.splits)
next
  case True
  define out where "out f = (case indent w fs f debug level of Inl e \<Rightarrow> [] | Inr dst \<Rightarrow> dst)" for f
  have i: "indent w fs f debug level = Inr (out f)" if "f \<in> set files" for f
    using True that by (auto simp: list_all_iff is_ok_def out_def split: sum.splits)
  have m: "mapE (\<lambda>f. bindE (indent w fs f debug level) (\<lambda>dst. Inr (f, dst))) files = Inr (map (\<lambda>f. (f, out f)) files)"
    by (rule mapE_all_Inr) (simp add: i)
  have o: "\<exists>src. fs f = Some src" if "f \<in> set files" for f using indent_opens [OF i [OF that]] by simp
  have c: "mapE (\<lambda>(src, dst). bindE (open_lines fs src) (\<lambda>s. Inr (src, dst, sw_cmp w s dst))) (map (\<lambda>f. (f, out f)) files) =
      Inr (map (\<lambda>(src, dst). (src, dst, sw_cmp w (the (fs src)) dst)) (map (\<lambda>f. (f, out f)) files))"
    by (rule mapE_all_Inr) (auto simp: open_lines_def dest!: o)
  show ?thesis
  proof (cases inplace)
    case True
    then show ?thesis using m i by (auto simp: indent_files_def list_all_iff)
  next
    case False
    have "(\<exists>fs' out'. indent_files w fs files diff debug level inplace = Inr (True, fs', out')) \<longleftrightarrow>
        (\<forall>f \<in> set files. sw_cmp w (the (fs f)) (out f))"
      using False m c by (auto simp: indent_files_def Let_def filter_empty_conv bindE_Inr_conv)
    then show ?thesis using i o False by (fastforce simp: list_all_iff)
  qed
qed

lemma style_status:
  "(fst (run_as_main w fs o' root_dir changed) = 0 \<longleftrightarrow>
      (so_git o' \<or> so_file o' \<noteq> []) \<and> list_all (style_ok w fs o') (checked_files o' root_dir changed)) \<and>
   (so_in_place o' \<or> snd (run_as_main w fs o' root_dir changed) = fs)"
proof
  let ?check = "\<lambda>files. case indent_files w fs files (so_diff o') (so_debug o') (so_level o') (so_in_place o') of
      Inl e \<Rightarrow> (1 :: int, fs) | Inr (ok, fs', out) \<Rightarrow> (if ok then 0 else 1, fs')"
  have eq: "style_ok w fs o' = (\<lambda>f. case indent w fs f (so_debug o') (so_level o') of Inl e \<Rightarrow> False
      | Inr dst \<Rightarrow> so_in_place o' \<or> (case fs f of None \<Rightarrow> False | Some src \<Rightarrow> sw_cmp w src dst))"
    by (rule ext) (simp add: style_ok_def)
  have ok: "fst (?check files) = 0 \<longleftrightarrow> list_all (style_ok w fs o') files" for files
  proof -
    have "fst (?check files) = 0 \<longleftrightarrow>
        (\<exists>fs' out. indent_files w fs files (so_diff o') (so_debug o') (so_level o') (so_in_place o') = Inr (True, fs', out))"
      by (cases "indent_files w fs files (so_diff o') (so_debug o') (so_level o') (so_in_place o')")
        (auto split: if_split_asm)
    then show ?thesis unfolding eq indent_files_ok .
  qed
  have "\<not> style_ok w fs o' f" if "fs f = None" for f
    using indent_opens [of w fs f] that by (auto simp: style_ok_def split: sum.splits)
  then show "fst (run_as_main w fs o' root_dir changed) = 0 \<longleftrightarrow>
      (so_git o' \<or> so_file o' \<noteq> []) \<and> list_all (style_ok w fs o') (checked_files o' root_dir changed)"
    using ok by (auto simp: run_as_main_def checked_files_def Let_def)
  have "so_in_place o' \<or> snd (?check files) = fs" for files
    by (auto simp: indent_files_def bindE_Inr_conv Let_def split: sum.splits if_splits)
  then show "so_in_place o' \<or> snd (run_as_main w fs o' root_dir changed) = fs"
    by (simp add: run_as_main_def Let_def)
qed

text \<open>
  The exit status is 0 exactly when files were asked for with an option that is understood, all of
  them exist, and each one either is rewritten in place or equals what the indenter and the
  filtered patch make of it. Without \<open>--in-place\<close> no file is changed.
\<close>

theorem style_exit_status:
  "(fst (run_as_main w fs o' root_dir changed) = 0 \<longleftrightarrow>
      (so_git o' \<or> so_file o' \<noteq> []) \<and> list_all (style_ok w fs o') (checked_files o' root_dir changed)) \<and>
   (so_in_place o' \<or> snd (run_as_main w fs o' root_dir changed) = fs)"
  by (rule style_status)

text \<open>
  With \<open>--debug\<close> nothing is checked: the diff is consumed by its copy in the debug file, so the
  patch is empty and every file that exists counts as well indented.
\<close>

theorem debug_checks_nothing:
  assumes "so_debug o'" and "so_git o' \<or> so_file o' \<noteq> []"
    and "\<And>cfg f. is_ok (sw_uncrustify w cfg f)" and "\<And>src. sw_patch w [] src = src" and "\<And>src. sw_cmp w src src"
    and "\<forall>f \<in> set (checked_files o' root_dir changed). fs f \<noteq> None"
  shows "fst (run_as_main w fs o' root_dir changed) = 0"
proof -
  have d: "final_diff level True diff = Inr []" for level diff
    by (simp add: final_diff_def remove_trailing_whitespace_changes_def parse_patchset_def init_patch_parser_def Let_def)
  have "style_ok w fs o' f" if f: "f \<in> set (checked_files o' root_dir changed)" for f
  proof -
    obtain src where src: "fs f = Some src" using assms(6) f by auto
    obtain out where "sw_uncrustify w (uncrustify_config_file (so_level o')) f = Inr out"
      using assms(3) [of "uncrustify_config_file (so_level o')" f] by (auto simp: is_ok_def split: sum.splits)
    then have "indent w fs f (so_debug o') (so_level o') = Inr src"
      using src assms(1,4) by (simp add: indent_def open_lines_def d)
    then show ?thesis using src assms(5) by (simp add: style_ok_def)
  qed
  then show ?thesis using style_status assms(2) by (auto simp: list_all_iff)
qed

definition demo_style :: style_world where
  "demo_style = \<lparr>sw_uncrustify = \<lambda>cfg f. Inr [''  int x;''], sw_unified_diff = \<lambda>nm s d. [], sw_patch = \<lambda>diff src. src,
     sw_cmp = \<lambda>a b. a = b\<rparr>"

definition demo_style_options :: style_options where
  "demo_style_options = \<lparr>so_debug = True, so_level = 0, so_git = False, so_file = ''a.cc'', so_diff = False, so_in_place = False\<rparr>"

theorem debug_checks_nothing_witness:
  "fst (run_as_main demo_style [''a.cc'' \<mapsto> [''int x;'']] demo_style_options [] []) = 0"
  by (rule debug_checks_nothing) (simp_all add: demo_style_options_def demo_style_def checked_files_def)

theorem style_exit_status_witness:
  "fst (run_as_main demo_style [''a.cc'' \<mapsto> [''int x;'']] (demo_style_options\<lparr>so_in_place := True, so_debug := False\<rparr>) [] []) = 0"
proof -
  let ?o = "demo_style_options\<lparr>so_in_place := True, so_debug := False\<rparr>"
  have d: "final_diff 0 False [] = Inr []"
    by (simp add: final_diff_def remove_trailing_whitespace_changes_def parse_patchset_def init_patch_parser_def Let_def)
  have "style_ok demo_style [''a.cc'' \<mapsto> [''int x;'']] ?o ''a.cc''"
    by (simp add: style_ok_def indent_def open_lines_def demo_style_def demo_style_options_def d)
  then show ?thesis
    using style_exit_status [of demo_style "[''a.cc'' \<mapsto> [''int x;'']]" ?o "[]" "[]"]
    by (simp add: checked_files_def demo_style_options_def)
qed

end
