(* ===== verification/Timeline.thy ===== *)
theory Timeline
  imports Complex_Main Py_Int
begin

text \<open>
  The data of \<^verbatim>\<open>utils/grid.py\<close>: ranges and events on named time lines, their two binary
  searches, the selection of what lies between two times, the bounds, the colours and the reader of
  the input file. The drawing code is not modelled. The file runs under Python 2 only; where
  Python 3 differs the version is an argument.
\<close>

section \<open>Ranges\<close>

record data_range =
  dr_start :: int
  dr_end :: int
  dr_value :: string

definition new_data_range :: data_range where
  "new_data_range = \<lparr>dr_start = 0, dr_end = 0, dr_value = []\<rparr>"

definition ranges_cmp :: "data_range \<Rightarrow> data_range \<Rightarrow> int" where
  "ranges_cmp a b =
     (let diff = dr_start a - dr_start b in if diff < 0 then -1 else if diff > 0 then 1 else 0)"

record timeline_data_range =
  tr_name :: string
  tr_ranges :: "data_range list"

definition new_timeline_data_range :: "string \<Rightarrow> timeline_data_range" where
  "new_timeline_data_range nm = \<lparr>tr_name = nm, tr_ranges = []\<rparr>"

text \<open>
  The times of the file are integers. The keys of a search are the bounds of the window, which are
  floating-point numbers; Python compares the two exactly, so the keys are rational here.
\<close>

function range_search_loop :: "data_range list \<Rightarrow> rat \<Rightarrow> int \<Rightarrow> int \<Rightarrow> int" where
  "range_search_loop rs key l u =
     (if l \<le> u then
        (let i = (l + u) div 2; r = rs ! nat i in
         if key \<ge> of_int (dr_start r) \<and> key \<le> of_int (dr_end r) then i
         else if key < of_int (dr_start r) then range_search_loop rs key l (i - 1)
         else range_search_loop rs key (i + 1) u)
      else -1)"
  by pat_completeness auto
termination
  by (relation "measure (\<lambda>(_, _, l, u). nat (u - l + 1))") auto

declare range_search_loop.simps [simp del]

definition range_search :: "data_range list \<Rightarrow> rat \<Rightarrow> int" where
  "range_search rs key = range_search_loop rs key 0 (int (length rs) - 1)"

definition add_range :: "data_range \<Rightarrow> timeline_data_range \<Rightarrow> timeline_data_range" where
  "add_range r t = t\<lparr>tr_ranges := tr_ranges t @ [r]\<rparr>"

definition py_slice :: "nat \<Rightarrow> nat \<Rightarrow> 'a list \<Rightarrow> 'a list" where
  \<comment> \<open>\<open>xs[a:b]\<close> for bounds that are not negative\<close>
  "py_slice a b xs = take (b - a) (drop a xs)"

definition get_ranges_bounds :: "timeline_data_range \<Rightarrow> rat \<Rightarrow> rat \<Rightarrow> int \<times> int" where
  "get_ranges_bounds t start end' =
     (let s = range_search (tr_ranges t) start; e = range_search (tr_ranges t) end'
      in if s = -1 \<and> e = -1 then (0, 0)
         else if s = -1 then (0, e + 1)
         else if e = -1 then (s, int (length (tr_ranges t)))
         else (s, e + 1))"

definition get_ranges :: "timeline_data_range \<Rightarrow> rat \<Rightarrow> rat \<Rightarrow> data_range list" where
  "get_ranges t start end' =
     (let s = range_search (tr_ranges t) start; e = range_search (tr_ranges t) end'
      in if s = -1 \<and> e = -1 then []
         else if s = -1 then py_slice 0 (nat (e + 1)) (tr_ranges t)
         else if e = -1 then py_slice (nat s) (length (tr_ranges t)) (tr_ranges t)
         else py_slice (nat s) (nat (e + 1)) (tr_ranges t))"

fun insert_cmp :: "('a \<Rightarrow> 'a \<Rightarrow> int) \<Rightarrow> 'a \<Rightarrow> 'a list \<Rightarrow> 'a list" where
  "insert_cmp cmp x [] = [x]"
| "insert_cmp cmp x (y # ys) = (if cmp x y \<le> 0 then x # y # ys else y # insert_cmp cmp x ys)"

definition py_cmp_sort :: "py_version \<Rightarrow> ('a \<Rightarrow> 'a \<Rightarrow> int) \<Rightarrow> 'a list \<Rightarrow> 'a list res" where
  \<comment> \<open>\<open>xs.sort(cmp)\<close>: stable; Python 3 takes no positional argument\<close>
  "py_cmp_sort py cmp xs = (case py of Py2 \<Rightarrow> Inr (foldr (insert_cmp cmp) xs []) | Py3 \<Rightarrow> Inl TypeError)"

definition sort_ranges :: "py_version \<Rightarrow> timeline_data_range \<Rightarrow> timeline_data_range res" where
  "sort_ranges py t = bindE (py_cmp_sort py ranges_cmp (tr_ranges t)) (\<lambda>rs. Inr (t\<lparr>tr_ranges := rs\<rparr>))"

definition range_bounds :: "timeline_data_range \<Rightarrow> int \<times> int" where
  "range_bounds t =
     (if length (tr_ranges t) > 0 then (dr_start (tr_ranges t ! 0), dr_end (tr_ranges t ! (length (tr_ranges t) - 1)))
      else (0, 0))"

section \<open>Events\<close>

record 'v event =
  ev_at :: int
  ev_value :: 'v

definition events_cmp :: "'v event \<Rightarrow> 'v event \<Rightarrow> int" where
  "events_cmp a b =
     (let diff = ev_at a - ev_at b in if diff < 0 then -1 else if diff > 0 then 1 else 0)"

record 'v timeline_event =
  te_name :: string
  te_events :: "'v event list"

definition new_timeline_event :: "string \<Rightarrow> 'v timeline_event" where
  "new_timeline_event nm = \<lparr>te_name = nm, te_events = []\<rparr>"

function event_search_loop :: "'v event list \<Rightarrow> rat \<Rightarrow> int \<Rightarrow> int \<Rightarrow> int" where
  "event_search_loop es key l u =
     (if l \<le> u then
        (let i = (l + u) div 2; e = es ! nat i in
         if key = of_int (ev_at e) then i
         else if key < of_int (ev_at e) then event_search_loop es key l (i - 1)
         else event_search_loop es key (i + 1) u)
      else l)"
  by pat_completeness auto
termination
  by (relation "measure (\<lambda>(_, _, l, u). nat (u - l + 1))") auto

declare event_search_loop.simps [simp del]

definition event_search :: "'v event list \<Rightarrow> rat \<Rightarrow> int" where
  "event_search es key = event_search_loop es key 0 (int (length es) - 1)"

definition add_event :: "'v event \<Rightarrow> 'v timeline_event \<Rightarrow> 'v timeline_event" where
  "add_event e t = t\<lparr>te_events := te_events t @ [e]\<rparr>"

definition get_events_bounds :: "'v timeline_event \<Rightarrow> rat \<Rightarrow> rat \<Rightarrow> int \<times> int" where
  "get_events_bounds t start end' = (event_search (te_events t) start, event_search (te_events t) end' + 1)"

definition get_events :: "'v timeline_event \<Rightarrow> rat \<Rightarrow> rat \<Rightarrow> 'v event list" where
  "get_events t start end' =
     (let s = event_search (te_events t) start; e = event_search (te_events t) end'
      in py_slice (nat s) (nat (e + 1)) (te_events t))"

definition sort_events :: "py_version \<Rightarrow> 'v timeline_event \<Rightarrow> 'v timeline_event res" where
  "sort_events py t = bindE (py_cmp_sort py events_cmp (te_events t)) (\<lambda>es. Inr (t\<lparr>te_events := es\<rparr>))"

definition event_bounds :: "'v timeline_event \<Rightarrow> int \<times> int" where
  "event_bounds t =
     (if length (te_events t) > 0 then (ev_at (te_events t ! 0), ev_at (last (te_events t))) else (0, 0))"

section \<open>Time lines\<close>

record timeline =
  tl_name :: string
  tl_ranges :: "timeline_data_range list"
  tl_event_str :: "string timeline_event list"
  tl_event_int :: "int timeline_event list"

definition new_timeline :: "string \<Rightarrow> timeline" where
  "new_timeline nm = \<lparr>tl_name = nm, tl_ranges = [], tl_event_str = [], tl_event_int = []\<rparr>"

text \<open>
  The getters return the first object with the name, or a new one appended to the list; the caller
  then changes that object. Both steps are one function here.
\<close>

fun at_name :: "('a \<Rightarrow> string) \<Rightarrow> (string \<Rightarrow> 'a) \<Rightarrow> string \<Rightarrow> ('a \<Rightarrow> 'a) \<Rightarrow> 'a list \<Rightarrow> 'a list" where
  "at_name name_of new nm f [] = [f (new nm)]"
| "at_name name_of new nm f (x # xs) =
     (if name_of x = nm then f x # xs else x # at_name name_of new nm f xs)"

definition in_range :: "string \<Rightarrow> (timeline_data_range \<Rightarrow> timeline_data_range) \<Rightarrow> timeline \<Rightarrow> timeline" where
  "in_range nm f t = t\<lparr>tl_ranges := at_name tr_name new_timeline_data_range nm f (tl_ranges t)\<rparr>"

definition in_event_str :: "string \<Rightarrow> (string timeline_event \<Rightarrow> string timeline_event) \<Rightarrow> timeline \<Rightarrow> timeline" where
  "in_event_str nm f t = t\<lparr>tl_event_str := at_name te_name new_timeline_event nm f (tl_event_str t)\<rparr>"

definition in_event_int :: "string \<Rightarrow> (int timeline_event \<Rightarrow> int timeline_event) \<Rightarrow> timeline \<Rightarrow> timeline" where
  "in_event_int nm f t = t\<lparr>tl_event_int := at_name te_name new_timeline_event nm f (tl_event_int t)\<rparr>"

definition in_timeline :: "string \<Rightarrow> (timeline \<Rightarrow> timeline) \<Rightarrow> timeline list \<Rightarrow> timeline list" where
  "in_timeline nm f tls = at_name tl_name new_timeline nm f tls"

definition sort_timeline :: "py_version \<Rightarrow> timeline \<Rightarrow> timeline res" where
  "sort_timeline py t =
     bindE (mapE (sort_ranges py) (tl_ranges t)) (\<lambda>rs.
     bindE (mapE (sort_events py) (tl_event_int t)) (\<lambda>is.
     bindE (mapE (sort_events py) (tl_event_str t)) (\<lambda>ss.
     Inr (t\<lparr>tl_ranges := rs, tl_event_int := is, tl_event_str := ss\<rparr>))))"

definition widen :: "int \<times> int \<Rightarrow> int \<times> int \<Rightarrow> int \<times> int" where
  "widen = (\<lambda>(lo, hi) (a, b). (if a < lo then a else lo, if b > hi then b else hi))"

definition timeline_bounds :: "timeline \<Rightarrow> int \<times> int" where
  "timeline_bounds t =
     (let b0 = foldl (\<lambda>b r. widen b (range_bounds r)) (0, 0) (tl_ranges t);
          b1 = foldl (\<lambda>b e. widen b (event_bounds e)) b0 (tl_event_str t)
      in foldl (\<lambda>b e. widen b (event_bounds e)) b1 (tl_event_int t))"

definition sort_timelines :: "py_version \<Rightarrow> timeline list \<Rightarrow> timeline list res" where
  "sort_timelines py tls = mapE (sort_timeline py) tls"

definition timelines_bounds :: "timeline list \<Rightarrow> int \<times> int" where
  "timelines_bounds tls = foldl (\<lambda>b t. widen b (timeline_bounds t)) (0, 0) tls"

definition all_range_values :: "(string list \<Rightarrow> string list) \<Rightarrow> timeline list \<Rightarrow> string list" where
  \<comment> \<open>the order in which a dictionary enumerates its keys is the parameter \<open>key_order\<close>\<close>
  "all_range_values key_order tls =
     key_order (dict_keys (foldl (\<lambda>d r. dict_set (dr_value r) (1 :: nat) d) []
       (concat (map (\<lambda>t. concat (map tr_ranges (tl_ranges t))) tls))))"

section \<open>Colours\<close>

record color =
  c_r :: rat
  c_g :: rat
  c_b :: rat

definition default_colors :: "color list" where
  "default_colors =
     [\<lparr>c_r = 1, c_g = 0, c_b = 0\<rparr>, \<lparr>c_r = 0, c_g = 1, c_b = 0\<rparr>, \<lparr>c_r = 0, c_g = 0, c_b = 1\<rparr>,
      \<lparr>c_r = 1, c_g = 1, c_b = 0\<rparr>, \<lparr>c_r = 1, c_g = 0, c_b = 1\<rparr>, \<lparr>c_r = 0, c_g = 1, c_b = 1\<rparr>]"

text \<open>The dictionary of one object and the list of default colours, which all objects share.\<close>

record colors =
  co_colors :: "(string, color) dict"
  co_defaults :: "color list"

definition new_colors :: colors where "new_colors = \<lparr>co_colors = [], co_defaults = default_colors\<rparr>"

definition add_color :: "string \<Rightarrow> color \<Rightarrow> colors \<Rightarrow> colors" where
  "add_color nm c cs = cs\<lparr>co_colors := dict_set nm c (co_colors cs)\<rparr>"

definition lookup_color :: "py_version \<Rightarrow> string \<Rightarrow> colors \<Rightarrow> (color option \<times> colors) res" where
  "lookup_color py nm cs =
     (case py of
        Py3 \<Rightarrow> Inl AttributeError
      | Py2 \<Rightarrow>
          bindE (if \<not> dict_in nm (co_colors cs)
                 then (if co_defaults cs = [] then Inl IndexError
                       else Inr (add_color nm (last (co_defaults cs)) (cs\<lparr>co_defaults := butlast (co_defaults cs)\<rparr>)))
                 else Inr cs) (\<lambda>cs'. Inr (dict_get (co_colors cs') nm, cs')))"

section \<open>Reading the file\<close>

definition field :: "string \<Rightarrow> (string \<times> string) option" where
  \<comment> \<open>\<open>([^ ]+)\<close> and the space after it\<close>
  "field s =
     (let a = takeWhile (\<lambda>c. c \<noteq> CHR '' '') s; r = dropWhile (\<lambda>c. c \<noteq> CHR '' '') s
      in if a \<noteq> [] \<and> r \<noteq> [] then Some (a, tl r) else None)"

definition number_field :: "string \<Rightarrow> (int \<times> string) option" where
  \<comment> \<open>\<open>([0-9]+)\<close> and the space after it\<close>
  "number_field s = (case field s of None \<Rightarrow> None | Some (a, r) \<Rightarrow> if list_all is_digit a then Some (int (parse_nat a), r) else None)"

definition last_number :: "string \<Rightarrow> int option" where
  \<comment> \<open>\<open>([0-9]+)\<close> at the end of the expression; what follows is not looked at\<close>
  "last_number s = (let a = takeWhile is_digit s in if a \<noteq> [] then Some (int (parse_nat a)) else None)"

datatype entry =
    RangeEntry string string string int int
  | StringEvent string string string int
  | IntEvent string string int int
  | ColorEntry string int int int

definition match_range :: "string \<Rightarrow> entry option" where
  "match_range line =
     (if prefix ''range '' line then
        (case field (drop 6 line) of None \<Rightarrow> None | Some (t, r) \<Rightarrow>
        (case field r of None \<Rightarrow> None | Some (n, r) \<Rightarrow>
        (case field r of None \<Rightarrow> None | Some (v, r) \<Rightarrow>
        (case number_field r of None \<Rightarrow> None | Some (a, r) \<Rightarrow>
        (case last_number r of None \<Rightarrow> None | Some b \<Rightarrow> Some (RangeEntry t n v a b))))))
      else None)"

definition match_event_str :: "string \<Rightarrow> entry option" where
  "match_event_str line =
     (if prefix ''event-str '' line then
        (case field (drop 10 line) of None \<Rightarrow> None | Some (t, r) \<Rightarrow>
        (case field r of None \<Rightarrow> None | Some (n, r) \<Rightarrow>
        (case field r of None \<Rightarrow> None | Some (v, r) \<Rightarrow>
        (case last_number r of None \<Rightarrow> None | Some a \<Rightarrow> Some (StringEvent t n v a)))))
      else None)"

definition match_event_int :: "string \<Rightarrow> entry option" where
  "match_event_int line =
     (if prefix ''event-int '' line then
        (case field (drop 10 line) of None \<Rightarrow> None | Some (t, r) \<Rightarrow>
        (case field r of None \<Rightarrow> None | Some (n, r) \<Rightarrow>
        (case number_field r of None \<Rightarrow> None | Some (v, r) \<Rightarrow>
        (case last_number r of None \<Rightarrow> None | Some a \<Rightarrow> Some (IntEvent t n v a)))))
      else None)"

definition hex_pair :: "string \<Rightarrow> int option" where
  "hex_pair s =
     (if length s = 2 \<and> list_all (\<lambda>c. case radix_digit c of None \<Rightarrow> False | Some d \<Rightarrow> d < 16) s then py_int 16 s else None)"

definition match_color :: "string \<Rightarrow> entry option" where
  "match_color line =
     (if prefix ''color '' line then
        (case field (drop 6 line) of None \<Rightarrow> None | Some (n, r) \<Rightarrow>
         if prefix ''#'' r then
           (case (hex_pair (take 2 (drop 1 r)), hex_pair (take 2 (drop 3 r)), hex_pair (take 2 (drop 5 r))) of
              (Some r', Some g, Some b) \<Rightarrow> Some (ColorEntry n r' g b)
            | _ \<Rightarrow> None)
         else None)
      else None)"

definition parse_entry :: "string \<Rightarrow> entry option" where
  "parse_entry line =
     (case match_range line of Some e \<Rightarrow> Some e | None \<Rightarrow>
     (case match_event_str line of Some e \<Rightarrow> Some e | None \<Rightarrow>
     (case match_event_int line of Some e \<Rightarrow> Some e | None \<Rightarrow> match_color line)))"

definition color_part :: "py_version \<Rightarrow> int \<Rightarrow> rat" where
  \<comment> \<open>\<open>r / 255\<close>: an integer division under Python 2\<close>
  "color_part py n = (case py of Py2 \<Rightarrow> of_int (n div 255) | Py3 \<Rightarrow> Fract n 255)"

primrec add_entry :: "py_version \<Rightarrow> entry \<Rightarrow> colors \<times> timeline list \<Rightarrow> colors \<times> timeline list" where
  "add_entry py (RangeEntry t n v a b) st =
     (fst st, in_timeline t (in_range n (add_range (new_data_range\<lparr>dr_value := v, dr_start := a, dr_end := b\<rparr>))) (snd st))"
| "add_entry py (StringEvent t n v a) st =
     (fst st, in_timeline t (in_event_str n (add_event \<lparr>ev_at = a, ev_value = v\<rparr>)) (snd st))"
| "add_entry py (IntEvent t n v a) st =
     (fst st, in_timeline t (in_event_int n (add_event \<lparr>ev_at = a, ev_value = v\<rparr>)) (snd st))"
| "add_entry py (ColorEntry n r g b) st =
     (add_color n \<lparr>c_r = color_part py r, c_g = color_part py g, c_b = color_part py b\<rparr> (fst st), snd st)"

definition read_line :: "py_version \<Rightarrow> colors \<times> timeline list \<Rightarrow> string \<Rightarrow> colors \<times> timeline list" where
  "read_line py st line = (case parse_entry line of None \<Rightarrow> st | Some e \<Rightarrow> add_entry py e st)"

definition read_data :: "py_version \<Rightarrow> string list \<Rightarrow> (colors \<times> timeline list) res" where
  "read_data py lines =
     (let st = foldl (read_line py) (new_colors, []) lines
      in bindE (sort_timelines py (snd st)) (\<lambda>tls. Inr (fst st, tls)))"

text \<open>The part of \<open>main\<close> before the window: the bounds and the colours of the legend.\<close>

fun legend_colors :: "py_version \<Rightarrow> string list \<Rightarrow> colors \<Rightarrow> (color option list \<times> colors) res" where
  "legend_colors py [] cs = Inr ([], cs)"
| "legend_colors py (v # vs) cs =
     bindE (lookup_color py v cs) (\<lambda>(c, cs1). bindE (legend_colors py vs cs1) (\<lambda>(l, cs2). Inr (c # l, cs2)))"

definition main_data :: "py_version \<Rightarrow> (string list \<Rightarrow> string list) \<Rightarrow> string list \<Rightarrow> ((int \<times> int) \<times> string list \<times> color option list) res" where
  "main_data py key_order lines =
     bindE (read_data py lines) (\<lambda>(cs, tls).
     bindE (legend_colors py (all_range_values key_order tls) cs) (\<lambda>(l, cs').
     Inr (timelines_bounds tls, all_range_values key_order tls, l)))"

section \<open>Binary search\<close>

abbreviation ev_time :: "'v event \<Rightarrow> rat" where "ev_time e \<equiv> of_int (ev_at e)"

abbreviation dr_lo :: "data_range \<Rightarrow> rat" where "dr_lo r \<equiv> of_int (dr_start r)"

abbreviation dr_hi :: "data_range \<Rightarrow> rat" where "dr_hi r \<equiv> of_int (dr_end r)"

text \<open>
  Both loops keep that everything left of \<open>l\<close> lies before the key and everything right of \<open>u\<close> after
  it.
\<close>

lemma event_search_loop_spec:
  assumes "sorted_wrt (\<lambda>a b. ev_at a \<le> ev_at b) es" and "0 \<le> l" and "l \<le> u + 1" and "u < int (length es)"
    and "\<And>j. int j < l \<Longrightarrow> ev_time (es ! j) < key"
    and "\<And>j. u < int j \<Longrightarrow> j < length es \<Longrightarrow> key < ev_time (es ! j)"
    and "event_search_loop es key l u = r"
  shows "0 \<le> r \<and> r \<le> int (length es) \<and>
    (r < int (length es) \<and> ev_time (es ! nat r) = key \<or>
     (\<forall>j. int j < r \<longrightarrow> ev_time (es ! j) < key) \<and> (\<forall>j<length es. r \<le> int j \<longrightarrow> key < ev_time (es ! j)))"
  using assms
proof (induction es key l u arbitrary: r rule: event_search_loop.induct)
  case (1 es key l u)
  note sorted = sorted_wrt_iff_nth_less [THEN iffD1, OF "1.prems"(1), rule_format]
  define i where "i = (l + u) div 2"
  show ?case
  proof (cases "l \<le> u")
    case False
    with "1.prems" have "u = l - 1" "r = l" by (auto simp: event_search_loop.simps [of es key l u])
    with "1.prems" show ?thesis by auto
  next
    case True
    then have i: "l \<le> i" "i \<le> u" by (auto simp: i_def)
    have step: "event_search_loop es key l u =
        (if key = ev_time (es ! nat i) then i
         else if key < ev_time (es ! nat i) then event_search_loop es key l (i - 1)
         else event_search_loop es key (i + 1) u)"
      using True by (subst event_search_loop.simps) (simp add: Let_def i_def)
    from i have ni: "nat i < length es" "int (nat i) = i" using "1.prems"(2,4) by auto
    have below: "ev_at (es ! j) \<le> ev_at (es ! nat i)" if "int j \<le> i" for j
      using sorted [of j "nat i"] that ni by (cases "j = nat i") auto
    have above: "ev_at (es ! nat i) \<le> ev_at (es ! j)" if "i \<le> int j" "j < length es" for j
      using sorted [of "nat i" j] that ni by (cases "j = nat i") auto
    consider (eq) "key = ev_time (es ! nat i)" | (lt) "key < ev_time (es ! nat i)" | (gt) "key > ev_time (es ! nat i)"
      by linarith
    then show ?thesis
    proof cases
      case eq
      then have "r = i" using "1.prems"(7) step by simp
      then show ?thesis using eq ni i "1.prems"(2) by auto
    next
      case lt
      then have "event_search_loop es key l (i - 1) = r"
        using "1.prems"(7) step by simp
      moreover have "key < ev_time (es ! j)" if "i - 1 < int j" "j < length es" for j
        using lt above [of j] that by (simp add: order_less_le_trans)
      ultimately show ?thesis
        using "1.IH"(1) [OF True i_def refl] lt i "1.prems" by simp
    next
      case gt
      then have "event_search_loop es key (i + 1) u = r"
        using "1.prems"(7) step by simp
      moreover have "ev_time (es ! j) < key" if "int j < i + 1" for j
        using gt below [of j] that by (simp add: order_le_less_trans)
      ultimately show ?thesis
        using "1.IH"(2) [OF True i_def refl] gt i "1.prems" by simp
    qed
  qed
qed

lemma event_search_strict:
  assumes "sorted_wrt (\<lambda>a b. ev_at a < ev_at b) es"
  shows "event_search es key = int (length (takeWhile (\<lambda>e. ev_time e < key) es))"
proof -
  define r where "r = event_search es key"
  note less = sorted_wrt_iff_nth_less [THEN iffD1, OF assms, rule_format]
  have "sorted_wrt (\<lambda>a b. ev_at a \<le> ev_at b) es"
    by (rule sorted_wrt_mono_rel [OF _ assms]) simp
  from event_search_loop_spec [OF this, of 0 "int (length es) - 1" key r]
  have r: "0 \<le> r" "r \<le> int (length es)"
    "r < int (length es) \<and> ev_time (es ! nat r) = key \<or>
     (\<forall>j. int j < r \<longrightarrow> ev_time (es ! j) < key) \<and> (\<forall>j<length es. r \<le> int j \<longrightarrow> key < ev_time (es ! j))"
    by (simp_all add: r_def event_search_def)
  have "takeWhile (\<lambda>e. ev_time e < key) es = take (nat r) es"
  proof (rule takeWhile_eq_take_P_nth)
    fix j
    assume j: "j < nat r" "j < length es"
    show "ev_time (es ! j) < key"
      using r(3)
    proof
      assume "r < int (length es) \<and> ev_time (es ! nat r) = key"
      then have "nat r < length es" "key = ev_time (es ! nat r)" using r(1) by auto
      with less [of j "nat r"] j(1) show ?thesis by simp
    next
      assume "(\<forall>j. int j < r \<longrightarrow> ev_time (es ! j) < key) \<and> (\<forall>j<length es. r \<le> int j \<longrightarrow> key < ev_time (es ! j))"
      with j(1) show ?thesis by simp
    qed
  next
    assume "nat r < length es"
    with r show "\<not> ev_time (es ! nat r) < key" by (elim disjE) auto
  qed
  then show ?thesis using r(1,2) by (simp add: r_def [symmetric])
qed

lemma take_through:
  assumes "sorted_wrt (\<lambda>a b. ev_at a < ev_at b) es"
  shows "take (Suc (length (takeWhile (\<lambda>e. ev_time e < b) es))) es =
    filter (\<lambda>e. ev_time e \<le> b) es @
    (if list_ex (\<lambda>e. ev_time e = b) es then [] else take 1 (filter (\<lambda>e. b < ev_time e) es))"
  using assms
proof (induction es)
  case (Cons x es)
  have later: "ev_time x < ev_time y" if "y \<in> set es" for y using Cons.prems that by simp
  consider (before) "ev_time x < b" | (same) "ev_time x = b" | (after) "b < ev_time x" by linarith
  then show ?case
  proof cases
    case before
    then show ?thesis using Cons by simp
  next
    case same
    then have "filter (\<lambda>e. ev_time e \<le> b) es = []" using later by (auto simp: filter_empty_conv not_le)
    then show ?thesis using same by simp
  next
    case after
    then have b: "b < ev_time y" if "y \<in> set es" for y using later [OF that] by (rule order_less_trans)
    then have "filter (\<lambda>e. ev_time e \<le> b) es = []" by (auto simp: filter_empty_conv not_le)
    moreover have "\<not> list_ex (\<lambda>e. ev_time e = b) es" using b by (auto simp: list_ex_iff)
    ultimately show ?thesis using after by simp
  qed
qed simp

lemma slice_through:
  assumes "sorted_wrt (\<lambda>a b. ev_at a < ev_at b) es" and "a \<le> b"
  shows "py_slice (length (takeWhile (\<lambda>e. ev_time e < a) es)) (Suc (length (takeWhile (\<lambda>e. ev_time e < b) es))) es =
    filter (\<lambda>e. a \<le> ev_time e \<and> ev_time e \<le> b) es @
    (if list_ex (\<lambda>e. ev_time e = b) es then [] else take 1 (filter (\<lambda>e. b < ev_time e) es))"
  using assms(1)
proof (induction es)
  case (Cons x es)
  show ?case
  proof (cases "ev_time x < a")
    case True
    then show ?thesis using Cons assms(2) by (simp add: py_slice_def)
  next
    case False
    have later: "ev_time x < ev_time y" if "y \<in> set es" for y using Cons.prems that by simp
    have "a \<le> ev_time y" if "y \<in> set (x # es)" for y using that False later [of y] by (cases "y = x") auto
    then have "filter (\<lambda>e. a \<le> ev_time e \<and> ev_time e \<le> b) (x # es) = filter (\<lambda>e. ev_time e \<le> b) (x # es)"
      by (intro filter_cong) auto
    then show ?thesis
      using take_through [OF Cons.prems, of b] False by (simp add: py_slice_def)
  qed
qed (simp add: py_slice_def)

section \<open>Ranges that do not overlap\<close>

definition ranges_ok :: "data_range list \<Rightarrow> bool" where
  "ranges_ok rs = (list_all (\<lambda>r. dr_start r \<le> dr_end r) rs \<and> sorted_wrt (\<lambda>a b. dr_end a < dr_start b) rs)"

definition covered :: "data_range list \<Rightarrow> rat \<Rightarrow> bool" where
  "covered rs x = list_ex (\<lambda>r. dr_lo r \<le> x \<and> x \<le> dr_hi r) rs"

lemma ranges_ok_Cons:
  "ranges_ok (r # rs) \<longleftrightarrow> dr_start r \<le> dr_end r \<and> (\<forall>x \<in> set rs. dr_end r < dr_start x) \<and> ranges_ok rs"
  by (auto simp: ranges_ok_def)

lemma ranges_ok_nth:
  assumes "ranges_ok rs" and "i < length rs"
  shows "dr_lo (rs ! i) \<le> dr_hi (rs ! i)" and "j < i \<Longrightarrow> dr_hi (rs ! j) < dr_lo (rs ! i)"
  using assms sorted_wrt_iff_nth_less [of "\<lambda>a b. dr_end a < dr_start b" rs]
  by (auto simp: ranges_ok_def list_all_length)

lemma range_search_loop_spec:
  assumes "ranges_ok rs" and "0 \<le> l" and "l \<le> u + 1" and "u < int (length rs)"
    and "\<And>j. int j < l \<Longrightarrow> dr_hi (rs ! j) < key"
    and "\<And>j. u < int j \<Longrightarrow> j < length rs \<Longrightarrow> key < dr_lo (rs ! j)"
    and "range_search_loop rs key l u = r"
  shows "0 \<le> r \<and> r < int (length rs) \<and> dr_lo (rs ! nat r) \<le> key \<and> key \<le> dr_hi (rs ! nat r) \<or>
    r = -1 \<and> \<not> covered rs key"
  using assms
proof (induction rs key l u arbitrary: r rule: range_search_loop.induct)
  case (1 rs key l u)
  define i where "i = (l + u) div 2"
  show ?case
  proof (cases "l \<le> u")
    case False
    with "1.prems" have u: "u = l - 1" "r = -1" by (auto simp: range_search_loop.simps [of rs key l u])
    have "\<not> (dr_lo (rs ! j) \<le> key \<and> key \<le> dr_hi (rs ! j))" if "j < length rs" for j
      using "1.prems"(5) [of j] "1.prems"(6) [of j] that u by (cases "int j < l") (auto simp: not_le)
    then show ?thesis using u by (auto simp: covered_def list_ex_length)
  next
    case True
    then have i: "l \<le> i" "i \<le> u" by (auto simp: i_def)
    have step: "range_search_loop rs key l u =
        (if key \<ge> dr_lo (rs ! nat i) \<and> key \<le> dr_hi (rs ! nat i) then i
         else if key < dr_lo (rs ! nat i) then range_search_loop rs key l (i - 1)
         else range_search_loop rs key (i + 1) u)"
      using True by (subst range_search_loop.simps) (simp add: Let_def i_def)
    from i have ni: "nat i < length rs" "int (nat i) = i" using "1.prems"(2,4) by auto
    consider (eq) "key \<ge> dr_lo (rs ! nat i) \<and> key \<le> dr_hi (rs ! nat i)" | (lt) "key < dr_lo (rs ! nat i)"
      | (gt) "key > dr_hi (rs ! nat i)" "\<not> key < dr_lo (rs ! nat i)"
      by linarith
    then show ?thesis
    proof cases
      case eq
      then have "r = i" using "1.prems"(7) step by simp
      then show ?thesis using eq ni i "1.prems"(2) by auto
    next
      case lt
      then have "range_search_loop rs key l (i - 1) = r" using "1.prems"(7) step by simp
      moreover have "key < dr_lo (rs ! j)" if j: "i - 1 < int j" "j < length rs" for j
      proof (cases "j = nat i")
        case False
        then have "nat i < j" using j(1) ni by linarith
        from ranges_ok_nth [OF "1.prems"(1) j(2)] ranges_ok_nth(1) [OF "1.prems"(1) ni(1)] this lt show ?thesis by fastforce
      qed (simp add: lt)
      ultimately show ?thesis
        using "1.IH"(1) [OF True i_def refl] lt i "1.prems" by simp
    next
      case gt
      then have "range_search_loop rs key (i + 1) u = r" using "1.prems"(7) step by simp
      moreover have "dr_hi (rs ! j) < key" if j: "int j < i + 1" for j
      proof (cases "j = nat i")
        case False
        then have "j < nat i" using j ni by linarith
        from ranges_ok_nth(2) [OF "1.prems"(1) ni(1) this] ranges_ok_nth(1) [OF "1.prems"(1) ni(1)] gt show ?thesis by linarith
      qed (simp add: gt)
      ultimately show ?thesis
        using "1.IH"(2) [OF True i_def refl] gt i "1.prems" by simp
    qed
  qed
qed

abbreviation ended :: "rat \<Rightarrow> data_range list \<Rightarrow> nat" where
  "ended x rs \<equiv> length (takeWhile (\<lambda>r. dr_hi r < x) rs)"

lemma range_search_spec:
  assumes "ranges_ok rs"
  shows "range_search rs key = (if covered rs key then int (ended key rs) else -1)"
proof -
  define r where "r = range_search rs key"
  from range_search_loop_spec [OF assms, of 0 "int (length rs) - 1" key r]
  have "0 \<le> r \<and> r < int (length rs) \<and> dr_lo (rs ! nat r) \<le> key \<and> key \<le> dr_hi (rs ! nat r) \<or> r = -1 \<and> \<not> covered rs key"
    by (simp add: r_def range_search_def)
  then show ?thesis
  proof
    assume r: "0 \<le> r \<and> r < int (length rs) \<and> dr_lo (rs ! nat r) \<le> key \<and> key \<le> dr_hi (rs ! nat r)"
    then have n: "nat r < length rs" by auto
    have "takeWhile (\<lambda>r. dr_hi r < key) rs = take (nat r) rs"
    proof (rule takeWhile_eq_take_P_nth)
      fix j
      assume "j < nat r"
      then show "dr_hi (rs ! j) < key" using ranges_ok_nth(2) [OF assms n] r by fastforce
    qed (use r in auto)
    moreover have "covered rs key" using r n by (auto simp: covered_def list_ex_length)
    ultimately show ?thesis using r n by (simp add: r_def [symmetric])
  next
    assume "r = -1 \<and> \<not> covered rs key"
    then show ?thesis by (simp add: r_def [symmetric])
  qed
qed

lemma drop_ended:
  assumes "ranges_ok rs"
  shows "drop (ended a rs) rs = filter (\<lambda>r. a \<le> dr_hi r) rs"
  using assms
proof (induction rs)
  case (Cons x rs)
  then have x: "dr_hi x < dr_lo y" "dr_lo y \<le> dr_hi y" if "y \<in> set rs" for y
    using that by (auto simp: ranges_ok_Cons ranges_ok_def list_all_iff)
  show ?case
  proof (cases "dr_hi x < a")
    case True
    then show ?thesis using Cons by (simp add: ranges_ok_Cons)
  next
    case False
    then have "a \<le> dr_hi y" if "y \<in> set (x # rs)" for y using that x [of y] by (cases "y = x") auto
    then show ?thesis using False by simp
  qed
qed simp

lemma take_covered:
  assumes "ranges_ok rs" and "covered rs b"
  shows "take (Suc (ended b rs)) rs = filter (\<lambda>r. dr_lo r \<le> b) rs"
  using assms
proof (induction rs)
  case (Cons x rs)
  then have x: "dr_hi x < dr_lo y" if "y \<in> set rs" for y using that by (auto simp: ranges_ok_Cons)
  have "dr_lo x \<le> dr_hi x" using Cons.prems by (simp add: ranges_ok_Cons)
  show ?case
  proof (cases "dr_hi x < b")
    case True
    then have "covered rs b" using Cons.prems by (auto simp: covered_def)
    then show ?thesis using Cons True \<open>dr_lo x \<le> dr_hi x\<close> by (simp add: ranges_ok_Cons)
  next
    case False
    then have later: "b < dr_lo y" if "y \<in> set rs" for y using x [OF that] by linarith
    then have "\<not> covered rs b" by (auto simp: covered_def list_ex_iff dest!: later)
    then have "dr_lo x \<le> b" using Cons.prems(2) by (auto simp: covered_def)
    moreover have "filter (\<lambda>r. dr_lo r \<le> b) rs = []" using later by (auto simp: filter_empty_conv not_le)
    ultimately show ?thesis using False by simp
  qed
qed (simp add: covered_def)

lemma slice_covered:
  assumes "ranges_ok rs" and "covered rs b" and "a \<le> b"
  shows "py_slice (ended a rs) (Suc (ended b rs)) rs = filter (\<lambda>r. a \<le> dr_hi r \<and> dr_lo r \<le> b) rs"
  using assms(1,2)
proof (induction rs)
  case (Cons x rs)
  then have x: "dr_hi x < dr_lo y" "dr_lo y \<le> dr_hi y" if "y \<in> set rs" for y
    using that by (auto simp: ranges_ok_Cons ranges_ok_def list_all_iff)
  show ?case
  proof (cases "dr_hi x < a")
    case True
    then have "covered rs b" using Cons.prems assms(3) by (auto simp: covered_def)
    then show ?thesis using Cons True assms(3) by (simp add: ranges_ok_Cons py_slice_def)
  next
    case False
    then have "a \<le> dr_hi y" if "y \<in> set (x # rs)" for y using that x [of y] by (cases "y = x") auto
    then have "filter (\<lambda>r. a \<le> dr_hi r \<and> dr_lo r \<le> b) (x # rs) = filter (\<lambda>r. dr_lo r \<le> b) (x # rs)"
      by (intro filter_cong) auto
    then show ?thesis using take_covered [OF Cons.prems] False by (simp add: py_slice_def)
  qed
qed (simp add: covered_def)

section \<open>Named objects on lists\<close>

text \<open>
  The three kinds of data of a time line are lists of named objects, found by name and appended when
  missing. The contract of the record fields that carry them is an interface: what \<open>field\<close> holds
  after an update, and what a fresh object holds.
\<close>

definition named :: "('a \<Rightarrow> string) \<Rightarrow> string \<Rightarrow> 'a list \<Rightarrow> 'a option" where
  "named name_of nm xs = find (\<lambda>x. name_of x = nm) xs"

definition data_of :: "(timeline \<Rightarrow> 'a list) \<Rightarrow> ('a \<Rightarrow> string) \<Rightarrow> ('a \<Rightarrow> 'b list) \<Rightarrow> timeline list \<Rightarrow> string \<Rightarrow> string \<Rightarrow> 'b list" where
  "data_of get name_of data tls n m =
     (case named tl_name n tls of None \<Rightarrow> [] | Some t \<Rightarrow>
     (case named name_of m (get t) of None \<Rightarrow> [] | Some x \<Rightarrow> data x))"

lemma named_Nil [simp]: "named name_of k [] = None"
  by (simp add: named_def)

lemma named_at_name:
  assumes "\<And>n. name_of (new n) = n" and "\<And>x. name_of (f x) = name_of x"
  shows "named name_of k (at_name name_of new nm f xs) =
    (if k = nm then Some (f (case named name_of nm xs of None \<Rightarrow> new nm | Some x \<Rightarrow> x)) else named name_of k xs)"
  by (induction xs) (auto simp: named_def assms)

lemma named_map:
  assumes "\<And>x. name_of (f x) = name_of x"
  shows "named name_of k (map f xs) = map_option f (named name_of k xs)"
  by (induction xs) (auto simp: named_def assms)

lemma named_SomeD: "named name_of k xs = Some x \<Longrightarrow> x \<in> set xs \<and> name_of x = k"
  by (auto simp: named_def find_Some_iff)

lemma distinct_at_name:
  assumes "\<And>n. name_of (new n) = n" and "\<And>x. name_of (f x) = name_of x" and "distinct (map name_of xs)"
  shows "distinct (map name_of (at_name name_of new nm f xs)) \<and>
    set (map name_of (at_name name_of new nm f xs)) = insert nm (set (map name_of xs))"
  using assms(3)
proof (induction xs)
  case (Cons x xs)
  then show ?case by (auto simp: assms(1,2))
qed (simp add: assms(1,2))

locale named_data =
  fixes get :: "timeline \<Rightarrow> 'a list" and put :: "('a list \<Rightarrow> 'a list) \<Rightarrow> timeline \<Rightarrow> timeline"
    and name_of :: "'a \<Rightarrow> string" and new :: "string \<Rightarrow> 'a"
    and data :: "'a \<Rightarrow> 'b list" and put_data :: "('b list \<Rightarrow> 'b list) \<Rightarrow> 'a \<Rightarrow> 'a"
  assumes get_put: "get (put f t) = f (get t)"
    and name_put: "tl_name (put f t) = tl_name t"
    and get_fresh: "get (new_timeline nm) = []"
    and name_new: "name_of (new nm) = nm"
    and data_new: "data (new nm) = []"
    and data_put: "data (put_data g x) = g (data x)"
    and name_put_data: "name_of (put_data g x) = name_of x"
begin

lemma add_data:
  "data_of get name_of data (in_timeline t (put (at_name name_of new n (put_data (\<lambda>d. d @ [x])))) tls) k m =
     data_of get name_of data tls k m @ (if k = t \<and> m = n then [x] else [])"
proof -
  have tn: "named tl_name k (in_timeline t (put f) tls) =
      (if k = t then Some (put f (case named tl_name t tls of None \<Rightarrow> new_timeline t | Some y \<Rightarrow> y)) else named tl_name k tls)" for f
    unfolding in_timeline_def by (rule named_at_name) (simp_all add: name_put new_timeline_def)
  have dn: "named name_of m' (at_name name_of new n (put_data g) xs) =
      (if m' = n then Some (put_data g (case named name_of n xs of None \<Rightarrow> new n | Some y \<Rightarrow> y)) else named name_of m' xs)"
    for g xs m'
    by (rule named_at_name) (simp_all add: name_put_data name_new)
  show ?thesis
  proof (cases "named tl_name t tls")
    case None
    then show ?thesis by (simp add: data_of_def tn dn get_put get_fresh data_put data_new del: at_name.simps)
  next
    case (Some y)
    then show ?thesis
      by (cases "named name_of n (get y)") (simp_all add: data_of_def tn dn get_put data_put data_new del: at_name.simps)
  qed
qed

lemma other_data:
  assumes "\<And>t. get (f t) = get t" and "\<And>t. tl_name (f t) = tl_name t"
  shows "data_of get name_of data (in_timeline t f tls) k m = data_of get name_of data tls k m"
proof -
  have "named tl_name k (in_timeline t f tls) =
      (if k = t then Some (f (case named tl_name t tls of None \<Rightarrow> new_timeline t | Some y \<Rightarrow> y)) else named tl_name k tls)"
    unfolding in_timeline_def by (rule named_at_name) (simp_all add: assms new_timeline_def)
  then show ?thesis
    by (cases "named tl_name t tls") (simp_all add: data_of_def assms get_fresh)
qed

lemma map_data:
  assumes "\<And>t. get (f t) = map (put_data g) (get t)" and "\<And>t. tl_name (f t) = tl_name t" and "g [] = []"
  shows "data_of get name_of data (map f tls) k m = g (data_of get name_of data tls k m)"
proof -
  have "named name_of m (map (put_data g) xs) = map_option (put_data g) (named name_of m xs)" for xs
    by (rule named_map) (simp add: name_put_data)
  moreover have "named tl_name k (map f tls) = map_option f (named tl_name k tls)"
    by (rule named_map) (simp add: assms)
  ultimately show ?thesis
    by (auto simp: data_of_def assms data_put split: option.splits)
qed

end

interpretation rangesd: named_data tl_ranges tl_ranges_update tr_name new_timeline_data_range tr_ranges tr_ranges_update
  by unfold_locales (simp_all add: new_timeline_def new_timeline_data_range_def)

interpretation strsd: named_data tl_event_str tl_event_str_update te_name new_timeline_event te_events te_events_update
  by unfold_locales (simp_all add: new_timeline_def new_timeline_event_def)

interpretation intsd: named_data tl_event_int tl_event_int_update te_name new_timeline_event te_events te_events_update
  by unfold_locales (simp_all add: new_timeline_def new_timeline_event_def)

text \<open>What the file says about one name on one time line.\<close>

abbreviation ranges_of :: "timeline list \<Rightarrow> string \<Rightarrow> string \<Rightarrow> data_range list" where
  "ranges_of \<equiv> data_of tl_ranges tr_name tr_ranges"

abbreviation strs_of :: "timeline list \<Rightarrow> string \<Rightarrow> string \<Rightarrow> string event list" where
  "strs_of \<equiv> data_of tl_event_str te_name te_events"

abbreviation ints_of :: "timeline list \<Rightarrow> string \<Rightarrow> string \<Rightarrow> int event list" where
  "ints_of \<equiv> data_of tl_event_int te_name te_events"

definition entries :: "string list \<Rightarrow> entry list" where
  "entries lines = List.map_filter parse_entry lines"

definition file_ranges :: "string list \<Rightarrow> string \<Rightarrow> string \<Rightarrow> data_range list" where
  "file_ranges lines n m = List.map_filter
     (\<lambda>e. case e of RangeEntry t k v a b \<Rightarrow> if n = t \<and> m = k then Some \<lparr>dr_start = a, dr_end = b, dr_value = v\<rparr> else None
      | _ \<Rightarrow> None) (entries lines)"

definition file_strs :: "string list \<Rightarrow> string \<Rightarrow> string \<Rightarrow> string event list" where
  "file_strs lines n m = List.map_filter
     (\<lambda>e. case e of StringEvent t k v a \<Rightarrow> if n = t \<and> m = k then Some \<lparr>ev_at = a, ev_value = v\<rparr> else None
      | _ \<Rightarrow> None) (entries lines)"

definition file_ints :: "string list \<Rightarrow> string \<Rightarrow> string \<Rightarrow> int event list" where
  "file_ints lines n m = List.map_filter
     (\<lambda>e. case e of IntEvent t k v a \<Rightarrow> if n = t \<and> m = k then Some \<lparr>ev_at = a, ev_value = v\<rparr> else None
      | _ \<Rightarrow> None) (entries lines)"

lemma entries_Cons:
  "entries (line # lines) = (case parse_entry line of None \<Rightarrow> entries lines | Some e \<Rightarrow> e # entries lines)"
  by (simp add: entries_def List.map_filter_simps split: option.split)

lemma read_lines_entries: "foldl (read_line py) st lines = foldl (\<lambda>st e. add_entry py e st) st (entries lines)"
proof (induction lines arbitrary: st)
  case (Cons line lines)
  then show ?case by (cases "parse_entry line") (simp_all add: read_line_def entries_Cons)
qed (simp add: entries_def List.map_filter_simps)

lemma add_range_append: "add_range r = tr_ranges_update (\<lambda>d. d @ [r])"
  by (rule ext) (simp add: add_range_def)

lemma add_event_append: "add_event e = te_events_update (\<lambda>d. d @ [e])"
  by (rule ext) (simp add: add_event_def)

text \<open>Each step of the reader, as seen through the three tables.\<close>

lemma in_updates:
  "in_range n f = tl_ranges_update (at_name tr_name new_timeline_data_range n f)"
  "in_event_str n g = tl_event_str_update (at_name te_name new_timeline_event n g)"
  "in_event_int n h = tl_event_int_update (at_name te_name new_timeline_event n h)"
  by (simp_all add: fun_eq_iff in_range_def in_event_str_def in_event_int_def)

lemma step_ranges:
  "ranges_of (snd (add_entry py e st)) n m = ranges_of (snd st) n m @
     (case e of RangeEntry t k v a b \<Rightarrow> if n = t \<and> m = k then [\<lparr>dr_start = a, dr_end = b, dr_value = v\<rparr>] else [] | _ \<Rightarrow> [])"
  by (cases e)
    (simp_all add: in_updates add_range_append rangesd.add_data new_data_range_def rangesd.other_data)

lemma step_strs:
  "strs_of (snd (add_entry py e st)) n m = strs_of (snd st) n m @
     (case e of StringEvent t k v a \<Rightarrow> if n = t \<and> m = k then [\<lparr>ev_at = a, ev_value = v\<rparr>] else [] | _ \<Rightarrow> [])"
  by (cases e) (simp_all add: in_updates add_event_append strsd.add_data strsd.other_data)

lemma step_ints:
  "ints_of (snd (add_entry py e st)) n m = ints_of (snd st) n m @
     (case e of IntEvent t k v a \<Rightarrow> if n = t \<and> m = k then [\<lparr>ev_at = a, ev_value = v\<rparr>] else [] | _ \<Rightarrow> [])"
  by (cases e) (simp_all add: in_updates add_event_append intsd.add_data intsd.other_data)

lemma foldl_step:
  assumes "\<And>st e. q (f st e) = q st @ (case g e of None \<Rightarrow> [] | Some x \<Rightarrow> [x])"
  shows "q (foldl f st es) = q st @ List.map_filter g es"
  by (induction es arbitrary: st) (auto simp: assms List.map_filter_simps split: option.split)

lemma read_ranges: "ranges_of (snd (foldl (read_line py) st lines)) n m = ranges_of (snd st) n m @ file_ranges lines n m"
  unfolding read_lines_entries file_ranges_def
  by (rule foldl_step) (simp add: step_ranges split: entry.split)

lemma read_strs: "strs_of (snd (foldl (read_line py) st lines)) n m = strs_of (snd st) n m @ file_strs lines n m"
  unfolding read_lines_entries file_strs_def
  by (rule foldl_step) (simp add: step_strs split: entry.split)

lemma read_ints: "ints_of (snd (foldl (read_line py) st lines)) n m = ints_of (snd st) n m @ file_ints lines n m"
  unfolding read_lines_entries file_ints_def
  by (rule foldl_step) (simp add: step_ints split: entry.split)

definition sorted_timeline :: "timeline \<Rightarrow> timeline" where
  "sorted_timeline t =
     t\<lparr>tl_ranges := map (tr_ranges_update (sort_key dr_start)) (tl_ranges t),
       tl_event_str := map (te_events_update (sort_key ev_at)) (tl_event_str t),
       tl_event_int := map (te_events_update (sort_key ev_at)) (tl_event_int t)\<rparr>"

lemma py_cmp_sort_key:
  assumes "\<And>a b. cmp a b \<le> 0 \<longleftrightarrow> key a \<le> (key b :: int)"
  shows "py_cmp_sort Py2 cmp xs = Inr (sort_key key xs)"
proof -
  have "insert_cmp cmp x ys = insort_key key x ys" for x ys by (induction ys) (simp_all add: assms)
  then have "insert_cmp cmp = insort_key key" by (intro ext)
  then show ?thesis by (simp add: py_cmp_sort_def sort_key_def)
qed

lemma ranges_cmp_start: "ranges_cmp a b \<le> 0 \<longleftrightarrow> dr_start a \<le> dr_start b"
  by (simp add: ranges_cmp_def)

lemma events_cmp_at: "events_cmp a b \<le> 0 \<longleftrightarrow> ev_at a \<le> ev_at b"
  by (simp add: events_cmp_def)

lemmas cmp_sorts = py_cmp_sort_key [where cmp = ranges_cmp, OF ranges_cmp_start]
  py_cmp_sort_key [where cmp = events_cmp, OF events_cmp_at]

lemma sort_ranges_py2: "mapE (sort_ranges Py2) rs = Inr (map (tr_ranges_update (sort_key dr_start)) rs)"
  by (rule mapE_all_Inr) (simp add: sort_ranges_def cmp_sorts)

lemma sort_events_py2: "mapE (sort_events Py2) es = Inr (map (te_events_update (sort_key ev_at)) es)"
  by (rule mapE_all_Inr) (simp add: sort_events_def cmp_sorts)

lemma sort_timeline_py2: "sort_timeline Py2 t = Inr (sorted_timeline t)"
  by (simp add: sort_timeline_def sorted_timeline_def sort_ranges_py2 sort_events_py2)

lemma read_data_py2:
  "read_data Py2 lines = (let st = foldl (read_line Py2) (new_colors, []) lines in Inr (fst st, map sorted_timeline (snd st)))"
proof -
  have "sort_timelines Py2 tls = Inr (map sorted_timeline tls)" for tls
    unfolding sort_timelines_def by (rule mapE_all_Inr) (rule sort_timeline_py2)
  then show ?thesis by (simp add: read_data_def Let_def)
qed

lemma data_of_Nil: "data_of get name_of data [] n m = []"
  by (simp add: data_of_def)

lemma read_tables:
  assumes "read_data Py2 lines = Inr (cs, tls)"
  shows "ranges_of tls n m = sort_key dr_start (file_ranges lines n m)"
    and "strs_of tls n m = sort_key ev_at (file_strs lines n m)"
    and "ints_of tls n m = sort_key ev_at (file_ints lines n m)"
proof -
  define st where "st = foldl (read_line Py2) (new_colors, []) lines"
  have tls: "tls = map sorted_timeline (snd st)" using assms by (simp add: read_data_py2 st_def Let_def)
  have "ranges_of tls n m = sort_key dr_start (ranges_of (snd st) n m)"
    unfolding tls by (rule rangesd.map_data) (simp_all add: sorted_timeline_def)
  then show "ranges_of tls n m = sort_key dr_start (file_ranges lines n m)"
    by (simp add: st_def read_ranges data_of_Nil)
  have "strs_of tls n m = sort_key ev_at (strs_of (snd st) n m)"
    unfolding tls by (rule strsd.map_data) (simp_all add: sorted_timeline_def)
  then show "strs_of tls n m = sort_key ev_at (file_strs lines n m)"
    by (simp add: st_def read_strs data_of_Nil)
  have "ints_of tls n m = sort_key ev_at (ints_of (snd st) n m)"
    unfolding tls by (rule intsd.map_data) (simp_all add: sorted_timeline_def)
  then show "ints_of tls n m = sort_key ev_at (file_ints lines n m)"
    by (simp add: st_def read_ints data_of_Nil)
qed

section \<open>Python 3\<close>

lemma at_name_not_Nil [simp]: "at_name name_of new nm f xs \<noteq> []"
  by (cases xs) simp_all

lemma list_all_at_name: "list_all P xs \<Longrightarrow> (\<And>x. P (f x)) \<Longrightarrow> list_all P (at_name name_of new nm f xs)"
  by (induction xs) auto

definition has_data :: "timeline \<Rightarrow> bool" where
  "has_data t = (tl_ranges t \<noteq> [] \<or> tl_event_str t \<noteq> [] \<or> tl_event_int t \<noteq> [])"

definition is_data :: "entry \<Rightarrow> bool" where
  "is_data e = (case e of ColorEntry _ _ _ _ \<Rightarrow> False | _ \<Rightarrow> True)"

lemma add_entry_data:
  "list_all has_data (snd st) \<Longrightarrow> list_all has_data (snd (add_entry py e st))"
  "snd (add_entry py e st) = [] \<longleftrightarrow> snd st = [] \<and> \<not> is_data e"
  by (cases e; simp add: in_timeline_def in_updates has_data_def list_all_at_name is_data_def)+

lemma add_entries_data:
  "list_all has_data (snd st) \<Longrightarrow>
     list_all has_data (snd (foldl (\<lambda>st e. add_entry py e st) st es)) \<and>
     (snd (foldl (\<lambda>st e. add_entry py e st) st es) = [] \<longleftrightarrow> snd st = [] \<and> \<not> list_ex is_data es)"
  by (induction es arbitrary: st) (auto simp: add_entry_data)

lemma sort_timeline_py3: "has_data t \<Longrightarrow> sort_timeline Py3 t = Inl TypeError"
proof -
  have r: "mapE (sort_ranges Py3) rs = (if rs = [] then Inr [] else Inl TypeError)" for rs
    by (cases rs) (simp_all add: sort_ranges_def py_cmp_sort_def)
  have i: "mapE (sort_events Py3) es = (if es = [] then Inr [] else Inl TypeError)" for es :: "int timeline_event list"
    by (cases es) (simp_all add: sort_events_def py_cmp_sort_def)
  have s: "mapE (sort_events Py3) es = (if es = [] then Inr [] else Inl TypeError)" for es :: "string timeline_event list"
    by (cases es) (simp_all add: sort_events_def py_cmp_sort_def)
  show "has_data t \<Longrightarrow> sort_timeline Py3 t = Inl TypeError"
    by (cases "tl_ranges t = []"; cases "tl_event_int t = []"; cases "tl_event_str t = []")
      (simp_all add: sort_timeline_def r i s has_data_def)
qed

lemma read_data_py3:
  "read_data Py3 lines = (if list_ex is_data (entries lines) then Inl TypeError
     else Inr (fst (foldl (read_line Py3) (new_colors, []) lines), []))"
proof -
  define tls where "tls = snd (foldl (read_line Py3) (new_colors, []) lines)"
  have t: "list_all has_data tls" "tls = [] \<longleftrightarrow> \<not> list_ex is_data (entries lines)"
    using add_entries_data [of "(new_colors, [])" Py3 "entries lines"] by (simp_all add: tls_def read_lines_entries)
  show ?thesis
  proof (cases tls)
    case Nil
    then show ?thesis using t by (simp add: read_data_def sort_timelines_def tls_def [symmetric] Let_def)
  next
    case (Cons x xs)
    then have "sort_timelines Py3 tls = Inl TypeError"
      using t(1) by (simp add: sort_timelines_def sort_timeline_py3)
    then show ?thesis using t Cons by (simp add: read_data_def tls_def [symmetric] Let_def)
  qed
qed

section \<open>Bounds\<close>

lemma foldl_widen:
  "fst (foldl (\<lambda>b x. widen b (g x)) b xs) \<le> fst b \<and> snd b \<le> snd (foldl (\<lambda>b x. widen b (g x)) b xs) \<and>
   (\<forall>x \<in> set xs. fst (foldl (\<lambda>b x. widen b (g x)) b xs) \<le> fst (g x) \<and> snd (g x) \<le> snd (foldl (\<lambda>b x. widen b (g x)) b xs))"
proof (induction xs arbitrary: b)
  case (Cons x xs)
  have "fst (widen b (g x)) \<le> fst b" "snd b \<le> snd (widen b (g x))"
    "fst (widen b (g x)) \<le> fst (g x)" "snd (g x) \<le> snd (widen b (g x))"
    by (auto simp: widen_def split: prod.splits)
  with Cons.IH [of "widen b (g x)"] show ?case by auto
qed simp

definition inside_of :: "int \<times> int \<Rightarrow> int \<times> int \<Rightarrow> bool" where
  "inside_of a b = (fst b \<le> fst a \<and> snd a \<le> snd b)"

lemma inside_trans: "inside_of a b \<Longrightarrow> inside_of b c \<Longrightarrow> inside_of a c"
  by (auto simp: inside_of_def)

lemma foldl_widen_inside:
  "inside_of b (foldl (\<lambda>b x. widen b (g x)) b xs)"
  "x \<in> set xs \<Longrightarrow> inside_of (g x) (foldl (\<lambda>b x. widen b (g x)) b xs)"
  using foldl_widen [where g = g and b = b and xs = xs] by (simp_all add: inside_of_def)

lemma timeline_bounds_inside:
  "r \<in> set (tl_ranges t) \<Longrightarrow> inside_of (range_bounds r) (timeline_bounds t)"
  "s \<in> set (tl_event_str t) \<Longrightarrow> inside_of (event_bounds s) (timeline_bounds t)"
  "i \<in> set (tl_event_int t) \<Longrightarrow> inside_of (event_bounds i) (timeline_bounds t)"
  unfolding timeline_bounds_def Let_def
  by (rule inside_trans, erule foldl_widen_inside(2), rule inside_trans, rule foldl_widen_inside(1), rule foldl_widen_inside(1))
    (rule inside_trans, erule foldl_widen_inside(2), rule foldl_widen_inside(1), erule foldl_widen_inside(2))

lemma timelines_bounds_inside: "t \<in> set tls \<Longrightarrow> inside_of (timeline_bounds t) (timelines_bounds tls)"
  unfolding timelines_bounds_def by (rule foldl_widen_inside(2))

lemma event_bounds_inside:
  assumes "sorted (map ev_at (te_events s))" and "e \<in> set (te_events s)"
  shows "inside_of (ev_at e, ev_at e) (event_bounds s)"
proof -
  obtain k where k: "k < length (te_events s)" "te_events s ! k = e" using assms(2) by (auto simp: in_set_conv_nth)
  then have ne: "te_events s \<noteq> []" by auto
  have "map ev_at (te_events s) ! 0 \<le> map ev_at (te_events s) ! k"
    using assms(1) k(1) by (intro sorted_nth_mono) auto
  moreover have "map ev_at (te_events s) ! k \<le> map ev_at (te_events s) ! (length (te_events s) - 1)"
    using assms(1) k(1) by (intro sorted_nth_mono) auto
  ultimately show ?thesis using k ne by (simp add: inside_of_def event_bounds_def last_conv_nth)
qed

lemma range_bounds_inside:
  assumes "ranges_ok (tr_ranges t)" and "r \<in> set (tr_ranges t)"
  shows "inside_of (dr_start r, dr_end r) (range_bounds t)"
proof -
  obtain k where k: "k < length (tr_ranges t)" "tr_ranges t ! k = r" using assms(2) by (auto simp: in_set_conv_nth)
  let ?n = "length (tr_ranges t) - 1"
  have n: "?n < length (tr_ranges t)" using k by simp
  have le: "dr_start (tr_ranges t ! j) \<le> dr_end (tr_ranges t ! j)" if "j < length (tr_ranges t)" for j
    using ranges_ok_nth(1) [OF assms(1) that] by simp
  have "dr_start (tr_ranges t ! 0) \<le> dr_start r"
  proof (cases "k = 0")
    case False
    then have "dr_end (tr_ranges t ! 0) < dr_start (tr_ranges t ! k)" using ranges_ok_nth(2) [OF assms(1) k(1), of 0] by simp
    with le [of 0] k show ?thesis by fastforce
  qed (use k in simp)
  moreover have "dr_end r \<le> dr_end (tr_ranges t ! ?n)"
  proof (cases "k = ?n")
    case False
    then have "dr_end (tr_ranges t ! k) < dr_start (tr_ranges t ! ?n)" using ranges_ok_nth(2) [OF assms(1) n, of k] k by simp
    with le [OF n] k show ?thesis by simp
  qed (use k in simp)
  ultimately show ?thesis using k by (auto simp: inside_of_def range_bounds_def)
qed

lemma data_of_member:
  "data_of get name_of data tls n m = [] \<or>
   (\<exists>t \<in> set tls. \<exists>x \<in> set (get t). data_of get name_of data tls n m = data x)"
proof (cases "named tl_name n tls")
  case (Some t)
  then show ?thesis
    by (cases "named name_of m (get t)") (auto simp: data_of_def dest: named_SomeD)
qed (simp add: data_of_def)

lemma events_inside:
  assumes "sorted (map ev_at (data_of get te_name te_events tls n m))"
    and "\<And>t s. s \<in> set (get t) \<Longrightarrow> inside_of (event_bounds s) (timeline_bounds t)" and "timelines_bounds tls = (lo, hi)"
  shows "list_all (\<lambda>e. lo \<le> ev_at e \<and> ev_at e \<le> hi) (data_of get te_name te_events tls n m)"
  using data_of_member [of get te_name te_events tls n m]
proof
  assume "\<exists>t \<in> set tls. \<exists>x \<in> set (get t). data_of get te_name te_events tls n m = te_events x"
  then obtain t s where t: "t \<in> set tls" "s \<in> set (get t)" and d: "data_of get te_name te_events tls n m = te_events s" by blast
  have "inside_of (ev_at e, ev_at e) (lo, hi)" if "e \<in> set (te_events s)" for e
    using inside_trans [OF inside_trans [OF event_bounds_inside [OF _ that] assms(2) [OF t(2)]] timelines_bounds_inside [OF t(1)]]
      assms(1,3) d by simp
  then show ?thesis by (simp add: d list_all_iff inside_of_def)
qed simp

lemma ranges_inside:
  assumes "ranges_ok (ranges_of tls n m)" and "timelines_bounds tls = (lo, hi)"
  shows "list_all (\<lambda>r. lo \<le> dr_start r \<and> dr_end r \<le> hi) (ranges_of tls n m)"
  using data_of_member [of tl_ranges tr_name tr_ranges tls n m]
proof
  assume "\<exists>t \<in> set tls. \<exists>x \<in> set (tl_ranges t). ranges_of tls n m = tr_ranges x"
  then obtain t s where t: "t \<in> set tls" "s \<in> set (tl_ranges t)" and d: "ranges_of tls n m = tr_ranges s" by blast
  have "inside_of (dr_start e, dr_end e) (lo, hi)" if "e \<in> set (tr_ranges s)" for e
    using inside_trans [OF inside_trans [OF range_bounds_inside [OF _ that] timeline_bounds_inside(1) [OF t(2)]]
      timelines_bounds_inside [OF t(1)]] assms d by simp
  then show ?thesis by (simp add: d list_all_iff inside_of_def)
qed simp

section \<open>Colours of the legend\<close>

lemma dict_in_add: "dict_in k (dict_set n c d) \<longleftrightarrow> k = n \<or> dict_in k d"
  by (simp add: dict_in_def dict_get_set)

lemma legend_colors_py2:
  assumes "distinct vs"
  shows "case legend_colors Py2 vs cs of
      Inl e \<Rightarrow> e = IndexError \<and> length (co_defaults cs) < length (filter (\<lambda>v. \<not> dict_in v (co_colors cs)) vs)
    | Inr (l, cs') \<Rightarrow> length l = length vs \<and> None \<notin> set l \<and>
        length (filter (\<lambda>v. \<not> dict_in v (co_colors cs)) vs) \<le> length (co_defaults cs)"
  using assms
proof (induction vs arbitrary: cs)
  case (Cons v vs)
  define new where "new = (\<lambda>c :: colors. filter (\<lambda>v. \<not> dict_in v (co_colors c)) vs)"
  show ?case
  proof (cases "dict_in v (co_colors cs)")
    case True
    then obtain c where "dict_get (co_colors cs) v = Some c" by (auto simp: dict_in_def)
    moreover have "case legend_colors Py2 vs cs of
        Inl e \<Rightarrow> e = IndexError \<and> length (co_defaults cs) < length (new cs)
      | Inr (l, cs') \<Rightarrow> length l = length vs \<and> None \<notin> set l \<and> length (new cs) \<le> length (co_defaults cs)"
      unfolding new_def using Cons by simp
    ultimately show ?thesis
      using True by (cases "legend_colors Py2 vs cs") (auto simp: lookup_color_def new_def)
  next
    case False
    show ?thesis
    proof (cases "co_defaults cs = []")
      case True
      then show ?thesis using False by (simp add: lookup_color_def)
    next
      case ne: False
      define cs1 where "cs1 = add_color v (last (co_defaults cs)) (cs\<lparr>co_defaults := butlast (co_defaults cs)\<rparr>)"
      have look: "lookup_color Py2 v cs = Inr (Some (last (co_defaults cs)), cs1)"
        using False ne by (simp add: lookup_color_def cs1_def add_color_def dict_get_set)
      have "filter (\<lambda>v. \<not> dict_in v (co_colors cs1)) vs = filter (\<lambda>v. \<not> dict_in v (co_colors cs)) vs"
        using Cons.prems by (intro filter_cong) (auto simp: cs1_def add_color_def dict_in_add)
      moreover have "length (co_defaults cs) = Suc (length (co_defaults cs1))"
        using ne by (simp add: cs1_def add_color_def)
      moreover have "distinct vs" using Cons.prems by simp
      ultimately show ?thesis
        using Cons.IH [of cs1] False by (cases "legend_colors Py2 vs cs1") (auto simp: look)
    qed
  qed
qed simp

definition entry_range :: "entry \<Rightarrow> data_range option" where
  "entry_range e = (case e of RangeEntry t k v a b \<Rightarrow> Some \<lparr>dr_start = a, dr_end = b, dr_value = v\<rparr> | _ \<Rightarrow> None)"

definition file_values :: "string list \<Rightarrow> string list" where
  "file_values lines = map dr_value (List.map_filter entry_range (entries lines))"

definition file_colors :: "string list \<Rightarrow> string list" where
  "file_colors lines = List.map_filter (\<lambda>e. case e of ColorEntry n r g b \<Rightarrow> Some n | _ \<Rightarrow> None) (entries lines)"

lemma mset_concat_at_name:
  assumes "q (new nm) = []" and "\<And>x. mset (q (f x)) = mset (q x) + M"
  shows "mset (concat (map q (at_name name_of new nm f xs))) = mset (concat (map q xs)) + M"
  by (induction xs) (auto simp: assms)

text \<open>Values are only moved around: the ranges on the time lines are those of the file.\<close>

definition timeline_values :: "timeline \<Rightarrow> data_range list" where
  "timeline_values t = concat (map tr_ranges (tl_ranges t))"

lemma add_entry_values:
  "mset (concat (map timeline_values (snd (add_entry py e st)))) = mset (concat (map timeline_values (snd st))) +
     (case entry_range e of None \<Rightarrow> {#} | Some r \<Rightarrow> {#r#})"
proof (cases e)
  case (RangeEntry t k v a b)
  let ?r = "\<lparr>dr_start = a, dr_end = b, dr_value = v\<rparr>"
  have "mset (timeline_values (in_range k (add_range ?r) x)) = mset (timeline_values x) + {#?r#}" for x
    by (simp add: timeline_values_def in_updates mset_concat_at_name [where M = "{#?r#}"] new_timeline_data_range_def
        add_range_append)
  then show ?thesis
    using RangeEntry
    by (simp add: in_timeline_def mset_concat_at_name [where M = "{#?r#}"] timeline_values_def new_timeline_def
        new_data_range_def entry_range_def)
next
  case (StringEvent t k v a)
  have "timeline_values (in_event_str k f x) = timeline_values x" for f x by (simp add: timeline_values_def in_updates)
  then show ?thesis
    using StringEvent by (simp add: in_timeline_def mset_concat_at_name [where M = "{#}"] timeline_values_def new_timeline_def entry_range_def)
next
  case (IntEvent t k v a)
  have "timeline_values (in_event_int k f x) = timeline_values x" for f x by (simp add: timeline_values_def in_updates)
  then show ?thesis
    using IntEvent by (simp add: in_timeline_def mset_concat_at_name [where M = "{#}"] timeline_values_def new_timeline_def entry_range_def)
qed (simp add: entry_range_def)

lemma add_entries_values:
  "mset (concat (map timeline_values (snd (foldl (\<lambda>st e. add_entry py e st) st es)))) =
     mset (concat (map timeline_values (snd st))) + mset (List.map_filter entry_range es)"
proof (induction es arbitrary: st)
  case (Cons e es)
  then show ?case
    by (cases "entry_range e") (simp_all add: add_entry_values List.map_filter_simps del: add_entry.simps)
qed (simp add: List.map_filter_simps)

lemma sorted_values: "set (timeline_values (sorted_timeline t)) = set (timeline_values t)"
  by (auto simp: timeline_values_def sorted_timeline_def)

lemma read_values:
  assumes "read_data Py2 lines = Inr (cs, tls)"
  shows "dr_value ` (\<Union>t \<in> set tls. set (timeline_values t)) = set (file_values lines)"
proof -
  define st where "st = foldl (\<lambda>st e. add_entry Py2 e st) (new_colors, []) (entries lines)"
  have tls: "tls = map sorted_timeline (snd st)" using assms by (simp add: read_data_py2 st_def read_lines_entries Let_def)
  have "set (concat (map timeline_values (snd st))) = set (List.map_filter entry_range (entries lines))"
    using arg_cong [OF add_entries_values [of Py2 "(new_colors, [])" "entries lines"], of set_mset] by (simp add: st_def)
  then show ?thesis by (simp add: tls sorted_values file_values_def image_Union [symmetric])
qed

lemma dict_set_set_keys: "set (dict_keys (dict_set k v d)) = insert k (set (dict_keys d))"
  by (auto simp: dict_keys_def dict_set_def dom_map_of_conv_image_fst [symmetric] update_conv')

lemma dict_set_distinct_keys: "distinct (dict_keys d) \<Longrightarrow> distinct (dict_keys (dict_set k v d))"
  by (simp add: dict_keys_def dict_set_def distinct_update)

lemma all_range_values_keys:
  assumes "\<And>xs. mset (key_order xs) = mset xs"
  shows "set (all_range_values key_order tls) = dr_value ` (\<Union>t \<in> set tls. set (timeline_values t)) \<and>
    distinct (all_range_values key_order tls)"
proof -
  let ?f = "\<lambda>d r. dict_set (dr_value r) (1 :: nat) d"
  have keys: "set (dict_keys (foldl ?f d rs)) = set (dict_keys d) \<union> dr_value ` set rs \<and>
      (distinct (dict_keys d) \<longrightarrow> distinct (dict_keys (foldl ?f d rs)))" for d rs
    by (induction rs arbitrary: d) (auto simp: dict_set_set_keys dict_set_distinct_keys)
  have ko: "set (key_order xs) = set xs" "distinct (key_order xs) = distinct xs" for xs
    using assms [of xs] by (metis set_mset_mset, metis mset_eq_imp_distinct_iff)
  show ?thesis
    using keys [of "[]" "concat (map timeline_values tls)"]
    by (simp add: all_range_values_def ko timeline_values_def [abs_def] dict_keys_def image_Union)
qed

lemma add_entries_colors:
  "co_defaults (fst (foldl (\<lambda>st e. add_entry py e st) st es)) = co_defaults (fst st) \<and>
   (dict_in k (co_colors (fst (foldl (\<lambda>st e. add_entry py e st) st es))) \<longleftrightarrow> dict_in k (co_colors (fst st)) \<or>
     k \<in> set (List.map_filter (\<lambda>e. case e of ColorEntry n r g b \<Rightarrow> Some n | _ \<Rightarrow> None) es))"
proof (induction es arbitrary: st)
  case (Cons e es)
  then show ?case by (cases e) (auto simp: add_color_def dict_in_add List.map_filter_simps)
qed (simp add: List.map_filter_simps)

lemma read_colors:
  assumes "read_data Py2 lines = Inr (cs, tls)"
  shows "length (co_defaults cs) = 6" and "dict_in k (co_colors cs) \<longleftrightarrow> k \<in> set (file_colors lines)"
  using assms add_entries_colors [of Py2 "(new_colors, [])" "entries lines" k]
  by (auto simp: read_data_py2 read_lines_entries Let_def new_colors_def default_colors_def file_colors_def dict_in_def dict_get_def)

section \<open>Lines of the file\<close>

definition hex_char :: "nat \<Rightarrow> char" where
  "hex_char n = ''0123456789abcdef'' ! n"

definition hex2 :: "int \<Rightarrow> string" where
  "hex2 n = [hex_char (nat n div 16), hex_char (nat n mod 16)]"

primrec render_entry :: "entry \<Rightarrow> string" where
  "render_entry (RangeEntry t n v a b) =
     ''range '' @ t @ CHR '' '' # n @ CHR '' '' # v @ CHR '' '' # show_nat (nat a) @ CHR '' '' # show_nat (nat b) @ [newline]"
| "render_entry (StringEvent t n v a) =
     ''event-str '' @ t @ CHR '' '' # n @ CHR '' '' # v @ CHR '' '' # show_nat (nat a) @ [newline]"
| "render_entry (IntEvent t n v a) =
     ''event-int '' @ t @ CHR '' '' # n @ CHR '' '' # show_nat (nat v) @ CHR '' '' # show_nat (nat a) @ [newline]"
| "render_entry (ColorEntry n r g b) =
     ''color '' @ n @ CHR '' '' # CHR ''#'' # hex2 r @ hex2 g @ hex2 b @ [newline]"

definition word_ok :: "string \<Rightarrow> bool" where
  "word_ok s = (s \<noteq> [] \<and> CHR '' '' \<notin> set s)"

primrec entry_ok :: "entry \<Rightarrow> bool" where
  "entry_ok (RangeEntry t n v a b) = (word_ok t \<and> word_ok n \<and> word_ok v \<and> 0 \<le> a \<and> 0 \<le> b)"
| "entry_ok (StringEvent t n v a) = (word_ok t \<and> word_ok n \<and> word_ok v \<and> 0 \<le> a)"
| "entry_ok (IntEvent t n v a) = (word_ok t \<and> word_ok n \<and> 0 \<le> v \<and> 0 \<le> a)"
| "entry_ok (ColorEntry n r g b) = (word_ok n \<and> 0 \<le> r \<and> r < 256 \<and> 0 \<le> g \<and> g < 256 \<and> 0 \<le> b \<and> b < 256)"

lemma field_word: "word_ok a \<Longrightarrow> field (a @ CHR '' '' # r) = Some (a, r)"
proof -
  assume a: "word_ok a"
  then have "\<And>c. c \<in> set a \<Longrightarrow> c \<noteq> CHR '' ''" by (auto simp: word_ok_def)
  then have "takeWhile (\<lambda>c. c \<noteq> CHR '' '') (a @ CHR '' '' # r) = a" "dropWhile (\<lambda>c. c \<noteq> CHR '' '') (a @ CHR '' '' # r) = CHR '' '' # r"
    by (simp_all add: takeWhile_append dropWhile_append)
  then show ?thesis using a by (simp add: field_def word_ok_def)
qed

lemma number_field_show: "number_field (show_nat n @ CHR '' '' # r) = Some (int n, r)"
proof -
  have "word_ok (show_nat n)" by (simp add: word_ok_def show_nat_no_char)
  then show ?thesis by (simp add: number_field_def field_word)
qed

lemma last_number_show: "last_number (show_nat n @ [newline]) = Some (int n)"
proof -
  have "takeWhile is_digit (show_nat n @ [newline]) = show_nat n"
    using show_nat_digits [of n] by (simp add: takeWhile_append list_all_iff)
  then show ?thesis by (simp add: last_number_def Let_def)
qed

lemma hex_char_props:
  assumes "d < 16"
  shows "radix_digit (hex_char d) = Some d" and "\<not> py_space (hex_char d)"
    and "hex_char d \<notin> {CHR ''-'', CHR ''+'', CHR ''_''}" and "char_lower (hex_char d) \<noteq> CHR ''x''"
proof -
  have all: "list_all (\<lambda>d. radix_digit (hex_char d) = Some d \<and> \<not> py_space (hex_char d) \<and>
      hex_char d \<noteq> CHR ''-'' \<and> hex_char d \<noteq> CHR ''+'' \<and> hex_char d \<noteq> CHR ''_'' \<and> char_lower (hex_char d) \<noteq> CHR ''x'')
      [0..<16]"
    by code_simp
  have "d \<in> set [0..<16]" using assms by simp
  with all have "radix_digit (hex_char d) = Some d \<and> \<not> py_space (hex_char d) \<and>
      hex_char d \<noteq> CHR ''-'' \<and> hex_char d \<noteq> CHR ''+'' \<and> hex_char d \<noteq> CHR ''_'' \<and> char_lower (hex_char d) \<noteq> CHR ''x''"
    unfolding list_all_iff by (rule bspec)
  then show "radix_digit (hex_char d) = Some d" "\<not> py_space (hex_char d)"
    "hex_char d \<notin> {CHR ''-'', CHR ''+'', CHR ''_''}" "char_lower (hex_char d) \<noteq> CHR ''x''" by simp_all
qed

lemma hex_pair_chars:
  assumes "a < 16" and "b < 16"
  shows "hex_pair [hex_char a, hex_char b] = Some (int (16 * a + b))"
proof -
  have strip: "py_strip [hex_char a, hex_char b] = [hex_char a, hex_char b]"
    by (rule py_strip_id) (simp_all add: hex_char_props assms)
  have split: "py_split CHR ''_'' [hex_char a, hex_char b] = [[hex_char a, hex_char b]]"
    by (rule py_split_no_sep) (use hex_char_props(3) [OF assms(1)] hex_char_props(3) [OF assms(2)] in auto)
  have "CHR ''-'' \<noteq> hex_char a" "CHR ''+'' \<noteq> hex_char a"
    using hex_char_props(3) [OF assms(1)] by auto
  then show ?thesis
    using assms hex_char_props(4) [OF assms(2)]
    by (simp add: hex_pair_def py_int_def strip split hex_char_props(1) Let_def del: py_split.simps)
qed

lemma hex_pair_hex2: "0 \<le> n \<Longrightarrow> n < 256 \<Longrightarrow> hex_pair (hex2 n) = Some n"
  using hex_pair_chars [of "nat n div 16" "nat n mod 16"] by (simp add: hex2_def)

lemma length_hex2: "length (hex2 n) = 2"
  by (simp add: hex2_def)

lemma parse_rendered: "entry_ok e \<Longrightarrow> parse_entry (render_entry e) = Some e"
proof (cases e)
  case (ColorEntry n r g b)
  assume ok: "entry_ok e"
  have "match_color (render_entry e) = Some e"
    using ok ColorEntry length_hex2 [of r] length_hex2 [of g] length_hex2 [of b]
    by (simp add: match_color_def field_word hex_pair_hex2)
  then show ?thesis
    using ColorEntry by (simp add: parse_entry_def match_range_def match_event_str_def match_event_int_def)
qed (simp_all add: parse_entry_def match_range_def match_event_str_def match_event_int_def field_word number_field_show last_number_show)

section \<open>Properties\<close>

text \<open>
  C23: Reading a file under Python 2: whatever the order of the lines, each named table of each time
  line ends up with exactly the entries that the file has for it, stably sorted by time. Under
  Python 3 the sort raises as soon as there is one entry.
\<close>

theorem read_data_tables:
  "(\<exists>cs tls. read_data Py2 lines = Inr (cs, tls) \<and>
     (\<forall>n m. ranges_of tls n m = sort_key dr_start (file_ranges lines n m) \<and>
            strs_of tls n m = sort_key ev_at (file_strs lines n m) \<and>
            ints_of tls n m = sort_key ev_at (file_ints lines n m))) \<and>
   (read_data Py3 lines = Inl TypeError \<longleftrightarrow> list_ex is_data (entries lines))"
proof -
  obtain cs tls where r: "read_data Py2 lines = Inr (cs, tls)" by (simp add: read_data_py2 Let_def)
  show ?thesis using r read_tables [OF r] by (auto simp: read_data_py3)
qed

text \<open>A line that is written from an entry is read as that entry.\<close>

theorem entry_roundtrip:
  assumes "list_all entry_ok es"
  shows "entries (map render_entry es) = es"
  using assms by (induction es) (simp_all add: entries_Cons parse_rendered, simp add: entries_def List.map_filter_simps)

theorem entry_roundtrip_witness:
  "entries (map render_entry [RangeEntry ''n0'' ''tx'' ''busy'' 10 20, StringEvent ''n0'' ''log'' ''drop'' 15,
     IntEvent ''n0'' ''queue'' 3 12, ColorEntry ''busy'' 255 0 160]) =
   [RangeEntry ''n0'' ''tx'' ''busy'' 10 20, StringEvent ''n0'' ''log'' ''drop'' 15, IntEvent ''n0'' ''queue'' 3 12,
     ColorEntry ''busy'' 255 0 160]"
  by (rule entry_roundtrip) (simp add: word_ok_def)

text \<open>
  The events of a window, for events at distinct times: those inside it, and when no event lies
  exactly on its end, the next event after it as well.
\<close>

theorem events_shown:
  assumes "sorted_wrt (\<lambda>a b. ev_at a < ev_at b) (te_events t)" and "a \<le> b"
  shows "get_events t a b =
      filter (\<lambda>e. a \<le> ev_time e \<and> ev_time e \<le> b) (te_events t) @
      (if list_ex (\<lambda>e. ev_time e = b) (te_events t) then [] else take 1 (filter (\<lambda>e. b < ev_time e) (te_events t))) \<and>
    get_events t a b = (case get_events_bounds t a b of (lo, hi) \<Rightarrow> py_slice (nat lo) (nat hi) (te_events t))"
  using slice_through [OF assms]
  by (simp add: get_events_def get_events_bounds_def event_search_strict [OF assms(1)] Let_def nat_add_distrib)

theorem events_shown_witness:
  "get_events \<lparr>te_name = ''e'', te_events = map (\<lambda>n. \<lparr>ev_at = n, ev_value = n\<rparr>) [1, 4, 7, 9]\<rparr> 2 8 =
     map (\<lambda>n. \<lparr>ev_at = n, ev_value = n\<rparr>) [4, 7, 9]"
  using events_shown [of "\<lparr>te_name = ''e'', te_events = map (\<lambda>n. \<lparr>ev_at = n, ev_value = n\<rparr>) [1, 4, 7, 9]\<rparr>" 2 8]
  by simp

text \<open>
  C24: The ranges of a window, for sorted ranges that do not overlap. When both ends of the window lie in
  ranges, the ranges that meet the window are found. When only one does, the ranges are cut off on
  that side only; when none does, no range is found, even if the window is full of them.
\<close>

theorem ranges_shown:
  assumes "ranges_ok (tr_ranges t)" and "a \<le> b"
  shows "get_ranges t a b =
      (case (covered (tr_ranges t) a, covered (tr_ranges t) b) of
         (True, True) \<Rightarrow> filter (\<lambda>r. a \<le> dr_hi r \<and> dr_lo r \<le> b) (tr_ranges t)
       | (True, False) \<Rightarrow> filter (\<lambda>r. a \<le> dr_hi r) (tr_ranges t)
       | (False, True) \<Rightarrow> filter (\<lambda>r. dr_lo r \<le> b) (tr_ranges t)
       | (False, False) \<Rightarrow> []) \<and>
    get_ranges t a b = (case get_ranges_bounds t a b of (lo, hi) \<Rightarrow> py_slice (nat lo) (nat hi) (tr_ranges t))"
proof -
  let ?rs = "tr_ranges t"
  note s = range_search_spec [OF assms(1)]
  have "py_slice (ended a ?rs) (length ?rs) ?rs = filter (\<lambda>r. a \<le> dr_hi r) ?rs"
    using drop_ended [OF assms(1), of a] unfolding py_slice_def by (metis length_drop order_refl take_all)
  moreover have "py_slice 0 (Suc (ended b ?rs)) ?rs = filter (\<lambda>r. dr_lo r \<le> b) ?rs" if "covered ?rs b"
    using take_covered [OF assms(1) that] by (simp add: py_slice_def)
  moreover have "py_slice (ended a ?rs) (Suc (ended b ?rs)) ?rs = filter (\<lambda>r. a \<le> dr_hi r \<and> dr_lo r \<le> b) ?rs" if "covered ?rs b"
    by (rule slice_covered [OF assms(1) that assms(2)])
  moreover have "py_slice 0 0 ?rs = []" by (simp add: py_slice_def)
  ultimately show ?thesis
    by (cases "covered ?rs a"; cases "covered ?rs b")
      (simp_all add: get_ranges_def get_ranges_bounds_def s Let_def nat_add_distrib)
qed

theorem ranges_shown_witness:
  "get_ranges \<lparr>tr_name = ''tx'', tr_ranges = [\<lparr>dr_start = 2, dr_end = 3, dr_value = ''busy''\<rparr>,
     \<lparr>dr_start = 5, dr_end = 6, dr_value = ''busy''\<rparr>]\<rparr> 1 7 = []"
  using ranges_shown [of "\<lparr>tr_name = ''tx'', tr_ranges = [\<lparr>dr_start = 2, dr_end = 3, dr_value = ''busy''\<rparr>,
     \<lparr>dr_start = 5, dr_end = 6, dr_value = ''busy''\<rparr>]\<rparr>" 1 7]
  by (simp add: ranges_ok_def covered_def)

text \<open>
  The bounds of the time lines that were read: every event and every range start lies within them,
  and so does every range of a name whose ranges do not overlap. The bounds always contain 0.
\<close>

theorem bounds_contain_data:
  assumes "read_data Py2 lines = Inr (cs, tls)" and "timelines_bounds tls = (lo, hi)"
  shows "lo \<le> 0 \<and> 0 \<le> hi \<and>
    list_all (\<lambda>e. lo \<le> ev_at e \<and> ev_at e \<le> hi) (strs_of tls n m) \<and>
    list_all (\<lambda>e. lo \<le> ev_at e \<and> ev_at e \<le> hi) (ints_of tls n m) \<and>
    (ranges_ok (ranges_of tls n m) \<longrightarrow> list_all (\<lambda>r. lo \<le> dr_start r \<and> dr_end r \<le> hi) (ranges_of tls n m))"
proof -
  have "inside_of (0, 0) (lo, hi)"
    using foldl_widen_inside(1) [of "(0, 0)" timeline_bounds tls] assms(2) by (simp add: timelines_bounds_def)
  moreover have "list_all (\<lambda>e. lo \<le> ev_at e \<and> ev_at e \<le> hi) (strs_of tls n m)"
    by (rule events_inside [OF _ timeline_bounds_inside(2) assms(2)]) (simp_all add: read_tables [OF assms(1)])
  moreover have "list_all (\<lambda>e. lo \<le> ev_at e \<and> ev_at e \<le> hi) (ints_of tls n m)"
    by (rule events_inside [OF _ timeline_bounds_inside(3) assms(2)]) (simp_all add: read_tables [OF assms(1)])
  ultimately show ?thesis using ranges_inside [OF _ assms(2)] by (simp add: inside_of_def)
qed

theorem bounds_contain_data_witness:
  "\<exists>cs tls. read_data Py2 (map render_entry [RangeEntry ''n0'' ''tx'' ''busy'' 10 20, IntEvent ''n0'' ''queue'' 3 42]) = Inr (cs, tls) \<and>
     timelines_bounds tls = (0, 42) \<and> list_all (\<lambda>r. 0 \<le> dr_start r \<and> dr_end r \<le> 42) (ranges_of tls ''n0'' ''tx'')"
proof -
  let ?es = "[RangeEntry ''n0'' ''tx'' ''busy'' 10 20, IntEvent ''n0'' ''queue'' 3 42]"
  have es: "entries (map render_entry ?es) = ?es" by code_simp
  obtain cs tls where r: "read_data Py2 (map render_entry ?es) = Inr (cs, tls)" by (simp add: read_data_py2 Let_def)
  then have b: "timelines_bounds tls = (0, 42)"
    unfolding read_data_py2 read_lines_entries es Let_def
    by (auto simp: in_timeline_def in_updates new_timeline_def new_timeline_data_range_def new_timeline_event_def add_range_append
        add_event_append sorted_timeline_def timelines_bounds_def timeline_bounds_def range_bounds_def event_bounds_def widen_def
        new_data_range_def)
  have "ranges_of tls ''n0'' ''tx'' = [\<lparr>dr_start = 10, dr_end = 20, dr_value = ''busy''\<rparr>]"
    unfolding read_tables(1) [OF r] file_ranges_def es by (simp add: List.map_filter_simps)
  with bounds_contain_data [OF r b, of "''n0''" "''tx''"] r b show ?thesis by (simp add: ranges_ok_def)
qed

text \<open>
  The colours of the legend: every value of a range gets one, its own from the file or one of the six
  default colours, as long as at most six different values have none in the file; with a seventh
  the program ends with an \<open>IndexError\<close>.
\<close>

theorem legend_colours_run_out:
  assumes "\<And>xs. mset (key_order xs) = mset xs"
  shows "case main_data Py2 key_order lines of
      Inl e \<Rightarrow> e = IndexError \<and> 6 < card (set (file_values lines) - set (file_colors lines))
    | Inr (b, vs, l) \<Rightarrow> card (set (file_values lines) - set (file_colors lines)) \<le> 6 \<and>
        set vs = set (file_values lines) \<and> distinct vs \<and> length l = length vs \<and> None \<notin> set l"
proof -
  obtain cs tls where r: "read_data Py2 lines = Inr (cs, tls)" by (simp add: read_data_py2 Let_def)
  define vs where "vs = all_range_values key_order tls"
  have vs: "set vs = set (file_values lines)" "distinct vs"
    using all_range_values_keys [OF assms, of tls] read_values [OF r] by (simp_all add: vs_def)
  have "set (filter (\<lambda>v. \<not> dict_in v (co_colors cs)) vs) = set (file_values lines) - set (file_colors lines)"
    using vs(1) read_colors(2) [OF r] by auto
  then have "length (filter (\<lambda>v. \<not> dict_in v (co_colors cs)) vs) = card (set (file_values lines) - set (file_colors lines))"
    using distinct_card [OF distinct_filter [OF vs(2)]] by metis
  with legend_colors_py2 [OF vs(2), of cs] vs read_colors(1) [OF r] r show ?thesis
    by (cases "legend_colors Py2 vs cs") (auto simp: main_data_def vs_def)
qed

theorem legend_colours_run_out_witness:
  "main_data Py2 (\<lambda>xs. xs) (map (\<lambda>v. render_entry (RangeEntry ''n'' ''tx'' [v] 1 2)) ''abcdefg'') = Inl IndexError"
proof -
  let ?lines = "map (\<lambda>v. render_entry (RangeEntry ''n'' ''tx'' [v] 1 2)) ''abcdefg''"
  have "entries ?lines = map (\<lambda>v. RangeEntry ''n'' ''tx'' [v] 1 2) ''abcdefg''" by code_simp
  then have "card (set (file_values ?lines) - set (file_colors ?lines)) = 7"
    by (simp add: file_values_def file_colors_def entry_range_def List.map_filter_simps)
  with legend_colours_run_out [of "\<lambda>xs. xs" ?lines] show ?thesis
    by (cases "main_data Py2 (\<lambda>xs. xs) ?lines") auto
qed

end
