(* ===== verification/Replay.thy ===== *)
theory Replay
  imports Complex_Main Py_Int
begin

text \<open>
  \<^verbatim>\<open>Visualizer/vis.py\<close>, which replays the recorded positions of a swarm and measures it: the
  reader of the CSV file, the choice of the central vehicle, the two positions around the simulated
  time that each frame looks up, the sample taken per frame, the loop of the mode without a window,
  and the text of the data file. The window, the camera and the plots are not modelled.

  Times and positions are floating-point numbers, which are rationals; what the machine does is in
  the record \<open>float_world\<close>: how a text is read, how a result is rounded (to single precision for
  the components of a \<open>vec3\<close>), the length of a vector and the mean of an array (\<open>glm\<close> and
  \<open>numpy\<close>), and how a number is printed. The order in which a set is enumerated is the parameter
  \<open>set_order\<close>.
\<close>

record vec3 =
  v_x :: rat
  v_y :: rat
  v_z :: rat

record float_world =
  fw_float :: "string \<Rightarrow> rat option"
  fw_round :: "rat \<Rightarrow> rat"
  fw_single :: "rat \<Rightarrow> rat"
  fw_length :: "vec3 \<Rightarrow> rat"
  fw_mean :: "rat list \<Rightarrow> rat"
  fw_show :: "rat \<Rightarrow> string"

definition new_vec3 :: "float_world \<Rightarrow> rat \<Rightarrow> rat \<Rightarrow> rat \<Rightarrow> vec3" where
  "new_vec3 w x y z = \<lparr>v_x = fw_single w x, v_y = fw_single w y, v_z = fw_single w z\<rparr>"

definition vec_minus :: "float_world \<Rightarrow> vec3 \<Rightarrow> vec3 \<Rightarrow> vec3" where
  "vec_minus w a b = new_vec3 w (v_x a - v_x b) (v_y a - v_y b) (v_z a - v_z b)"

section \<open>Reading the file\<close>

datatype csv_line =
    ColorLine rat string rat rat rat
  | PositionLine rat string rat rat rat

definition part :: "string list \<Rightarrow> nat \<Rightarrow> string res" where
  "part parts i = (if i < length parts then Inr (parts ! i) else Inl IndexError)"

definition float_part :: "float_world \<Rightarrow> string list \<Rightarrow> nat \<Rightarrow> rat res" where
  "float_part w parts i =
     bindE (part parts i) (\<lambda>s. case fw_float w s of None \<Rightarrow> Inl ValueError | Some x \<Rightarrow> Inr x)"

definition parse_csv_line :: "float_world \<Rightarrow> string \<Rightarrow> csv_line res" where
  "parse_csv_line w line =
     (let parts = py_split CHR '','' line in
      bindE (part parts 0) (\<lambda>p0.
      if p0 = ''color'' then
        bindE (float_part w parts 1) (\<lambda>t.
        bindE (part parts 2) (\<lambda>ip.
        bindE (float_part w parts 3) (\<lambda>r.
        bindE (float_part w parts 4) (\<lambda>g.
        bindE (float_part w parts 5) (\<lambda>b.
        Inr (ColorLine t ip r g b))))))
      else
        bindE (float_part w parts 0) (\<lambda>t.
        bindE (part parts 1) (\<lambda>ip.
        bindE (float_part w parts 2) (\<lambda>x.
        bindE (float_part w parts 3) (\<lambda>y.
        bindE (float_part w parts 4) (\<lambda>z.
        Inr (PositionLine t ip x y z))))))))"

record position =
  po_time :: rat
  po_ip :: string
  po_pos :: vec3

fun positions_of :: "float_world \<Rightarrow> csv_line list \<Rightarrow> position list" where
  "positions_of w [] = []"
| "positions_of w (ColorLine t ip r g b # ls) = positions_of w ls"
| "positions_of w (PositionLine t ip x y z # ls) =
     \<lparr>po_time = t, po_ip = ip, po_pos = new_vec3 w x y z\<rparr> # positions_of w ls"

definition load_positions :: "float_world \<Rightarrow> string list \<Rightarrow> position list res" where
  "load_positions w raw_lines =
     (case raw_lines of
        [] \<Rightarrow> Inl IndexError
      | header # rest \<Rightarrow> bindE (mapE (parse_csv_line w) rest) (\<lambda>ls. Inr (positions_of w ls)))"

definition uavs_of :: "(string list \<Rightarrow> string list) \<Rightarrow> position list \<Rightarrow> string list" where
  "uavs_of set_order lines = set_order (remdups (map po_ip lines))"

section \<open>The central vehicle\<close>

definition py_index :: "'a list \<Rightarrow> int \<Rightarrow> 'a res" where
  \<comment> \<open>\<open>xs[i]\<close>, where a negative index counts from the end\<close>
  "py_index xs i =
     (let j = (if i < 0 then i + int (length xs) else i)
      in if 0 \<le> j \<and> j < int (length xs) then Inr (xs ! nat j) else Inl IndexError)"

definition last_octet :: "string \<Rightarrow> int res" where
  "last_octet ip =
     bindE (part (py_split CHR ''.'' ip) 3) (\<lambda>s. case py_int 10 s of None \<Rightarrow> Inl ValueError | Some n \<Rightarrow> Inr n)"

definition smaller_uav :: "string list \<Rightarrow> int \<Rightarrow> nat \<Rightarrow> int res" where
  "smaller_uav list_uavs smallest i =
     bindE (py_index list_uavs smallest) (\<lambda>best.
     bindE (last_octet best) (\<lambda>best_num.
     bindE (py_index list_uavs (int i)) (\<lambda>current.
     bindE (last_octet current) (\<lambda>current_num.
     Inr (if smallest = -1 \<or> current_num < best_num then int i else smallest)))))"

definition smallest_uav :: "string list \<Rightarrow> int res" where
  "smallest_uav list_uavs = foldE (smaller_uav list_uavs) (-1) [1..<length list_uavs]"

section \<open>One frame\<close>

record replay =
  rp_time :: rat
  rp_delta :: "rat option"
  rp_last :: "(string, nat) dict"
  rp_before :: "(string, nat option) dict"
  rp_after :: "(string, nat option) dict"
  rp_mad_times :: "rat list"
  rp_mad_values :: "rat list"
  rp_mad_speeds :: "rat list"

definition init_replay :: "string list \<Rightarrow> replay" where
  "init_replay uavs =
     \<lparr> rp_time = 0, rp_delta = None, rp_last = map (\<lambda>u. (u, 0)) uavs, rp_before = map (\<lambda>u. (u, None)) uavs,
       rp_after = map (\<lambda>u. (u, None)) uavs, rp_mad_times = [], rp_mad_values = [], rp_mad_speeds = [] \<rparr>"

text \<open>
  The search of one vehicle from line \<open>i\<close> on: the last of its lines not after the time, the line it
  stopped at because it is after the time, where it stopped, and whether it ran off the end.
\<close>

function search_lines :: "position list \<Rightarrow> string \<Rightarrow> rat \<Rightarrow> nat \<Rightarrow> nat option \<Rightarrow> nat option \<times> nat option \<times> nat \<times> bool" where
  "search_lines lines uav t i before =
     (if i \<ge> length lines then (before, None, i, True)
      else if po_ip (lines ! i) = uav then
        (if po_time (lines ! i) \<le> t then search_lines lines uav t (Suc i) (Some i)
         else (before, Some i, i, False))
      else search_lines lines uav t (Suc i) before)"
  by pat_completeness auto
termination
  by (relation "measure (\<lambda>(lines, _, _, i, _). length lines - i)") auto

declare search_lines.simps [simp del]

definition locate_uav :: "position list \<Rightarrow> replay \<times> nat \<Rightarrow> string \<Rightarrow> (replay \<times> nat) res" where
  "locate_uav lines =
     (\<lambda>(st, uav_done) uav.
        case dict_get (rp_last st) uav of
          None \<Rightarrow> Inl KeyError
        | Some start \<Rightarrow>
            (let (before_index, after_index, search_index, ran_off) = search_lines lines uav (rp_time st) start None
             in Inr (st\<lparr>rp_last := dict_set uav (case before_index of Some b \<Rightarrow> b | None \<Rightarrow> search_index) (rp_last st),
                        rp_before := dict_set uav before_index (rp_before st),
                        rp_after := dict_set uav after_index (rp_after st)\<rparr>,
                     if ran_off then uav_done + 1 else uav_done)))"

definition locate_all :: "position list \<Rightarrow> string list \<Rightarrow> replay \<Rightarrow> (replay \<times> nat) res" where
  "locate_all lines uavs st = foldE (locate_uav lines) (st, 0) uavs"

section \<open>The sample of a frame\<close>

definition last_line :: "position list \<Rightarrow> replay \<Rightarrow> string \<Rightarrow> position res" where
  "last_line lines st uav =
     (case dict_get (rp_last st) uav of
        None \<Rightarrow> Inl KeyError
      | Some i \<Rightarrow> if i < length lines then Inr (lines ! i) else Inl IndexError)"

definition speed_of :: "float_world \<Rightarrow> position list \<Rightarrow> replay \<Rightarrow> string \<Rightarrow> rat option res" where
  "speed_of w lines st uav =
     (case (dict_get (rp_before st) uav, dict_get (rp_after st) uav) of
        (Some (Some b), Some (Some a)) \<Rightarrow>
          (case rp_delta st of
             None \<Rightarrow> Inr None
           | Some _ \<Rightarrow>
               (let d = fw_round w (po_time (lines ! a) - po_time (lines ! b))
                in if d = 0 then Inl ZeroDivisionError
                   else Inr (Some \<bar>fw_round w (fw_length w (vec_minus w (po_pos (lines ! a)) (po_pos (lines ! b))) / d)\<bar>)))
      | (None, _) \<Rightarrow> Inl KeyError
      | (Some (Some _), None) \<Rightarrow> Inl KeyError
      | _ \<Rightarrow> Inr None)"

definition measure_uav :: "float_world \<Rightarrow> position list \<Rightarrow> replay \<Rightarrow> string list \<Rightarrow> int \<Rightarrow> position \<Rightarrow>
    rat list \<times> rat \<times> nat \<Rightarrow> nat \<Rightarrow> (rat list \<times> rat \<times> nat) res" where
  "measure_uav w lines st list_uavs smallest central_last =
     (\<lambda>(distances, speed_total, counted) i.
        let uav_id = list_uavs ! i in
        bindE (speed_of w lines st uav_id) (\<lambda>sp.
        let speed_total' = (case sp of None \<Rightarrow> speed_total | Some s \<Rightarrow> fw_round w (speed_total + s));
            counted' = (case sp of None \<Rightarrow> counted | Some _ \<Rightarrow> counted + 1)
        in if int i = smallest then Inr (distances, speed_total', counted')
           else bindE (last_line lines st uav_id) (\<lambda>l.
                Inr (distances @ [fw_length w (vec_minus w (po_pos central_last) (po_pos l))], speed_total', counted'))))"

definition mad :: "float_world \<Rightarrow> rat list \<Rightarrow> rat" where
  "mad w arr = (let mean = fw_mean w arr in fw_mean w (map (\<lambda>x. \<bar>fw_round w (x - mean)\<bar>) arr))"

definition take_sample :: "float_world \<Rightarrow> position list \<Rightarrow> string list \<Rightarrow> int \<Rightarrow> string \<Rightarrow> replay \<Rightarrow> replay res" where
  "take_sample w lines list_uavs smallest central st =
     bindE (last_line lines st central) (\<lambda>central_last.
     bindE (foldE (measure_uav w lines st list_uavs smallest central_last) ([], 0, 0) [0..<length list_uavs])
       (\<lambda>(distances, speed_total, counted).
     let mean = fw_mean w distances;
         mad_percent = fw_round w (fw_round w (mad w distances * mean) * 100)
     in Inr (st\<lparr>rp_mad_times := rp_mad_times st @ [po_time central_last],
                rp_mad_values := rp_mad_values st @ [mad_percent],
                rp_mad_speeds := rp_mad_speeds st @ [if counted = 0 then 0 else fw_round w (speed_total / of_nat counted)]\<rparr>)))"

section \<open>The loop without a window\<close>

definition target_fps :: nat where "target_fps = 144"

definition fixed_step :: "float_world \<Rightarrow> rat" where
  "fixed_step w = fw_round w (1 / of_nat target_fps)"

definition advance_time :: "float_world \<Rightarrow> rat \<Rightarrow> rat" where
  "advance_time w t = (if t < 25 then fw_round w (t + fixed_step w) else t)"

text \<open>One turn of the loop; the Boolean says that the loop is left.\<close>

definition replay_frame :: "float_world \<Rightarrow> bool \<Rightarrow> position list \<Rightarrow> string list \<Rightarrow> int \<Rightarrow> string \<Rightarrow> replay \<Rightarrow> (replay \<times> bool) res" where
  "replay_frame w use_mad lines list_uavs smallest central st =
     bindE (locate_all lines list_uavs st) (\<lambda>(st1, uav_done).
     bindE (if use_mad then take_sample w lines list_uavs smallest central st1 else Inr st1) (\<lambda>st2.
     let st3 = st2\<lparr>rp_delta := Some (fixed_step w)\<rparr>
     in Inr (if uav_done = length list_uavs then (st3, True)
             else (st3\<lparr>rp_time := advance_time w (rp_time st3)\<rparr>, False))))"

partial_function (option) replay_loop ::
    "float_world \<Rightarrow> bool \<Rightarrow> position list \<Rightarrow> string list \<Rightarrow> int \<Rightarrow> string \<Rightarrow> replay \<Rightarrow> replay res option" where
  "replay_loop w use_mad lines list_uavs smallest central st =
     (case replay_frame w use_mad lines list_uavs smallest central st of
        Inl e \<Rightarrow> Some (Inl e)
      | Inr (st', finished) \<Rightarrow>
          if finished then Some (Inr st') else replay_loop w use_mad lines list_uavs smallest central st')"

fun data_rows :: "float_world \<Rightarrow> rat list \<Rightarrow> rat list \<Rightarrow> rat list \<Rightarrow> string" where
  "data_rows w (t # ts) (m # ms) (s # ss) =
     fw_show w t @ '','' @ fw_show w m @ '','' @ fw_show w s @ [newline] @ data_rows w ts ms ss"
| "data_rows w _ _ _ = []"

definition all_data :: "float_world \<Rightarrow> replay \<Rightarrow> string" where
  "all_data w st =
     ''Time,Mad Distance,Average Velocity'' @ data_rows w (rp_mad_times st) (rp_mad_values st) (rp_mad_speeds st)"

text \<open>
  \<open>main\<close> with \<^verbatim>\<open>--graph-only\<close>: the text of the data file, when there is one. No value means that the
  program does not end.
\<close>

definition graph_only_main :: "float_world \<Rightarrow> (string list \<Rightarrow> string list) \<Rightarrow> bool \<Rightarrow> string list \<Rightarrow> string option res option" where
  "graph_only_main w set_order use_mad raw_lines =
     (case load_positions w raw_lines of
        Inl e \<Rightarrow> Some (Inl e)
      | Inr lines \<Rightarrow>
          (let list_uavs = uavs_of set_order lines in
           case bindE (smallest_uav list_uavs) (\<lambda>i. bindE (py_index list_uavs i) (\<lambda>c. Inr (i, c))) of
             Inl e \<Rightarrow> Some (Inl e)
           | Inr (smallest, central) \<Rightarrow>
               map_option (map_sum id (\<lambda>st. if use_mad then Some (all_data w st) else None))
                 (replay_loop w use_mad lines list_uavs smallest central (init_replay list_uavs))))"

section \<open>One search\<close>

abbreviation own :: "position list \<Rightarrow> string \<Rightarrow> nat \<Rightarrow> bool" where
  "own lines u j \<equiv> po_ip (lines ! j) = u"

abbreviation line_time :: "position list \<Rightarrow> nat \<Rightarrow> rat" where
  "line_time lines j \<equiv> po_time (lines ! j)"

lemma search_lines_spec:
  assumes "search_lines lines u t i b = (b', a, e, d)" and "i \<le> length lines"
  shows "i \<le> e \<and> e \<le> length lines \<and> (\<forall>j. i \<le> j \<and> j < e \<and> own lines u j \<longrightarrow> line_time lines j \<le> t) \<and>
    (if d then a = None \<and> e = length lines else a = Some e \<and> e < length lines \<and> own lines u e \<and> t < line_time lines e) \<and>
    (b' = b \<and> (\<forall>j. i \<le> j \<and> j < e \<longrightarrow> \<not> own lines u j) \<or>
     (\<exists>x. b' = Some x \<and> i \<le> x \<and> x < e \<and> own lines u x \<and> line_time lines x \<le> t \<and> (\<forall>j. x < j \<and> j < e \<longrightarrow> \<not> own lines u j)))"
  using assms
proof (induction lines u t i b rule: search_lines.induct)
  case (1 lines u t i b)
  note step = search_lines.simps [of lines u t i b]
  consider (off) "i \<ge> length lines" | (before) "i < length lines" "own lines u i" "line_time lines i \<le> t"
    | (after) "i < length lines" "own lines u i" "t < line_time lines i" | (other) "i < length lines" "\<not> own lines u i"
    by linarith
  then show ?case
  proof cases
    case off
    then show ?thesis using "1.prems" step by auto
  next
    case before
    then have r: "search_lines lines u t (Suc i) (Some i) = (b', a, e, d)" using "1.prems"(1) step by simp
    have "Suc i \<le> length lines" using before by simp
    from "1.IH"(1) [OF _ before(2,3) r this] before
    show ?thesis by (auto simp: less_Suc_eq_le Suc_le_eq elim: le_neq_implies_less)
  next
    case after
    then show ?thesis using "1.prems" step by auto
  next
    case other
    then have r: "search_lines lines u t (Suc i) b = (b', a, e, d)" using "1.prems"(1) step by simp
    have "Suc i \<le> length lines" using other by simp
    from "1.IH"(2) [OF _ other(2) r this] other
    show ?thesis by (auto simp: Suc_le_eq) (metis le_neq_implies_less)+
  qed
qed

text \<open>Lines before \<open>k\<close> that are not after the time can be skipped.\<close>

lemma search_lines_skip:
  assumes "i \<le> k" and "k \<le> length lines" and "\<And>j. i \<le> j \<Longrightarrow> j < k \<Longrightarrow> own lines u j \<Longrightarrow> line_time lines j \<le> t"
  shows "\<exists>b'. search_lines lines u t i b = search_lines lines u t k b' \<and>
    ((\<forall>j. i \<le> j \<and> j < k \<longrightarrow> \<not> own lines u j) \<longrightarrow> b' = b)"
  using assms(1,3)
proof (induction "k - i" arbitrary: i b)
  case 0
  then show ?case by auto
next
  case (Suc n)
  then have i: "i < k" "i < length lines" using assms(2) by auto
  have IH: "\<exists>b'. search_lines lines u t (Suc i) c = search_lines lines u t k b' \<and>
      ((\<forall>j. Suc i \<le> j \<and> j < k \<longrightarrow> \<not> own lines u j) \<longrightarrow> b' = c)" for c
    by (rule Suc.hyps(1)) (use Suc.hyps(2) i Suc.prems in auto)
  show ?case
  proof (cases "own lines u i")
    case True
    then have "line_time lines i \<le> t" using Suc.prems i by auto
    then have "search_lines lines u t i b = search_lines lines u t (Suc i) (Some i)"
      using True i by (simp add: search_lines.simps [of lines u t i b])
    then show ?thesis using IH [of "Some i"] True i by auto
  next
    case False
    then have "search_lines lines u t i b = search_lines lines u t (Suc i) b"
      using i by (simp add: search_lines.simps [of lines u t i b])
    then show ?thesis using IH [of b] False by (metis Suc_leD)
  qed
qed

section \<open>The remembered line\<close>

text \<open>
  What the index remembered for a vehicle promises: nothing of the vehicle before it is later than
  the time, and either there is nothing of it before, or the line itself is its own and not later.
\<close>

definition cursor_ok :: "position list \<Rightarrow> string \<Rightarrow> rat \<Rightarrow> nat \<Rightarrow> bool" where
  "cursor_ok lines u t k =
     (k \<le> length lines \<and> (\<forall>j<k. own lines u j \<longrightarrow> line_time lines j \<le> t) \<and>
      ((\<forall>j<k. \<not> own lines u j) \<or> (k < length lines \<and> own lines u k \<and> line_time lines k \<le> t)))"

lemma cursor_ok_mono: "cursor_ok lines u t k \<Longrightarrow> t \<le> t' \<Longrightarrow> cursor_ok lines u t' k"
  by (auto simp: cursor_ok_def intro: order_trans)

lemma cursor_search:
  assumes "cursor_ok lines u t k"
  shows "search_lines lines u t k None = search_lines lines u t 0 None"
proof -
  obtain b' where b': "search_lines lines u t 0 None = search_lines lines u t k b'"
    and none: "(\<forall>j. 0 \<le> j \<and> j < k \<longrightarrow> \<not> own lines u j) \<longrightarrow> b' = None"
    using search_lines_skip [of 0 k lines u t None] assms by (auto simp: cursor_ok_def)
  from assms consider "\<forall>j<k. \<not> own lines u j" | "k < length lines \<and> own lines u k \<and> line_time lines k \<le> t"
    by (auto simp: cursor_ok_def)
  then show ?thesis
  proof cases
    case 1
    with b' none show ?thesis by simp
  next
    case 2
    then have "search_lines lines u t k b = search_lines lines u t (Suc k) (Some k)" for b
      by (subst search_lines.simps) simp
    then show ?thesis using b' by simp
  qed
qed

lemma cursor_next:
  assumes "search_lines lines u t 0 None = (b, a, e, d)"
  shows "cursor_ok lines u t (case b of Some x \<Rightarrow> x | None \<Rightarrow> e)"
proof -
  note spec = search_lines_spec [OF assms le0]
  show ?thesis
  proof (cases b)
    case None
    then have "\<forall>j<e. \<not> own lines u j" using spec by auto
    then show ?thesis using spec None by (auto simp: cursor_ok_def)
  next
    case (Some x)
    then have "x < e" "own lines u x" "line_time lines x \<le> t" using spec by auto
    then show ?thesis using spec Some by (auto simp: cursor_ok_def)
  qed
qed

definition cursors_ok :: "position list \<Rightarrow> string list \<Rightarrow> replay \<Rightarrow> bool" where
  "cursors_ok lines uavs st = (\<forall>u \<in> set uavs. \<exists>k. dict_get (rp_last st) u = Some k \<and> cursor_ok lines u (rp_time st) k)"

definition located :: "position list \<Rightarrow> replay \<Rightarrow> string \<Rightarrow> bool" where
  \<comment> \<open>the dictionaries hold what a search of the whole file finds\<close>
  "located lines st u =
     (case search_lines lines u (rp_time st) 0 None of (b, a, e, d) \<Rightarrow>
        dict_get (rp_last st) u = Some (case b of Some x \<Rightarrow> x | None \<Rightarrow> e) \<and>
        dict_get (rp_before st) u = Some b \<and> dict_get (rp_after st) u = Some a)"

definition ran_out :: "position list \<Rightarrow> rat \<Rightarrow> string \<Rightarrow> bool" where
  "ran_out lines t u = (\<forall>j<length lines. own lines u j \<longrightarrow> line_time lines j \<le> t)"

lemma search_ran_out:
  assumes "search_lines lines u t 0 None = (b, a, e, d)"
  shows "d \<longleftrightarrow> ran_out lines t u"
proof -
  note spec = search_lines_spec [OF assms le0]
  show ?thesis
  proof (cases d)
    case True
    then show ?thesis using spec by (auto simp: ran_out_def)
  next
    case False
    then have "e < length lines" "own lines u e" "t < line_time lines e" using spec by auto
    then show ?thesis using False by (auto simp: ran_out_def not_le)
  qed
qed

lemma locate_step:
  assumes "cursors_ok lines (u # us) st"
  shows "\<exists>st'. locate_uav lines (st, n) u = Inr (st', if ran_out lines (rp_time st) u then n + 1 else n) \<and>
    located lines st' u \<and> rp_time st' = rp_time st \<and> rp_delta st' = rp_delta st \<and>
    (\<forall>v. v \<noteq> u \<longrightarrow> dict_get (rp_last st') v = dict_get (rp_last st) v \<and>
       dict_get (rp_before st') v = dict_get (rp_before st) v \<and> dict_get (rp_after st') v = dict_get (rp_after st) v)"
proof -
  obtain k where k: "dict_get (rp_last st) u = Some k" "cursor_ok lines u (rp_time st) k"
    using assms by (auto simp: cursors_ok_def)
  obtain b a e d where r: "search_lines lines u (rp_time st) 0 None = (b, a, e, d)" by (cases "search_lines lines u (rp_time st) 0 None")
  have "search_lines lines u (rp_time st) k None = (b, a, e, d)" using cursor_search [OF k(2)] r by simp
  then show ?thesis
    using k(1) search_ran_out [OF r] by (simp add: locate_uav_def located_def r dict_get_set)
qed

lemma locate_fold:
  assumes "cursors_ok lines us st" and "distinct us"
  shows "\<exists>st'. foldE (locate_uav lines) (st, n) us = Inr (st', n + length (filter (ran_out lines (rp_time st)) us)) \<and>
    (\<forall>u \<in> set us. located lines st' u) \<and> rp_time st' = rp_time st \<and> rp_delta st' = rp_delta st \<and>
    (\<forall>v. v \<notin> set us \<longrightarrow> dict_get (rp_last st') v = dict_get (rp_last st) v \<and>
       dict_get (rp_before st') v = dict_get (rp_before st) v \<and> dict_get (rp_after st') v = dict_get (rp_after st) v)"
  using assms
proof (induction us arbitrary: st n)
  case (Cons u us)
  define n1 where "n1 = (if ran_out lines (rp_time st) u then n + 1 else n)"
  obtain st1 where s1: "locate_uav lines (st, n) u = Inr (st1, n1)" "located lines st1 u"
    "rp_time st1 = rp_time st" "rp_delta st1 = rp_delta st"
    and other: "\<And>v. v \<noteq> u \<Longrightarrow> dict_get (rp_last st1) v = dict_get (rp_last st) v \<and>
       dict_get (rp_before st1) v = dict_get (rp_before st) v \<and> dict_get (rp_after st1) v = dict_get (rp_after st) v"
    using locate_step [OF Cons.prems(1), of n] unfolding n1_def by blast
  have "cursors_ok lines us st1"
    using Cons.prems s1(3) other unfolding cursors_ok_def by (metis distinct.simps(2) list.set_intros(2))
  then obtain st' where st': "foldE (locate_uav lines) (st1, n1) us = Inr (st', n1 + length (filter (ran_out lines (rp_time st1)) us))"
    "\<forall>u \<in> set us. located lines st' u" "rp_time st' = rp_time st1" "rp_delta st' = rp_delta st1"
    and rest: "\<And>v. v \<notin> set us \<Longrightarrow> dict_get (rp_last st') v = dict_get (rp_last st1) v \<and>
       dict_get (rp_before st') v = dict_get (rp_before st1) v \<and> dict_get (rp_after st') v = dict_get (rp_after st1) v"
    using Cons.IH [of st1 n1] Cons.prems(2) by auto
  have "located lines st' u"
    using s1(2) rest [of u] Cons.prems(2) st'(3) by (simp add: located_def)
  moreover have "foldE (locate_uav lines) (st, n) (u # us) =
      Inr (st', n + length (filter (ran_out lines (rp_time st)) (u # us)))"
    using st'(1) s1(1,3) by (simp add: n1_def)
  ultimately show ?case using st'(2,3,4) s1(3,4) other rest by (intro exI [of _ st']) auto
qed simp

lemma locate_all_spec:
  assumes "cursors_ok lines uavs st" and "distinct uavs"
  shows "\<exists>st'. locate_all lines uavs st = Inr (st', length (filter (ran_out lines (rp_time st)) uavs)) \<and>
    (\<forall>u \<in> set uavs. located lines st' u) \<and> rp_time st' = rp_time st \<and> rp_delta st' = rp_delta st \<and> cursors_ok lines uavs st'"
proof -
  obtain st' where st': "locate_all lines uavs st = Inr (st', length (filter (ran_out lines (rp_time st)) uavs))"
    "\<forall>u \<in> set uavs. located lines st' u" "rp_time st' = rp_time st" "rp_delta st' = rp_delta st"
    using locate_fold [OF assms, of 0] by (auto simp: locate_all_def)
  have "cursors_ok lines uavs st'"
    unfolding cursors_ok_def
  proof
    fix u
    assume "u \<in> set uavs"
    then have l: "located lines st' u" using st'(2) by blast
    obtain b a e d where r: "search_lines lines u (rp_time st') 0 None = (b, a, e, d)" by (cases "search_lines lines u (rp_time st') 0 None")
    from cursor_next [OF r] l r
    show "\<exists>k. dict_get (rp_last st') u = Some k \<and> cursor_ok lines u (rp_time st') k" by (simp add: located_def)
  qed
  with st' show ?thesis by blast
qed

section \<open>Frames\<close>

text \<open>
  What is used of floating-point arithmetic: two recorded times with no difference are equal, and
  below 25 a step moves the time on, by less than a second.
\<close>

definition times_differ :: "float_world \<Rightarrow> position list \<Rightarrow> bool" where
  "times_differ w lines =
     (\<forall>a \<in> po_time ` set lines. \<forall>b \<in> po_time ` set lines. fw_round w (a - b) = 0 \<longrightarrow> a = b)"

definition steps_ok :: "float_world \<Rightarrow> bool" where
  "steps_ok w = (\<forall>t. 0 \<le> t \<longrightarrow> t < 25 \<longrightarrow>
     t + 1/200 \<le> fw_round w (t + fixed_step w) \<and> fw_round w (t + fixed_step w) \<le> 26)"

lemma advance_ok:
  assumes "steps_ok w" and "0 \<le> t"
  shows "t \<le> advance_time w t" and "t < 25 \<Longrightarrow> t + 1/200 \<le> advance_time w t" and "t \<le> 26 \<Longrightarrow> advance_time w t \<le> 26"
proof -
  have s: "t < 25 \<Longrightarrow> t + 1/200 \<le> fw_round w (t + fixed_step w) \<and> fw_round w (t + fixed_step w) \<le> 26"
    using assms by (simp add: steps_ok_def)
  show "t < 25 \<Longrightarrow> t + 1/200 \<le> advance_time w t" using s by (simp add: advance_time_def)
  show "t \<le> 26 \<Longrightarrow> advance_time w t \<le> 26" using s by (simp add: advance_time_def)
  show "t \<le> advance_time w t" using s by (auto simp: advance_time_def)
qed

text \<open>The states the loop passes through: every one but the last.\<close>

inductive replay_reach :: "float_world \<Rightarrow> bool \<Rightarrow> position list \<Rightarrow> string list \<Rightarrow> int \<Rightarrow> string \<Rightarrow> replay \<Rightarrow> bool"
  for w use_mad lines list_uavs smallest central where
  start: "replay_reach w use_mad lines list_uavs smallest central (init_replay list_uavs)"
| turn: "replay_reach w use_mad lines list_uavs smallest central st \<Longrightarrow>
    replay_frame w use_mad lines list_uavs smallest central st = Inr (st', False) \<Longrightarrow>
    replay_reach w use_mad lines list_uavs smallest central st'"

lemma dict_get_map: "dict_get (map (\<lambda>u. (u, c)) us) u = (if u \<in> set us then Some c else None)"
  by (induction us) (auto simp: dict_get_def)

lemma init_cursors: "cursors_ok lines uavs (init_replay uavs)"
  by (simp add: cursors_ok_def init_replay_def dict_get_map cursor_ok_def)

lemma take_sample_keeps:
  assumes "take_sample w lines us smallest central st = Inr st'"
  shows "rp_time st' = rp_time st \<and> rp_last st' = rp_last st \<and> rp_before st' = rp_before st \<and> rp_after st' = rp_after st"
  using assms by (auto simp: take_sample_def bindE_Inr_conv Let_def)

lemma frame_cases:
  assumes "cursors_ok lines us st" and "distinct us" and "replay_frame w use_mad lines us smallest central st = Inr (st', finished)"
  shows "(finished \<longleftrightarrow> list_all (ran_out lines (rp_time st)) us) \<and>
    rp_time st' = (if finished then rp_time st else advance_time w (rp_time st)) \<and>
    (\<exists>t. t = rp_time st \<and> (\<forall>u \<in> set us. \<exists>k. dict_get (rp_last st') u = Some k \<and> cursor_ok lines u t k))"
proof -
  obtain st1 where st1: "locate_all lines us st = Inr (st1, length (filter (ran_out lines (rp_time st)) us))"
    "rp_time st1 = rp_time st" "cursors_ok lines us st1"
    using locate_all_spec [OF assms(1,2)] by auto
  define ended where "ended = (length (filter (ran_out lines (rp_time st)) us) = length us)"
  define sample where "sample = (if use_mad then take_sample w lines us smallest central st1 else Inr st1)"
  have "bindE sample (\<lambda>st2. Inr (if ended then (st2\<lparr>rp_delta := Some (fixed_step w)\<rparr>, True)
        else (st2\<lparr>rp_delta := Some (fixed_step w), rp_time := advance_time w (rp_time st2)\<rparr>, False))) = Inr (st', finished)"
    using assms(3)
    by (cases "length (filter (ran_out lines (rp_time st)) us) = length us")
      (simp_all add: replay_frame_def st1(1) sample_def ended_def Let_def)
  then obtain st2 where st2: "(if use_mad then take_sample w lines us smallest central st1 else Inr st1) = Inr st2"
    and r: "(st', finished) = (if ended then (st2\<lparr>rp_delta := Some (fixed_step w)\<rparr>, True)
        else (st2\<lparr>rp_delta := Some (fixed_step w), rp_time := advance_time w (rp_time st2)\<rparr>, False))"
    by (cases sample) (simp_all add: sample_def)
  have k: "rp_time st2 = rp_time st" "rp_last st2 = rp_last st1"
    using st2 take_sample_keeps [of w lines us smallest central st1 st2] st1(2) by (auto split: if_splits)
  have all: "ended \<longleftrightarrow> list_all (ran_out lines (rp_time st)) us"
    unfolding ended_def by (metis filter_True filter_id_conv length_filter_less list_all_iff order_less_irrefl)
  show ?thesis
    using r k all st1(2,3) by (cases ended) (auto simp: cursors_ok_def)
qed

lemma frame_cursors:
  assumes "cursors_ok lines us st" and "0 \<le> rp_time st" and "distinct us" and "steps_ok w"
    and "replay_frame w use_mad lines us smallest central st = Inr (st', False)"
  shows "cursors_ok lines us st' \<and> 0 \<le> rp_time st' \<and> rp_time st' = advance_time w (rp_time st)"
proof -
  from frame_cases [OF assms(1,3,5)]
  have t: "rp_time st' = advance_time w (rp_time st)"
    and k: "\<forall>u \<in> set us. \<exists>k. dict_get (rp_last st') u = Some k \<and> cursor_ok lines u (rp_time st) k" by simp_all
  have "rp_time st \<le> rp_time st'" using advance_ok(1) [OF assms(4,2)] t by simp
  with k assms(2) t show ?thesis unfolding cursors_ok_def by (meson cursor_ok_mono order_trans)
qed

lemma reach_cursors:
  assumes "replay_reach w use_mad lines us smallest central st" and "distinct us" and "steps_ok w"
  shows "cursors_ok lines us st \<and> 0 \<le> rp_time st"
  using assms(1)
proof induction
  case start
  show ?case using init_cursors by (simp add: init_replay_def)
next
  case (turn st st')
  then show ?case using frame_cursors [OF _ _ assms(2,3) turn.hyps(2)] by blast
qed

section \<open>What a frame looks up\<close>

definition in_order :: "position list \<Rightarrow> string \<Rightarrow> bool" where
  "in_order lines u = (\<forall>i<length lines. \<forall>j<length lines. i < j \<longrightarrow> own lines u i \<longrightarrow> own lines u j \<longrightarrow> line_time lines i \<le> line_time lines j)"

definition latest_before :: "position list \<Rightarrow> string \<Rightarrow> rat \<Rightarrow> nat option \<Rightarrow> bool" where
  "latest_before lines u t b =
     (case b of None \<Rightarrow> \<forall>j<length lines. own lines u j \<longrightarrow> t < line_time lines j
      | Some i \<Rightarrow> i < length lines \<and> own lines u i \<and> line_time lines i \<le> t \<and>
          (\<forall>j<length lines. own lines u j \<longrightarrow> line_time lines j \<le> t \<longrightarrow> j \<le> i))"

definition first_after :: "position list \<Rightarrow> string \<Rightarrow> rat \<Rightarrow> nat option \<Rightarrow> bool" where
  "first_after lines u t a =
     (case a of None \<Rightarrow> \<forall>j<length lines. own lines u j \<longrightarrow> line_time lines j \<le> t
      | Some i \<Rightarrow> i < length lines \<and> own lines u i \<and> t < line_time lines i \<and>
          (\<forall>j<length lines. own lines u j \<longrightarrow> t < line_time lines j \<longrightarrow> i \<le> j))"

lemma search_brackets:
  assumes "search_lines lines u t 0 None = (b, a, e, d)" and "in_order lines u"
  shows "latest_before lines u t b \<and> first_after lines u t a"
proof -
  note spec = search_lines_spec [OF assms(1) le0]
  have early: "line_time lines j \<le> t" if "j < e" "own lines u j" for j using spec that by blast
  have late: "t < line_time lines j" if j: "e \<le> j" "j < length lines" "own lines u j" for j
  proof -
    have e: "e < length lines" "own lines u e" "t < line_time lines e" using spec j by (auto split: if_splits)
    show ?thesis
    proof (cases "j = e")
      case False
      then have "line_time lines e \<le> line_time lines j" using assms(2) [unfolded in_order_def, rule_format, of e j] e j by simp
      with e show ?thesis by simp
    qed (simp add: e)
  qed
  have fa: "first_after lines u t a"
  proof (cases d)
    case True
    then have "a = None" "e = length lines" using spec by simp_all
    then show ?thesis using early by (simp add: first_after_def)
  next
    case False
    then have "a = Some e" "e < length lines" "own lines u e" "t < line_time lines e" using spec by simp_all
    moreover have "e \<le> j" if "own lines u j" "t < line_time lines j" for j
      using early [of j] that by (cases "j < e") simp_all
    ultimately show ?thesis by (simp add: first_after_def)
  qed
  have "latest_before lines u t b"
  proof (cases b)
    case None
    then have none: "\<not> own lines u j" if "j < e" for j using spec that by auto
    have "t < line_time lines j" if "j < length lines" "own lines u j" for j
      using late [of j] none [of j] that by (cases "j < e") simp_all
    then show ?thesis using None by (simp add: latest_before_def)
  next
    case (Some x)
    then have x: "x < e" "own lines u x" "line_time lines x \<le> t" and gap: "\<And>j. x < j \<Longrightarrow> j < e \<Longrightarrow> \<not> own lines u j"
      using spec by auto
    have "j \<le> x" if "j < length lines" "own lines u j" "line_time lines j \<le> t" for j
    proof (rule ccontr)
      assume "\<not> j \<le> x"
      then show False using late [of j] gap [of j] that by (cases "j < e") simp_all
    qed
    moreover have "x < length lines" using x spec by simp
    ultimately show ?thesis using x Some by (simp add: latest_before_def)
  qed
  with fa show ?thesis by blast
qed

section \<open>No frame raises\<close>

lemma last_line_ok:
  assumes "located lines st u" and "u \<in> po_ip ` set lines"
  shows "\<exists>l. last_line lines st u = Inr l"
proof -
  obtain b a e d where r: "search_lines lines u (rp_time st) 0 None = (b, a, e, d)" by (cases "search_lines lines u (rp_time st) 0 None")
  note spec = search_lines_spec [OF r le0]
  obtain j where j: "j < length lines" "own lines u j" using assms(2) by (auto simp: in_set_conv_nth image_iff)
  have "(case b of Some x \<Rightarrow> x | None \<Rightarrow> e) < length lines"
  proof (cases b)
    case None
    then have "\<not> j < e" using spec j by auto
    then show ?thesis using None j by simp
  next
    case (Some x)
    then show ?thesis using spec by auto
  qed
  then show ?thesis using assms(1) r by (simp add: located_def last_line_def)
qed

lemma speed_ok:
  assumes "located lines st u" and "times_differ w lines"
  shows "\<exists>sp. speed_of w lines st u = Inr sp"
proof -
  obtain b a e d where r: "search_lines lines u (rp_time st) 0 None = (b, a, e, d)" by (cases "search_lines lines u (rp_time st) 0 None")
  note spec = search_lines_spec [OF r le0]
  have g: "dict_get (rp_before st) u = Some b" "dict_get (rp_after st) u = Some a" using assms(1) r by (simp_all add: located_def)
  show ?thesis
  proof (cases "b = None \<or> a = None \<or> rp_delta st = None")
    case True
    then show ?thesis using g by (auto simp: speed_of_def split: option.splits)
  next
    case False
    then obtain i j x where s: "b = Some i" "a = Some j" "rp_delta st = Some x" by auto
    then have "line_time lines i \<le> rp_time st" "rp_time st < line_time lines j" "i < length lines" "j < length lines"
      using spec by (auto split: if_splits)
    then have "line_time lines j \<noteq> line_time lines i" "line_time lines i \<in> po_time ` set lines" "line_time lines j \<in> po_time ` set lines"
      by simp_all
    then have "fw_round w (line_time lines j - line_time lines i) \<noteq> 0" using assms(2) unfolding times_differ_def by blast
    then show ?thesis using g s by (simp add: speed_of_def Let_def)
  qed
qed

lemma foldE_total:
  assumes "\<And>s x. x \<in> set xs \<Longrightarrow> \<exists>t. f s x = Inr t"
  shows "\<exists>t. foldE f s xs = Inr t"
  using assms
proof (induction xs arbitrary: s)
  case (Cons x xs)
  obtain t where "f s x = Inr t" using Cons.prems [of x s] by auto
  with Cons show ?case by auto
qed simp

lemma sample_ok:
  assumes "\<And>u. u \<in> set us \<Longrightarrow> located lines st u" and "set us \<subseteq> po_ip ` set lines" and "central \<in> set us"
    and "times_differ w lines"
  shows "\<exists>st'. take_sample w lines us smallest central st = Inr st'"
proof -
  obtain c where c: "last_line lines st central = Inr c"
    using last_line_ok [OF assms(1) [OF assms(3)]] assms(2,3) by blast
  have m: "\<exists>t. measure_uav w lines st us smallest c s i = Inr t" if i: "i \<in> set [0..<length us]" for s i
  proof -
    have u: "us ! i \<in> set us" using i by simp
    obtain sp where "speed_of w lines st (us ! i) = Inr sp" using speed_ok [OF assms(1) [OF u] assms(4)] by auto
    moreover obtain l where "last_line lines st (us ! i) = Inr l" using last_line_ok [OF assms(1) [OF u]] assms(2) u by blast
    ultimately show ?thesis by (cases s) (simp add: measure_uav_def Let_def)
  qed
  obtain t where "foldE (measure_uav w lines st us smallest c) ([], 0, 0) [0..<length us] = Inr t"
    using foldE_total [of "[0..<length us]" "measure_uav w lines st us smallest c"] m by blast
  then show ?thesis using c by (cases t) (simp add: take_sample_def Let_def)
qed

lemma frame_ok:
  assumes "cursors_ok lines us st" and "distinct us" and "set us \<subseteq> po_ip ` set lines" and "central \<in> set us"
    and "times_differ w lines"
  shows "\<exists>st' finished. replay_frame w use_mad lines us smallest central st = Inr (st', finished)"
proof -
  obtain st1 n where st1: "locate_all lines us st = Inr (st1, n)" "\<forall>u \<in> set us. located lines st1 u"
    using locate_all_spec [OF assms(1,2)] by auto
  then obtain st2 where "take_sample w lines us smallest central st1 = Inr st2"
    using sample_ok [where st = st1 and smallest = smallest, OF _ assms(3-5)] by auto
  with st1(1) show ?thesis by (simp add: replay_frame_def Let_def)
qed

section \<open>The loop\<close>

lemma loop_never_returns:
  assumes "\<And>st. I st \<Longrightarrow> \<exists>st'. replay_frame w use_mad lines us smallest central st = Inr (st', False) \<and> I st'" and "I st"
  shows "replay_loop w use_mad lines us smallest central st = None"
proof (rule ccontr)
  assume "replay_loop w use_mad lines us smallest central st \<noteq> None"
  then obtain r where ret: "replay_loop w use_mad lines us smallest central st = Some r" by blast
  let ?P = "\<lambda>w' m' lines' us' sm' c' st' (r :: replay res).
      w' = w \<longrightarrow> m' = use_mad \<longrightarrow> lines' = lines \<longrightarrow> us' = us \<longrightarrow> sm' = smallest \<longrightarrow> c' = central \<longrightarrow> \<not> I st'"
  have "?P w use_mad lines us smallest central st r"
  proof (rule replay_loop.raw_induct [where P = ?P, OF _ ret])
    fix f w' m' lines' us' sm' c' st' and r :: "replay res"
    assume IH: "\<And>w' m' lines' us' sm' c' st' r. f w' m' lines' us' sm' c' st' = Some r \<Longrightarrow> ?P w' m' lines' us' sm' c' st' r"
      and eq: "(case replay_frame w' m' lines' us' sm' c' st' of
          Inl e \<Rightarrow> Some (Inl e)
        | Inr (st'', finished) \<Rightarrow> if finished then Some (Inr st'') else f w' m' lines' us' sm' c' st'') = Some r"
    show "?P w' m' lines' us' sm' c' st' r"
    proof (intro impI notI)
      assume same: "w' = w" "m' = use_mad" "lines' = lines" "us' = us" "sm' = smallest" "c' = central" and "I st'"
      then obtain st'' where "replay_frame w use_mad lines us smallest central st' = Inr (st'', False)" "I st''"
        using assms(1) by blast
      with eq IH [of w use_mad lines us smallest central st'' r] same show False by simp
    qed
  qed
  with assms(2) show False by blast
qed

lemma loop_returns:
  assumes "cursors_ok lines us st" and "0 \<le> rp_time st" and "25 - rp_time st \<le> of_nat n / 200"
    and "distinct us" and "set us \<subseteq> po_ip ` set lines" and "central \<in> set us" and "times_differ w lines" and "steps_ok w"
    and "\<And>l. l \<in> set lines \<Longrightarrow> po_time l \<le> 25"
  shows "\<exists>r. replay_loop w use_mad lines us smallest central st = Some (Inr r)"
  using assms(1-3)
proof (induction n arbitrary: st)
  case (0 st)
  obtain st' finished where f: "replay_frame w use_mad lines us smallest central st = Inr (st', finished)"
    using frame_ok [OF 0(1) assms(4-7)] by blast
  have "ran_out lines (rp_time st) u" for u
    using 0(3) assms(9) by (fastforce simp: ran_out_def dest: nth_mem)
  then have finished using frame_cases [OF 0(1) assms(4) f] by (simp add: list_all_iff)
  with f show ?case by (simp add: replay_loop.simps [of w use_mad lines us smallest central st])
next
  case (Suc n st)
  obtain st' finished where f: "replay_frame w use_mad lines us smallest central st = Inr (st', finished)"
    using frame_ok [OF Suc.prems(1) assms(4-7)] by blast
  show ?case
  proof (cases finished)
    case True
    with f show ?thesis by (simp add: replay_loop.simps [of w use_mad lines us smallest central st])
  next
    case False
    with f have f': "replay_frame w use_mad lines us smallest central st = Inr (st', False)" by simp
    note next' = frame_cursors [OF Suc.prems(1,2) assms(4,8) f']
    have "rp_time st < 25"
    proof (rule ccontr)
      assume "\<not> rp_time st < 25"
      then have "ran_out lines (rp_time st) u" for u
        using assms(9) by (fastforce simp: ran_out_def dest: nth_mem)
      then show False using frame_cases [OF Suc.prems(1) assms(4) f] False by (simp add: list_all_iff)
    qed
    then have "rp_time st + 1/200 \<le> rp_time st'" using advance_ok(2) [OF assms(8) Suc.prems(2)] next' by simp
    then have "25 - rp_time st' \<le> of_nat n / 200" using Suc.prems(3) by (simp add: field_simps)
    then obtain r where "replay_loop w use_mad lines us smallest central st' = Some (Inr r)" using Suc.IH [of st'] next' by blast
    with f' show ?thesis by (simp add: replay_loop.simps [of w use_mad lines us smallest central st])
  qed
qed

section \<open>The choice of the centre\<close>

lemma smaller_fold:
  assumes "\<And>u. u \<in> set us \<Longrightarrow> last_octet u = Inr (f u)" and "1 < n" and "n \<le> length us"
  shows "\<exists>m. foldE (smaller_uav us) (-1) [1..<n] = Inr (int m) \<and> 1 \<le> m \<and> m < n \<and>
    (\<forall>i. 1 \<le> i \<and> i < n \<longrightarrow> f (us ! m) \<le> f (us ! i)) \<and> (\<forall>i. 1 \<le> i \<and> i < m \<longrightarrow> f (us ! m) < f (us ! i))"
  using assms(2,3)
proof (induction n)
  case (Suc n)
  have step: "smaller_uav us s i = Inr (if s = -1 \<or> f (us ! i) < f (us ! (if s = -1 then length us - 1 else nat s)) then int i else s)"
    if "i < length us" "s = -1 \<or> (0 \<le> s \<and> s < int (length us))" for s i
  proof -
    have ne: "0 < length us" using that by linarith
    have "py_index us s = Inr (us ! (if s = -1 then length us - 1 else nat s))"
      using that ne by (auto simp: py_index_def nat_diff_distrib intro!: arg_cong [where f = "nth us"])
    moreover have "us ! (if s = -1 then length us - 1 else nat s) \<in> set us" using that ne by auto
    moreover have "py_index us (int i) = Inr (us ! i)" using that by (simp add: py_index_def)
    moreover have "us ! i \<in> set us" using that by simp
    ultimately show ?thesis using assms(1) by (simp add: smaller_uav_def)
  qed
  show ?case
  proof (cases "n = 1")
    case True
    then have "foldE (smaller_uav us) (-1) [1..<Suc n] = Inr (int 1)" using step [of 1 "-1"] Suc.prems by simp
    then show ?thesis using True by (intro exI [of _ 1]) (auto simp: less_Suc_eq)
  next
    case False
    then obtain m where m: "foldE (smaller_uav us) (-1) [1..<n] = Inr (int m)" "1 \<le> m" "m < n"
      and least: "\<forall>i. 1 \<le> i \<and> i < n \<longrightarrow> f (us ! m) \<le> f (us ! i)" and first: "\<forall>i. 1 \<le> i \<and> i < m \<longrightarrow> f (us ! m) < f (us ! i)"
      using Suc by auto
    have "foldE (smaller_uav us) (-1) [1..<Suc n] = smaller_uav us (int m) n"
      using m(1,2,3) by (cases "smaller_uav us (int m) n") (simp_all add: foldE_append)
    then have r: "foldE (smaller_uav us) (-1) [1..<Suc n] = Inr (if f (us ! n) < f (us ! m) then int n else int m)"
      using step [of n "int m"] m Suc.prems by simp
    show ?thesis
    proof (cases "f (us ! n) < f (us ! m)")
      case True
      then have "\<forall>i. 1 \<le> i \<and> i < Suc n \<longrightarrow> f (us ! n) \<le> f (us ! i)" "\<forall>i. 1 \<le> i \<and> i < n \<longrightarrow> f (us ! n) < f (us ! i)"
        using least by (fastforce simp: less_Suc_eq)+
      with r True m show ?thesis by (intro exI [of _ n]) simp
    next
      case False
      then have "\<forall>i. 1 \<le> i \<and> i < Suc n \<longrightarrow> f (us ! m) \<le> f (us ! i)" using least by (auto simp: less_Suc_eq)
      with r False m first show ?thesis by (intro exI [of _ m]) simp
    qed
  qed
qed simp

lemma smallest_uav_pick:
  assumes "\<And>u. u \<in> set us \<Longrightarrow> last_octet u = Inr (f u)" and "us \<noteq> []"
  shows "\<exists>i c. smallest_uav us = Inr i \<and> py_index us i = Inr c \<and> c \<in> set us"
proof (cases "length us = 1")
  case True
  then show ?thesis using assms(2) by (cases us) (auto simp: smallest_uav_def py_index_def)
next
  case False
  then have "1 < length us" using assms(2) by (cases us) auto
  from smaller_fold [OF assms(1) this order_refl] obtain m where "smallest_uav us = Inr (int m)" "m < length us"
    by (auto simp: smallest_uav_def)
  then show ?thesis by (auto simp: py_index_def)
qed

section \<open>Properties\<close>

lemma frame_located:
  assumes "cursors_ok lines us st" and "distinct us" and "replay_frame w use_mad lines us smallest central st = Inr (st', finished)"
    and "u \<in> set us"
  shows "case search_lines lines u (rp_time st) 0 None of (b, a, e, d) \<Rightarrow>
    dict_get (rp_before st') u = Some b \<and> dict_get (rp_after st') u = Some a"
proof -
  obtain st1 n where st1: "locate_all lines us st = Inr (st1, n)" "located lines st1 u" "rp_time st1 = rp_time st"
    using locate_all_spec [OF assms(1,2)] assms(4) by auto
  obtain st2 where st2: "(if use_mad then take_sample w lines us smallest central st1 else Inr st1) = Inr st2"
    and r: "rp_before st' = rp_before st2" "rp_after st' = rp_after st2"
    using assms(3) st1(1) by (cases "if use_mad then take_sample w lines us smallest central st1 else Inr st1"; cases "n = length us")
      (auto simp: replay_frame_def Let_def split: if_splits)
  have "rp_before st2 = rp_before st1" "rp_after st2 = rp_after st1"
    using st2 take_sample_keeps [of w lines us smallest central st1 st2] by (auto split: if_splits)
  then show ?thesis using st1(2,3) r by (simp add: located_def split: prod.splits)
qed

text \<open>
  C16: What a frame looks up: although each search starts at the line remembered from the frame before,
  for a vehicle whose lines are in the order of their times every frame finds its last line not
  after the simulated time and its first line after it, in the whole file.
\<close>

theorem frame_looks_up_brackets:
  assumes "replay_reach w use_mad lines us smallest central st" and "distinct us" and "steps_ok w"
    and "replay_frame w use_mad lines us smallest central st = Inr (st', finished)" and "u \<in> set us" and "in_order lines u"
  shows "\<exists>b a. dict_get (rp_before st') u = Some b \<and> dict_get (rp_after st') u = Some a \<and>
    latest_before lines u (rp_time st) b \<and> first_after lines u (rp_time st) a"
proof -
  have c: "cursors_ok lines us st" using reach_cursors [OF assms(1-3)] by simp
  obtain b a e d where r: "search_lines lines u (rp_time st) 0 None = (b, a, e, d)"
    by (cases "search_lines lines u (rp_time st) 0 None")
  show ?thesis
    using frame_located [OF c assms(2,4,5)] search_brackets [OF r assms(6)] r by auto
qed

text \<open>
  The centre of the swarm. With at least two vehicles whose addresses end in a number, the vehicle
  chosen is the one with the least number among all but the first of the list: the first one is
  never chosen, even when its number is the least.
\<close>

theorem central_skips_first:
  assumes "\<And>u. u \<in> set us \<Longrightarrow> last_octet u = Inr (f u)" and "1 < length us"
  shows "\<exists>m. smallest_uav us = Inr (int m) \<and> 1 \<le> m \<and> m < length us \<and>
    f (us ! m) = Min (f ` set (tl us)) \<and> (\<forall>i. 1 \<le> i \<and> i < m \<longrightarrow> f (us ! m) < f (us ! i))"
proof -
  from smaller_fold [OF assms order_refl] obtain m where m: "smallest_uav us = Inr (int m)" "1 \<le> m" "m < length us"
    and least: "\<forall>i. 1 \<le> i \<and> i < length us \<longrightarrow> f (us ! m) \<le> f (us ! i)"
    and first: "\<forall>i. 1 \<le> i \<and> i < m \<longrightarrow> f (us ! m) < f (us ! i)"
    by (auto simp: smallest_uav_def)
  have tl: "set (tl us) = {us ! i | i. 1 \<le> i \<and> i < length us}"
  proof -
    have "x \<in> set (tl us) \<longleftrightarrow> (\<exists>i. x = us ! i \<and> 1 \<le> i \<and> i < length us)" for x
    proof
      assume "x \<in> set (tl us)"
      then obtain j where "j < length (tl us)" "tl us ! j = x" by (auto simp: in_set_conv_nth)
      then show "\<exists>i. x = us ! i \<and> 1 \<le> i \<and> i < length us" by (intro exI [of _ "Suc j"]) (auto simp: nth_tl)
    next
      assume "\<exists>i. x = us ! i \<and> 1 \<le> i \<and> i < length us"
      then obtain i where "x = us ! i" "1 \<le> i" "i < length us" by blast
      then have "x = tl us ! (i - 1)" "i - 1 < length (tl us)" by (auto simp: nth_tl)
      then show "x \<in> set (tl us)" by (metis nth_mem)
    qed
    then show ?thesis by blast
  qed
  have "Min (f ` set (tl us)) = f (us ! m)"
  proof (rule Min_eqI)
    show "f (us ! m) \<in> f ` set (tl us)" using m tl by blast
  next
    fix y
    assume "y \<in> f ` set (tl us)"
    then show "f (us ! m) \<le> y" using least tl by auto
  qed simp
  with m first show ?thesis by auto
qed

theorem central_skips_first_witness:
  "smallest_uav [''10.0.0.1'', ''10.0.0.3'', ''10.0.0.2''] = Inr 2"
proof -
  define f where "f u = (if u = ''10.0.0.1'' then 1 else if u = ''10.0.0.3'' then 3 else (2 :: int))" for u :: string
  have "last_octet ''10.0.0.1'' = Inr 1" "last_octet ''10.0.0.3'' = Inr 3" "last_octet ''10.0.0.2'' = Inr 2" by code_simp+
  then have oct: "last_octet u = Inr (f u)" if "u \<in> set [''10.0.0.1'', ''10.0.0.3'', ''10.0.0.2'']" for u
    using that by (auto simp: f_def)
  obtain m where m: "smallest_uav [''10.0.0.1'', ''10.0.0.3'', ''10.0.0.2''] = Inr (int m)" "1 \<le> m" "m < 3"
    and e: "f ([''10.0.0.1'', ''10.0.0.3'', ''10.0.0.2''] ! m) = Min (f ` {''10.0.0.3'', ''10.0.0.2''})"
    using central_skips_first [of "[''10.0.0.1'', ''10.0.0.3'', ''10.0.0.2'']" f, OF oct] by auto
  from m(2,3) have "m = 1 \<or> m = 2" by linarith
  with e have "m = 2" by (auto simp: f_def)
  with m(1) show ?thesis by simp
qed

text \<open>
  C21: The replay without a window ends, with the data file when one is wanted, if no time in the file is
  above 25. If one is above 26 it does not end: the simulated time stops soon after 25, so that
  vehicle is never done.
\<close>

theorem replay_end:
  assumes "load_positions w raw_lines = Inr lines" and "lines \<noteq> []"
    and "\<And>l. l \<in> set lines \<Longrightarrow> is_ok (last_octet (po_ip l))" and "\<And>xs. mset (set_order xs) = mset xs"
    and "times_differ w lines" and "steps_ok w"
  shows "(list_all (\<lambda>l. po_time l \<le> 25) lines \<longrightarrow> (\<exists>r. graph_only_main w set_order use_mad raw_lines = Some (Inr r))) \<and>
    (list_ex (\<lambda>l. 26 < po_time l) lines \<longrightarrow> graph_only_main w set_order use_mad raw_lines = None)"
proof -
  define us where "us = uavs_of set_order lines"
  have us: "set us = po_ip ` set lines" "distinct us"
    using assms(4) unfolding us_def uavs_of_def
    by (metis set_mset_mset set_remdups list.set_map, metis distinct_remdups mset_eq_imp_distinct_iff)
  then have ne: "us \<noteq> []" using assms(2) by auto
  define f where "f u = (case last_octet u of Inr n \<Rightarrow> n | Inl e \<Rightarrow> 0)" for u
  have oct: "last_octet u = Inr (f u)" if u: "u \<in> set us" for u
  proof -
    obtain l where l: "l \<in> set lines" "u = po_ip l" using u us(1) by (auto simp: image_iff)
    have "is_ok (last_octet u)" unfolding l(2) by (rule assms(3) [OF l(1)])
    then show ?thesis by (cases "last_octet u") (simp_all add: f_def)
  qed
  from smallest_uav_pick [OF oct ne] obtain i c where ic: "smallest_uav us = Inr i" "py_index us i = Inr c" "c \<in> set us" by blast
  have main: "graph_only_main w set_order use_mad raw_lines =
      map_option (map_sum id (\<lambda>st. if use_mad then Some (all_data w st) else None))
        (replay_loop w use_mad lines us i c (init_replay us))"
    using assms(1) ic by (simp add: graph_only_main_def us_def Let_def)
  have "\<exists>r. replay_loop w use_mad lines us i c (init_replay us) = Some (Inr r)" if "list_all (\<lambda>l. po_time l \<le> 25) lines"
    by (rule loop_returns [where n = 5000, OF init_cursors _ _ us(2) _ ic(3) assms(5,6)])
      (use that us(1) in \<open>auto simp: init_replay_def list_all_iff\<close>)
  moreover have "replay_loop w use_mad lines us i c (init_replay us) = None" if late: "list_ex (\<lambda>l. 26 < po_time l) lines"
  proof (rule loop_never_returns [where I = "\<lambda>st. cursors_ok lines us st \<and> 0 \<le> rp_time st \<and> rp_time st \<le> 26"])
    show "cursors_ok lines us (init_replay us) \<and> 0 \<le> rp_time (init_replay us) \<and> rp_time (init_replay us) \<le> 26"
      using init_cursors [of lines us] by (simp add: init_replay_def)
  next
    fix st
    assume I: "cursors_ok lines us st \<and> 0 \<le> rp_time st \<and> rp_time st \<le> 26"
    obtain st' finished where fr: "replay_frame w use_mad lines us i c st = Inr (st', finished)"
      using frame_ok [OF _ us(2) _ ic(3) assms(5), of st] I us(1) by blast
    obtain j where j: "j < length lines" "26 < line_time lines j" using late by (auto simp: list_ex_length)
    then have "\<not> ran_out lines (rp_time st) (po_ip (lines ! j))" using I by (auto simp: ran_out_def)
    moreover have "po_ip (lines ! j) \<in> set us" using j us(1) by simp
    ultimately have nf: "\<not> finished" using frame_cases [OF _ us(2) fr] I by (auto simp: list_all_iff)
    then have "replay_frame w use_mad lines us i c st = Inr (st', False)" using fr by simp
    moreover from frame_cursors [OF _ _ us(2) assms(6) this] I
    have "cursors_ok lines us st'" "0 \<le> rp_time st'" "rp_time st' = advance_time w (rp_time st)" by simp_all
    ultimately show "\<exists>st'. replay_frame w use_mad lines us i c st = Inr (st', False) \<and>
        cursors_ok lines us st' \<and> 0 \<le> rp_time st' \<and> rp_time st' \<le> 26"
      using advance_ok(3) [OF assms(6), of "rp_time st"] I by simp
  qed
  ultimately show ?thesis by (auto simp: main)
qed

definition demo_floats :: float_world where
  "demo_floats =
     \<lparr> fw_float = \<lambda>s. if s = ''30'' then Some 30 else Some 0, fw_round = \<lambda>x. x, fw_single = \<lambda>x. x,
       fw_length = \<lambda>v. \<bar>v_x v\<bar> + \<bar>v_y v\<bar> + \<bar>v_z v\<bar>, fw_mean = \<lambda>xs. sum_list xs / of_nat (length xs),
       fw_show = \<lambda>x. [] \<rparr>"

lemma demo_steps: "steps_ok demo_floats"
  by (simp add: steps_ok_def demo_floats_def fixed_step_def target_fps_def)

lemma demo_load:
  "load_positions demo_floats [''time,ip,x,y,z'', ''0,10.0.0.1,0,0,0'', ''30,10.0.0.1,0,0,0''] =
     Inr [\<lparr>po_time = 0, po_ip = ''10.0.0.1'', po_pos = \<lparr>v_x = 0, v_y = 0, v_z = 0\<rparr>\<rparr>,
          \<lparr>po_time = 30, po_ip = ''10.0.0.1'', po_pos = \<lparr>v_x = 0, v_y = 0, v_z = 0\<rparr>\<rparr>]"
proof -
  have "py_split CHR '','' ''0,10.0.0.1,0,0,0'' = [''0'', ''10.0.0.1'', ''0'', ''0'', ''0'']"
    "py_split CHR '','' ''30,10.0.0.1,0,0,0'' = [''30'', ''10.0.0.1'', ''0'', ''0'', ''0'']"
    by code_simp+
  then show ?thesis
    by (simp add: load_positions_def parse_csv_line_def part_def float_part_def demo_floats_def new_vec3_def Let_def)
qed

theorem replay_end_witness:
  "graph_only_main demo_floats (\<lambda>xs. xs) True [''time,ip,x,y,z'', ''0,10.0.0.1,0,0,0'', ''30,10.0.0.1,0,0,0''] = None"
proof -
  have oct: "is_ok (last_octet ''10.0.0.1'')" by code_simp
  have "list_ex (\<lambda>l. 26 < po_time l)
     [\<lparr>po_time = 0, po_ip = ''10.0.0.1'', po_pos = \<lparr>v_x = 0, v_y = 0, v_z = 0\<rparr>\<rparr>,
      \<lparr>po_time = 30, po_ip = ''10.0.0.1'', po_pos = \<lparr>v_x = 0, v_y = 0, v_z = 0\<rparr>\<rparr>]" by simp
  moreover have "times_differ demo_floats
     [\<lparr>po_time = 0, po_ip = ''10.0.0.1'', po_pos = \<lparr>v_x = 0, v_y = 0, v_z = 0\<rparr>\<rparr>,
      \<lparr>po_time = 30, po_ip = ''10.0.0.1'', po_pos = \<lparr>v_x = 0, v_y = 0, v_z = 0\<rparr>\<rparr>]"
    by (simp add: times_differ_def demo_floats_def)
  ultimately show ?thesis
    using replay_end [OF demo_load _ _ refl _ demo_steps, of True] oct by (metis (no_types, lifting) empty_iff list.distinct(1) list.set(1) position.select_convs(2) set_ConsD)
qed

theorem frame_looks_up_brackets_witness:
  "\<exists>st' b a. replay_frame demo_floats False [\<lparr>po_time = 0, po_ip = ''u'', po_pos = \<lparr>v_x = 0, v_y = 0, v_z = 0\<rparr>\<rparr>] [''u''] (-1) ''u''
       (init_replay [''u'']) = Inr (st', True) \<and>
     dict_get (rp_before st') ''u'' = Some b \<and> dict_get (rp_after st') ''u'' = Some a \<and>
     latest_before [\<lparr>po_time = 0, po_ip = ''u'', po_pos = \<lparr>v_x = 0, v_y = 0, v_z = 0\<rparr>\<rparr>] ''u'' 0 b"
proof -
  let ?lines = "[\<lparr>po_time = 0, po_ip = ''u'', po_pos = \<lparr>v_x = 0, v_y = 0, v_z = 0\<rparr>\<rparr>]"
  have reach: "replay_reach demo_floats False ?lines [''u''] (-1) ''u'' (init_replay [''u''])" by (rule replay_reach.start)
  obtain st' finished where fr: "replay_frame demo_floats False ?lines [''u''] (-1) ''u'' (init_replay [''u'']) = Inr (st', finished)"
    using frame_ok [OF init_cursors, of "[''u'']" ?lines "''u''" demo_floats False "-1"] by (auto simp: times_differ_def)
  then have finished using frame_cases [OF init_cursors _ fr] by (simp add: ran_out_def init_replay_def)
  moreover have "rp_time (init_replay [''u'']) = 0" by (simp add: init_replay_def)
  moreover have "in_order ?lines ''u''" by (simp add: in_order_def)
  ultimately show ?thesis
    using frame_looks_up_brackets [OF reach _ demo_steps fr, of "''u''"] fr by auto
qed

end
