(* ===== verification/Versioning.thy ===== *)
theory Versioning
  imports Py_Int
begin

text \<open>
  \<^verbatim>\<open>waf-tools/versioning.py\<close>: the version of a build out of the tags of its git repository, or out
  of a cache file. The two regular expressions are scanners; the fields are a dictionary. Running
  \<^verbatim>\<open>git\<close> and searching and reading cache files, which waf does, are parameters.
\<close>

section \<open>The regular expressions\<close>

definition hex_digit :: "char \<Rightarrow> bool" where
  "hex_digit c = (is_digit c \<or> (CHR ''a'' \<le> c \<and> c \<le> CHR ''f'') \<or> (CHR ''A'' \<le> c \<and> c \<le> CHR ''F''))"

definition digits_then :: "string \<Rightarrow> (string \<times> string) option" where
  \<comment> \<open>\<open>\d+\<close>, greedy, and the rest\<close>
  "digits_then s = (let d = takeWhile is_digit s in if d = [] then None else Some (d, dropWhile is_digit s))"

definition describe_tail :: "string \<Rightarrow> (string \<times> string \<times> bool) option" where
  \<comment> \<open>\<open>-(\d+)-(g[a-fA-F0-9]+)(?:-(dirty))?\<close> at the start\<close>
  "describe_tail s =
     (if prefix ''-'' s then
        (case digits_then (drop 1 s) of
           None \<Rightarrow> None
         | Some (n, r) \<Rightarrow>
             (if prefix ''-g'' r then
                (let h = takeWhile hex_digit (drop 2 r); r' = dropWhile hex_digit (drop 2 r)
                 in if h = [] then None else Some (n, CHR ''g'' # h, prefix ''-dirty'' r'))
              else None))
      else None)"

text \<open>\<open>(.+)\<close> is greedy: the longest first group that the rest allows. \<open>i\<close> is its length.\<close>

fun match_describe_from :: "nat \<Rightarrow> string \<Rightarrow> (string \<times> string \<times> string \<times> bool) option" where
  "match_describe_from 0 s = None"
| "match_describe_from (Suc i) s =
     (case describe_tail (drop (Suc i) s) of
        Some (n, h, dirty) \<Rightarrow> Some (take (Suc i) s, n, h, dirty)
      | None \<Rightarrow> match_describe_from i s)"

definition match_describe :: "string \<Rightarrow> (string \<times> string \<times> string \<times> bool) option" where
  "match_describe s = match_describe_from (length (takeWhile (\<lambda>c. c \<noteq> newline) s)) s"

definition match_patch :: "string \<Rightarrow> string option \<times> string" where
  \<comment> \<open>\<open>(?:.(\d+))?\<close>\<close>
  "match_patch s =
     (case s of
        [] \<Rightarrow> (None, s)
      | c # r \<Rightarrow> if c = newline then (None, s)
                else (case digits_then r of None \<Rightarrow> (None, s) | Some (d, r') \<Rightarrow> (Some d, r')))"

definition match_candidate :: "string \<Rightarrow> string option" where
  \<comment> \<open>\<open>(?:-(RC.+))?\<close>\<close>
  "match_candidate s =
     (if prefix ''-RC'' s then
        (let t = takeWhile (\<lambda>c. c \<noteq> newline) (drop 3 s) in if t = [] then None else Some (''RC'' @ t))
      else None)"

definition match_version :: "string \<Rightarrow> (string \<times> string \<times> string option \<times> string option) option" where
  "match_version s =
     (if prefix ''ns-'' s then
        (case digits_then (drop 3 s) of
           None \<Rightarrow> None
         | Some (major, r) \<Rightarrow>
             (if prefix ''.'' r then
                (case digits_then (drop 1 r) of
                   None \<Rightarrow> None
                 | Some (minor, r') \<Rightarrow> (let (p, r'') = match_patch r' in Some (major, minor, p, match_candidate r'')))
              else None))
      else None)"

section \<open>The task\<close>

definition quoted :: "string \<Rightarrow> string" where
  "quoted s = [CHR 0x22] @ s @ [CHR 0x22]"

type_synonym fields = "(string, string) dict"

definition parse_version_tag :: "string \<Rightarrow> fields \<Rightarrow> bool \<times> fields" where
  "parse_version_tag tag fields =
     (let safe_tag = py_strip tag in
      case match_version safe_tag of
        None \<Rightarrow> (False, fields)
      | Some (major, minor, patch, candidate) \<Rightarrow>
          (True,
           dict_set ''VERSION_RELEASE_CANDIDATE'' (quoted (case candidate of None \<Rightarrow> [] | Some rc \<Rightarrow> rc))
           (dict_set ''VERSION_PATCH'' (case patch of None \<Rightarrow> ''0'' | Some p \<Rightarrow> p)
           (dict_set ''VERSION_MINOR'' minor
           (dict_set ''VERSION_MAJOR'' major
           (dict_set ''VERSION_TAG'' (quoted safe_tag) fields))))))"

text \<open>A git command gives its output, or fails with an error message.\<close>

type_synonym git_oracle = "string list \<Rightarrow> string + string"

definition describe_cmd :: "string list" where
  "describe_cmd = [''git'', ''describe'', ''--tags'', ''--dirty'', ''--long'']"

definition ns3_tag_cmd :: "string list" where
  "ns3_tag_cmd = [''git'', ''describe'', ''--tags'', ''--abbrev=0'', ''--match'', ''ns-3*'', ''HEAD'']"

definition mismatch :: "string \<Rightarrow> string \<Rightarrow> string" where
  "mismatch what out = what @ ''does not match the expected format (tag='' @ [CHR 0x27] @ out @ [CHR 0x27] @ '')''"

text \<open>An exception keeps the fields set before it was raised.\<close>

definition find_closest_tag :: "git_oracle \<Rightarrow> fields \<Rightarrow> fields \<times> (string + unit)" where
  "find_closest_tag git fields =
     (case git describe_cmd of
        Inl err \<Rightarrow> (fields, Inl (py_strip err))
      | Inr out \<Rightarrow>
          (case match_describe out of
             None \<Rightarrow> (fields, Inl (mismatch ''Closest tag found in git log'' out))
           | Some (tag, distance, hash, dirty) \<Rightarrow>
               (snd (parse_version_tag tag
                  (dict_set ''VERSION_DIRTY_FLAG'' (if dirty then ''1'' else ''0'')
                  (dict_set ''VERSION_COMMIT_HASH'' (quoted hash)
                  (dict_set ''VERSION_TAG_DISTANCE'' distance
                  (dict_set ''CLOSEST_TAG'' (quoted tag) fields))))), Inr ())))"

definition find_closest_ns3_tag :: "git_oracle \<Rightarrow> fields \<Rightarrow> fields \<times> (string + unit)" where
  "find_closest_ns3_tag git fields =
     (case git ns3_tag_cmd of
        Inl err \<Rightarrow> (fields, Inl (py_strip err))
      | Inr out \<Rightarrow>
          (let tag = py_strip out; (result, fields') = parse_version_tag tag fields
           in if result then (fields', Inr ())
              else (fields', Inl (mismatch ''Closest ns3 tag found in git log '' tag))))"

record version_task =
  vt_fields :: fields
  vt_cache :: "fields option" \<comment> \<open>what was stored in the cache file\<close>
  vt_env :: "(string, string) dict"
  vt_log :: "string list"

definition run_version_task :: "git_oracle \<Rightarrow> version_task \<Rightarrow> version_task \<times> int" where
  "run_version_task git t =
     (let (f1, r1) = find_closest_tag git (vt_fields t);
          (f2, r2) = (case r1 of
             Inl err \<Rightarrow> (f1, Inl err)
           | Inr _ \<Rightarrow> if \<not> dict_in ''VERSION_TAG'' f1 then find_closest_ns3_tag git f1 else (f1, Inr ()))
      in case r2 of
           Inl err \<Rightarrow> (t\<lparr>vt_fields := f2,
                        vt_log := vt_log t @ [''Extracting version information from tags failed: '' @ err @ [newline]]\<rparr>, 1)
         | Inr _ \<Rightarrow> (t\<lparr>vt_fields := f2, vt_cache := Some f2,
                      vt_env := foldl (\<lambda>d (k, v). dict_set k v d) (vt_env t) f2\<rparr>, 0))"

section \<open>Configuration\<close>

definition check_git_repo :: "bool \<Rightarrow> git_oracle \<Rightarrow> bool" where
  \<comment> \<open>the first argument: the program \<^verbatim>\<open>git\<close> is found\<close>
  "check_git_repo found git =
     (if \<not> found then False
      else (case git [''git'', ''rev-parse'', ''--show-toplevel''] of Inl err \<Rightarrow> False | Inr out \<Rightarrow> py_strip out \<noteq> []))"

definition check_git_repo_has_ns3_tags :: "git_oracle \<Rightarrow> bool" where
  "check_git_repo_has_ns3_tags git =
     (case git [''git'', ''describe'', ''--tags'', ''--abbrev=0'', ''--match'', ''ns-3.[0-9]*''] of
        Inl err \<Rightarrow> False | Inr out \<Rightarrow> py_strip out \<noteq> [])"

record build_env =
  be_git_repo :: "bool option"
  be_ns3_repo :: "bool option"
  be_fields :: fields

text \<open>The last argument: the contents of the cache files that were found, in order.\<close>

definition configure_version :: "bool \<Rightarrow> bool \<Rightarrow> git_oracle \<Rightarrow> fields list \<Rightarrow> build_env \<Rightarrow> string + build_env" where
  "configure_version enable_build_version found git caches env =
     (if \<not> enable_build_version then Inr env
      else
        (let has_git_repo = check_git_repo found git;
             has_ns3_tags = has_git_repo \<and> check_git_repo_has_ns3_tags git;
             env1 = env\<lparr>be_git_repo := Some has_git_repo, be_ns3_repo := Some has_ns3_tags\<rparr>
         in if has_ns3_tags then Inr env1
            else (case caches of
                    [] \<Rightarrow> Inl ''Unable to find ns3 git repository or version.cache file containing version information''
                  | version_cache # _ \<Rightarrow>
                      Inr (env1\<lparr>be_fields := foldl (\<lambda>d (k, v). dict_set k v d) (be_fields env1) version_cache\<rparr>))))"

section \<open>The scanners on the texts they are meant for\<close>

definition describe_text :: "string \<Rightarrow> nat \<Rightarrow> string \<Rightarrow> bool \<Rightarrow> string" where
  "describe_text tag n h dirty =
     tag @ ''-'' @ show_nat n @ ''-g'' @ h @ (if dirty then ''-dirty'' else []) @ [newline]"

definition version_text :: "nat \<Rightarrow> nat \<Rightarrow> nat option \<Rightarrow> string option \<Rightarrow> string" where
  "version_text major minor patch candidate =
     ''ns-'' @ show_nat major @ ''.'' @ show_nat minor @
     (case patch of None \<Rightarrow> [] | Some p \<Rightarrow> ''.'' @ show_nat p) @
     (case candidate of None \<Rightarrow> [] | Some rc \<Rightarrow> ''-RC'' @ rc)"

lemma digits_then_show:
  assumes "r = [] \<or> \<not> is_digit (hd r)"
  shows "digits_then (show_nat n @ r) = Some (show_nat n, r)"
proof -
  have "takeWhile is_digit (show_nat n @ r) = show_nat n" "dropWhile is_digit (show_nat n @ r) = r"
    using show_nat_digits [of n] assms by (cases r; simp add: takeWhile_append dropWhile_append list_all_iff)+
  then show ?thesis by (simp add: digits_then_def)
qed

lemma digits_then_other: "s = [] \<or> \<not> is_digit (hd s) \<Longrightarrow> digits_then s = None"
  by (cases s) (auto simp: digits_then_def)

lemma hex_digit_chars [simp]: "\<not> hex_digit CHR ''-''" "\<not> hex_digit newline"
  by (simp_all add: hex_digit_def newline_def is_digit_def less_eq_char_def)

lemma hex_split:
  assumes "list_all hex_digit h" and "r \<noteq> []" and "\<not> hex_digit (hd r)"
  shows "takeWhile hex_digit (h @ r) = h" and "dropWhile hex_digit (h @ r) = r"
  using assms by (cases r; simp add: takeWhile_append dropWhile_append list_all_iff)+

lemma describe_tail_text:
  assumes "list_all hex_digit h" and "h \<noteq> []"
  shows "describe_tail (''-'' @ show_nat n @ ''-g'' @ h @ (if dirty then ''-dirty'' else []) @ [newline]) =
    Some (show_nat n, CHR ''g'' # h, dirty)"
proof -
  let ?r = "(if dirty then ''-dirty'' else []) @ [newline]"
  have "\<not> hex_digit (hd ?r)" "?r \<noteq> []" by (cases dirty; simp)+
  note h = hex_split [OF assms(1) this(2,1)]
  have "digits_then (show_nat n @ ''-g'' @ h @ ?r) = Some (show_nat n, ''-g'' @ h @ ?r)"
    by (rule digits_then_show) simp
  then show ?thesis using h assms(2) by (cases dirty) (simp_all add: describe_tail_def newline_def)
qed

text \<open>No later dash starts a tail.\<close>

lemma match_from_skip:
  assumes "\<And>j. i < j \<Longrightarrow> j \<le> k \<Longrightarrow> describe_tail (drop j s) = None" and "i \<le> k"
  shows "match_describe_from k s = match_describe_from i s"
  using assms(2,1)
proof (induction k)
  case (Suc k)
  then show ?case by (cases "i = Suc k") auto
qed simp

lemma describe_tail_None:
  "s = [] \<or> hd s \<noteq> CHR ''-'' \<or> tl s = [] \<or> \<not> is_digit (hd (tl s)) \<Longrightarrow> describe_tail s = None"
  by (cases s) (auto simp: describe_tail_def digits_then_other)

lemma no_tail_after:
  assumes "list_all hex_digit h" and "d = [] \<or> d = ''-dirty''"
  shows "describe_tail (drop m (show_nat n @ ''-g'' @ h @ d @ [newline])) = None"
proof (cases "m < length (show_nat n)")
  case True
  let ?s = "drop m (show_nat n @ ''-g'' @ h @ d @ [newline])"
  have "hd ?s = show_nat n ! m" using True by (simp add: hd_drop_conv_nth nth_append)
  moreover have "is_digit (show_nat n ! m)" using show_nat_digits [of n] True by (simp add: list_all_length)
  ultimately show ?thesis by (intro describe_tail_None) auto
next
  case False
  then obtain p where p: "m = length (show_nat n) + p" using le_Suc_ex not_less by blast
  have tail: "drop m (show_nat n @ ''-g'' @ h @ d @ [newline]) = drop p (''-g'' @ h @ d @ [newline])" by (simp add: p)
  have nodash: "CHR ''-'' \<notin> set h" using assms(1) hex_digit_chars(1) by (auto simp: list_all_iff)
  consider (g) "p < 2" | (hash) q where "p = 2 + q" "q < length h" | (rest) q where "p = 2 + length h + q"
  proof (cases "p < 2")
    case False
    then obtain q where "p = 2 + q" using le_Suc_ex [of 2 p] by auto
    then show ?thesis using that(2,3) le_Suc_ex [of "length h" q] by (cases "q < length h") auto
  qed (rule that(1))
  then show ?thesis
  proof cases
    case g
    then have "p = 0 \<or> p = 1" by auto
    then show ?thesis unfolding tail by (intro describe_tail_None) (auto simp: is_digit_def)
  next
    case hash
    then have "hd (drop p (''-g'' @ h @ d @ [newline])) = h ! q" by (simp add: hd_append hd_drop_conv_nth)
    moreover have "h ! q \<noteq> CHR ''-''" using nodash hash(2) by (metis nth_mem)
    ultimately show ?thesis unfolding tail by (intro describe_tail_None) simp
  next
    case rest
    then have dr: "drop p (''-g'' @ h @ d @ [newline]) = drop q (d @ [newline])" by simp
    have each: "describe_tail (drop q s) = None" if "list_all (\<lambda>i. describe_tail (drop i s) = None) [0..<9]" "length s \<le> 8" for s :: string
    proof (cases "q < 9")
      case True
      then have "q \<in> set [0..<9]" by simp
      with that(1) show ?thesis unfolding list_all_iff by blast
    next
      case False
      then show ?thesis using that(2) by (simp add: describe_tail_def)
    qed
    have L: "list_all (\<lambda>i. describe_tail (drop i (''-dirty'' @ [newline])) = None) [0..<9]"
      "list_all (\<lambda>i. describe_tail (drop i ([] @ [newline])) = None) [0..<9]"
      by code_simp+
    have "describe_tail (drop q (''-dirty'' @ [newline])) = None" by (rule each [OF L(1)]) simp
    moreover have "describe_tail (drop q ([] @ [newline])) = None" by (rule each [OF L(2)]) simp
    ultimately show ?thesis unfolding tail dr using assms(2) by (elim disjE) (simp_all only:)
  qed
qed

lemma match_describe_text:
  assumes "list_all hex_digit h" and "h \<noteq> []" and "tag \<noteq> []" and "newline \<notin> set tag"
  shows "match_describe (describe_text tag n h dirty) = Some (tag, show_nat n, CHR ''g'' # h, dirty)"
proof -
  define d where "d = (if dirty then ''-dirty'' else [])"
  define body where "body = ''-'' @ show_nat n @ ''-g'' @ h @ d"
  have out: "describe_text tag n h dirty = tag @ body @ [newline]" by (simp add: describe_text_def body_def d_def)
  have hn: "newline \<notin> set h" using assms(1) hex_digit_chars(2) by (auto simp: list_all_iff)
  have nb: "newline \<notin> set body"
    using hn show_nat_no_char [of newline n] by (auto simp: body_def d_def newline_def is_digit_def)
  have "\<forall>c \<in> set (tag @ body). c \<noteq> newline" using assms(4) nb by auto
  then have line: "takeWhile (\<lambda>c. c \<noteq> newline) (tag @ body @ [newline]) = tag @ body"
    using takeWhile_append2 [of "tag @ body" "\<lambda>c. c \<noteq> newline" "[newline]"] by simp
  have later: "describe_tail (drop j (tag @ body @ [newline])) = None" if j: "length tag < j" for j
  proof -
    obtain m where m: "j = length tag + Suc m" using j less_iff_Suc_add by auto
    have "drop j (tag @ body @ [newline]) = drop m (show_nat n @ ''-g'' @ h @ d @ [newline])" by (simp add: m body_def)
    then show ?thesis using no_tail_after [OF assms(1), of d m n] by (auto simp: d_def)
  qed
  have "match_describe (tag @ body @ [newline]) = match_describe_from (length tag) (tag @ body @ [newline])"
    unfolding match_describe_def line by (rule match_from_skip [OF later]) simp_all
  also have "\<dots> = Some (tag, show_nat n, CHR ''g'' # h, dirty)"
    using describe_tail_text [OF assms(1,2), of n dirty] assms(3) by (cases tag) (simp_all add: body_def d_def)
  finally show ?thesis by (simp add: out)
qed

lemma match_version_text:
  assumes "case candidate of None \<Rightarrow> True | Some rc \<Rightarrow> rc \<noteq> [] \<and> newline \<notin> set rc"
  shows "match_version (version_text major minor patch candidate) =
    Some (show_nat major, show_nat minor, map_option show_nat patch, map_option (\<lambda>rc. ''RC'' @ rc) candidate)"
proof -
  define c where "c = (case candidate of None \<Rightarrow> [] | Some rc \<Rightarrow> ''-RC'' @ rc)"
  define p where "p = (case patch of None \<Rightarrow> [] | Some n \<Rightarrow> ''.'' @ show_nat n)"
  have c: "c = [] \<or> \<not> is_digit (hd c)" by (auto simp: c_def split: option.splits)
  have cand: "match_candidate c = map_option (\<lambda>rc. ''RC'' @ rc) candidate"
  proof (cases candidate)
    case None
    then show ?thesis by (simp add: c_def match_candidate_def)
  next
    case (Some rc)
    then have "\<forall>x \<in> set rc. x \<noteq> newline" "rc \<noteq> []" using assms by auto
    then have "takeWhile (\<lambda>x. x \<noteq> newline) rc = rc" "rc \<noteq> []" using takeWhile_eq_all_conv by blast+
    then show ?thesis using Some by (simp add: c_def match_candidate_def Let_def del: takeWhile_eq_all_conv)
  qed
  have patch: "match_patch (p @ c) = (map_option show_nat patch, c)"
  proof (cases patch)
    case None
    have "digits_then (tl c) = None" if "c \<noteq> []"
      using that by (intro digits_then_other) (auto simp: c_def is_digit_def split: option.splits)
    then show ?thesis using None by (auto simp: p_def match_patch_def split: list.splits)
  next
    case (Some n)
    then show ?thesis using digits_then_show [OF c, of n] by (simp add: p_def match_patch_def newline_def)
  qed
  have pc: "p @ c = [] \<or> \<not> is_digit (hd (p @ c))" using c by (auto simp: p_def split: option.splits)
  have "digits_then (show_nat major @ ''.'' @ show_nat minor @ p @ c) = Some (show_nat major, ''.'' @ show_nat minor @ p @ c)"
    by (rule digits_then_show) simp
  then show ?thesis
    using digits_then_show [OF pc, of minor] patch cand
    by (simp add: match_version_def version_text_def p_def [symmetric] c_def [symmetric] Let_def)
qed

section \<open>The fields\<close>

definition version_keys :: "string list" where
  "version_keys = [''VERSION_TAG'', ''VERSION_MAJOR'', ''VERSION_MINOR'', ''VERSION_PATCH'', ''VERSION_RELEASE_CANDIDATE'']"

lemma parse_version_fields:
  assumes "parse_version_tag tag f = (ok, f')"
  shows "ok \<longleftrightarrow> match_version (py_strip tag) \<noteq> None" and "\<not> ok \<Longrightarrow> f' = f"
    and "ok \<Longrightarrow> list_all (\<lambda>k. dict_in k f') version_keys"
    and "k \<notin> set version_keys \<Longrightarrow> dict_get f' k = dict_get f k" and "dict_ok f \<Longrightarrow> dict_ok f'"
  using assms
  by (auto simp: parse_version_tag_def version_keys_def dict_in_def dict_get_set dict.ok_set Let_def split: option.splits prod.splits)

lemma update_get:
  assumes "dict_ok f"
  shows "dict_get (foldl (\<lambda>d (k, v). dict_set k v d) d f) k = (case dict_get f k of Some v \<Rightarrow> Some v | None \<Rightarrow> dict_get d k)"
  using assms
proof (induction f arbitrary: d)
  case (Cons p f)
  obtain k' v where p: "p = (k', v)" by fastforce
  have ok: "dict_ok f" "k' \<notin> fst ` set f" using Cons.prems by (simp_all add: dict_ok_def p)
  then have "dict_get f k' = None" by (simp add: dict_get_def map_of_eq_None_iff)
  then show ?case using Cons.IH [OF ok(1)] by (auto simp: p dict_get_def dict_set_def update_conv' split: option.splits)
qed (simp add: dict_get_def)

lemma find_tag_fields:
  assumes "find_closest_tag git f = (f', r)" and "dict_ok f"
  shows "dict_ok f'" and "dict_get f ''VERSION_TAG'' = None \<Longrightarrow> dict_in ''VERSION_TAG'' f' \<Longrightarrow> list_all (\<lambda>k. dict_in k f') version_keys"
proof -
  have "dict_ok f' \<and> (dict_get f ''VERSION_TAG'' = None \<longrightarrow> dict_in ''VERSION_TAG'' f' \<longrightarrow> list_all (\<lambda>k. dict_in k f') version_keys)"
  proof (cases "\<exists>out tag d h dirty. git describe_cmd = Inr out \<and> match_describe out = Some (tag, d, h, dirty)")
    case False
    then have "f' = f" using assms(1) by (auto simp: find_closest_tag_def split: sum.splits option.splits)
    then show ?thesis using assms(2) by (simp add: dict_in_def)
  next
    case True
    then obtain out tag d h dirty where o: "git describe_cmd = Inr out" "match_describe out = Some (tag, d, h, dirty)" by blast
    define f1 where "f1 = dict_set ''VERSION_DIRTY_FLAG'' (if dirty then ''1'' else ''0'')
                  (dict_set ''VERSION_COMMIT_HASH'' (quoted h) (dict_set ''VERSION_TAG_DISTANCE'' d (dict_set ''CLOSEST_TAG'' (quoted tag) f)))"
    have f1: "dict_ok f1" "dict_get f1 ''VERSION_TAG'' = dict_get f ''VERSION_TAG''"
      using assms(2) by (simp_all add: f1_def dict.ok_set dict_get_set)
    obtain ok where pv: "parse_version_tag tag f1 = (ok, f')"
      using assms(1) o by (cases "parse_version_tag tag f1") (auto simp: find_closest_tag_def f1_def)
    show ?thesis
    proof (cases ok)
      case True
      then show ?thesis using parse_version_fields(3,5) [OF pv] f1 by simp
    next
      case False
      then show ?thesis using parse_version_fields(2) [OF pv] f1 by (simp add: dict_in_def)
    qed
  qed
  then show "dict_ok f'" and "dict_get f ''VERSION_TAG'' = None \<Longrightarrow> dict_in ''VERSION_TAG'' f' \<Longrightarrow> list_all (\<lambda>k. dict_in k f') version_keys"
    by blast+
qed

section \<open>Properties\<close>

text \<open>
  The version task either succeeds, and then all fields of the version are in the build environment
  and in the cache file, or it fails, and then neither is touched and the reason is logged.
\<close>

theorem version_task_all_or_nothing:
  assumes "run_version_task git t = (t', r)" and "dict_ok (vt_fields t)" and "dict_get (vt_fields t) ''VERSION_TAG'' = None"
  shows "(r = 0 \<and> list_all (\<lambda>k. dict_in k (vt_env t')) version_keys \<and> vt_cache t' = Some (vt_fields t') \<and> vt_log t' = vt_log t \<and>
      list_all (\<lambda>k. dict_get (vt_env t') k = dict_get (vt_fields t') k) version_keys) \<or>
    (r = 1 \<and> vt_env t' = vt_env t \<and> vt_cache t' = vt_cache t \<and> length (vt_log t') = Suc (length (vt_log t)))"
proof -
  obtain f1 r1 where c: "find_closest_tag git (vt_fields t) = (f1, r1)" by (cases "find_closest_tag git (vt_fields t)")
  obtain f2 r2 where c2: "(case r1 of Inl err \<Rightarrow> (f1, Inl err)
        | Inr _ \<Rightarrow> if \<not> dict_in ''VERSION_TAG'' f1 then find_closest_ns3_tag git f1 else (f1, Inr ())) = (f2, r2)"
    by (metis surj_pair)
  note f1 = find_tag_fields [OF c assms(2)]
  have run: "run_version_task git t = (case r2 of
           Inl err \<Rightarrow> (t\<lparr>vt_fields := f2,
                        vt_log := vt_log t @ [''Extracting version information from tags failed: '' @ err @ [newline]]\<rparr>, 1)
         | Inr _ \<Rightarrow> (t\<lparr>vt_fields := f2, vt_cache := Some f2,
                      vt_env := foldl (\<lambda>d (k, v). dict_set k v d) (vt_env t) f2\<rparr>, 0))"
    by (simp only: run_version_task_def c prod.case Let_def c2)
  show ?thesis
  proof (cases r2)
    case (Inl err)
    then show ?thesis using run assms(1) by auto
  next
    case (Inr x)
    have f2: "dict_ok f2 \<and> list_all (\<lambda>k. dict_in k f2) version_keys"
    proof (cases "dict_in ''VERSION_TAG'' f1")
      case True
      then show ?thesis using f1 assms(3) c2 Inr by (auto split: sum.splits)
    next
      case False
      then have ns: "find_closest_ns3_tag git f1 = (f2, Inr x)" using c2 Inr by (auto split: sum.splits)
      then obtain out where out: "git ns3_tag_cmd = Inr out" by (auto simp: find_closest_ns3_tag_def split: sum.splits)
      obtain ok f3 where pv: "parse_version_tag (py_strip out) f1 = (ok, f3)" by fastforce
      then have "ok" "f3 = f2" using ns out by (auto simp: find_closest_ns3_tag_def Let_def split: if_splits)
      then show ?thesis using parse_version_fields(3,5) [OF pv] f1(1) by simp
    qed
    then have "dict_get (foldl (\<lambda>d (k, v). dict_set k v d) (vt_env t) f2) k = dict_get f2 k" if "k \<in> set version_keys" for k
      using update_get [of f2 "vt_env t" k] that by (auto simp: list_all_iff dict_in_def)
    moreover have "r = 0" "t' = t\<lparr>vt_fields := f2, vt_cache := Some f2, vt_env := foldl (\<lambda>d (k, v). dict_set k v d) (vt_env t) f2\<rparr>"
      using run Inr assms(1) by simp_all
    ultimately show ?thesis using f2 by (auto simp: list_all_iff dict_in_def)
  qed
qed

text \<open>
  C22: Reading a version back: when the closest tag is \<open>ns-\<close>, two numbers, perhaps a patch number and
  perhaps a release candidate, and \<^verbatim>\<open>git describe\<close> prints it with distance, hash and dirty flag,
  then the fields hold exactly these parts.
\<close>

theorem version_roundtrip:
  assumes "git describe_cmd = Inr (describe_text (version_text major minor patch candidate) n h dirty)"
    and "list_all hex_digit h" and "h \<noteq> []" and "case candidate of None \<Rightarrow> True | Some rc \<Rightarrow> list_all (\<lambda>c. \<not> py_space c) rc \<and> rc \<noteq> []"
  shows "snd (run_version_task git t) = 0 \<and>
    (let f = dict_get (vt_fields (fst (run_version_task git t)))
     in f ''VERSION_TAG'' = Some (quoted (version_text major minor patch candidate)) \<and>
        f ''VERSION_MAJOR'' = Some (show_nat major) \<and> f ''VERSION_MINOR'' = Some (show_nat minor) \<and>
        f ''VERSION_PATCH'' = Some (show_nat (case patch of None \<Rightarrow> 0 | Some p \<Rightarrow> p)) \<and>
        f ''VERSION_RELEASE_CANDIDATE'' = Some (quoted (case candidate of None \<Rightarrow> [] | Some rc \<Rightarrow> ''RC'' @ rc)) \<and>
        f ''CLOSEST_TAG'' = Some (quoted (version_text major minor patch candidate)) \<and>
        f ''VERSION_TAG_DISTANCE'' = Some (show_nat n) \<and> f ''VERSION_COMMIT_HASH'' = Some (quoted (CHR ''g'' # h)) \<and>
        f ''VERSION_DIRTY_FLAG'' = Some (if dirty then ''1'' else ''0''))"
proof -
  let ?tag = "version_text major minor patch candidate"
  have nl: "py_space newline" by code_simp
  have cand: "case candidate of None \<Rightarrow> True | Some rc \<Rightarrow> rc \<noteq> [] \<and> newline \<notin> set rc"
    using assms(4) nl by (auto simp: list_all_iff split: option.splits)
  have chars: "\<not> py_space c" if "c \<in> set ?tag" for c
  proof -
    have "\<not> py_space c" if "c \<in> set (show_nat k)" for k
      using show_nat_digits [of k] that by (auto simp: list_all_iff dest!: bspec digit_not_space)
    moreover have "list_all (\<lambda>c. \<not> py_space c) ''ns-.RC''" by code_simp
    ultimately show ?thesis
      using that assms(4) by (auto simp: version_text_def list_all_iff split: option.splits)
  qed
  have strip: "py_strip ?tag = ?tag"
  proof (rule py_strip_id)
    show "?tag \<noteq> []" by (simp add: version_text_def)
    then show "\<not> py_space (hd ?tag)" "\<not> py_space (last ?tag)" using chars by simp_all
  qed
  have "newline \<notin> set ?tag" using chars [of newline] nl by blast
  moreover have "?tag \<noteq> []" by (simp add: version_text_def)
  ultimately have d: "match_describe (describe_text ?tag n h dirty) = Some (?tag, show_nat n, CHR ''g'' # h, dirty)"
    using match_describe_text [OF assms(2,3)] by blast
  define rc where "rc = quoted (case candidate of None \<Rightarrow> [] | Some rc \<Rightarrow> ''RC'' @ rc)"
  define pa where "pa = show_nat (case patch of None \<Rightarrow> 0 | Some p \<Rightarrow> p)"
  define f0 where "f0 = dict_set ''VERSION_DIRTY_FLAG'' (if dirty then ''1'' else ''0'')
      (dict_set ''VERSION_COMMIT_HASH'' (quoted (CHR ''g'' # h)) (dict_set ''VERSION_TAG_DISTANCE'' (show_nat n)
      (dict_set ''CLOSEST_TAG'' (quoted ?tag) (vt_fields t))))"
  define f1 where "f1 = dict_set ''VERSION_RELEASE_CANDIDATE'' rc (dict_set ''VERSION_PATCH'' pa
      (dict_set ''VERSION_MINOR'' (show_nat minor) (dict_set ''VERSION_MAJOR'' (show_nat major) (dict_set ''VERSION_TAG'' (quoted ?tag) f0))))"
  have zero: "show_nat 0 = ''0''" by code_simp
  have pv: "parse_version_tag ?tag f0 = (True, f1)"
    unfolding parse_version_tag_def strip match_version_text [OF cand] Let_def f1_def rc_def pa_def
    by (cases patch; cases candidate) (simp_all add: zero)
  have "find_closest_tag git (vt_fields t) = (f1, Inr ())"
    unfolding find_closest_tag_def assms(1) sum.case d option.case prod.case f0_def [symmetric] pv snd_conv ..
  moreover have "dict_in ''VERSION_TAG'' f1" by (simp add: f1_def dict_in_def dict_get_set)
  ultimately have "run_version_task git t = (t\<lparr>vt_fields := f1, vt_cache := Some f1,
      vt_env := foldl (\<lambda>d (k, v). dict_set k v d) (vt_env t) f1\<rparr>, 0)"
    by (simp add: run_version_task_def)
  then show ?thesis by (simp add: f1_def f0_def dict_get_set rc_def [symmetric] pa_def [symmetric])
qed

definition demo_git :: git_oracle where
  "demo_git cmd =
     (if cmd = describe_cmd then Inr (describe_text (version_text 3 31 None (Some ''1'')) 12 ''ab12'' True) else Inl ''fatal'')"

theorem version_roundtrip_witness:
  "dict_get (vt_fields (fst (run_version_task demo_git \<lparr>vt_fields = [], vt_cache = None, vt_env = [], vt_log = []\<rparr>)))
     ''VERSION_TAG'' = Some (quoted (version_text 3 31 None (Some ''1'')))"
proof -
  have "list_all hex_digit ''ab12''" "list_all (\<lambda>c. \<not> py_space c) ''1''" by code_simp+
  then show ?thesis
    using version_roundtrip [of demo_git 3 31 None "Some ''1''" 12 "''ab12''" True
        "\<lparr>vt_fields = [], vt_cache = None, vt_env = [], vt_log = []\<rparr>"]
    by (simp add: demo_git_def Let_def)
qed

theorem version_task_all_or_nothing_witness:
  "vt_cache (fst (run_version_task (\<lambda>cmd. Inl ''fatal'') \<lparr>vt_fields = [], vt_cache = None, vt_env = [], vt_log = []\<rparr>)) = None"
proof -
  let ?t = "\<lparr>vt_fields = [], vt_cache = None, vt_env = [], vt_log = []\<rparr>"
  have "snd (run_version_task (\<lambda>cmd. Inl ''fatal'') ?t) = 1"
    by (simp add: run_version_task_def find_closest_tag_def)
  then show ?thesis
    using version_task_all_or_nothing [of "\<lambda>cmd. Inl ''fatal''" ?t "fst (run_version_task (\<lambda>cmd. Inl ''fatal'') ?t)" 1]
    by (simp add: dict_ok_def dict_get_def prod_eq_iff)
qed

end
