(* ===== verification/Create_Module.thy ===== *)
theory Create_Module
  imports Py_Strings
begin

text \<open>
  \<^verbatim>\<open>utils/create-module.py\<close>: the templates of a new module, \<open>str.format\<close> over them, the functions
  that write the files of a module, \<open>make_module\<close> with its clean-up, and \<open>main\<close> with the checks of
  its arguments. The file system is a set of directories and a map of files, both by their path
  below the working directory; which directories can be created and which files can be opened is a
  parameter. Texts are ASCII. The arguments are those that \<open>argparse\<close> hands over.
\<close>

section \<open>Templates\<close>

text \<open>In the lines of a template \<open>$\<close> stands for a double and \<open>^\<close> for a single quote.\<close>

definition unquote :: "char \<Rightarrow> char" where
  "unquote c = (if c = CHR ''$'' then CHR 0x22 else if c = CHR ''^'' then CHR 0x27 else c)"

definition template_lines :: "string list \<Rightarrow> string" where
  "template_lines ls = concat (map (\<lambda>l. map unquote l @ [newline]) ls)"

definition wscript_template :: string where
  "wscript_template = template_lines
     [''# -*- Mode: python; py-indent-offset: 4; indent-tabs-mode: nil; coding: utf-8; -*-'', [],
      ''# def options(opt):'', ''#     pass'', [], ''# def configure(conf):'',
      ''#     conf.check_nonfatal(header_name=^stdint.h^, define_name=^HAVE_STDINT_H^)'', [],
      ''def build(bld):'', ''    module = bld.create_ns3_module({MODULE!r}, [^core^])'',
      ''    module.source = ['', ''        ^model/{MODULE}.cc^,'',
      ''        ^helper/{MODULE}-helper.cc^,'', ''        ]'', [],
      ''    module_test = bld.create_ns3_module_test_library(^{MODULE}^)'',
      ''    module_test.source = ['', ''        ^test/{MODULE}-test-suite.cc^,'', ''        ]'',
      ''    # Tests encapsulating example programs should be listed here'',
      ''    if (bld.env[^ENABLE_EXAMPLES^]):'', ''        module_test.source.extend(['',
      ''        #    ^test/{MODULE}-examples-test-suite.cc^,'', ''             ])'', [],
      ''    headers = bld(features=^ns3header^)'', ''    headers.module = {MODULE!r}'',
      ''    headers.source = ['', ''        ^model/{MODULE}.h^,'',
      ''        ^helper/{MODULE}-helper.h^,'', ''        ]'', [], ''    if bld.env.ENABLE_EXAMPLES:'',
      ''        bld.recurse(^examples^)'', [], ''    # bld.ns3_python_bindings()'', []]"

definition model_cc_template :: string where
  "model_cc_template = template_lines
     [''/* -*- Mode:C++; c-file-style:$gnu$; indent-tabs-mode:nil; -*- */'', [],
      ''#include ${MODULE}.h$'', [], ''namespace ns3 {{'', [], ''/* ... */'', [], [], ''}}'', []]"

definition model_h_template :: string where
  "model_h_template = template_lines
     [''/* -*- Mode:C++; c-file-style:$gnu$; indent-tabs-mode:nil; -*- */'', ''#ifndef {INCLUDE_GUARD}'',
      ''#define {INCLUDE_GUARD}'', [], ''namespace ns3 {{'', [], ''/* ... */'', [], ''}}'', [],
      ''#endif /* {INCLUDE_GUARD} */'', []]"

definition helper_cc_template :: string where
  "helper_cc_template = template_lines
     [''/* -*- Mode:C++; c-file-style:$gnu$; indent-tabs-mode:nil; -*- */'', [],
      ''#include ${MODULE}-helper.h$'', [], ''namespace ns3 {{'', [], ''/* ... */'', [], [], ''}}'', []]"

definition helper_h_template :: string where
  "helper_h_template = template_lines
     [''/* -*- Mode:C++; c-file-style:$gnu$; indent-tabs-mode:nil; -*- */'', ''#ifndef {INCLUDE_GUARD}'',
      ''#define {INCLUDE_GUARD}'', [], ''#include $ns3/{MODULE}.h$'', [], ''namespace ns3 {{'', [],
      ''/* ... */'', [], ''}}'', [], ''#endif /* {INCLUDE_GUARD} */'', []]"

definition examples_wscript_template :: string where
  "examples_wscript_template = template_lines
     [''# -*- Mode: python; py-indent-offset: 4; indent-tabs-mode: nil; coding: utf-8; -*-'', [],
      ''def build(bld):'', ''    obj = bld.create_ns3_program(^{MODULE}-example^, [{MODULE!r}])'',
      ''    obj.source = ^{MODULE}-example.cc^'', []]"

definition example_cc_template :: string where
  "example_cc_template = template_lines
     [''/* -*- Mode:C++; c-file-style:$gnu$; indent-tabs-mode:nil; -*- */'', [],
      ''#include $ns3/core-module.h$'', ''#include $ns3/{MODULE}-helper.h$'', [],
      ''using namespace ns3;'', [], [], ''int '', ''main (int argc, char *argv[])'', ''{{'',
      ''  bool verbose = true;'', [], ''  CommandLine cmd (__FILE__);'',
      ''  cmd.AddValue ($verbose$, $Tell application to log if true$, verbose);'', [],
      ''  cmd.Parse (argc,argv);'', [], ''  /* ... */'', [], ''  Simulator::Run ();'',
      ''  Simulator::Destroy ();'', ''  return 0;'', ''}}'', [], []]"

definition test_cc_template :: string where
  "test_cc_template = template_lines
     [''/* -*- Mode:C++; c-file-style:$gnu$; indent-tabs-mode:nil; -*- */'', [],
      ''// Include a header file from your module to test.'', ''#include $ns3/{MODULE}.h$'', [],
      ''// An essential include is test.h'', ''#include $ns3/test.h$'', [],
      ''// Do not put your test classes in namespace ns3.  You may find it useful'',
      ''// to use the using directive to access the ns3 namespace directly'', ''using namespace ns3;'',
      [], ''// This is an example TestCase.'', ''class {CAPITALIZED}TestCase1 : public TestCase'',
      ''{{'', ''public:'', ''  {CAPITALIZED}TestCase1 ();'', ''  virtual ~{CAPITALIZED}TestCase1 ();'',
      [], ''private:'', ''  virtual void DoRun (void);'', ''}};'', [],
      ''// Add some help text to this case to describe what it is intended to test'',
      ''{CAPITALIZED}TestCase1::{CAPITALIZED}TestCase1 ()'',
      ''  : TestCase (${CAPITALIZED} test case (does nothing)$)'', ''{{'', ''}}'', [],
      ''// This destructor does nothing but we include it as a reminder that'',
      ''// the test case should clean up after itself'',
      ''{CAPITALIZED}TestCase1::~{CAPITALIZED}TestCase1 ()'', ''{{'', ''}}'', [], ''//'',
      ''// This method is the pure virtual method from class TestCase that every'',
      ''// TestCase must implement'', ''//'', ''void'', ''{CAPITALIZED}TestCase1::DoRun (void)'', ''{{'',
      ''  // A wide variety of test macros are available in src/core/test.h'',
      ''  NS_TEST_ASSERT_MSG_EQ (true, true, $true doesn^t equal true for some reason$);'',
      ''  // Use this one for floating point comparisons'',
      ''  NS_TEST_ASSERT_MSG_EQ_TOL (0.01, 0.01, 0.001, $Numbers are not equal within tolerance$);'',
      ''}}'', [], ''// The TestSuite class names the TestSuite, identifies what type of TestSuite,'',
      ''// and enables the TestCases to be run.  Typically, only the constructor for'',
      ''// this class must be defined'', ''//'', ''class {CAPITALIZED}TestSuite : public TestSuite'',
      ''{{'', ''public:'', ''  {CAPITALIZED}TestSuite ();'', ''}};'', [],
      ''{CAPITALIZED}TestSuite::{CAPITALIZED}TestSuite ()'', ''  : TestSuite (${MODULE}$, UNIT)'',
      ''{{'', ''  // TestDuration for TestCase can be QUICK, EXTENSIVE or TAKES_FOREVER'',
      ''  AddTestCase (new {CAPITALIZED}TestCase1, TestCase::QUICK);'', ''}}'', [],
      ''// Do not forget to allocate an instance of this TestSuite'',
      ''static {CAPITALIZED}TestSuite s{COMPOUND}TestSuite;'', []]"

definition doc_rst_template :: string where
  "doc_rst_template = template_lines
     [''Example Module Documentation'', ''----------------------------'', [],
      ''.. include:: replace.txt'', ''.. highlight:: cpp'', [], ''.. heading hierarchy:'',
      ''   ------------- Chapter'', ''   ************* Section (#.#)'',
      ''   ============= Subsection (#.#.#)'', ''   ############# Paragraph (no number)'', [],
      ''This is a suggested outline for adding new module documentation to |ns3|.'',
      ''See ``src/click/doc/click.rst`` for an example.'', [],
      ''The introductory paragraph is for describing what this code is trying to'', ''model.'', [],
      ''For consistency (italicized formatting), please use |ns3| to refer to'',
      ''ns-3 in the documentation (and likewise, |ns2| for ns-2).  These macros'',
      ''are defined in the file ``replace.txt``.'', [], ''Model Description'', ''*****************'', [],
      ''The source code for the new module lives in the directory ``{MODULE_DIR}``.'', [],
      ''Add here a basic description of what is being modeled.'', [], ''Design'', ''======'', [],
      ''Briefly describe the software design of the model and how it fits into '',
      ''the existing ns-3 architecture. '', [], ''Scope and Limitations'', ''====================='', [],
      ''What can the model do?  What can it not do?  Please use this section to'',
      ''describe the scope and limitations of the model.'', [], ''References'', ''=========='', [],
      ''Add academic citations here, such as if you published a paper on this'',
      ''model, or if readers should read a particular specification or other work.'', [], ''Usage'',
      ''*****'', [], ''This section is principally concerned with the usage of your model, using'',
      ''the public API.  Focus first on most common usage patterns, then go'',
      ''into more advanced topics.'', [], ''Building New Module'', ''==================='', [],
      ''Include this subsection only if there are special build instructions or'',
      ''platform limitations.'', [], ''Helpers'', ''======='', [],
      ''What helper API will users typically use?  Describe it here.'', [], ''Attributes'',
      ''=========='', [], ''What classes hold attributes, and what are the key ones worth mentioning?'',
      [], ''Output'', ''======'', [],
      ''What kind of data does the model generate?  What are the key trace'',
      ''sources?   What kind of logging output can be enabled?'', [], ''Advanced Usage'',
      ''=============='', [], ''Go into further details (such as using the API outside of the helpers)'',
      ''in additional sections, as needed.'', [], ''Examples'', ''========'', [],
      ''What examples using this new code are available?  Describe them here.'', [], ''Troubleshooting'',
      ''==============='', [], ''Add any tips for avoiding pitfalls, etc.'', [], ''Validation'',
      ''**********'', [], ''Describe how the model has been tested/validated.  What tests run in the'',
      ''test suite?  How much API and code is covered by the tests?  Again, '',
      ''references to outside published work may help here.'']"

section \<open>Formatting\<close>

datatype piece = Lit char | Field string bool \<comment> \<open>\<open>True\<close> for \<open>!r\<close>\<close>

definition parse_field :: "string \<Rightarrow> piece res" where
  "parse_field f =
     (let nm = takeWhile (\<lambda>c. c \<noteq> CHR ''!'') f; conv = dropWhile (\<lambda>c. c \<noteq> CHR ''!'') f
      in if conv = [] \<or> conv = ''!s'' then Inr (Field nm False)
         else if conv = ''!r'' then Inr (Field nm True) else Inl ValueError)"

function parse_format :: "string \<Rightarrow> piece list res" where
  "parse_format [] = Inr []"
| "parse_format (c # s) =
     (if c = CHR ''{'' then
        (case s of
           [] \<Rightarrow> Inl ValueError
         | d # s' \<Rightarrow>
             if d = CHR ''{'' then bindE (parse_format s') (\<lambda>ps. Inr (Lit c # ps))
             else (let f = takeWhile (\<lambda>x. x \<noteq> CHR ''}'') s; r = dropWhile (\<lambda>x. x \<noteq> CHR ''}'') s
                   in if r = [] then Inl ValueError
                      else bindE (parse_field f) (\<lambda>p. bindE (parse_format (tl r)) (\<lambda>ps. Inr (p # ps)))))
      else if c = CHR ''}'' then
        (case s of
           [] \<Rightarrow> Inl ValueError
         | d # s' \<Rightarrow> if d = CHR ''}'' then bindE (parse_format s') (\<lambda>ps. Inr (Lit c # ps)) else Inl ValueError)
      else bindE (parse_format s) (\<lambda>ps. Inr (Lit c # ps)))"
  by pat_completeness auto
termination
  by (relation "measure length") (auto simp: less_Suc_eq_le intro: order_trans [OF diff_le_self le_SucI [OF length_dropWhile_le]])

definition repr_char :: "char \<Rightarrow> char \<Rightarrow> string" where
  "repr_char q c =
     (if c = CHR 0x5C \<or> c = q then [CHR 0x5C, c]
      else if c = newline then [CHR 0x5C, CHR ''n'']
      else if c = CHR 0x0D then [CHR 0x5C, CHR ''r'']
      else if c = CHR 0x09 then [CHR 0x5C, CHR ''t'']
      else [c])"

definition py_repr :: "string \<Rightarrow> string" where
  \<comment> \<open>\<open>repr\<close> of a text without other control characters\<close>
  "py_repr s =
     (let q = (if CHR 0x27 \<in> set s \<and> CHR 0x22 \<notin> set s then CHR 0x22 else CHR 0x27)
      in q # concat (map (repr_char q) s) @ [q])"

fun render_piece :: "(string \<times> string) list \<Rightarrow> piece \<Rightarrow> string res" where
  "render_piece kwargs (Lit c) = Inr [c]"
| "render_piece kwargs (Field k r) =
     (case map_of kwargs k of None \<Rightarrow> Inl KeyError | Some v \<Rightarrow> Inr (if r then py_repr v else v))"

definition str_format :: "string \<Rightarrow> (string \<times> string) list \<Rightarrow> string res" where
  "str_format template kwargs =
     bindE (parse_format template) (\<lambda>ps. bindE (mapE (render_piece kwargs) ps) (\<lambda>ss. Inr (concat ss)))"

section \<open>Files\<close>

type_synonym path = "string list"

record file_tree =
  ft_dirs :: "path set"
  ft_files :: "path \<rightharpoonup> string"

record tree_oracle =
  to_mkdir :: "path \<Rightarrow> bool" \<comment> \<open>the directory can be created\<close>
  to_write :: "path \<Rightarrow> bool" \<comment> \<open>the file can be opened for writing\<close>

text \<open>An exception leaves the tree as it is at that moment.\<close>

type_synonym tree_result = "file_tree \<times> (py_error + unit)"

definition then_do :: "tree_result \<Rightarrow> (file_tree \<Rightarrow> tree_result) \<Rightarrow> tree_result" where
  "then_do r f = (case r of (t, Inl e) \<Rightarrow> (t, Inl e) | (t, Inr _) \<Rightarrow> f t)"

definition path_exists :: "file_tree \<Rightarrow> path \<Rightarrow> bool" where
  "path_exists t p = (p \<in> ft_dirs t \<or> ft_files t p \<noteq> None)"

definition make_dir :: "tree_oracle \<Rightarrow> path \<Rightarrow> file_tree \<Rightarrow> tree_result" where
  "make_dir o' p t =
     (if path_exists t p \<or> \<not> to_mkdir o' p then (t, Inl OSError) else (t\<lparr>ft_dirs := insert p (ft_dirs t)\<rparr>, Inr ()))"

fun make_parents :: "tree_oracle \<Rightarrow> path list \<Rightarrow> file_tree \<Rightarrow> tree_result" where
  "make_parents o' [] t = (t, Inr ())"
| "make_parents o' (p # ps) t =
     (if p \<in> ft_dirs t then make_parents o' ps t
      else then_do (make_dir o' p t) (make_parents o' ps))"

definition mkdir_parents :: "tree_oracle \<Rightarrow> path \<Rightarrow> file_tree \<Rightarrow> tree_result" where
  \<comment> \<open>\<open>p.mkdir(parents=True)\<close>; the proper prefixes are the parents\<close>
  "mkdir_parents o' p t =
     then_do (make_parents o' (map (\<lambda>n. take n p) [1..<length p]) t) (make_dir o' p)"

definition create_file :: "tree_oracle \<Rightarrow> path \<Rightarrow> string \<Rightarrow> (string \<times> string) list \<Rightarrow> file_tree \<Rightarrow> tree_result" where
  "create_file o' p template kwargs t =
     (if \<not> to_write o' p \<or> butlast p \<notin> ft_dirs t \<or> p \<in> ft_dirs t then (t, Inl OSError)
      else (case str_format template kwargs of
              Inl e \<Rightarrow> (t\<lparr>ft_files := (ft_files t)(p \<mapsto> [])\<rparr>, Inl e)
            | Inr s \<Rightarrow> (t\<lparr>ft_files := (ft_files t)(p \<mapsto> s)\<rparr>, Inr ())))"

definition remove_tree :: "path \<Rightarrow> file_tree \<Rightarrow> file_tree" where
  "remove_tree p t =
     t\<lparr>ft_dirs := {q \<in> ft_dirs t. \<not> prefix p q},
       ft_files := (\<lambda>q. if prefix p q then None else ft_files t q)\<rparr>"

section \<open>The files of a module\<close>

definition with_suffix :: "string \<Rightarrow> string \<Rightarrow> string" where
  \<comment> \<open>the last suffix of a name is replaced, if it has one\<close>
  "with_suffix nm suf =
     (let stem = rev (drop 1 (dropWhile (\<lambda>c. c \<noteq> CHR ''.'') (rev nm)))
      in if CHR ''.'' \<in> set nm \<and> stem \<noteq> [] \<and> last nm \<noteq> CHR ''.'' then stem @ suf else nm @ suf)"

definition include_guard :: "string \<Rightarrow> string \<Rightarrow> string" where
  "include_guard modname tail' = py_upper (map (\<lambda>c. if c = CHR ''-'' then CHR ''_'' else c) modname) @ tail'"

definition py_capitalize :: "string \<Rightarrow> string" where
  "py_capitalize s =
     (case s of
        [] \<Rightarrow> []
      | c # r \<Rightarrow> py_upper [c] @ map (\<lambda>x. if CHR ''A'' \<le> x \<and> x \<le> CHR ''Z'' then char_of (of_char x + 32 :: nat) else x) r)"

definition capitalized :: "string \<Rightarrow> string" where
  "capitalized modname = concat (map py_capitalize (py_split CHR ''-'' modname))"

definition compound :: "string \<Rightarrow> string" where
  "compound modname =
     (case py_split CHR ''-'' modname of [] \<Rightarrow> [] | w # ws \<Rightarrow> w @ concat (map py_capitalize ws))"

definition make_wscript :: "tree_oracle \<Rightarrow> path \<Rightarrow> string \<Rightarrow> file_tree \<Rightarrow> tree_result" where
  "make_wscript o' moduledir modname =
     create_file o' (moduledir @ [''wscript'']) wscript_template [(''MODULE'', modname)]"

definition make_model :: "tree_oracle \<Rightarrow> path \<Rightarrow> string \<Rightarrow> file_tree \<Rightarrow> tree_result" where
  "make_model o' moduledir modname t =
     (let modelpath = moduledir @ [''model''] in
      then_do (mkdir_parents o' modelpath t) (\<lambda>t.
      then_do (create_file o' (modelpath @ [with_suffix modname ''.cc'']) model_cc_template [(''MODULE'', modname)] t) (\<lambda>t.
      create_file o' (modelpath @ [with_suffix modname ''.h'']) model_h_template
        [(''MODULE'', modname), (''INCLUDE_GUARD'', include_guard modname ''_H'')] t)))"

definition make_test :: "tree_oracle \<Rightarrow> path \<Rightarrow> string \<Rightarrow> file_tree \<Rightarrow> tree_result" where
  "make_test o' moduledir modname t =
     (let testpath = moduledir @ [''test''] in
      then_do (mkdir_parents o' testpath t) (\<lambda>t.
      create_file o' (testpath @ [with_suffix (modname @ ''-test-suite'') ''.cc'']) test_cc_template
        [(''MODULE'', modname), (''CAPITALIZED'', capitalized modname), (''COMPOUND'', compound modname)] t))"

definition make_helper :: "tree_oracle \<Rightarrow> path \<Rightarrow> string \<Rightarrow> file_tree \<Rightarrow> tree_result" where
  "make_helper o' moduledir modname t =
     (let helperpath = moduledir @ [''helper''] in
      then_do (mkdir_parents o' helperpath t) (\<lambda>t.
      then_do (create_file o' (helperpath @ [with_suffix (modname @ ''-helper'') ''.cc'']) helper_cc_template
        [(''MODULE'', modname)] t) (\<lambda>t.
      create_file o' (helperpath @ [with_suffix (modname @ ''-helper'') ''.h'']) helper_h_template
        [(''MODULE'', modname), (''INCLUDE_GUARD'', include_guard modname ''_HELPER_H'')] t)))"

definition make_examples :: "tree_oracle \<Rightarrow> path \<Rightarrow> string \<Rightarrow> file_tree \<Rightarrow> tree_result" where
  "make_examples o' moduledir modname t =
     (let examplespath = moduledir @ [''examples''] in
      then_do (mkdir_parents o' examplespath t) (\<lambda>t.
      then_do (create_file o' (examplespath @ [''wscript'']) examples_wscript_template [(''MODULE'', modname)] t) (\<lambda>t.
      create_file o' (examplespath @ [with_suffix (modname @ ''-example'') ''.cc'']) example_cc_template
        [(''MODULE'', modname)] t)))"

definition make_doc :: "tree_oracle \<Rightarrow> path \<Rightarrow> string \<Rightarrow> file_tree \<Rightarrow> tree_result" where
  "make_doc o' moduledir modname t =
     (let docpath = moduledir @ [''doc'']; mod_relpath = py_join ''/'' moduledir in
      then_do (mkdir_parents o' docpath t) (\<lambda>t.
      create_file o' (docpath @ [modname @ ''.rst'']) doc_rst_template
        [(''MODULE'', modname), (''MODULE_DIR'', mod_relpath)] t))"

definition module_steps :: "tree_oracle \<Rightarrow> path \<Rightarrow> string \<Rightarrow> (file_tree \<Rightarrow> tree_result) list" where
  "module_steps o' modulepath modname =
     map (\<lambda>f. f o' modulepath modname) [make_wscript, make_model, make_test, make_helper, make_examples, make_doc]"

fun run_steps :: "(file_tree \<Rightarrow> tree_result) list \<Rightarrow> file_tree \<Rightarrow> tree_result" where
  "run_steps [] t = (t, Inr ())"
| "run_steps (f # fs) t = then_do (f t) (run_steps fs)"

definition make_module :: "tree_oracle \<Rightarrow> path \<Rightarrow> string \<Rightarrow> file_tree \<Rightarrow> file_tree \<times> bool" where
  "make_module o' modpath modname t =
     (let modulepath = modpath @ [modname] in
      if path_exists t modulepath then (t, False)
      else (case then_do (mkdir_parents o' modulepath t) (run_steps (module_steps o' modulepath modname)) of
              (t', Inr _) \<Rightarrow> (t', True)
            | (t', Inl e) \<Rightarrow> (if path_exists t' modulepath then remove_tree modulepath t' else t', False)))"

section \<open>Arguments\<close>

definition path_root :: "string \<Rightarrow> string" where
  "path_root s =
     (if prefix ''//'' s \<and> \<not> prefix ''///'' s then ''//'' else if prefix ''/'' s then ''/'' else [])"

definition path_parts :: "string \<Rightarrow> string list" where
  "path_parts s = filter (\<lambda>c. c \<noteq> [] \<and> c \<noteq> ''.'') (py_split CHR ''/'' s)"

definition strip_sep :: "string \<Rightarrow> string" where
  "strip_sep s = rev (dropWhile (\<lambda>c. c = CHR ''/'') (rev (dropWhile (\<lambda>c. c = CHR ''/'') s)))"

definition word_char :: "char \<Rightarrow> bool" where
  "word_char c = (is_digit c \<or> (CHR ''a'' \<le> c \<and> c \<le> CHR ''z'') \<or> (CHR ''A'' \<le> c \<and> c \<le> CHR ''Z'') \<or> c = CHR ''_'')"

definition allowed :: "string \<Rightarrow> bool" where
  \<comment> \<open>\<open>^(\w|-)+$\<close>; \<open>$\<close> also matches before a newline at the end\<close>
  "allowed s =
     (let body = (if s \<noteq> [] \<and> last s = newline then butlast s else s)
      in body \<noteq> [] \<and> list_all (\<lambda>c. word_char c \<or> c = CHR ''-'') body)"

text \<open>\<open>parser.error\<close> ends the program with status 2, any other exception with status 1.\<close>

definition project_parts :: "string \<Rightarrow> string list option res" where
  "project_parts project =
     (if project = [] then Inr None
      else if path_root project = ''//'' then Inl ValueError
      else if list_all allowed (path_parts project) then Inr (Some (path_parts project))
      else Inl (SystemExit 2))"

definition module_target :: "string \<Rightarrow> string list option \<Rightarrow> string \<Rightarrow> (path \<times> string) option res" where
  "module_target project project_path name0 =
     (let name = strip_sep name0; parts = path_parts name in
      if name = [] then Inr None
      else if length parts > 2 then Inr None
      else if parts = [] then Inl IndexError
      else if hd parts = ''src'' \<and> project \<noteq> [] then Inl (SystemExit 2)
      else
        (let modpath0 = (if hd parts = ''src'' then [''src''] else [''contrib'']);
             rest = (if hd parts = ''src'' \<or> hd parts = ''contrib'' then tl parts else parts);
             modpath = (case project_path of None \<Rightarrow> modpath0 | Some pp \<Rightarrow> ''contrib'' # pp)
         in if rest = [] then Inl IndexError
            else if \<not> allowed (hd rest) then Inr None
            else Inr (Some (modpath, hd rest))))"

definition module_targets :: "string \<Rightarrow> string list option \<Rightarrow> string list \<Rightarrow> (path \<times> string) list res" where
  "module_targets project project_path modnames =
     bindE (mapE (module_target project project_path) modnames) (\<lambda>ts. Inr (List.map_filter id ts))"

fun make_modules :: "tree_oracle \<Rightarrow> (path \<times> string) list \<Rightarrow> file_tree \<Rightarrow> file_tree \<times> bool" where
  "make_modules o' [] t = (t, True)"
| "make_modules o' ((modpath, modname) # ms) t =
     (let (t', ok) = make_module o' modpath modname t in if ok then make_modules o' ms t' else (t', False))"

definition create_main :: "tree_oracle \<Rightarrow> string \<Rightarrow> string list \<Rightarrow> file_tree \<Rightarrow> file_tree \<times> int" where
  "create_main o' project modnames t =
     (if [''src''] \<notin> ft_dirs t \<or> [''contrib''] \<notin> ft_dirs t then (t, 2)
      else (case bindE (project_parts project) (\<lambda>pp. module_targets project pp modnames) of
              Inl (SystemExit n) \<Rightarrow> (t, n)
            | Inl e \<Rightarrow> (t, 1)
            | Inr ms \<Rightarrow> (fst (make_modules o' ms t), 0)))"

section \<open>The templates are complete\<close>

definition fields_in :: "string list \<Rightarrow> string \<Rightarrow> bool" where
  "fields_in keys template =
     (case parse_format template of
        Inl e \<Rightarrow> False
      | Inr ps \<Rightarrow> list_all (\<lambda>p. case p of Lit c \<Rightarrow> True | Field k r \<Rightarrow> k \<in> set keys) ps)"

lemma parse_append:
  "parse_format s = Inr ps \<Longrightarrow> parse_format (s @ s') = bindE (parse_format s') (\<lambda>qs. Inr (ps @ qs))"
proof (induction s arbitrary: ps rule: parse_format.induct)
  case 1
  then show ?case by (cases "parse_format s'") auto
next
  case (2 c s)
  consider (field) "c = CHR ''{''" | (close) "c = CHR ''}''" | (char) "c \<noteq> CHR ''{''" "c \<noteq> CHR ''}''" by blast
  then show ?case
  proof cases
    case field
    then obtain d s1 where s: "s = d # s1" using "2.prems" by (cases s) auto
    show ?thesis
    proof (cases "d = CHR ''{''")
      case True
      then obtain qs where qs: "parse_format s1 = Inr qs" "ps = Lit c # qs"
        using "2.prems" field s by (auto simp: bindE_Inr_conv)
      from "2.IH"(1) [OF field s True qs(1)] show ?thesis
        using field s True qs by (cases "parse_format s'") auto
    next
      case False
      define r where "r = dropWhile (\<lambda>x. x \<noteq> CHR ''}'') s"
      from False "2.prems" field s obtain p qs where p: "r \<noteq> []" "parse_field (takeWhile (\<lambda>x. x \<noteq> CHR ''}'') s) = Inr p"
        "parse_format (tl r) = Inr qs" "ps = p # qs"
        by (auto simp: Let_def bindE_Inr_conv r_def split: if_splits)
      then have mem: "\<exists>x \<in> set s. \<not> x \<noteq> CHR ''}''" by (auto simp: r_def)
      have t: "takeWhile (\<lambda>x. x \<noteq> CHR ''}'') (s @ s') = takeWhile (\<lambda>x. x \<noteq> CHR ''}'') s"
        "dropWhile (\<lambda>x. x \<noteq> CHR ''}'') (s @ s') = r @ s'"
        using mem by (auto simp: takeWhile_append1 dropWhile_append1 r_def)
      have "parse_format (tl r @ s') = bindE (parse_format s') (\<lambda>qs'. Inr (qs @ qs'))"
        using "2.IH"(2) [OF field s False refl r_def p(1) p(2) p(3)] .
      moreover have "parse_format ((c # s) @ s') = bindE (parse_format (tl r @ s')) (\<lambda>qs. Inr (p # qs))"
        using field s False t p(1,2) by (simp add: Let_def)
      ultimately show ?thesis using p(4) by (cases "parse_format s'") auto
    qed
  next
    case close
    then have co: "c \<noteq> CHR ''{''" by auto
    from close obtain s1 qs where s: "s = CHR ''}'' # s1" "parse_format s1 = Inr qs" "ps = Lit c # qs"
      using "2.prems" by (cases s) (auto simp: bindE_Inr_conv split: if_splits)
    from "2.IH"(3) [OF co close s(1) refl s(2)] show ?thesis
      using close s by (cases "parse_format s'") auto
  next
    case char
    then obtain qs where qs: "parse_format s = Inr qs" "ps = Lit c # qs" using "2.prems" by (auto simp: bindE_Inr_conv)
    from "2.IH"(4) [OF char qs(1)] show ?thesis
      using char qs by (cases "parse_format s'") auto
  qed
qed

lemma fields_append:
  assumes "fields_in keys s" and "fields_in keys s'"
  shows "fields_in keys (s @ s')"
proof -
  obtain ps qs where "parse_format s = Inr ps" "parse_format s' = Inr qs"
    using assms by (auto simp: fields_in_def split: sum.splits)
  then show ?thesis using parse_append [of s ps s'] assms by (simp add: fields_in_def)
qed

lemma fields_template:
  "list_all (\<lambda>l. fields_in keys (map unquote l @ [newline])) ls \<Longrightarrow> fields_in keys (template_lines ls)"
proof (induction ls)
  case Nil
  then show ?case by (simp add: template_lines_def fields_in_def)
next
  case (Cons l ls)
  then show ?case using fields_append [of keys "map unquote l @ [newline]" "template_lines ls"]
    by (simp add: template_lines_def)
qed

lemma wscript_fields: "fields_in [''MODULE''] wscript_template"
  unfolding wscript_template_def by (rule fields_template) code_simp

lemma model_cc_fields: "fields_in [''MODULE''] model_cc_template"
  unfolding model_cc_template_def by (rule fields_template) code_simp

lemma model_h_fields: "fields_in [''MODULE'', ''INCLUDE_GUARD''] model_h_template"
  unfolding model_h_template_def by (rule fields_template) code_simp

lemma helper_cc_fields: "fields_in [''MODULE''] helper_cc_template"
  unfolding helper_cc_template_def by (rule fields_template) code_simp

lemma helper_h_fields: "fields_in [''MODULE'', ''INCLUDE_GUARD''] helper_h_template"
  unfolding helper_h_template_def by (rule fields_template) code_simp

lemma examples_wscript_fields: "fields_in [''MODULE''] examples_wscript_template"
  unfolding examples_wscript_template_def by (rule fields_template) code_simp

lemma example_cc_fields: "fields_in [''MODULE''] example_cc_template"
  unfolding example_cc_template_def by (rule fields_template) code_simp

lemma test_cc_fields: "fields_in [''MODULE'', ''CAPITALIZED'', ''COMPOUND''] test_cc_template"
  unfolding test_cc_template_def by (rule fields_template) code_simp

lemma doc_rst_fields: "fields_in [''MODULE'', ''MODULE_DIR''] doc_rst_template"
  unfolding doc_rst_template_def by (rule fields_template) code_simp

end
