(* ===== verification/Module_Tree.thy ===== *)
theory Module_Tree
  imports Create_Module
begin

text \<open>
  What the module generator of \<^verbatim>\<open>utils/create-module.py\<close> does to the file system: a creation that
  goes through writes exactly the files of a module, one that fails takes back everything inside
  the module's directory, and no run overwrites or removes a file or leaves \<open>src\<close> and \<open>contrib\<close>.
\<close>

section \<open>Trees\<close>

definition tree_ok :: "file_tree \<Rightarrow> bool" where
  "tree_ok t \<longleftrightarrow> (\<forall>p x. path_exists t (p @ [x]) \<longrightarrow> p = [] \<or> p \<in> ft_dirs t) \<and>
     (\<forall>p \<in> ft_dirs t. ft_files t p = None)"

lemma tree_parent: "tree_ok t \<Longrightarrow> path_exists t (p @ [x]) \<Longrightarrow> p \<noteq> [] \<Longrightarrow> p \<in> ft_dirs t"
  by (auto simp: tree_ok_def)

lemma nothing_below:
  assumes "tree_ok t" and "p \<noteq> []" and "\<not> path_exists t p"
  shows "\<not> path_exists t (p @ q)"
proof (induction q rule: rev_induct)
  case Nil
  then show ?case using assms by simp
next
  case (snoc x q)
  show ?case
  proof
    assume "path_exists t (p @ q @ [x])"
    then have "p @ q \<in> ft_dirs t" using tree_parent [of t "p @ q" x] assms by simp
    then show False using snoc by (simp add: path_exists_def)
  qed
qed

lemma nothing_under:
  assumes "tree_ok t" "p \<noteq> []" "\<not> path_exists t p" "prefix p q"
  shows "q \<notin> ft_dirs t" "ft_files t q = None"
  using nothing_below [OF assms(1-3)] assms(4) by (auto simp: path_exists_def prefix_def)

text \<open>A step reaches a module's path if it removes nothing, makes directories only on the way to
  that path or below it, and writes files only below it.\<close>

definition reaches :: "path \<Rightarrow> file_tree \<Rightarrow> file_tree \<Rightarrow> bool" where
  "reaches mp t t' \<longleftrightarrow> ft_dirs t \<subseteq> ft_dirs t' \<and>
     (\<forall>q \<in> ft_dirs t' - ft_dirs t. q \<noteq> [] \<and> (prefix mp q \<or> strict_prefix q mp)) \<and>
     (\<forall>q. \<not> prefix mp q \<longrightarrow> ft_files t' q = ft_files t q)"

lemma reaches_refl [simp]: "reaches mp t t"
  by (simp add: reaches_def)

lemma reaches_trans:
  assumes "reaches mp t u" and "reaches mp u v"
  shows "reaches mp t v"
proof -
  have "ft_dirs t \<subseteq> ft_dirs v" using assms by (auto simp: reaches_def)
  moreover have "q \<noteq> [] \<and> (prefix mp q \<or> strict_prefix q mp)" if "q \<in> ft_dirs v - ft_dirs t" for q
    using assms that by (cases "q \<in> ft_dirs u") (simp_all add: reaches_def)
  moreover have "ft_files v q = ft_files t q" if "\<not> prefix mp q" for q
    using assms that by (simp add: reaches_def)
  ultimately show ?thesis by (simp add: reaches_def)
qed

lemma reaches_then_do:
  assumes "reaches mp t (fst r)" and "\<And>u. reaches mp u (fst (f u))"
  shows "reaches mp t (fst (then_do r f))"
proof (cases "snd r")
  case (Inl e)
  then have "then_do r f = r" by (cases r) (simp add: then_do_def)
  then show ?thesis using assms(1) by simp
next
  case (Inr x)
  then have "then_do r f = f (fst r)" by (cases r) (simp add: then_do_def)
  then show ?thesis using reaches_trans [OF assms(1) assms(2)] by simp
qed

lemma reaches_make_dir: "p \<noteq> [] \<Longrightarrow> prefix mp p \<or> strict_prefix p mp \<Longrightarrow> reaches mp t (fst (make_dir o' p t))"
  by (auto simp: make_dir_def reaches_def)

lemma reaches_make_parents:
  "\<forall>p \<in> set ps. p \<noteq> [] \<and> (prefix mp p \<or> strict_prefix p mp) \<Longrightarrow> reaches mp t (fst (make_parents o' ps t))"
proof (induction ps arbitrary: t)
  case Nil
  then show ?case by simp
next
  case (Cons p ps)
  then show ?case by (auto intro: reaches_then_do reaches_make_dir)
qed

lemma comparable_take: "prefix mp p \<or> prefix p mp \<Longrightarrow> prefix mp (take n p) \<or> strict_prefix (take n p) mp"
  by (metis prefix_order.le_less prefix_same_cases take_is_prefix prefix_order.trans)

lemma reaches_mkdir_parents:
  assumes "p \<noteq> []" and "prefix mp p \<or> prefix p mp"
  shows "reaches mp t (fst (mkdir_parents o' p t))"
  unfolding mkdir_parents_def
proof (rule reaches_then_do)
  show "reaches mp t (fst (make_parents o' (map (\<lambda>n. take n p) [1..<length p]) t))"
    by (rule reaches_make_parents) (use comparable_take [OF assms(2)] in \<open>auto simp: assms(1)\<close>)
  show "reaches mp u (fst (make_dir o' p u))" for u
    using reaches_make_dir [of p mp u o'] assms comparable_take [OF assms(2), of "length p"] by simp
qed

lemma reaches_create_file: "prefix mp p \<Longrightarrow> reaches mp t (fst (create_file o' p tm kw t))"
  by (auto simp: create_file_def reaches_def split: sum.splits)

lemmas reaches_intros = reaches_then_do reaches_mkdir_parents reaches_create_file

lemma reaches_module_steps: "f \<in> set (module_steps o' mp m) \<Longrightarrow> reaches mp t (fst (f t))"
  by (auto simp: module_steps_def make_wscript_def make_model_def make_test_def make_helper_def make_examples_def
        make_doc_def Let_def intro!: reaches_intros)

lemma reaches_run_steps: "\<forall>f \<in> set fs. \<forall>t. reaches mp t (fst (f t)) \<Longrightarrow> reaches mp t (fst (run_steps fs t))"
proof (induction fs arbitrary: t)
  case Nil
  then show ?case by simp
next
  case (Cons f fs)
  then show ?case by (auto intro!: reaches_then_do)
qed

lemma reaches_module:
  assumes "mp \<noteq> []"
  shows "reaches mp t (fst (then_do (mkdir_parents o' mp t) (run_steps (module_steps o' mp m))))"
  by (rule reaches_then_do) (auto intro: reaches_mkdir_parents reaches_run_steps reaches_module_steps simp: assms)

section \<open>Well-formed trees stay well-formed\<close>

text \<open>What every step of \<open>make_module\<close> keeps.\<close>

lemma then_do_keeps:
  assumes "P (fst r)" and "\<And>u. P u \<Longrightarrow> P (fst (f u))"
  shows "P (fst (then_do r f))"
proof (cases r)
  case (Pair u x)
  then show ?thesis using assms by (cases x) (simp_all add: then_do_def)
qed

lemma make_dir_ok:
  assumes "tree_ok t" and "butlast p = [] \<or> butlast p \<in> ft_dirs t"
  shows "tree_ok (fst (make_dir o' p t))"
  using assms by (auto simp: make_dir_def tree_ok_def path_exists_def butlast_append)

lemma make_parents_files [simp]: "ft_files (fst (make_parents o' ps t)) = ft_files t"
  by (induction ps arbitrary: t) (auto simp: then_do_def make_dir_def)

lemma make_parents_dirs:
  "ft_dirs (fst (make_parents o' ps t)) \<subseteq> ft_dirs t \<union> set ps \<and> ft_dirs t \<subseteq> ft_dirs (fst (make_parents o' ps t)) \<and>
   (snd (make_parents o' ps t) = Inr () \<longrightarrow> set ps \<subseteq> ft_dirs (fst (make_parents o' ps t)))"
proof (induction ps arbitrary: t)
  case Nil
  then show ?case by simp
next
  case (Cons p ps)
  show ?case
  proof (cases "p \<in> ft_dirs t \<or> path_exists t p \<or> \<not> to_mkdir o' p")
    case True
    then show ?thesis using Cons.IH [of t] by (auto simp: then_do_def make_dir_def)
  next
    case False
    then show ?thesis using Cons.IH [of "t\<lparr>ft_dirs := insert p (ft_dirs t)\<rparr>"] by (auto simp: then_do_def make_dir_def)
  qed
qed

lemma make_parents_ok:
  assumes "tree_ok t" and "\<forall>p \<in> set ps. butlast p = [] \<or> butlast p \<in> ft_dirs t \<or> butlast p \<in> set ps" and "sorted (map length ps)"
  shows "tree_ok (fst (make_parents o' ps t))"
  using assms
proof (induction ps arbitrary: t)
  case Nil
  then show ?case by simp
next
  case (Cons p ps)
  have up: "butlast p = [] \<or> butlast p \<in> ft_dirs t"
  proof (rule ccontr)
    assume a: "\<not> (butlast p = [] \<or> butlast p \<in> ft_dirs t)"
    then have "butlast p \<in> set (p # ps)" using Cons.prems(2) by auto
    moreover have "\<forall>x \<in> set (p # ps). length p \<le> length x" using Cons.prems(3) by simp
    ultimately have "length p \<le> length (butlast p)" by blast
    then have "p = []" by (cases p rule: rev_cases) simp_all
    with a show False by simp
  qed
  show ?case
  proof (cases "p \<in> ft_dirs t")
    case True
    then show ?thesis using Cons.prems Cons.IH [of t] by auto
  next
    case False
    show ?thesis
    proof (cases "path_exists t p \<or> \<not> to_mkdir o' p")
      case True
      then show ?thesis using False Cons.prems(1) by (simp add: then_do_def make_dir_def)
    next
      case new: False
      have "tree_ok (t\<lparr>ft_dirs := insert p (ft_dirs t)\<rparr>)"
        using make_dir_ok [OF Cons.prems(1) up, of o'] new by (simp add: make_dir_def)
      then show ?thesis using False new Cons.prems Cons.IH [of "t\<lparr>ft_dirs := insert p (ft_dirs t)\<rparr>"]
        by (auto simp: then_do_def make_dir_def)
    qed
  qed
qed

lemma parents_closed:
  "q \<in> set (map (\<lambda>n. take n p) [1..<length p]) \<Longrightarrow> butlast q = [] \<or> butlast q \<in> set (map (\<lambda>n. take n p) [1..<length p])"
proof -
  assume "q \<in> set (map (\<lambda>n. take n p) [1..<length p])"
  then obtain n where n: "1 \<le> n" "n < length p" "q = take n p" by auto
  then have "butlast q = take (n - 1) p" by (simp add: butlast_take)
  moreover have "n \<noteq> 1 \<Longrightarrow> take (n - 1) p \<in> set (map (\<lambda>n. take n p) [1..<length p])"
    using n unfolding set_map by (intro imageI) auto
  ultimately show ?thesis by (cases "n = 1") auto
qed

lemma sorted_parents: "sorted (map length (map (\<lambda>n. take n p) [1..<length p]))"
proof -
  have "map length (map (\<lambda>n. take n p) [1..<length p]) = map id [1..<length p]"
    unfolding map_map by (rule map_cong) auto
  then show ?thesis by (simp del: map_map)
qed

lemma butlast_in_parents: "p \<noteq> [] \<Longrightarrow> butlast p = [] \<or> butlast p \<in> set (map (\<lambda>n. take n p) [1..<length p])"
  by (cases p rule: rev_cases) (auto simp: image_iff Suc_le_eq intro!: bexI [of _ "length p - 1"])

lemma mkdir_parents_ok:
  assumes "tree_ok t" and "p \<noteq> []"
  shows "tree_ok (fst (mkdir_parents o' p t))"
proof -
  define r where "r = make_parents o' (map (\<lambda>n. take n p) [1..<length p]) t"
  have r: "tree_ok (fst r)" unfolding r_def
    by (rule make_parents_ok) (use assms parents_closed [of _ p] sorted_parents [of p] in blast)+
  show ?thesis
  proof (cases "snd r")
    case (Inl e)
    then show ?thesis using r unfolding mkdir_parents_def r_def [symmetric] by (cases r) (simp add: then_do_def)
  next
    case (Inr x)
    then have "butlast p = [] \<or> butlast p \<in> ft_dirs (fst r)"
      using make_parents_dirs [of o' "map (\<lambda>n. take n p) [1..<length p]" t] butlast_in_parents [OF assms(2)]
      by (auto simp: r_def)
    then show ?thesis using Inr r make_dir_ok [OF r, of p o']
      unfolding mkdir_parents_def r_def [symmetric] by (cases r) (simp add: then_do_def)
  qed
qed

lemma create_file_tree_ok: "tree_ok t \<Longrightarrow> p \<noteq> [] \<Longrightarrow> tree_ok (fst (create_file o' p tm kw t))"
  by (auto simp: create_file_def tree_ok_def path_exists_def split: sum.splits)

lemma module_steps_ok: "f \<in> set (module_steps o' mp m) \<Longrightarrow> tree_ok t \<Longrightarrow> tree_ok (fst (f t))"
  by (auto simp: module_steps_def make_wscript_def make_model_def make_test_def make_helper_def make_examples_def
        make_doc_def Let_def intro!: then_do_keeps [where P = tree_ok] mkdir_parents_ok create_file_tree_ok)

lemma run_steps_ok: "\<forall>f \<in> set fs. \<forall>t. tree_ok t \<longrightarrow> tree_ok (fst (f t)) \<Longrightarrow> tree_ok t \<Longrightarrow> tree_ok (fst (run_steps fs t))"
proof (induction fs arbitrary: t)
  case Nil
  then show ?case by simp
next
  case (Cons f fs)
  then show ?case by (auto intro!: then_do_keeps [where P = tree_ok])
qed

lemma module_ok:
  "tree_ok t \<Longrightarrow> mp \<noteq> [] \<Longrightarrow> tree_ok (fst (then_do (mkdir_parents o' mp t) (run_steps (module_steps o' mp m))))"
  by (rule then_do_keeps [where P = tree_ok]) (auto intro: mkdir_parents_ok run_steps_ok module_steps_ok)

section \<open>Failure leaves nothing behind\<close>

lemma make_module_unfold:
  "make_module o' modpath m t =
     (let mp = modpath @ [m]; r = then_do (mkdir_parents o' mp t) (run_steps (module_steps o' mp m)) in
      if path_exists t mp then (t, False)
      else case snd r of Inr _ \<Rightarrow> (fst r, True)
           | Inl e \<Rightarrow> (if path_exists (fst r) mp then remove_tree mp (fst r) else fst r, False))"
  by (simp add: make_module_def Let_def split: prod.split sum.split)

lemma make_module_cases:
  assumes "tree_ok t"
  defines "mp \<equiv> \<lambda>modpath m. modpath @ [m]"
  shows "tree_ok (fst (make_module o' modpath m t)) \<or> \<not> snd (make_module o' modpath m t)"
    and "snd (make_module o' modpath m t) \<Longrightarrow> reaches (mp modpath m) t (fst (make_module o' modpath m t))
      \<and> \<not> path_exists t (mp modpath m)"
proof -
  note mk = make_module_unfold [of o' modpath m t]
  show "tree_ok (fst (make_module o' modpath m t)) \<or> \<not> snd (make_module o' modpath m t)"
    using module_ok [OF assms(1), of "modpath @ [m]" o' m] mk by (simp add: Let_def split: prod.splits sum.splits)
  show "reaches (mp modpath m) t (fst (make_module o' modpath m t)) \<and> \<not> path_exists t (mp modpath m)"
    if "snd (make_module o' modpath m t)"
    using reaches_module [of "modpath @ [m]" t o' m] that mk
    by (simp add: Let_def mp_def split: prod.splits sum.splits if_splits)
qed

lemma mkdir_fails:
  assumes "mkdir_parents o' p t = (u, Inl e)" and "\<not> path_exists t p"
  shows "ft_files u = ft_files t" and "\<not> path_exists u p"
proof -
  define ps where "ps = map (\<lambda>n. take n p) [1..<length p]"
  obtain v x where v: "make_parents o' ps t = (v, x)" by fastforce
  have p: "p \<notin> set ps"
  proof
    assume "p \<in> set ps"
    then obtain n where n: "n < length p" "p = take n p" unfolding ps_def by auto
    from arg_cong [OF n(2), of length] n(1) show False by (simp only: length_take)
  qed
  from make_parents_dirs [of o' ps t] make_parents_files [of o' ps t] v
  have d: "ft_dirs v \<subseteq> ft_dirs t \<union> set ps" "ft_files v = ft_files t" by simp_all
  have "u = v" using assms(1) v unfolding mkdir_parents_def ps_def [symmetric]
    by (cases x) (auto simp: then_do_def make_dir_def split: if_splits)
  then show "ft_files u = ft_files t" "\<not> path_exists u p" using d p assms(2) by (auto simp: path_exists_def)
qed

lemma mkdir_done: "mkdir_parents o' p t = (u, Inr x) \<Longrightarrow> p \<in> ft_dirs u"
  by (auto simp: mkdir_parents_def then_do_def make_dir_def split: prod.splits sum.splits if_splits)

lemma failed_tree:
  assumes "tree_ok t" and "make_module o' modpath m t = (t', False)"
  shows "ft_files t' = ft_files t \<and> ft_dirs t \<subseteq> ft_dirs t' \<and>
    ft_dirs t' - ft_dirs t \<subseteq> {q. q \<noteq> [] \<and> strict_prefix q (modpath @ [m])}"
proof (cases "path_exists t (modpath @ [m])")
  case True
  then show ?thesis using assms(2) by (simp add: make_module_def Let_def)
next
  case fresh: False
  define mp where "mp = modpath @ [m]"
  have mp: "mp \<noteq> []" "\<not> path_exists t mp" using fresh by (simp_all add: mp_def)
  note below = nothing_under [OF assms(1) mp]
  obtain u x where u: "mkdir_parents o' mp t = (u, x)" by fastforce
  obtain v e where v: "then_do (u, x) (run_steps (module_steps o' mp m)) = (v, Inl e)"
    and t': "t' = (if path_exists v mp then remove_tree mp v else v)"
    using assms(2) fresh u unfolding make_module_unfold
    by (cases "then_do (u, x) (run_steps (module_steps o' mp m))")
      (auto simp: Let_def mp_def [symmetric] split: sum.splits)
  have tv: "reaches mp t v" using reaches_module [OF mp(1), of t o' m] u v by simp
  show ?thesis
  proof (cases x)
    case (Inl e')
    then have "v = u" using v by (simp add: then_do_def)
    then have "ft_files v = ft_files t" "\<not> path_exists v mp" using mkdir_fails [OF u [unfolded Inl] mp(2)] by simp_all
    moreover have "\<not> prefix mp q" if "q \<in> ft_dirs v" for q
    proof
      assume "prefix mp q"
      then have "path_exists v mp"
        using nothing_under(1) [of v mp q] module_ok [OF assms(1) mp(1), of o' m] u v that mp(1) by auto
      with calculation(2) show False by simp
    qed
    ultimately show ?thesis using tv t' unfolding reaches_def mp_def [symmetric] by auto
  next
    case (Inr y)
    have "reaches mp u v" using reaches_run_steps [of "module_steps o' mp m" mp u] reaches_module_steps v Inr
      by (force simp: then_do_def)
    then have "path_exists v mp" using mkdir_done [OF u [unfolded Inr]] by (auto simp: reaches_def path_exists_def)
    then have t'': "t' = remove_tree mp v" using t' by simp
    have "ft_files t' q = ft_files t q" for q
      using tv below(2) [of q] by (auto simp: t'' remove_tree_def reaches_def)
    moreover have "ft_dirs t \<subseteq> ft_dirs t'" using tv below(1) by (auto simp: t'' remove_tree_def reaches_def)
    moreover have "ft_dirs t' - ft_dirs t \<subseteq> {q. q \<noteq> [] \<and> strict_prefix q mp}"
      using tv by (auto simp: t'' remove_tree_def reaches_def)
    ultimately show ?thesis by (simp add: mp_def [symmetric] ext)
  qed
qed

text \<open>C20: a module whose creation fails leaves no file of it behind: every file of the tree is as it
  was, and the only new directories are parents of the module's directory.\<close>

theorem failed_module_removed:
  assumes "tree_ok t" and "make_module o' modpath m t = (t', False)"
  shows "ft_files t' = ft_files t \<and> ft_dirs t \<subseteq> ft_dirs t' \<and>
    ft_dirs t' - ft_dirs t \<subseteq> {q. q \<noteq> [] \<and> strict_prefix q (modpath @ [m])}"
  by (rule failed_tree [OF assms])

text \<open>The empty top level: the two directories the script looks for.\<close>

definition top_level :: file_tree where
  "top_level = \<lparr>ft_dirs = {[''src''], [''contrib'']}, ft_files = Map.empty\<rparr>"

lemma top_level_ok: "tree_ok top_level"
  by (auto simp: tree_ok_def top_level_def path_exists_def)

lemma failed_module_removed_witness:
  "snd (make_module \<lparr>to_mkdir = \<lambda>_. True, to_write = \<lambda>_. False\<rparr> [''contrib''] ''m'' top_level) = False \<and>
   ft_files (fst (make_module \<lparr>to_mkdir = \<lambda>_. True, to_write = \<lambda>_. False\<rparr> [''contrib''] ''m'' top_level)) = Map.empty"
proof -
  obtain t' ok where e: "make_module \<lparr>to_mkdir = \<lambda>_. True, to_write = \<lambda>_. False\<rparr> [''contrib''] ''m'' top_level = (t', ok)"
    by fastforce
  moreover from e have ok: "ok = False"
    by (simp add: make_module_def Let_def path_exists_def top_level_def mkdir_parents_def then_do_def make_dir_def
          module_steps_def make_wscript_def create_file_def)
  ultimately show ?thesis using failed_module_removed [OF top_level_ok e [unfolded ok]] by (simp add: top_level_def)
qed

section \<open>A run only adds\<close>

text \<open>What every creation keeps: nothing is removed or overwritten, and what is new lies on the
  way to the module or below it.\<close>

definition adds_under :: "path \<Rightarrow> file_tree \<Rightarrow> file_tree \<Rightarrow> bool" where
  "adds_under mp t t' \<longleftrightarrow> ft_dirs t \<subseteq> ft_dirs t' \<and> ft_files t \<subseteq>\<^sub>m ft_files t' \<and>
     (\<forall>q. path_exists t' q \<and> \<not> path_exists t q \<longrightarrow> q \<noteq> [] \<and> (prefix mp q \<or> strict_prefix q mp))"

lemma make_module_adds:
  assumes "tree_ok t"
  shows "adds_under (modpath @ [m]) t (fst (make_module o' modpath m t))"
proof (cases "make_module o' modpath m t")
  case (Pair t' ok)
  show ?thesis
  proof (cases ok)
    case True
    then have r: "reaches (modpath @ [m]) t t'" "\<not> path_exists t (modpath @ [m])"
      using make_module_cases(2) [OF assms, of o' modpath m] Pair by simp_all
    have f: "ft_files t' q = ft_files t q" if "ft_files t q \<noteq> None" for q
      using r nothing_under(2) [OF assms _ r(2), of q] that by (auto simp: reaches_def)
    have n: "q \<noteq> [] \<and> (prefix (modpath @ [m]) q \<or> strict_prefix q (modpath @ [m]))"
      if "path_exists t' q" "\<not> path_exists t q" for q
    proof (cases "prefix (modpath @ [m]) q")
      case True
      then show ?thesis by auto
    next
      case False
      then have "q \<in> ft_dirs t' - ft_dirs t" using that r(1) by (auto simp: reaches_def path_exists_def)
      then show ?thesis using r(1) by (auto simp: reaches_def)
    qed
    show ?thesis using r(1) f n by (auto simp: adds_under_def Pair reaches_def map_le_def)
  next
    case False
    then have "make_module o' modpath m t = (t', False)" using Pair by simp
    from failed_tree [OF assms this] show ?thesis by (auto simp: adds_under_def Pair path_exists_def)
  qed
qed

text \<open>Every place the arguments lead to is in \<open>src\<close> or \<open>contrib\<close>.\<close>

definition module_place :: "path \<Rightarrow> bool" where
  "module_place p \<longleftrightarrow> p \<noteq> [] \<and> (hd p = ''src'' \<or> hd p = ''contrib'')"

lemma target_place: "module_target project pp nm = Inr (Some (modpath, m)) \<Longrightarrow> module_place modpath \<and> allowed m"
  by (auto simp: module_target_def Let_def module_place_def split: if_splits option.splits)

lemma mapE_Inr_set: "mapE f xs = Inr ys \<Longrightarrow> y \<in> set ys \<Longrightarrow> \<exists>x \<in> set xs. f x = Inr y"
proof (induction xs arbitrary: ys)
  case Nil
  then show ?case by simp
next
  case (Cons x xs)
  then show ?case by (auto simp: bindE_Inr_conv)
qed

lemma targets_places:
  assumes "module_targets project pp names = Inr ms" and "(modpath, m) \<in> set ms"
  shows "module_place modpath"
proof -
  obtain ts where ts: "mapE (module_target project pp) names = Inr ts" "ms = List.map_filter id ts"
    using assms(1) by (auto simp: module_targets_def bindE_Inr_conv)
  then have "Some (modpath, m) \<in> set ts" using assms(2) by (auto simp: map_filter_def)
  then show ?thesis using mapE_Inr_set [OF ts(1)] target_place by blast
qed

definition adds_in_place :: "file_tree \<Rightarrow> file_tree \<Rightarrow> bool" where
  "adds_in_place t t' \<longleftrightarrow> ft_dirs t \<subseteq> ft_dirs t' \<and> ft_files t \<subseteq>\<^sub>m ft_files t' \<and>
     (\<forall>q. path_exists t' q \<and> \<not> path_exists t q \<longrightarrow> module_place q)"

lemma adds_in_place_refl [simp]: "adds_in_place t t"
  by (simp add: adds_in_place_def)

lemma adds_in_place_trans:
  assumes "adds_in_place t u" and "adds_in_place u v"
  shows "adds_in_place t v"
proof -
  have "module_place q" if "path_exists v q" "\<not> path_exists t q" for q
    using assms that by (cases "path_exists u q") (simp_all add: adds_in_place_def)
  then show ?thesis using assms map_le_trans [of "ft_files t" "ft_files u" "ft_files v"] by (auto simp: adds_in_place_def)
qed

lemma under_in_place:
  assumes "adds_under mp t t'" and "module_place mp"
  shows "adds_in_place t t'"
proof -
  have "module_place q" if "q \<noteq> []" "prefix mp q \<or> strict_prefix q mp" for q
    using that assms(2) by (auto simp: module_place_def prefix_def strict_prefix_def hd_append split: if_splits)
  then show ?thesis using assms(1) by (simp add: adds_under_def adds_in_place_def)
qed

lemma make_modules_add:
  "tree_ok t \<Longrightarrow> \<forall>(modpath, m) \<in> set ms. module_place modpath \<Longrightarrow> adds_in_place t (fst (make_modules o' ms t))"
proof (induction ms arbitrary: t)
  case Nil
  then show ?case by simp
next
  case (Cons x ms)
  obtain modpath m where x: "x = (modpath, m)" by fastforce
  have "module_place (modpath @ [m])" using Cons.prems(2) x by (auto simp: module_place_def)
  then have a: "adds_in_place t (fst (make_module o' modpath m t))"
    using under_in_place make_module_adds [OF Cons.prems(1)] by blast
  show ?case
  proof (cases "snd (make_module o' modpath m t)")
    case True
    then have "tree_ok (fst (make_module o' modpath m t))" using make_module_cases(1) [OF Cons.prems(1)] by blast
    then show ?thesis using True Cons.IH Cons.prems(2) x a adds_in_place_trans
      by (cases "make_module o' modpath m t") (auto simp del: adds_in_place_refl)
  next
    case False
    then show ?thesis using x a by (cases "make_module o' modpath m t") simp
  qed
qed

text \<open>C13: a run of the generator never overwrites or removes a file or a directory, and everything
  it adds lies in \<open>src\<close> or \<open>contrib\<close>, whatever the arguments are.\<close>

theorem create_main_only_adds:
  assumes "tree_ok t"
  shows "ft_dirs t \<subseteq> ft_dirs (fst (create_main o' project names t)) \<and>
    ft_files t \<subseteq>\<^sub>m ft_files (fst (create_main o' project names t)) \<and>
    {q. path_exists (fst (create_main o' project names t)) q} - {q. path_exists t q}
      \<subseteq> {q. q \<noteq> [] \<and> (hd q = ''src'' \<or> hd q = ''contrib'')}"
proof -
  have "adds_in_place t (fst (create_main o' project names t))"
  proof (cases "bindE (project_parts project) (\<lambda>pp. module_targets project pp names)")
    case (Inl e)
    then show ?thesis by (cases e) (simp_all add: create_main_def)
  next
    case (Inr ms)
    then obtain pp where "module_targets project pp names = Inr ms" by (auto simp: bindE_Inr_conv)
    then have "\<forall>(modpath, m) \<in> set ms. module_place modpath" using targets_places by blast
    from make_modules_add [OF assms this] show ?thesis using Inr by (simp add: create_main_def)
  qed
  then show ?thesis by (auto simp: adds_in_place_def module_place_def)
qed

lemma create_main_only_adds_witness:
  defines "t \<equiv> top_level\<lparr>ft_dirs := insert [''contrib'', ''m''] (ft_dirs top_level),
                        ft_files := [[''contrib'', ''m'', ''wscript''] \<mapsto> ''mine'']\<rparr>"
  shows "ft_files (fst (create_main \<lparr>to_mkdir = \<lambda>_. True, to_write = \<lambda>_. True\<rparr> [] [''x'', ''m''] t))
           [''contrib'', ''m'', ''wscript''] = Some ''mine''"
proof -
  have "tree_ok t" by (auto simp: t_def tree_ok_def top_level_def path_exists_def split: if_splits)
  from create_main_only_adds [OF this] show ?thesis
    by (simp add: map_le_def t_def)
qed

section \<open>A successful creation\<close>

definition formatted :: "string \<Rightarrow> (string \<times> string) list \<Rightarrow> string" where
  "formatted template kwargs = (case str_format template kwargs of Inl e \<Rightarrow> [] | Inr s \<Rightarrow> s)"

lemma render_fields:
  "list_all (\<lambda>p. case p of Lit c \<Rightarrow> True | Field k r \<Rightarrow> k \<in> set (map fst kwargs)) ps \<Longrightarrow>
   \<exists>ss. mapE (render_piece kwargs) ps = Inr ss"
proof (induction ps)
  case Nil
  then show ?case by simp
next
  case (Cons p ps)
  then obtain ss where ss: "mapE (render_piece kwargs) ps = Inr ss" by auto
  show ?case
  proof (cases p)
    case (Lit c)
    then show ?thesis using ss by simp
  next
    case (Field k r)
    then obtain v where "map_of kwargs k = Some v"
      using Cons.prems by (cases "map_of kwargs k") (auto simp: map_of_eq_None_iff)
    then show ?thesis using ss Field by simp
  qed
qed

text \<open>A template whose fields are all given formats without an exception.\<close>

lemma str_format_total:
  assumes "fields_in (map fst kwargs) template"
  shows "str_format template kwargs = Inr (formatted template kwargs)"
proof -
  obtain ps where ps: "parse_format template = Inr ps"
    using assms by (cases "parse_format template") (simp_all add: fields_in_def)
  have f: "list_all (\<lambda>p. case p of Lit c \<Rightarrow> True | Field k r \<Rightarrow> k \<in> set (map fst kwargs)) ps"
    using assms unfolding fields_in_def ps by (simp only: sum.case)
  from render_fields [OF f] ps show ?thesis by (auto simp: str_format_def formatted_def)
qed

lemma create_file_done:
  assumes "to_write o' (d @ [f])" "d \<in> ft_dirs t" "d @ [f] \<notin> ft_dirs t" "fields_in (map fst kwargs) template"
  shows "create_file o' (d @ [f]) template kwargs t = (t\<lparr>ft_files := (ft_files t)(d @ [f] \<mapsto> formatted template kwargs)\<rparr>, Inr ())"
  using assms by (simp add: create_file_def str_format_total)

lemma make_parents_done:
  "\<forall>p \<in> set ps. ft_files t p = None \<and> to_mkdir o' p \<Longrightarrow>
   make_parents o' ps t = (t\<lparr>ft_dirs := ft_dirs t \<union> set ps\<rparr>, Inr ())"
proof (induction ps arbitrary: t)
  case Nil
  then show ?case by simp
next
  case (Cons p ps)
  then show ?case by (auto simp: then_do_def make_dir_def path_exists_def insert_absorb)
qed

definition parents :: "path \<Rightarrow> path set" where
  "parents p = {q. q \<noteq> [] \<and> strict_prefix q p}"

lemma parents_eq: "set (map (\<lambda>n. take n p) [1..<length p]) = parents p"
proof
  show "parents p \<subseteq> set (map (\<lambda>n. take n p) [1..<length p])"
  proof
    fix q assume "q \<in> parents p"
    then obtain r where "p = q @ r" "r \<noteq> []" "q \<noteq> []" by (auto simp: parents_def strict_prefix_def prefix_def)
    then have "q = take (length q) p" "length q \<in> set [1..<length p]" by (auto simp: Suc_le_eq)
    then show "q \<in> set (map (\<lambda>n. take n p) [1..<length p])" unfolding set_map by (rule image_eqI)
  qed
  show "set (map (\<lambda>n. take n p) [1..<length p]) \<subseteq> parents p"
  proof
    fix q assume "q \<in> set (map (\<lambda>n. take n p) [1..<length p])"
    then obtain n where n: "1 \<le> n" "n < length p" "q = take n p" by auto
    then have "length q < length p" "q \<noteq> []" by (auto simp: take_eq_Nil)
    then show "q \<in> parents p" using n(3) by (auto simp: parents_def strict_prefix_def take_is_prefix)
  qed
qed

lemma mkdir_parents_done:
  assumes "\<forall>q \<in> parents p. ft_files t q = None \<and> to_mkdir o' q" "\<not> path_exists t p" "to_mkdir o' p"
  shows "mkdir_parents o' p t = (t\<lparr>ft_dirs := insert p (ft_dirs t \<union> parents p)\<rparr>, Inr ())"
proof -
  have p: "p \<notin> parents p" by (simp add: parents_def)
  have "make_parents o' (map (\<lambda>n. take n p) [1..<length p]) t = (t\<lparr>ft_dirs := ft_dirs t \<union> parents p\<rparr>, Inr ())"
    using make_parents_done [of "map (\<lambda>n. take n p) [1..<length p]" t o'] assms(1) unfolding parents_eq by simp
  then show ?thesis using assms(2,3) p by (simp add: mkdir_parents_def then_do_def make_dir_def path_exists_def)
qed

text \<open>The subdirectory of a module whose own directory is there.\<close>

lemma parents_snoc: "mp \<noteq> [] \<Longrightarrow> parents (mp @ [d]) = insert mp (parents mp)"
  by (auto simp: parents_def strict_prefix_def)

text \<open>The directory of the module is there, with the directories above it.\<close>

definition ready :: "path \<Rightarrow> path set \<Rightarrow> (path \<rightharpoonup> string) \<Rightarrow> bool" where
  "ready mp D F \<longleftrightarrow> mp \<noteq> [] \<and> (\<forall>q \<in> insert mp (parents mp). q \<in> D \<and> F q = None)"

text \<open>Nothing lies at an entry of the module's directory or below it.\<close>

definition free :: "path \<Rightarrow> string \<Rightarrow> path set \<Rightarrow> (path \<rightharpoonup> string) \<Rightarrow> bool" where
  "free mp d D F \<longleftrightarrow> (\<forall>xs. mp @ d # xs \<notin> D \<and> F (mp @ d # xs) = None)"

lemma not_above [simp]: "\<not> strict_prefix (p @ xs) p"
  by (auto simp: strict_prefix_def prefix_def)

lemma ready_dirs [simp]: "ready mp D F \<Longrightarrow> ready mp (insert p D) F"
  by (simp add: ready_def)

lemma ready_files [simp]: "ready mp D F \<Longrightarrow> ready mp D (F(mp @ d # xs \<mapsto> s))"
  by (auto simp: ready_def parents_def)

lemma free_dirs [simp]: "d \<noteq> d' \<Longrightarrow> free mp d (insert (mp @ d' # ds) D) F = free mp d D F"
  by (simp add: free_def)

lemma free_files [simp]: "d \<noteq> d' \<Longrightarrow> free mp d D (F(mp @ d' # ds \<mapsto> s)) = free mp d D F"
  by (simp add: free_def)

lemma mkdir_sub_done:
  assumes "ready mp (ft_dirs t) (ft_files t)" "free mp d (ft_dirs t) (ft_files t)" "\<forall>q. to_mkdir o' q"
  shows "mkdir_parents o' (mp @ [d]) t = (t\<lparr>ft_dirs := insert (mp @ [d]) (ft_dirs t)\<rparr>, Inr ())"
proof -
  have mp: "mp \<noteq> []" using assms(1) by (simp add: ready_def)
  have "\<forall>q \<in> parents (mp @ [d]). ft_files t q = None"
    using assms(1) by (auto simp: parents_snoc [OF mp] ready_def)
  moreover have "insert (mp @ [d]) (ft_dirs t \<union> parents (mp @ [d])) = insert (mp @ [d]) (ft_dirs t)"
    using assms(1) by (auto simp: parents_snoc [OF mp] ready_def)
  ultimately show ?thesis using mkdir_parents_done [of "mp @ [d]" t o'] assms by (simp add: free_def path_exists_def)
qed

text \<open>The files of a module, each with its template and the arguments of the template.\<close>

definition module_files :: "path \<Rightarrow> string \<Rightarrow> (path \<times> string \<times> (string \<times> string) list) list" where
  "module_files mp m =
     [(mp @ [''wscript''], wscript_template, [(''MODULE'', m)]),
      (mp @ [''model'', m @ ''.cc''], model_cc_template, [(''MODULE'', m)]),
      (mp @ [''model'', m @ ''.h''], model_h_template, [(''MODULE'', m), (''INCLUDE_GUARD'', include_guard m ''_H'')]),
      (mp @ [''test'', m @ ''-test-suite.cc''], test_cc_template,
        [(''MODULE'', m), (''CAPITALIZED'', capitalized m), (''COMPOUND'', compound m)]),
      (mp @ [''helper'', m @ ''-helper.cc''], helper_cc_template, [(''MODULE'', m)]),
      (mp @ [''helper'', m @ ''-helper.h''], helper_h_template,
        [(''MODULE'', m), (''INCLUDE_GUARD'', include_guard m ''_HELPER_H'')]),
      (mp @ [''examples'', ''wscript''], examples_wscript_template, [(''MODULE'', m)]),
      (mp @ [''examples'', m @ ''-example.cc''], example_cc_template, [(''MODULE'', m)]),
      (mp @ [''doc'', m @ ''.rst''], doc_rst_template, [(''MODULE'', m), (''MODULE_DIR'', py_join ''/'' mp)])]"

lemma module_files_format: "(p, template, kwargs) \<in> set (module_files mp m) \<Longrightarrow> fields_in (map fst kwargs) template"
  by (auto simp: module_files_def wscript_fields model_cc_fields model_h_fields test_cc_fields helper_cc_fields
        helper_h_fields examples_wscript_fields example_cc_fields doc_rst_fields)

lemma no_dot: "allowed m \<Longrightarrow> CHR ''.'' \<notin> set m"
proof -
  assume a: "allowed m"
  define body where "body = (if m \<noteq> [] \<and> last m = newline then butlast m else m)"
  have "\<forall>c \<in> set body. word_char c \<or> c = CHR ''-''" using a by (simp add: allowed_def body_def Let_def list_all_iff)
  moreover have "\<not> (word_char (CHR ''.'') \<or> CHR ''.'' = CHR ''-'')" by code_simp
  ultimately have n: "CHR ''.'' \<notin> set body" by blast
  show ?thesis
  proof (cases "m \<noteq> [] \<and> last m = newline")
    case True
    then have "m = body @ [newline]" by (simp add: body_def) (metis append_butlast_last_id)
    then show ?thesis using n by (auto simp: newline_def)
  next
    case False
    then have "body = m" unfolding body_def by (simp only: if_False)
    then show ?thesis using n by simp
  qed
qed

lemma with_suffix_plain: "CHR ''.'' \<notin> set nm \<Longrightarrow> with_suffix nm suf = nm @ suf"
  by (simp add: with_suffix_def)

text \<open>The names of an accepted module take their suffixes unchanged.\<close>

lemma allowed_suffix:
  assumes "allowed m" and "CHR ''.'' \<notin> set tail'"
  shows "with_suffix (m @ tail') suf = m @ tail' @ suf"
  using with_suffix_plain [of "m @ tail'" suf] no_dot [OF assms(1)] assms(2) by simp

text \<open>One file, and one directory with one or two files, written into a module.\<close>

lemma write_top:
  assumes "ready mp (ft_dirs t) (ft_files t)" "free mp f (ft_dirs t) (ft_files t)" "\<forall>q. to_write o' q" "fields_in (map fst kw) tm"
  shows "create_file o' (mp @ [f]) tm kw t = (t\<lparr>ft_files := (ft_files t)(mp @ [f] \<mapsto> formatted tm kw)\<rparr>, Inr ())"
  by (rule create_file_done) (use assms in \<open>auto simp: ready_def free_def\<close>)

lemma write_sub:
  assumes "mp @ [d] \<in> ft_dirs t" "mp @ [d, f] \<notin> ft_dirs t" "\<forall>q. to_write o' q" "fields_in (map fst kw) tm"
  shows "create_file o' (mp @ [d, f]) tm kw t = (t\<lparr>ft_files := (ft_files t)(mp @ [d, f] \<mapsto> formatted tm kw)\<rparr>, Inr ())"
  using create_file_done [of o' "mp @ [d]" f t kw tm] assms by simp

lemma then_do_done [simp]: "then_do (t, Inr x) f = f t"
  by (simp add: then_do_def)

lemma one_file_dir:
  assumes "ready mp (ft_dirs t) (ft_files t)" "free mp d (ft_dirs t) (ft_files t)" "\<forall>q. to_mkdir o' q" "\<forall>q. to_write o' q" "fields_in (map fst kw) tm"
  shows "then_do (mkdir_parents o' (mp @ [d]) t) (create_file o' (mp @ [d, f]) tm kw) =
    (t\<lparr>ft_dirs := insert (mp @ [d]) (ft_dirs t), ft_files := (ft_files t)(mp @ [d, f] \<mapsto> formatted tm kw)\<rparr>, Inr ())"
  using assms(2) write_sub [of mp d "t\<lparr>ft_dirs := insert (mp @ [d]) (ft_dirs t)\<rparr>" f o' kw tm] assms(4,5)
  by (simp add: mkdir_sub_done [OF assms(1-3)] free_def)

lemma two_file_dir:
  assumes "ready mp (ft_dirs t) (ft_files t)" "free mp d (ft_dirs t) (ft_files t)" "\<forall>q. to_mkdir o' q" "\<forall>q. to_write o' q" "fields_in (map fst kw) tm" "fields_in (map fst kw') tm'"
  shows "then_do (mkdir_parents o' (mp @ [d]) t) (\<lambda>t. then_do (create_file o' (mp @ [d, f]) tm kw t) (create_file o' (mp @ [d, g]) tm' kw')) =
    (t\<lparr>ft_dirs := insert (mp @ [d]) (ft_dirs t),
       ft_files := (ft_files t)(mp @ [d, f] \<mapsto> formatted tm kw, mp @ [d, g] \<mapsto> formatted tm' kw')\<rparr>, Inr ())"
proof -
  let ?u = "t\<lparr>ft_dirs := insert (mp @ [d]) (ft_dirs t)\<rparr>"
  let ?v = "?u\<lparr>ft_files := (ft_files t)(mp @ [d, f] \<mapsto> formatted tm kw)\<rparr>"
  have u: "create_file o' (mp @ [d, f]) tm kw ?u = (?v, Inr ())"
    using write_sub [of mp d ?u f o' kw tm] assms(2,4,5) by (simp add: free_def)
  have v: "create_file o' (mp @ [d, g]) tm' kw' ?v = (?v\<lparr>ft_files := (ft_files ?v)(mp @ [d, g] \<mapsto> formatted tm' kw')\<rparr>, Inr ())"
    using write_sub [of mp d ?v g o' kw' tm'] assms(2,4,6) by (simp add: free_def)
  show ?thesis unfolding mkdir_sub_done [OF assms(1-3)] then_do_done u v by simp
qed

text \<open>What the steps of \<open>make_module\<close> write, one file at a time.\<close>

definition put_files :: "(path \<times> string \<times> (string \<times> string) list) list \<Rightarrow> file_tree \<Rightarrow> file_tree" where
  "put_files fs t = t\<lparr>ft_files := foldl (\<lambda>m (p, tm, kw). m(p \<mapsto> formatted tm kw)) (ft_files t) fs\<rparr>"

definition module_dirs :: "path \<Rightarrow> path set" where
  "module_dirs mp = {mp, mp @ [''model''], mp @ [''test''], mp @ [''helper''], mp @ [''examples''], mp @ [''doc'']}"

lemma run_module_steps:
  assumes "ready mp (ft_dirs t) (ft_files t)" and free: "\<And>d. free mp d (ft_dirs t) (ft_files t)" and ok: "allowed m" "\<forall>q. to_mkdir o' q" "\<forall>q. to_write o' q"
  shows "run_steps (module_steps o' mp m) t =
    ((put_files (module_files mp m) t)\<lparr>ft_dirs := ft_dirs t \<union> module_dirs mp\<rparr>, Inr ())"
proof -
  have mp: "mp \<in> ft_dirs t" using assms(1) by (simp add: ready_def)
  have suf: "with_suffix m s = m @ s" for s using allowed_suffix [OF ok(1), of "[]" s] by simp
  have suf': "with_suffix (m @ ''-test-suite'') s = m @ ''-test-suite'' @ s" "with_suffix (m @ ''-helper'') s = m @ ''-helper'' @ s"
    "with_suffix (m @ ''-example'') s = m @ ''-example'' @ s" for s
    by (rule allowed_suffix [OF ok(1)], simp)+
  note ff = wscript_fields model_cc_fields model_h_fields test_cc_fields helper_cc_fields
        helper_h_fields examples_wscript_fields example_cc_fields doc_rst_fields
  show ?thesis using assms(1) mp
    by (simp add: module_steps_def make_wscript_def make_model_def make_test_def make_helper_def make_examples_def make_doc_def
         Let_def write_top one_file_dir two_file_dir free ok(2,3) ff suf suf' put_files_def module_files_def module_dirs_def
         insert_absorb insert_commute)
qed


lemma put_files_lookup:
  "distinct (map fst fs) \<Longrightarrow>
   ft_files (put_files fs t) p = (case map_of fs p of None \<Rightarrow> ft_files t p | Some (tm, kw) \<Rightarrow> Some (formatted tm kw))"
proof (induction fs arbitrary: t)
  case Nil
  then show ?case by (simp add: put_files_def)
next
  case (Cons f fs)
  obtain q tm kw where f: "f = (q, tm, kw)" by (cases f) auto
  have "put_files (f # fs) t = put_files fs (t\<lparr>ft_files := (ft_files t)(q \<mapsto> formatted tm kw)\<rparr>)"
    by (simp add: put_files_def f)
  moreover have "map_of fs q = None" using Cons.prems f by (simp add: map_of_eq_None_iff)
  ultimately show ?case using Cons.IH [of "t\<lparr>ft_files := (ft_files t)(q \<mapsto> formatted tm kw)\<rparr>"] Cons.prems f
    by (cases "p = q") (auto split: option.split)
qed

lemma module_files_distinct: "distinct (map fst (module_files mp m))"
  by (simp add: module_files_def)

lemma fresh_ready:
  assumes "tree_ok t" "mp \<noteq> []" "\<not> path_exists t mp" "\<forall>q \<in> parents mp. ft_files t q = None"
  shows "ready mp (insert mp (ft_dirs t \<union> parents mp)) (ft_files t)"
    and "free mp d (insert mp (ft_dirs t \<union> parents mp)) (ft_files t)"
  using assms(2-4) nothing_below [OF assms(1-3)] by (auto simp: ready_def free_def path_exists_def parents_def)

lemma make_module_done:
  assumes "tree_ok t" "allowed m" "\<not> path_exists t (modpath @ [m])" "\<forall>q \<in> parents (modpath @ [m]). ft_files t q = None"
    "\<forall>q. to_mkdir o' q" "\<forall>q. to_write o' q"
  shows "make_module o' modpath m t =
    ((put_files (module_files (modpath @ [m]) m) t)
       \<lparr>ft_dirs := ft_dirs t \<union> parents (modpath @ [m]) \<union> module_dirs (modpath @ [m])\<rparr>, True)"
proof -
  define mp where "mp = modpath @ [m]"
  let ?t = "t\<lparr>ft_dirs := insert mp (ft_dirs t \<union> parents mp)\<rparr>"
  have mk: "mkdir_parents o' mp t = (?t, Inr ())" using mkdir_parents_done assms(3-5) by (simp add: mp_def)
  have "run_steps (module_steps o' mp m) ?t = ((put_files (module_files mp m) ?t)\<lparr>ft_dirs := ft_dirs ?t \<union> module_dirs mp\<rparr>, Inr ())"
    by (rule run_module_steps) (use fresh_ready [OF assms(1), of mp] assms in \<open>simp_all add: mp_def\<close>)
  moreover have "insert mp X \<union> module_dirs mp = X \<union> module_dirs mp" for X by (auto simp: module_dirs_def)
  ultimately show ?thesis using assms(3) mk
    by (simp add: make_module_unfold Let_def mp_def [symmetric] put_files_def)
qed

text \<open>C19: with a free name and nothing in the way, \<open>make_module\<close> succeeds and writes exactly the nine
  files of a module, each its template formatted without an exception, and exactly the module's
  directories; every other path is as it was.\<close>

theorem module_complete:
  assumes "tree_ok t" "allowed m" "\<not> path_exists t (modpath @ [m])" "\<forall>q \<in> parents (modpath @ [m]). ft_files t q = None"
    "\<forall>q. to_mkdir o' q" "\<forall>q. to_write o' q"
  shows "snd (make_module o' modpath m t) \<and>
    ft_dirs (fst (make_module o' modpath m t)) = ft_dirs t \<union> parents (modpath @ [m]) \<union> module_dirs (modpath @ [m]) \<and>
    (\<forall>p. ft_files (fst (make_module o' modpath m t)) p =
      (case map_of (module_files (modpath @ [m]) m) p of
         None \<Rightarrow> ft_files t p
       | Some (tm, kw) \<Rightarrow> Some (formatted tm kw))) \<and>
    list_all (\<lambda>(p, tm, kw). str_format tm kw = Inr (formatted tm kw)) (module_files (modpath @ [m]) m)"
proof -
  have "list_all (\<lambda>(p, tm, kw). str_format tm kw = Inr (formatted tm kw)) (module_files (modpath @ [m]) m)"
    using module_files_format str_format_total by (fastforce simp: list_all_iff)
  then show ?thesis using make_module_done [OF assms] by (simp add: put_files_lookup module_files_distinct)
qed

lemma module_complete_witness:
  defines "o' \<equiv> \<lparr>to_mkdir = \<lambda>_. True, to_write = \<lambda>_. True\<rparr>"
  shows "ft_files (fst (make_module o' [''contrib''] ''m-2'' top_level)) [''contrib'', ''m-2'', ''model'', ''m-2.h''] =
    Some (formatted model_h_template [(''MODULE'', ''m-2''), (''INCLUDE_GUARD'', ''M_2_H'')])"
proof -
  have ok: "allowed ''m-2''" by code_simp
  have free: "\<not> path_exists top_level ([''contrib''] @ [''m-2''])" "\<forall>q \<in> parents ([''contrib''] @ [''m-2'']). ft_files top_level q = None"
    by (simp_all add: path_exists_def top_level_def)
  have guard: "include_guard ''m-2'' ''_H'' = ''M_2_H''" by code_simp
  from module_complete [OF top_level_ok ok free, of o'] show ?thesis
    by (simp add: o'_def module_files_def guard)
qed


section \<open>Corner cases of the names\<close>

text \<open>A name of two parts is not skipped: the module is named after the first, and the second is
  lost. A prefix alone ends the program with an \<open>IndexError\<close>.\<close>

lemma two_part_name: "module_target [] None ''one/two'' = Inr (Some ([''contrib''], ''one''))"
  by code_simp

lemma prefix_alone: "module_target [] None ''contrib/'' = Inl IndexError"
  by code_simp

end
