(* ===== verification/Py_Num.thy ===== *)
theory Py_Num
  imports Complex_Main Py_Prelude
begin

text \<open>
  Numbers of Python 2 that may be integers or floats. The kind decides what a division does: two
  integers are divided with the quotient rounded down, anything else as floats. Floats are taken as
  exact rationals. Comparisons look at the value only; \<open>max\<close> and \<open>min\<close> return the first of two
  equal arguments, with its kind.
\<close>

datatype num = IntN int | FloatN rat

primrec val :: "num \<Rightarrow> rat" where
  "val (IntN i) = of_int i"
| "val (FloatN x) = x"

fun num_op :: "(int \<Rightarrow> int \<Rightarrow> int) \<Rightarrow> (rat \<Rightarrow> rat \<Rightarrow> rat) \<Rightarrow> num \<Rightarrow> num \<Rightarrow> num" where
  "num_op f g (IntN i) (IntN j) = IntN (f i j)"
| "num_op f g a b = FloatN (g (val a) (val b))"

definition n_add :: "num \<Rightarrow> num \<Rightarrow> num" where "n_add = num_op (+) (+)"
definition n_sub :: "num \<Rightarrow> num \<Rightarrow> num" where "n_sub = num_op (-) (-)"
definition n_mul :: "num \<Rightarrow> num \<Rightarrow> num" where "n_mul = num_op (*) (*)"

definition n_div :: "num \<Rightarrow> num \<Rightarrow> num res" where
  "n_div a b = (if val b = 0 then Inl ZeroDivisionError else Inr (num_op (div) (/) a b))"

definition n_mod :: "num \<Rightarrow> num \<Rightarrow> num res" where
  "n_mod a b =
     (if val b = 0 then Inl ZeroDivisionError
      else Inr (num_op (mod) (\<lambda>x y. x - y * of_int \<lfloor>x / y\<rfloor>) a b))"

definition n_max :: "num \<Rightarrow> num \<Rightarrow> num" where "n_max a b = (if val a < val b then b else a)"
definition n_min :: "num \<Rightarrow> num \<Rightarrow> num" where "n_min a b = (if val b < val a then b else a)"

definition trunc_rat :: "rat \<Rightarrow> int" where
  "trunc_rat x = (if 0 \<le> x then \<lfloor>x\<rfloor> else \<lceil>x\<rceil>)"

primrec n_int :: "num \<Rightarrow> int" where
  "n_int (IntN i) = i"
| "n_int (FloatN x) = trunc_rat x"

definition py_range :: "int \<Rightarrow> int \<Rightarrow> int \<Rightarrow> int list res" where
  \<comment> \<open>\<open>range(a, b, step)\<close> for a step that is not negative\<close>
  "py_range a b step =
     (if step = 0 then Inl ValueError
      else Inr (map (\<lambda>k. a + int k * step) [0..<nat ((b - a + step - 1) div step)]))"

named_theorems num_simps

lemma val_add [simp, num_simps]: "val (n_add a b) = val a + val b"
  by (cases a; cases b) (simp_all add: n_add_def)

lemma val_sub [simp, num_simps]: "val (n_sub a b) = val a - val b"
  by (cases a; cases b) (simp_all add: n_sub_def)

lemma val_mul [simp, num_simps]: "val (n_mul a b) = val a * val b"
  by (cases a; cases b) (simp_all add: n_mul_def)

lemma val_max [simp, num_simps]: "val (n_max a b) = max (val a) (val b)"
  by (simp add: n_max_def max_def)

lemma val_min [simp, num_simps]: "val (n_min a b) = min (val a) (val b)"
  by (simp add: n_min_def min_def)

lemma n_div_zero [simp]: "val b = 0 \<Longrightarrow> n_div a b = Inl ZeroDivisionError"
  by (simp add: n_div_def)

lemma n_mod_zero [simp]: "val b = 0 \<Longrightarrow> n_mod a b = Inl ZeroDivisionError"
  by (simp add: n_mod_def)

lemma n_div_ok: "val b \<noteq> 0 \<Longrightarrow> \<exists>c. n_div a b = Inr c"
  by (simp add: n_div_def)

lemma n_div_float:
  "val b \<noteq> 0 \<Longrightarrow> (\<exists>x. a = FloatN x) \<or> (\<exists>y. b = FloatN y) \<Longrightarrow> n_div a b = Inr (FloatN (val a / val b))"
  by (cases a; cases b) (auto simp: n_div_def)

lemma n_mod_ok: "val b \<noteq> 0 \<Longrightarrow> \<exists>c. n_mod a b = Inr c"
  by (simp add: n_mod_def)

text \<open>A remainder takes the value down to a multiple.\<close>

lemma val_mod:
  assumes "n_mod a b = Inr c"
  shows "val a - val c = val b * of_int \<lfloor>val a / val b\<rfloor>"
proof (cases a)
  case a: (IntN i)
  show ?thesis
  proof (cases b)
    case (IntN j)
    then have "c = IntN (i mod j)" "j \<noteq> 0" using assms a by (auto simp: n_mod_def split: if_splits)
    moreover have "\<lfloor>(of_int i :: rat) / of_int j\<rfloor> = i div j" by (rule floor_divide_of_int_eq)
    moreover have "(of_int i :: rat) - of_int (i mod j) = of_int (j * (i div j))"
      by (metis minus_mod_eq_mult_div of_int_diff)
    ultimately show ?thesis using a IntN by simp
  next
    case (FloatN y)
    then show ?thesis using assms a by (auto simp: n_mod_def split: if_splits)
  qed
next
  case (FloatN x)
  then show ?thesis using assms by (cases b) (auto simp: n_mod_def split: if_splits)
qed

lemma le_div_int: "0 < s \<Longrightarrow> k \<le> x div s \<longleftrightarrow> k * s \<le> x" for k x s :: int
proof
  assume s: "0 < s" and "k \<le> x div s"
  then have "k * s \<le> x div s * s" by simp
  then show "k * s \<le> x" using pos_mod_sign [OF s, of x] div_mult_mod_eq [of x s] by linarith
next
  assume s: "0 < s" and "k * s \<le> x"
  then show "k \<le> x div s" using zdiv_mono1 [of "k * s" x s] by simp
qed

lemma mem_py_range:
  assumes "py_range a b step = Inr xs" and "0 < step"
  shows "x \<in> set xs \<longleftrightarrow> a \<le> x \<and> x < b \<and> step dvd x - a"
proof -
  have xs: "xs = map (\<lambda>k. a + int k * step) [0..<nat ((b - a + step - 1) div step)]"
    using assms by (simp add: py_range_def)
  have lt: "int k < (b - a + step - 1) div step \<longleftrightarrow> a + int k * step < b" for k
  proof -
    have "int k < (b - a + step - 1) div step \<longleftrightarrow> int k + 1 \<le> (b - a + step - 1) div step"
      by (rule add1_zle_eq [symmetric])
    also have "\<dots> \<longleftrightarrow> (int k + 1) * step \<le> b - a + step - 1" by (rule le_div_int [OF assms(2)])
    also have "\<dots> \<longleftrightarrow> a + int k * step < b" by (simp add: algebra_simps) arith
    finally show ?thesis .
  qed
  show ?thesis
  proof
    assume "x \<in> set xs"
    then have "x \<in> (\<lambda>k. a + int k * step) ` {0..<nat ((b - a + step - 1) div step)}" unfolding xs by simp
    then obtain k where k: "x = a + int k * step" "k \<in> {0..<nat ((b - a + step - 1) div step)}" by (rule imageE)
    then have "int k < (b - a + step - 1) div step" by auto
    then show "a \<le> x \<and> x < b \<and> step dvd x - a" using k lt [of k] assms(2) by simp
  next
    assume x: "a \<le> x \<and> x < b \<and> step dvd x - a"
    then obtain m where m: "x - a = step * m" by (auto elim: dvdE)
    then have "0 \<le> m" using x assms(2) by (metis diff_ge_0_iff_ge zero_le_mult_iff leD)
    then obtain k where "m = int k" by (rule nonneg_int_cases)
    then have k: "x = a + int k * step" using m by (simp add: algebra_simps)
    then have "int k < (b - a + step - 1) div step" using x lt [of k] by simp
    then have "k \<in> set [0..<nat ((b - a + step - 1) div step)]" by auto
    then show "x \<in> set xs" unfolding xs set_map k by (rule imageI)
  qed
qed

end
