(* ===== verification/Grid_Draw.thy ===== *)
theory Grid_Draw
  imports Timeline Py_Num
begin

text \<open>
  The renderers of \<^verbatim>\<open>utils/grid.py\<close>: the legend, the time lines, the scales. Drawing appends the
  calls on the Cairo context to a list; \<open>text_extents\<close> (its bearing, width and height of a text) is
  a parameter. The file needs Python 2, so \<open>/\<close> on integers rounds down. Horizontal positions keep
  the kind of number they have in the source, as they are divided; all other lengths are rationals.
\<close>

type_synonym extents = "string \<Rightarrow> rat \<times> rat \<times> rat" \<comment> \<open>\<open>y_bearing\<close>, width, height\<close>

definition t_bearing :: "extents \<Rightarrow> string \<Rightarrow> rat" where "t_bearing ext s = fst (ext s)"
definition t_width :: "extents \<Rightarrow> string \<Rightarrow> rat" where "t_width ext s = fst (snd (ext s))"
definition t_height :: "extents \<Rightarrow> string \<Rightarrow> rat" where "t_height ext s = snd (snd (ext s))"

datatype cairo_op =
    Rectangle rat rat rat rat | MoveTo rat rat | LineTo rat rat | RelLineTo rat rat | ClosePath
  | Stroke | StrokePreserve | Fill | SourceRgb rat rat rat | LineWidth rat | OperatorSource
  | ShowText string | Save | Restore | Translate rat rat | SetDash "rat list" rat

section \<open>The legend\<close>

record legend_renderer =
  lr_padding :: rat
  lr_legends :: "string list"
  lr_colors :: "color list"
  lr_width :: rat
  lr_height :: rat

text \<open>
  Both \<open>layout\<close> and \<open>draw\<close> place the items with the same steps: the height of the highest item so
  far, the height used, the width used of the line. An item too wide for the rest of the line
  begins a new one.
\<close>

record placing =
  pl_line_height :: rat
  pl_total_height :: rat
  pl_line_used :: rat

definition start_placing :: "legend_renderer \<Rightarrow> placing" where
  "start_placing r = \<lparr>pl_line_height = 0, pl_total_height = lr_padding r, pl_line_used = lr_padding r\<rparr>"

definition item_width :: "extents \<Rightarrow> legend_renderer \<Rightarrow> string \<Rightarrow> rat" where
  "item_width ext r legend = lr_padding r + lr_padding r + t_width ext legend + lr_padding r"

definition place_item :: "extents \<Rightarrow> legend_renderer \<Rightarrow> placing \<Rightarrow> string \<Rightarrow> placing" where
  "place_item ext r p legend =
     (let w = item_width ext r legend; h = t_height ext legend + lr_padding r;
          p1 = (if h > pl_line_height p then p\<lparr>pl_line_height := h\<rparr> else p)
      in if pl_line_used p1 + w > lr_width r
         then p1\<lparr>pl_line_used := lr_padding r + w, pl_total_height := pl_total_height p1 + pl_line_height p1\<rparr>
         else p1\<lparr>pl_line_used := pl_line_used p1 + w\<rparr>)"

definition legend_layout :: "extents \<Rightarrow> rat \<Rightarrow> legend_renderer \<Rightarrow> legend_renderer" where
  "legend_layout ext width r =
     (let r1 = r\<lparr>lr_width := width\<rparr>; p = foldl (place_item ext r1) (start_placing r1) (lr_legends r1)
      in r1\<lparr>lr_height := pl_total_height p + pl_line_height p\<rparr>)"

definition item_ops :: "extents \<Rightarrow> legend_renderer \<Rightarrow> placing \<Rightarrow> color \<Rightarrow> string \<Rightarrow> cairo_op list" where
  "item_ops ext r p c legend =
     (let x = pl_line_used p - item_width ext r legend in
      [Rectangle x (pl_total_height p) (lr_padding r) (lr_padding r), SourceRgb 0 0 0, LineWidth 2, StrokePreserve,
       SourceRgb (c_r c) (c_g c) (c_b c), Fill,
       MoveTo (x + lr_padding r * 2) (pl_total_height p + t_height ext legend), SourceRgb 0 0 0, ShowText legend])"

definition draw_item :: "extents \<Rightarrow> legend_renderer \<Rightarrow> placing \<times> cairo_op list \<Rightarrow> nat \<times> string \<Rightarrow> (placing \<times> cairo_op list) res" where
  "draw_item ext r = (\<lambda>(p, ops) (i, legend).
     let p' = place_item ext r p legend in
     if i < length (lr_colors r) then Inr (p', ops @ item_ops ext r p' (lr_colors r ! i) legend) else Inl IndexError)"

definition legend_draw :: "extents \<Rightarrow> legend_renderer \<Rightarrow> cairo_op list res" where
  "legend_draw ext r =
     bindE (foldE (draw_item ext r) (start_placing r, []) (enumerate 0 (lr_legends r))) (\<lambda>(p, ops). Inr ops)"

section \<open>The time lines\<close>

record timelines_renderer =
  tv_timelines :: "timeline list"
  tv_start :: num
  tv_end :: num
  tv_left_width :: num
  tv_right_width :: num
  tv_text_height :: rat
  tv_width :: int
  tv_height :: rat

definition alphabet :: string where
  "alphabet = ''ABCDEFGHIJKLMNOPQRSTUVWXYZabcedefghijklmnopqrstuvwxyz0123456789''"

text \<open>The padding of the time lines is always 10, and \<open>10 / 2\<close> is 5 for both kinds of division.\<close>

definition get_data_x_start :: "timelines_renderer \<Rightarrow> num" where
  "get_data_x_start r =
     n_add (n_add (n_add (n_add (IntN 5) (tv_left_width r)) (IntN 10)) (tv_right_width r)) (IntN 5)"

definition widest :: "extents \<Rightarrow> num \<Rightarrow> string list \<Rightarrow> num" where
  "widest ext w names = foldl (\<lambda>w nm. n_max w (FloatN (t_width ext nm))) w names"

definition row_names :: "timeline \<Rightarrow> string list" where
  "row_names t = map tr_name (tl_ranges t) @ map te_name (tl_event_int t) @ map te_name (tl_event_str t)"

definition timelines_layout :: "extents \<Rightarrow> int \<Rightarrow> timelines_renderer \<Rightarrow> timelines_renderer" where
  "timelines_layout ext width r =
     (let tls = tv_timelines r; mth = t_height ext alphabet;
          left_n_lines = rat_of_nat (length tls);
          range_n = rat_of_nat (sum_list (map (\<lambda>t. length (tl_ranges t)) tls));
          eventint_n = rat_of_nat (sum_list (map (\<lambda>t. length (tl_event_int t)) tls));
          eventstr_n = rat_of_nat (sum_list (map (\<lambda>t. length (tl_event_str t)) tls));
          left_height = left_n_lines * mth + (left_n_lines - 1) * 10;
          right_n_lines = range_n + eventint_n + eventstr_n;
          right_height = (right_n_lines - 1) * 10 + right_n_lines * mth;
          right_data_height = (eventint_n + eventstr_n) * (mth + 5) + range_n * 10 + (right_n_lines - 1) * 10;
          height = max (max left_height right_height) right_data_height
      in r\<lparr>tv_left_width := widest ext (IntN 0) (map tl_name tls),
           tv_right_width := widest ext (IntN 0) (concat (map row_names tls)),
           tv_text_height := mth, tv_width := width, tv_height := height + 10\<rparr>)"

text \<open>What drawing the rows changes: the operations, the colours handed out, the row counter.\<close>

record canvas =
  cv_ops :: "cairo_op list"
  cv_colors :: colors
  cv_grey :: int

definition emit :: "cairo_op list \<Rightarrow> canvas \<Rightarrow> canvas" where
  "emit ops c = c\<lparr>cv_ops := cv_ops c @ ops\<rparr>"

definition line_ops :: "rat \<Rightarrow> rat \<Rightarrow> rat \<Rightarrow> rat \<Rightarrow> cairo_op list" where
  "line_ops x y width height =
     [MoveTo x y, RelLineTo width height, ClosePath, OperatorSource, LineWidth 1, SourceRgb 0 0 0, Stroke]"

definition grey_ops :: "int \<Rightarrow> rat \<Rightarrow> rat \<Rightarrow> rat \<Rightarrow> rat \<Rightarrow> cairo_op list" where
  "grey_ops grey x y width height =
     (if grey mod 2 = 0 then [Rectangle x (y - 5) width (height + 10), SourceRgb (9/10) (9/10) (9/10), Fill] else [])"

definition to_pixel :: "timelines_renderer \<Rightarrow> num \<Rightarrow> num \<Rightarrow> num \<Rightarrow> int res" where
  \<comment> \<open>\<open>int(x + (t - self.start) * width / (self.end - self.start))\<close>\<close>
  "to_pixel r x width t =
     bindE (n_div (n_mul (n_sub t (tv_start r)) width) (n_sub (tv_end r) (tv_start r))) (\<lambda>q. Inr (n_int (n_add x q)))"

definition draw_event :: "timelines_renderer \<Rightarrow> ('v \<Rightarrow> string) \<Rightarrow> num \<Rightarrow> rat \<Rightarrow> num \<Rightarrow> int \<times> cairo_op list \<Rightarrow> 'v event \<Rightarrow> (int \<times> cairo_op list) res" where
  "draw_event r show x y width = (\<lambda>(last_x_drawn, ops) e.
     bindE (to_pixel r x width (IntN (ev_at e))) (\<lambda>real_x.
     Inr (if real_x > last_x_drawn + 2
          then (real_x, ops @ [Rectangle (of_int real_x) y 1 1, SourceRgb 1 0 0, Stroke,
                  MoveTo (of_int real_x) (y + tv_text_height r), SourceRgb 0 0 0, ShowText (show (ev_value e))])
          else (last_x_drawn, ops))))"

definition draw_events :: "timelines_renderer \<Rightarrow> ('v \<Rightarrow> string) \<Rightarrow> 'v timeline_event \<Rightarrow> num \<Rightarrow> rat \<Rightarrow> num \<Rightarrow> rat \<Rightarrow> canvas \<Rightarrow> canvas res" where
  "draw_events r show evs x y width height c =
     (let (lo, hi) = get_events_bounds evs (val (tv_start r)) (val (tv_end r)) in
      bindE (foldE (draw_event r show x y width) (n_int x, []) (py_slice (nat lo) (nat hi) (te_events evs))) (\<lambda>(_, ops).
      Inr ((emit (grey_ops (cv_grey c) (val x) y (val width) height @ ops) c)\<lparr>cv_grey := cv_grey c + 1\<rparr>)))"

definition draw_range :: "timelines_renderer \<Rightarrow> num \<Rightarrow> rat \<Rightarrow> num \<Rightarrow> int \<times> cairo_op list \<times> colors \<Rightarrow> data_range \<Rightarrow> (int \<times> cairo_op list \<times> colors) res" where
  "draw_range r x y width = (\<lambda>(last_x_drawn, ops, cs) d.
     bindE (to_pixel r x width (n_max (IntN (dr_start d)) (tv_start r))) (\<lambda>x_start.
     bindE (to_pixel r x width (n_min (IntN (dr_end d)) (tv_end r))) (\<lambda>x_end.
     if x_end > last_x_drawn
     then bindE (lookup_color Py2 (dr_value d) cs) (\<lambda>(col, cs').
          case col of
            None \<Rightarrow> Inl AttributeError
          | Some k \<Rightarrow> Inr (x_end, ops @ [Rectangle (of_int x_start) y (of_int (x_end - x_start)) 10, SourceRgb 0 0 0,
                         StrokePreserve, SourceRgb (c_r k) (c_g k) (c_b k), Fill], cs'))
     else Inr (last_x_drawn, ops, cs))))"

definition draw_ranges :: "timelines_renderer \<Rightarrow> timeline_data_range \<Rightarrow> num \<Rightarrow> rat \<Rightarrow> num \<Rightarrow> rat \<Rightarrow> canvas \<Rightarrow> canvas res" where
  "draw_ranges r rs x y width height c =
     (let (lo, hi) = get_ranges_bounds rs (val (tv_start r)) (val (tv_end r)) in
      bindE (foldE (draw_range r x y width) (n_int (n_sub x (IntN 1)), [], cv_colors c) (py_slice (nat lo) (nat hi) (tr_ranges rs)))
        (\<lambda>(_, ops, cs).
      Inr ((emit (grey_ops (cv_grey c) (val x) y (val width) height @ ops) c)\<lparr>cv_colors := cs, cv_grey := cv_grey c + 1\<rparr>)))"

text \<open>One row: its name, its data, the advance, the line below.\<close>

definition draw_row :: "extents \<Rightarrow> timelines_renderer \<Rightarrow> rat \<Rightarrow> string \<Rightarrow> (rat \<Rightarrow> canvas \<Rightarrow> canvas res) \<Rightarrow> rat \<times> canvas \<Rightarrow> (rat \<times> canvas) res" where
  "draw_row ext r advance nm draw_data = (\<lambda>(cur_y, c).
     let right_x_start = 5 + val (tv_left_width r) + 10;
         c1 = emit [MoveTo right_x_start (cur_y + tv_text_height r - (t_height ext nm + t_bearing ext nm)), ShowText nm] c
     in bindE (draw_data cur_y c1) (\<lambda>c2.
        let cur_y' = cur_y + advance in
        Inr (cur_y', emit (line_ops (right_x_start - 5) (cur_y' - 5) (val (tv_right_width r) + 10) 0) c2)))"

definition draw_timeline :: "extents \<Rightarrow> timelines_renderer \<Rightarrow> rat \<times> canvas \<Rightarrow> timeline \<Rightarrow> (rat \<times> canvas) res" where
  "draw_timeline ext r = (\<lambda>(cur_y, c) t.
     let x = get_data_x_start r; width = n_sub (IntN (tv_width r)) x; mth = tv_text_height r;
         c1 = emit [MoveTo 5 (cur_y + mth - (t_height ext (tl_name t) + t_bearing ext (tl_name t))), ShowText (tl_name t)] c
     in bindE (foldE (\<lambda>s evs. draw_row ext r (mth + 5 + 10) (te_name evs) (\<lambda>y. draw_events r show_int evs x y width (mth + 5)) s)
                 (cur_y, c1) (tl_event_int t)) (\<lambda>s.
        bindE (foldE (\<lambda>s evs. draw_row ext r (mth + 5 + 10) (te_name evs) (\<lambda>y. draw_events r id evs x y width (mth + 5)) s)
                 s (tl_event_str t)) (\<lambda>s.
        bindE (foldE (\<lambda>s rs. draw_row ext r (mth + 10) (tr_name rs) (\<lambda>y. draw_ranges r rs x y width 10) s)
                 s (tl_ranges t)) (\<lambda>(y, c2).
        Inr (y, emit (line_ops 0 (y - 5) (of_int (tv_width r)) 0) c2)))))"

definition timelines_draw :: "extents \<Rightarrow> timelines_renderer \<Rightarrow> colors \<Rightarrow> canvas res" where
  "timelines_draw ext r cs =
     (let left_x_end = 5 + val (tv_left_width r); right_x_end = left_x_end + 10 + val (tv_right_width r);
          c = \<lparr>cv_ops = line_ops 0 0 (of_int (tv_width r)) 0, cv_colors = cs, cv_grey = 1\<rparr>
      in bindE (foldE (draw_timeline ext r) (5, c) (tv_timelines r)) (\<lambda>(cur_y, c).
         let bot_y = cur_y - 5 in
         Inr (emit (line_ops (left_x_end + 5) 0 0 bot_y @ line_ops (right_x_end + 5) 0 0 bot_y) c)))"


section \<open>The scales\<close>

record scale_renderer =
  sc_top :: bool
  sc_lo :: num
  sc_hi :: num
  sc_delta :: num
  sc_width :: num
  sc_height :: rat

text \<open>
  The constructor sets only \<open>top\<close>; \<open>set_bounds\<close> and \<open>layout\<close> set the other fields, in the program
  always before they are read. Their values here before that are never looked at.
\<close>

definition new_scale :: "bool \<Rightarrow> scale_renderer" where
  "new_scale is_top = \<lparr>sc_top = is_top, sc_lo = IntN 0, sc_hi = IntN 0, sc_delta = IntN 0, sc_width = IntN 0, sc_height = 0\<rparr>"

definition set_bounds :: "num \<Rightarrow> num \<Rightarrow> scale_renderer \<Rightarrow> scale_renderer" where
  "set_bounds lo hi s = s\<lparr>sc_lo := lo, sc_hi := hi\<rparr>"

definition get_position :: "scale_renderer \<Rightarrow> num \<Rightarrow> num res" where
  "get_position s x = n_div (n_mul (n_sub x (sc_lo s)) (sc_width s)) (n_sub (sc_hi s) (sc_lo s))"

text \<open>The loop starts at 1; that \<open>closest\<close> is positive is written out for its termination.\<close>

function closest_loop :: "num \<Rightarrow> int \<Rightarrow> int" where
  "closest_loop data_delta closest =
     (if 0 < closest \<and> of_int (closest * 10) < val data_delta then closest_loop data_delta (closest * 10) else closest)"
  by pat_completeness auto
termination
proof (relation "measure (\<lambda>(d, c). nat (\<lceil>val d\<rceil> - c))")
  fix d :: num and c :: int
  assume a: "0 < c \<and> of_int (c * 10) < val d"
  then have "of_int (c * 10) < (of_int \<lceil>val d\<rceil> :: rat)" by (blast intro: less_le_trans le_of_int_ceiling)
  then have "c * 10 < \<lceil>val d\<rceil>" by (simp only: of_int_less_iff)
  with a show "((d, c * 10), d, c) \<in> measure (\<lambda>(d, c). nat (\<lceil>val d\<rceil> - c))" by simp
qed simp

declare closest_loop.simps [simp del]

definition scale_delta :: "num \<Rightarrow> num res" where
  "scale_delta data_delta =
     (let closest = closest_loop data_delta 1 in
      bindE (n_div data_delta (IntN closest)) (\<lambda>q.
      Inr (IntN (if val q = 0 then closest else if val q = 1 then closest div 10 else closest))))"

definition tick_start :: "num \<Rightarrow> num \<Rightarrow> num res" where
  "tick_start lo delta = bindE (n_mod lo delta) (\<lambda>m. Inr (n_add (n_sub lo m) delta))"

definition tick_end :: "num \<Rightarrow> num \<Rightarrow> num res" where
  "tick_end hi delta = bindE (n_mod hi delta) (\<lambda>m. Inr (n_sub hi m))"

definition scale_layout :: "extents \<Rightarrow> num \<Rightarrow> scale_renderer \<Rightarrow> scale_renderer res" where
  "scale_layout ext width s =
     bindE (scale_delta (n_sub (sc_hi s) (sc_lo s))) (\<lambda>delta.
     bindE (tick_start (sc_lo s) delta) (\<lambda>_.
     bindE (tick_end (sc_hi s) delta) (\<lambda>_.
     Inr (s\<lparr>sc_delta := delta, sc_width := width, sc_height := t_height ext alphabet + 10\<rparr>))))"

definition ticks :: "num \<Rightarrow> num \<Rightarrow> num \<Rightarrow> int list res" where
  "ticks lo hi delta =
     bindE (tick_start lo delta) (\<lambda>start.
     bindE (tick_end hi delta) (\<lambda>end'.
     py_range (n_int start) (n_int (n_add end' delta)) (n_int delta)))"

definition tick_ops :: "extents \<Rightarrow> scale_renderer \<Rightarrow> int \<Rightarrow> cairo_op list res" where
  "tick_ops ext s x =
     (let sg = (if sc_top s then -1 else 1); label = show_int x;
          text_delta = (if sc_top s then t_height ext label + t_bearing ext label else - t_bearing ext label)
      in bindE (get_position s (IntN x)) (\<lambda>real_x.
         Inr [MoveTo (val real_x) 0, LineTo (val real_x) (5 * sg), ClosePath, Stroke,
              MoveTo (val real_x - t_width ext label / 2) ((5 + 5 + text_delta) * sg), ShowText label]))"

definition subtick_ops :: "scale_renderer \<Rightarrow> int \<Rightarrow> cairo_op list res" where
  "subtick_ops s x =
     (let sg = (if sc_top s then -1 else 1) in
      bindE (get_position s (IntN x)) (\<lambda>real_x.
      Inr [MoveTo (val real_x) 0, LineTo (val real_x) (3 * sg), ClosePath, Stroke]))"

definition scale_draw :: "extents \<Rightarrow> scale_renderer \<Rightarrow> cairo_op list res" where
  "scale_draw ext s =
     bindE (ticks (sc_lo s) (sc_hi s) (sc_delta s)) (\<lambda>xs.
     bindE (mapE (tick_ops ext s) xs) (\<lambda>ops.
     bindE (n_div (sc_delta s) (IntN 10)) (\<lambda>delta.
     bindE (if val delta > 0
            then bindE (ticks (sc_lo s) (sc_hi s) delta) (\<lambda>ys. mapE (subtick_ops s) ys)
            else Inr []) (\<lambda>sub.
     Inr ([SourceRgb 0 0 0, LineWidth 1] @ concat ops @ concat sub)))))"


section \<open>The marks of a scale\<close>

lemma closest_loop_power:
  "0 < c \<Longrightarrow> \<exists>k. closest_loop d c = c * 10 ^ k \<and> val d \<le> of_int (c * 10 ^ Suc k) \<and> (k = 0 \<or> of_int (c * 10 ^ k) < val d)"
proof (induction d c rule: closest_loop.induct)
  case (1 d c)
  show ?case
  proof (cases "of_int (c * 10) < val d")
    case True
    then obtain k where k: "closest_loop d (c * 10) = c * 10 * 10 ^ k" "val d \<le> of_int (c * 10 * 10 ^ Suc k)"
      "k = 0 \<or> of_int (c * 10 * 10 ^ k) < val d"
      using "1.IH" "1.prems" by auto
    have "closest_loop d c = closest_loop d (c * 10)" using True "1.prems" by (simp add: closest_loop.simps [of d c])
    then show ?thesis using k True by (intro exI [of _ "Suc k"]) (auto simp: mult.assoc)
  next
    case False
    then show ?thesis by (intro exI [of _ 0]) (simp add: closest_loop.simps [of d c])
  qed
qed

text \<open>The distance of the marks for integer bounds: a power of ten, from 1/20 to 1/2 of the data.\<close>

lemma scale_delta_int:
  assumes "1 < n"
  shows "\<exists>k. scale_delta (IntN n) = Inr (IntN (10 ^ k)) \<and> 2 * 10 ^ k \<le> n \<and> n \<le> 20 * 10 ^ k"
proof -
  obtain k where k: "closest_loop (IntN n) 1 = 10 ^ k" "(of_int n :: rat) \<le> of_int (10 ^ Suc k)" "k = 0 \<or> (of_int (10 ^ k) :: rat) < of_int n"
    using closest_loop_power [of 1 "IntN n"] by auto
  have b: "n \<le> 10 ^ Suc k" "10 ^ k < n" using k(2,3) assms unfolding of_int_le_iff of_int_less_iff by auto
  let ?q = "n div 10 ^ k"
  have q: "?q * 10 ^ k \<le> n" "n < (?q + 1) * 10 ^ k"
    using le_div_int [of "10 ^ k" ?q n] le_div_int [of "10 ^ k" "?q + 1" n] by simp_all
  have q1: "1 \<le> ?q" using le_div_int [of "10 ^ k" 1 n] b by simp
  have d: "scale_delta (IntN n) = Inr (IntN (if ?q = 1 then 10 ^ k div 10 else 10 ^ k))"
    using q1 by (simp add: scale_delta_def k(1) n_div_def)
  show ?thesis
  proof (cases "?q = 1")
    case True
    then have "k \<noteq> 0" using q assms by (cases k) auto
    then obtain j where j: "k = Suc j" by (cases k) auto
    then show ?thesis using d True q b by (intro exI [of _ j]) simp
  next
    case False
    then have "2 \<le> ?q" using q1 by linarith
    then have "2 * 10 ^ k \<le> ?q * 10 ^ k" by (intro mult_right_mono) simp_all
    then have "2 * 10 ^ k \<le> n" using q(1) by (rule order_trans)
    then show ?thesis using d False b by (intro exI [of _ k]) simp
  qed
qed

lemma ticks_int:
  assumes "0 < d"
  shows "\<exists>xs. ticks (IntN lo) (IntN hi) (IntN d) = Inr xs \<and> distinct xs \<and> set xs = {x. lo < x \<and> x \<le> hi \<and> d dvd x}"
proof -
  let ?a = "lo - lo mod d + d" and ?b = "hi - hi mod d + d"
  have t: "ticks (IntN lo) (IntN hi) (IntN d) = py_range ?a ?b d"
    using assms by (simp add: ticks_def tick_start_def tick_end_def n_mod_def n_sub_def n_add_def)
  obtain xs where xs: "py_range ?a ?b d = Inr xs" using assms by (simp add: py_range_def)
  have D: "distinct xs" using xs assms by (auto simp: py_range_def distinct_map inj_on_def split: if_splits)
  have S: "x \<in> set xs \<longleftrightarrow> lo < x \<and> x \<le> hi \<and> d dvd x" for x
  proof -
    have a: "d dvd ?a" and b: "d dvd ?b" by (simp_all add: dvd_add dvd_minus_mod)
    have A: "d dvd x - ?a \<longleftrightarrow> d dvd x" using dvd_add_left_iff [OF a, of "x - ?a"] by (simp only: diff_add_cancel)
    have B: "?a \<le> x \<longleftrightarrow> lo < x" if dx: "d dvd x"
    proof -
      obtain m where m: "x = d * m" using dx by (auto simp: dvd_def)
      have "?a = d * (lo div d + 1)" by (simp add: minus_mod_eq_mult_div algebra_simps)
      then have "?a \<le> x \<longleftrightarrow> lo div d + 1 \<le> m" using assms m by simp
      also have "\<dots> \<longleftrightarrow> \<not> m \<le> lo div d" by linarith
      also have "\<dots> \<longleftrightarrow> lo < x" using le_div_int [OF assms, of m lo] m by (simp add: mult.commute not_le)
      finally show ?thesis .
    qed
    have C: "x < ?b \<longleftrightarrow> x \<le> hi" if dx: "d dvd x"
    proof -
      obtain m where m: "x = d * m" using dx by (auto simp: dvd_def)
      have "?b = d * (hi div d + 1)" by (simp add: minus_mod_eq_mult_div algebra_simps)
      then have "x < ?b \<longleftrightarrow> m < hi div d + 1" unfolding m by (simp only: mult_less_cancel_left_pos [OF assms])
      also have "\<dots> \<longleftrightarrow> m \<le> hi div d" by linarith
      also have "\<dots> \<longleftrightarrow> x \<le> hi" using le_div_int [OF assms, of m hi] m by (simp add: mult.commute)
      finally show ?thesis .
    qed
    show ?thesis unfolding mem_py_range [OF xs assms] A by (cases "d dvd x") (simp_all only: B C simp_thms)
  qed
  have "set xs = {x. lo < x \<and> x \<le> hi \<and> d dvd x}" by (simp only: set_eq_iff mem_Collect_eq S simp_thms)
  with D t xs show ?thesis by (intro exI [of _ xs] conjI) (simp_all only:)
qed

text \<open>How many multiples lie in an interval.\<close>

lemma multiples_between:
  assumes "0 < (d :: int)"
  shows "card {x. lo < x \<and> x \<le> hi \<and> d dvd x} = nat (hi div d - lo div d)"
proof -
  have "{x. lo < x \<and> x \<le> hi \<and> d dvd x} = (\<lambda>m. d * m) ` {lo div d <.. hi div d}"
  proof (intro equalityI subsetI)
    fix x assume "x \<in> {x. lo < x \<and> x \<le> hi \<and> d dvd x}"
    then obtain m where m: "x = d * m" "lo < x" "x \<le> hi" by (auto elim: dvdE)
    then have "m \<in> {lo div d <.. hi div d}"
      using le_div_int [OF assms, of m hi] le_div_int [OF assms, of m lo] by (auto simp: mult.commute not_le [symmetric])
    then show "x \<in> (\<lambda>m. d * m) ` {lo div d <.. hi div d}" using m(1) by blast
  next
    fix x assume "x \<in> (\<lambda>m. d * m) ` {lo div d <.. hi div d}"
    then obtain m where m: "x = d * m" "m \<in> {lo div d <.. hi div d}" by (rule imageE)
    then show "x \<in> {x. lo < x \<and> x \<le> hi \<and> d dvd x}"
      using le_div_int [OF assms, of m hi] le_div_int [OF assms, of m lo] by (auto simp: mult.commute not_le [symmetric])
  qed
  moreover have "inj_on (\<lambda>m. d * m) {lo div d <.. hi div d}" using assms by (auto simp: inj_on_def)
  ultimately show ?thesis by (simp add: card_image)
qed

lemma div_diff_bounds:
  assumes "0 < (d :: int)" and "lo \<le> hi"
  shows "(hi - lo) div d \<le> hi div d - lo div d" and "d * (hi div d - lo div d) \<le> hi - lo + d - 1"
proof -
  have e: "hi = d * (hi div d) + hi mod d" "lo = d * (lo div d) + lo mod d" by (simp_all only: mult_div_mod_eq)
  have m: "0 \<le> hi mod d" "hi mod d < d" "0 \<le> lo mod d" "lo mod d < d" using assms(1) by simp_all
  have s: "hi - lo = d * (hi div d - lo div d) + (hi mod d - lo mod d)" unfolding right_diff_distrib using e by linarith
  then show "d * (hi div d - lo div d) \<le> hi - lo + d - 1" using m by linarith
  have "hi - lo < d * (hi div d - lo div d + 1)" unfolding distrib_left mult_1_right using s m by linarith
  then have "\<not> hi div d - lo div d + 1 \<le> (hi - lo) div d"
    using le_div_int [OF assms(1), of "hi div d - lo div d + 1" "hi - lo"] by (simp add: mult.commute)
  then show "(hi - lo) div d \<le> hi div d - lo div d" by linarith
qed


lemma scale_delta_one: "scale_delta (IntN 1) = Inr (IntN 0)"
  by (simp add: scale_delta_def closest_loop.simps [of "IntN 1" 1] n_div_def)

lemma scale_layout_one: "n_sub (sc_hi s) (sc_lo s) = IntN 1 \<Longrightarrow> scale_layout ext w s = Inl ZeroDivisionError"
  by (simp add: scale_layout_def scale_delta_one tick_start_def)

lemma scale_layout_int:
  assumes "sc_lo s = IntN lo" "sc_hi s = IntN hi" "lo \<le> hi" "hi - lo \<noteq> 1"
  shows "\<exists>s'. scale_layout ext w s = Inr s'"
proof -
  have "\<exists>d. d \<noteq> 0 \<and> scale_delta (IntN (hi - lo)) = Inr (IntN d)"
  proof (cases "hi = lo")
    case True
    then show ?thesis by (simp add: scale_delta_def closest_loop.simps [of "IntN 0" 1] n_div_def)
  next
    case False
    then show ?thesis using scale_delta_int [of "hi - lo"] assms(3,4) by auto
  qed
  then obtain d where "d \<noteq> 0" "scale_delta (IntN (hi - lo)) = Inr (IntN d)" by blast
  then show ?thesis using assms(1,2) by (simp add: scale_layout_def n_sub_def tick_start_def tick_end_def n_mod_def)
qed

text \<open>
  C27: The marks of a scale over integers: for data wider than one unit the distance is a power of ten,
  the marks are exactly its multiples in the data, and there are at least two and at most twenty.
\<close>

theorem scale_marks:
  assumes "1 < hi - lo"
  shows "\<exists>k xs. scale_delta (n_sub (IntN hi) (IntN lo)) = Inr (IntN (10 ^ k)) \<and>
    ticks (IntN lo) (IntN hi) (IntN (10 ^ k)) = Inr xs \<and> distinct xs \<and>
    set xs = {x. lo < x \<and> x \<le> hi \<and> 10 ^ k dvd x} \<and> 2 \<le> length xs \<and> length xs \<le> 20"
proof -
  obtain k where k: "scale_delta (IntN (hi - lo)) = Inr (IntN (10 ^ k))" "2 * 10 ^ k \<le> hi - lo" "hi - lo \<le> 20 * 10 ^ k"
    using scale_delta_int [OF assms] by blast
  let ?d = "10 ^ k :: int"
  have d: "0 < ?d" by simp
  obtain xs where xs: "ticks (IntN lo) (IntN hi) (IntN ?d) = Inr xs" "distinct xs" "set xs = {x. lo < x \<and> x \<le> hi \<and> ?d dvd x}"
    using ticks_int [OF d] by blast
  define n where "n = hi div ?d - lo div ?d"
  have len: "length xs = nat n" using xs(2,3) multiples_between [OF d, of lo hi] distinct_card [of xs] by (simp add: n_def)
  have "2 \<le> (hi - lo) div ?d" using k(2) le_div_int [OF d] by blast
  then have lower: "2 \<le> n" using div_diff_bounds(1) [OF d, of lo hi] assms unfolding n_def by linarith
  have "?d * n \<le> hi - lo + ?d - 1" using div_diff_bounds(2) [OF d, of lo hi] assms unfolding n_def by linarith
  then have "?d * n < ?d * 21" using k(3) by linarith
  then have "n \<le> 20" unfolding mult_less_cancel_left_pos [OF d] by linarith
  then have "2 \<le> length xs" "length xs \<le> 20" using len lower by linarith+
  then show ?thesis using k(1) xs by (intro exI [of _ k] exI [of _ xs]) (simp add: n_sub_def)
qed

lemma scale_marks_witness:
  "\<exists>k xs. scale_delta (n_sub (IntN 175) (IntN 0)) = Inr (IntN (10 ^ k)) \<and>
    ticks (IntN 0) (IntN 175) (IntN (10 ^ k)) = Inr xs \<and> distinct xs \<and>
    set xs = {x. 0 < x \<and> x \<le> 175 \<and> 10 ^ k dvd x} \<and> 2 \<le> length xs \<and> length xs \<le> 20"
  by (rule scale_marks) simp

end
