(* ===== verification/Grid_Layout.thy ===== *)
theory Grid_Layout
  imports Grid_Draw
begin

text \<open>
  What the layouts of \<^verbatim>\<open>utils/grid.py\<close> promise to the drawing: the boxes of the legend do not
  overlap and fit, and how the height reserved for the time lines compares with the height drawn.
\<close>

section \<open>Legend\<close>

text \<open>Every item with the state after it was placed.\<close>

fun place_all :: "extents \<Rightarrow> legend_renderer \<Rightarrow> placing \<Rightarrow> string list \<Rightarrow> (placing \<times> string) list" where
  "place_all ext r p [] = []"
| "place_all ext r p (l # ls) = (let p' = place_item ext r p l in (p', l) # place_all ext r p' ls)"

definition box_x :: "extents \<Rightarrow> legend_renderer \<Rightarrow> placing \<times> string \<Rightarrow> rat" where
  "box_x ext r b = pl_line_used (fst b) - item_width ext r (snd b)"

definition box_height :: "extents \<Rightarrow> legend_renderer \<Rightarrow> placing \<times> string \<Rightarrow> rat" where
  "box_height ext r b = t_height ext (snd b) + lr_padding r"

lemma length_place_all [simp]: "length (place_all ext r p ls) = length ls"
  by (induction ls arbitrary: p) (simp_all add: Let_def)

text \<open>The drawing puts the items where the layout has put them.\<close>

lemma draw_items:
  "n + length ls \<le> length (lr_colors r) \<Longrightarrow>
   foldE (draw_item ext r) (p, ops) (enumerate n ls) =
     Inr (foldl (place_item ext r) p ls,
          ops @ concat (map (\<lambda>((q, l), c). item_ops ext r q c l) (zip (place_all ext r p ls) (drop n (lr_colors r)))))"
proof (induction ls arbitrary: n p ops)
  case Nil
  then show ?case by simp
next
  case (Cons l ls)
  then have "drop n (lr_colors r) = lr_colors r ! n # drop (Suc n) (lr_colors r)" by (simp add: Cons_nth_drop_Suc)
  then show ?case using Cons.prems Cons.IH [of "Suc n"] by (simp add: draw_item_def Let_def)
qed

lemma legend_draw_items:
  "length (lr_legends r) \<le> length (lr_colors r) \<Longrightarrow>
   legend_draw ext r =
     Inr (concat (map (\<lambda>((q, l), c). item_ops ext r q c l) (zip (place_all ext r (start_placing r) (lr_legends r)) (lr_colors r))))"
  using draw_items [of 0 "lr_legends r" r ext "start_placing r" "[]"] by (simp add: legend_draw_def)

lemma place_item_grows:
  fixes p
  assumes "0 \<le> lr_padding r" "0 \<le> t_width ext l"
  defines "p' \<equiv> place_item ext r p l"
  shows "pl_line_height p \<le> pl_line_height p'" "t_height ext l + lr_padding r \<le> pl_line_height p'"
    and "lr_padding r \<le> pl_line_used p \<Longrightarrow> lr_padding r \<le> pl_line_used p' - item_width ext r l"
    and "pl_line_used p \<le> pl_line_used p' - item_width ext r l \<and> pl_total_height p = pl_total_height p' \<or>
      pl_total_height p + pl_line_height p \<le> pl_total_height p'"
    and "lr_padding r + item_width ext r l \<le> lr_width r \<Longrightarrow> pl_line_used p' \<le> lr_width r"
    and "lr_padding r \<le> pl_line_used p \<Longrightarrow> lr_padding r \<le> pl_line_used p'"
  using assms(1,2) by (auto simp: p'_def place_item_def Let_def item_width_def)

text \<open>Later boxes lie to the right of what is used, or below the line.\<close>

lemma place_all_after:
  assumes "0 \<le> lr_padding r" "\<forall>l \<in> set ls. 0 \<le> t_width ext l \<and> 0 \<le> t_height ext l" "0 \<le> pl_line_height p"
  shows "\<forall>b \<in> set (place_all ext r p ls).
    (pl_line_used p \<le> box_x ext r b \<and> pl_total_height p = pl_total_height (fst b) \<or> pl_total_height p + pl_line_height p \<le> pl_total_height (fst b))
    \<and> pl_line_height p \<le> pl_line_height (fst b)"
  using assms(2,3)
proof (induction ls arbitrary: p)
  case Nil
  then show ?case by simp
next
  case (Cons l ls)
  define p' where "p' = place_item ext r p l"
  note g = place_item_grows [OF assms(1), of ext l p, folded p'_def]
  have w: "0 \<le> t_width ext l" "0 \<le> item_width ext r l" using Cons.prems(1) assms(1) by (simp_all add: item_width_def)
  have h: "0 \<le> pl_line_height p'" using g(1) w Cons.prems(2) by simp
  have IH: "\<forall>b \<in> set (place_all ext r p' ls).
    (pl_line_used p' \<le> box_x ext r b \<and> pl_total_height p' = pl_total_height (fst b) \<or> pl_total_height p' + pl_line_height p' \<le> pl_total_height (fst b))
    \<and> pl_line_height p' \<le> pl_line_height (fst b)"
    by (rule Cons.IH) (use Cons.prems h in auto)
  show ?case
  proof
    fix b assume "b \<in> set (place_all ext r p (l # ls))"
    then consider "b = (p', l)" | "b \<in> set (place_all ext r p' ls)" by (auto simp: Let_def p'_def)
    then show "(pl_line_used p \<le> box_x ext r b \<and> pl_total_height p = pl_total_height (fst b) \<or> pl_total_height p + pl_line_height p \<le> pl_total_height (fst b))
      \<and> pl_line_height p \<le> pl_line_height (fst b)"
    proof cases
      case 1
      then show ?thesis using g(1,4) w by (simp add: box_x_def)
    next
      case 2
      then have b: "pl_line_used p' \<le> box_x ext r b \<and> pl_total_height p' = pl_total_height (fst b) \<or> pl_total_height p' + pl_line_height p' \<le> pl_total_height (fst b)"
        "pl_line_height p' \<le> pl_line_height (fst b)" using IH by blast+
      then show ?thesis using g(1,4) w h Cons.prems(2) by auto
    qed
  qed
qed

definition apart :: "extents \<Rightarrow> legend_renderer \<Rightarrow> placing \<times> string \<Rightarrow> placing \<times> string \<Rightarrow> bool" where
  "apart ext r b b' \<longleftrightarrow>
     box_x ext r b + item_width ext r (snd b) \<le> box_x ext r b' \<or> pl_total_height (fst b) + box_height ext r b \<le> pl_total_height (fst b')"

lemma place_all_apart:
  assumes "0 \<le> lr_padding r" "\<forall>l \<in> set ls. 0 \<le> t_width ext l \<and> 0 \<le> t_height ext l" "0 \<le> pl_line_height p"
  shows "sorted_wrt (apart ext r) (place_all ext r p ls)"
  using assms(2,3)
proof (induction ls arbitrary: p)
  case Nil
  then show ?case by simp
next
  case (Cons l ls)
  define p' where "p' = place_item ext r p l"
  note g = place_item_grows [OF assms(1), of ext l p, folded p'_def]
  have w: "0 \<le> t_width ext l" using Cons.prems(1) by simp
  have h: "0 \<le> pl_line_height p'" using g(1) w Cons.prems(2) by simp
  have "apart ext r (p', l) b" if "b \<in> set (place_all ext r p' ls)" for b
    using place_all_after [OF assms(1) _ h, of ls ext] that Cons.prems(1) g(2) [OF w]
    by (fastforce simp: apart_def box_x_def box_height_def)
  then show ?case using Cons.IH [of p'] Cons.prems h by (simp add: Let_def p'_def [symmetric])
qed

lemma foldl_placed_grows:
  assumes "0 \<le> lr_padding r" "\<forall>l \<in> set ls. 0 \<le> t_width ext l" "0 \<le> pl_line_height p"
  shows "pl_total_height p + pl_line_height p \<le> pl_total_height (foldl (place_item ext r) p ls) + pl_line_height (foldl (place_item ext r) p ls)"
  using assms(2,3)
proof (induction ls arbitrary: p)
  case Nil
  then show ?case by simp
next
  case (Cons l ls)
  have w: "0 \<le> t_width ext l" using Cons.prems(1) by simp
  note g = place_item_grows [OF assms(1) w, of p]
  have "0 \<le> pl_line_height (place_item ext r p l)" using order_trans [OF Cons.prems(2) g(1)] .
  then show ?case using Cons.IH [of "place_item ext r p l"] Cons.prems g(1,4) by auto
qed

lemma place_all_bounds:
  assumes "0 \<le> lr_padding r" "\<forall>l \<in> set ls. 0 \<le> t_width ext l \<and> 0 \<le> t_height ext l" "0 \<le> pl_line_height p"
    and "lr_padding r \<le> pl_line_used p"
  shows "\<forall>b \<in> set (place_all ext r p ls).
    lr_padding r \<le> box_x ext r b \<and> pl_total_height p \<le> pl_total_height (fst b) \<and>
    pl_total_height (fst b) + box_height ext r b
      \<le> pl_total_height (foldl (place_item ext r) p ls) + pl_line_height (foldl (place_item ext r) p ls) \<and>
    (lr_padding r + item_width ext r (snd b) \<le> lr_width r \<longrightarrow> box_x ext r b + item_width ext r (snd b) \<le> lr_width r)"
  using assms(2-4)
proof (induction ls arbitrary: p)
  case Nil
  then show ?case by simp
next
  case (Cons l ls)
  define p' where "p' = place_item ext r p l"
  have w: "0 \<le> t_width ext l" using Cons.prems(1) by simp
  note g = place_item_grows [OF assms(1) w, of p, folded p'_def]
  have h: "0 \<le> pl_line_height p'" "lr_padding r \<le> pl_line_used p'"
    using order_trans [OF Cons.prems(2) g(1)] g(6) [OF Cons.prems(3)] by simp_all
  have t: "pl_total_height p \<le> pl_total_height p'" using g(4) Cons.prems(2) by auto
  have "lr_padding r \<le> box_x ext r (p', l)" "lr_padding r + item_width ext r l \<le> lr_width r \<longrightarrow> box_x ext r (p', l) + item_width ext r l \<le> lr_width r"
    using g(3) [OF Cons.prems(3)] g(5) by (simp_all add: box_x_def)
  moreover have "pl_total_height p' + box_height ext r (p', l)
      \<le> pl_total_height (foldl (place_item ext r) p' ls) + pl_line_height (foldl (place_item ext r) p' ls)"
    using foldl_placed_grows [OF assms(1) _ h(1), of ls ext] Cons.prems(1) g(2) by (simp add: box_height_def)
  ultimately show ?case using Cons.IH [of p', OF _ h] Cons.prems(1) t
    by (auto simp: Let_def p'_def [symmetric] intro: order_trans)
qed

text \<open>
  What a list of drawing operations puts on the picture: a rectangle when it is filled, with the
  colour of that moment, and a text at the current point.
\<close>

datatype mark = Square rat rat rat rat "rat \<times> rat \<times> rat" | Caption rat rat string

fun picture_of :: "(rat \<times> rat \<times> rat \<times> rat) option \<Rightarrow> rat \<times> rat \<times> rat \<Rightarrow> rat \<times> rat \<Rightarrow> cairo_op list \<Rightarrow> mark list" where
  "picture_of path col pt [] = []"
| "picture_of path col pt (Rectangle x y w h # ops) = picture_of (Some (x, y, w, h)) col pt ops"
| "picture_of path col pt (SourceRgb r g b # ops) = picture_of path (r, g, b) pt ops"
| "picture_of path col pt (MoveTo x y # ops) = picture_of path col (x, y) ops"
| "picture_of path col pt (ShowText s # ops) = Caption (fst pt) (snd pt) s # picture_of path col pt ops"
| "picture_of path col pt (Fill # ops) =
     (case path of None \<Rightarrow> [] | Some (x, y, w, h) \<Rightarrow> [Square x y w h col]) @ picture_of None col pt ops"
| "picture_of path col pt (_ # ops) = picture_of path col pt ops"

lemma picture_of_items:
  "picture_of path col pt (concat (map (\<lambda>((q, l), c). item_ops ext r q c l) items)) =
     concat (map (\<lambda>((q, l), c). [Square (box_x ext r (q, l)) (pl_total_height q) (lr_padding r) (lr_padding r) (c_r c, c_g c, c_b c),
       Caption (box_x ext r (q, l) + 2 * lr_padding r) (pl_total_height q + t_height ext l) l]) items)"
  by (induction items arbitrary: path col pt) (auto simp: item_ops_def box_x_def Let_def mult.commute)

lemma map_snd_place_all [simp]: "map snd (place_all ext r p ls) = ls"
  by (induction ls arbitrary: p) (simp_all add: Let_def)

lemma zip_items:
  "length bs = length ls \<Longrightarrow> map snd bs = ls \<Longrightarrow>
   map (\<lambda>((q, l), c). f (g (q, l)) l c) (zip bs cs) = map (\<lambda>(p, l, c). f p l c) (zip (map g bs) (zip ls cs))"
  by (induction bs ls arbitrary: cs rule: list_induct2) (auto simp: zip_Cons1 split: list.splits)

text \<open>
  C28: What the legend draws after its layout. For every entry there is a square of its colour, in the
  order of the entries, with the text two paddings to the right of its left edge and its lower edge
  the height of the text below the upper one. The area of an entry, from the corner of its square to
  the end of the text and of its line, lies inside the padding and the height that the layout
  reserved, inside the width if it is not too wide for a line of its own, and no two areas overlap:
  of any two, the later one lies to the right of the earlier or below it.
\<close>

theorem legend_fits:
  assumes "0 \<le> lr_padding r" "\<forall>l \<in> set (lr_legends r). 0 \<le> t_width ext l \<and> 0 \<le> t_height ext l"
    and "length (lr_legends r) \<le> length (lr_colors r)"
  shows "\<exists>ops places. legend_draw ext (legend_layout ext width r) = Inr ops \<and> length places = length (lr_legends r) \<and>
    picture_of None (0, 0, 0) (0, 0) ops =
      concat (map (\<lambda>((x, y), l, c). [Square x y (lr_padding r) (lr_padding r) (c_r c, c_g c, c_b c),
        Caption (x + 2 * lr_padding r) (y + t_height ext l) l]) (zip places (zip (lr_legends r) (lr_colors r)))) \<and>
    (\<forall>i < length places. \<forall>x y l. places ! i = (x, y) \<and> l = lr_legends r ! i \<longrightarrow>
       lr_padding r \<le> x \<and> lr_padding r \<le> y \<and> y + t_height ext l + lr_padding r \<le> lr_height (legend_layout ext width r) \<and>
       (4 * lr_padding r + t_width ext l \<le> width \<longrightarrow> x + 3 * lr_padding r + t_width ext l \<le> width)) \<and>
    (\<forall>j < length places. \<forall>i < j. \<forall>x y l. places ! i = (x, y) \<and> l = lr_legends r ! i \<longrightarrow>
       x + 3 * lr_padding r + t_width ext l \<le> fst (places ! j) \<or> y + t_height ext l + lr_padding r \<le> snd (places ! j))"
proof -
  define r1 where "r1 = r\<lparr>lr_width := width\<rparr>"
  define r' where "r' = legend_layout ext width r"
  have same: "place_item ext r' = place_item ext r1" "item_width ext r' = item_width ext r1" "start_placing r' = start_placing r1"
    "lr_padding r' = lr_padding r1" "lr_width r' = lr_width r1"
    by (auto simp: r'_def r1_def legend_layout_def Let_def place_item_def item_width_def start_placing_def fun_eq_iff)
  let ?s = "start_placing r'"
  have e: "lr_padding r' = lr_padding r" "lr_width r' = width" "pl_total_height ?s = lr_padding r" "lr_legends r' = lr_legends r"
    "lr_colors r' = lr_colors r"
    by (simp_all add: r'_def legend_layout_def Let_def start_placing_def)
  have hyp: "0 \<le> lr_padding r'" "\<forall>l \<in> set (lr_legends r'). 0 \<le> t_width ext l \<and> 0 \<le> t_height ext l"
    "0 \<le> pl_line_height ?s" "lr_padding r' \<le> pl_line_used ?s" "length (lr_legends r') \<le> length (lr_colors r')"
    using assms by (simp_all add: e) (simp_all add: start_placing_def e)
  have h: "lr_height r' = pl_total_height (foldl (place_item ext r') ?s (lr_legends r')) + pl_line_height (foldl (place_item ext r') ?s (lr_legends r'))"
    unfolding same by (simp add: r'_def legend_layout_def Let_def r1_def)
  define bs where "bs = place_all ext r' ?s (lr_legends r)"
  define place where "place b = (box_x ext r' b, pl_total_height (fst b))" for b
  have bs: "length bs = length (lr_legends r)" "map snd bs = lr_legends r" by (simp_all add: bs_def)
  have name: "snd (bs ! i) = lr_legends r ! i" if "i < length bs" for i using that arg_cong [OF bs(2), of "\<lambda>l. l ! i"] by simp
  have w: "item_width ext r' l = 3 * lr_padding r + t_width ext l" for l by (simp add: item_width_def e)
  note inside = place_all_bounds [OF hyp(1-4), folded h, unfolded e(4), folded bs_def, unfolded e w box_height_def]
  note clear = place_all_apart [OF hyp(1-3), unfolded e(4), folded bs_def, unfolded sorted_wrt_iff_nth_less apart_def w box_height_def e]
  show ?thesis
  proof (intro exI [of _ "concat (map (\<lambda>((q, l), c). item_ops ext r' q c l) (zip bs (lr_colors r)))"] exI [of _ "map place bs"] conjI)
    show "legend_draw ext (legend_layout ext width r) = Inr (concat (map (\<lambda>((q, l), c). item_ops ext r' q c l) (zip bs (lr_colors r))))"
      using legend_draw_items [OF hyp(5)] by (simp add: r'_def [symmetric] bs_def e)
    show "picture_of None (0, 0, 0) (0, 0) (concat (map (\<lambda>((q, l), c). item_ops ext r' q c l) (zip bs (lr_colors r)))) =
      concat (map (\<lambda>((x, y), l, c). [Square x y (lr_padding r) (lr_padding r) (c_r c, c_g c, c_b c),
        Caption (x + 2 * lr_padding r) (y + t_height ext l) l]) (zip (map place bs) (zip (lr_legends r) (lr_colors r))))"
      unfolding picture_of_items
      using zip_items [OF bs, of "\<lambda>(x, y) l c. [Square x y (lr_padding r) (lr_padding r) (c_r c, c_g c, c_b c),
        Caption (x + 2 * lr_padding r) (y + t_height ext l) l]" place "lr_colors r"]
      by (simp add: e place_def case_prod_unfold)
    show "\<forall>i < length (map place bs). \<forall>x y l. map place bs ! i = (x, y) \<and> l = lr_legends r ! i \<longrightarrow>
       lr_padding r \<le> x \<and> lr_padding r \<le> y \<and> y + t_height ext l + lr_padding r \<le> lr_height (legend_layout ext width r) \<and>
       (4 * lr_padding r + t_width ext l \<le> width \<longrightarrow> x + 3 * lr_padding r + t_width ext l \<le> width)"
      using inside by (auto simp: place_def r'_def [symmetric] name [symmetric] algebra_simps)
    show "\<forall>j < length (map place bs). \<forall>i < j. \<forall>x y l. map place bs ! i = (x, y) \<and> l = lr_legends r ! i \<longrightarrow>
       x + 3 * lr_padding r + t_width ext l \<le> fst (map place bs ! j) \<or> y + t_height ext l + lr_padding r \<le> snd (map place bs ! j)"
      using clear by (auto simp: place_def name [symmetric] algebra_simps)
  qed (simp add: bs)
qed


lemma legend_fits_witness:
  "\<exists>ops places. legend_draw (\<lambda>s. (0, 40, 8)) (legend_layout (\<lambda>s. (0, 40, 8)) 150
       \<lparr>lr_padding = 10, lr_legends = [''a'', ''b''], lr_colors = [\<lparr>c_r = 1, c_g = 0, c_b = 0\<rparr>, \<lparr>c_r = 0, c_g = 1, c_b = 0\<rparr>], lr_width = 0, lr_height = 0\<rparr>) = Inr ops \<and>
     length (picture_of None (0, 0, 0) (0, 0) ops) = 4 \<and> length places = (2 :: nat) \<and>
     (fst (places ! 0) + (70 :: rat) \<le> fst (places ! 1) \<or> snd (places ! 0) + (18 :: rat) \<le> snd (places ! 1))"
proof -
  let ?r = "\<lparr>lr_padding = 10, lr_legends = [''a'', ''b''], lr_colors = [\<lparr>c_r = 1, c_g = 0, c_b = 0\<rparr>, \<lparr>c_r = 0, c_g = 1, c_b = 0\<rparr>], lr_width = 0, lr_height = 0\<rparr>"
  have "0 \<le> lr_padding ?r" "\<forall>l \<in> set (lr_legends ?r). 0 \<le> t_width (\<lambda>s. (0, 40, 8)) l \<and> 0 \<le> t_height (\<lambda>s. (0, 40, 8)) l"
    "length (lr_legends ?r) \<le> length (lr_colors ?r)"
    by (simp_all add: t_width_def t_height_def)
  from legend_fits [OF this, of 150] obtain ops places where
    l: "legend_draw (\<lambda>s. (0, 40, 8)) (legend_layout (\<lambda>s. (0, 40, 8)) 150 ?r) = Inr ops" "length places = length (lr_legends ?r)"
    and p: "picture_of None (0, 0, 0) (0, 0) ops =
      concat (map (\<lambda>((x, y), l, c). [Square x y (lr_padding ?r) (lr_padding ?r) (c_r c, c_g c, c_b c),
          Caption (x + 2 * lr_padding ?r) (y + t_height (\<lambda>s. (0, 40, 8)) l) l])
        (zip places (zip (lr_legends ?r) (lr_colors ?r))))"
    and a: "\<forall>j < length places. \<forall>i < j. \<forall>x y l. places ! i = (x, y) \<and> l = lr_legends ?r ! i \<longrightarrow>
       x + 3 * lr_padding ?r + t_width (\<lambda>s. (0, 40, 8)) l \<le> fst (places ! j) \<or> y + t_height (\<lambda>s. (0, 40, 8)) l + lr_padding ?r \<le> snd (places ! j)"
    by blast
  obtain u v where uv: "places = [u, v]" using l(2) by (auto simp: numeral_eq_Suc length_Suc_conv)
  then have "length (picture_of None (0, 0, 0) (0, 0) ops) = 4" unfolding p by (cases u; cases v) simp
  moreover have "fst (places ! 0) + 70 \<le> fst (places ! 1) \<or> snd (places ! 0) + 18 \<le> snd (places ! 1)"
    using a [rule_format, of 1 0 "fst u" "snd u" "''a''"] uv by (simp add: t_width_def t_height_def add.commute)
  ultimately show ?thesis using l by (intro exI [of _ ops] exI [of _ places]) simp
qed

section \<open>Rows\<close>

lemma draw_row_y: "draw_row ext r adv nm f (y, c) = Inr (y', c') \<Longrightarrow> y' = y + adv"
  by (auto simp: draw_row_def Let_def bindE_Inr_conv)

lemma draw_rows_y:
  "foldE (\<lambda>s x. draw_row ext r adv (nm x) (f x) s) (y, c) xs = Inr (y', c') \<Longrightarrow> y' = y + of_nat (length xs) * adv"
proof (induction xs arbitrary: y c)
  case Nil
  then show ?case by simp
next
  case (Cons x xs)
  then obtain y1 c1 where "draw_row ext r adv (nm x) (f x) (y, c) = Inr (y1, c1)"
    "foldE (\<lambda>s x. draw_row ext r adv (nm x) (f x) s) (y1, c1) xs = Inr (y', c')"
    by (auto simp: bindE_Inr_conv)
  then show ?case using draw_row_y Cons.IH by (fastforce simp: distrib_right)
qed

definition event_rows :: "timeline list \<Rightarrow> nat" where
  "event_rows tls = sum_list (map (\<lambda>t. length (tl_event_int t) + length (tl_event_str t)) tls)"

definition range_rows :: "timeline list \<Rightarrow> nat" where
  "range_rows tls = sum_list (map (\<lambda>t. length (tl_ranges t)) tls)"

lemma draw_timeline_y:
  assumes "draw_timeline ext r (y, c) t = Inr (y', c')"
  shows "y' = y + of_nat (event_rows [t]) * (tv_text_height r + 15) + of_nat (range_rows [t]) * (tv_text_height r + 10)"
proof -
  let ?x = "get_data_x_start r" and ?m = "tv_text_height r"
  obtain c1 y2 c2 y3 c3 y4 c4 where
    a: "foldE (\<lambda>s evs. draw_row ext r (?m + 5 + 10) (te_name evs)
       (\<lambda>y. draw_events r show_int evs ?x y (n_sub (IntN (tv_width r)) ?x) (?m + 5)) s) (y, c1) (tl_event_int t) = Inr (y2, c2)"
    and b: "foldE (\<lambda>s evs. draw_row ext r (?m + 5 + 10) (te_name evs)
       (\<lambda>y. draw_events r id evs ?x y (n_sub (IntN (tv_width r)) ?x) (?m + 5)) s) (y2, c2) (tl_event_str t) = Inr (y3, c3)"
    and d: "foldE (\<lambda>s rs. draw_row ext r (?m + 10) (tr_name rs)
       (\<lambda>y. draw_ranges r rs ?x y (n_sub (IntN (tv_width r)) ?x) 10) s) (y3, c3) (tl_ranges t) = Inr (y4, c4)" and y: "y' = y4"
    using assms by (auto simp: draw_timeline_def Let_def bindE_Inr_conv)
  show ?thesis using draw_rows_y [OF a] draw_rows_y [OF b] draw_rows_y [OF d] y
    by (simp add: event_rows_def range_rows_def algebra_simps)
qed

lemma draw_timelines_y:
  "foldE (draw_timeline ext r) (y, c) tls = Inr (y', c') \<Longrightarrow>
   y' = y + of_nat (event_rows tls) * (tv_text_height r + 15) + of_nat (range_rows tls) * (tv_text_height r + 10)"
proof (induction tls arbitrary: y c)
  case Nil
  then show ?case by (simp add: event_rows_def range_rows_def)
next
  case (Cons t tls)
  then obtain y1 c1 where y1: "draw_timeline ext r (y, c) t = Inr (y1, c1)" "foldE (draw_timeline ext r) (y1, c1) tls = Inr (y', c')"
    by (auto simp: bindE_Inr_conv)
  from draw_timeline_y [OF y1(1)] Cons.IH [OF y1(2)] show ?case
    by (simp add: event_rows_def range_rows_def algebra_simps)
qed

lemma layout_height:
  "tv_height (timelines_layout ext width r) =
     (let tls = tv_timelines r; m = t_height ext alphabet; e = of_nat (event_rows tls); g = of_nat (range_rows tls) in
      max (max (of_nat (length tls) * (m + 10)) ((e + g) * (m + 10))) (e * (m + 15) + g * 20))"
proof -
  have s: "sum_list (map (\<lambda>t. length (tl_event_int t) + length (tl_event_str t)) tls) =
      sum_list (map (\<lambda>t. length (tl_event_int t)) tls) + sum_list (map (\<lambda>t. length (tl_event_str t)) tls)" for tls
    by (induction tls) simp_all
  have m: "max (max a b) c + 10 = max (max (a + 10) (b + 10)) (c + 10)" for a b c :: rat by (simp add: max_def)
  show ?thesis unfolding timelines_layout_def Let_def event_rows_def range_rows_def s
    by (simp add: m algebra_simps)
qed

text \<open>
  C29: The height of the rows drawn after a layout: a row of events takes the height of the text and 15,
  a row of ranges that height and 10, and the two vertical lines are drawn down to their sum. The
  layout reckons a row of ranges as 20, so what is drawn leaves the height reserved for it exactly
  when there are rows of both kinds, the text is higher than 10, and the names on the left do not
  need more.
\<close>

theorem rows_height:
  assumes "timelines_draw ext (timelines_layout ext width r) cs = Inr c"
  shows "let m = t_height ext alphabet; e = of_nat (event_rows (tv_timelines r)); g = of_nat (range_rows (tv_timelines r));
             bot = e * (m + 15) + g * (m + 10)
         in (\<exists>ops a b. cv_ops c = ops @ line_ops a 0 0 bot @ line_ops b 0 0 bot) \<and>
            (tv_height (timelines_layout ext width r) < bot \<longleftrightarrow>
               of_nat (length (tv_timelines r)) * (m + 10) < bot \<and> 0 < e \<and> 0 < g \<and> 10 < m)"
proof -
  define r' where "r' = timelines_layout ext width r"
  define m where "m = t_height ext alphabet"
  define e where "e = (of_nat (event_rows (tv_timelines r)) :: rat)"
  define g where "g = (of_nat (range_rows (tv_timelines r)) :: rat)"
  have r': "tv_timelines r' = tv_timelines r" "tv_text_height r' = m" by (simp_all add: r'_def timelines_layout_def Let_def m_def)
  obtain y c1 c0 where y: "foldE (draw_timeline ext r') (5, c0) (tv_timelines r') = Inr (y, c1)"
    and c: "c = emit (line_ops (5 + val (tv_left_width r') + 5) 0 0 (y - 5) @ line_ops (5 + val (tv_left_width r') + 10 + val (tv_right_width r') + 5) 0 0 (y - 5)) c1"
    using assms unfolding r'_def [symmetric] by (auto simp: timelines_draw_def Let_def bindE_Inr_conv)
  have b: "y - 5 = e * (m + 15) + g * (m + 10)" using draw_timelines_y [OF y] by (simp add: r' e_def g_def)
  have ops: "\<exists>ops a b. cv_ops c = ops @ line_ops a 0 0 (e * (m + 15) + g * (m + 10)) @ line_ops b 0 0 (e * (m + 15) + g * (m + 10))"
    unfolding c b emit_def by auto
  have nn: "0 \<le> e" "0 \<le> g" by (simp_all add: e_def g_def)
  have h: "tv_height r' = max (max (of_nat (length (tv_timelines r)) * (m + 10)) ((e + g) * (m + 10))) (e * (m + 15) + g * 20)"
    by (simp add: r'_def layout_height Let_def m_def e_def g_def)
  have "(e + g) * (m + 10) < e * (m + 15) + g * (m + 10) \<longleftrightarrow> 0 < e" by (simp add: algebra_simps)
  moreover have "e * (m + 15) + g * 20 < e * (m + 15) + g * (m + 10) \<longleftrightarrow> 0 < g \<and> 10 < m"
    using nn(2) by (auto simp: mult_less_cancel_left)
  ultimately show ?thesis using ops unfolding Let_def r'_def [symmetric] m_def [symmetric] e_def [symmetric] g_def [symmetric] h
    by simp
qed


definition demo_ext :: extents where
  "demo_ext = (\<lambda>s. (0, 30, 12))"

definition demo_rows :: timelines_renderer where
  "demo_rows =
     \<lparr>tv_timelines = [\<lparr>tl_name = ''n'', tl_ranges = [\<lparr>tr_name = ''r'', tr_ranges = []\<rparr>], tl_event_str = [],
                       tl_event_int = [\<lparr>te_name = ''e'', te_events = []\<rparr>]\<rparr>],
      tv_start = IntN 0, tv_end = IntN 10, tv_left_width = IntN 0, tv_right_width = IntN 0,
      tv_text_height = 0, tv_width = 0, tv_height = 0\<rparr>"

lemma demo_rows_draw: "\<exists>c. timelines_draw demo_ext (timelines_layout demo_ext 200 demo_rows) new_colors = Inr c"
  by (simp add: timelines_draw_def timelines_layout_def Let_def draw_timeline_def draw_row_def draw_events_def draw_ranges_def
        demo_rows_def py_slice_def split: prod.split)

lemma rows_height_witness: "tv_height (timelines_layout demo_ext 200 demo_rows) < 49"
proof -
  obtain c where "timelines_draw demo_ext (timelines_layout demo_ext 200 demo_rows) new_colors = Inr c"
    using demo_rows_draw by blast
  from rows_height [OF this] show ?thesis
    by (simp add: Let_def demo_rows_def event_rows_def range_rows_def demo_ext_def t_height_def)
qed

end
