(* ===== verification/Grid_Window.thy ===== *)
theory Grid_Window
  imports Grid_Layout
begin

text \<open>
  The picture and the window of \<^verbatim>\<open>utils/grid.py\<close>: \<open>GraphicRenderer\<close>, which puts legend, time lines
  and scales together and keeps the visible range, and the reactions of \<open>GtkGraphicRenderer\<close> to
  the mouse, the zoom buttons and a change of size. GTK prints an exception of a reaction and goes
  on with the state as it is then, so a reaction returns the state and its outcome. The attributes
  that a reaction may find unset are options.
\<close>

type_synonym 'a outcome = "py_error + 'a"

section \<open>The picture\<close>

record graphic =
  gr_start :: rat
  gr_end :: rat
  gr_mid :: scale_renderer
  gr_bot :: scale_renderer
  gr_width :: int
  gr_height :: int
  gr_r_start :: num
  gr_r_end :: num
  gr_data :: timelines_renderer
  gr_legend :: legend_renderer

definition new_graphic :: "int \<Rightarrow> int \<Rightarrow> legend_renderer \<Rightarrow> timelines_renderer \<Rightarrow> graphic" where
  \<comment> \<open>the constructor with \<open>set_top_legend\<close> and \<open>set_data\<close>; \<open>main\<close> sets the range before it is read\<close>
  "new_graphic start end' legend data =
     \<lparr>gr_start = of_int start, gr_end = of_int end', gr_mid = new_scale True,
      gr_bot = set_bounds (IntN start) (IntN end') (new_scale False), gr_width = 1, gr_height = 1,
      gr_r_start = IntN start, gr_r_end = IntN end', gr_data = data, gr_legend = legend\<rparr>"

definition get_data_rectangle :: "graphic \<Rightarrow> num \<times> rat \<times> num \<times> rat" where
  "get_data_rectangle g =
     (let x_start = get_data_x_start (gr_data g) in
      (x_start, lr_height (gr_legend g), n_sub (IntN (gr_width g)) x_start, tv_height (gr_data g)))"

definition scale_data :: "graphic \<Rightarrow> num \<Rightarrow> num res" where
  "scale_data g x =
     bindE (n_div x (n_sub (IntN (gr_width g)) (get_data_x_start (gr_data g)))) (\<lambda>q.
     Inr (n_mul q (n_sub (gr_r_end g) (gr_r_start g))))"

definition get_selection_rectangle :: "graphic \<Rightarrow> (num \<times> rat \<times> num \<times> rat) res" where
  "get_selection_rectangle g =
     bindE (get_position (gr_bot g) (gr_r_start g)) (\<lambda>x_start.
     bindE (get_position (gr_bot g) (gr_r_end g)) (\<lambda>x_end.
     Inr (x_start, lr_height (gr_legend g) + tv_height (gr_data g) + sc_height (gr_mid g) + 20,
          n_sub x_end x_start, sc_height (gr_bot g) + 20)))"

definition scale_selection :: "graphic \<Rightarrow> num \<Rightarrow> num res" where
  "scale_selection g x =
     bindE (n_div x (IntN (gr_width g))) (\<lambda>q. Inr (n_mul q (n_sub (FloatN (gr_end g)) (FloatN (gr_start g)))))"

definition graphic_layout :: "extents \<Rightarrow> int \<Rightarrow> int \<Rightarrow> graphic \<Rightarrow> graphic \<times> unit outcome" where
  "graphic_layout ext width height g =
     (let g1 = g\<lparr>gr_width := width, gr_height := height, gr_legend := legend_layout ext (of_int width) (gr_legend g),
                 gr_data := timelines_layout ext width (gr_data g)\<rparr>
      in case scale_layout ext (n_sub (IntN width) (get_data_x_start (gr_data g1))) (gr_mid g1) of
           Inl e \<Rightarrow> (g1, Inl e)
         | Inr m \<Rightarrow> (let g2 = g1\<lparr>gr_mid := m\<rparr> in
             case scale_layout ext (IntN width) (gr_bot g2) of
               Inl e \<Rightarrow> (g2, Inl e)
             | Inr b \<Rightarrow> (g2\<lparr>gr_bot := b\<rparr>, Inr ())))"

definition clip_range :: "rat \<Rightarrow> rat \<Rightarrow> num \<Rightarrow> num \<Rightarrow> num \<times> num" where
  "clip_range lo hi start end' = (n_max (FloatN lo) (n_min start end'), n_min (FloatN hi) (n_max start end'))"

definition set_range :: "extents \<Rightarrow> num \<Rightarrow> num \<Rightarrow> graphic \<Rightarrow> graphic \<times> unit outcome" where
  "set_range ext start end' g =
     (let (s, e) = clip_range (gr_start g) (gr_end g) start end' in
      graphic_layout ext (gr_width g) (gr_height g)
        (g\<lparr>gr_r_start := s, gr_r_end := e, gr_data := (gr_data g)\<lparr>tv_start := s, tv_end := e\<rparr>,
           gr_mid := set_bounds s e (gr_mid g)\<rparr>))"

definition path_ops :: "(rat \<times> rat) list \<Rightarrow> cairo_op list" where
  "path_ops ps = (case ps of [] \<Rightarrow> [] | (x, y) # r \<Rightarrow> MoveTo x y # map (\<lambda>(a, b). LineTo a b) r)"

definition graphic_draw :: "extents \<Rightarrow> graphic \<Rightarrow> colors \<Rightarrow> (cairo_op list \<times> colors) res" where
  "graphic_draw ext g cs =
     (let w = of_int (gr_width g); top = lr_height (gr_legend g); xs = val (get_data_x_start (gr_data g));
          mid = sc_height (gr_mid g); used = top + tv_height (gr_data g) + mid; used' = used + 20;
          unused_height = sc_height (gr_bot g) + 20
      in bindE (legend_draw ext (gr_legend g)) (\<lambda>legend_ops.
         bindE (timelines_draw ext (gr_data g) cs) (\<lambda>cv.
         bindE (scale_draw ext (gr_mid g)) (\<lambda>mid_ops.
         bindE (get_position (gr_bot g) (gr_r_start g)) (\<lambda>s.
         bindE (get_position (gr_bot g) (gr_r_end g)) (\<lambda>e.
         bindE (scale_draw ext (gr_bot g)) (\<lambda>bot_ops.
         Inr ([Save, SourceRgb 1 1 1, OperatorSource, Rectangle 0 0 w (of_int (gr_height g)), Fill, Save]
              @ legend_ops
              @ [Restore] @ path_ops [(0, top), (w, top)] @ [ClosePath, LineWidth 2, SourceRgb 0 0 0, Stroke, Save, Translate 0 top]
              @ cv_ops cv
              @ [Restore, Save, Translate xs (top + tv_height (gr_data g) + mid)]
              @ mid_ops
              @ [Restore, MoveTo xs used, RelLineTo 0 (- mid), ClosePath, SourceRgb 0 0 0, LineWidth 2, Stroke]
              @ path_ops [(0, used), (w, used)] @ [ClosePath, LineWidth 2, SourceRgb 0 0 0, Stroke]
              @ path_ops [(0, used), (xs, used), (val s, used'), (0, used'), (0, used)]
              @ [SourceRgb 0 0 0, LineWidth 1, StrokePreserve, SourceRgb (9/10) (9/10) (9/10), Fill]
              @ path_ops [(w, used), (w, used'), (val e, used'), (w, used)]
              @ [SourceRgb 0 0 0, LineWidth 1, StrokePreserve, SourceRgb (9/10) (9/10) (9/10), Fill]
              @ [Rectangle 0 used' (val s) unused_height, Rectangle (val e) used' (w - val e) unused_height,
                 SourceRgb (9/10) (9/10) (9/10), Fill]
              @ path_ops [(val e, used'), (w, used'), (w, used' + unused_height), (0, used' + unused_height), (0, used'), (val s, used')]
              @ [ClosePath, LineWidth 2, SourceRgb 0 0 0, Stroke]
              @ path_ops [(val s, used'), (val e, used')] @ [ClosePath, LineWidth 1, SourceRgb (9/10) (9/10) (9/10), Stroke]
              @ [Save, MoveTo (max (val s) 2) used', RelLineTo 0 unused_height, MoveTo (min (val e) (w - 2)) used',
                 RelLineTo 0 unused_height, SetDash [5] 0, SourceRgb 0 0 0, LineWidth 1, Stroke, Restore]
              @ [Save, Translate 0 used'] @ bot_ops @ [Restore], cv_colors cv))))))))"

section \<open>The window\<close>

record window =
  wi_data :: graphic
  wi_left :: bool
  wi_right :: bool
  wi_both :: bool
  wi_top :: bool
  wi_redraw :: bool
  wi_left_cur :: "num option"
  wi_right_cur :: "num option"
  wi_both_start :: "num option"
  wi_both_cur :: "num option"
  wi_top_start :: "num option"
  wi_top_cur :: "num option"
  wi_width :: "int option"
  wi_colors :: colors

definition new_window :: "graphic \<Rightarrow> colors \<Rightarrow> window" where
  "new_window g cs =
     \<lparr>wi_data = g, wi_left = False, wi_right = False, wi_both = False, wi_top = False, wi_redraw = True,
      wi_left_cur = None, wi_right_cur = None, wi_both_start = None, wi_both_cur = None,
      wi_top_start = None, wi_top_cur = None, wi_width = None, wi_colors = cs\<rparr>"

definition attr :: "'a option \<Rightarrow> 'a res" where
  "attr x = (case x of None \<Rightarrow> Inl AttributeError | Some v \<Rightarrow> Inr v)"

text \<open>A reaction sees the state, may fail, and otherwise returns the new state and its result.\<close>

definition on_range :: "extents \<Rightarrow> (graphic \<Rightarrow> (num \<times> num) res) \<Rightarrow> (window \<Rightarrow> window) \<Rightarrow> 'a \<Rightarrow> window \<Rightarrow> window \<times> 'a outcome" where
  \<comment> \<open>\<open>set_range\<close> with computed ends, then what the reaction does after it\<close>
  "on_range ext ends after r w =
     (case ends (wi_data w) of
        Inl e \<Rightarrow> (w, Inl e)
      | Inr (s, e) \<Rightarrow>
          (case set_range ext s e (wi_data w) of
             (g, Inl err) \<Rightarrow> (w\<lparr>wi_data := g\<rparr>, Inl err)
           | (g, Inr _) \<Rightarrow> (after (w\<lparr>wi_data := g\<rparr>), Inr r)))"

definition full_redraw :: "window \<Rightarrow> window" where
  "full_redraw w = w\<lparr>wi_redraw := True\<rparr>"

definition set_smaller_zoom :: "extents \<Rightarrow> window \<Rightarrow> window \<times> bool outcome" where
  "set_smaller_zoom ext =
     on_range ext (\<lambda>g. Inr (gr_r_start g, n_add (gr_r_start g) (n_mul (n_sub (gr_r_end g) (gr_r_start g)) (IntN 2))))
       full_redraw True"

definition set_bigger_zoom :: "extents \<Rightarrow> window \<Rightarrow> window \<times> bool outcome" where
  "set_bigger_zoom ext =
     on_range ext (\<lambda>g. bindE (n_div (n_sub (gr_r_end g) (gr_r_start g)) (IntN 2)) (\<lambda>h.
        Inr (gr_r_start g, n_add (gr_r_start g) h))) full_redraw True"

definition button_press :: "num \<Rightarrow> num \<Rightarrow> window \<Rightarrow> window \<times> bool outcome" where
  "button_press ex ey w =
     (case get_selection_rectangle (wi_data w) of
        Inl e \<Rightarrow> (w, Inl e)
      | Inr (x, y, width, height) \<Rightarrow>
          (let (d_x, d_y, d_width, d_height) = get_data_rectangle (wi_data w);
               inside = val ey > y \<and> val ey < y + height
           in if inside \<and> \<bar>val (n_sub ex x)\<bar> < 5 then (w\<lparr>wi_left := True\<rparr>, Inr True)
              else if inside \<and> \<bar>val (n_sub ex (n_add x width))\<bar> < 5 then (w\<lparr>wi_right := True\<rparr>, Inr True)
              else if inside \<and> val ex > val x \<and> val ex < val (n_add x width)
                then (w\<lparr>wi_both := True, wi_both_start := Some ex, wi_both_cur := Some ex\<rparr>, Inr True)
              else if val ey > d_y \<and> val ey < d_y + d_height \<and> val ex > val d_x \<and> val ex < val (n_add d_x d_width)
                then (w\<lparr>wi_top := True, wi_top_start := Some ex, wi_top_cur := Some ex\<rparr>, Inr True)
              else (w, Inr False)))"

definition button_release :: "extents \<Rightarrow> window \<Rightarrow> window \<times> bool outcome" where
  "button_release ext w =
     (if wi_left w then
        on_range ext (\<lambda>g. bindE (attr (wi_left_cur w)) (\<lambda>c. bindE (scale_selection g c) (\<lambda>left. Inr (left, gr_r_end g))))
          full_redraw True (w\<lparr>wi_left := False\<rparr>)
      else if wi_right w then
        on_range ext (\<lambda>g. bindE (attr (wi_right_cur w)) (\<lambda>c. bindE (scale_selection g c) (\<lambda>right. Inr (gr_r_start g, right))))
          full_redraw True (w\<lparr>wi_right := False\<rparr>)
      else if wi_both w then
        on_range ext (\<lambda>g. bindE (attr (wi_both_cur w)) (\<lambda>c. bindE (attr (wi_both_start w)) (\<lambda>s.
            bindE (scale_selection g (n_sub c s)) (\<lambda>delta. Inr (n_add (gr_r_start g) delta, n_add (gr_r_end g) delta)))))
          full_redraw True (w\<lparr>wi_both := False\<rparr>)
      else (w\<lparr>wi_top := False\<rparr>, Inr False))"

definition motion_left :: "num \<Rightarrow> num \<Rightarrow> num \<Rightarrow> window \<Rightarrow> window \<times> bool outcome" where
  "motion_left x width ex w =
     (let cur = (if val ex \<le> 0 then IntN 0 else if val ex \<ge> val (n_add x width) then n_add x width else ex);
          w1 = w\<lparr>wi_left_cur := Some cur\<rparr>
      in case attr (wi_width w) of Inl e \<Rightarrow> (w1, Inl e) | Inr _ \<Rightarrow> (w1, Inr True))"

definition motion_right :: "num \<Rightarrow> num \<Rightarrow> window \<Rightarrow> window \<times> bool outcome" where
  \<comment> \<open>beyond the width the flag is assigned instead of the position\<close>
  "motion_right x ex w =
     (case attr (wi_width w) of
        Inl e \<Rightarrow> (w, Inl e)
      | Inr ww \<Rightarrow>
          (if val ex \<ge> of_int ww then (w\<lparr>wi_right := (ww \<noteq> 0)\<rparr>, Inr True)
           else if val ex < val x then (w\<lparr>wi_right_cur := Some x\<rparr>, Inr True)
           else (w\<lparr>wi_right_cur := Some ex\<rparr>, Inr True)))"

definition motion_both :: "num \<Rightarrow> num \<Rightarrow> num \<Rightarrow> window \<Rightarrow> window \<times> bool outcome" where
  "motion_both x width ex w =
     (case bindE (attr (wi_width w)) (\<lambda>ww. bindE (attr (wi_both_start w)) (\<lambda>s. Inr (ww, s))) of
        Inl e \<Rightarrow> (w, Inl e)
      | Inr (ww, s) \<Rightarrow>
          (let cur_e = n_sub (IntN ww) (n_sub (n_add x width) s); cur_s = n_sub s x;
               cur = (if val ex < val cur_s then cur_s else if val ex > val cur_e then cur_e else ex)
           in (w\<lparr>wi_both_cur := Some cur\<rparr>, Inr True)))"

definition motion_top :: "extents \<Rightarrow> num \<Rightarrow> window \<Rightarrow> window \<times> bool outcome" where
  "motion_top ext ex w =
     on_range ext (\<lambda>g. bindE (attr (wi_top_start w)) (\<lambda>s. bindE (scale_data g (n_sub s ex)) (\<lambda>delta.
         Inr (n_add (gr_r_start g) delta, n_add (gr_r_end g) delta))))
       (\<lambda>w. full_redraw (w\<lparr>wi_top_start := Some ex\<rparr>)) True (w\<lparr>wi_top_cur := Some ex\<rparr>)"

definition cursor_shown :: "num \<times> rat \<times> num \<times> rat \<Rightarrow> graphic \<Rightarrow> num \<Rightarrow> num \<Rightarrow> bool" where
  \<comment> \<open>whether the pointer is over a handle, the selection or the data; the cursor's shape is left out\<close>
  "cursor_shown sel g ex ey =
     (let (x, y, width, height) = sel; (d_x, d_y, d_width, d_height) = get_data_rectangle g in
      (val ey > y \<and> val ey < y + height \<and>
        (\<bar>val (n_sub ex x)\<bar> < 5 \<or> \<bar>val (n_sub ex (n_add x width))\<bar> < 5 \<or> val ex > val x \<and> val ex < val (n_add x width))) \<or>
      (val ey > d_y \<and> val ey < d_y + d_height \<and> val ex > val d_x \<and> val ex < val (n_add d_x d_width)))"

definition motion_notify :: "extents \<Rightarrow> num \<Rightarrow> num \<Rightarrow> window \<Rightarrow> window \<times> bool outcome" where
  "motion_notify ext ex ey w =
     (case get_selection_rectangle (wi_data w) of
        Inl e \<Rightarrow> (w, Inl e)
      | Inr (x, y, width, height) \<Rightarrow>
          if wi_left w then motion_left x width ex w
          else if wi_right w then motion_right x ex w
          else if wi_both w then motion_both x width ex w
          else if wi_top w then motion_top ext ex w
          else (w, Inr (cursor_shown (x, y, width, height) (wi_data w) ex ey)))"

definition size_allocate :: "extents \<Rightarrow> int \<Rightarrow> int \<Rightarrow> window \<Rightarrow> window \<times> bool outcome" where
  "size_allocate ext width height w =
     (let w1 = w\<lparr>wi_width := Some width\<rparr> in
      case graphic_layout ext width height (wi_data w1) of
        (g, Inl e) \<Rightarrow> (w1\<lparr>wi_data := g\<rparr>, Inl e)
      | (g, Inr _) \<Rightarrow> (full_redraw (w1\<lparr>wi_data := g\<rparr>), Inr True))"

text \<open>
  \<open>expose\<close> draws the picture if it has changed, and the lines of a drag on top of it; its result are
  both lists of operations. A colour is handed out for every value of the data before the window
  opens, so an exception while drawing leaves the colours as they are.
\<close>

definition drag_lines :: "window \<Rightarrow> num \<times> rat \<times> num \<times> rat \<Rightarrow> cairo_op list res" where
  "drag_lines w = (\<lambda>(x, y, width, height).
     let line = (\<lambda>x. [MoveTo x y, RelLineTo 0 height, ClosePath]) in
     bindE (if wi_left w then bindE (attr (wi_left_cur w)) (\<lambda>c.
              Inr (line (max (val c) 2) @ [LineWidth 1, SourceRgb 0 0 0, Stroke])) else Inr []) (\<lambda>l.
     bindE (if wi_right w then bindE (attr (wi_right_cur w)) (\<lambda>c. bindE (attr (wi_width w)) (\<lambda>ww.
              Inr (line (min (val c) (of_int ww - 2)) @ [LineWidth 1, SourceRgb 0 0 0, Stroke]))) else Inr []) (\<lambda>r.
     bindE (if wi_both w then bindE (attr (wi_both_cur w)) (\<lambda>c. bindE (attr (wi_both_start w)) (\<lambda>s.
              let delta_x = val (n_sub c s) in
              Inr (line (val x + delta_x) @ line (val x + val width + delta_x) @ [SourceRgb 0 0 0, LineWidth 1, Stroke])))
            else Inr []) (\<lambda>b.
     Inr (l @ r @ b)))))"

definition expose :: "extents \<Rightarrow> window \<Rightarrow> window \<times> (cairo_op list \<times> cairo_op list) outcome" where
  "expose ext w =
     (case (if wi_redraw w then graphic_draw ext (wi_data w) (wi_colors w) else Inr ([], wi_colors w)) of
        Inl e \<Rightarrow> (w, Inl e)
      | Inr (ops, cs) \<Rightarrow>
          (let w1 = w\<lparr>wi_redraw := False, wi_colors := cs\<rparr> in
           case bindE (get_selection_rectangle (wi_data w1)) (drag_lines w1) of
             Inl e \<Rightarrow> (w1, Inl e)
           | Inr lines \<Rightarrow> (w1, Inr (ops, lines))))"

definition output_png :: "extents \<Rightarrow> window \<Rightarrow> cairo_op list res" where
  \<comment> \<open>what is on the surface that is written: the picture is drawn on another one\<close>
  "output_png ext w = bindE (graphic_draw ext (wi_data w) (wi_colors w)) (\<lambda>_. Inr [])"

datatype gui_event =
    Press rat rat
  | Release
  | Motion rat rat
  | Allocate int int
  | ZoomOut
  | ZoomIn
  | Expose

primrec react :: "extents \<Rightarrow> gui_event \<Rightarrow> window \<Rightarrow> window \<times> bool outcome" where
  "react ext (Press x y) w = button_press (FloatN x) (FloatN y) w"
| "react ext Release w = button_release ext w"
| "react ext (Motion x y) w = motion_notify ext (FloatN x) (FloatN y) w"
| "react ext (Allocate a b) w = size_allocate ext a b w"
| "react ext ZoomOut w = set_smaller_zoom ext w"
| "react ext ZoomIn w = set_bigger_zoom ext w"
| "react ext Expose w = (case expose ext w of (w', Inl e) \<Rightarrow> (w', Inl e) | (w', Inr _) \<Rightarrow> (w', Inr False))"

text \<open>The states of a window: an exception is printed and the window lives on.\<close>

inductive window_reach :: "extents \<Rightarrow> window \<Rightarrow> window \<Rightarrow> bool" for ext w0 where
  start: "window_reach ext w0 w0"
| react: "window_reach ext w0 w \<Longrightarrow> window_reach ext w0 (fst (react ext e w))"

section \<open>The program\<close>

text \<open>\<open>main\<close> up to the window, with the visible range it begins with.\<close>

definition first_range :: "int \<Rightarrow> int \<Rightarrow> int \<times> int" where
  "first_range lower upper =
     (let mid = (upper - lower) div 2; width = (upper - lower) div 10 in (mid - width div 2, mid + width div 2))"

definition open_window :: "extents \<Rightarrow> int \<times> int \<Rightarrow> string list \<Rightarrow> color list \<Rightarrow> timeline list \<Rightarrow> colors \<Rightarrow> window res" where
  "open_window ext bounds values ks tls cs =
     (let legend = \<lparr>lr_padding = 10, lr_legends = values, lr_colors = ks, lr_width = 0, lr_height = 0\<rparr>;
          data = \<lparr>tv_timelines = tls, tv_start = IntN 0, tv_end = IntN 0, tv_left_width = IntN 0, tv_right_width = IntN 0,
                  tv_text_height = 0, tv_width = 0, tv_height = 0\<rparr>;
          (lo, hi) = first_range (fst bounds) (snd bounds);
          (g, r) = set_range ext (IntN lo) (IntN hi) (new_graphic (fst bounds) (snd bounds) legend data)
      in bindE r (\<lambda>_. Inr (new_window g cs)))"

definition grid_main :: "extents \<Rightarrow> (string list \<Rightarrow> string list) \<Rightarrow> string list \<Rightarrow> window res" where
  "grid_main ext key_order lines =
     bindE (read_data Py2 lines) (\<lambda>(cs, tls).
     bindE (legend_colors Py2 (all_range_values key_order tls) cs) (\<lambda>(cols, cs').
     bindE (mapE (\<lambda>c. case c of None \<Rightarrow> Inl AttributeError | Some k \<Rightarrow> Inr k) cols) (\<lambda>ks.
     open_window ext (timelines_bounds tls) (all_range_values key_order tls) ks tls cs')))"

section \<open>The visible range\<close>

text \<open>
  The visible range lies within the data, and the parts of the picture that keep a copy of it agree
  with it.
\<close>

definition view_ok :: "int \<Rightarrow> int \<Rightarrow> graphic \<Rightarrow> bool" where
  "view_ok lo hi g \<longleftrightarrow>
     gr_start g = of_int lo \<and> gr_end g = of_int hi \<and>
     gr_start g \<le> val (gr_r_start g) \<and> val (gr_r_end g) \<le> gr_end g \<and>
     sc_lo (gr_mid g) = gr_r_start g \<and> sc_hi (gr_mid g) = gr_r_end g \<and>
     tv_start (gr_data g) = gr_r_start g \<and> tv_end (gr_data g) = gr_r_end g \<and>
     sc_lo (gr_bot g) = IntN lo \<and> sc_hi (gr_bot g) = IntN hi"

lemma scale_layout_keeps: "scale_layout ext width s = Inr s' \<Longrightarrow> sc_lo s' = sc_lo s \<and> sc_hi s' = sc_hi s \<and> sc_top s' = sc_top s"
  by (auto simp: scale_layout_def bindE_Inr_conv)

lemma timelines_layout_keeps [simp]:
  "tv_start (timelines_layout ext width r) = tv_start r" "tv_end (timelines_layout ext width r) = tv_end r"
  "tv_timelines (timelines_layout ext width r) = tv_timelines r"
  by (simp_all add: timelines_layout_def Let_def)

lemma graphic_layout_keeps:
  "graphic_layout ext width height g = (g', r) \<Longrightarrow>
     gr_start g' = gr_start g \<and> gr_end g' = gr_end g \<and> gr_r_start g' = gr_r_start g \<and> gr_r_end g' = gr_r_end g \<and>
     tv_start (gr_data g') = tv_start (gr_data g) \<and> tv_end (gr_data g') = tv_end (gr_data g) \<and>
     sc_lo (gr_mid g') = sc_lo (gr_mid g) \<and> sc_hi (gr_mid g') = sc_hi (gr_mid g) \<and>
     sc_lo (gr_bot g') = sc_lo (gr_bot g) \<and> sc_hi (gr_bot g') = sc_hi (gr_bot g)"
  by (auto simp: graphic_layout_def Let_def dest: scale_layout_keeps split: sum.splits)

lemma layout_view: "view_ok lo hi g \<Longrightarrow> view_ok lo hi (fst (graphic_layout ext width height g))"
  using graphic_layout_keeps [of ext width height g "fst (graphic_layout ext width height g)" "snd (graphic_layout ext width height g)"]
  by (auto simp: view_ok_def)

lemma set_range_view:
  assumes "gr_start g = of_int lo" "gr_end g = of_int hi" "sc_lo (gr_bot g) = IntN lo" "sc_hi (gr_bot g) = IntN hi"
  shows "view_ok lo hi (fst (set_range ext a b g))"
proof -
  obtain s e where c: "clip_range (gr_start g) (gr_end g) a b = (s, e)" by fastforce
  then have "gr_start g \<le> val s" "val e \<le> gr_end g" by (auto simp: clip_range_def)
  then have "view_ok lo hi (g\<lparr>gr_r_start := s, gr_r_end := e, gr_data := (gr_data g)\<lparr>tv_start := s, tv_end := e\<rparr>,
      gr_mid := set_bounds s e (gr_mid g)\<rparr>)"
    using assms by (simp add: view_ok_def set_bounds_def)
  then show ?thesis by (simp add: set_range_def c layout_view)
qed

lemma on_range_data:
  assumes "\<And>w. wi_data (after w) = wi_data w"
  shows "wi_data (fst (on_range ext ends after r w)) = wi_data w \<or>
    (\<exists>a b. ends (wi_data w) = Inr (a, b) \<and> wi_data (fst (on_range ext ends after r w)) = fst (set_range ext a b (wi_data w)))"
  using assms by (auto simp: on_range_def split: sum.splits prod.splits)

lemma on_range_set:
  assumes "ends (wi_data w) = Inr (a, b)" and "\<And>w. wi_data (after w) = wi_data w"
  shows "wi_data (fst (on_range ext ends after r w)) = fst (set_range ext a b (wi_data w))"
  using assms by (auto simp: on_range_def split: sum.splits prod.splits)

text \<open>What a reaction can do to the picture: nothing, a new layout, or a new range.\<close>

lemma wi_data_full_redraw [simp]: "wi_data (full_redraw w) = wi_data w"
  by (simp add: full_redraw_def)

lemma on_range_pic:
  assumes "\<And>w. wi_data (after w) = wi_data w"
  shows "wi_data (fst (on_range ext ends after r w)) \<in> {wi_data w} \<union> range (\<lambda>(a, b). fst (set_range ext a b (wi_data w)))"
  using on_range_data [of after ext ends r w] assms by (auto intro: image_eqI [of _ _ "(a, b)" for a b])

definition pic_changes :: "extents \<Rightarrow> graphic \<Rightarrow> graphic set" where
  "pic_changes ext g = {g} \<union> range (\<lambda>(a, b). fst (set_range ext a b g)) \<union> range (\<lambda>(a, b). fst (graphic_layout ext a b g))"

lemma on_range_changes:
  assumes "\<And>w. wi_data (after w) = wi_data w" and "wi_data w = g"
  shows "wi_data (fst (on_range ext ends after r w)) \<in> pic_changes ext g"
  using on_range_pic [of after ext ends r w] assms by (auto simp: pic_changes_def)

lemma react_changes: "wi_data (fst (react ext e w)) \<in> pic_changes ext (wi_data w)"
proof -
  have self: "wi_data w \<in> pic_changes ext (wi_data w)" by (simp add: pic_changes_def)
  show ?thesis
  proof (cases e)
    case (Press x y)
    then show ?thesis using self
      by (auto simp: button_press_def Let_def split: sum.split prod.split)
  next
    case Release
    then show ?thesis using self by (auto simp: button_release_def intro!: on_range_changes)
  next
    case (Motion x y)
    then show ?thesis using self
      by (auto simp: motion_notify_def motion_left_def motion_right_def motion_both_def motion_top_def Let_def
            intro!: on_range_changes split: sum.split prod.split)
  next
    case (Allocate a b)
    have "wi_data (fst (size_allocate ext a b w)) = fst (graphic_layout ext a b (wi_data w))"
      by (auto simp: size_allocate_def Let_def split: prod.split sum.split)
    then show ?thesis using Allocate by (auto simp: pic_changes_def)
  next
    case ZoomOut
    then show ?thesis by (simp add: set_smaller_zoom_def on_range_changes)
  next
    case ZoomIn
    then show ?thesis by (simp add: set_bigger_zoom_def on_range_changes)
  next
    case Expose
    then show ?thesis using self by (auto simp: expose_def Let_def split: sum.split prod.split if_splits)
  qed
qed

lemma changes_view:
  assumes "view_ok lo hi g" and "g' \<in> pic_changes ext g"
  shows "view_ok lo hi g'"
  using assms set_range_view [of g lo hi ext] layout_view [of lo hi g ext] by (auto simp: pic_changes_def view_ok_def)

lemma reach_view: "window_reach ext w0 w \<Longrightarrow> view_ok lo hi (wi_data w0) \<Longrightarrow> view_ok lo hi (wi_data w)"
  by (induction rule: window_reach.induct) (auto intro: changes_view react_changes)

lemma open_window_data:
  "open_window ext bounds values ks tls cs = Inr w \<Longrightarrow> \<exists>a b l d. wi_data w = fst (set_range ext a b (new_graphic (fst bounds) (snd bounds) l d))"
  by (auto simp: open_window_def Let_def bindE_Inr_conv new_window_def split: prod.splits) (metis fst_conv)

lemma main_view:
  assumes "grid_main ext key_order lines = Inr w" and "read_data Py2 lines = Inr (cs, tls)"
  shows "view_ok (fst (timelines_bounds tls)) (snd (timelines_bounds tls)) (wi_data w)"
proof -
  obtain ks cs' where "open_window ext (timelines_bounds tls) (all_range_values key_order tls) ks tls cs' = Inr w"
    using assms by (auto simp: grid_main_def bindE_Inr_conv)
  then obtain a b l d where "wi_data w = fst (set_range ext a b (new_graphic (fst (timelines_bounds tls)) (snd (timelines_bounds tls)) l d))"
    using open_window_data by blast
  then show ?thesis by (simp add: set_range_view new_graphic_def set_bounds_def)
qed


text \<open>When the two ends come out in order.\<close>

definition view_ordered :: "graphic \<Rightarrow> bool" where
  "view_ordered g \<longleftrightarrow> val (gr_r_start g) \<le> val (gr_r_end g)"

lemma set_range_ends:
  "gr_r_start (fst (set_range ext a b g)) = fst (clip_range (gr_start g) (gr_end g) a b)"
  "gr_r_end (fst (set_range ext a b g)) = snd (clip_range (gr_start g) (gr_end g) a b)"
proof -
  obtain s e where c: "clip_range (gr_start g) (gr_end g) a b = (s, e)" by fastforce
  let ?g = "g\<lparr>gr_r_start := s, gr_r_end := e, gr_data := (gr_data g)\<lparr>tv_start := s, tv_end := e\<rparr>, gr_mid := set_bounds s e (gr_mid g)\<rparr>"
  obtain g' r where l: "graphic_layout ext (gr_width g) (gr_height g) ?g = (g', r)" by fastforce
  then have "fst (set_range ext a b g) = g'" by (simp add: set_range_def c)
  with graphic_layout_keeps [OF l] c
  show "gr_r_start (fst (set_range ext a b g)) = fst (clip_range (gr_start g) (gr_end g) a b)"
    "gr_r_end (fst (set_range ext a b g)) = snd (clip_range (gr_start g) (gr_end g) a b)" by simp_all
qed

lemma clip_ordered:
  assumes "lo \<le> hi"
  shows "val (fst (clip_range lo hi a b)) \<le> val (snd (clip_range lo hi a b)) \<longleftrightarrow> min (val a) (val b) \<le> hi \<and> lo \<le> max (val a) (val b)"
  using assms by (auto simp: clip_range_def)

lemma set_range_ordered:
  assumes "view_ok lo hi g" and "lo \<le> hi"
  shows "view_ordered (fst (set_range ext a b g)) \<longleftrightarrow> min (val a) (val b) \<le> of_int hi \<and> of_int lo \<le> max (val a) (val b)"
  using assms clip_ordered [of "of_int lo" "of_int hi" a b] by (simp add: view_ordered_def set_range_ends view_ok_def)

text \<open>Moving one end, or zooming, keeps the order: the other end is inside the data.\<close>

lemma on_range_ordered:
  assumes "view_ok lo hi (wi_data w)" "lo \<le> hi" "view_ordered (wi_data w)" "\<And>w. wi_data (after w) = wi_data w"
    and "\<And>a b. ends (wi_data w) = Inr (a, b) \<Longrightarrow> a = gr_r_start (wi_data w) \<or> b = gr_r_end (wi_data w)"
  shows "view_ordered (wi_data (fst (on_range ext ends after r w)))"
proof -
  consider "wi_data (fst (on_range ext ends after r w)) = wi_data w"
    | a b where "ends (wi_data w) = Inr (a, b)" "wi_data (fst (on_range ext ends after r w)) = fst (set_range ext a b (wi_data w))"
    using on_range_data [of after ext ends r w] assms(4) by blast
  then show ?thesis
  proof cases
    case 1
    then show ?thesis using assms(3) by simp
  next
    case (2 a b)
    have "min (val a) (val b) \<le> of_int hi \<and> of_int lo \<le> max (val a) (val b)"
      using assms(1,3) assms(5) [OF 2(1)] by (auto simp: view_ok_def view_ordered_def min_le_iff_disj le_max_iff_disj)
    then show ?thesis using 2(2) set_range_ordered [OF assms(1,2)] by simp
  qed
qed

text \<open>
  Two reactions shift both ends by the same time: dragging the data area, and releasing the selection
  that was dragged as a whole. The distance is that of the pointer, in the scale it is dragged in.
\<close>

definition shift_of :: "window \<Rightarrow> gui_event \<Rightarrow> rat option" where
  "shift_of w e =
     (case e of
        Motion x y \<Rightarrow>
          if wi_top w \<and> \<not> wi_left w \<and> \<not> wi_right w \<and> \<not> wi_both w \<and> is_ok (get_selection_rectangle (wi_data w)) then
            (case wi_top_start w of
               None \<Rightarrow> None
             | Some s \<Rightarrow> (case scale_data (wi_data w) (n_sub s (FloatN x)) of Inl _ \<Rightarrow> None | Inr d \<Rightarrow> Some (val d)))
          else None
      | Release \<Rightarrow>
          if wi_both w \<and> \<not> wi_left w \<and> \<not> wi_right w then
            (case (wi_both_cur w, wi_both_start w) of
               (Some c, Some s) \<Rightarrow> (case scale_selection (wi_data w) (n_sub c s) of Inl _ \<Rightarrow> None | Inr d \<Rightarrow> Some (val d))
             | _ \<Rightarrow> None)
          else None
      | _ \<Rightarrow> None)"

lemma shift_react:
  assumes "shift_of w e = Some d"
  shows "\<exists>a b. wi_data (fst (react ext e w)) = fst (set_range ext a b (wi_data w)) \<and>
    val a = val (gr_r_start (wi_data w)) + d \<and> val b = val (gr_r_end (wi_data w)) + d"
proof (cases e)
  case Release
  then obtain c s q where q: "wi_both w" "\<not> wi_left w" "\<not> wi_right w" "wi_both_cur w = Some c" "wi_both_start w = Some s"
      "scale_selection (wi_data w) (n_sub c s) = Inr q" "val q = d"
    using assms by (auto simp: shift_of_def split: if_splits option.splits sum.splits)
  let ?a = "n_add (gr_r_start (wi_data w)) q" and ?b = "n_add (gr_r_end (wi_data w)) q"
  have "wi_data (fst (react ext e w)) = fst (set_range ext ?a ?b (wi_data w))"
    using q Release by (simp add: button_release_def) (subst on_range_set, auto simp: attr_def)
  then show ?thesis using q(7) by (intro exI [of _ ?a] exI [of _ ?b]) simp
next
  case (Motion x y)
  then obtain s q where q: "wi_top w" "\<not> wi_left w" "\<not> wi_right w" "\<not> wi_both w" "is_ok (get_selection_rectangle (wi_data w))"
      "wi_top_start w = Some s" "scale_data (wi_data w) (n_sub s (FloatN x)) = Inr q" "val q = d"
    using assms by (auto simp: shift_of_def split: if_splits option.splits sum.splits)
  let ?a = "n_add (gr_r_start (wi_data w)) q" and ?b = "n_add (gr_r_end (wi_data w)) q"
  have "wi_data (fst (motion_top ext (FloatN x) w)) = fst (set_range ext ?a ?b (wi_data w))"
    using q unfolding motion_top_def by (subst on_range_set) (auto simp: attr_def)
  moreover have "react ext e w = motion_top ext (FloatN x) w"
    using q Motion by (auto simp: motion_notify_def is_ok_def split: sum.splits)
  ultimately show ?thesis using q(8) by (intro exI [of _ ?a] exI [of _ ?b]) simp
qed (use assms in \<open>simp_all add: shift_of_def\<close>)

lemma react_ordered:
  assumes "view_ok lo hi (wi_data w)" "lo \<le> hi" "view_ordered (wi_data w)" and "shift_of w e = None"
  shows "view_ordered (wi_data (fst (react ext e w)))"
proof (cases e)
  case (Press x y)
  then show ?thesis using assms(3) by (auto simp: button_press_def Let_def split: sum.split prod.split)
next
  case Release
  consider "wi_left w" | "\<not> wi_left w" "wi_right w" | "\<not> wi_left w" "\<not> wi_right w" "wi_both w" | "\<not> wi_left w" "\<not> wi_right w" "\<not> wi_both w" by blast
  then show ?thesis
  proof cases
    case 3
    define ends where "ends = (\<lambda>g. bindE (attr (wi_both_cur w)) (\<lambda>c. bindE (attr (wi_both_start w)) (\<lambda>s.
            bindE (scale_selection g (n_sub c s)) (\<lambda>delta. Inr (n_add (gr_r_start g) delta, n_add (gr_r_end g) delta)))))"
    have "ends (wi_data w) \<noteq> Inr (a, b)" for a b
      using assms(4) Release 3 by (auto simp: ends_def shift_of_def attr_def bindE_Inr_conv split: option.splits sum.splits)
    then have "wi_data (fst (button_release ext w)) = wi_data w"
      using on_range_data [of full_redraw ext ends True "w\<lparr>wi_both := False\<rparr>"] 3 by (simp add: button_release_def ends_def)
    then show ?thesis using assms(3) Release by simp
  qed (use assms Release in \<open>auto simp: button_release_def bindE_Inr_conv intro!: on_range_ordered [of lo hi]\<close>)
next
  case (Motion x y)
  show ?thesis
  proof (cases "wi_top w \<and> \<not> wi_left w \<and> \<not> wi_right w \<and> \<not> wi_both w \<and> is_ok (get_selection_rectangle (wi_data w))")
    case True
    define ends where "ends = (\<lambda>g. bindE (attr (wi_top_start w)) (\<lambda>s. bindE (scale_data g (n_sub s (FloatN x))) (\<lambda>delta.
         Inr (n_add (gr_r_start g) delta, n_add (gr_r_end g) delta))))"
    have "ends (wi_data w) \<noteq> Inr (a, b)" for a b
      using assms(4) Motion True by (auto simp: ends_def shift_of_def attr_def bindE_Inr_conv split: option.splits sum.splits)
    then have "wi_data (fst (motion_top ext (FloatN x) w)) = wi_data w"
      using on_range_data [of "\<lambda>v. full_redraw (v\<lparr>wi_top_start := Some (FloatN x)\<rparr>)" ext ends True "w\<lparr>wi_top_cur := Some (FloatN x)\<rparr>"]
      by (simp add: motion_top_def ends_def)
    then show ?thesis using assms(3) Motion True by (auto simp: motion_notify_def split: sum.split prod.split)
  next
    case False
    then show ?thesis using assms(3) Motion
      by (auto simp: motion_notify_def motion_left_def motion_right_def motion_both_def Let_def is_ok_def split: sum.split prod.split)
  qed
next
  case (Allocate a b)
  have "wi_data (fst (size_allocate ext a b w)) = fst (graphic_layout ext a b (wi_data w))"
    by (auto simp: size_allocate_def Let_def split: prod.split sum.split)
  moreover obtain g' r where "graphic_layout ext a b (wi_data w) = (g', r)" by fastforce
  ultimately show ?thesis using Allocate assms(3) graphic_layout_keeps [of ext a b "wi_data w" g' r]
    by (simp add: view_ordered_def)
next
  case ZoomOut
  then show ?thesis using assms by (auto simp: set_smaller_zoom_def intro!: on_range_ordered [of lo hi])
next
  case ZoomIn
  then show ?thesis using assms by (auto simp: set_bigger_zoom_def bindE_Inr_conv intro!: on_range_ordered [of lo hi])
next
  case Expose
  then show ?thesis using assms(3) by (auto simp: expose_def Let_def split: sum.split prod.split if_splits)
qed

text \<open>Whether a reaction puts the ends out of order.\<close>

lemma react_order:
  assumes "view_ok lo hi (wi_data w)" "view_ordered (wi_data w)"
  shows "view_ordered (wi_data (fst (react ext e w))) \<longleftrightarrow>
    (case shift_of w e of None \<Rightarrow> True
     | Some d \<Rightarrow> val (gr_r_start (wi_data w)) + d \<le> of_int hi \<and> of_int lo \<le> val (gr_r_end (wi_data w)) + d)"
proof -
  have "(of_int lo :: rat) \<le> of_int hi" using assms by (simp add: view_ok_def view_ordered_def)
  then have lohi: "lo \<le> hi" by simp
  show ?thesis
  proof (cases "shift_of w e")
    case None
    then show ?thesis using react_ordered [OF assms(1) lohi assms(2)] by simp
  next
    case (Some d)
    from shift_react [OF Some, of ext] obtain a b where "wi_data (fst (react ext e w)) = fst (set_range ext a b (wi_data w))"
      "val a = val (gr_r_start (wi_data w)) + d" "val b = val (gr_r_end (wi_data w)) + d" by blast
    then show ?thesis using set_range_ordered [OF assms(1) lohi, of ext a b] assms(2) Some
      by (simp add: view_ordered_def min_def max_def)
  qed
qed

section \<open>Handles that were not moved\<close>

lemma release_unset:
  "wi_left w \<Longrightarrow> wi_left_cur w = None \<Longrightarrow> button_release ext w = (w\<lparr>wi_left := False\<rparr>, Inl AttributeError)"
  "\<not> wi_left w \<Longrightarrow> wi_right w \<Longrightarrow> wi_right_cur w = None \<Longrightarrow> button_release ext w = (w\<lparr>wi_right := False\<rparr>, Inl AttributeError)"
  by (simp_all add: button_release_def on_range_def attr_def)


lemma legend_colors_known:
  "legend_colors Py2 vs cs = Inr (cols, cs') \<Longrightarrow> None \<notin> set cols"
proof (induction vs arbitrary: cs cols)
  case Nil
  then show ?case by simp
next
  case (Cons v vs)
  then obtain c cs1 l where c: "lookup_color Py2 v cs = Inr (c, cs1)" "legend_colors Py2 vs cs1 = Inr (l, cs')" "cols = c # l"
    by (auto simp: bindE_Inr_conv)
  have "c \<noteq> None" using c(1)
    by (auto simp: lookup_color_def add_color_def bindE_Inr_conv dict_in_def dict_get_set split: if_splits)
  then show ?case using c(3) Cons.IH [OF c(2)] by auto
qed


lemma known_colors: "None \<notin> set cols \<Longrightarrow> \<exists>ks. mapE (\<lambda>c. case c of None \<Rightarrow> Inl AttributeError | Some k \<Rightarrow> Inr k) cols = Inr ks"
proof (induction cols)
  case (Cons c cols)
  then show ?case by (cases c) auto
qed simp

lemma scale_layout_ok:
  assumes "0 \<le> val (n_sub (sc_hi s) (sc_lo s))" "val (n_sub (sc_hi s) (sc_lo s)) \<noteq> 1"
  shows "\<exists>s'. scale_layout ext w s = Inr s'"
proof -
  define dd where "dd = n_sub (sc_hi s) (sc_lo s)"
  have v: "0 \<le> val dd" "val dd \<noteq> 1" unfolding dd_def by (rule assms)+
  have "\<exists>d. d \<noteq> 0 \<and> scale_delta dd = Inr (IntN d)"
  proof (cases dd)
    case (IntN n)
    show ?thesis
    proof (cases "n = 0")
      case True
      then show ?thesis using IntN by (simp add: scale_delta_def closest_loop.simps [of "IntN 0" 1] n_div_def)
    next
      case False
      then show ?thesis using scale_delta_int [of n] v IntN by auto
    qed
  next
    case (FloatN x)
    obtain k where k: "closest_loop dd 1 = 10 ^ k" "k = 0 \<or> of_int (10 ^ k) < val dd"
      using closest_loop_power [of 1 dd] by auto
    have "x / 10 ^ k \<noteq> 1" using k(2) FloatN v by auto
    then show ?thesis using k(1) FloatN by (simp add: scale_delta_def n_div_def Let_def)
  qed
  then obtain d where "d \<noteq> 0" "scale_delta dd = Inr (IntN d)" by blast
  then show ?thesis by (simp add: scale_layout_def dd_def tick_start_def tick_end_def n_mod_def)
qed

text \<open>The range \<open>main\<close> begins with lies in the data, its width is even.\<close>

lemma first_range_inside:
  assumes "0 \<le> u"
  shows "0 \<le> fst (first_range 0 u)" "fst (first_range 0 u) \<le> snd (first_range 0 u)" "snd (first_range 0 u) \<le> u"
    "snd (first_range 0 u) - fst (first_range 0 u) \<noteq> 1"
proof -
  have "snd (first_range 0 u) - fst (first_range 0 u) = 2 * (u div 10 div 2)" by (simp add: first_range_def Let_def)
  then show "snd (first_range 0 u) - fst (first_range 0 u) \<noteq> 1" by presburger
  show "0 \<le> fst (first_range 0 u)" "fst (first_range 0 u) \<le> snd (first_range 0 u)" "snd (first_range 0 u) \<le> u"
    using assms by (simp_all add: first_range_def Let_def)
qed

lemma open_window_starts:
  assumes "0 \<le> u" and "(lo, hi) = first_range 0 u"
  shows "if u = 1 then open_window ext (0, u) values ks tls cs = Inl ZeroDivisionError
    else (\<exists>w. open_window ext (0, u) values ks tls cs = Inr w \<and> val (gr_r_start (wi_data w)) = of_int lo \<and> val (gr_r_end (wi_data w)) = of_int hi)"
proof -
  note fr = first_range_inside [OF assms(1), folded assms(2), simplified]
  obtain s e where c: "clip_range 0 (of_int u) (IntN lo) (IntN hi) = (s, e)" by fastforce
  then have v: "val s = of_int lo" "val e = of_int hi" using fr(1-3) by (auto simp: clip_range_def)
  define l where "l = \<lparr>lr_padding = 10, lr_legends = values, lr_colors = ks, lr_width = 0, lr_height = (0 :: rat)\<rparr>"
  define d where "d = \<lparr>tv_timelines = tls, tv_start = IntN 0, tv_end = IntN 0, tv_left_width = IntN 0, tv_right_width = IntN 0,
                  tv_text_height = (0 :: rat), tv_width = (0 :: int), tv_height = (0 :: rat)\<rparr>"
  let ?g = "(new_graphic 0 u l d)\<lparr>gr_r_start := s, gr_r_end := e, gr_data := d\<lparr>tv_start := s, tv_end := e\<rparr>,
    gr_mid := set_bounds s e (gr_mid (new_graphic 0 u l d))\<rparr>"
  have r: "set_range ext (IntN lo) (IntN hi) (new_graphic 0 u l d) = graphic_layout ext 1 1 ?g"
    by (simp add: set_range_def c new_graphic_def)
  obtain m where m: "scale_layout ext w (gr_mid ?g) = Inr (m w)" for w
  proof -
    have "\<forall>w. \<exists>m. scale_layout ext w (gr_mid ?g) = Inr m"
      using scale_layout_ok [of "gr_mid ?g" ext] v fr(2,4)
      by (simp add: set_bounds_def flip: of_int_diff)
    then show thesis using that by metis
  qed
  have b: "sc_lo (gr_bot ?g) = IntN 0" "sc_hi (gr_bot ?g) = IntN u" by (simp_all add: new_graphic_def set_bounds_def)
  obtain g' r' where g': "graphic_layout ext 1 1 ?g = (g', r')" by fastforce
  note keep = graphic_layout_keeps [OF g']
  have o: "open_window ext (0, u) values ks tls cs = bindE r' (\<lambda>_. Inr (new_window g' cs))"
    unfolding open_window_def Let_def fst_conv snd_conv assms(2) [symmetric] prod.case l_def [symmetric] d_def [symmetric] r g' ..
  show ?thesis
  proof (cases "u = 1")
    case True
    then have "scale_layout ext w (gr_bot ?g) = Inl ZeroDivisionError" for w
      using scale_layout_one b by (simp add: n_sub_def)
    then have "r' = Inl ZeroDivisionError" using g' m by (auto simp: graphic_layout_def Let_def)
    then show ?thesis using o True by simp
  next
    case False
    then obtain b' where "scale_layout ext (IntN 1) (gr_bot ?g) = Inr b'"
      using scale_layout_int [OF b, of ext "IntN 1"] assms(1) by auto
    then have "r' = Inr ()" using g' m by (auto simp: graphic_layout_def Let_def)
    then show ?thesis using o False keep v by (simp add: new_window_def)
  qed
qed


text \<open>The picture and the window for the witnesses: data from 0 to 100, names that take no room.\<close>

definition demo_lines :: "string list" where
  "demo_lines = [''event-int n e 7 0'', ''event-int n e 8 100'']"

definition demo_window :: "rat \<Rightarrow> rat \<Rightarrow> window" where
  "demo_window s e =
     (let g = \<lparr>gr_start = 0, gr_end = 100, gr_mid = \<lparr>sc_top = True, sc_lo = FloatN s, sc_hi = FloatN e, sc_delta = IntN 1, sc_width = IntN 80, sc_height = 20\<rparr>,
               gr_bot = \<lparr>sc_top = False, sc_lo = IntN 0, sc_hi = IntN 100, sc_delta = IntN 10, sc_width = IntN 100, sc_height = 20\<rparr>,
               gr_width = 100, gr_height = 100, gr_r_start = FloatN s, gr_r_end = FloatN e,
               gr_data = \<lparr>tv_timelines = [], tv_start = FloatN s, tv_end = FloatN e, tv_left_width = IntN 0, tv_right_width = IntN 0,
                          tv_text_height = 10, tv_width = 100, tv_height = 20\<rparr>,
               gr_legend = \<lparr>lr_padding = 10, lr_legends = [], lr_colors = [], lr_width = 100, lr_height = 20\<rparr>\<rparr>
      in new_window g new_colors)"

section \<open>Properties\<close>

text \<open>
  C26: Whatever the user does in the window that \<open>main\<close> opens - presses, drags, releases, zooms, changes
  of size, in any order, and after any exception on the way - the visible range never starts before
  the data nor ends after them, and the copies of it that the time lines and the upper scale keep
  agree with it. As long as its two ends are in order it therefore lies within the data; and from
  there the next reaction keeps the order, unless it shifts the whole range so far that nothing of it
  is left in the data: exactly then the ends come out in the wrong order, as each is clipped alone.
\<close>

theorem window_keeps_range:
  assumes "grid_main ext key_order lines = Inr w0" and "read_data Py2 lines = Inr (cs, tls)" and "window_reach ext w0 w"
    and "(lo, hi) = timelines_bounds tls"
  shows "let start = val (gr_r_start (wi_data w)); end' = val (gr_r_end (wi_data w)); next_data = wi_data (fst (react ext e w)) in
    of_int lo \<le> start \<and> end' \<le> of_int hi \<and>
    sc_lo (gr_mid (wi_data w)) = gr_r_start (wi_data w) \<and> sc_hi (gr_mid (wi_data w)) = gr_r_end (wi_data w) \<and>
    tv_start (gr_data (wi_data w)) = gr_r_start (wi_data w) \<and> tv_end (gr_data (wi_data w)) = gr_r_end (wi_data w) \<and>
    (start \<le> end' \<longrightarrow> {start..end'} \<subseteq> {of_int lo..of_int hi} \<and>
      (val (gr_r_start next_data) \<le> val (gr_r_end next_data) \<longleftrightarrow>
         (\<forall>d. shift_of w e = Some d \<longrightarrow> {start + d..end' + d} \<inter> {of_int lo..of_int hi} \<noteq> {})))"
proof -
  have ok: "view_ok lo hi (wi_data w)" using reach_view [OF assms(3) main_view [OF assms(1,2)]] by (simp flip: assms(4))
  have inter: "({a..b} \<inter> {l..h} \<noteq> {}) \<longleftrightarrow> a \<le> h \<and> l \<le> b" if "a \<le> b" "l \<le> h" for a b l h :: rat
    using that by auto
  show ?thesis
  proof (cases "view_ordered (wi_data w)")
    case True
    have "view_ordered (wi_data (fst (react ext e w))) \<longleftrightarrow>
      (\<forall>d. shift_of w e = Some d \<longrightarrow> {val (gr_r_start (wi_data w)) + d..val (gr_r_end (wi_data w)) + d} \<inter> {of_int lo..of_int hi} \<noteq> {})"
    proof -
      have "(of_int lo :: rat) \<le> of_int hi" using ok True by (simp add: view_ok_def view_ordered_def)
      then show ?thesis using react_order [OF ok True, of ext e] True
        by (auto simp: inter view_ordered_def split: option.splits)
    qed
    then show ?thesis using ok True by (auto simp: view_ok_def view_ordered_def Let_def)
  next
    case False
    then show ?thesis using ok by (auto simp: view_ok_def view_ordered_def Let_def)
  qed
qed

text \<open>
  A handle that was pressed but not moved. In a window in which the left handle has never been moved,
  pressing it and letting it go raises an \<open>AttributeError\<close>, as the position of the drag is set by
  moving only; so does redrawing the window in between. The range stays, the drag is over.
\<close>

theorem unmoved_handle_fails:
  assumes "button_press x y w = (w', Inr True)" and "wi_left w'" and "\<not> wi_left w" and "wi_left_cur w = None"
    and "wi_redraw w = False"
  shows "button_release ext w' = (w, Inl AttributeError) \<and> expose ext w' = (w', Inl AttributeError)"
proof -
  have w': "w' = w\<lparr>wi_left := True\<rparr>" "\<exists>r. get_selection_rectangle (wi_data w) = Inr r"
    using assms(1-3) by (auto simp: button_press_def Let_def split: sum.splits prod.splits if_splits)
  have undone: "w'\<lparr>wi_left := False\<rparr> = w" using assms(3) by (cases w) (simp add: w'(1))
  have "button_release ext w' = (w'\<lparr>wi_left := False\<rparr>, Inl AttributeError)"
    by (rule release_unset) (simp_all add: w'(1) assms(4))
  moreover have "w'\<lparr>wi_redraw := False\<rparr> = w'" using assms(5) by (cases w) (simp add: w'(1))
  then have "expose ext w' = (w', Inl AttributeError)"
    using w'(2) assms(4,5) by (auto simp: expose_def drag_lines_def Let_def w'(1) attr_def)
  ultimately show ?thesis using undone by simp
qed

text \<open>
  When the program starts. With colours enough for the legend and data that begin at 0, the window
  opens with a range in the middle of the data, unless the data end at 1: then the lower scale
  divides by its distance of marks, 0, and the program ends with a \<open>ZeroDivisionError\<close>.
\<close>

theorem grid_main_starts:
  assumes "read_data Py2 lines = Inr (cs, tls)" "legend_colors Py2 (all_range_values key_order tls) cs = Inr (cols, cs')"
    and "timelines_bounds tls = (0, u)"
  shows "if u = 1 then grid_main ext key_order lines = Inl ZeroDivisionError
    else (\<exists>w. grid_main ext key_order lines = Inr w \<and>
      val (gr_r_start (wi_data w)) = of_int (fst (first_range 0 u)) \<and> val (gr_r_end (wi_data w)) = of_int (snd (first_range 0 u)))"
proof -
  have u: "0 \<le> u" using foldl_widen_inside(1) [of "(0, 0)" timeline_bounds tls] assms(3)
    by (simp add: inside_of_def timelines_bounds_def)
  obtain ks where "mapE (\<lambda>c. case c of None \<Rightarrow> Inl AttributeError | Some k \<Rightarrow> Inr k) cols = Inr ks"
    using known_colors [OF legend_colors_known [OF assms(2)]] by blast
  then have "grid_main ext key_order lines = open_window ext (0, u) (all_range_values key_order tls) ks tls cs'"
    using assms by (simp add: grid_main_def)
  then show ?thesis using open_window_starts [OF u prod.collapse, of ext "all_range_values key_order tls" ks tls cs']
    by (cases "u = 1") simp_all
qed


text \<open>Witnesses: the file of two events at 0 and 100.\<close>

definition demo_tls :: "timeline list" where
  "demo_tls = [\<lparr>tl_name = ''n'', tl_ranges = [], tl_event_str = [],
     tl_event_int = [\<lparr>te_name = ''e'', te_events = [\<lparr>ev_at = 0, ev_value = 7\<rparr>, \<lparr>ev_at = 100, ev_value = 8\<rparr>]\<rparr>]\<rparr>]"

lemma demo_read: "read_data Py2 demo_lines = Inr (new_colors, demo_tls)"
  unfolding demo_lines_def demo_tls_def new_colors_def by code_simp

lemma demo_bounds: "timelines_bounds demo_tls = (0, 100)"
  unfolding demo_tls_def by code_simp

lemma demo_values: "all_range_values id demo_tls = []"
  unfolding demo_tls_def by code_simp

lemma grid_main_starts_witness:
  "\<exists>w. grid_main demo_ext id demo_lines = Inr w \<and> val (gr_r_start (wi_data w)) = 45 \<and> val (gr_r_end (wi_data w)) = 55"
  using grid_main_starts [OF demo_read _ demo_bounds, of id "[]" new_colors demo_ext]
  by (simp add: demo_values first_range_def Let_def)

lemma window_keeps_range_witness:
  "\<exists>w0. grid_main demo_ext id demo_lines = Inr w0 \<and> val (gr_r_start (wi_data w0)) = 45 \<and>
     val (gr_r_start (wi_data (fst (react demo_ext ZoomOut w0)))) \<le> val (gr_r_end (wi_data (fst (react demo_ext ZoomOut w0))))"
proof -
  have "grid_main demo_ext id demo_lines = open_window demo_ext (0, 100) [] [] demo_tls new_colors"
    by (simp add: grid_main_def demo_read demo_bounds demo_values)
  then obtain w0 where w0: "grid_main demo_ext id demo_lines = Inr w0" "val (gr_r_start (wi_data w0)) = 45" "val (gr_r_end (wi_data w0)) = 55"
    using open_window_starts [of 100 45 55 demo_ext "[]" "[]" demo_tls new_colors] by (auto simp: first_range_def Let_def)
  from window_keeps_range [OF w0(1) demo_read window_reach.start [of demo_ext w0] demo_bounds [symmetric], of ZoomOut] w0 show ?thesis
    by (auto simp: Let_def shift_of_def)
qed

lemma demo_view: "view_ok 0 100 (wi_data (demo_window 40 60))" "view_ordered (wi_data (demo_window 40 60))"
  by (simp_all add: demo_window_def new_window_def Let_def view_ok_def view_ordered_def)

lemma unmoved_handle_fails_witness:
  "snd (button_release demo_ext (fst (button_press (FloatN 40) (FloatN 90) ((demo_window 40 60)\<lparr>wi_redraw := False\<rparr>)))) = Inl AttributeError"
proof -
  let ?w = "(demo_window 40 60)\<lparr>wi_redraw := False\<rparr>"
  have p: "button_press (FloatN 40) (FloatN 90) ?w = (?w\<lparr>wi_left := True\<rparr>, Inr True)"
    by (simp add: button_press_def get_selection_rectangle_def get_data_rectangle_def get_position_def get_data_x_start_def
          demo_window_def new_window_def Let_def n_div_def n_sub_def n_mul_def n_add_def)
  from unmoved_handle_fails [OF p, of demo_ext] p show ?thesis by (simp add: demo_window_def new_window_def Let_def)
qed

text \<open>A drag of the data area that leaves it: the pointer jumps by six times the width of the pane.\<close>

lemma data_drag_inverts:
  "let w = fst (react demo_ext (Motion 10 40) ((demo_window 40 60)\<lparr>wi_top := True, wi_top_start := Some (FloatN 490)\<rparr>)) in
   val (gr_r_end (wi_data w)) < val (gr_r_start (wi_data w))"
proof -
  define w where "w = (demo_window 40 60)\<lparr>wi_top := True, wi_top_start := Some (FloatN 490)\<rparr>"
  have g: "gr_r_start (wi_data w) = FloatN 40" "gr_r_end (wi_data w) = FloatN 60" "gr_start (wi_data w) = 0" "gr_end (wi_data w) = 100"
    by (simp_all add: w_def demo_window_def new_window_def Let_def)
  have "motion_notify demo_ext (FloatN 10) (FloatN 40) w = motion_top demo_ext (FloatN 10) w"
    by (simp add: motion_notify_def get_selection_rectangle_def get_position_def w_def demo_window_def new_window_def Let_def
          n_div_def n_sub_def n_mul_def)
  moreover have "scale_data (wi_data w) (FloatN 480) = Inr (FloatN 120)"
    by (simp add: scale_data_def get_data_x_start_def w_def demo_window_def new_window_def Let_def n_div_def n_sub_def n_mul_def n_add_def)
  then have "wi_data (fst (motion_top demo_ext (FloatN 10) w)) = fst (set_range demo_ext (FloatN 160) (FloatN 180) (wi_data w))"
    unfolding motion_top_def by (subst on_range_set) (simp_all add: g [unfolded w_def, simplified] attr_def w_def n_sub_def n_add_def)
  ultimately show ?thesis by (simp add: w_def [symmetric] Let_def set_range_ends g clip_range_def)
qed

end
