(* ===== verification/Flow_Monitor.thy ===== *)
theory Flow_Monitor
  imports Complex_Main Test_Render
begin

text \<open>
  \<^verbatim>\<open>src/flow-monitor/examples/flowmon-parse-results.py\<close>: the statistics of the flows of a simulation,
  read from XML and printed. The XML parser hands over the document as a tree, walked by
  \<open>iterparse\<close>; how a text is read as a float and how a result is rounded are parameters. The script
  needs Python 2. Flows are shared between the list of flows and the dictionary from flow ids, so
  the dictionary holds positions in the list.
\<close>

record flow_floats =
  ff_read :: "string \<Rightarrow> rat option"
  ff_round :: "rat \<Rightarrow> rat"

section \<open>Attributes\<close>

definition py2_int :: "string \<Rightarrow> int option" where
  "py2_int s = (if CHR ''_'' \<in> set s then None else py_int 10 s)"

definition long_of :: "string option \<Rightarrow> int res" where
  \<comment> \<open>\<open>int(el.get(...))\<close> and \<open>long(el.get(...))\<close>\<close>
  "long_of x = (case x of None \<Rightarrow> Inl TypeError | Some s \<Rightarrow> (case py2_int s of None \<Rightarrow> Inl ValueError | Some n \<Rightarrow> Inr n))"

definition float_of :: "flow_floats \<Rightarrow> string option \<Rightarrow> rat res" where
  "float_of w x = (case x of None \<Rightarrow> Inl TypeError | Some s \<Rightarrow> (case ff_read w s of None \<Rightarrow> Inl ValueError | Some n \<Rightarrow> Inr n))"

definition cut4 :: "string \<Rightarrow> string" where
  \<comment> \<open>\<open>s[:-4]\<close>\<close>
  "cut4 s = take (length s - 4) s"

definition time_of :: "string option \<Rightarrow> int res" where
  \<comment> \<open>\<open>long(el.get(...)[:-4])\<close>\<close>
  "time_of x = (case x of None \<Rightarrow> Inl TypeError | Some s \<Rightarrow> long_of (Some (cut4 s)))"

definition parse_time_ns :: "string option \<Rightarrow> int res" where
  "parse_time_ns x =
     (case x of None \<Rightarrow> Inl AttributeError
      | Some s \<Rightarrow> if suffix ''ns'' s then long_of (Some (cut4 s)) else Inl ValueError)"

section \<open>Flows\<close>

record five_tuple =
  ft_source :: "string option"
  ft_destination :: "string option"
  ft_protocol :: int
  ft_source_port :: int
  ft_destination_port :: int

definition new_five_tuple :: "xml \<Rightarrow> five_tuple res" where
  "new_five_tuple el =
     bindE (long_of (xget ''sourcePort'' el)) (\<lambda>sp.
     bindE (long_of (xget ''destinationPort'' el)) (\<lambda>dp.
     bindE (long_of (xget ''protocol'' el)) (\<lambda>pr.
     Inr \<lparr>ft_source = xget ''sourceAddress'' el, ft_destination = xget ''destinationAddress'' el,
          ft_protocol = pr, ft_source_port = sp, ft_destination_port = dp\<rparr>)))"

type_synonym histogram = "(rat \<times> rat \<times> int) list"

definition new_histogram :: "flow_floats \<Rightarrow> xml \<Rightarrow> histogram res" where
  "new_histogram w el =
     mapE (\<lambda>b. bindE (float_of w (xget ''start'' b)) (\<lambda>s. bindE (float_of w (xget ''width'' b)) (\<lambda>d.
               bindE (long_of (xget ''count'' b)) (\<lambda>c. Inr (s, d, c))))) (xfindall ''bin'' el)"

record probe_stats =
  ps_probe :: int
  ps_packets :: int
  ps_bytes :: int
  ps_delay :: rat

record flow =
  fl_id :: int
  fl_delay_mean :: "rat option"
  fl_loss_ratio :: "rat option"
  fl_rx_bitrate :: "rat option"
  fl_tx_bitrate :: "rat option"
  fl_tuple :: "five_tuple option" \<comment> \<open>not set by the constructor\<close>
  fl_packet_size :: "rat option"
  fl_probes :: "probe_stats list"
  fl_hops :: rat
  fl_interruptions :: "histogram option"
  fl_rx_duration :: rat

definition seconds :: "flow_floats \<Rightarrow> int \<Rightarrow> rat" where
  \<comment> \<open>\<open>float(d) * 1e-9\<close>\<close>
  "seconds w d = ff_round w (ff_round w (of_int d) * ff_round w (1 / 10 ^ 9))"

definition bitrate :: "flow_floats \<Rightarrow> string option \<Rightarrow> rat \<Rightarrow> rat option res" where
  "bitrate w byte_count duration =
     (if duration > 0 then bindE (long_of byte_count) (\<lambda>b. Inr (Some (ff_round w (ff_round w (of_int (b * 8)) / duration))))
      else Inr None)"

definition new_flow :: "flow_floats \<Rightarrow> xml \<Rightarrow> flow res" where
  "new_flow w el =
     (let g = (\<lambda>k. xget k el); rd = ff_round w in
      bindE (long_of (g ''flowId'')) (\<lambda>flow_id.
      bindE (long_of (g ''rxPackets'')) (\<lambda>rx_packets.
      bindE (long_of (g ''txPackets'')) (\<lambda>tx_packets.
      bindE (time_of (g ''timeLastTxPacket'')) (\<lambda>tl. bindE (time_of (g ''timeFirstTxPacket'')) (\<lambda>tf.
      bindE (time_of (g ''timeLastRxPacket'')) (\<lambda>rl. bindE (time_of (g ''timeFirstRxPacket'')) (\<lambda>rf.
      let tx_duration = seconds w (tl - tf); rx_duration = seconds w (rl - rf); n = rd (of_int rx_packets) in
      bindE (if rx_packets \<noteq> 0 then bindE (float_of w (g ''timesForwarded'')) (\<lambda>f. Inr (rd (rd (f / n) + 1)))
             else Inr (-1000)) (\<lambda>hops.
      bindE (if rx_packets \<noteq> 0 then
               bindE (case g ''delaySum'' of None \<Rightarrow> Inl TypeError | Some s \<Rightarrow> float_of w (Some (cut4 s))) (\<lambda>d.
               bindE (float_of w (g ''rxBytes'')) (\<lambda>b. Inr (Some (rd (rd (d / n) * rd (1 / 10 ^ 9))), Some (rd (b / n)))))
             else Inr (None, None)) (\<lambda>(delay_mean, packet_size).
      bindE (bitrate w (g ''rxBytes'') rx_duration) (\<lambda>rx_bitrate.
      bindE (bitrate w (g ''txBytes'') tx_duration) (\<lambda>tx_bitrate.
      bindE (float_of w (g ''lostPackets'')) (\<lambda>lost.
      bindE (if rx_packets = 0 then Inr None
             else if rd (n + lost) = 0 then Inl ZeroDivisionError
             else Inr (Some (rd (lost / rd (n + lost))))) (\<lambda>loss_ratio.
      bindE (case xfind ''flowInterruptionsHistogram'' el of None \<Rightarrow> Inr None
             | Some h \<Rightarrow> bindE (new_histogram w h) (\<lambda>x. Inr (Some x))) (\<lambda>hist.
      Inr \<lparr>fl_id = flow_id, fl_delay_mean = delay_mean, fl_loss_ratio = loss_ratio, fl_rx_bitrate = rx_bitrate,
           fl_tx_bitrate = tx_bitrate, fl_tuple = None, fl_packet_size = packet_size, fl_probes = [], fl_hops = hops,
           fl_interruptions = hist, fl_rx_duration = rx_duration\<rparr>)))))))))))))))"

section \<open>The simulation\<close>

record flow_table =
  st_flows :: "flow list"
  st_map :: "(int, nat) dict" \<comment> \<open>the position of the flow with this id\<close>

definition xpath2 :: "string \<Rightarrow> string \<Rightarrow> xml \<Rightarrow> xml list" where
  \<comment> \<open>\<open>findall("a/b")\<close>\<close>
  "xpath2 a b el = concat (map (xfindall b) (xfindall a el))"

definition enter_flow :: "flow_floats \<Rightarrow> flow_table \<Rightarrow> xml \<Rightarrow> flow_table res" where
  "enter_flow w t el =
     bindE (new_flow w el) (\<lambda>f.
     Inr \<lparr>st_flows = st_flows t @ [f], st_map = dict_set (fl_id f) (length (st_flows t)) (st_map t)\<rparr>)"

definition at_flow :: "int \<Rightarrow> (flow \<Rightarrow> flow) \<Rightarrow> flow_table \<Rightarrow> flow_table res" where
  "at_flow i f t =
     (case dict_get (st_map t) i of
        None \<Rightarrow> Inl KeyError
      | Some p \<Rightarrow> Inr (t\<lparr>st_flows := (st_flows t)[p := f (st_flows t ! p)]\<rparr>))"

definition classify_flow :: "flow_table \<Rightarrow> xml \<Rightarrow> flow_table res" where
  "classify_flow t el =
     bindE (long_of (xget ''flowId'' el)) (\<lambda>i.
     bindE (new_five_tuple el) (\<lambda>ft. at_flow i (\<lambda>f. f\<lparr>fl_tuple := Some ft\<rparr>) t))"

definition new_probe_stats :: "flow_floats \<Rightarrow> int \<Rightarrow> xml \<Rightarrow> probe_stats res" where
  "new_probe_stats w probe stats =
     bindE (long_of (xget ''packets'' stats)) (\<lambda>packets.
     bindE (long_of (xget ''bytes'' stats)) (\<lambda>b.
     bindE (if packets > 0
            then bindE (parse_time_ns (xget ''delayFromFirstProbeSum'' stats)) (\<lambda>d.
              Inr (ff_round w (ff_round w (of_int d) / ff_round w (of_int packets))))
            else Inr 0) (\<lambda>delay.
     Inr \<lparr>ps_probe = probe, ps_packets = packets, ps_bytes = b, ps_delay = delay\<rparr>)))"

definition enter_stats :: "flow_floats \<Rightarrow> int \<Rightarrow> flow_table \<Rightarrow> xml \<Rightarrow> flow_table res" where
  "enter_stats w probe t stats =
     bindE (long_of (xget ''flowId'' stats)) (\<lambda>i.
     bindE (new_probe_stats w probe stats) (\<lambda>s.
     at_flow i (\<lambda>f. f\<lparr>fl_probes := fl_probes f @ [s]\<rparr>) t))"

definition enter_probe :: "flow_floats \<Rightarrow> flow_table \<Rightarrow> xml \<Rightarrow> flow_table res" where
  "enter_probe w t el =
     bindE (long_of (xget ''index'' el)) (\<lambda>probe. foldE (enter_stats w probe) t (xfindall ''FlowStats'' el))"

definition new_simulation :: "flow_floats \<Rightarrow> xml \<Rightarrow> flow list res" where
  "new_simulation w el =
     (case xfindall ''Ipv4FlowClassifier'' el of
        [classifier] \<Rightarrow>
          bindE (foldE (enter_flow w) \<lparr>st_flows = [], st_map = []\<rparr> (xpath2 ''FlowStats'' ''Flow'' el)) (\<lambda>t.
          bindE (foldE classify_flow t (xfindall ''Flow'' classifier)) (\<lambda>t.
          bindE (foldE (enter_probe w) t (xpath2 ''FlowProbes'' ''FlowProbe'' el)) (\<lambda>t.
          Inr (st_flows t))))
      | _ \<Rightarrow> Inl ValueError)"

section \<open>Printing\<close>

definition round_half_even :: "rat \<Rightarrow> int" where
  "round_half_even x =
     (let f = \<lfloor>x\<rfloor>; d = x - of_int f in
      if d < 1 / 2 then f else if d > 1 / 2 then f + 1 else if even f then f else f + 1)"

definition show_2f :: "rat \<Rightarrow> string" where
  \<comment> \<open>\<open>"%.2f" % x\<close>\<close>
  "show_2f x =
     (let n = nat (round_half_even (\<bar>x\<bar> * 100)); r = n mod 100
      in (if x < 0 then ''-'' else []) @ show_nat (n div 100) @ ''.'' @ [digit_char (r div 10), digit_char (r mod 10)])"

definition proto_name :: "int \<Rightarrow> string res" where
  "proto_name p = (if p = 6 then Inr ''TCP'' else if p = 17 then Inr ''UDP'' else Inl KeyError)"

definition stat_line :: "flow_floats \<Rightarrow> string \<Rightarrow> string \<Rightarrow> rat \<Rightarrow> rat option \<Rightarrow> string" where
  "stat_line w label unit_name factor x =
     CHR 0x09 # label @ '': '' @ (case x of None \<Rightarrow> ''None'' | Some v \<Rightarrow> show_2f (ff_round w (v * factor)) @ CHR '' '' # unit_name)"

definition flow_lines :: "flow_floats \<Rightarrow> flow \<Rightarrow> string list res" where
  "flow_lines w f =
     (case fl_tuple f of
        None \<Rightarrow> Inl AttributeError
      | Some t \<Rightarrow>
          bindE (proto_name (ft_protocol t)) (\<lambda>proto.
          Inr [''FlowID: '' @ show_int (fl_id f) @ '' ('' @ proto @ '' '' @ show_opt (ft_source t) @ ''/'' @ show_int (ft_source_port t)
                 @ '' --> '' @ show_opt (ft_destination t) @ ''/'' @ show_int (ft_destination_port t) @ '')'',
               stat_line w ''TX bitrate'' ''kbit/s'' (ff_round w (1 / 1000)) (fl_tx_bitrate f),
               stat_line w ''RX bitrate'' ''kbit/s'' (ff_round w (1 / 1000)) (fl_rx_bitrate f),
               stat_line w ''Mean Delay'' ''ms'' 1000 (fl_delay_mean f),
               stat_line w ''Packet Loss Ratio'' ''%'' 100 (fl_loss_ratio f)]))"

text \<open>What is printed before an exception stays printed.\<close>

fun print_flows :: "flow_floats \<Rightarrow> flow list \<Rightarrow> string list \<times> (py_error + unit)" where
  "print_flows w [] = ([], Inr ())"
| "print_flows w (f # fs) =
     (case flow_lines w f of
        Inl e \<Rightarrow> ([], Inl e)
      | Inr ls \<Rightarrow> (let (rest, r) = print_flows w fs in (ls @ rest, r)))"

section \<open>The program\<close>

text \<open>The events of \<open>iterparse\<close>: \<open>True\<close> for the start of an element.\<close>

fun xml_events :: "xml \<Rightarrow> (bool \<times> xml) list" where
  "xml_events (Elem t as x cs) = (True, Elem t as x cs) # concat (map xml_events cs) @ [(False, Elem t as x cs)]"

definition read_event :: "flow_floats \<Rightarrow> int \<times> flow list list \<Rightarrow> bool \<times> xml \<Rightarrow> (int \<times> flow list list) res" where
  "read_event w = (\<lambda>(level, sims) (is_start, elem).
     if is_start then Inr (level + 1, sims)
     else if level - 1 = 0 \<and> xtag elem = ''FlowMonitor''
     then bindE (new_simulation w elem) (\<lambda>s. Inr (level - 1, sims @ [s]))
     else Inr (level - 1, sims))"

definition flowmon_main :: "flow_floats \<Rightarrow> xml \<Rightarrow> string list \<times> (py_error + unit)" where
  "flowmon_main w doc =
     (case foldE (read_event w) (0, []) (xml_events doc) of
        Inl e \<Rightarrow> ([], Inl e)
      | Inr (_, sims) \<Rightarrow> print_flows w (concat sims))"


section \<open>The walk over the document\<close>

text \<open>Elements below the root are passed over.\<close>

lemma read_events_inside:
  "0 < level \<Longrightarrow> foldE (read_event w) (level, sims) (xml_events e) = Inr (level, sims)"
proof (induction e arbitrary: level)
  case (Elem t as x cs)
  have "foldE (read_event w) (level + 1, sims) (concat (map xml_events ds)) = Inr (level + 1, sims)" if "set ds \<subseteq> set cs" for ds
    using that
  proof (induction ds)
    case Nil
    then show ?case by simp
  next
    case (Cons d ds)
    then show ?case using Elem.IH [of d "level + 1"] Elem.prems by (simp add: foldE_append)
  qed
  then show ?case using Elem.prems by (simp add: foldE_append read_event_def)
qed

lemma read_events_list: "0 < level \<Longrightarrow> foldE (read_event w) (level, sims) (concat (map xml_events es)) = Inr (level, sims)"
  by (induction es) (simp_all add: foldE_append read_events_inside)

text \<open>
  The program as a function of the document: only the root element can be a simulation, and it is
  read exactly once, when its end is reached; a root with another name leaves nothing to print.
\<close>

theorem flowmon_main_result:
  "flowmon_main w doc =
     (if xtag doc = ''FlowMonitor''
      then (case new_simulation w doc of Inl e \<Rightarrow> ([], Inl e) | Inr flows \<Rightarrow> print_flows w flows)
      else ([], Inr ()))"
proof (cases doc)
  case (Elem t as x cs)
  have "read_event w (0, []) (True, doc) = Inr (1, [])" by (simp add: read_event_def)
  then have "foldE (read_event w) (0, []) (xml_events doc) = foldE (read_event w) (1, []) [(False, doc)]"
    using read_events_list [of 1 w "[]" cs] by (simp add: Elem foldE_append)
  then show ?thesis by (cases "new_simulation w doc") (simp_all add: flowmon_main_def read_event_def)
qed

section \<open>Which flows are classified\<close>

text \<open>
  The table: every position belongs to its flow, and the dictionary has, for every id, the position
  of the last flow with this id.
\<close>

definition last_with :: "flow list \<Rightarrow> nat \<Rightarrow> bool" where
  "last_with fs p \<longleftrightarrow> p < length fs \<and> (\<forall>q < length fs. p < q \<longrightarrow> fl_id (fs ! q) \<noteq> fl_id (fs ! p))"

definition table_ok :: "flow_table \<Rightarrow> bool" where
  "table_ok t \<longleftrightarrow> (\<forall>i p. dict_get (st_map t) i = Some p \<longleftrightarrow> last_with (st_flows t) p \<and> fl_id (st_flows t ! p) = i)"

lemma table_empty: "table_ok \<lparr>st_flows = [], st_map = []\<rparr>"
  by (simp add: table_ok_def last_with_def dict_get_def)

lemma last_with_snoc:
  "last_with (fs @ [f]) p \<longleftrightarrow> p = length fs \<or> (last_with fs p \<and> fl_id (fs ! p) \<noteq> fl_id f)"
  by (auto simp: last_with_def nth_append less_Suc_eq)

lemma enter_flow_ok:
  assumes "table_ok t" and "enter_flow w t el = Inr t'"
  shows "table_ok t'" "\<exists>f. st_flows t' = st_flows t @ [f] \<and> fl_tuple f = None"
proof -
  obtain f where f: "new_flow w el = Inr f"
    "t' = \<lparr>st_flows = st_flows t @ [f], st_map = dict_set (fl_id f) (length (st_flows t)) (st_map t)\<rparr>"
    using assms(2) by (auto simp: enter_flow_def bindE_Inr_conv)
  have "fl_tuple f = None" using f(1)
    by (auto simp: new_flow_def Let_def bindE_Inr_conv split: if_splits)
  then show "\<exists>f. st_flows t' = st_flows t @ [f] \<and> fl_tuple f = None" using f(2) by simp
  show "table_ok t'" unfolding table_ok_def
  proof (intro allI)
    fix i p
    have "p = length (st_flows t) \<Longrightarrow> \<not> last_with (st_flows t) p" by (simp add: last_with_def)
    then show "dict_get (st_map t') i = Some p \<longleftrightarrow> last_with (st_flows t') p \<and> fl_id (st_flows t' ! p) = i"
      using assms(1) by (auto simp: f(2) table_ok_def dict_get_set last_with_snoc nth_append last_with_def)
  qed
qed

text \<open>Later steps change a flow in place: ids, positions and the dictionary stay.\<close>

definition same_ids :: "flow_table \<Rightarrow> flow_table \<Rightarrow> bool" where
  "same_ids t t' \<longleftrightarrow> st_map t' = st_map t \<and> map fl_id (st_flows t') = map fl_id (st_flows t)"

lemma same_ids_refl: "same_ids t t" by (simp add: same_ids_def)

lemma same_ids_trans: "same_ids t u \<Longrightarrow> same_ids u v \<Longrightarrow> same_ids t v" by (simp add: same_ids_def)

lemma same_ids_nth:
  assumes "same_ids t t'"
  shows "length (st_flows t') = length (st_flows t)"
    and "p < length (st_flows t) \<Longrightarrow> fl_id (st_flows t' ! p) = fl_id (st_flows t ! p)"
proof -
  have e: "map fl_id (st_flows t') = map fl_id (st_flows t)" using assms by (simp add: same_ids_def)
  from arg_cong [OF e, of length] show "length (st_flows t') = length (st_flows t)" by simp
  then show "p < length (st_flows t) \<Longrightarrow> fl_id (st_flows t' ! p) = fl_id (st_flows t ! p)"
    using arg_cong [OF e, of "\<lambda>l. l ! p"] by simp
qed

lemma same_ids_last: "same_ids t t' \<Longrightarrow> last_with (st_flows t') p \<longleftrightarrow> last_with (st_flows t) p"
  using same_ids_nth [of t t'] by (auto simp: last_with_def)

lemma same_ids_ok: "same_ids t t' \<Longrightarrow> table_ok t \<Longrightarrow> table_ok t'"
  unfolding table_ok_def
proof (intro allI)
  fix i p
  assume s: "same_ids t t'" and t: "\<forall>i p. (dict_get (st_map t) i = Some p) = (last_with (st_flows t) p \<and> fl_id (st_flows t ! p) = i)"
  have "p < length (st_flows t)" if "last_with (st_flows t) p" using that by (simp add: last_with_def)
  then show "(dict_get (st_map t') i = Some p) = (last_with (st_flows t') p \<and> fl_id (st_flows t' ! p) = i)"
    using t same_ids_last [OF s, of p] same_ids_nth [OF s] s by (auto simp: same_ids_def)
qed

text \<open>An update at an id reaches the last flow with this id and no other.\<close>

lemma at_flow_effect:
  assumes "table_ok t" and "at_flow i f t = Inr t'" and "\<And>x. fl_id (f x) = fl_id x"
  shows "same_ids t t'"
    and "p < length (st_flows t) \<Longrightarrow>
      st_flows t' ! p = (if last_with (st_flows t) p \<and> fl_id (st_flows t ! p) = i then f (st_flows t ! p) else st_flows t ! p)"
proof -
  obtain q where q: "dict_get (st_map t) i = Some q" "t' = t\<lparr>st_flows := (st_flows t)[q := f (st_flows t ! q)]\<rparr>"
    using assms(2) by (auto simp: at_flow_def split: option.splits)
  have l: "last_with (st_flows t) r \<and> fl_id (st_flows t ! r) = i \<longleftrightarrow> r = q" for r
    using assms(1) q(1) unfolding table_ok_def by (metis option.inject)
  then have "q < length (st_flows t)" by (auto simp: last_with_def)
  then show "same_ids t t'" unfolding same_ids_def q(2)
    by (simp add: map_update assms(3)) (metis assms(3) length_map list_update_id nth_map)
  show "p < length (st_flows t) \<Longrightarrow>
      st_flows t' ! p = (if last_with (st_flows t) p \<and> fl_id (st_flows t ! p) = i then f (st_flows t ! p) else st_flows t ! p)"
    unfolding l by (simp add: q(2))
qed

definition tuple_for :: "xml list \<Rightarrow> int \<Rightarrow> five_tuple option" where
  \<comment> \<open>the five-tuple of the last entry for this id\<close>
  "tuple_for cls i =
     map_option (\<lambda>el. projr (new_five_tuple el)) (find (\<lambda>el. long_of (xget ''flowId'' el) = Inr i) (rev cls))"

lemma find_append: "find P (xs @ ys) = (case find P xs of None \<Rightarrow> find P ys | Some x \<Rightarrow> Some x)"
  by (induction xs) simp_all

lemma tuple_for_Cons:
  "tuple_for (c # cs) i = (case tuple_for cs i of
     None \<Rightarrow> (if long_of (xget ''flowId'' c) = Inr i then Some (projr (new_five_tuple c)) else None) | Some x \<Rightarrow> Some x)"
  by (simp add: tuple_for_def find_append split: option.splits)

lemma classify_all:
  assumes "table_ok t" and "foldE classify_flow t cls = Inr t'"
  shows "same_ids t t' \<and> (\<forall>p < length (st_flows t). fl_tuple (st_flows t' ! p) =
    (case if last_with (st_flows t) p then tuple_for cls (fl_id (st_flows t ! p)) else None of
       None \<Rightarrow> fl_tuple (st_flows t ! p) | Some x \<Rightarrow> Some x))"
  using assms
proof (induction cls arbitrary: t)
  case Nil
  then show ?case by (simp add: same_ids_refl tuple_for_def)
next
  case (Cons c cs)
  obtain u where u: "classify_flow t c = Inr u" "foldE classify_flow u cs = Inr t'"
    using Cons.prems(2) by (auto simp: bindE_Inr_conv)
  obtain i ft where c: "long_of (xget ''flowId'' c) = Inr i" "new_five_tuple c = Inr ft"
    "at_flow i (\<lambda>f. f\<lparr>fl_tuple := Some ft\<rparr>) t = Inr u"
    using u(1) by (auto simp: classify_flow_def bindE_Inr_conv)
  note e = at_flow_effect [OF Cons.prems(1) c(3), simplified]
  have s: "same_ids t u" by (rule e(1))
  note IH = Cons.IH [OF same_ids_ok [OF s Cons.prems(1)] u(2)]
  show ?case
  proof (intro conjI allI impI)
    show "same_ids t t'" using IH same_ids_trans [OF s] by blast
    fix p
    assume p: "p < length (st_flows t)"
    then have "fl_tuple (st_flows t' ! p) = (case if last_with (st_flows t) p then tuple_for cs (fl_id (st_flows t ! p)) else None of
       None \<Rightarrow> fl_tuple (st_flows u ! p) | Some x \<Rightarrow> Some x)"
      using IH same_ids_nth [OF s] same_ids_last [OF s] by simp
    then show "fl_tuple (st_flows t' ! p) = (case if last_with (st_flows t) p then tuple_for (c # cs) (fl_id (st_flows t ! p)) else None of
       None \<Rightarrow> fl_tuple (st_flows t ! p) | Some x \<Rightarrow> Some x)"
      using e(2) [OF p] c by (auto simp: tuple_for_Cons split: option.splits)
  qed
qed

text \<open>Reading the flows gives a table of unclassified flows, reading the probes keeps the five-tuples.\<close>

lemma enter_all:
  assumes "table_ok t" and "\<forall>f \<in> set (st_flows t). fl_tuple f = None" and "foldE (enter_flow w) t els = Inr t'"
  shows "table_ok t' \<and> (\<forall>f \<in> set (st_flows t'). fl_tuple f = None) \<and> length (st_flows t') = length (st_flows t) + length els"
  using assms
proof (induction els arbitrary: t)
  case Nil
  then show ?case by simp
next
  case (Cons c cs)
  obtain u where u: "enter_flow w t c = Inr u" "foldE (enter_flow w) u cs = Inr t'"
    using Cons.prems(3) by (auto simp: bindE_Inr_conv)
  note e = enter_flow_ok [OF Cons.prems(1) u(1)]
  have n: "\<forall>f \<in> set (st_flows u). fl_tuple f = None" using e(2) Cons.prems(2) by auto
  have "length (st_flows u) = length (st_flows t) + 1" using e(2) by auto
  then show ?case using Cons.IH [OF e(1) n u(2)] by simp
qed

definition same_tuples :: "flow_table \<Rightarrow> flow_table \<Rightarrow> bool" where
  "same_tuples t t' \<longleftrightarrow> same_ids t t' \<and> map fl_tuple (st_flows t') = map fl_tuple (st_flows t)"

lemma same_tuples_refl: "same_tuples t t" by (simp add: same_tuples_def same_ids_refl)

lemma same_tuples_trans: "same_tuples t u \<Longrightarrow> same_tuples u v \<Longrightarrow> same_tuples t v"
  using same_ids_trans by (auto simp: same_tuples_def)

lemma same_tuples_foldE:
  assumes step: "\<And>t x t'. table_ok t \<Longrightarrow> f t x = Inr t' \<Longrightarrow> same_tuples t t'"
  shows "table_ok t \<Longrightarrow> foldE f t xs = Inr t' \<Longrightarrow> same_tuples t t'"
proof (induction xs arbitrary: t)
  case Nil
  then show ?case by (simp add: same_tuples_refl)
next
  case (Cons x xs)
  obtain u where u: "f t x = Inr u" "foldE f u xs = Inr t'" using Cons.prems(2) by (auto simp: bindE_Inr_conv)
  have s: "same_tuples t u" by (rule step [OF Cons.prems(1) u(1)])
  then have "table_ok u" using same_ids_ok Cons.prems(1) by (auto simp: same_tuples_def)
  then show ?case using Cons.IH [OF _ u(2)] same_tuples_trans [OF s] by blast
qed

lemma probe_keeps_tuples: "table_ok t \<Longrightarrow> enter_probe w t el = Inr t' \<Longrightarrow> same_tuples t t'"
proof -
  assume t: "table_ok t" and "enter_probe w t el = Inr t'"
  then obtain probe where p: "foldE (enter_stats w probe) t (xfindall ''FlowStats'' el) = Inr t'"
    by (auto simp: enter_probe_def bindE_Inr_conv)
  have "same_tuples u u'" if u: "table_ok u" and x: "enter_stats w probe u x = Inr u'" for u x u'
  proof -
    obtain i s where a: "at_flow i (\<lambda>f. f\<lparr>fl_probes := fl_probes f @ [s]\<rparr>) u = Inr u'"
      using x by (auto simp: enter_stats_def bindE_Inr_conv)
    note e = at_flow_effect [OF u a, simplified]
    show "same_tuples u u'"
      using e(1) same_ids_nth [OF e(1)] e(2) by (auto simp: same_tuples_def intro!: nth_equalityI)
  qed
  then show "same_tuples t t'" by (rule same_tuples_foldE [OF _ t p])
qed

text \<open>
  Of the flows with one id only the last is given the five-tuple, the one of the last entry of the
  classifier with this id. All others stay without.
\<close>

lemma simulation_tuples:
  assumes "new_simulation w el = Inr flows"
  shows "\<exists>classifier. xfindall ''Ipv4FlowClassifier'' el = [classifier] \<and>
    length flows = length (xpath2 ''FlowStats'' ''Flow'' el) \<and>
    (\<forall>p < length flows. fl_tuple (flows ! p) =
       (if last_with flows p then tuple_for (xfindall ''Flow'' classifier) (fl_id (flows ! p)) else None))"
proof -
  obtain c where c: "xfindall ''Ipv4FlowClassifier'' el = [c]"
    using assms by (auto simp: new_simulation_def split: list.splits)
  obtain t u v where
    t: "foldE (enter_flow w) \<lparr>st_flows = [], st_map = []\<rparr> (xpath2 ''FlowStats'' ''Flow'' el) = Inr t"
    and u: "foldE classify_flow t (xfindall ''Flow'' c) = Inr u"
    and v: "foldE (enter_probe w) u (xpath2 ''FlowProbes'' ''FlowProbe'' el) = Inr v"
    and f: "flows = st_flows v"
    using assms by (auto simp: new_simulation_def c bindE_Inr_conv)
  have e: "table_ok t" "\<forall>f \<in> set (st_flows t). fl_tuple f = None" "length (st_flows t) = length (xpath2 ''FlowStats'' ''Flow'' el)"
    using enter_all [OF table_empty _ t] by auto
  note a = classify_all [OF e(1) u]
  have s: "same_ids t u" using a by blast
  have "same_tuples u v"
    by (rule same_tuples_foldE [OF probe_keeps_tuples same_ids_ok [OF s e(1)] v])
  then have uv: "same_ids u v" and m: "map fl_tuple (st_flows v) = map fl_tuple (st_flows u)" by (simp_all add: same_tuples_def)
  have l: "length (st_flows v) = length (st_flows t)" using same_ids_nth(1) [OF uv] same_ids_nth(1) [OF s] by simp
  have "fl_tuple (flows ! p) = (if last_with flows p then tuple_for (xfindall ''Flow'' c) (fl_id (flows ! p)) else None)"
    if p: "p < length flows" for p
  proof -
    have pt: "p < length (st_flows t)" "p < length (st_flows u)" using p f l same_ids_nth(1) [OF uv] by simp_all
    have "fl_tuple (flows ! p) = fl_tuple (st_flows u ! p)" using arg_cong [OF m, of "\<lambda>l. l ! p"] p f pt by simp
    moreover have "fl_tuple (st_flows t ! p) = None" using e(2) pt by simp
    moreover have "last_with flows p = last_with (st_flows t) p" using same_ids_last [OF uv] same_ids_last [OF s] f by simp
    moreover have "fl_id (flows ! p) = fl_id (st_flows t ! p)"
      using same_ids_nth(2) [OF uv pt(2)] same_ids_nth(2) [OF s pt(1)] f by simp
    ultimately show ?thesis using a pt by (simp split: option.splits)
  qed
  then show ?thesis using c e(3) l f by auto
qed

lemma last_with_distinct: "(\<forall>p < length fs. last_with fs p) \<longleftrightarrow> distinct (map fl_id fs)"
proof
  assume a: "\<forall>p < length fs. last_with fs p"
  have "fl_id (fs ! i) \<noteq> fl_id (fs ! j)" if "i < length fs" "j < length fs" "i \<noteq> j" for i j
    using a that unfolding last_with_def by (metis linorder_neqE_nat)
  then show "distinct (map fl_id fs)" by (simp add: distinct_conv_nth)
next
  assume "distinct (map fl_id fs)"
  then show "\<forall>p < length fs. last_with fs p" by (auto simp: last_with_def distinct_conv_nth)
qed

definition printable :: "five_tuple option \<Rightarrow> bool" where
  "printable x = (case x of None \<Rightarrow> False | Some t \<Rightarrow> ft_protocol t = 6 \<or> ft_protocol t = 17)"

lemma print_flows_ok: "snd (print_flows w fs) = Inr () \<longleftrightarrow> (\<forall>f \<in> set fs. printable (fl_tuple f))"
  by (induction fs) (auto simp: flow_lines_def printable_def proto_name_def split: option.splits sum.splits prod.splits)

text \<open>
  C30: C0. The outcome of the script: the flows of a simulation are all printed exactly when no id occurs
  twice and the classifier's last entry for every id is there and is TCP or UDP. In every other case
  the output stops with an exception, AttributeError for the five-tuple that was never set.
\<close>

theorem flowmon_all_printed:
  assumes "xtag doc = ''FlowMonitor''" and "new_simulation w doc = Inr flows"
  shows "\<exists>classifier. xfindall ''Ipv4FlowClassifier'' doc = [classifier] \<and>
    (snd (flowmon_main w doc) = Inr () \<longleftrightarrow>
       distinct (map fl_id flows) \<and> (\<forall>f \<in> set flows. printable (tuple_for (xfindall ''Flow'' classifier) (fl_id f))))"
proof -
  obtain c where c: "xfindall ''Ipv4FlowClassifier'' doc = [c]"
    and t: "\<forall>p < length flows. fl_tuple (flows ! p) =
       (if last_with flows p then tuple_for (xfindall ''Flow'' c) (fl_id (flows ! p)) else None)"
    using simulation_tuples [OF assms(2)] by blast
  have "snd (flowmon_main w doc) = Inr () \<longleftrightarrow> (\<forall>p < length flows. printable (fl_tuple (flows ! p)))"
    by (simp add: flowmon_main_result assms print_flows_ok all_set_conv_all_nth)
  also have "\<dots> \<longleftrightarrow> (\<forall>p < length flows. last_with flows p \<and> printable (tuple_for (xfindall ''Flow'' c) (fl_id (flows ! p))))"
    using t by (auto simp: printable_def split: if_splits)
  also have "\<dots> \<longleftrightarrow> distinct (map fl_id flows) \<and> (\<forall>f \<in> set flows. printable (tuple_for (xfindall ''Flow'' c) (fl_id f)))"
    unfolding all_set_conv_all_nth last_with_distinct [symmetric] by blast
  finally show ?thesis using c by blast
qed

definition plain_floats :: flow_floats where
  "plain_floats = \<lparr>ff_read = (\<lambda>s. map_option of_int (py2_int s)), ff_round = (\<lambda>x. x)\<rparr>"

definition demo_flow :: "string \<Rightarrow> xml" where
  "demo_flow i = Elem ''Flow''
     [(''flowId'', i), (''timeFirstTxPacket'', ''+0.0ns''), (''timeFirstRxPacket'', ''+0.0ns''),
      (''timeLastTxPacket'', ''+1000.0ns''), (''timeLastRxPacket'', ''+2000.0ns''), (''delaySum'', ''+10.0ns''),
      (''txBytes'', ''60''), (''rxBytes'', ''50''), (''txPackets'', ''6''), (''rxPackets'', ''5''),
      (''lostPackets'', ''1''), (''timesForwarded'', ''0'')] None []"

definition demo_entry :: "string \<Rightarrow> xml" where
  "demo_entry i = Elem ''Flow''
     [(''flowId'', i), (''sourceAddress'', ''10.1.1.1''), (''destinationAddress'', ''10.1.1.2''), (''protocol'', ''17''),
      (''sourcePort'', ''9''), (''destinationPort'', ''80'')] None []"

definition demo_doc :: "string list \<Rightarrow> string list \<Rightarrow> xml" where
  "demo_doc flows entries = Elem ''FlowMonitor'' [] None
     [Elem ''FlowStats'' [] None (map demo_flow flows), Elem ''Ipv4FlowClassifier'' [] None (map demo_entry entries)]"

theorem flowmon_all_printed_witness:
  "snd (flowmon_main plain_floats (demo_doc [''1'', ''2''] [''2'', ''1''])) = Inr () \<and>
   snd (flowmon_main plain_floats (demo_doc [''1'', ''1''] [''1''])) \<noteq> Inr ()"
proof
  let ?d = "demo_doc [''1'', ''2''] [''2'', ''1'']"
  let ?c = "Elem ''Ipv4FlowClassifier'' [] None (map demo_entry [''2'', ''1''])"
  let ?fs = "projr (new_simulation plain_floats ?d)"
  have f: "new_simulation plain_floats ?d = Inr ?fs" by code_simp
  have "distinct (map fl_id ?fs) \<and> (\<forall>f \<in> set ?fs. printable (tuple_for (xfindall ''Flow'' ?c) (fl_id f)))" by code_simp
  moreover have "xfindall ''Ipv4FlowClassifier'' ?d = [?c]" by code_simp
  ultimately show "snd (flowmon_main plain_floats ?d) = Inr ()"
    using flowmon_all_printed [OF _ f] by (auto simp: demo_doc_def)
next
  let ?d = "demo_doc [''1'', ''1''] [''1'']"
  let ?fs = "projr (new_simulation plain_floats ?d)"
  have f: "new_simulation plain_floats ?d = Inr ?fs" by code_simp
  have "\<not> distinct (map fl_id ?fs)" by code_simp
  then show "snd (flowmon_main plain_floats ?d) \<noteq> Inr ()"
    using flowmon_all_printed [OF _ f] by (auto simp: demo_doc_def)
qed

section \<open>Times\<close>

lemma py2_int_plus: "py2_int (CHR ''+'' # show_nat n) = Some (int n)"
proof -
  have plus: "\<not> py_space CHR ''+''" by (simp add: py_space_def)
  have strip: "py_strip (CHR ''+'' # show_nat n) = CHR ''+'' # show_nat n"
    by (rule py_strip_id) (simp_all add: digit_not_space show_nat_last_digit plus)
  have u: "CHR ''_'' \<notin> set (show_nat n)" by (rule show_nat_no_char) (simp add: is_digit_def)
  then have "py_split CHR ''_'' (show_nat n) = [show_nat n]" by (rule py_split_no_sep)
  moreover have "[] \<noteq> show_nat n" using show_nat_not_Nil [of n] by (rule not_sym)
  ultimately show ?thesis using u
    by (simp add: py2_int_def py_int_def strip Let_def radix_digits_show)
qed

lemma show_nat_cut2: "100 \<le> n \<Longrightarrow> show_nat n = show_nat (n div 100) @ [digit_char (n div 10 mod 10), digit_char (n mod 10)]"
proof -
  assume n: "100 \<le> n"
  have "n div 10 div 10 = n div 100" by (simp add: div_mult2_eq [symmetric])
  moreover have "\<not> n < 10" "\<not> n div 10 < 10" using n by auto
  ultimately show ?thesis by (subst show_nat.simps, simp, subst show_nat.simps, simp)
qed

lemma show_nat_short: "n < 100 \<Longrightarrow> length (show_nat n) \<le> 2"
proof -
  assume "n < 100"
  then have "n div 10 < 10" by simp
  then show ?thesis by (subst show_nat.simps, subst show_nat.simps, simp)
qed

text \<open>
  The times. The documentation of the flow monitor shows \<open>+<n>.0ns\<close>, and that text is read right: the four
  characters that are cut off are the fraction and the unit. The simulator of this repository streams a
  double at the default precision, so it writes \<open>+<n>ns\<close> for a whole number of nanoseconds below a
  million: two digits are lost. From a million on it writes an exponent, which is not an integer.
\<close>

lemma documented_time_read: "time_of (Some (''+'' @ show_nat n @ ''.0ns'')) = Inr (int n)"
  by (simp add: time_of_def cut4_def long_of_def py2_int_plus)

lemma short_time_cut:
  "time_of (Some (''+'' @ show_nat n @ ''ns'')) = (if n < 100 then Inl ValueError else Inr (int (n div 100)))"
proof (cases "n < 100")
  case True
  have "py2_int [] = None" "py2_int ''+'' = None" by code_simp+
  moreover have "cut4 (''+'' @ show_nat n @ ''ns'') = [] \<or> cut4 (''+'' @ show_nat n @ ''ns'') = ''+''"
    using show_nat_short [OF True] show_nat_not_Nil [of n]
    by (cases "show_nat n"; cases "tl (show_nat n)") (auto simp: cut4_def)
  ultimately show ?thesis using True by (auto simp: time_of_def long_of_def)
next
  case False
  then show ?thesis using show_nat_cut2 [of n] py2_int_plus [of "n div 100"] by (simp add: time_of_def cut4_def long_of_def)
qed

lemma exponent_time_unreadable: "time_of (Some ''+2.00672e+07ns'') = Inl ValueError"
  by code_simp

end
