(* ===== verification/Viz_Threads.thy ===== *)
theory Viz_Threads
  imports Complex_Main Py_Num Py_Strings
begin

text \<open>
  The two threads of the visualizer, \<^verbatim>\<open>src/src/visualizer/visualizer/core.py\<close>: the thread that runs
  the simulator in steps of the sample period, and the view, whose callbacks the event loop of GTK
  calls one at a time. They share a lock, an event and the fields of \<open>SimulationThread\<close>. One step
  of the relation is one statement of the simulation thread or one indivisible part of a callback.

  While the simulator is busy, \<open>update_view_timeout\<close> runs the event loop itself, so callbacks nest:
  \<open>vz_spins\<close> holds the timer callbacks that are waiting for the lock in this way, the innermost
  first. The event loop may call callbacks in any order; GLib does not call a timer's callback while
  an earlier call of it has not returned.

  The helper object \<open>PyViz\<close> is C++ (\<^verbatim>\<open>src/src/visualizer/model/pyviz.cc\<close>); what a run of the
  simulator yields is a parameter. The fields \<open>vz_said\<close>, \<open>vz_lost\<close>, \<open>vz_runs\<close> and \<open>vz_recorded\<close> are
  histories that no step reads.
\<close>

section \<open>The helper\<close>

record transmission =
  tm_from :: nat
  tm_to :: nat
  tm_bytes :: nat

record drop_sample =
  dr_from :: nat
  dr_bytes :: nat

record 'w sim_helper =
  he_world :: 'w
  he_now :: rat
  he_tx :: "transmission list"
  he_drops :: "drop_sample list"
  he_pauses :: "string list"
  he_interest :: "nat list"

type_synonym 'w simulator =
  "rat \<Rightarrow> nat list \<Rightarrow> 'w \<Rightarrow> 'w \<times> rat \<times> transmission list \<times> drop_sample list \<times> string list"

text \<open>\<open>PyViz::SimulatorRunUntil\<close>: what the last run recorded is cleared, whether it was read or not.\<close>

definition run_until :: "'w simulator \<Rightarrow> rat \<Rightarrow> 'w sim_helper \<Rightarrow> 'w sim_helper" where
  "run_until sim t h =
     (let h1 = h\<lparr>he_pauses := [], he_tx := [], he_drops := []\<rparr>
      in if he_now h \<ge> t then h1
         else (let (w, now', tx, drops, pauses) = sim t (he_interest h) (he_world h)
               in h1\<lparr>he_world := w, he_now := now', he_tx := tx, he_drops := drops, he_pauses := pauses\<rparr>))"

section \<open>The state of both threads\<close>

datatype show_mode = Show_All | Show_None | Show_Selected

datatype holder = Sim_Thread | View_Thread

text \<open>The statements of \<open>SimulationThread.run\<close>.\<close>

datatype sim_pc = S_Test | S_Wait | S_Clear | S_Quit | S_Lock | S_Run | S_Post | S_Release | S_End

text \<open>
  Where the view thread is: in the event loop, waiting for the lock or in the section that it guards
  with a job to do, in the three parts of \<open>update_view_timeout\<close>, or joining the other thread.
\<close>

datatype view_job = Update_Model | Set_Interest "nat list" | Read_Model

datatype view_pc = V_Loop | V_Lock view_job | V_Hold view_job | V_Tick | V_Set "string list" | V_Show "string list" | V_Join

record 'w viz =
  vz_helper :: "'w sim_helper"
  vz_lock :: "holder option"
  vz_go :: bool
  vz_quit :: bool
  vz_target :: rat
  vz_pause :: "string list"
  vz_idle :: nat                        \<comment> \<open>calls of \<open>update_model\<close> posted to the event loop\<close>
  vz_sim :: sim_pc
  vz_view :: view_pc
  vz_spins :: "nat list"
  vz_timers :: "(nat \<times> int) list"        \<comment> \<open>sources of the event loop with their intervals\<close>
  vz_next_timer :: nat
  vz_timer_id :: "nat option"           \<comment> \<open>\<open>_update_timeout_id\<close>\<close>
  vz_bad_removals :: nat                \<comment> \<open>removals of a source that is not there\<close>
  vz_play :: bool
  vz_speed :: rat
  vz_period :: rat
  vz_mode :: show_mode
  vz_selected :: "nat option"
  vz_smooth :: nat
  vz_last_tx :: "transmission list list"
  vz_last_drops :: "drop_sample list list"
  vz_closed :: bool                     \<comment> \<open>\<open>Gtk.main_quit\<close> was called\<close>
  vz_shown :: "string list"             \<comment> \<open>messages of the dialogs\<close>
  vz_said :: "string list"
  vz_lost :: "string list"
  vz_runs :: "transmission list list"
  vz_recorded :: "transmission list list"

section \<open>The simulation thread\<close>

definition sim_step :: "'w simulator \<Rightarrow> 'w viz \<Rightarrow> 'w viz option" where
  "sim_step sim s =
     (case vz_sim s of
        S_Test \<Rightarrow> Some (s\<lparr>vz_sim := if vz_quit s then S_End else S_Wait\<rparr>)
      | S_Wait \<Rightarrow> if vz_go s then Some (s\<lparr>vz_sim := S_Clear\<rparr>) else None
      | S_Clear \<Rightarrow> Some (s\<lparr>vz_go := False, vz_sim := S_Quit\<rparr>)
      | S_Quit \<Rightarrow> Some (s\<lparr>vz_sim := if vz_quit s then S_End else S_Lock\<rparr>)
      | S_Lock \<Rightarrow> if vz_lock s = None then Some (s\<lparr>vz_lock := Some Sim_Thread, vz_sim := S_Run\<rparr>) else None
      | S_Run \<Rightarrow> (let h = run_until sim (vz_target s) (vz_helper s)
                 in Some (s\<lparr>vz_helper := h, vz_runs := vz_runs s @ [he_tx h], vz_sim := S_Post\<rparr>))
      | S_Post \<Rightarrow> (let ps = he_pauses (vz_helper s)
                  in Some (s\<lparr>vz_pause := vz_pause s @ ps, vz_said := vz_said s @ ps, vz_idle := vz_idle s + 1, vz_sim := S_Release\<rparr>))
      | S_Release \<Rightarrow> Some (s\<lparr>vz_lock := None, vz_sim := S_Test\<rparr>)
      | S_End \<Rightarrow> None)"

section \<open>The callbacks of the view\<close>

definition sample_period :: rat where "sample_period = 1 / 10"

definition source_remove :: "nat \<Rightarrow> 'w viz \<Rightarrow> 'w viz" where
  "source_remove i s =
     (if i \<in> fst ` set (vz_timers s) then s\<lparr>vz_timers := filter (\<lambda>x. fst x \<noteq> i) (vz_timers s)\<rparr>
      else s\<lparr>vz_bad_removals := vz_bad_removals s + 1\<rparr>)"

definition remove_timer :: "'w viz \<Rightarrow> 'w viz" where
  \<comment> \<open>the identifier stays\<close>
  "remove_timer s = (case vz_timer_id s of None \<Rightarrow> s | Some i \<Rightarrow> source_remove i s)"

definition start_update_timer :: "'w viz \<Rightarrow> 'w viz" where
  "start_update_timer s =
     (let s1 = remove_timer s; i = vz_next_timer s1
      in s1\<lparr>vz_timers := vz_timers s1 @ [(i, trunc_rat (sample_period / min (vz_speed s1) 1 * 1000))],
            vz_next_timer := i + 1, vz_timer_id := Some i\<rparr>)"

definition on_play_button_toggled :: "'w viz \<Rightarrow> 'w viz" where
  "on_play_button_toggled s = (if vz_play s then start_update_timer s else remove_timer s)"

definition set_play :: "bool \<Rightarrow> 'w viz \<Rightarrow> 'w viz" where
  \<comment> \<open>the button emits its signal when its state changes\<close>
  "set_play b s = (if vz_play s = b then s else on_play_button_toggled (s\<lparr>vz_play := b\<rparr>))"

definition speed_changed :: "rat \<Rightarrow> 'w viz \<Rightarrow> 'w viz" where
  "speed_changed v s = start_update_timer (s\<lparr>vz_speed := v, vz_period := sample_period * v\<rparr>)"

definition wanted_interest :: "nat \<Rightarrow> show_mode \<Rightarrow> nat option \<Rightarrow> nat list" where
  "wanted_interest n m sel =
     (case m of Show_All \<Rightarrow> [0..<n] | Show_None \<Rightarrow> [] | Show_Selected \<Rightarrow> (case sel of None \<Rightarrow> [] | Some i \<Rightarrow> [i]))"

definition set_show_transmissions_mode :: "nat \<Rightarrow> show_mode \<Rightarrow> 'w viz \<Rightarrow> 'w viz" where
  "set_show_transmissions_mode n m s =
     s\<lparr>vz_mode := m, vz_view := V_Lock (Set_Interest (wanted_interest n m (vz_selected s)))\<rparr>"

definition select_node :: "nat option \<Rightarrow> 'w viz \<Rightarrow> 'w viz" where
  "select_node x s =
     (if x = vz_selected s then s
      else if vz_mode s = Show_Selected
        then s\<lparr>vz_selected := x, vz_view := V_Lock (Set_Interest (case x of None \<Rightarrow> [] | Some i \<Rightarrow> [i]))\<rparr>
      else s\<lparr>vz_selected := x\<rparr>)"

text \<open>\<open>append\<close>, then \<open>pop(0)\<close> while the list is too long.\<close>

definition keep_last :: "nat \<Rightarrow> 'a list \<Rightarrow> 'a list" where
  "keep_last n xs = drop (length xs - n) xs"

definition periodic_update :: "'w viz \<Rightarrow> 'w viz" where
  "periodic_update s =
     s\<lparr>vz_last_tx := keep_last (vz_smooth s) (vz_last_tx s @ [he_tx (vz_helper s)]),
       vz_last_drops := keep_last (vz_smooth s) (vz_last_drops s @ [he_drops (vz_helper s)]),
       vz_recorded := vz_recorded s @ [he_tx (vz_helper s)]\<rparr>"

definition do_job :: "view_job \<Rightarrow> 'w viz \<Rightarrow> 'w viz" where
  "do_job j s =
     (case j of
        Update_Model \<Rightarrow> periodic_update s
      | Set_Interest ns \<Rightarrow> s\<lparr>vz_helper := (vz_helper s)\<lparr>he_interest := ns\<rparr>\<rparr>
      | Read_Model \<Rightarrow> s)"

text \<open>\<open>update_view_timeout\<close> from the lock to its end; the callback that runs is the innermost.\<close>

definition tick :: "bool \<Rightarrow> 'w viz \<Rightarrow> 'w viz" where
  \<comment> \<open>\<open>ok\<close> is false when \<open>update_view\<close> raises: the lock is released, the timer is not called again\<close>
  "tick ok s =
     (let ps = vz_pause s; s1 = s\<lparr>vz_pause := []\<rparr>
      in if ok then s1\<lparr>vz_target := he_now (vz_helper s) + vz_period s, vz_view := V_Set ps\<rparr>
         else s1\<lparr>vz_lost := vz_lost s @ ps, vz_lock := None, vz_view := V_Loop,
                vz_timers := filter (\<lambda>x. fst x \<noteq> hd (vz_spins s)) (vz_timers s), vz_spins := tl (vz_spins s)\<rparr>)"

definition timeout_end :: "string list \<Rightarrow> 'w viz \<Rightarrow> 'w viz" where
  "timeout_end ps s =
     (let s1 = (if ps \<noteq> [] then set_play False (s\<lparr>vz_shown := vz_shown s @ ps\<rparr>) else s);
          s2 = (if \<not> vz_play s1
                then s1\<lparr>vz_timer_id := None, vz_timers := filter (\<lambda>x. fst x \<noteq> hd (vz_spins s1)) (vz_timers s1)\<rparr>
                else s1\<lparr>vz_go := True\<rparr>)
      in s2\<lparr>vz_spins := tl (vz_spins s2), vz_view := V_Loop\<rparr>)"

definition quit :: "'w viz \<Rightarrow> 'w viz" where
  "quit s =
     (let s1 = (if vz_timer_id s = None then s else (remove_timer s)\<lparr>vz_timer_id := None\<rparr>)
      in s1\<lparr>vz_quit := True, vz_go := True, vz_view := V_Join\<rparr>)"

text \<open>
  What the event loop calls, and the next part of a callback that is under way. The loop runs until
  \<open>main_quit\<close>, and inside a waiting timer callback also after it.
\<close>

datatype view_event = Fire nat | Spin | Tick bool | Idle | Toggle | Speed rat | Smooth nat | Mode show_mode
  | Select "nat option" | Peek | Close | Go_On

definition looping :: "'w viz \<Rightarrow> bool" where
  "looping s = (vz_view s = V_Loop \<and> (\<not> vz_closed s \<or> vz_spins s \<noteq> []))"

definition view_step :: "nat \<Rightarrow> view_event \<Rightarrow> 'w viz \<Rightarrow> 'w viz option" where
  "view_step n e s =
     (case e of
        Fire i \<Rightarrow> if looping s \<and> i \<in> fst ` set (vz_timers s) \<and> i \<notin> set (vz_spins s) then Some (s\<lparr>vz_spins := i # vz_spins s\<rparr>) else None
      | Spin \<Rightarrow> if vz_view s = V_Loop \<and> vz_spins s \<noteq> [] \<and> vz_lock s = None
               then Some (s\<lparr>vz_lock := Some View_Thread, vz_view := V_Tick\<rparr>) else None
      | Tick ok \<Rightarrow> if vz_view s = V_Tick then Some (tick ok s) else None
      | Idle \<Rightarrow> if looping s \<and> vz_idle s > 0 then Some (s\<lparr>vz_idle := vz_idle s - 1, vz_view := V_Lock Update_Model\<rparr>) else None
      | Toggle \<Rightarrow> if looping s then Some (set_play (\<not> vz_play s) s) else None
      | Speed v \<Rightarrow> if looping s \<and> 0 < v then Some (speed_changed v s) else None
      | Smooth k \<Rightarrow> if looping s then Some (s\<lparr>vz_smooth := k\<rparr>) else None
      | Mode m \<Rightarrow> if looping s then Some (set_show_transmissions_mode n m s) else None
      | Select x \<Rightarrow> if looping s then Some (select_node x s) else None
      | Peek \<Rightarrow> if looping s then Some (s\<lparr>vz_view := V_Lock Read_Model\<rparr>) else None
      | Close \<Rightarrow> if looping s then Some (quit s) else None
      | Go_On \<Rightarrow>
          (case vz_view s of
             V_Lock j \<Rightarrow> if vz_lock s = None then Some (s\<lparr>vz_lock := Some View_Thread, vz_view := V_Hold j\<rparr>) else None
           | V_Hold j \<Rightarrow> Some ((do_job j s)\<lparr>vz_lock := None, vz_view := V_Loop\<rparr>)
           | V_Set ps \<Rightarrow> Some (s\<lparr>vz_lock := None, vz_view := V_Show ps\<rparr>)
           | V_Show ps \<Rightarrow> Some (timeout_end ps s)
           | V_Join \<Rightarrow> if vz_sim s = S_End then Some (s\<lparr>vz_closed := True, vz_view := V_Loop\<rparr>) else None
           | V_Loop \<Rightarrow> None
           | V_Tick \<Rightarrow> None))"

section \<open>Both threads\<close>

text \<open>\<open>Visualizer.start\<close>: the graphical interface has set the speed once, so a timer runs.\<close>

definition start_viz :: "nat \<Rightarrow> 'w \<Rightarrow> 'w viz" where
  "start_viz n w =
     speed_changed 1
     \<lparr>vz_helper = \<lparr>he_world = w, he_now = 0, he_tx = [], he_drops = [], he_pauses = [], he_interest = wanted_interest n Show_All None\<rparr>,
      vz_lock = None, vz_go = False, vz_quit = False, vz_target = 0, vz_pause = [], vz_idle = 0,
      vz_sim = S_Test, vz_view = V_Loop, vz_spins = [], vz_timers = [], vz_next_timer = 1, vz_timer_id = None,
      vz_bad_removals = 0, vz_play = False, vz_speed = 1, vz_period = sample_period,
      vz_mode = Show_All, vz_selected = None, vz_smooth = 5, vz_last_tx = [], vz_last_drops = [],
      vz_closed = False, vz_shown = [], vz_said = [], vz_lost = [], vz_runs = [], vz_recorded = []\<rparr>"

inductive viz_step :: "'w simulator \<Rightarrow> nat \<Rightarrow> 'w viz \<Rightarrow> 'w viz \<Rightarrow> bool" for sim n where
  by_sim: "sim_step sim s = Some s' \<Longrightarrow> viz_step sim n s s'"
| by_view: "view_step n e s = Some s' \<Longrightarrow> viz_step sim n s s'"

inductive viz_reach :: "'w simulator \<Rightarrow> nat \<Rightarrow> 'w \<Rightarrow> 'w viz \<Rightarrow> bool" for sim n w where
  reach_start: "viz_reach sim n w (start_viz n w)"
| reach_step: "viz_reach sim n w s \<Longrightarrow> viz_step sim n s s' \<Longrightarrow> viz_reach sim n w s'"

section \<open>What the timers leave alone\<close>

lemma source_remove_frame [simp]:
  "vz_helper (source_remove i s) = vz_helper s"
  "vz_lock (source_remove i s) = vz_lock s"
  "vz_go (source_remove i s) = vz_go s"
  "vz_quit (source_remove i s) = vz_quit s"
  "vz_target (source_remove i s) = vz_target s"
  "vz_pause (source_remove i s) = vz_pause s"
  "vz_idle (source_remove i s) = vz_idle s"
  "vz_sim (source_remove i s) = vz_sim s"
  "vz_view (source_remove i s) = vz_view s"
  "vz_spins (source_remove i s) = vz_spins s"
  "vz_speed (source_remove i s) = vz_speed s"
  "vz_period (source_remove i s) = vz_period s"
  "vz_mode (source_remove i s) = vz_mode s"
  "vz_selected (source_remove i s) = vz_selected s"
  "vz_smooth (source_remove i s) = vz_smooth s"
  "vz_last_tx (source_remove i s) = vz_last_tx s"
  "vz_last_drops (source_remove i s) = vz_last_drops s"
  "vz_closed (source_remove i s) = vz_closed s"
  "vz_shown (source_remove i s) = vz_shown s"
  "vz_said (source_remove i s) = vz_said s"
  "vz_lost (source_remove i s) = vz_lost s"
  "vz_runs (source_remove i s) = vz_runs s"
  "vz_recorded (source_remove i s) = vz_recorded s"
  "vz_play (source_remove i s) = vz_play s"
  "vz_timer_id (source_remove i s) = vz_timer_id s"
  "vz_next_timer (source_remove i s) = vz_next_timer s"
  by (simp_all add: source_remove_def split: option.splits)

lemma remove_timer_frame [simp]:
  "vz_helper (remove_timer s) = vz_helper s"
  "vz_lock (remove_timer s) = vz_lock s"
  "vz_go (remove_timer s) = vz_go s"
  "vz_quit (remove_timer s) = vz_quit s"
  "vz_target (remove_timer s) = vz_target s"
  "vz_pause (remove_timer s) = vz_pause s"
  "vz_idle (remove_timer s) = vz_idle s"
  "vz_sim (remove_timer s) = vz_sim s"
  "vz_view (remove_timer s) = vz_view s"
  "vz_spins (remove_timer s) = vz_spins s"
  "vz_speed (remove_timer s) = vz_speed s"
  "vz_period (remove_timer s) = vz_period s"
  "vz_mode (remove_timer s) = vz_mode s"
  "vz_selected (remove_timer s) = vz_selected s"
  "vz_smooth (remove_timer s) = vz_smooth s"
  "vz_last_tx (remove_timer s) = vz_last_tx s"
  "vz_last_drops (remove_timer s) = vz_last_drops s"
  "vz_closed (remove_timer s) = vz_closed s"
  "vz_shown (remove_timer s) = vz_shown s"
  "vz_said (remove_timer s) = vz_said s"
  "vz_lost (remove_timer s) = vz_lost s"
  "vz_runs (remove_timer s) = vz_runs s"
  "vz_recorded (remove_timer s) = vz_recorded s"
  "vz_play (remove_timer s) = vz_play s"
  "vz_timer_id (remove_timer s) = vz_timer_id s"
  "vz_next_timer (remove_timer s) = vz_next_timer s"
  by (simp_all add: remove_timer_def split: option.splits)

lemma start_update_timer_frame [simp]:
  "vz_helper (start_update_timer s) = vz_helper s"
  "vz_lock (start_update_timer s) = vz_lock s"
  "vz_go (start_update_timer s) = vz_go s"
  "vz_quit (start_update_timer s) = vz_quit s"
  "vz_target (start_update_timer s) = vz_target s"
  "vz_pause (start_update_timer s) = vz_pause s"
  "vz_idle (start_update_timer s) = vz_idle s"
  "vz_sim (start_update_timer s) = vz_sim s"
  "vz_view (start_update_timer s) = vz_view s"
  "vz_spins (start_update_timer s) = vz_spins s"
  "vz_speed (start_update_timer s) = vz_speed s"
  "vz_period (start_update_timer s) = vz_period s"
  "vz_mode (start_update_timer s) = vz_mode s"
  "vz_selected (start_update_timer s) = vz_selected s"
  "vz_smooth (start_update_timer s) = vz_smooth s"
  "vz_last_tx (start_update_timer s) = vz_last_tx s"
  "vz_last_drops (start_update_timer s) = vz_last_drops s"
  "vz_closed (start_update_timer s) = vz_closed s"
  "vz_shown (start_update_timer s) = vz_shown s"
  "vz_said (start_update_timer s) = vz_said s"
  "vz_lost (start_update_timer s) = vz_lost s"
  "vz_runs (start_update_timer s) = vz_runs s"
  "vz_recorded (start_update_timer s) = vz_recorded s"
  "vz_play (start_update_timer s) = vz_play s"
  by (simp_all add: start_update_timer_def Let_def split: option.splits)

lemma set_play_frame [simp]:
  "vz_helper (set_play b s) = vz_helper s"
  "vz_lock (set_play b s) = vz_lock s"
  "vz_go (set_play b s) = vz_go s"
  "vz_quit (set_play b s) = vz_quit s"
  "vz_target (set_play b s) = vz_target s"
  "vz_pause (set_play b s) = vz_pause s"
  "vz_idle (set_play b s) = vz_idle s"
  "vz_sim (set_play b s) = vz_sim s"
  "vz_view (set_play b s) = vz_view s"
  "vz_spins (set_play b s) = vz_spins s"
  "vz_speed (set_play b s) = vz_speed s"
  "vz_period (set_play b s) = vz_period s"
  "vz_mode (set_play b s) = vz_mode s"
  "vz_selected (set_play b s) = vz_selected s"
  "vz_smooth (set_play b s) = vz_smooth s"
  "vz_last_tx (set_play b s) = vz_last_tx s"
  "vz_last_drops (set_play b s) = vz_last_drops s"
  "vz_closed (set_play b s) = vz_closed s"
  "vz_shown (set_play b s) = vz_shown s"
  "vz_said (set_play b s) = vz_said s"
  "vz_lost (set_play b s) = vz_lost s"
  "vz_runs (set_play b s) = vz_runs s"
  "vz_recorded (set_play b s) = vz_recorded s"
  by (simp_all add: set_play_def on_play_button_toggled_def split: option.splits)

lemma speed_changed_frame [simp]:
  "vz_helper (speed_changed v s) = vz_helper s"
  "vz_lock (speed_changed v s) = vz_lock s"
  "vz_go (speed_changed v s) = vz_go s"
  "vz_quit (speed_changed v s) = vz_quit s"
  "vz_target (speed_changed v s) = vz_target s"
  "vz_pause (speed_changed v s) = vz_pause s"
  "vz_idle (speed_changed v s) = vz_idle s"
  "vz_sim (speed_changed v s) = vz_sim s"
  "vz_view (speed_changed v s) = vz_view s"
  "vz_spins (speed_changed v s) = vz_spins s"
  "vz_mode (speed_changed v s) = vz_mode s"
  "vz_selected (speed_changed v s) = vz_selected s"
  "vz_smooth (speed_changed v s) = vz_smooth s"
  "vz_last_tx (speed_changed v s) = vz_last_tx s"
  "vz_last_drops (speed_changed v s) = vz_last_drops s"
  "vz_closed (speed_changed v s) = vz_closed s"
  "vz_shown (speed_changed v s) = vz_shown s"
  "vz_said (speed_changed v s) = vz_said s"
  "vz_lost (speed_changed v s) = vz_lost s"
  "vz_runs (speed_changed v s) = vz_runs s"
  "vz_recorded (speed_changed v s) = vz_recorded s"
  "vz_play (speed_changed v s) = vz_play s"
  by (simp_all add: speed_changed_def split: option.splits)

lemma set_play_play [simp]: "vz_play (set_play b s) = b"
  by (simp add: set_play_def on_play_button_toggled_def)

lemma speed_changed_new [simp]: "vz_speed (speed_changed v s) = v" "vz_period (speed_changed v s) = sample_period * v"
  by (simp_all add: speed_changed_def)

section \<open>The steps one by one\<close>

lemma view_step_cases [consumes 1, case_names fire spin tick idle toggle speed smooth mode select peek close acquire job set dialog join]:
  assumes "view_step n e s = Some s'"
  obtains i where "e = Fire i" "looping s" "i \<in> fst ` set (vz_timers s)" "i \<notin> set (vz_spins s)" "s' = s\<lparr>vz_spins := i # vz_spins s\<rparr>"
  | "e = Spin" "vz_view s = V_Loop" "vz_spins s \<noteq> []" "vz_lock s = None" "s' = s\<lparr>vz_lock := Some View_Thread, vz_view := V_Tick\<rparr>"
  | ok where "e = Tick ok" "vz_view s = V_Tick" "s' = tick ok s"
  | "e = Idle" "looping s" "vz_idle s > 0" "s' = s\<lparr>vz_idle := vz_idle s - 1, vz_view := V_Lock Update_Model\<rparr>"
  | "e = Toggle" "looping s" "s' = set_play (\<not> vz_play s) s"
  | v where "e = Speed v" "looping s" "0 < v" "s' = speed_changed v s"
  | k where "e = Smooth k" "looping s" "s' = s\<lparr>vz_smooth := k\<rparr>"
  | m where "e = Mode m" "looping s" "s' = set_show_transmissions_mode n m s"
  | x where "e = Select x" "looping s" "s' = select_node x s"
  | "e = Peek" "looping s" "s' = s\<lparr>vz_view := V_Lock Read_Model\<rparr>"
  | "e = Close" "looping s" "s' = quit s"
  | j where "e = Go_On" "vz_view s = V_Lock j" "vz_lock s = None" "s' = s\<lparr>vz_lock := Some View_Thread, vz_view := V_Hold j\<rparr>"
  | j where "e = Go_On" "vz_view s = V_Hold j" "s' = (do_job j s)\<lparr>vz_lock := None, vz_view := V_Loop\<rparr>"
  | ps where "e = Go_On" "vz_view s = V_Set ps" "s' = s\<lparr>vz_lock := None, vz_view := V_Show ps\<rparr>"
  | ps where "e = Go_On" "vz_view s = V_Show ps" "s' = timeout_end ps s"
  | "e = Go_On" "vz_view s = V_Join" "vz_sim s = S_End" "s' = s\<lparr>vz_closed := True, vz_view := V_Loop\<rparr>"
proof (cases e)
  case (Fire i)
  show thesis by (rule that(1)) (use assms Fire in \<open>auto simp: view_step_def split: if_splits\<close>)
next
  case Spin
  show thesis by (rule that(2)) (use assms Spin in \<open>auto simp: view_step_def split: if_splits\<close>)
next
  case (Tick ok)
  show thesis by (rule that(3)) (use assms Tick in \<open>auto simp: view_step_def split: if_splits\<close>)
next
  case Idle
  show thesis by (rule that(4)) (use assms Idle in \<open>auto simp: view_step_def split: if_splits\<close>)
next
  case Toggle
  show thesis by (rule that(5)) (use assms Toggle in \<open>auto simp: view_step_def split: if_splits\<close>)
next
  case (Speed v)
  show thesis by (rule that(6)) (use assms Speed in \<open>auto simp: view_step_def split: if_splits\<close>)
next
  case (Smooth k)
  show thesis by (rule that(7)) (use assms Smooth in \<open>auto simp: view_step_def split: if_splits\<close>)
next
  case (Mode m)
  show thesis by (rule that(8)) (use assms Mode in \<open>auto simp: view_step_def split: if_splits\<close>)
next
  case (Select x)
  show thesis by (rule that(9)) (use assms Select in \<open>auto simp: view_step_def split: if_splits\<close>)
next
  case Peek
  show thesis by (rule that(10)) (use assms Peek in \<open>auto simp: view_step_def split: if_splits\<close>)
next
  case Close
  show thesis by (rule that(11)) (use assms Close in \<open>auto simp: view_step_def split: if_splits\<close>)
next
  case Go_On
  show thesis
  proof (cases "vz_view s")
    case (V_Lock j)
    show thesis by (rule that(12)) (use assms Go_On V_Lock in \<open>auto simp: view_step_def split: if_splits\<close>)
  next
    case (V_Hold j)
    show thesis by (rule that(13)) (use assms Go_On V_Hold in \<open>auto simp: view_step_def split: if_splits\<close>)
  next
    case (V_Set ps)
    show thesis by (rule that(14)) (use assms Go_On V_Set in \<open>auto simp: view_step_def split: if_splits\<close>)
  next
    case (V_Show ps)
    show thesis by (rule that(15)) (use assms Go_On V_Show in \<open>auto simp: view_step_def split: if_splits\<close>)
  next
    case V_Join
    show thesis by (rule that(16)) (use assms Go_On V_Join in \<open>auto simp: view_step_def split: if_splits\<close>)
  qed (use assms Go_On in \<open>simp_all add: view_step_def\<close>)
qed

lemma sim_step_cases [consumes 1, case_names test wait clear quit lock run post release]:
  assumes "sim_step sim s = Some s'"
  obtains "vz_sim s = S_Test" "s' = s\<lparr>vz_sim := if vz_quit s then S_End else S_Wait\<rparr>"
  | "vz_sim s = S_Wait" "vz_go s" "s' = s\<lparr>vz_sim := S_Clear\<rparr>"
  | "vz_sim s = S_Clear" "s' = s\<lparr>vz_go := False, vz_sim := S_Quit\<rparr>"
  | "vz_sim s = S_Quit" "s' = s\<lparr>vz_sim := if vz_quit s then S_End else S_Lock\<rparr>"
  | "vz_sim s = S_Lock" "vz_lock s = None" "s' = s\<lparr>vz_lock := Some Sim_Thread, vz_sim := S_Run\<rparr>"
  | h where "vz_sim s = S_Run" "h = run_until sim (vz_target s) (vz_helper s)"
      "s' = s\<lparr>vz_helper := h, vz_runs := vz_runs s @ [he_tx h], vz_sim := S_Post\<rparr>"
  | ps where "vz_sim s = S_Post" "ps = he_pauses (vz_helper s)"
      "s' = s\<lparr>vz_pause := vz_pause s @ ps, vz_said := vz_said s @ ps, vz_idle := vz_idle s + 1, vz_sim := S_Release\<rparr>"
  | "vz_sim s = S_Release" "s' = s\<lparr>vz_lock := None, vz_sim := S_Test\<rparr>"
proof (cases "vz_sim s")
  case S_Test
  show thesis by (rule that(1)) (use assms S_Test in \<open>auto simp: sim_step_def Let_def split: if_splits\<close>)
next
  case S_Wait
  show thesis by (rule that(2)) (use assms S_Wait in \<open>auto simp: sim_step_def Let_def split: if_splits\<close>)
next
  case S_Clear
  show thesis by (rule that(3)) (use assms S_Clear in \<open>auto simp: sim_step_def Let_def split: if_splits\<close>)
next
  case S_Quit
  show thesis by (rule that(4)) (use assms S_Quit in \<open>auto simp: sim_step_def Let_def split: if_splits\<close>)
next
  case S_Lock
  show thesis by (rule that(5)) (use assms S_Lock in \<open>auto simp: sim_step_def Let_def split: if_splits\<close>)
next
  case S_Run
  show thesis by (rule that(6)) (use assms S_Run in \<open>auto simp: sim_step_def Let_def split: if_splits\<close>)
next
  case S_Post
  show thesis by (rule that(7)) (use assms S_Post in \<open>auto simp: sim_step_def Let_def split: if_splits\<close>)
next
  case S_Release
  show thesis by (rule that(8)) (use assms S_Release in \<open>auto simp: sim_step_def Let_def split: if_splits\<close>)
qed (use assms in \<open>simp add: sim_step_def\<close>)

lemma viz_reach_induct [consumes 1, case_names start sim view]:
  assumes "viz_reach sim n w s" and "P (start_viz n w)"
    and "\<And>s s'. viz_reach sim n w s \<Longrightarrow> P s \<Longrightarrow> sim_step sim s = Some s' \<Longrightarrow> P s'"
    and "\<And>s e s'. viz_reach sim n w s \<Longrightarrow> P s \<Longrightarrow> view_step n e s = Some s' \<Longrightarrow> P s'"
  shows "P s"
  using assms(1) by (induction rule: viz_reach.induct) (auto elim!: viz_step.cases intro: assms(2-4))

text \<open>What the larger parts do to the lock and to where the view is.\<close>

lemma tick_places [simp]:
  "vz_lock (tick ok s) = (if ok then vz_lock s else None)" "vz_view (tick ok s) = (if ok then V_Set (vz_pause s) else V_Loop)"
  "vz_sim (tick ok s) = vz_sim s" "vz_go (tick ok s) = vz_go s" "vz_quit (tick ok s) = vz_quit s" "vz_helper (tick ok s) = vz_helper s"
  by (simp_all add: tick_def Let_def)

lemma tick_end_places [simp]:
  "vz_lock (timeout_end ps s) = vz_lock s" "vz_view (timeout_end ps s) = V_Loop" "vz_sim (timeout_end ps s) = vz_sim s"
  "vz_quit (timeout_end ps s) = vz_quit s" "vz_helper (timeout_end ps s) = vz_helper s" "vz_target (timeout_end ps s) = vz_target s"
  "vz_pause (timeout_end ps s) = vz_pause s"
  by (simp_all add: timeout_end_def Let_def)

lemma quit_places [simp]:
  "vz_lock (quit s) = vz_lock s" "vz_view (quit s) = V_Join" "vz_sim (quit s) = vz_sim s" "vz_go (quit s)" "vz_quit (quit s)"
  "vz_helper (quit s) = vz_helper s" "vz_target (quit s) = vz_target s" "vz_pause (quit s) = vz_pause s"
  by (simp_all add: quit_def Let_def)

lemma do_job_places [simp]:
  "vz_lock (do_job j s) = vz_lock s" "vz_sim (do_job j s) = vz_sim s" "vz_go (do_job j s) = vz_go s" "vz_quit (do_job j s) = vz_quit s"
  "vz_target (do_job j s) = vz_target s" "vz_pause (do_job j s) = vz_pause s"
  by (simp_all add: do_job_def periodic_update_def split: view_job.splits)

lemma select_node_places [simp]:
  "vz_lock (select_node x s) = vz_lock s" "vz_sim (select_node x s) = vz_sim s" "vz_go (select_node x s) = vz_go s"
  "vz_quit (select_node x s) = vz_quit s" "vz_helper (select_node x s) = vz_helper s" "vz_target (select_node x s) = vz_target s"
  "vz_pause (select_node x s) = vz_pause s"
  by (simp_all add: select_node_def)

lemma select_node_view: "vz_view (select_node x s) = vz_view s \<or> (\<exists>j. vz_view (select_node x s) = V_Lock j)"
  by (simp add: select_node_def)

section \<open>The lock\<close>

definition sim_inside :: "'w viz \<Rightarrow> bool" where
  "sim_inside s = (vz_sim s = S_Run \<or> vz_sim s = S_Post \<or> vz_sim s = S_Release)"

definition view_inside :: "'w viz \<Rightarrow> bool" where
  "view_inside s = (vz_view s = V_Tick \<or> (\<exists>j. vz_view s = V_Hold j) \<or> (\<exists>ps. vz_view s = V_Set ps))"

definition lock_ok :: "'w viz \<Rightarrow> bool" where
  "lock_ok s \<longleftrightarrow> (vz_lock s = Some Sim_Thread \<longleftrightarrow> sim_inside s) \<and> (vz_lock s = Some View_Thread \<longleftrightarrow> view_inside s)"

lemmas lock_defs = lock_ok_def sim_inside_def view_inside_def looping_def

lemma sim_step_lock: "lock_ok s \<Longrightarrow> sim_step sim s = Some s' \<Longrightarrow> lock_ok s'"
  by (erule sim_step_cases) (auto simp: lock_defs)

lemma view_step_lock:
  assumes "lock_ok s" "view_step n e s = Some s'"
  shows "lock_ok s'"
  using assms(2)
proof (cases rule: view_step_cases)
  case (select x)
  then show ?thesis using assms(1) select_node_view [of x s] by (auto simp: lock_defs)
qed (use assms(1) in \<open>auto simp: lock_defs set_show_transmissions_mode_def\<close>)

lemma reach_lock: "viz_reach sim n w s \<Longrightarrow> lock_ok s"
proof (induction rule: viz_reach_induct)
  case start
  show ?case by (simp add: start_viz_def lock_defs)
qed (auto intro: sim_step_lock view_step_lock)


text \<open>
  C32: No data races. The two threads are never both inside a section that the lock guards, and the
  simulator, the target time and the pause messages are only changed by the thread that holds the lock.
\<close>

theorem model_guarded:
  assumes "viz_reach sim n w s"
  shows "\<not> (sim_inside s \<and> view_inside s) \<and>
    (\<forall>s'. sim_step sim s = Some s' \<and> (vz_helper s', vz_target s', vz_pause s') \<noteq> (vz_helper s, vz_target s, vz_pause s) \<longrightarrow>
       vz_lock s = Some Sim_Thread) \<and>
    (\<forall>e s'. view_step n e s = Some s' \<and> (vz_helper s', vz_target s', vz_pause s') \<noteq> (vz_helper s, vz_target s, vz_pause s) \<longrightarrow>
       vz_lock s = Some View_Thread)"
proof (intro conjI allI impI)
  have l: "lock_ok s" by (rule reach_lock [OF assms])
  then show "\<not> (sim_inside s \<and> view_inside s)" by (auto simp: lock_ok_def)
  fix s' e
  { assume a: "sim_step sim s = Some s' \<and> (vz_helper s', vz_target s', vz_pause s') \<noteq> (vz_helper s, vz_target s, vz_pause s)"
    show "vz_lock s = Some Sim_Thread"
      using a [THEN conjunct1] by (cases rule: sim_step_cases) (use a l in \<open>auto simp: lock_defs\<close>) }
  { assume a: "view_step n e s = Some s' \<and> (vz_helper s', vz_target s', vz_pause s') \<noteq> (vz_helper s, vz_target s, vz_pause s)"
    show "vz_lock s = Some View_Thread"
      using a [THEN conjunct1] by (cases rule: view_step_cases)
        (use a l in \<open>auto simp: lock_defs set_show_transmissions_mode_def\<close>) }
qed

section \<open>Closing the window\<close>

text \<open>The signal to go on is not lost once the thread has been told to end.\<close>

definition quit_seen :: "'w viz \<Rightarrow> bool" where
  "quit_seen s \<longleftrightarrow> (vz_quit s \<and> vz_sim s = S_Wait \<longrightarrow> vz_go s) \<and> (vz_view s = V_Join \<longrightarrow> vz_quit s)"

lemma timeout_end_go: "vz_go s \<Longrightarrow> vz_go (timeout_end ps s)"
  by (simp add: timeout_end_def Let_def)

lemma reach_quit: "viz_reach sim n w s \<Longrightarrow> quit_seen s"
proof (induction rule: viz_reach_induct)
  case start
  show ?case by (simp add: start_viz_def quit_seen_def)
next
  case (sim s s')
  from sim(2) show ?case by (cases rule: sim_step_cases) (use sim(3) in \<open>auto simp: quit_seen_def\<close>)
next
  case (view s e s')
  from view(2) show ?case
  proof (cases rule: view_step_cases)
    case (select x)
    then show ?thesis using view(3) select_node_view [of x s] by (auto simp: quit_seen_def looping_def)
  qed (use view(3) timeout_end_go in \<open>auto simp: quit_seen_def looping_def set_show_transmissions_mode_def\<close>)
qed

fun sim_steps :: "'w simulator \<Rightarrow> nat \<Rightarrow> 'w viz \<Rightarrow> 'w viz option" where
  "sim_steps sim 0 s = Some s"
| "sim_steps sim (Suc k) s = (case sim_step sim s of None \<Rightarrow> None | Some s' \<Rightarrow> sim_steps sim k s')"

primrec sim_left :: "sim_pc \<Rightarrow> nat" where
  "sim_left S_Test = 1"
| "sim_left S_Wait = 3"
| "sim_left S_Clear = 2"
| "sim_left S_Quit = 1"
| "sim_left S_Lock = 5"
| "sim_left S_Run = 4"
| "sim_left S_Post = 3"
| "sim_left S_Release = 2"
| "sim_left S_End = 0"

lemma join_step:
  assumes "lock_ok s" "quit_seen s" "vz_view s = V_Join" "vz_sim s \<noteq> S_End"
  shows "\<exists>s'. sim_step sim s = Some s' \<and> lock_ok s' \<and> quit_seen s' \<and> vz_view s' = V_Join \<and> Suc (sim_left (vz_sim s')) = sim_left (vz_sim s)"
proof -
  have "\<exists>s'. sim_step sim s = Some s'"
  proof (cases "vz_sim s")
    case S_Lock
    have "vz_lock s \<noteq> Some View_Thread" "vz_lock s \<noteq> Some Sim_Thread" using assms(1,3) S_Lock by (auto simp: lock_defs)
    then have "vz_lock s = None" by (cases "vz_lock s"; cases "the (vz_lock s)") auto
    then show ?thesis using S_Lock by (simp add: sim_step_def)
  qed (use assms in \<open>auto simp: sim_step_def quit_seen_def Let_def\<close>)
  then obtain s' where s': "sim_step sim s = Some s'" ..
  moreover have "lock_ok s'" using sim_step_lock [OF assms(1) s'] .
  moreover from s' have "quit_seen s' \<and> vz_view s' = V_Join \<and> Suc (sim_left (vz_sim s')) = sim_left (vz_sim s)"
    by (cases rule: sim_step_cases) (use assms(2,3) in \<open>auto simp: quit_seen_def\<close>)
  ultimately show ?thesis by blast
qed

lemma join_steps:
  "lock_ok s \<Longrightarrow> quit_seen s \<Longrightarrow> vz_view s = V_Join \<Longrightarrow>
   \<exists>s'. sim_steps sim (sim_left (vz_sim s)) s = Some s' \<and> vz_sim s' = S_End \<and> vz_view s' = V_Join"
proof (induction "sim_left (vz_sim s)" arbitrary: s)
  case 0
  then have "vz_sim s = S_End" by (cases "vz_sim s") simp_all
  then show ?case using 0 by simp
next
  case (Suc k)
  then have "vz_sim s \<noteq> S_End" by (cases "vz_sim s") simp_all
  then obtain s' where s': "sim_step sim s = Some s'" "lock_ok s'" "quit_seen s'" "vz_view s' = V_Join"
    "Suc (sim_left (vz_sim s')) = sim_left (vz_sim s)"
    using join_step [OF Suc.prems, of sim] by blast
  have k: "k = sim_left (vz_sim s')" using Suc.hyps(2) s'(5) by simp
  show ?case unfolding Suc.hyps(2) [symmetric] using Suc.hyps(1) [OF k s'(2-4)] s'(1) k by simp
qed

text \<open>
  C33: Closing the window ends the program. From every state in which the view waits for the simulation
  thread, wherever that thread is, only that thread can move, and after at most five of its steps it
  has ended, so that the join returns.
\<close>

theorem join_returns:
  assumes "viz_reach sim n w s" and "vz_view s = V_Join"
  shows "\<exists>k s'. k \<le> 5 \<and> sim_steps sim k s = Some s' \<and> view_step n Go_On s' = Some (s'\<lparr>vz_closed := True, vz_view := V_Loop\<rparr>) \<and>
    (vz_sim s \<noteq> S_End \<longrightarrow> (\<forall>e. view_step n e s = None))"
proof -
  obtain s' where s': "sim_steps sim (sim_left (vz_sim s)) s = Some s'" "vz_sim s' = S_End" "vz_view s' = V_Join"
    using join_steps [OF reach_lock [OF assms(1)] reach_quit [OF assms(1)] assms(2)] by blast
  have "sim_left (vz_sim s) \<le> 5" by (cases "vz_sim s") simp_all
  moreover have "view_step n e s = None" if "vz_sim s \<noteq> S_End" for e
    using that assms(2) by (cases e) (simp_all add: view_step_def looping_def)
  moreover have "view_step n Go_On s' = Some (s'\<lparr>vz_closed := True, vz_view := V_Loop\<rparr>)" using s'(2,3) by (simp add: view_step_def)
  ultimately show ?thesis using s'(1) by blast
qed


section \<open>The pause messages\<close>

definition in_hand :: "'w viz \<Rightarrow> string list" where
  "in_hand s = (case vz_view s of V_Set ps \<Rightarrow> ps | V_Show ps \<Rightarrow> ps | _ \<Rightarrow> [])"

definition messages_ok :: "'w viz \<Rightarrow> bool" where
  "messages_ok s \<longleftrightarrow> mset (vz_said s) = mset (vz_shown s) + mset (in_hand s) + mset (vz_lost s) + mset (vz_pause s) \<and>
     (vz_lost s = [] \<longrightarrow> vz_said s = vz_shown s @ in_hand s @ vz_pause s)"

lemma tick_messages:
  "vz_said (tick ok s) = vz_said s" "vz_shown (tick ok s) = vz_shown s" "vz_pause (tick ok s) = []"
  "vz_lost (tick ok s) = (if ok then vz_lost s else vz_lost s @ vz_pause s)"
  by (simp_all add: tick_def Let_def)

lemma tick_end_messages:
  "vz_said (timeout_end ps s) = vz_said s" "vz_shown (timeout_end ps s) = vz_shown s @ ps" "vz_lost (timeout_end ps s) = vz_lost s"
  by (simp_all add: timeout_end_def Let_def)

lemma other_messages:
  "vz_said (quit s) = vz_said s" "vz_shown (quit s) = vz_shown s" "vz_lost (quit s) = vz_lost s"
  "vz_said (do_job j s) = vz_said s" "vz_shown (do_job j s) = vz_shown s" "vz_lost (do_job j s) = vz_lost s"
  "vz_said (select_node x s) = vz_said s" "vz_shown (select_node x s) = vz_shown s" "vz_lost (select_node x s) = vz_lost s"
  by (simp_all add: quit_def Let_def do_job_def periodic_update_def select_node_def split: view_job.splits)

lemma reach_messages: "viz_reach sim n w s \<Longrightarrow> messages_ok s"
proof (induction rule: viz_reach_induct)
  case start
  show ?case by (simp add: start_viz_def messages_ok_def in_hand_def)
next
  case (sim s s')
  from sim(2) show ?case by (cases rule: sim_step_cases) (use sim(3) in \<open>auto simp: messages_ok_def in_hand_def\<close>)
next
  case (view s e s')
  from view(2) show ?case
  proof (cases rule: view_step_cases)
    case (select x)
    then show ?thesis using view(3) select_node_view [of x s]
      by (auto simp: messages_ok_def in_hand_def looping_def other_messages)
  qed (use view(3) in \<open>auto simp: messages_ok_def in_hand_def looping_def set_show_transmissions_mode_def
         tick_messages tick_end_messages other_messages\<close>)
qed

section \<open>The nodes of interest\<close>

definition interest_ok :: "nat \<Rightarrow> 'w viz \<Rightarrow> bool" where
  "interest_ok n s \<longleftrightarrow>
     (let want = wanted_interest n (vz_mode s) (vz_selected s)
      in case vz_view s of
           V_Lock (Set_Interest ns) \<Rightarrow> ns = want
         | V_Hold (Set_Interest ns) \<Rightarrow> ns = want
         | _ \<Rightarrow> he_interest (vz_helper s) = want)"

lemma run_until_interest [simp]: "he_interest (run_until sim t h) = he_interest h"
  by (simp add: run_until_def Let_def split: prod.splits)

lemma other_mode:
  "vz_mode (quit s) = vz_mode s" "vz_selected (quit s) = vz_selected s" "vz_mode (tick ok s) = vz_mode s" "vz_selected (tick ok s) = vz_selected s"
  "vz_mode (timeout_end ps s) = vz_mode s" "vz_selected (timeout_end ps s) = vz_selected s"
  by (simp_all add: quit_def tick_def timeout_end_def Let_def)

lemma reach_interest: "viz_reach sim n w s \<Longrightarrow> interest_ok n s"
proof (induction rule: viz_reach_induct)
  case start
  show ?case by (simp add: start_viz_def interest_ok_def)
next
  case (sim s s')
  from sim(2) show ?case by (cases rule: sim_step_cases)
    (use sim(3) in \<open>auto simp: interest_ok_def Let_def split: view_pc.splits view_job.splits\<close>)
next
  case (view s e s')
  from view(2) show ?case
  proof (cases rule: view_step_cases)
    case (select x)
    then show ?thesis using view(3)
      by (auto simp: interest_ok_def looping_def select_node_def wanted_interest_def split: option.splits show_mode.splits)
  next
    case (acquire j)
    then show ?thesis using view(3) by (cases j) (auto simp: interest_ok_def)
  next
    case (job j)
    then show ?thesis using view(3) by (cases j) (auto simp: interest_ok_def do_job_def periodic_update_def)
  qed (use view(3) in \<open>auto simp: interest_ok_def looping_def set_show_transmissions_mode_def other_mode\<close>)
qed

section \<open>Simulated time\<close>

definition time_ok :: "'w viz \<Rightarrow> bool" where
  "time_ok s \<longleftrightarrow> 0 < vz_period s \<and> he_now (vz_helper s) \<le> vz_target s"

lemma other_period:
  "vz_period (quit s) = vz_period s" "vz_period (tick ok s) = vz_period s" "vz_period (timeout_end ps s) = vz_period s"
  "vz_period (do_job j s) = vz_period s" "vz_period (select_node x s) = vz_period s" "he_now (vz_helper (do_job j s)) = he_now (vz_helper s)"
  by (simp_all add: quit_def tick_def timeout_end_def do_job_def periodic_update_def select_node_def Let_def split: view_job.splits)

lemma tick_target: "vz_target (tick ok s) = (if ok then he_now (vz_helper s) + vz_period s else vz_target s)"
  by (simp add: tick_def Let_def)

lemma run_until_now:
  assumes "\<And>t ns w. fst (snd (sim t ns w)) \<le> t" and "he_now h \<le> t"
  shows "he_now (run_until sim t h) \<le> t"
  using assms(1) [of t "he_interest h" "he_world h"] assms(2) by (auto simp: run_until_def Let_def split: prod.splits)

lemma reach_time:
  assumes "\<And>t ns w. fst (snd (sim t ns w)) \<le> t" and "viz_reach sim n w s"
  shows "time_ok s"
  using assms(2)
proof (induction rule: viz_reach_induct)
  case start
  show ?case by (simp add: start_viz_def time_ok_def sample_period_def)
next
  case (sim s s')
  from sim(2) show ?case by (cases rule: sim_step_cases)
    (use sim(3) run_until_now [of sim, OF assms(1)] in \<open>auto simp: time_ok_def\<close>)
next
  case (view s e s')
  from view(2) show ?case by (cases rule: view_step_cases)
    (use view(3) in \<open>auto simp: time_ok_def other_period tick_target sample_period_def set_show_transmissions_mode_def\<close>)
qed


section \<open>The samples\<close>

text \<open>Schedules: which thread moves, and with which callback.\<close>

datatype viz_move = By_Sim | By_View view_event

fun run_moves :: "'w simulator \<Rightarrow> nat \<Rightarrow> viz_move list \<Rightarrow> 'w viz \<Rightarrow> 'w viz option" where
  "run_moves sim n [] s = Some s"
| "run_moves sim n (m # ms) s =
     (case (case m of By_Sim \<Rightarrow> sim_step sim s | By_View e \<Rightarrow> view_step n e s) of
        None \<Rightarrow> None | Some s' \<Rightarrow> run_moves sim n ms s')"

lemma run_moves_reach: "viz_reach sim n w s \<Longrightarrow> run_moves sim n ms s = Some s' \<Longrightarrow> viz_reach sim n w s'"
proof (induction ms arbitrary: s)
  case Nil
  then show ?case by simp
next
  case (Cons m ms)
  show ?case
  proof (cases m)
    case By_Sim
    then obtain u where "sim_step sim s = Some u" "run_moves sim n ms u = Some s'" using Cons.prems(2) by (auto split: option.splits)
    then show ?thesis using Cons.IH Cons.prems(1) by (blast intro: reach_step by_sim)
  next
    case (By_View e)
    then obtain u where "view_step n e s = Some u" "run_moves sim n ms u = Some s'" using Cons.prems(2) by (auto split: option.splits)
    then show ?thesis using Cons.IH Cons.prems(1) by (blast intro: reach_step by_view)
  qed
qed

text \<open>One call of the timer that finds the lock free.\<close>

definition one_tick :: "nat \<Rightarrow> viz_move list" where
  "one_tick i = map By_View [Fire i, Spin, Tick True, Go_On, Go_On]"

definition hasty :: "viz_move list" where
  "hasty = By_View Toggle # one_tick 2 @ replicate 5 By_Sim @ By_View (Fire 2) # replicate 3 By_Sim @
     map By_View [Spin, Tick True, Go_On, Go_On] @ replicate 6 By_Sim @ By_View Idle # replicate 2 By_Sim @
     map By_View [Go_On, Go_On, Idle, Go_On, Go_On]"

lemmas schedule_simps = one_tick_def start_viz_def speed_changed_def start_update_timer_def remove_timer_def source_remove_def
  Let_def view_step_def looping_def set_play_def on_play_button_toggled_def numeral_eq_Suc tick_def timeout_end_def sim_step_def
  do_job_def periodic_update_def

text \<open>
  C35: A run that is slower than the timer loses its samples. The next call of the timer takes the lock
  as soon as the run is over, before \<open>update_model\<close> has read the samples, and starts the next run,
  which clears them. This happens with every simulator that pauses nowhere: after the schedule
  above the samples of the second run have been recorded twice and those of the first never.
\<close>

theorem samples_lost:
  assumes "\<And>t ns w. snd (snd (snd (snd (sim t ns w)))) = []"
  shows "\<exists>s. viz_reach sim n w s \<and> length (vz_runs s) = 2 \<and> vz_recorded s = [vz_runs s ! 1, vz_runs s ! 1]"
proof -
  have quiet: "he_pauses (run_until sim t h) = []" for t h
    using assms [of t "he_interest h" "he_world h"] by (auto simp: run_until_def Let_def split: prod.splits)
  have "\<exists>s. run_moves sim n hasty (start_viz n w) = Some s \<and> length (vz_runs s) = 2 \<and> vz_recorded s = [vz_runs s ! 1, vz_runs s ! 1]"
    by (simp add: hasty_def schedule_simps quiet)
  then obtain s where s: "run_moves sim n hasty (start_viz n w) = Some s"
    "length (vz_runs s) = 2" "vz_recorded s = [vz_runs s ! 1, vz_runs s ! 1]" by blast
  show ?thesis using run_moves_reach [OF reach_start s(1)] s(2,3) by blast
qed

definition demo_sim :: "nat simulator" where
  "demo_sim t ns k = (Suc k, t, [\<lparr>tm_from = 0, tm_to = 1, tm_bytes = k\<rparr>], [], [])"

theorem samples_lost_witness:
  "\<exists>s. viz_reach demo_sim 2 0 s \<and> length (vz_runs s) = 2 \<and> vz_recorded s = [vz_runs s ! 1, vz_runs s ! 1]"
  by (rule samples_lost) (simp add: demo_sim_def)

text \<open>
  Without haste every sample is recorded exactly once: as long as a timer callback only begins when
  the simulation thread waits for its signal, no other timer callback is under way and no call of
  \<open>update_model\<close> is left.
\<close>

definition calm :: "view_event \<Rightarrow> 'w viz \<Rightarrow> bool" where
  "calm e s = (case e of Fire i \<Rightarrow> vz_sim s = S_Wait \<and> \<not> vz_go s \<and> vz_idle s = 0 \<and> vz_spins s = [] | _ \<Rightarrow> True)"

inductive calm_reach :: "'w simulator \<Rightarrow> nat \<Rightarrow> 'w \<Rightarrow> 'w viz \<Rightarrow> bool" for sim n w where
  calm_start: "calm_reach sim n w (start_viz n w)"
| calm_sim: "calm_reach sim n w s \<Longrightarrow> sim_step sim s = Some s' \<Longrightarrow> calm_reach sim n w s'"
| calm_view: "calm_reach sim n w s \<Longrightarrow> calm e s \<Longrightarrow> view_step n e s = Some s' \<Longrightarrow> calm_reach sim n w s'"

definition pending :: "'w viz \<Rightarrow> nat" where
  "pending s = vz_idle s + (if vz_sim s = S_Post then 1 else 0) +
     (if vz_view s = V_Lock Update_Model \<or> vz_view s = V_Hold Update_Model then 1 else 0)"

definition resting :: "'w viz \<Rightarrow> bool" where
  "resting s \<longleftrightarrow> (vz_sim s = S_Wait \<and> \<not> vz_go s) \<or>
     (vz_quit s \<and> (vz_sim s = S_Wait \<or> vz_sim s = S_Clear \<or> vz_sim s = S_Quit \<or> vz_sim s = S_End))"

definition samples_ok :: "'w viz \<Rightarrow> bool" where
  "samples_ok s \<longleftrightarrow>
     (vz_spins s \<noteq> [] \<longrightarrow> pending s = 0 \<and> resting s) \<and> tl (vz_spins s) = [] \<and>
     ((vz_go s \<or> vz_sim s = S_Clear \<or> vz_sim s = S_Quit) \<and> \<not> vz_quit s \<longrightarrow> pending s = 0) \<and>
     (vz_sim s = S_Lock \<or> vz_sim s = S_Run \<longrightarrow> pending s = 0) \<and>
     (vz_go s \<and> \<not> vz_quit s \<longrightarrow> vz_sim s = S_Wait \<or> vz_sim s = S_Clear) \<and>
     (vz_view s = V_Tick \<or> (\<exists>ps. vz_view s = V_Set ps) \<or> (\<exists>ps. vz_view s = V_Show ps) \<longrightarrow> vz_spins s \<noteq> []) \<and>
     (pending s = 0 \<and> vz_runs s = vz_recorded s \<or> pending s = 1 \<and> vz_runs s = vz_recorded s @ [he_tx (vz_helper s)])"

lemmas samples_defs = samples_ok_def pending_def resting_def looping_def

lemma sim_step_samples: "samples_ok s \<Longrightarrow> sim_step sim s = Some s' \<Longrightarrow> samples_ok s'"
  by (erule sim_step_cases) (auto simp: samples_defs split: if_splits)

lemma tick_samples [simp]:
  "vz_idle (tick ok s) = vz_idle s" "vz_runs (tick ok s) = vz_runs s" "vz_recorded (tick ok s) = vz_recorded s"
  "vz_spins (tick ok s) = (if ok then vz_spins s else tl (vz_spins s))"
  by (simp_all add: tick_def Let_def)

lemma tick_end_samples [simp]:
  "vz_idle (timeout_end ps s) = vz_idle s" "vz_runs (timeout_end ps s) = vz_runs s" "vz_recorded (timeout_end ps s) = vz_recorded s"
  "vz_spins (timeout_end ps s) = tl (vz_spins s)"
  by (simp_all add: timeout_end_def Let_def)

lemma quit_samples [simp]:
  "vz_idle (quit s) = vz_idle s" "vz_runs (quit s) = vz_runs s" "vz_recorded (quit s) = vz_recorded s" "vz_spins (quit s) = vz_spins s"
  by (simp_all add: quit_def Let_def)

lemma select_samples [simp]:
  "vz_idle (select_node x s) = vz_idle s" "vz_runs (select_node x s) = vz_runs s" "vz_recorded (select_node x s) = vz_recorded s"
  "vz_spins (select_node x s) = vz_spins s" "vz_view (select_node x s) \<noteq> V_Lock Update_Model \<or> vz_view s = V_Lock Update_Model"
  by (simp_all add: select_node_def)

text \<open>Most steps keep all that the samples depend on.\<close>

lemma samples_frame:
  assumes "samples_ok s" "pending s' = pending s" "vz_sim s' = vz_sim s" "vz_go s' = vz_go s" "vz_quit s' = vz_quit s"
    "vz_spins s' = vz_spins s" "vz_runs s' = vz_runs s" "vz_recorded s' = vz_recorded s" "vz_helper s' = vz_helper s"
    "(vz_view s' = V_Tick \<or> (\<exists>ps. vz_view s' = V_Set ps) \<or> (\<exists>ps. vz_view s' = V_Show ps)) \<longrightarrow> vz_spins s \<noteq> []"
  shows "samples_ok s'"
  using assms by (simp add: samples_ok_def resting_def)

lemma view_step_samples:
  assumes "samples_ok s" "calm e s" "view_step n e s = Some s'"
  shows "samples_ok s'"
  using assms(3)
proof (cases rule: view_step_cases)
  case (fire i)
  then show ?thesis using assms(1,2) by (auto simp: samples_defs calm_def)
next
  case (tick ok)
  then have s: "vz_spins s \<noteq> []" "pending s = 0" "resting s" "vz_runs s = vz_recorded s" "vz_go s \<and> \<not> vz_quit s \<longrightarrow> vz_sim s = S_Wait \<or> vz_sim s = S_Clear"
    "tl (vz_spins s) = []"
    using assms(1) unfolding samples_ok_def by auto
  have "pending s' = 0" "resting s'" "vz_runs s' = vz_recorded s'" "vz_go s' \<and> \<not> vz_quit s' \<longrightarrow> vz_sim s' = S_Wait \<or> vz_sim s' = S_Clear"
    using s tick by (simp_all add: pending_def resting_def)
  moreover have "vz_view s' = V_Loop \<or> (\<exists>ps. vz_view s' = V_Set ps) \<and> vz_spins s' \<noteq> []" "tl (vz_spins s') = []" using s(1,6) tick by simp_all
  ultimately show ?thesis by (auto simp: samples_ok_def resting_def)
next
  case spin
  then show ?thesis by (intro samples_frame [OF assms(1)]) (simp_all add: pending_def)
next
  case idle
  then show ?thesis by (intro samples_frame [OF assms(1)]) (simp_all add: pending_def looping_def)
next
  case toggle
  then show ?thesis by (intro samples_frame [OF assms(1)]) (simp_all add: pending_def looping_def)
next
  case (speed v)
  then show ?thesis by (intro samples_frame [OF assms(1)]) (simp_all add: pending_def looping_def)
next
  case (smooth k)
  then show ?thesis by (intro samples_frame [OF assms(1)]) (simp_all add: pending_def looping_def)
next
  case (mode m)
  then show ?thesis by (intro samples_frame [OF assms(1)]) (simp_all add: pending_def looping_def set_show_transmissions_mode_def)
next
  case (select x)
  then have "pending s' = pending s" "\<not> (vz_view s' = V_Tick \<or> (\<exists>ps. vz_view s' = V_Set ps) \<or> (\<exists>ps. vz_view s' = V_Show ps))"
    using select_node_view [of x s] by (auto simp: pending_def looping_def select_node_def)
  then show ?thesis using select by (intro samples_frame [OF assms(1)]) simp_all
next
  case peek
  then show ?thesis by (intro samples_frame [OF assms(1)]) (simp_all add: pending_def looping_def)
next
  case close
  then have "pending s' = pending s" by (simp add: pending_def looping_def)
  moreover have "resting s \<Longrightarrow> resting s'" using close by (auto simp: resting_def)
  ultimately show ?thesis using assms(1) close by (simp add: samples_ok_def)
next
  case (acquire j)
  then show ?thesis by (intro samples_frame [OF assms(1)]) (simp_all add: pending_def)
next
  case (job j)
  show ?thesis
  proof (cases j)
    case Update_Model
    have s': "pending s' = pending s - 1" "vz_sim s' = vz_sim s" "vz_go s' = vz_go s" "vz_quit s' = vz_quit s" "vz_spins s' = vz_spins s"
      "vz_runs s' = vz_runs s" "vz_recorded s' = vz_recorded s @ [he_tx (vz_helper s)]" "vz_view s' = V_Loop"
      using job Update_Model by (simp_all add: pending_def do_job_def periodic_update_def)
    have "pending s \<noteq> 0" using job Update_Model by (simp add: pending_def)
    then have "pending s = 1" "vz_runs s = vz_recorded s @ [he_tx (vz_helper s)]" "vz_spins s = []"
      using assms(1) unfolding samples_ok_def by auto
    then show ?thesis using assms(1) s' by (simp add: samples_ok_def)
  next
    case (Set_Interest ns)
    have "pending s' = pending s" "resting s' = resting s" using job Set_Interest by (simp_all add: pending_def resting_def do_job_def)
    then show ?thesis using assms(1) job Set_Interest by (simp add: samples_ok_def do_job_def)
  next
    case Read_Model
    then show ?thesis using job by (intro samples_frame [OF assms(1)]) (simp_all add: pending_def do_job_def)
  qed
next
  case (set ps)
  then have "vz_spins s \<noteq> []" using assms(1) by (simp add: samples_ok_def)
  with set show ?thesis by (intro samples_frame [OF assms(1)]) (simp_all add: pending_def)
next
  case (dialog ps)
  then have s: "pending s = 0" "resting s" "vz_runs s = vz_recorded s" "tl (vz_spins s) = []"
    using assms(1) unfolding samples_ok_def by auto
  have "pending s' = 0" "vz_runs s' = vz_recorded s'" "vz_spins s' = []" "vz_view s' = V_Loop" "vz_sim s' = vz_sim s" "vz_quit s' = vz_quit s"
    using s dialog by (simp_all add: pending_def)
  then show ?thesis using s(2) by (auto simp: samples_ok_def resting_def)
next
  case join
  then show ?thesis by (intro samples_frame [OF assms(1)]) (simp_all add: pending_def)
qed

lemma calm_samples: "calm_reach sim n w s \<Longrightarrow> samples_ok s"
proof (induction rule: calm_reach.induct)
  case calm_start
  show ?case by (simp add: start_viz_def samples_defs)
next
  case (calm_sim s s')
  then show ?case using sim_step_samples by blast
next
  case (calm_view s e s')
  then show ?case using view_step_samples by blast
qed

text \<open>
  C31: Without haste every sample is recorded once and in order; at most the last one is still to come.
\<close>

theorem samples_once:
  assumes "calm_reach sim n w s"
  shows "vz_runs s = vz_recorded s \<or> vz_runs s = vz_recorded s @ [he_tx (vz_helper s)]"
  using calm_samples [OF assms] by (auto simp: samples_ok_def)

fun run_calm :: "'w simulator \<Rightarrow> nat \<Rightarrow> viz_move list \<Rightarrow> 'w viz \<Rightarrow> 'w viz option" where
  "run_calm sim n [] s = Some s"
| "run_calm sim n (By_Sim # ms) s = (case sim_step sim s of None \<Rightarrow> None | Some s' \<Rightarrow> run_calm sim n ms s')"
| "run_calm sim n (By_View e # ms) s =
     (if calm e s then (case view_step n e s of None \<Rightarrow> None | Some s' \<Rightarrow> run_calm sim n ms s') else None)"

lemma run_calm_reach: "calm_reach sim n w s \<Longrightarrow> run_calm sim n ms s = Some s' \<Longrightarrow> calm_reach sim n w s'"
  by (induction sim n ms s rule: run_calm.induct)
    (auto split: option.splits if_splits intro: calm_sim calm_view)

definition steady :: "viz_move list" where
  "steady = By_Sim # By_View Toggle # one_tick 2 @ replicate 8 By_Sim @ map By_View [Idle, Go_On, Go_On]"

theorem samples_once_witness:
  "\<exists>s. calm_reach demo_sim 2 0 s \<and> length (vz_runs s) = 1 \<and> length (vz_recorded s) = 1"
proof -
  define s where "s = the (run_calm demo_sim 2 steady (start_viz 2 0))"
  have "run_calm demo_sim 2 steady (start_viz 2 0) = Some s" unfolding s_def by code_simp
  then have "calm_reach demo_sim 2 0 s" by (rule run_calm_reach [OF calm_start])
  moreover have "length (vz_runs s) = 1" "vz_recorded s \<noteq> []" "vz_recorded s = vz_runs s" unfolding s_def by code_simp+
  ultimately show ?thesis using samples_once [of demo_sim 2 0 s] by auto
qed

section \<open>What the dialogs show\<close>

text \<open>
  C34: No pause message is lost, shown twice or shown out of order: what the simulator has said is what
  the dialogs have shown, what the callback under way has taken, and what waits. Only a callback
  whose update of the view fails keeps the messages it has taken from being shown.
\<close>

theorem messages_delivered:
  assumes "viz_reach sim n w s"
  shows "mset (vz_said s) = mset (vz_shown s) + mset (in_hand s) + mset (vz_lost s) + mset (vz_pause s) \<and>
    (vz_lost s = [] \<longrightarrow> vz_said s = vz_shown s @ in_hand s @ vz_pause s)"
  using reach_messages [OF assms] by (simp add: messages_ok_def)

text \<open>A simulator that says its step.\<close>

definition talking_sim :: "nat simulator" where
  "talking_sim t ns k = (Suc k, t, [], [], [show_nat k])"

definition talk :: "viz_move list" where
  "talk = By_View Toggle # one_tick 2 @ replicate 8 By_Sim @ one_tick 2"

theorem messages_delivered_witness:
  "\<exists>s. viz_reach talking_sim 2 0 s \<and> vz_said s = [''0''] \<and> vz_shown s = [''0''] \<and> \<not> vz_play s"
proof -
  define s where "s = the (run_moves talking_sim 2 talk (start_viz 2 0))"
  have "run_moves talking_sim 2 talk (start_viz 2 0) = Some s" unfolding s_def by code_simp
  then have r: "viz_reach talking_sim 2 0 s" by (rule run_moves_reach [OF reach_start])
  have "vz_said s = [''0'']" "vz_lost s = []" "in_hand s = []" "vz_pause s = []" "\<not> vz_play s" unfolding s_def by code_simp+
  then show ?thesis using messages_delivered [OF r] r by auto
qed

section \<open>What is watched, and simulated time\<close>

text \<open>
  C39: Outside a change of it the helper watches the nodes that the mode of the view and the selection
  ask for; the simulated time never passes the target that the view has set, and a call of the timer
  sets the target one sample period after the time it shows.
\<close>

theorem view_leads:
  assumes "viz_reach sim n w s" and "\<And>t ns w. fst (snd (sim t ns w)) \<le> t"
  shows "(vz_view s = V_Loop \<longrightarrow> he_interest (vz_helper s) = wanted_interest n (vz_mode s) (vz_selected s)) \<and>
    he_now (vz_helper s) \<le> vz_target s \<and>
    (\<forall>s'. view_step n (Tick True) s = Some s' \<longrightarrow> vz_target s' = he_now (vz_helper s') + vz_period s' \<and> 0 < vz_period s')"
  using reach_interest [OF assms(1)] reach_time [OF assms(2,1)]
  by (auto simp: interest_ok_def time_ok_def Let_def view_step_def tick_target other_period split: if_splits)

theorem view_leads_witness:
  "\<exists>s. viz_reach demo_sim 2 0 s \<and> vz_mode s = Show_Selected \<and> he_interest (vz_helper s) = [1] \<and> he_now (vz_helper s) = 1 / 10"
proof -
  let ?ms = "steady @ map By_View [Select (Some 1), Mode Show_Selected, Go_On, Go_On]"
  define s where "s = the (run_moves demo_sim 2 ?ms (start_viz 2 0))"
  have "run_moves demo_sim 2 ?ms (start_viz 2 0) = Some s" unfolding s_def by code_simp
  then have r: "viz_reach demo_sim 2 0 s" by (rule run_moves_reach [OF reach_start])
  have "vz_mode s = Show_Selected" "vz_selected s = Some 1" "vz_view s = V_Loop" "he_now (vz_helper s) = 1 / 10" unfolding s_def by code_simp+
  then show ?thesis using view_leads [OF r] r by (auto simp: demo_sim_def wanted_interest_def)
qed

section \<open>The timers\<close>

text \<open>
  The identifier of the timer is not reset when the animation is paused. Pausing and changing the
  speed while a timer callback waits for the simulator starts a timer that the callback then forgets,
  so that playing again runs two of them: the view is updated, and the simulation told to go on,
  twice as often. Before that a source was removed that was no longer there.
\<close>

definition restless :: "viz_move list" where
  "restless = By_View Toggle # one_tick 2 @ replicate 5 By_Sim @ map By_View [Fire 2, Toggle, Speed 2] @ replicate 3 By_Sim @
     map By_View [Spin, Tick True, Go_On, Go_On, Toggle]"

theorem timers_doubled:
  "\<exists>s. viz_reach demo_sim n 0 s \<and> looping s \<and> vz_spins s = [] \<and> vz_play s \<and> length (vz_timers s) = 2 \<and> vz_bad_removals s = 1"
proof -
  have "\<exists>s. run_moves demo_sim n restless (start_viz n 0) = Some s \<and> looping s \<and> vz_spins s = [] \<and> vz_play s \<and>
      length (vz_timers s) = 2 \<and> vz_bad_removals s = 1"
    by (simp add: restless_def schedule_simps demo_sim_def run_until_def sample_period_def)
  then obtain s where s: "run_moves demo_sim n restless (start_viz n 0) = Some s" "looping s" "vz_spins s = []" "vz_play s"
    "length (vz_timers s) = 2" "vz_bad_removals s = 1" by blast
  show ?thesis using run_moves_reach [OF reach_start s(1)] s(2-6) by blast
qed

text \<open>Witnesses for the lock and for closing: the window is closed while the simulator runs.\<close>

definition interrupted :: "viz_move list" where
  "interrupted = By_View Toggle # one_tick 2 @ replicate 5 By_Sim @ [By_View Close]"

lemma interrupted_state:
  "\<exists>s. run_moves demo_sim 2 interrupted (start_viz 2 0) = Some s \<and> vz_view s = V_Join \<and> vz_sim s = S_Run"
  by (simp add: interrupted_def schedule_simps quit_def)

theorem model_guarded_witness: "\<exists>s. viz_reach demo_sim 2 0 s \<and> sim_inside s \<and> \<not> view_inside s"
proof -
  obtain s where s: "run_moves demo_sim 2 interrupted (start_viz 2 0) = Some s" "vz_sim s = S_Run" using interrupted_state by blast
  have r: "viz_reach demo_sim 2 0 s" by (rule run_moves_reach [OF reach_start s(1)])
  moreover have "sim_inside s" using s(2) by (simp add: sim_inside_def)
  ultimately show ?thesis using model_guarded [OF r] by blast
qed

theorem join_returns_witness:
  "\<exists>s k s'. viz_reach demo_sim 2 0 s \<and> vz_view s = V_Join \<and> vz_sim s = S_Run \<and> sim_steps demo_sim k s = Some s' \<and> view_step 2 Go_On s' \<noteq> None"
proof -
  obtain s where s: "run_moves demo_sim 2 interrupted (start_viz 2 0) = Some s" "vz_view s = V_Join" "vz_sim s = S_Run"
    using interrupted_state by blast
  have r: "viz_reach demo_sim 2 0 s" by (rule run_moves_reach [OF reach_start s(1)])
  obtain k s' where "sim_steps demo_sim k s = Some s'" "view_step 2 Go_On s' = Some (s'\<lparr>vz_closed := True, vz_view := V_Loop\<rparr>)"
    using join_returns [OF r s(2)] by blast
  then have "sim_steps demo_sim k s = Some s' \<and> view_step 2 Go_On s' \<noteq> None" by simp
  with r s(2,3) show ?thesis by blast
qed

end
