(* ===== verification/Svg_Item.thy ===== *)
theory Svg_Item
  imports Complex_Main Py_Prelude
begin

text \<open>
  The canvas item for a vector image, \<^verbatim>\<open>src/src/visualizer/visualizer/svgitem.py\<close>: its size from the
  file or from the sizes that were set, the properties, the hit test and the cache of files.
\<close>

record svg_item =
  sv_x :: rat
  sv_y :: rat
  sv_sx :: rat
  sv_sy :: rat
  sv_handle :: "rat \<times> rat"          \<comment> \<open>the size of the image in the file\<close>
  sv_width :: rat
  sv_height :: rat
  sv_custom_width :: "rat option"
  sv_custom_height :: "rat option"

definition new_svg_item :: "rat \<Rightarrow> rat \<Rightarrow> rat \<times> rat \<Rightarrow> svg_item" where
  "new_svg_item x y h =
     \<lparr>sv_x = x, sv_y = y, sv_sx = 1, sv_sy = 1, sv_handle = h, sv_width = fst h, sv_height = snd h,
      sv_custom_width = None, sv_custom_height = None\<rparr>"

definition float_div :: "rat \<Rightarrow> rat \<Rightarrow> rat res" where
  "float_div a b = (if b = 0 then Inl ZeroDivisionError else Inr (a / b))"

definition size_changed :: "svg_item \<Rightarrow> svg_item res" where
  "size_changed v =
     (case (sv_custom_width v, sv_custom_height v) of
        (None, None) \<Rightarrow> Inr (v\<lparr>sv_width := fst (sv_handle v), sv_height := snd (sv_handle v), sv_sx := 1, sv_sy := 1\<rparr>)
      | (Some w, None) \<Rightarrow>
          bindE (float_div w (fst (sv_handle v))) (\<lambda>s.
          Inr (v\<lparr>sv_width := w, sv_sx := s, sv_sy := s, sv_height := snd (sv_handle v) * s\<rparr>))
      | (None, Some h) \<Rightarrow>
          bindE (float_div h (snd (sv_handle v))) (\<lambda>s.
          Inr (v\<lparr>sv_height := h, sv_sy := s, sv_sx := s, sv_width := fst (sv_handle v) * s\<rparr>))
      | (Some w, Some h) \<Rightarrow>
          bindE (float_div w (fst (sv_handle v))) (\<lambda>sx. bindE (float_div h (snd (sv_handle v))) (\<lambda>sy.
          Inr (v\<lparr>sv_width := w, sv_height := h, sv_sx := sx, sv_sy := sy\<rparr>))))"

definition set_property :: "string \<Rightarrow> rat \<Rightarrow> svg_item \<Rightarrow> svg_item res" where
  "set_property name v it =
     (if name = ''x'' then Inr (it\<lparr>sv_x := v\<rparr>)
      else if name = ''y'' then Inr (it\<lparr>sv_y := v\<rparr>)
      else if name = ''width'' then size_changed (it\<lparr>sv_custom_width := Some v\<rparr>)
      else if name = ''height'' then size_changed (it\<lparr>sv_custom_height := Some v\<rparr>)
      else Inl AttributeError)"

definition get_property :: "string \<Rightarrow> svg_item \<Rightarrow> (svg_item \<times> rat) res" where
  \<comment> \<open>reading the width sets both sizes back to those of the file\<close>
  "get_property name it =
     (if name = ''x'' then Inr (it, sv_x it)
      else if name = ''y'' then Inr (it, sv_y it)
      else if name = ''width'' then
        (let it1 = it\<lparr>sv_width := fst (sv_handle it), sv_height := snd (sv_handle it)\<rparr> in Inr (it1, sv_width it1))
      else if name = ''height'' then Inr (it, sv_height it)
      else Inl AttributeError)"

definition simple_bounds :: "svg_item \<Rightarrow> rat \<times> rat \<times> rat \<times> rat" where
  \<comment> \<open>\<open>do_simple_update\<close>\<close>
  "simple_bounds v = (sv_x v, sv_y v, sv_x v + sv_width v, sv_y v + sv_height v)"

definition is_item_at :: "rat \<Rightarrow> rat \<Rightarrow> svg_item \<Rightarrow> bool" where
  "is_item_at x y v =
     (if (x < sv_x v \<or> x > sv_x v + sv_width v) \<or> (y < sv_y v \<or> y > sv_y v + sv_height v) then False else True)"

text \<open>\<open>rsvg_handle_factory\<close>: a file is read once; \<open>load\<close> stands for the library that reads it.\<close>

definition rsvg_handle_factory :: "(string \<Rightarrow> (rat \<times> rat) res) \<Rightarrow> string \<Rightarrow> string \<Rightarrow> (string, rat \<times> rat) dict \<Rightarrow>
    (string, rat \<times> rat) dict \<times> (rat \<times> rat) res" where
  "rsvg_handle_factory load dir base cache =
     (case dict_get cache base of
        Some h \<Rightarrow> (cache, Inr h)
      | None \<Rightarrow> (case load (dir @ ''/resource/'' @ base) of
          Inl e \<Rightarrow> (cache, Inl e)
        | Inr h \<Rightarrow> (dict_set base h cache, Inr h)))"

section \<open>Sizes\<close>

definition svg_ok :: "svg_item \<Rightarrow> bool" where
  "svg_ok v \<longleftrightarrow> sv_width v = fst (sv_handle v) * sv_sx v \<and> sv_height v = snd (sv_handle v) * sv_sy v \<and>
     (\<forall>w. sv_custom_width v = Some w \<longrightarrow> sv_width v = w) \<and> (\<forall>h. sv_custom_height v = Some h \<longrightarrow> sv_height v = h) \<and>
     (sv_custom_width v = None \<or> sv_custom_height v = None \<longrightarrow> sv_sx v = sv_sy v)"

lemma new_svg_ok: "svg_ok (new_svg_item x y h)"
  by (simp add: svg_ok_def new_svg_item_def)

lemma size_changed_ok: "size_changed v = Inr v' \<Longrightarrow> svg_ok v'"
  by (cases "sv_custom_width v"; cases "sv_custom_height v")
    (auto simp: size_changed_def float_div_def bindE_Inr_conv svg_ok_def split: if_splits)

lemma svg_ok_place: "svg_ok v \<Longrightarrow> svg_ok (v\<lparr>sv_x := x\<rparr>)" "svg_ok v \<Longrightarrow> svg_ok (v\<lparr>sv_y := y\<rparr>)"
  unfolding svg_ok_def by auto

lemma set_property_ok: "svg_ok v \<Longrightarrow> set_property nm x v = Inr v' \<Longrightarrow> svg_ok v'"
  by (auto simp: set_property_def split: if_splits intro: size_changed_ok svg_ok_place)

text \<open>
  After any settings of the properties, in any order, the picture has the size that was set last
  for each side, a side that was never set follows the other one by the proportions of the file, and
  the hit test accepts exactly the points of the box that is painted.
\<close>

theorem svg_sizes:
  assumes "foldE (\<lambda>v (nm, x). set_property nm x v) (new_svg_item x0 y0 h) changes = Inr v"
  shows "svg_ok v \<and>
    (is_item_at x y v \<longleftrightarrow> sv_x v \<le> x \<and> x \<le> sv_x v + fst (sv_handle v) * sv_sx v \<and> sv_y v \<le> y \<and> y \<le> sv_y v + snd (sv_handle v) * sv_sy v)"
proof -
  have "svg_ok v" using assms new_svg_ok
  proof (rule foldE_inv)
    fix a c b
    assume "svg_ok a" "(case c of (nm, x) \<Rightarrow> set_property nm x a) = Inr b"
    then show "svg_ok b" using set_property_ok by (cases c) simp
  qed
  then show ?thesis by (auto simp: svg_ok_def is_item_at_def)
qed

theorem svg_sizes_witness:
  "\<exists>v. foldE (\<lambda>v (nm, x). set_property nm x v) (new_svg_item 0 0 (40, 20)) [(''width'', 10), (''x'', 3)] = Inr v \<and>
     svg_ok v \<and> sv_height v = 5 \<and> is_item_at 13 5 v \<and> \<not> is_item_at 13 6 v"
proof -
  let ?c = "[(''width'', 10), (''x'', 3)] :: (string \<times> rat) list"
  have "\<exists>v. foldE (\<lambda>v (nm, x). set_property nm x v) (new_svg_item 0 0 (40, 20)) ?c = Inr v \<and> sv_height v = 5 \<and>
      sv_x v = 3 \<and> sv_y v = 0 \<and> sv_handle v = (40, 20) \<and> sv_sx v = 1 / 4 \<and> sv_sy v = 1 / 4"
    by (simp add: new_svg_item_def set_property_def size_changed_def float_div_def)
  then obtain v where v: "foldE (\<lambda>v (nm, x). set_property nm x v) (new_svg_item 0 0 (40, 20)) ?c = Inr v" "sv_height v = 5"
    "sv_x v = 3" "sv_y v = 0" "sv_handle v = (40, 20)" "sv_sx v = 1 / 4" "sv_sy v = 1 / 4" by blast
  have "svg_ok v" "is_item_at 13 5 v" "\<not> is_item_at 13 6 v"
    using svg_sizes [OF v(1), of 13 5] svg_sizes [OF v(1), of 13 6] v by simp_all
  then show ?thesis using v(1,2) by blast
qed

end
