(* ===== verification/Viz_Nodes.thy ===== *)
theory Viz_Nodes
  imports Svg_Item
begin

text \<open>
  What the visualizer draws, \<^verbatim>\<open>src/src/visualizer/visualizer/core.py\<close> and \<^verbatim>\<open>base.py\<close>: the objects
  \<open>Node\<close>, \<open>Channel\<close> and \<open>WiredLink\<close> with the canvas items they keep up to date, and the tables of
  nodes and channels of the \<open>Visualizer\<close>. Objects that refer to each other are entries of these
  tables; a link is a position in the list of links. Coordinates are rationals.
\<close>

unbundle bit_operations_syntax

section \<open>Coordinates\<close>

definition pixels_per_meter :: rat where "pixels_per_meter = 3"

definition distance_to_canvas :: "rat \<Rightarrow> rat" where "distance_to_canvas d = d * pixels_per_meter"
definition point_to_canvas :: "rat \<times> rat \<Rightarrow> rat \<times> rat" where
  "point_to_canvas p = (fst p * pixels_per_meter, snd p * pixels_per_meter)"
definition distance_to_simulation :: "rat \<Rightarrow> rat" where "distance_to_simulation d = d / pixels_per_meter"
definition point_to_simulation :: "rat \<times> rat \<Rightarrow> rat \<times> rat" where
  "point_to_simulation p = (fst p / pixels_per_meter, snd p / pixels_per_meter)"

section \<open>The objects\<close>

record style =
  st_radius :: rat
  st_fill :: int
  st_line :: rat
  st_stroke :: string

record vnode =
  vn_pos :: "rat \<times> rat"
  vn_style :: style
  vn_selected :: bool
  vn_highlighted :: bool
  vn_color :: int
  vn_size :: rat
  vn_label :: "string option"
  vn_label_item :: "(string \<times> rat \<times> rat) option"
  vn_svg :: "svg_item option"
  vn_align :: "rat \<times> rat"
  vn_links :: "nat list"

record vchannel =
  vc_pos :: "rat \<times> rat"
  vc_links :: "nat list"

datatype endpoint = Node_End nat | Channel_End nat

record wired_link =
  wl_node :: nat
  wl_other :: endpoint
  wl_path :: "((rat \<times> rat) \<times> (rat \<times> rat)) option"

text \<open>\<open>sn_bounds\<close> is \<open>None\<close> with the versions of the canvas library whose \<open>get_bounds\<close> cannot be used.\<close>

record scene =
  sn_nodes :: "(nat, vnode) dict"
  sn_channels :: "(nat, vchannel) dict"
  sn_links :: "wired_link list"
  sn_bounds :: "(rat \<times> rat \<times> rat \<times> rat) option"
  sn_selected :: "nat option"

definition new_scene :: "bool \<Rightarrow> scene" where
  "new_scene usable =
     \<lparr>sn_nodes = [], sn_channels = [], sn_links = [],
      sn_bounds = (if usable then Some (-10000, -10000, 10000, 10000) else None), sn_selected = None\<rparr>"

section \<open>Links and positions\<close>

definition end_pos :: "scene \<Rightarrow> endpoint \<Rightarrow> (rat \<times> rat) option" where
  "end_pos sc e =
     (case e of
        Node_End i \<Rightarrow> map_option vn_pos (dict_get (sn_nodes sc) i)
      | Channel_End c \<Rightarrow> map_option vc_pos (dict_get (sn_channels sc) c))"

definition current_path :: "scene \<Rightarrow> wired_link \<Rightarrow> ((rat \<times> rat) \<times> (rat \<times> rat)) option" where
  "current_path sc l =
     (case (end_pos sc (Node_End (wl_node l)), end_pos sc (wl_other l)) of
        (Some p, Some q) \<Rightarrow> Some (p, q)
      | _ \<Rightarrow> None)"

definition update_points :: "scene \<Rightarrow> nat \<Rightarrow> scene" where
  "update_points sc k =
     sc\<lparr>sn_links := (sn_links sc)[k := (sn_links sc ! k)\<lparr>wl_path := current_path sc (sn_links sc ! k)\<rparr>]\<rparr>"

definition put_node :: "nat \<Rightarrow> vnode \<Rightarrow> scene \<Rightarrow> scene" where
  "put_node i n sc = sc\<lparr>sn_nodes := dict_set i n (sn_nodes sc)\<rparr>"

definition svg_at :: "rat \<times> rat \<Rightarrow> rat \<times> rat \<Rightarrow> svg_item \<Rightarrow> svg_item" where
  \<comment> \<open>\<open>_update_svg_position\<close>\<close>
  "svg_at align p v =
     v\<lparr>sv_x := fst p - (1 - fst align) * sv_width v, sv_y := snd p - (1 - snd align) * sv_height v\<rparr>"

definition label_at :: "vnode \<Rightarrow> rat \<times> rat \<Rightarrow> vnode" where
  "label_at n p =
     n\<lparr>vn_label_item := map_option (\<lambda>(t, _). (t, fst p, snd p + vn_size n * 3)) (vn_label_item n)\<rparr>"

definition widen_bounds :: "rat \<times> rat \<Rightarrow> rat \<times> rat \<times> rat \<times> rat \<Rightarrow> rat \<times> rat \<times> rat \<times> rat" where
  "widen_bounds p b = (case b of (x0, y0, x1, y1) \<Rightarrow> (min (fst p) x0, min (snd p) y0, max (fst p) x1, max (snd p) y1))"

definition set_node_position :: "nat \<Rightarrow> rat \<times> rat \<Rightarrow> scene \<Rightarrow> scene" where
  "set_node_position i p sc =
     (case dict_get (sn_nodes sc) i of
        None \<Rightarrow> sc
      | Some n \<Rightarrow>
          (let sc1 = put_node i (n\<lparr>vn_pos := p, vn_svg := map_option (svg_at (vn_align n) p) (vn_svg n)\<rparr>) sc;
               sc2 = foldl update_points sc1 (vn_links n);
               sc3 = put_node i (label_at (n\<lparr>vn_pos := p, vn_svg := map_option (svg_at (vn_align n) p) (vn_svg n)\<rparr>) p) sc2
           in sc3\<lparr>sn_bounds := map_option (widen_bounds p) (sn_bounds sc3)\<rparr>))"

definition set_channel_position :: "nat \<Rightarrow> rat \<times> rat \<Rightarrow> scene \<Rightarrow> scene" where
  "set_channel_position c p sc =
     (case dict_get (sn_channels sc) c of
        None \<Rightarrow> sc
      | Some ch \<Rightarrow>
          foldl update_points (sc\<lparr>sn_channels := dict_set c (ch\<lparr>vc_pos := p\<rparr>) (sn_channels sc)\<rparr>) (vc_links ch))"

section \<open>The look of a node\<close>

definition node_style :: "vnode \<Rightarrow> style" where
  "node_style n =
     (let size = distance_to_canvas (vn_size n); alpha = (if vn_svg n = None then 0xff else 0x80)
      in \<lparr>st_radius = size, st_fill = (vn_color n AND 0xffffff00) OR alpha,
          st_line = (if vn_selected n then size * (3 / 10) else size * (15 / 100)),
          st_stroke = (if vn_highlighted n then ''yellow'' else ''black'')\<rparr>)"

definition update_appearance :: "nat \<Rightarrow> scene \<Rightarrow> scene" where
  "update_appearance i sc =
     (case dict_get (sn_nodes sc) i of
        None \<Rightarrow> sc
      | Some n \<Rightarrow>
          (let n1 = n\<lparr>vn_style := node_style n\<rparr> in
           case vn_label n1 of
             None \<Rightarrow> put_node i n1 sc
           | Some t \<Rightarrow> set_node_position i (vn_pos n1)
               (put_node i (n1\<lparr>vn_label_item := Some (case vn_label_item n1 of None \<Rightarrow> (t, 0, 0) | Some (_, q) \<Rightarrow> (t, q))\<rparr>) sc)))"

definition change_node :: "nat \<Rightarrow> (vnode \<Rightarrow> vnode) \<Rightarrow> scene \<Rightarrow> scene" where
  \<comment> \<open>a setter: the field, then \<open>_update_appearance\<close>\<close>
  "change_node i f sc =
     (case dict_get (sn_nodes sc) i of None \<Rightarrow> sc | Some n \<Rightarrow> update_appearance i (put_node i (f n) sc))"

definition set_selected :: "bool \<Rightarrow> nat \<Rightarrow> scene \<Rightarrow> scene" where
  "set_selected b i = change_node i (\<lambda>n. n\<lparr>vn_selected := b\<rparr>)"

definition set_highlighted :: "bool \<Rightarrow> nat \<Rightarrow> scene \<Rightarrow> scene" where
  "set_highlighted b i = change_node i (\<lambda>n. n\<lparr>vn_highlighted := b\<rparr>)"

definition set_node_size :: "rat \<Rightarrow> nat \<Rightarrow> scene \<Rightarrow> scene" where
  "set_node_size s i = change_node i (\<lambda>n. n\<lparr>vn_size := s\<rparr>)"

definition rgba_of :: "int \<times> int \<times> int \<Rightarrow> int" where
  \<comment> \<open>the 16 bits of red, green and blue of a parsed colour\<close>
  "rgba_of c = (case c of (r, g, b) \<Rightarrow>
     push_bit 24 (drop_bit 8 r) OR push_bit 16 (drop_bit 8 g) OR push_bit 8 (drop_bit 8 b) OR 0xff)"

definition set_node_color :: "int + (int \<times> int \<times> int) \<Rightarrow> nat \<Rightarrow> scene \<Rightarrow> scene" where
  "set_node_color c i = change_node i (\<lambda>n. n\<lparr>vn_color := (case c of Inl k \<Rightarrow> k | Inr rgb \<Rightarrow> rgba_of rgb)\<rparr>)"

definition set_label :: "py_version \<Rightarrow> string \<Rightarrow> nat \<Rightarrow> scene \<Rightarrow> scene res" where
  \<comment> \<open>the assertion names \<open>basestring\<close>, which Python 3 does not have\<close>
  "set_label ver t i sc = (if ver = Py3 then Inl NameError else Inr (change_node i (\<lambda>n. n\<lparr>vn_label := Some t\<rparr>) sc))"

definition set_svg_icon :: "rat \<times> rat \<Rightarrow> rat option \<Rightarrow> rat option \<Rightarrow> rat \<times> rat \<Rightarrow> nat \<Rightarrow> scene \<Rightarrow> scene res" where
  "set_svg_icon file_size width height align i sc =
     (case dict_get (sn_nodes sc) i of
        None \<Rightarrow> Inl KeyError
      | Some n \<Rightarrow>
          if width = None \<and> height = None then Inl ValueError
          else
            (let v0 = new_svg_item (fst (vn_pos n)) (snd (vn_pos n)) file_size in
             bindE (case width of None \<Rightarrow> Inr v0 | Some w \<Rightarrow> set_property ''width'' (distance_to_canvas w) v0) (\<lambda>v1.
             bindE (case height of None \<Rightarrow> Inr v1 | Some h \<Rightarrow> set_property ''height'' (distance_to_canvas h) v1) (\<lambda>v2.
             Inr (change_node i (\<lambda>n. n\<lparr>vn_svg := Some (svg_at align (vn_pos n) v2), vn_align := align\<rparr>) sc)))))"

section \<open>The tables of the visualizer\<close>

definition new_node :: vnode where
  "new_node =
     (let n = \<lparr>vn_pos = (0, 0), vn_style = \<lparr>st_radius = 0, st_fill = 0, st_line = 0, st_stroke = []\<rparr>,
        vn_selected = False, vn_highlighted = False, vn_color = 0x808080ff, vn_size = 1, vn_label = None,
        vn_label_item = None, vn_svg = None, vn_align = (0, 0), vn_links = []\<rparr>
      in n\<lparr>vn_style := node_style n\<rparr>)"

definition get_node :: "nat \<Rightarrow> scene \<Rightarrow> scene" where
  "get_node i sc = (case dict_get (sn_nodes sc) i of Some n \<Rightarrow> sc | None \<Rightarrow> put_node i new_node sc)"

definition get_channel :: "nat \<Rightarrow> scene \<Rightarrow> scene" where
  "get_channel c sc =
     (case dict_get (sn_channels sc) c of
        Some ch \<Rightarrow> sc
      | None \<Rightarrow> sc\<lparr>sn_channels := dict_set c \<lparr>vc_pos = (0, 0), vc_links = []\<rparr> (sn_channels sc)\<rparr>)"

definition add_link :: "nat \<Rightarrow> endpoint \<Rightarrow> scene \<Rightarrow> scene" where
  "add_link k e sc =
     (case e of
        Node_End i \<Rightarrow> (case dict_get (sn_nodes sc) i of None \<Rightarrow> sc | Some n \<Rightarrow> put_node i (n\<lparr>vn_links := vn_links n @ [k]\<rparr>) sc)
      | Channel_End c \<Rightarrow> (case dict_get (sn_channels sc) c of None \<Rightarrow> sc
          | Some ch \<Rightarrow> sc\<lparr>sn_channels := dict_set c (ch\<lparr>vc_links := vc_links ch @ [k]\<rparr>) (sn_channels sc)\<rparr>))"

definition get_end :: "endpoint \<Rightarrow> scene \<Rightarrow> scene" where
  "get_end e = (case e of Node_End i \<Rightarrow> get_node i | Channel_End c \<Rightarrow> get_channel c)"

definition create_link :: "nat \<Rightarrow> endpoint \<Rightarrow> scene \<Rightarrow> scene" where
  "create_link i e sc =
     (let sc1 = get_end e (get_node i sc); k = length (sn_links sc1)
      in add_link k e (add_link k (Node_End i) (sc1\<lparr>sn_links := sn_links sc1 @ [\<lparr>wl_node = i, wl_other = e, wl_path = None\<rparr>]\<rparr>)))"

definition select_in_scene :: "nat option \<Rightarrow> scene \<Rightarrow> scene res" where
  \<comment> \<open>\<open>select_node\<close> of an index or of \<open>None\<close>\<close>
  "select_in_scene x sc =
     (if x \<noteq> None \<and> dict_get (sn_nodes sc) (the x) = None then Inl KeyError
      else if x = sn_selected sc then Inr sc
      else
        (let sc1 = (case sn_selected sc of None \<Rightarrow> sc | Some i \<Rightarrow> set_selected False i sc);
             sc2 = sc1\<lparr>sn_selected := x\<rparr>
         in Inr (case x of None \<Rightarrow> sc2 | Some i \<Rightarrow> set_selected True i sc2)))"

section \<open>Redrawing a list of links\<close>

lemma current_path_links [simp]: "current_path (sc\<lparr>sn_links := ls\<rparr>) l = current_path sc l"
  by (simp add: current_path_def end_pos_def cong: endpoint.case_cong)

lemma current_path_path [simp]: "current_path sc (l\<lparr>wl_path := x\<rparr>) = current_path sc l"
  by (simp add: current_path_def)

lemma redraw:
  "\<forall>k \<in> set ks. k < length (sn_links sc) \<Longrightarrow>
   \<exists>ls. foldl update_points sc ks = sc\<lparr>sn_links := ls\<rparr> \<and> length ls = length (sn_links sc) \<and>
     (\<forall>k < length ls. ls ! k = (if k \<in> set ks then (sn_links sc ! k)\<lparr>wl_path := current_path sc (sn_links sc ! k)\<rparr> else sn_links sc ! k))"
proof (induction ks arbitrary: sc)
  case Nil
  then show ?case by (intro exI [of _ "sn_links sc"]) simp
next
  case (Cons a ks)
  let ?ls = "(sn_links sc)[a := (sn_links sc ! a)\<lparr>wl_path := current_path sc (sn_links sc ! a)\<rparr>]"
  obtain ls where ls: "foldl update_points (sc\<lparr>sn_links := ?ls\<rparr>) ks = sc\<lparr>sn_links := ls\<rparr>" "length ls = length (sn_links sc)"
    "\<And>k. k < length ls \<Longrightarrow> ls ! k = (if k \<in> set ks then (?ls ! k)\<lparr>wl_path := current_path sc (?ls ! k)\<rparr> else ?ls ! k)"
    using Cons.IH [of "sc\<lparr>sn_links := ?ls\<rparr>"] Cons.prems by auto
  have "ls ! k = (if k \<in> set (a # ks) then (sn_links sc ! k)\<lparr>wl_path := current_path sc (sn_links sc ! k)\<rparr> else sn_links sc ! k)"
    if "k < length ls" for k
    using ls(3) [OF that] that ls(2) by (cases "k = a") auto
  moreover have "update_points sc a = sc\<lparr>sn_links := ?ls\<rparr>" by (simp add: update_points_def)
  ultimately show ?case using ls(1,2) by (intro exI [of _ ls]) simp
qed

section \<open>The invariant of the scene\<close>

text \<open>Every link is known to both its ends.\<close>

definition knows :: "scene \<Rightarrow> endpoint \<Rightarrow> nat \<Rightarrow> bool" where
  "knows sc e k =
     (case e of
        Node_End i \<Rightarrow> (case dict_get (sn_nodes sc) i of None \<Rightarrow> False | Some n \<Rightarrow> k \<in> set (vn_links n))
      | Channel_End c \<Rightarrow> (case dict_get (sn_channels sc) c of None \<Rightarrow> False | Some ch \<Rightarrow> k \<in> set (vc_links ch)))"

definition links_ok :: "scene \<Rightarrow> bool" where
  "links_ok sc \<longleftrightarrow>
     (\<forall>k < length (sn_links sc). knows sc (Node_End (wl_node (sn_links sc ! k))) k \<and> knows sc (wl_other (sn_links sc ! k)) k) \<and>
     (\<forall>e k. knows sc e k \<longrightarrow> k < length (sn_links sc))"

text \<open>A link that has been drawn joins the present positions of its ends.\<close>

definition paths_ok :: "scene \<Rightarrow> bool" where
  "paths_ok sc \<longleftrightarrow> (\<forall>l \<in> set (sn_links sc). wl_path l = None \<or> wl_path l = current_path sc l)"

definition inside_bounds :: "(rat \<times> rat \<times> rat \<times> rat) option \<Rightarrow> rat \<times> rat \<Rightarrow> bool" where
  "inside_bounds b p =
     (case b of None \<Rightarrow> True | Some (x0, y0, x1, y1) \<Rightarrow> x0 \<le> fst p \<and> fst p \<le> x1 \<and> y0 \<le> snd p \<and> snd p \<le> y1)"

definition place_ok :: "scene \<Rightarrow> bool" where
  "place_ok sc \<longleftrightarrow> links_ok sc \<and> paths_ok sc \<and> inside_bounds (sn_bounds sc) (0, 0) \<and>
     (\<forall>i n. dict_get (sn_nodes sc) i = Some n \<longrightarrow> inside_bounds (sn_bounds sc) (vn_pos n))"

text \<open>A node looks the way its fields say, and its label is where it belongs.\<close>

definition label_ok :: "vnode \<Rightarrow> bool" where
  "label_ok n \<longleftrightarrow> vn_label_item n = map_option (\<lambda>t. (t, fst (vn_pos n), snd (vn_pos n) + vn_size n * 3)) (vn_label n)"

definition look_ok :: "vnode \<Rightarrow> bool" where
  "look_ok n \<longleftrightarrow> vn_style n = node_style n \<and> label_ok n"

definition scene_ok :: "scene \<Rightarrow> bool" where
  "scene_ok sc \<longleftrightarrow> place_ok sc \<and>
     (\<forall>i n. dict_get (sn_nodes sc) i = Some n \<longrightarrow> look_ok n \<and> (vn_selected n \<longleftrightarrow> sn_selected sc = Some i)) \<and>
     (\<forall>i. sn_selected sc = Some i \<longrightarrow> dict_get (sn_nodes sc) i \<noteq> None)"

lemma new_scene_ok: "scene_ok (new_scene b)"
  by (auto simp: scene_ok_def place_ok_def new_scene_def links_ok_def paths_ok_def inside_bounds_def knows_def dict_get_def split: endpoint.splits)

section \<open>Moving a node\<close>

definition moved :: "vnode \<Rightarrow> rat \<times> rat \<Rightarrow> vnode" where
  "moved n p = label_at (n\<lparr>vn_pos := p, vn_svg := map_option (svg_at (vn_align n) p) (vn_svg n)\<rparr>) p"

lemma moved_simps [simp]:
  "vn_pos (moved n p) = p" "vn_links (moved n p) = vn_links n" "vn_selected (moved n p) = vn_selected n"
  "vn_style (moved n p) = vn_style n" "vn_label (moved n p) = vn_label n" "vn_size (moved n p) = vn_size n"
  "node_style (moved n p) = node_style n"
  by (simp_all add: moved_def label_at_def node_style_def Let_def)

lemma moved_label: "vn_label_item (moved n p) = map_option (\<lambda>(t, _). (t, fst p, snd p + vn_size n * 3)) (vn_label_item n)"
  by (simp add: moved_def label_at_def)

text \<open>Only the node and the links it knows change.\<close>

lemma set_node_position_effect:
  fixes p :: "rat \<times> rat"
  assumes "dict_get (sn_nodes sc) i = Some n" "\<forall>k \<in> set (vn_links n). k < length (sn_links sc)"
  defines "sc' \<equiv> set_node_position i p sc"
  shows "dict_get (sn_nodes sc') j = (if j = i then Some (moved n p) else dict_get (sn_nodes sc) j)"
    and "sn_channels sc' = sn_channels sc" "sn_selected sc' = sn_selected sc"
    and "sn_bounds sc' = map_option (widen_bounds p) (sn_bounds sc)"
    and "length (sn_links sc') = length (sn_links sc)"
    and "k < length (sn_links sc) \<Longrightarrow> sn_links sc' ! k =
      (if k \<in> set (vn_links n) then (sn_links sc ! k)\<lparr>wl_path := current_path sc' (sn_links sc ! k)\<rparr> else sn_links sc ! k)"
proof -
  let ?n = "n\<lparr>vn_pos := p, vn_svg := map_option (svg_at (vn_align n) p) (vn_svg n)\<rparr>"
  let ?s = "put_node i ?n sc"
  obtain ls where ls: "foldl update_points ?s (vn_links n) = ?s\<lparr>sn_links := ls\<rparr>" "length ls = length (sn_links sc)"
    "\<And>k. k < length ls \<Longrightarrow> ls ! k = (if k \<in> set (vn_links n) then (sn_links sc ! k)\<lparr>wl_path := current_path ?s (sn_links sc ! k)\<rparr> else sn_links sc ! k)"
    using redraw [of "vn_links n" ?s] assms(2) by (auto simp: put_node_def)
  have sc': "sc' = sc\<lparr>sn_nodes := dict_set i (moved n p) (dict_set i ?n (sn_nodes sc)), sn_links := ls,
      sn_bounds := map_option (widen_bounds p) (sn_bounds sc)\<rparr>"
    by (simp add: sc'_def set_node_position_def assms(1) Let_def ls(1)) (simp add: put_node_def moved_def)
  have "end_pos sc' e = end_pos ?s e" for e
    by (cases e) (simp_all add: end_pos_def sc' put_node_def dict_get_set)
  then have same: "current_path sc' l = current_path ?s l" for l by (simp add: current_path_def)
  show "dict_get (sn_nodes sc') j = (if j = i then Some (moved n p) else dict_get (sn_nodes sc) j)" by (simp add: sc' dict_get_set)
  show "sn_channels sc' = sn_channels sc" "sn_selected sc' = sn_selected sc"
    "sn_bounds sc' = map_option (widen_bounds p) (sn_bounds sc)" "length (sn_links sc') = length (sn_links sc)"
    by (simp_all add: sc' ls(2))
  show "k < length (sn_links sc) \<Longrightarrow> sn_links sc' ! k =
      (if k \<in> set (vn_links n) then (sn_links sc ! k)\<lparr>wl_path := current_path sc' (sn_links sc ! k)\<rparr> else sn_links sc ! k)"
    using ls(2,3) by (simp add: sc' same [unfolded sc'])
qed

lemma widen_inside: "inside_bounds (map_option (widen_bounds p) b) p"
  "inside_bounds b q \<Longrightarrow> inside_bounds (map_option (widen_bounds p) b) q"
  by (cases b; auto simp: inside_bounds_def widen_bounds_def)+

lemma knows_bound: "links_ok sc \<Longrightarrow> dict_get (sn_nodes sc) i = Some n \<Longrightarrow> \<forall>k \<in> set (vn_links n). k < length (sn_links sc)"
proof
  fix k
  assume "links_ok sc" "dict_get (sn_nodes sc) i = Some n" "k \<in> set (vn_links n)"
  moreover from this have "knows sc (Node_End i) k" by (simp add: knows_def)
  ultimately show "k < length (sn_links sc)" unfolding links_ok_def by blast
qed

lemma set_node_position_place:
  assumes "place_ok sc" "dict_get (sn_nodes sc) i = Some n"
  shows "place_ok (set_node_position i p sc)"
proof -
  let ?s = "set_node_position i p sc"
  have l: "links_ok sc" and pa: "paths_ok sc" using assms(1) by (simp_all add: place_ok_def)
  note e = set_node_position_effect [OF assms(2) knows_bound [OF l assms(2)], where p = p]
  have knows: "knows ?s e k = knows sc e k" for e k
    by (cases e) (simp_all add: knows_def e(1,2) assms(2))
  have ends: "wl_node (sn_links ?s ! k) = wl_node (sn_links sc ! k)" "wl_other (sn_links ?s ! k) = wl_other (sn_links sc ! k)"
    if "k < length (sn_links sc)" for k using e(6) [OF that] by simp_all
  have "links_ok ?s" using l by (simp add: links_ok_def knows e(5) ends)
  moreover have "paths_ok ?s" unfolding paths_ok_def
  proof
    fix l'
    assume "l' \<in> set (sn_links ?s)"
    then obtain k where k: "k < length (sn_links sc)" "l' = sn_links ?s ! k" by (auto simp: in_set_conv_nth e(5))
    let ?l = "sn_links sc ! k"
    show "wl_path l' = None \<or> wl_path l' = current_path ?s l'"
    proof (cases "k \<in> set (vn_links n)")
      case True
      then show ?thesis using e(6) [OF k(1)] k(2) by simp
    next
      case False
      then have "\<not> knows sc (Node_End i) k" by (simp add: knows_def assms(2))
      then have "Node_End (wl_node ?l) \<noteq> Node_End i" "wl_other ?l \<noteq> Node_End i" using l k(1) by (auto simp: links_ok_def)
      then have "current_path ?s ?l = current_path sc ?l"
        by (cases "wl_other ?l") (simp_all add: current_path_def end_pos_def e(1,2))
      then show ?thesis using pa k False e(6) [OF k(1)] by (auto simp: paths_ok_def)
    qed
  qed
  moreover have "inside_bounds (sn_bounds ?s) (vn_pos m)" if "dict_get (sn_nodes ?s) j = Some m" for j m
    using that assms(1) by (auto simp: e(1,4) place_ok_def intro: widen_inside split: if_splits)
  moreover have "inside_bounds (sn_bounds ?s) (0, 0)" using assms(1) widen_inside by (simp add: e(4) place_ok_def)
  ultimately show ?thesis by (simp add: place_ok_def)
qed

text \<open>Changes of a node that leave its position and its links where they are.\<close>

lemma put_node_place:
  assumes "place_ok sc" "dict_get (sn_nodes sc) i = Some n" "vn_pos n' = vn_pos n" "vn_links n' = vn_links n"
  shows "place_ok (put_node i n' sc)"
proof -
  let ?s = "put_node i n' sc"
  have g: "dict_get (sn_nodes ?s) j = (if j = i then Some n' else dict_get (sn_nodes sc) j)" for j
    by (simp add: put_node_def dict_get_set)
  have o: "sn_channels ?s = sn_channels sc" "sn_links ?s = sn_links sc" "sn_bounds ?s = sn_bounds sc" by (simp_all add: put_node_def)
  have "knows ?s e k = knows sc e k" for e k by (cases e) (simp_all add: knows_def g o assms(2,4))
  moreover have "end_pos ?s e = end_pos sc e" for e by (cases e) (simp_all add: end_pos_def g o assms(2,3))
  moreover from this have "current_path ?s l = current_path sc l" for l by (simp add: current_path_def)
  ultimately show ?thesis using assms by (auto simp: place_ok_def links_ok_def paths_ok_def g o)
qed

section \<open>Setters\<close>

lemma update_appearance_effect:
  assumes "place_ok sc" "dict_get (sn_nodes sc) i = Some n" "vn_label n = None \<Longrightarrow> vn_label_item n = None"
  shows "place_ok (update_appearance i sc) \<and> sn_selected (update_appearance i sc) = sn_selected sc \<and>
    (\<exists>n'. look_ok n' \<and> vn_selected n' = vn_selected n \<and>
      (\<forall>j. dict_get (sn_nodes (update_appearance i sc)) j = (if j = i then Some n' else dict_get (sn_nodes sc) j)))"
proof (cases "vn_label n")
  case None
  let ?n = "n\<lparr>vn_style := node_style n\<rparr>"
  have "update_appearance i sc = put_node i ?n sc" by (simp add: update_appearance_def assms(2) None)
  moreover have "place_ok (put_node i ?n sc)" by (rule put_node_place [OF assms(1,2)]) simp_all
  moreover have "look_ok ?n" using assms(3) None by (simp add: look_ok_def label_ok_def node_style_def)
  ultimately show ?thesis by (auto simp: put_node_def dict_get_set intro!: exI [of _ ?n])
next
  case (Some t)
  let ?n = "n\<lparr>vn_style := node_style n, vn_label_item := Some (case vn_label_item n of None \<Rightarrow> (t, 0, 0) | Some (_, q) \<Rightarrow> (t, q))\<rparr>"
  let ?s = "put_node i ?n sc"
  have u: "update_appearance i sc = set_node_position i (vn_pos n) ?s" by (simp add: update_appearance_def assms(2) Some Let_def)
  have p: "place_ok ?s" by (rule put_node_place [OF assms(1,2)]) simp_all
  have g: "dict_get (sn_nodes ?s) j = (if j = i then Some ?n else dict_get (sn_nodes sc) j)" for j by (simp add: put_node_def dict_get_set)
  then have gi: "dict_get (sn_nodes ?s) i = Some ?n" by simp
  have l: "links_ok ?s" using p by (simp add: place_ok_def)
  note e = set_node_position_effect [OF gi knows_bound [OF l gi], where p = "vn_pos n"]
  have "node_style ?n = node_style n" by (simp add: node_style_def)
  then have "look_ok (moved ?n (vn_pos n))"
    using Some by (auto simp: look_ok_def label_ok_def moved_label split: option.splits)
  then show ?thesis using set_node_position_place [OF p gi, of "vn_pos n"] e(1,3) g
    by (auto simp: u put_node_def intro!: exI [of _ "moved ?n (vn_pos n)"])
qed

lemma change_node_effect:
  assumes "place_ok sc" "dict_get (sn_nodes sc) i = Some n"
    and "vn_pos (f n) = vn_pos n" "vn_links (f n) = vn_links n" "vn_label (f n) = None \<Longrightarrow> vn_label_item (f n) = None"
  shows "place_ok (change_node i f sc) \<and> sn_selected (change_node i f sc) = sn_selected sc \<and>
    (\<exists>n'. look_ok n' \<and> vn_selected n' = vn_selected (f n) \<and>
      (\<forall>j. dict_get (sn_nodes (change_node i f sc)) j = (if j = i then Some n' else dict_get (sn_nodes sc) j)))"
proof -
  let ?s = "put_node i (f n) sc"
  have c: "change_node i f sc = update_appearance i ?s" by (simp add: change_node_def assms(2))
  have "place_ok ?s" by (rule put_node_place [OF assms(1-4)])
  moreover have g: "dict_get (sn_nodes ?s) j = (if j = i then Some (f n) else dict_get (sn_nodes sc) j)" for j
    by (simp add: put_node_def dict_get_set)
  ultimately have "place_ok (update_appearance i ?s) \<and> sn_selected (update_appearance i ?s) = sn_selected ?s \<and>
    (\<exists>n'. look_ok n' \<and> vn_selected n' = vn_selected (f n) \<and>
      (\<forall>j. dict_get (sn_nodes (update_appearance i ?s)) j = (if j = i then Some n' else dict_get (sn_nodes ?s) j)))"
    using assms(5) by (intro update_appearance_effect) simp_all
  moreover have "sn_selected ?s = sn_selected sc" by (simp add: put_node_def)
  ultimately show ?thesis unfolding c by (simp add: g cong: if_cong)
qed

lemma change_node_ok:
  assumes "scene_ok sc"
    and "\<And>n. vn_pos (f n) = vn_pos n" "\<And>n. vn_links (f n) = vn_links n" "\<And>n. vn_selected (f n) = vn_selected n"
    and "\<And>n. vn_label n = vn_label (f n) \<and> vn_label_item n = vn_label_item (f n) \<or> vn_label (f n) \<noteq> None"
  shows "scene_ok (change_node i f sc)"
proof (cases "dict_get (sn_nodes sc) i")
  case None
  then show ?thesis using assms(1) by (simp add: change_node_def)
next
  case (Some n)
  then have "label_ok n" "place_ok sc" using assms(1) by (auto simp: scene_ok_def look_ok_def)
  then have "vn_label (f n) = None \<Longrightarrow> vn_label_item (f n) = None" using assms(5) [of n] by (auto simp: label_ok_def)
  from change_node_effect [where f = f, OF \<open>place_ok sc\<close> Some assms(2) [of n] assms(3) [of n] this] obtain n' where n': "place_ok (change_node i f sc)" "sn_selected (change_node i f sc) = sn_selected sc"
    "look_ok n'" "vn_selected n' = vn_selected n"
    "\<And>j. dict_get (sn_nodes (change_node i f sc)) j = (if j = i then Some n' else dict_get (sn_nodes sc) j)" using assms(4) by auto
  show ?thesis using assms(1) n' Some by (auto simp: scene_ok_def split: if_splits)
qed

lemma set_node_position_ok:
  assumes "scene_ok sc"
  shows "scene_ok (set_node_position i p sc)"
proof (cases "dict_get (sn_nodes sc) i")
  case None
  then show ?thesis using assms by (simp add: set_node_position_def)
next
  case (Some n)
  have p: "place_ok sc" and n: "look_ok n" "vn_selected n \<longleftrightarrow> sn_selected sc = Some i" using assms Some by (auto simp: scene_ok_def)
  then have "links_ok sc" by (simp add: place_ok_def)
  note e = set_node_position_effect [OF Some knows_bound [OF this Some], where p = p]
  have "look_ok (moved n p)" using n(1) by (cases "vn_label n") (simp_all add: look_ok_def label_ok_def moved_label)
  then show ?thesis using assms n(2) set_node_position_place [OF p Some, of p]
    by (auto simp: scene_ok_def e(1,3) split: if_splits)
qed

section \<open>Selecting\<close>

lemma select_ok:
  assumes "scene_ok sc" "select_in_scene x sc = Inr sc'"
  shows "scene_ok sc' \<and> sn_selected sc' = x"
proof -
  have x: "x = None \<or> (\<exists>n. dict_get (sn_nodes sc) (the x) = Some n)" using assms(2) by (auto simp: select_in_scene_def split: if_splits)
  show ?thesis
  proof (cases "x = sn_selected sc")
    case True
    then show ?thesis using assms x by (auto simp: select_in_scene_def split: if_splits)
  next
    case False
    define s1 where "s1 = (case sn_selected sc of None \<Rightarrow> sc | Some i \<Rightarrow> set_selected False i sc)"
    have label: "label_ok n" if "dict_get (sn_nodes sc) i = Some n" for i n
      using assms(1) that by (auto simp: scene_ok_def look_ok_def)
    have "place_ok s1 \<and> (\<forall>j. (dict_get (sn_nodes s1) j = None \<longleftrightarrow> dict_get (sn_nodes sc) j = None) \<and>
        (\<forall>n. dict_get (sn_nodes s1) j = Some n \<longrightarrow> look_ok n \<and> \<not> vn_selected n))"
    proof (cases "sn_selected sc")
      case None
      then show ?thesis using assms(1) by (auto simp: s1_def scene_ok_def)
    next
      case (Some i)
      then obtain n where n: "dict_get (sn_nodes sc) i = Some n" using assms(1) by (auto simp: scene_ok_def)
      have p: "place_ok sc" using assms(1) by (simp add: scene_ok_def)
      have "vn_label n = None \<Longrightarrow> vn_label_item n = None" using label [OF n] by (simp add: label_ok_def)
      then have "place_ok s1 \<and> sn_selected s1 = sn_selected sc \<and> (\<exists>n'. look_ok n' \<and> vn_selected n' = False \<and>
          (\<forall>j. dict_get (sn_nodes s1) j = (if j = i then Some n' else dict_get (sn_nodes sc) j)))"
        using change_node_effect [OF p n, of "\<lambda>n. n\<lparr>vn_selected := False\<rparr>"] by (simp add: s1_def Some set_selected_def)
      then obtain n' where n': "place_ok s1" "look_ok n'" "\<not> vn_selected n'"
        "\<And>j. dict_get (sn_nodes s1) j = (if j = i then Some n' else dict_get (sn_nodes sc) j)" by blast
      then show ?thesis using assms(1) Some n by (simp add: scene_ok_def)
    qed
    then have s1: "place_ok s1" "\<And>j. dict_get (sn_nodes s1) j = None \<longleftrightarrow> dict_get (sn_nodes sc) j = None"
      "\<And>j n. dict_get (sn_nodes s1) j = Some n \<Longrightarrow> look_ok n \<and> \<not> vn_selected n" by blast+
    let ?s2 = "s1\<lparr>sn_selected := x\<rparr>"
    have p2: "place_ok ?s2" using s1(1) by (simp add: place_ok_def links_ok_def paths_ok_def knows_def current_path_def end_pos_def cong: endpoint.case_cong)
    show ?thesis
    proof (cases x)
      case None
      then have "sc' = ?s2" using assms(2) False by (simp add: select_in_scene_def s1_def Let_def)
      then show ?thesis using p2 s1(3) None by (auto simp: scene_ok_def)
    next
      case (Some i)
      then obtain n where n: "dict_get (sn_nodes s1) i = Some n" using x s1(2) [of i] by (cases "dict_get (sn_nodes s1) i") auto
      have sc': "sc' = set_selected True i ?s2" using assms(2) False x Some by (auto simp: select_in_scene_def s1_def Let_def split: if_splits)
      have "vn_label n = None \<Longrightarrow> vn_label_item n = None" using s1(3) [OF n] by (simp add: look_ok_def label_ok_def)
      then have "place_ok sc' \<and> sn_selected sc' = Some i \<and> (\<exists>n'. look_ok n' \<and> vn_selected n' = True \<and>
          (\<forall>j. dict_get (sn_nodes sc') j = (if j = i then Some n' else dict_get (sn_nodes s1) j)))"
        using change_node_effect [OF p2, of i n "\<lambda>n. n\<lparr>vn_selected := True\<rparr>"] n Some by (simp add: sc' set_selected_def cong: if_cong)
      then obtain n' where n': "place_ok sc'" "sn_selected sc' = Some i" "look_ok n'" "vn_selected n'"
        "\<And>j. dict_get (sn_nodes sc') j = (if j = i then Some n' else dict_get (sn_nodes s1) j)" by auto
      have "look_ok m \<and> (vn_selected m \<longleftrightarrow> i = j)" if "dict_get (sn_nodes sc') j = Some m" for j m
        using that n'(3-5) s1(3) by (cases "j = i") auto
      then show ?thesis using n' Some by (simp add: scene_ok_def)
    qed
  qed
qed

section \<open>New nodes, channels and links\<close>

lemma fresh_node_ok: "look_ok new_node" "\<not> vn_selected new_node" "vn_pos new_node = (0, 0)" "vn_links new_node = []"
  by (simp_all add: new_node_def look_ok_def label_ok_def node_style_def Let_def)

lemma get_node_ok:
  assumes "scene_ok sc"
  shows "scene_ok (get_node i sc)" "dict_get (sn_nodes (get_node i sc)) i \<noteq> None"
proof -
  show "dict_get (sn_nodes (get_node i sc)) i \<noteq> None" by (simp add: get_node_def put_node_def dict_get_set split: option.splits)
  show "scene_ok (get_node i sc)"
  proof (cases "dict_get (sn_nodes sc) i")
    case None
    let ?s = "put_node i new_node sc"
    have g: "dict_get (sn_nodes ?s) j = (if j = i then Some new_node else dict_get (sn_nodes sc) j)" for j
      by (simp add: put_node_def dict_get_set)
    have o: "sn_channels ?s = sn_channels sc" "sn_links ?s = sn_links sc" "sn_bounds ?s = sn_bounds sc" "sn_selected ?s = sn_selected sc"
      by (simp_all add: put_node_def)
    have k: "knows ?s e k = knows sc e k" for e k by (cases e) (simp_all add: knows_def g o None fresh_node_ok)
    have l: "links_ok sc" using assms by (simp add: scene_ok_def place_ok_def)
    then have l': "links_ok ?s" by (simp add: links_ok_def k o)
    have "current_path ?s l = current_path sc l" if m: "l \<in> set (sn_links sc)" for l
    proof -
      obtain k where "k < length (sn_links sc)" "l = sn_links sc ! k" using m by (auto simp: in_set_conv_nth)
      then have "knows sc (Node_End (wl_node l)) k" "knows sc (wl_other l) k" using l by (simp_all add: links_ok_def)
      then have "wl_node l \<noteq> i" "wl_other l \<noteq> Node_End i" using None by (auto simp: knows_def)
      then show ?thesis by (cases "wl_other l") (simp_all add: current_path_def end_pos_def g o)
    qed
    then have "place_ok ?s" using assms l' by (auto simp: scene_ok_def place_ok_def paths_ok_def o g fresh_node_ok split: if_splits)
    moreover have "sn_selected sc \<noteq> Some i" using assms None by (auto simp: scene_ok_def)
    ultimately have "scene_ok ?s" using assms fresh_node_ok by (auto simp: scene_ok_def g o split: if_splits)
    then show ?thesis using None by (simp add: get_node_def)
  qed (use assms in \<open>simp add: get_node_def\<close>)
qed

lemma get_channel_ok:
  assumes "scene_ok sc"
  shows "scene_ok (get_channel c sc)" "dict_get (sn_channels (get_channel c sc)) c \<noteq> None"
proof -
  show "dict_get (sn_channels (get_channel c sc)) c \<noteq> None" by (simp add: get_channel_def dict_get_set split: option.splits)
  show "scene_ok (get_channel c sc)"
  proof (cases "dict_get (sn_channels sc) c")
    case None
    let ?s = "sc\<lparr>sn_channels := dict_set c \<lparr>vc_pos = (0, 0), vc_links = []\<rparr> (sn_channels sc)\<rparr>"
    have k: "knows ?s e k = knows sc e k" for e k by (cases e) (auto simp: knows_def dict_get_set None)
    have l: "links_ok sc" using assms by (simp add: scene_ok_def place_ok_def)
    have "current_path ?s l = current_path sc l" if m: "l \<in> set (sn_links sc)" for l
    proof -
      obtain k where "k < length (sn_links sc)" "l = sn_links sc ! k" using m by (auto simp: in_set_conv_nth)
      then have "knows sc (wl_other l) k" using l by (simp add: links_ok_def)
      then have "wl_other l \<noteq> Channel_End c" using None by (auto simp: knows_def)
      then show ?thesis by (cases "wl_other l") (simp_all add: current_path_def end_pos_def dict_get_set)
    qed
    then have "scene_ok ?s" using assms l by (simp add: scene_ok_def place_ok_def paths_ok_def links_ok_def k)
    then show ?thesis using None by (simp add: get_channel_def)
  qed (use assms in \<open>simp add: get_channel_def\<close>)
qed

lemma get_channel_nodes: "sn_nodes (get_channel c sc) = sn_nodes sc"
  by (simp add: get_channel_def split: option.splits)

lemma get_node_keeps: "dict_get (sn_nodes sc) j \<noteq> None \<Longrightarrow> dict_get (sn_nodes (get_node i sc)) j \<noteq> None"
  by (auto simp: get_node_def put_node_def dict_get_set split: option.splits)

lemma get_end_ok: "scene_ok sc \<Longrightarrow> scene_ok (get_end e sc)"
  "scene_ok sc \<Longrightarrow> end_pos (get_end e sc) e \<noteq> None"
  "dict_get (sn_nodes sc) j \<noteq> None \<Longrightarrow> dict_get (sn_nodes (get_end e sc)) j \<noteq> None"
  by (cases e; simp add: get_end_def get_node_ok get_channel_ok end_pos_def get_channel_nodes get_node_keeps)+

lemma map_option_same: "map_option (\<lambda>x. x) y = y"
  by (cases y) simp_all

lemma add_link_node:
  "dict_get (sn_nodes (add_link k e sc)) j =
     map_option (\<lambda>n. if e = Node_End j then n\<lparr>vn_links := vn_links n @ [k]\<rparr> else n) (dict_get (sn_nodes sc) j)"
proof (cases e)
  case (Node_End i)
  then show ?thesis
    by (cases "dict_get (sn_nodes sc) i"; cases "i = j") (simp_all add: add_link_def put_node_def dict_get_set map_option_same)
next
  case (Channel_End c)
  then show ?thesis by (cases "dict_get (sn_channels sc) c") (simp_all add: add_link_def map_option_same)
qed

lemma add_link_channel:
  "dict_get (sn_channels (add_link k e sc)) c =
     map_option (\<lambda>ch. if e = Channel_End c then ch\<lparr>vc_links := vc_links ch @ [k]\<rparr> else ch) (dict_get (sn_channels sc) c)"
proof (cases e)
  case (Node_End i)
  then show ?thesis by (cases "dict_get (sn_nodes sc) i") (simp_all add: add_link_def put_node_def map_option_same)
next
  case (Channel_End d)
  then show ?thesis
    by (cases "dict_get (sn_channels sc) d"; cases "d = c") (simp_all add: add_link_def dict_get_set map_option_same)
qed

lemma add_link_effect:
  assumes "end_pos sc e \<noteq> None"
  shows "knows (add_link k e sc) e' k' \<longleftrightarrow> knows sc e' k' \<or> e' = e \<and> k' = k"
    and "end_pos (add_link k e sc) e' = end_pos sc e'"
    and "sn_links (add_link k e sc) = sn_links sc" "sn_bounds (add_link k e sc) = sn_bounds sc"
    and "sn_selected (add_link k e sc) = sn_selected sc"
    and "dict_get (sn_nodes (add_link k e sc)) j = map_option (\<lambda>n. if e = Node_End j then n\<lparr>vn_links := vn_links n @ [k]\<rparr> else n) (dict_get (sn_nodes sc) j)"
proof -
  show "end_pos (add_link k e sc) e' = end_pos sc e'"
    by (cases e') (simp_all add: end_pos_def add_link_node add_link_channel option.map_comp comp_def if_distrib [of vn_pos] if_distrib [of vc_pos] cong: if_cong)
  show "knows (add_link k e sc) e' k' \<longleftrightarrow> knows sc e' k' \<or> e' = e \<and> k' = k"
  proof (cases e')
    case (Node_End i)
    then show ?thesis using assms by (cases "dict_get (sn_nodes sc) i") (auto simp: knows_def add_link_node end_pos_def)
  next
    case (Channel_End c)
    then show ?thesis using assms by (cases "dict_get (sn_channels sc) c") (auto simp: knows_def add_link_channel end_pos_def)
  qed
qed (simp_all add: add_link_node, simp_all add: add_link_def put_node_def split: endpoint.splits option.splits)

lemma create_link_ok:
  assumes "scene_ok sc"
  shows "scene_ok (create_link i e sc)"
proof -
  define s1 where "s1 = get_end e (get_node i sc)"
  define k where "k = length (sn_links s1)"
  define s2 where "s2 = s1\<lparr>sn_links := sn_links s1 @ [\<lparr>wl_node = i, wl_other = e, wl_path = None\<rparr>]\<rparr>"
  define s3 where "s3 = add_link k (Node_End i) s2"
  have ok: "scene_ok s1" unfolding s1_def by (intro get_end_ok(1) get_node_ok(1) assms)
  have i: "end_pos s2 (Node_End i) \<noteq> None"
    using get_end_ok(3) [OF get_node_ok(2) [OF assms]] by (simp add: s2_def s1_def end_pos_def)
  have e1: "end_pos s1 e \<noteq> None" unfolding s1_def by (intro get_end_ok(2) get_node_ok(1) assms)
  have p12: "end_pos s2 x = end_pos s1 x" for x by (cases x) (simp_all add: s2_def end_pos_def)
  have k12: "knows s2 x m = knows s1 x m" for x m by (cases x) (simp_all add: s2_def knows_def)
  note a3 = add_link_effect [OF i, of k, folded s3_def]
  have e3: "end_pos s3 e \<noteq> None" using e1 by (simp add: a3(2) p12)
  note a4 = add_link_effect [OF e3, of k]
  let ?s = "add_link k e s3"
  have s: "create_link i e sc = ?s" by (simp add: create_link_def s3_def s2_def k_def s1_def Let_def)
  have links: "sn_links ?s = sn_links s1 @ [\<lparr>wl_node = i, wl_other = e, wl_path = None\<rparr>]" by (simp add: a4(3) a3(3) s2_def)
  have knows: "knows ?s x m \<longleftrightarrow> knows s1 x m \<or> (x = e \<or> x = Node_End i) \<and> m = k" for x m
    by (auto simp: a4(1) a3(1) k12)
  have pos: "end_pos ?s x = end_pos s1 x" for x by (simp add: a4(2) a3(2) p12)
  have path: "current_path ?s l = current_path s1 l" for l by (simp add: current_path_def pos)
  have l1: "links_ok s1" "paths_ok s1" using ok by (simp_all add: scene_ok_def place_ok_def)
  have "length (sn_links s1) = k" by (simp add: k_def)
  then have "links_ok ?s" using l1(1) by (auto simp: links_ok_def knows links nth_append less_Suc_eq)
  moreover have "paths_ok ?s" using l1(2) by (simp add: paths_ok_def links path)
  moreover have same: "sn_bounds ?s = sn_bounds s1" "sn_selected ?s = sn_selected s1" by (simp_all add: a4(4,5) a3(4,5) s2_def)
  moreover have nodes: "\<exists>n. dict_get (sn_nodes s1) j = Some n \<and> vn_pos m = vn_pos n \<and> look_ok m = look_ok n \<and> vn_selected m = vn_selected n"
    if m: "dict_get (sn_nodes ?s) j = Some m" for j m
  proof -
    have "look_ok (n\<lparr>vn_links := x\<rparr>) = look_ok n" for x n by (simp add: look_ok_def label_ok_def node_style_def)
    then show ?thesis using m by (cases "dict_get (sn_nodes s1) j") (auto simp: a4(6) a3(6) s2_def split: if_splits)
  qed
  moreover have "dict_get (sn_nodes ?s) j \<noteq> None \<longleftrightarrow> dict_get (sn_nodes s1) j \<noteq> None" for j by (simp add: a4(6) a3(6) s2_def)
  ultimately have "place_ok ?s" using ok by (fastforce simp: scene_ok_def place_ok_def)
  then have "scene_ok ?s" using ok nodes \<open>\<And>j. (dict_get (sn_nodes ?s) j \<noteq> None) = (dict_get (sn_nodes s1) j \<noteq> None)\<close>
    by (fastforce simp: scene_ok_def same)
  then show ?thesis by (simp add: s)
qed

lemma set_channel_position_ok:
  assumes "scene_ok sc"
  shows "scene_ok (set_channel_position c p sc)"
proof (cases "dict_get (sn_channels sc) c")
  case None
  then show ?thesis using assms by (simp add: set_channel_position_def)
next
  case (Some ch)
  let ?s = "sc\<lparr>sn_channels := dict_set c (ch\<lparr>vc_pos := p\<rparr>) (sn_channels sc)\<rparr>"
  have l: "links_ok sc" and pa: "paths_ok sc" using assms by (simp_all add: scene_ok_def place_ok_def)
  have k: "knows ?s e k = knows sc e k" for e k by (cases e) (auto simp: knows_def dict_get_set Some)
  have "\<forall>k \<in> set (vc_links ch). k < length (sn_links ?s)"
  proof
    fix k
    assume "k \<in> set (vc_links ch)"
    then have "knows sc (Channel_End c) k" using Some by (simp add: knows_def)
    then show "k < length (sn_links ?s)" using l unfolding links_ok_def by simp
  qed
  then obtain ls where ls: "foldl update_points ?s (vc_links ch) = ?s\<lparr>sn_links := ls\<rparr>" "length ls = length (sn_links sc)"
    "\<And>k. k < length ls \<Longrightarrow> ls ! k = (if k \<in> set (vc_links ch) then (sn_links sc ! k)\<lparr>wl_path := current_path ?s (sn_links sc ! k)\<rparr> else sn_links sc ! k)"
    using redraw [of "vc_links ch" ?s] by auto
  let ?t = "?s\<lparr>sn_links := ls\<rparr>"
  have t: "set_channel_position c p sc = ?t" by (simp add: set_channel_position_def Some ls(1))
  have kt: "knows ?t e k = knows sc e k" for e k by (cases e) (auto simp: knows_def dict_get_set Some)
  have ends: "wl_node (ls ! m) = wl_node (sn_links sc ! m)" "wl_other (ls ! m) = wl_other (sn_links sc ! m)" if "m < length ls" for m
    using ls(3) [OF that] by simp_all
  have "links_ok ?t" using l by (simp add: links_ok_def kt ls(2) ends)
  moreover have "paths_ok ?t" unfolding paths_ok_def
  proof
    fix l'
    assume "l' \<in> set (sn_links ?t)"
    then obtain m where m: "m < length ls" "l' = ls ! m" by (auto simp: in_set_conv_nth)
    let ?l = "sn_links sc ! m"
    show "wl_path l' = None \<or> wl_path l' = current_path ?t l'"
    proof (cases "m \<in> set (vc_links ch)")
      case True
      then show ?thesis using ls(3) [OF m(1)] m(2) by simp
    next
      case False
      then have "\<not> knows sc (Channel_End c) m" by (simp add: knows_def Some)
      then have "wl_other ?l \<noteq> Channel_End c" using l m(1) ls(2) by (auto simp: links_ok_def)
      then have "current_path ?t ?l = current_path sc ?l"
        by (cases "wl_other ?l") (simp_all add: current_path_def end_pos_def dict_get_set)
      then show ?thesis using pa m False ls(2) ls(3) [OF m(1)] by (auto simp: paths_ok_def)
    qed
  qed
  ultimately show ?thesis using assms by (simp add: t scene_ok_def place_ok_def)
qed

section \<open>Any sequence of operations\<close>

datatype scene_op = Get_Node nat | Create_Link nat endpoint | Move nat "rat \<times> rat" | Move_Channel nat "rat \<times> rat"
  | Enter nat | Leave nat | Select_Node "nat option" | Resize nat rat | Colour nat "int + (int \<times> int \<times> int)"
  | Relabel nat string | Icon nat "rat \<times> rat" "rat option" "rat option" "rat \<times> rat"

primrec apply_op :: "py_version \<Rightarrow> scene \<Rightarrow> scene_op \<Rightarrow> scene res" where
  "apply_op ver sc (Get_Node i) = Inr (get_node i sc)"
| "apply_op ver sc (Create_Link i e) = Inr (create_link i e sc)"
| "apply_op ver sc (Move i p) = Inr (set_node_position i p sc)"
| "apply_op ver sc (Move_Channel c p) = Inr (set_channel_position c p sc)"
| "apply_op ver sc (Enter i) = Inr (set_highlighted True i sc)"
| "apply_op ver sc (Leave i) = Inr (set_highlighted False i sc)"
| "apply_op ver sc (Select_Node x) = select_in_scene x sc"
| "apply_op ver sc (Resize i s) = Inr (set_node_size s i sc)"
| "apply_op ver sc (Colour i c) = Inr (set_node_color c i sc)"
| "apply_op ver sc (Relabel i t) = set_label ver t i sc"
| "apply_op ver sc (Icon i fs w h align) = set_svg_icon fs w h align i sc"

lemma apply_op_ok:
  assumes "scene_ok sc" "apply_op ver sc p = Inr sc'"
  shows "scene_ok sc'"
proof (cases p)
  case (Icon i fs w h align)
  then obtain v where "sc' = change_node i (\<lambda>n. n\<lparr>vn_svg := Some (v n), vn_align := align\<rparr>) sc"
    using assms(2) by (auto simp: set_svg_icon_def Let_def bindE_Inr_conv split: option.splits if_splits)
  then show ?thesis using change_node_ok [OF assms(1), of "\<lambda>n. n\<lparr>vn_svg := Some (v n), vn_align := align\<rparr>" i] by simp
next
  case (Relabel i t)
  then have "sc' = change_node i (\<lambda>n. n\<lparr>vn_label := Some t\<rparr>) sc" using assms(2) by (simp add: set_label_def split: if_splits)
  then show ?thesis using change_node_ok [OF assms(1), of "\<lambda>n. n\<lparr>vn_label := Some t\<rparr>" i] by simp
next
  case (Select_Node x)
  then show ?thesis using select_ok [OF assms(1)] assms(2) by simp
next
  case (Enter i)
  then show ?thesis using change_node_ok [OF assms(1), of "\<lambda>n. n\<lparr>vn_highlighted := True\<rparr>" i] assms(2) by (simp add: set_highlighted_def)
next
  case (Leave i)
  then show ?thesis using change_node_ok [OF assms(1), of "\<lambda>n. n\<lparr>vn_highlighted := False\<rparr>" i] assms(2) by (simp add: set_highlighted_def)
next
  case (Resize i s)
  have "vn_label n = vn_label (n\<lparr>vn_size := s\<rparr>) \<and> vn_label_item n = vn_label_item (n\<lparr>vn_size := s\<rparr>)" for n by simp
  then show ?thesis using change_node_ok [OF assms(1), of "\<lambda>n. n\<lparr>vn_size := s\<rparr>" i] assms(2) Resize by (simp add: set_node_size_def)
next
  case (Colour i c)
  then show ?thesis
    using change_node_ok [OF assms(1), of "\<lambda>n. n\<lparr>vn_color := (case c of Inl k \<Rightarrow> k | Inr rgb \<Rightarrow> rgba_of rgb)\<rparr>" i] assms(2)
    by (simp add: set_node_color_def)
qed (use assms get_node_ok(1) create_link_ok set_node_position_ok set_channel_position_ok in auto)

text \<open>
  C36: The picture is never out of date. After any sequence of operations every link that has been drawn
  joins the present positions of its two ends, every node has the look of its fields and its label
  above it, all nodes are inside the canvas (where the canvas library lets it be widened), and
  exactly the selected node is marked as selected.
\<close>

theorem scene_current:
  assumes "foldE (apply_op ver) (new_scene usable) ops = Inr sc"
  shows "(\<forall>l \<in> set (sn_links sc). wl_path l = None \<or> wl_path l = current_path sc l) \<and>
    (\<forall>i n. dict_get (sn_nodes sc) i = Some n \<longrightarrow>
       vn_style n = node_style n \<and> inside_bounds (sn_bounds sc) (vn_pos n) \<and> (vn_selected n \<longleftrightarrow> sn_selected sc = Some i) \<and>
       vn_label_item n = map_option (\<lambda>t. (t, fst (vn_pos n), snd (vn_pos n) + vn_size n * 3)) (vn_label n))"
proof -
  have "scene_ok sc" by (rule foldE_inv [where I = scene_ok, OF assms new_scene_ok]) (rule apply_op_ok)
  then show ?thesis by (auto simp: scene_ok_def place_ok_def paths_ok_def look_ok_def label_ok_def)
qed

definition demo_ops :: "scene_op list" where
  "demo_ops = [Create_Link 0 (Node_End 1), Create_Link 1 (Channel_End 7), Move 0 (30, 20000), Move_Channel 7 (5, 5), Select_Node (Some 0)]"

theorem scene_current_witness:
  "\<exists>sc. foldE (apply_op Py2) (new_scene True) demo_ops = Inr sc \<and>
     map (\<lambda>l. wl_path l = current_path sc l) (sn_links sc) = [True, True] \<and> sn_bounds sc = Some (-10000, -10000, 10000, 20000)"
proof -
  let ?sc = "projr (foldE (apply_op Py2) (new_scene True) demo_ops)"
  have s: "foldE (apply_op Py2) (new_scene True) demo_ops = Inr ?sc" by code_simp
  have "map (\<lambda>l. wl_path l = None) (sn_links ?sc) = [False, False]" "sn_bounds ?sc = Some (-10000, -10000, 10000, 20000)" by code_simp+
  moreover have "map (\<lambda>l. wl_path l = current_path ?sc l) (sn_links ?sc) = map (\<lambda>l. True) (sn_links ?sc)"
  proof (rule map_cong [OF refl])
    fix l
    assume l: "l \<in> set (sn_links ?sc)"
    have "list_all (\<lambda>l. wl_path l \<noteq> None) (sn_links ?sc)" by code_simp
    then have n: "wl_path l \<noteq> None" using l unfolding list_all_iff by (rule bspec)
    have "wl_path l = None \<or> wl_path l = current_path ?sc l" by (rule bspec [OF scene_current [OF s, THEN conjunct1] l])
    then have "wl_path l = current_path ?sc l" by (rule disjE) (rule notE [OF n], assumption+)
    then show "(wl_path l = current_path ?sc l) = True" by (rule eqTrueI)
  qed
  moreover have "map (\<lambda>l. True) (sn_links ?sc) = [True, True]" by code_simp
  ultimately show ?thesis using s by (intro exI [of _ ?sc]) simp
qed

end
