(* ===== verification/Viz_Scan.thy ===== *)
theory Viz_Scan
  imports Viz_Nodes Py_Int
begin

text \<open>
  Reading the topology of a simulation into the scene: the traits of net devices in
  \<^verbatim>\<open>src/src/visualizer/visualizer/base.py\<close> and \<open>scan_topology\<close> in \<^verbatim>\<open>core.py\<close>. The
  simulation is a list of nodes with their devices and, for every channel, the nodes of its devices;
  the layout of the graph and the reading of floats are parameters.
\<close>

section \<open>Traits of net devices\<close>

record device_traits =
  nt_wireless :: "bool option"
  nt_virtual :: bool

definition new_traits :: "bool option \<Rightarrow> bool \<Rightarrow> device_traits res" where
  "new_traits wireless virtual =
     (if virtual \<or> wireless \<noteq> None then Inr \<lparr>nt_wireless = wireless, nt_virtual = virtual\<rparr> else Inl AssertionError)"

definition netdevice_traits :: "(string, device_traits) dict" where
  "netdevice_traits =
     [(''PointToPointNetDevice'', \<lparr>nt_wireless = Some False, nt_virtual = False\<rparr>),
      (''CsmaNetDevice'', \<lparr>nt_wireless = Some False, nt_virtual = False\<rparr>),
      (''WifiNetDevice'', \<lparr>nt_wireless = Some True, nt_virtual = False\<rparr>),
      (''BridgeNetDevice'', \<lparr>nt_wireless = None, nt_virtual = True\<rparr>),
      (''LoopbackNetDevice'', \<lparr>nt_wireless = Some False, nt_virtual = True\<rparr>),
      (''MeshPointDevice'', \<lparr>nt_wireless = None, nt_virtual = True\<rparr>),
      (''SubscriberStationNetDevice'', \<lparr>nt_wireless = Some True, nt_virtual = False\<rparr>),
      (''BaseStationNetDevice'', \<lparr>nt_wireless = Some True, nt_virtual = False\<rparr>),
      (''LteUeNetDevice'', \<lparr>nt_wireless = Some True, nt_virtual = False\<rparr>),
      (''LteEnbNetDevice'', \<lparr>nt_wireless = Some True, nt_virtual = False\<rparr>)]"

text \<open>An unknown type is warned about once and entered into the table as wireless.\<close>

definition lookup_netdevice_traits :: "string \<Rightarrow> (string, device_traits) dict \<times> string list \<Rightarrow>
    ((string, device_traits) dict \<times> string list) \<times> device_traits" where
  "lookup_netdevice_traits ty = (\<lambda>(table, warned).
     case dict_get table ty of
       Some t \<Rightarrow> ((table, warned), t)
     | None \<Rightarrow> (let t = \<lparr>nt_wireless = Some True, nt_virtual = False\<rparr> in ((dict_set ty t table, warned @ [ty]), t)))"

section \<open>The simulation\<close>

record netdevice =
  dv_type :: string
  dv_channel :: "nat option"

record ns3_node =
  nn_mobility :: "(rat \<times> rat) option"
  nn_devices :: "netdevice list"

record topology =
  tp_nodes :: "ns3_node list"
  tp_channel :: "nat \<Rightarrow> nat list" \<comment> \<open>the nodes of the devices on a channel\<close>

definition mobile :: "topology \<Rightarrow> nat \<Rightarrow> bool" where
  \<comment> \<open>\<open>has_mobility\<close>\<close>
  "mobile tp i = (nn_mobility (tp_nodes tp ! i) \<noteq> None)"

section \<open>The graph\<close>

text \<open>A strict undirected graph of \<open>pygraphviz\<close>: \<open>add_edge\<close> adds the ends that are missing.\<close>

record graph =
  gr_nodes :: "string list"
  gr_edges :: "(string \<times> string) list"

definition add_node :: "string \<Rightarrow> graph \<Rightarrow> graph" where
  "add_node a g = (if a \<in> set (gr_nodes g) then g else g\<lparr>gr_nodes := gr_nodes g @ [a]\<rparr>)"

definition add_edge :: "string \<Rightarrow> string \<Rightarrow> graph \<Rightarrow> graph" where
  "add_edge a b g =
     (let g1 = add_node b (add_node a g)
      in if (a, b) \<in> set (gr_edges g1) \<or> (b, a) \<in> set (gr_edges g1) then g1
         else g1\<lparr>gr_edges := gr_edges g1 @ [(a, b)]\<rparr>)"

definition node_name :: "nat \<Rightarrow> string" where "node_name i = ''Node '' @ show_nat i"
definition channel_name :: "nat \<Rightarrow> string" where "channel_name c = ''Channel '' @ show_nat c"

section \<open>The scan\<close>

record scan =
  sa_scene :: scene
  sa_graph :: graph
  sa_traits :: "(string, device_traits) dict \<times> string list"

definition scan_other :: "topology \<Rightarrow> nat \<Rightarrow> scan \<Rightarrow> nat \<Rightarrow> scan" where
  \<comment> \<open>another device on a channel of at most two\<close>
  "scan_other tp i s j =
     (let s1 = s\<lparr>sa_scene := get_node j (sa_scene s)\<rparr>
      in if j = i then s1
         else s1\<lparr>sa_graph := (if \<not> mobile tp i \<and> \<not> mobile tp j then add_edge (node_name i) (node_name j) (sa_graph s1) else sa_graph s1),
                 sa_scene := create_link i (Node_End j) (sa_scene s1)\<rparr>)"

definition scan_device :: "topology \<Rightarrow> nat \<Rightarrow> scan \<Rightarrow> netdevice \<Rightarrow> scan res" where
  "scan_device tp i s d =
     (let (tr, t) = lookup_netdevice_traits (dv_type d) (sa_traits s); s1 = s\<lparr>sa_traits := tr\<rparr>
      in if nt_wireless t = Some True \<or> nt_virtual t then Inr s1
         else (case dv_channel d of
             None \<Rightarrow> Inl AttributeError
           | Some c \<Rightarrow> Inr
               (if length (tp_channel tp c) > 2
                then s1\<lparr>sa_graph := (if mobile tp i then sa_graph s1 else add_edge (node_name i) (channel_name c) (sa_graph s1)),
                        sa_scene := create_link i (Channel_End c) (get_channel c (sa_scene s1))\<rparr>
                else foldl (scan_other tp i) s1 (tp_channel tp c))))"

definition named_red :: "int + (int \<times> int \<times> int)" where "named_red = Inr (65535, 0, 0)"

definition scan_node :: "topology \<Rightarrow> scan \<Rightarrow> nat \<Rightarrow> scan res" where
  "scan_node tp s i =
     (let n = tp_nodes tp ! i; s1 = s\<lparr>sa_scene := get_node i (sa_scene s)\<rparr>;
          s2 = (case nn_mobility n of
                  Some p \<Rightarrow> s1\<lparr>sa_scene := set_node_position i (point_to_canvas p) (set_node_color named_red i (sa_scene s1))\<rparr>
                | None \<Rightarrow> s1\<lparr>sa_graph := add_node (node_name i) (sa_graph s1)\<rparr>)
      in foldE (scan_device tp i) s2 (nn_devices n))"

definition read_pos :: "(string \<Rightarrow> rat option) \<Rightarrow> string \<Rightarrow> (rat \<times> rat) res" where
  \<comment> \<open>\<open>[float(s) for s in pos.split(',')]\<close> unpacked into two\<close>
  "read_pos rd s =
     bindE (mapE (\<lambda>x. case rd x of None \<Rightarrow> Inl ValueError | Some v \<Rightarrow> Inr v) (py_split CHR '','' s)) (\<lambda>vs.
     case vs of [x, y] \<Rightarrow> Inr (x, y) | _ \<Rightarrow> Inl ValueError)"

definition move_end :: "endpoint \<Rightarrow> rat \<times> rat \<Rightarrow> scene \<Rightarrow> scene" where
  "move_end e = (case e of Node_End i \<Rightarrow> set_node_position i | Channel_End c \<Rightarrow> set_channel_position c)"

text \<open>The object keeps its value from the round before when a name is of neither kind.\<close>

definition named_object :: "scene \<Rightarrow> endpoint option \<Rightarrow> string \<Rightarrow> string \<Rightarrow> endpoint option res" where
  "named_object sc obj ty ident =
     (if ty = ''Node'' then
        (case py_int 10 ident of None \<Rightarrow> Inl ValueError
         | Some i \<Rightarrow> if 0 \<le> i \<and> dict_get (sn_nodes sc) (nat i) \<noteq> None then Inr (Some (Node_End (nat i))) else Inl KeyError)
      else if ty = ''Channel'' then
        (case py_int 10 ident of None \<Rightarrow> Inl ValueError
         | Some c \<Rightarrow> if 0 \<le> c \<and> dict_get (sn_channels sc) (nat c) \<noteq> None then Inr (Some (Channel_End (nat c))) else Inl KeyError)
      else Inr obj)"

definition place_named :: "(string \<Rightarrow> rat option) \<Rightarrow> (string \<Rightarrow> string) \<Rightarrow> scene \<times> endpoint option \<Rightarrow> string \<Rightarrow> (scene \<times> endpoint option) res" where
  "place_named rd pos = (\<lambda>(sc, obj) name.
     case py_split CHR '' '' name of
       [ty, ident] \<Rightarrow>
         bindE (read_pos rd (pos name)) (\<lambda>p.
         bindE (named_object sc obj ty ident) (\<lambda>obj'.
         case obj' of
           None \<Rightarrow> Inl UnboundLocalError
         | Some e \<Rightarrow> Inr (move_end e p sc, obj')))
     | _ \<Rightarrow> Inl ValueError)"

definition scan_topology :: "(string \<Rightarrow> rat option) \<Rightarrow> (graph \<Rightarrow> string \<Rightarrow> string) \<Rightarrow> topology \<Rightarrow> scene \<Rightarrow>
    (string, device_traits) dict \<times> string list \<Rightarrow> scan res" where
  "scan_topology rd layout tp sc tr =
     bindE (foldE (scan_node tp) \<lparr>sa_scene = sc, sa_graph = \<lparr>gr_nodes = [], gr_edges = []\<rparr>, sa_traits = tr\<rparr> [0..<length (tp_nodes tp)]) (\<lambda>s.
     bindE (foldE (place_named rd (layout (sa_graph s))) (sa_scene s, None) (gr_nodes (sa_graph s))) (\<lambda>(sc', _).
     Inr (s\<lparr>sa_scene := sc'\<rparr>)))"

section \<open>Which links there are\<close>

definition link_ends :: "scene \<Rightarrow> (nat \<times> endpoint) list" where
  "link_ends sc = map (\<lambda>l. (wl_node l, wl_other l)) (sn_links sc)"

definition traits_of :: "(string, device_traits) dict \<Rightarrow> string \<Rightarrow> device_traits" where
  "traits_of table ty = (case dict_get table ty of Some t \<Rightarrow> t | None \<Rightarrow> \<lparr>nt_wireless = Some True, nt_virtual = False\<rparr>)"

definition wired :: "(string, device_traits) dict \<Rightarrow> netdevice \<Rightarrow> bool" where
  "wired table d = (nt_wireless (traits_of table (dv_type d)) \<noteq> Some True \<and> \<not> nt_virtual (traits_of table (dv_type d)))"

definition device_ends :: "topology \<Rightarrow> (string, device_traits) dict \<Rightarrow> nat \<Rightarrow> netdevice \<Rightarrow> endpoint list" where
  "device_ends tp table i d =
     (case dv_channel d of
        None \<Rightarrow> []
      | Some c \<Rightarrow> if \<not> wired table d then []
                  else if length (tp_channel tp c) > 2 then [Channel_End c]
                  else map Node_End (filter (\<lambda>j. j \<noteq> i) (tp_channel tp c)))"

lemma lookup_traits:
  assumes "lookup_netdevice_traits ty (table, warned) = ((table', warned'), t)"
  shows "t = traits_of table ty" "traits_of table' = traits_of table"
  using assms by (auto simp: lookup_netdevice_traits_def traits_of_def dict_get_set Let_def fun_eq_iff split: option.splits if_splits)

lemma update_points_ends: "link_ends (update_points sc k) = link_ends sc"
  by (cases "k < length (sn_links sc)")
    (auto simp: link_ends_def update_points_def intro!: nth_equalityI simp: nth_list_update)

lemma redraw_ends: "link_ends (foldl update_points sc ks) = link_ends sc"
  by (induction ks arbitrary: sc) (simp_all add: update_points_ends)

lemma put_node_ends [simp]: "link_ends (put_node i n sc) = link_ends sc" by (simp add: put_node_def link_ends_def)

lemma bounds_ends [simp]: "link_ends (sc\<lparr>sn_bounds := b\<rparr>) = link_ends sc" "link_ends (sc\<lparr>sn_channels := c\<rparr>) = link_ends sc"
  by (simp_all add: link_ends_def)

lemma set_node_position_ends [simp]: "link_ends (set_node_position i p sc) = link_ends sc"
  by (simp add: set_node_position_def redraw_ends Let_def split: option.splits)

lemma set_channel_position_ends [simp]: "link_ends (set_channel_position c p sc) = link_ends sc"
  by (simp add: set_channel_position_def redraw_ends split: option.splits)

lemma change_node_ends [simp]: "link_ends (change_node i f sc) = link_ends sc"
  by (simp add: change_node_def update_appearance_def Let_def split: option.splits)

lemma get_ends [simp]: "link_ends (get_node i sc) = link_ends sc" "link_ends (get_channel c sc) = link_ends sc" "link_ends (get_end e sc) = link_ends sc"
  by (simp_all add: get_node_def get_channel_def get_end_def split: option.splits endpoint.splits)

lemma add_link_ends [simp]: "link_ends (add_link k e sc) = link_ends sc"
  by (simp add: add_link_def split: option.splits endpoint.splits)

lemma create_link_ends [simp]: "link_ends (create_link i e sc) = link_ends sc @ [(i, e)]"
proof -
  have "link_ends (s\<lparr>sn_links := sn_links s @ [l]\<rparr>) = link_ends s @ [(wl_node l, wl_other l)]" for s l by (simp add: link_ends_def)
  then show ?thesis by (simp add: create_link_def Let_def)
qed

lemma scan_others_ends:
  "link_ends (sa_scene (foldl (scan_other tp i) s js)) = link_ends (sa_scene s) @ map (\<lambda>j. (i, Node_End j)) (filter (\<lambda>j. j \<noteq> i) js) \<and>
   sa_traits (foldl (scan_other tp i) s js) = sa_traits s"
  by (induction js arbitrary: s) (simp_all add: scan_other_def Let_def)

lemma scan_device_ends:
  assumes "scan_device tp i s d = Inr s'" "traits_of (fst (sa_traits s)) = traits_of table"
  shows "link_ends (sa_scene s') = link_ends (sa_scene s) @ map (Pair i) (device_ends tp table i d) \<and>
    traits_of (fst (sa_traits s')) = traits_of table"
proof -
  obtain t0 w0 where s: "sa_traits s = (t0, w0)" by (cases "sa_traits s")
  obtain t1 w1 t where l: "lookup_netdevice_traits (dv_type d) (t0, w0) = ((t1, w1), t)"
    by (metis prod.collapse)
  have t: "t = traits_of table (dv_type d)" "traits_of t1 = traits_of table" using lookup_traits [OF l] assms(2) s by simp_all
  show ?thesis
  proof (cases "wired table d")
    case False
    then show ?thesis using assms(1) t by (auto simp: scan_device_def s l wired_def device_ends_def split: option.splits if_splits)
  next
    case True
    show ?thesis
    proof (cases "dv_channel d")
      case None
      then show ?thesis using assms(1) True t by (simp add: scan_device_def s l wired_def Let_def)
    next
      case (Some c)
      then show ?thesis using assms(1) True t scan_others_ends [of tp i "s\<lparr>sa_traits := (t1, w1)\<rparr>" "tp_channel tp c"]
        by (auto simp: scan_device_def s l wired_def device_ends_def Let_def comp_def)
    qed
  qed
qed

lemma scan_devices_ends:
  "foldE (scan_device tp i) s ds = Inr s' \<Longrightarrow> traits_of (fst (sa_traits s)) = traits_of table \<Longrightarrow>
   link_ends (sa_scene s') = link_ends (sa_scene s) @ concat (map (\<lambda>d. map (Pair i) (device_ends tp table i d)) ds) \<and>
   traits_of (fst (sa_traits s')) = traits_of table"
proof (induction ds arbitrary: s)
  case Nil
  then show ?case by simp
next
  case (Cons d ds)
  obtain u where u: "scan_device tp i s d = Inr u" "foldE (scan_device tp i) u ds = Inr s'" using Cons.prems(1) by (auto simp: bindE_Inr_conv)
  have "link_ends (sa_scene u) = link_ends (sa_scene s) @ map (Pair i) (device_ends tp table i d)" "traits_of (fst (sa_traits u)) = traits_of table"
    using scan_device_ends [OF u(1) Cons.prems(2)] by simp_all
  then show ?case using Cons.IH [OF u(2)] by simp
qed

definition node_ends :: "topology \<Rightarrow> (string, device_traits) dict \<Rightarrow> nat \<Rightarrow> (nat \<times> endpoint) list" where
  "node_ends tp table i = concat (map (\<lambda>d. map (Pair i) (device_ends tp table i d)) (nn_devices (tp_nodes tp ! i)))"

lemma scan_node_ends:
  assumes "scan_node tp s i = Inr s'" "traits_of (fst (sa_traits s)) = traits_of table"
  shows "link_ends (sa_scene s') = link_ends (sa_scene s) @ node_ends tp table i \<and> traits_of (fst (sa_traits s')) = traits_of table"
proof -
  obtain s2 where s2: "foldE (scan_device tp i) s2 (nn_devices (tp_nodes tp ! i)) = Inr s'"
    "link_ends (sa_scene s2) = link_ends (sa_scene s)" "sa_traits s2 = sa_traits s"
    using assms(1) by (cases "nn_mobility (tp_nodes tp ! i)") (auto simp: scan_node_def Let_def set_node_color_def)
  show ?thesis using scan_devices_ends [OF s2(1), of table] s2(2,3) assms(2) by (simp add: node_ends_def)
qed

lemma scan_nodes_ends:
  "foldE (scan_node tp) s ks = Inr s' \<Longrightarrow> traits_of (fst (sa_traits s)) = traits_of table \<Longrightarrow>
   link_ends (sa_scene s') = link_ends (sa_scene s) @ concat (map (node_ends tp table) ks)"
proof (induction ks arbitrary: s)
  case Nil
  then show ?case by simp
next
  case (Cons i ks)
  obtain u where u: "scan_node tp s i = Inr u" "foldE (scan_node tp) u ks = Inr s'" using Cons.prems(1) by (auto simp: bindE_Inr_conv)
  have "link_ends (sa_scene u) = link_ends (sa_scene s) @ node_ends tp table i" "traits_of (fst (sa_traits u)) = traits_of table"
    using scan_node_ends [OF u(1) Cons.prems(2)] by simp_all
  then show ?case using Cons.IH [OF u(2)] by simp
qed

lemma move_end_ends [simp]: "link_ends (move_end e p sc) = link_ends sc"
  by (cases e) (simp_all add: move_end_def)

lemma place_named_ends:
  "place_named rd pos (sc, ob) nm = Inr (sc', ob') \<Longrightarrow> link_ends sc' = link_ends sc"
  by (auto simp: place_named_def bindE_Inr_conv split: list.splits option.splits)

lemma place_all_ends:
  "foldE (place_named rd pos) (sc, ob) ns = Inr (sc', ob') \<Longrightarrow> link_ends sc' = link_ends sc"
proof (induction ns arbitrary: sc ob)
  case Nil
  then show ?case by simp
next
  case (Cons n ns)
  obtain sc1 ob1 where u: "place_named rd pos (sc, ob) n = Inr (sc1, ob1)" "foldE (place_named rd pos) (sc1, ob1) ns = Inr (sc', ob')"
    using Cons.prems by (auto simp: bindE_Inr_conv)
  then show ?case using place_named_ends [OF u(1)] Cons.IH [OF u(2)] by simp
qed

lemma scan_links:
  assumes "scan_topology rd layout tp sc tr = Inr s"
  shows "link_ends (sa_scene s) = link_ends sc @ concat (map (node_ends tp (fst tr)) [0..<length (tp_nodes tp)])"
proof -
  obtain u sc' ob where u: "foldE (scan_node tp) \<lparr>sa_scene = sc, sa_graph = \<lparr>gr_nodes = [], gr_edges = []\<rparr>, sa_traits = tr\<rparr>
      [0..<length (tp_nodes tp)] = Inr u"
    "foldE (place_named rd (layout (sa_graph u))) (sa_scene u, None) (gr_nodes (sa_graph u)) = Inr (sc', ob)" "s = u\<lparr>sa_scene := sc'\<rparr>"
    using assms by (auto simp: scan_topology_def bindE_Inr_conv)
  show ?thesis using scan_nodes_ends [OF u(1), of "fst tr"] place_all_ends [OF u(2)] u(3) by simp
qed

text \<open>
  A topology is consistent when the devices on a channel are those of its nodes, and the devices on
  one channel are wired or not together.
\<close>

definition consistent :: "(string, device_traits) dict \<Rightarrow> topology \<Rightarrow> bool" where
  "consistent table tp \<longleftrightarrow>
     (\<forall>i < length (tp_nodes tp). \<forall>d \<in> set (nn_devices (tp_nodes tp ! i)). \<forall>c. dv_channel d = Some c \<longrightarrow>
        i \<in> set (tp_channel tp c) \<and>
        (\<forall>j \<in> set (tp_channel tp c). j < length (tp_nodes tp) \<and>
           (\<exists>d' \<in> set (nn_devices (tp_nodes tp ! j)). dv_channel d' = Some c \<and> wired table d' = wired table d)))"

text \<open>
  C37: What a scan draws: the links are exactly those that the devices ask for, in the order of nodes
  and devices - a link to the channel when more than two devices are on it, otherwise a link to
  every other node on it. So in a consistent topology every link between two nodes is drawn twice,
  once from each end.
\<close>

theorem scan_draws_links:
  assumes "scan_topology rd layout tp (new_scene usable) (table, warned) = Inr s"
  shows "link_ends (sa_scene s) = concat (map (node_ends tp table) [0..<length (tp_nodes tp)]) \<and>
    (consistent table tp \<longrightarrow> (\<forall>i j. (i, Node_End j) \<in> set (link_ends (sa_scene s)) \<longrightarrow> (j, Node_End i) \<in> set (link_ends (sa_scene s))))"
proof (intro conjI impI allI)
  have e: "link_ends (new_scene usable) = []" by (simp add: new_scene_def link_ends_def)
  with scan_links [OF assms]
  show l: "link_ends (sa_scene s) = concat (map (node_ends tp table) [0..<length (tp_nodes tp)])" by simp
  fix i j
  assume c: "consistent table tp" and "(i, Node_End j) \<in> set (link_ends (sa_scene s))"
  then obtain d ch where d: "i < length (tp_nodes tp)" "d \<in> set (nn_devices (tp_nodes tp ! i))" "dv_channel d = Some ch" "wired table d"
    "\<not> length (tp_channel tp ch) > 2" "j \<in> set (tp_channel tp ch)" "j \<noteq> i"
    by (force simp: l node_ends_def device_ends_def split: option.splits if_splits)
  then obtain d' where d': "d' \<in> set (nn_devices (tp_nodes tp ! j))" "dv_channel d' = Some ch" "wired table d'" "j < length (tp_nodes tp)"
    "i \<in> set (tp_channel tp ch)"
    using c unfolding consistent_def by metis
  have "Node_End i \<in> set (device_ends tp table j d')" using d' d(5,7) by (simp add: device_ends_def)
  then have "(j, Node_End i) \<in> set (node_ends tp table j)" using d'(1) by (auto simp: node_ends_def)
  then show "(j, Node_End i) \<in> set (link_ends (sa_scene s))" using d'(4) by (auto simp: l)
qed

text \<open>Two nodes with a point-to-point link and three on a bus with them.\<close>

definition demo_topology :: topology where
  "demo_topology =
     \<lparr>tp_nodes = [\<lparr>nn_mobility = Some (1, 2), nn_devices = [\<lparr>dv_type = ''PointToPointNetDevice'', dv_channel = Some 0\<rparr>]\<rparr>,
                  \<lparr>nn_mobility = None, nn_devices = [\<lparr>dv_type = ''PointToPointNetDevice'', dv_channel = Some 0\<rparr>,
                     \<lparr>dv_type = ''CsmaNetDevice'', dv_channel = Some 1\<rparr>]\<rparr>],
      tp_channel = (\<lambda>c. if c = 0 then [0, 1] else [1, 2, 3])\<rparr>"

definition demo_layout :: "graph \<Rightarrow> string \<Rightarrow> string" where
  "demo_layout g nm = (if nm = ''Node 1'' then ''10,20'' else ''30,40'')"

definition demo_read_float :: "string \<Rightarrow> rat option" where
  "demo_read_float s = map_option of_int (py_int 10 s)"

theorem scan_draws_links_witness:
  "\<exists>s. scan_topology demo_read_float demo_layout demo_topology (new_scene True) (netdevice_traits, []) = Inr s \<and>
     link_ends (sa_scene s) = [(0, Node_End 1), (1, Node_End 0), (1, Channel_End 1)]"
proof -
  let ?r = "scan_topology demo_read_float demo_layout demo_topology (new_scene True) (netdevice_traits, [])"
  have "is_ok ?r" by code_simp
  then obtain s where s: "?r = Inr s" by (cases ?r) auto
  have "concat (map (node_ends demo_topology netdevice_traits) [0..<length (tp_nodes demo_topology)]) =
      [(0, Node_End 1), (1, Node_End 0), (1, Channel_End 1)]" by code_simp
  then show ?thesis using scan_draws_links [OF s] s by simp
qed

section \<open>Where the nodes are drawn\<close>

abbreviation node_pos :: "scene \<Rightarrow> nat \<Rightarrow> (rat \<times> rat) option" where
  "node_pos sc i \<equiv> end_pos sc (Node_End i)"

lemma node_pos_put: "node_pos (put_node i n sc) j = (if j = i then Some (vn_pos n) else node_pos sc j)"
  by (simp add: end_pos_def put_node_def dict_get_set)

lemma redraw_nodes [simp]: "sn_nodes (foldl update_points sc ks) = sn_nodes sc"
  by (induction ks arbitrary: sc) (simp_all add: update_points_def)

lemma node_pos_set: "node_pos (set_node_position i p sc) j = (if j = i \<and> node_pos sc i \<noteq> None then Some p else node_pos sc j)"
proof (cases "dict_get (sn_nodes sc) i")
  case None
  then show ?thesis by (simp add: set_node_position_def end_pos_def)
next
  case (Some n)
  then have "node_pos sc i = Some (vn_pos n)" by (simp add: end_pos_def)
  moreover have "node_pos (set_node_position i p sc) j = (if j = i then Some p else node_pos sc j)"
    using Some by (simp add: set_node_position_def Let_def label_at_def end_pos_def put_node_def dict_get_set)
  ultimately show ?thesis by (simp only: option.distinct simp_thms)
qed

lemma node_pos_channel [simp]: "node_pos (set_channel_position c p sc) j = node_pos sc j"
  by (simp add: set_channel_position_def end_pos_def split: option.splits)

lemma node_pos_change:
  assumes "\<And>n. vn_pos (f n) = vn_pos n"
  shows "node_pos (change_node i f sc) j = node_pos sc j"
proof (cases "dict_get (sn_nodes sc) i")
  case None
  then show ?thesis by (simp add: change_node_def)
next
  case (Some n)
  then have "node_pos sc i = Some (vn_pos n)" by (simp add: end_pos_def)
  moreover have "dict_get (sn_nodes (put_node i (f n) sc)) i = Some (f n)" by (simp add: put_node_def dict_get_set)
  ultimately show ?thesis using Some assms
    by (cases "vn_label (f n)") (simp_all add: change_node_def update_appearance_def Let_def node_pos_set node_pos_put)
qed

definition holds_on :: "scene \<Rightarrow> scene \<Rightarrow> bool" where
  "holds_on sc sc' \<longleftrightarrow> (\<forall>i p. node_pos sc i = Some p \<longrightarrow> node_pos sc' i = Some p)"

lemma holds_on_refl [simp]: "holds_on sc sc" by (simp add: holds_on_def)

lemma holds_on_trans: "holds_on a b \<Longrightarrow> holds_on b c \<Longrightarrow> holds_on a c" by (simp add: holds_on_def)

lemma holds_on_get_node: "holds_on sc (get_node i sc)"
proof (cases "dict_get (sn_nodes sc) i")
  case None
  then have "node_pos sc i = None" by (simp add: end_pos_def)
  moreover have "get_node i sc = put_node i new_node sc" using None by (simp add: get_node_def)
  ultimately show ?thesis by (simp add: holds_on_def node_pos_put)
qed (simp add: get_node_def)

lemma holds_on_get_channel: "holds_on sc (get_channel c sc)"
  by (simp add: holds_on_def end_pos_def get_channel_nodes)

lemma node_pos_add_link [simp]: "node_pos (add_link k e sc) i = node_pos sc i"
  by (cases "dict_get (sn_nodes sc) i") (simp_all add: end_pos_def add_link_node)

lemma holds_on_add_link: "holds_on sc (add_link k e sc)"
  by (simp add: holds_on_def)

lemma holds_on_create_link: "holds_on sc (create_link i e sc)"
proof -
  have "holds_on sc (get_end e (get_node i sc))"
    by (cases e) (auto simp: get_end_def intro: holds_on_trans [OF holds_on_get_node] holds_on_get_node holds_on_get_channel)
  moreover have "holds_on s (s\<lparr>sn_links := ls\<rparr>)" for s ls by (simp add: holds_on_def end_pos_def)
  ultimately show ?thesis unfolding create_link_def Let_def by (meson holds_on_trans holds_on_add_link)
qed

lemma holds_on_others: "holds_on (sa_scene s) (sa_scene (foldl (scan_other tp i) s js))"
proof (induction js arbitrary: s)
  case Nil
  then show ?case by simp
next
  case (Cons j js)
  have "holds_on (sa_scene s) (sa_scene (scan_other tp i s j))"
    by (auto simp: scan_other_def Let_def intro: holds_on_get_node holds_on_trans [OF holds_on_get_node holds_on_create_link])
  then show ?case using Cons.IH [of "scan_other tp i s j"] holds_on_trans by auto
qed

lemma holds_on_device:
  assumes "scan_device tp i s d = Inr s'"
  shows "holds_on (sa_scene s) (sa_scene s')"
proof -
  obtain tr t where l: "lookup_netdevice_traits (dv_type d) (sa_traits s) = (tr, t)" by (cases "lookup_netdevice_traits (dv_type d) (sa_traits s)")
  show ?thesis using assms holds_on_others [of "s\<lparr>sa_traits := tr\<rparr>" tp i]
    by (auto simp: scan_device_def l Let_def split: if_splits option.splits intro: holds_on_trans [OF holds_on_get_channel holds_on_create_link])
qed

lemma holds_on_devices: "foldE (scan_device tp i) s ds = Inr s' \<Longrightarrow> holds_on (sa_scene s) (sa_scene s')"
proof (induction ds arbitrary: s)
  case Nil
  then show ?case by simp
next
  case (Cons d ds)
  then show ?case using holds_on_device holds_on_trans by (auto simp: bindE_Inr_conv) blast
qed

lemma get_node_there: "node_pos (get_node i sc) i \<noteq> None"
  by (simp add: get_node_def end_pos_def put_node_def dict_get_set split: option.splits)

lemma scan_node_pos:
  assumes "scan_node tp s i = Inr s'"
  shows "node_pos (sa_scene s') i \<noteq> None" "\<forall>j. j \<noteq> i \<or> \<not> mobile tp i \<longrightarrow> (\<forall>p. node_pos (sa_scene s) j = Some p \<longrightarrow> node_pos (sa_scene s') j = Some p)"
    and "nn_mobility (tp_nodes tp ! i) = Some p \<Longrightarrow> node_pos (sa_scene s') i = Some (point_to_canvas p)"
proof -
  obtain s2 where s2: "foldE (scan_device tp i) s2 (nn_devices (tp_nodes tp ! i)) = Inr s'"
    "sa_scene s2 = (case nn_mobility (tp_nodes tp ! i) of
        Some p \<Rightarrow> set_node_position i (point_to_canvas p) (set_node_color named_red i (get_node i (sa_scene s)))
      | None \<Rightarrow> get_node i (sa_scene s))"
    using assms by (cases "nn_mobility (tp_nodes tp ! i)") (auto simp: scan_node_def Let_def)
  have k: "holds_on (sa_scene s2) (sa_scene s')" by (rule holds_on_devices [OF s2(1)])
  have col: "node_pos (set_node_color c i sc) j = node_pos sc j" for c sc j unfolding set_node_color_def by (rule node_pos_change) simp
  obtain q where q: "node_pos (get_node i (sa_scene s)) i = Some q" using get_node_there [of i "sa_scene s"] by blast
  have p2: "node_pos (sa_scene s2) i = Some (case nn_mobility (tp_nodes tp ! i) of Some p \<Rightarrow> point_to_canvas p | None \<Rightarrow> q)"
    by (cases "nn_mobility (tp_nodes tp ! i)") (simp_all add: s2(2) node_pos_set col q)
  then have p': "node_pos (sa_scene s') i = Some (case nn_mobility (tp_nodes tp ! i) of Some p \<Rightarrow> point_to_canvas p | None \<Rightarrow> q)"
    using k unfolding holds_on_def by blast
  then show "nn_mobility (tp_nodes tp ! i) = Some p \<Longrightarrow> node_pos (sa_scene s') i = Some (point_to_canvas p)" by simp
  show "node_pos (sa_scene s') i \<noteq> None" using p' by simp
  show "\<forall>j. j \<noteq> i \<or> \<not> mobile tp i \<longrightarrow> (\<forall>p. node_pos (sa_scene s) j = Some p \<longrightarrow> node_pos (sa_scene s') j = Some p)"
  proof (intro allI impI)
    fix j p
    assume j: "j \<noteq> i \<or> \<not> mobile tp i" and "node_pos (sa_scene s) j = Some p"
    then have "node_pos (get_node i (sa_scene s)) j = Some p" using holds_on_get_node [of "sa_scene s" i] unfolding holds_on_def by blast
    then have "node_pos (sa_scene s2) j = Some p"
      using j by (cases "nn_mobility (tp_nodes tp ! i)") (simp_all add: s2(2) node_pos_set col mobile_def)
    then show "node_pos (sa_scene s') j = Some p" using k unfolding holds_on_def by blast
  qed
qed

lemma scan_nodes_pos:
  assumes "foldE (scan_node tp) s ks = Inr s'" "distinct ks" "i \<in> set ks"
  shows "node_pos (sa_scene s') i \<noteq> None \<and> (\<forall>p. nn_mobility (tp_nodes tp ! i) = Some p \<longrightarrow> node_pos (sa_scene s') i = Some (point_to_canvas p))"
  using assms
proof (induction ks arbitrary: s' rule: rev_induct)
  case Nil
  then show ?case by simp
next
  case (snoc k ks)
  obtain u where u: "foldE (scan_node tp) s ks = Inr u" "scan_node tp u k = Inr s'"
    using snoc.prems(1) by (auto simp: foldE_append bindE_Inr_conv)
  show ?case
  proof (cases "i = k")
    case True
    then show ?thesis using scan_node_pos(1,3) [OF u(2)] by blast
  next
    case False
    then have "i \<in> set ks" "distinct ks" using snoc.prems(2,3) by simp_all
    then have "node_pos (sa_scene u) i \<noteq> None" "\<forall>p. nn_mobility (tp_nodes tp ! i) = Some p \<longrightarrow> node_pos (sa_scene u) i = Some (point_to_canvas p)"
      using snoc.IH [OF u(1)] by blast+
    then show ?thesis using scan_node_pos(2) [OF u(2)] False by auto
  qed
qed

text \<open>The names in the graph: the nodes without a mobility model, all of them, and channels.\<close>

definition graph_ok :: "topology \<Rightarrow> graph \<Rightarrow> bool" where
  "graph_ok tp g \<longleftrightarrow> distinct (gr_nodes g) \<and>
     (\<forall>nm \<in> set (gr_nodes g). (\<exists>k. nm = node_name k \<and> \<not> mobile tp k) \<or> (\<exists>c. nm = channel_name c))"

lemma add_node_names: "set (gr_nodes (add_node a g)) = insert a (set (gr_nodes g))"
  by (auto simp: add_node_def)

lemma add_edge_names: "gr_nodes (add_edge a b g) = gr_nodes (add_node b (add_node a g))"
  by (simp add: add_edge_def Let_def)

lemma graph_ok_node: "graph_ok tp g \<Longrightarrow> \<not> mobile tp k \<Longrightarrow> graph_ok tp (add_node (node_name k) g)"
  by (auto simp: graph_ok_def add_node_def)

lemma graph_ok_channel: "graph_ok tp g \<Longrightarrow> graph_ok tp (add_node (channel_name c) g)"
  by (auto simp: graph_ok_def add_node_def)

lemma graph_ok_names: "gr_nodes g = gr_nodes g' \<Longrightarrow> graph_ok tp g = graph_ok tp g'"
  by (simp add: graph_ok_def)

definition graph_grows :: "topology \<Rightarrow> graph \<Rightarrow> graph \<Rightarrow> bool" where
  "graph_grows tp g g' \<longleftrightarrow> (graph_ok tp g \<longrightarrow> graph_ok tp g') \<and> set (gr_nodes g) \<subseteq> set (gr_nodes g')"

lemma grows_refl [simp]: "graph_grows tp g g" by (simp add: graph_grows_def)

lemma grows_trans: "graph_grows tp a b \<Longrightarrow> graph_grows tp b c \<Longrightarrow> graph_grows tp a c"
  by (auto simp: graph_grows_def)

lemma grows_edge:
  "\<not> mobile tp i \<Longrightarrow> \<not> mobile tp j \<Longrightarrow> graph_grows tp g (add_edge (node_name i) (node_name j) g)"
  "\<not> mobile tp i \<Longrightarrow> graph_grows tp g (add_edge (node_name i) (channel_name c) g)"
  by (auto simp: graph_grows_def graph_ok_names [OF add_edge_names] add_edge_names add_node_names intro: graph_ok_node graph_ok_channel)

lemma grows_others: "graph_grows tp (sa_graph s) (sa_graph (foldl (scan_other tp i) s js))"
proof (induction js arbitrary: s)
  case Nil
  then show ?case by simp
next
  case (Cons j js)
  have "graph_grows tp (sa_graph s) (sa_graph (scan_other tp i s j))"
    by (simp add: scan_other_def Let_def grows_edge)
  then show ?case using Cons.IH [of "scan_other tp i s j"] grows_trans by auto
qed

lemma grows_device:
  assumes "scan_device tp i s d = Inr s'"
  shows "graph_grows tp (sa_graph s) (sa_graph s')"
proof -
  obtain tr t where l: "lookup_netdevice_traits (dv_type d) (sa_traits s) = (tr, t)" by (cases "lookup_netdevice_traits (dv_type d) (sa_traits s)")
  show ?thesis using assms grows_others [of tp "s\<lparr>sa_traits := tr\<rparr>" i]
    by (auto simp: scan_device_def l Let_def grows_edge split: if_splits option.splits)
qed

lemma grows_devices: "foldE (scan_device tp i) s ds = Inr s' \<Longrightarrow> graph_grows tp (sa_graph s) (sa_graph s')"
proof (induction ds arbitrary: s)
  case Nil
  then show ?case by simp
next
  case (Cons d ds)
  then obtain u where u: "scan_device tp i s d = Inr u" "foldE (scan_device tp i) u ds = Inr s'" by (auto simp: bindE_Inr_conv)
  show ?case by (rule grows_trans [OF grows_device [OF u(1)] Cons.IH [OF u(2)]])
qed

lemma grows_node:
  assumes "scan_node tp s i = Inr s'"
  shows "graph_grows tp (sa_graph s) (sa_graph s')" "\<not> mobile tp i \<Longrightarrow> node_name i \<in> set (gr_nodes (sa_graph s'))"
proof -
  obtain s2 where s2: "foldE (scan_device tp i) s2 (nn_devices (tp_nodes tp ! i)) = Inr s'"
    "sa_graph s2 = (if mobile tp i then sa_graph s else add_node (node_name i) (sa_graph s))"
    using assms by (cases "nn_mobility (tp_nodes tp ! i)") (auto simp: scan_node_def Let_def mobile_def)
  have g: "graph_grows tp (sa_graph s2) (sa_graph s')" by (rule grows_devices [OF s2(1)])
  moreover have "graph_grows tp (sa_graph s) (sa_graph s2)"
    by (auto simp: s2(2) graph_grows_def add_node_names intro: graph_ok_node)
  ultimately show "graph_grows tp (sa_graph s) (sa_graph s')" by (rule grows_trans [rotated])
  show "\<not> mobile tp i \<Longrightarrow> node_name i \<in> set (gr_nodes (sa_graph s'))"
    using g by (auto simp: s2(2) graph_grows_def add_node_names)
qed

lemma grows_nodes:
  "foldE (scan_node tp) s ks = Inr s' \<Longrightarrow>
   graph_grows tp (sa_graph s) (sa_graph s') \<and> (\<forall>i \<in> set ks. \<not> mobile tp i \<longrightarrow> node_name i \<in> set (gr_nodes (sa_graph s')))"
proof (induction ks arbitrary: s' rule: rev_induct)
  case Nil
  then show ?case by simp
next
  case (snoc k ks)
  obtain u where u: "foldE (scan_node tp) s ks = Inr u" "scan_node tp u k = Inr s'"
    using snoc.prems by (auto simp: foldE_append bindE_Inr_conv)
  have g: "graph_grows tp (sa_graph u) (sa_graph s')" by (rule grows_node(1) [OF u(2)])
  have "graph_grows tp (sa_graph s) (sa_graph s')" using snoc.IH [OF u(1)] grows_trans g by blast
  moreover have "node_name i \<in> set (gr_nodes (sa_graph s'))" if "i \<in> set (ks @ [k])" "\<not> mobile tp i" for i
    using that snoc.IH [OF u(1)] g grows_node(2) [OF u(2)] by (auto simp: graph_grows_def)
  ultimately show ?case by blast
qed

text \<open>Reading the names back.\<close>

lemma node_name_split: "py_split CHR '' '' (node_name k) = [''Node'', show_nat k]"
proof -
  have "py_split CHR '' '' (''Node'' @ CHR '' '' # show_nat k) = ''Node'' # py_split CHR '' '' (show_nat k)"
    by (rule py_split_append) simp
  moreover have "py_split CHR '' '' (show_nat k) = [show_nat k]"
    by (rule py_split_no_sep, rule show_nat_no_char) (simp add: is_digit_def)
  ultimately show ?thesis by (simp add: node_name_def)
qed

lemma channel_name_split: "py_split CHR '' '' (channel_name k) = [''Channel'', show_nat k]"
proof -
  have "py_split CHR '' '' (''Channel'' @ CHR '' '' # show_nat k) = ''Channel'' # py_split CHR '' '' (show_nat k)"
    by (rule py_split_append) simp
  moreover have "py_split CHR '' '' (show_nat k) = [show_nat k]"
    by (rule py_split_no_sep, rule show_nat_no_char) (simp add: is_digit_def)
  ultimately show ?thesis by (simp add: channel_name_def)
qed

lemma node_name_inj: "node_name i = node_name j \<Longrightarrow> i = j"
  by (simp add: node_name_def) (metis parse_show_nat)

lemma place_node:
  assumes "place_named rd pos (sc, ob) (node_name k) = Inr (sc', ob')"
  shows "\<exists>p. read_pos rd (pos (node_name k)) = Inr p \<and> node_pos sc' k = Some p \<and> (\<forall>j. j \<noteq> k \<longrightarrow> node_pos sc' j = node_pos sc j)"
proof -
  obtain p where p: "read_pos rd (pos (node_name k)) = Inr p" "dict_get (sn_nodes sc) k \<noteq> None" "sc' = set_node_position k p sc"
    using assms by (auto simp: place_named_def node_name_split named_object_def py_int_show_nat move_end_def bindE_Inr_conv split: if_splits)
  then have "node_pos sc k \<noteq> None" by (simp add: end_pos_def)
  then show ?thesis using p by (simp only: node_pos_set) simp
qed

lemma place_channel:
  assumes "place_named rd pos (sc, ob) (channel_name c) = Inr (sc', ob')"
  shows "node_pos sc' j = node_pos sc j"
  using assms by (auto simp: place_named_def channel_name_split named_object_def py_int_show_nat move_end_def bindE_Inr_conv split: if_splits)

lemma place_all_pos:
  assumes "foldE (place_named rd pos) (sc, ob) ns = Inr (sc', ob')" "distinct ns"
    and "\<forall>nm \<in> set ns. (\<exists>k. nm = node_name k) \<or> (\<exists>c. nm = channel_name c)"
  shows "(node_name i \<in> set ns \<longrightarrow> (\<exists>p. read_pos rd (pos (node_name i)) = Inr p \<and> node_pos sc' i = Some p)) \<and>
    (node_name i \<notin> set ns \<longrightarrow> node_pos sc' i = node_pos sc i)"
  using assms
proof (induction ns arbitrary: sc' ob' rule: rev_induct)
  case Nil
  then show ?case by simp
next
  case (snoc nm ns)
  obtain sc1 ob1 where u: "foldE (place_named rd pos) (sc, ob) ns = Inr (sc1, ob1)" "place_named rd pos (sc1, ob1) nm = Inr (sc', ob')"
    using snoc.prems(1) by (auto simp: foldE_append bindE_Inr_conv)
  have IH: "(node_name i \<in> set ns \<longrightarrow> (\<exists>p. read_pos rd (pos (node_name i)) = Inr p \<and> node_pos sc1 i = Some p)) \<and>
    (node_name i \<notin> set ns \<longrightarrow> node_pos sc1 i = node_pos sc i)"
    using snoc.IH [OF u(1)] snoc.prems(2,3) by simp
  have nm: "nm \<notin> set ns" using snoc.prems(2) by simp
  consider k where "nm = node_name k" | c where "nm = channel_name c" using snoc.prems(3) by auto
  then show ?case
  proof cases
    case 1
    then obtain p where p: "read_pos rd (pos (node_name k)) = Inr p" "node_pos sc' k = Some p" "\<forall>j. j \<noteq> k \<longrightarrow> node_pos sc' j = node_pos sc1 j"
      using place_node u(2) by blast
    show ?thesis
    proof (cases "i = k")
      case True
      then show ?thesis using p 1 by simp
    next
      case False
      then have "node_name i \<noteq> nm" using 1 node_name_inj by blast
      then show ?thesis using IH p(3) False by simp
    qed
  next
    case 2
    then have "node_pos sc' i = node_pos sc1 i" using place_channel u(2) by blast
    moreover have "node_name i \<noteq> nm" using 2 by (simp add: node_name_def channel_name_def)
    ultimately show ?thesis using IH by simp
  qed
qed

text \<open>
  C38: Where a scan puts the nodes: every node of the simulation is in the scene, at the place of its
  mobility model in canvas coordinates if it has one, and otherwise where the layout of the graph
  puts it - whatever links and channels there are and in whatever order the graph is read.
\<close>

theorem scan_places_nodes:
  assumes "scan_topology rd layout tp sc tr = Inr s" and "i < length (tp_nodes tp)"
  shows "case nn_mobility (tp_nodes tp ! i) of
      Some p \<Rightarrow> end_pos (sa_scene s) (Node_End i) = Some (point_to_canvas p)
    | None \<Rightarrow> node_name i \<in> set (gr_nodes (sa_graph s)) \<and>
        (\<exists>p. read_pos rd (layout (sa_graph s) (node_name i)) = Inr p \<and> end_pos (sa_scene s) (Node_End i) = Some p)"
proof -
  obtain u sc' ob where u: "foldE (scan_node tp) \<lparr>sa_scene = sc, sa_graph = \<lparr>gr_nodes = [], gr_edges = []\<rparr>, sa_traits = tr\<rparr>
      [0..<length (tp_nodes tp)] = Inr u"
    "foldE (place_named rd (layout (sa_graph u))) (sa_scene u, None) (gr_nodes (sa_graph u)) = Inr (sc', ob)" "s = u\<lparr>sa_scene := sc'\<rparr>"
    using assms(1) by (auto simp: scan_topology_def bindE_Inr_conv)
  have i: "i \<in> set [0..<length (tp_nodes tp)]" using assms(2) by simp
  note g = grows_nodes [OF u(1)]
  have ok: "graph_ok tp (sa_graph u)" using g by (simp add: graph_grows_def graph_ok_def)
  then have names: "distinct (gr_nodes (sa_graph u))"
    "\<forall>nm \<in> set (gr_nodes (sa_graph u)). (\<exists>k. nm = node_name k) \<or> (\<exists>c. nm = channel_name c)" by (auto simp: graph_ok_def)
  note pl = place_all_pos [OF u(2) names, of i]
  show ?thesis
  proof (cases "nn_mobility (tp_nodes tp ! i)")
    case None
    then have "node_name i \<in> set (gr_nodes (sa_graph u))" using g i by (simp add: mobile_def)
    then show ?thesis using pl u(3) None by simp
  next
    case (Some p)
    have "node_name i \<notin> set (gr_nodes (sa_graph u))"
    proof
      assume "node_name i \<in> set (gr_nodes (sa_graph u))"
      then consider k where "node_name i = node_name k" "\<not> mobile tp k" | c where "node_name i = channel_name c"
        using ok unfolding graph_ok_def by blast
      then show False
      proof cases
        case 1
        then show False using node_name_inj [OF 1(1)] Some 1(2) by (simp add: mobile_def del: split_paired_All)
      qed (simp add: node_name_def channel_name_def)
    qed
    then have "node_pos sc' i = node_pos (sa_scene u) i" using pl by blast
    moreover have "node_pos (sa_scene u) i = Some (point_to_canvas p)" using scan_nodes_pos [OF u(1) _ i] Some by simp
    ultimately show ?thesis using u(3) Some by simp
  qed
qed

theorem scan_places_nodes_witness:
  "\<exists>s. scan_topology demo_read_float demo_layout demo_topology (new_scene True) (netdevice_traits, []) = Inr s \<and>
     end_pos (sa_scene s) (Node_End 0) = Some (3, 6)"
proof -
  let ?r = "scan_topology demo_read_float demo_layout demo_topology (new_scene True) (netdevice_traits, [])"
  have "is_ok ?r" by code_simp
  then obtain s where s: "?r = Inr s" by (cases ?r) auto
  have "end_pos (sa_scene s) (Node_End 0) = Some (3, 6)"
    using scan_places_nodes [OF s, of 0] by (simp add: demo_topology_def point_to_canvas_def pixels_per_meter_def)
  then show ?thesis using s by blast
qed

end
