(* ===== verification/Viz_Wifi.thy ===== *)
theory Viz_Wifi
  imports Viz_Nodes
begin

text \<open>
  The plugin of the visualizer that draws the associations of wireless stations,
  \<^verbatim>\<open>src/src/visualizer/visualizer/plugins/wifi_intrastructure_link.py\<close>: a link per station device,
  which is attached to the node of the access point that the station is associated with. A link is
  a position in the list of all links that were ever created; the simulator is asked through
  parameters, and positions are those of the scene.
\<close>

section \<open>Links\<close>

type_synonym place = "nat \<Rightarrow> rat \<times> rat"

record wifi_link =
  wf_sta :: "nat option"
  wf_dev :: "nat \<times> nat"
  wf_ap :: "nat option"
  wf_visible :: bool
  wf_points :: "((rat \<times> rat) \<times> (rat \<times> rat)) option"

text \<open>\<open>wm_node_links\<close> is what the field \<open>links\<close> of a node holds of these links.\<close>

record monitor =
  wm_aps :: "(string, nat) dict"
  wm_stations :: "((nat \<times> nat) \<times> nat \<times> nat) list"
  wm_links :: "wifi_link list"
  wm_node_links :: "nat \<Rightarrow> nat list"

definition new_monitor :: monitor where
  "new_monitor = \<lparr>wm_aps = [], wm_stations = [], wm_links = [], wm_node_links = (\<lambda>_. [])\<rparr>"

definition set_link :: "nat \<Rightarrow> (wifi_link \<Rightarrow> wifi_link) \<Rightarrow> monitor \<Rightarrow> monitor" where
  "set_link k f m = m\<lparr>wm_links := (wm_links m)[k := f (wm_links m ! k)]\<rparr>"

definition update_link_points :: "place \<Rightarrow> nat \<Rightarrow> monitor \<Rightarrow> monitor res" where
  \<comment> \<open>a link that was destroyed has no station any more\<close>
  "update_link_points pos k m =
     (case wf_ap (wm_links m ! k) of
        None \<Rightarrow> Inr m
      | Some a \<Rightarrow>
          (case wf_sta (wm_links m ! k) of
             None \<Rightarrow> Inl AttributeError
           | Some n \<Rightarrow> Inr (set_link k (\<lambda>l. l\<lparr>wf_points := Some (pos n, pos a)\<rparr>) m)))"

definition remove_link :: "nat \<Rightarrow> nat \<Rightarrow> monitor \<Rightarrow> monitor res" where
  \<comment> \<open>\<open>Node.remove_link\<close>\<close>
  "remove_link a k m =
     (if k \<in> set (wm_node_links m a)
      then Inr (m\<lparr>wm_node_links := (wm_node_links m)(a := remove1 k (wm_node_links m a))\<rparr>)
      else Inl ValueError)"

definition append_link :: "nat \<Rightarrow> nat \<Rightarrow> monitor \<Rightarrow> monitor" where
  \<comment> \<open>\<open>Node.add_link\<close>\<close>
  "append_link a k m = m\<lparr>wm_node_links := (wm_node_links m)(a := wm_node_links m a @ [k])\<rparr>"

definition set_ap :: "place \<Rightarrow> nat \<Rightarrow> nat option \<Rightarrow> monitor \<Rightarrow> monitor res" where
  "set_ap pos k ap m =
     (if ap = wf_ap (wm_links m ! k) then Inr m
      else
        bindE (case wf_ap (wm_links m ! k) of None \<Rightarrow> Inr m | Some a \<Rightarrow> remove_link a k m) (\<lambda>m1.
        let m2 = set_link k (\<lambda>l. l\<lparr>wf_ap := ap\<rparr>) m1;
            m3 = (case ap of
                    None \<Rightarrow> set_link k (\<lambda>l. l\<lparr>wf_visible := False\<rparr>) m2
                  | Some a \<Rightarrow> set_link k (\<lambda>l. l\<lparr>wf_visible := True\<rparr>) (append_link a k m2))
        in update_link_points pos k m3))"

definition new_link :: "nat \<Rightarrow> nat \<times> nat \<Rightarrow> monitor \<Rightarrow> monitor" where
  \<comment> \<open>\<open>set_ap(None)\<close> at the end finds nothing to do, so the empty link stays visible\<close>
  "new_link n d m =
     m\<lparr>wm_links := wm_links m @ [\<lparr>wf_sta = Some n, wf_dev = d, wf_ap = None, wf_visible = True, wf_points = None\<rparr>],
       wm_stations := wm_stations m @ [(d, n, length (wm_links m))]\<rparr>"

definition destroy_link :: "nat \<Rightarrow> monitor \<Rightarrow> monitor" where
  "destroy_link k = set_link k (\<lambda>l. l\<lparr>wf_sta := None, wf_ap := None\<rparr>)"

section \<open>The monitor\<close>

datatype wifi_mac = Sta_Mac | Ap_Mac string | Other_Mac | No_Wifi

definition scan_wifi_device :: "nat \<Rightarrow> monitor \<Rightarrow> nat \<times> wifi_mac \<Rightarrow> monitor" where
  "scan_wifi_device n m = (\<lambda>(i, mac).
     case mac of
       Sta_Mac \<Rightarrow> new_link n (n, i) m
     | Ap_Mac bssid \<Rightarrow> m\<lparr>wm_aps := dict_set bssid n (wm_aps m)\<rparr>
     | Other_Mac \<Rightarrow> m
     | No_Wifi \<Rightarrow> m)"

definition scan_nodes :: "(nat \<times> wifi_mac list) list \<Rightarrow> monitor \<Rightarrow> monitor" where
  "scan_nodes nodes m =
     (let m1 = foldl (\<lambda>m (_, _, k). destroy_link k m) m (wm_stations m)
      in foldl (\<lambda>m (n, macs). foldl (scan_wifi_device n) m (enumerate 0 macs)) (m1\<lparr>wm_aps := [], wm_stations := []\<rparr>) nodes)"

text \<open>What the simulator says of a station device: whether its link is up, and its BSSID.\<close>

type_synonym association = "nat \<times> nat \<Rightarrow> bool \<times> string"

definition no_bssid :: string where "no_bssid = ''00:00:00:00:00:00''"

definition update_station :: "place \<Rightarrow> association \<Rightarrow> (nat \<times> nat) \<times> nat \<times> nat \<Rightarrow> monitor \<Rightarrow> monitor res" where
  "update_station pos assoc = (\<lambda>(d, n, k) m.
     if \<not> fst (assoc d) then set_ap pos k None m
     else if snd (assoc d) = no_bssid then set_ap pos k None m
     else (case dict_get (wm_aps m) (snd (assoc d)) of
             None \<Rightarrow> Inl KeyError
           | Some a \<Rightarrow> set_ap pos k (Some a) m))"

primrec update_stations :: "place \<Rightarrow> association \<Rightarrow> ((nat \<times> nat) \<times> nat \<times> nat) list \<Rightarrow> monitor \<Rightarrow> monitor \<times> unit res" where
  \<comment> \<open>what was done before an exception stays done\<close>
  "update_stations pos assoc [] m = (m, Inr ())"
| "update_stations pos assoc (s # ss) m =
     (case update_station pos assoc s m of Inl e \<Rightarrow> (m, Inl e) | Inr m' \<Rightarrow> update_stations pos assoc ss m')"

definition monitor_update :: "place \<Rightarrow> association \<Rightarrow> monitor \<Rightarrow> monitor \<times> unit res" where
  \<comment> \<open>\<open>simulation_periodic_update\<close>\<close>
  "monitor_update pos assoc m = update_stations pos assoc (wm_stations m) m"

definition monitor_view :: "place \<Rightarrow> monitor \<Rightarrow> monitor res" where
  \<comment> \<open>\<open>update_view\<close>\<close>
  "monitor_view pos m = foldE (\<lambda>m (_, _, k). update_link_points pos k m) m (wm_stations m)"

definition node_moved :: "place \<Rightarrow> nat \<Rightarrow> monitor \<Rightarrow> monitor res" where
  \<comment> \<open>\<open>Node.set_position\<close> redraws the links of a node\<close>
  "node_moved pos a m = foldE (\<lambda>m k. update_link_points pos k m) m (wm_node_links m a)"

section \<open>Any sequence of signals\<close>

datatype wifi_event = Scanned "(nat \<times> wifi_mac list) list" | Periodic place association | Redraw place | Moved place nat

definition monitor_step :: "monitor \<Rightarrow> wifi_event \<Rightarrow> monitor \<times> unit res" where
  \<comment> \<open>the toolkit reports an exception of a callback and goes on\<close>
  "monitor_step m e =
     (let kept = (\<lambda>r. case r of Inl x \<Rightarrow> (m, Inl x) | Inr m' \<Rightarrow> (m', Inr ())) in
      case e of
        Scanned nodes \<Rightarrow> (scan_nodes nodes m, Inr ())
      | Periodic pos assoc \<Rightarrow> monitor_update pos assoc m
      | Redraw pos \<Rightarrow> kept (monitor_view pos m)
      | Moved pos a \<Rightarrow> kept (node_moved pos a m))"

definition run_monitor :: "monitor \<Rightarrow> wifi_event list \<Rightarrow> monitor" where
  "run_monitor = foldl (\<lambda>m e. fst (monitor_step m e))"

section \<open>The invariant\<close>

definition link_ok :: "monitor \<Rightarrow> nat \<Rightarrow> bool" where
  "link_ok m k \<longleftrightarrow>
     (let l = wm_links m ! k in
      (wf_ap l \<noteq> None \<longrightarrow> wf_sta l \<noteq> None \<and> wf_visible l) \<and> (wf_ap l = None \<and> wf_visible l \<and> wf_sta l \<noteq> None \<longrightarrow> wf_points l = None) \<and>
      (wf_sta l \<noteq> None \<longrightarrow> (\<forall>a. count (mset (wm_node_links m a)) k = (if wf_ap l = Some a then 1 else 0))))"

definition monitor_ok :: "monitor \<Rightarrow> bool" where
  "monitor_ok m \<longleftrightarrow>
     distinct (map (snd \<circ> snd) (wm_stations m)) \<and>
     (\<forall>(d, n, k) \<in> set (wm_stations m). k < length (wm_links m) \<and> wf_sta (wm_links m ! k) = Some n \<and> wf_dev (wm_links m ! k) = d) \<and>
     (\<forall>k < length (wm_links m). link_ok m k \<and> (wf_sta (wm_links m ! k) \<noteq> None \<longrightarrow> k \<in> (snd \<circ> snd) ` set (wm_stations m))) \<and>
     (\<forall>a. \<forall>k \<in> set (wm_node_links m a). k < length (wm_links m))"

lemma set_link_simps [simp]:
  "wm_aps (set_link k f m) = wm_aps m" "wm_stations (set_link k f m) = wm_stations m"
  "wm_node_links (set_link k f m) = wm_node_links m" "length (wm_links (set_link k f m)) = length (wm_links m)"
  "wm_links (set_link k f m) = (wm_links m)[k := f (wm_links m ! k)]"
  by (simp_all add: set_link_def)

text \<open>A change of one link that keeps its station and device, and that is right with the lists of the nodes.\<close>

lemma monitor_ok_change:
  assumes "monitor_ok m" "k < length (wm_links m)" "wm_stations m' = wm_stations m"
    "wm_links m' = (wm_links m)[k := l]" "wf_sta l = wf_sta (wm_links m ! k)" "wf_dev l = wf_dev (wm_links m ! k)"
    "\<And>a j. j \<noteq> k \<Longrightarrow> count (mset (wm_node_links m' a)) j = count (mset (wm_node_links m a)) j"
    "link_ok m' k"
  shows "monitor_ok m'"
proof -
  have other: "wm_links m' ! j = wm_links m ! j" if "j \<noteq> k" for j using that assms(4) by simp
  have here: "wm_links m' ! k = l" using assms(2,4) by simp
  have same: "wf_sta (wm_links m' ! j) = wf_sta (wm_links m ! j)" "wf_dev (wm_links m' ! j) = wf_dev (wm_links m ! j)" for j
    using other [of j] here assms(5,6) by (cases "j = k"; simp)+
  have len: "length (wm_links m') = length (wm_links m)" using assms(4) by simp
  have link: "link_ok m' j" if "j < length (wm_links m)" for j
  proof (cases "j = k")
    case False
    moreover have "link_ok m j" using assms(1) that by (simp add: monitor_ok_def)
    ultimately show ?thesis using other [of j] assms(7) [of j] by (simp add: link_ok_def)
  qed (use assms(8) in simp)
  have low: "j < length (wm_links m)" if "j \<in> set (wm_node_links m' a)" for a j
  proof (cases "j = k")
    case False
    then have "j \<in> set (wm_node_links m a)" using that assms(7) [of j a] by (metis count_mset_0_iff)
    then show ?thesis using assms(1) unfolding monitor_ok_def by blast
  qed (use assms(2) in simp)
  show ?thesis
    using assms(1) link low unfolding monitor_ok_def assms(3) len same by auto
qed

definition shown_points :: "place \<Rightarrow> wifi_link \<Rightarrow> ((rat \<times> rat) \<times> (rat \<times> rat)) option" where
  "shown_points pos l = (case (wf_sta l, wf_ap l) of (Some n, Some a) \<Rightarrow> Some (pos n, pos a) | _ \<Rightarrow> wf_points l)"

lemma shown_points_again [simp]: "shown_points pos (l\<lparr>wf_points := shown_points pos l\<rparr>) = shown_points pos l"
  by (simp add: shown_points_def split: option.splits)

lemma update_link_points_ok:
  assumes "monitor_ok m" "k < length (wm_links m)"
  shows "\<exists>m'. update_link_points pos k m = Inr m' \<and> monitor_ok m' \<and> wm_stations m' = wm_stations m \<and> wm_aps m' = wm_aps m \<and>
    wm_node_links m' = wm_node_links m \<and> wm_links m' = (wm_links m)[k := (wm_links m ! k)\<lparr>wf_points := shown_points pos (wm_links m ! k)\<rparr>]"
proof (cases "wf_ap (wm_links m ! k)")
  case None
  then have "shown_points pos (wm_links m ! k) = wf_points (wm_links m ! k)" by (simp add: shown_points_def split: option.splits)
  then show ?thesis using assms None by (intro exI [of _ m]) (simp add: update_link_points_def)
next
  case (Some a)
  have ok: "link_ok m k" using assms by (simp add: monitor_ok_def)
  then obtain n where n: "wf_sta (wm_links m ! k) = Some n" using Some by (auto simp: link_ok_def Let_def)
  let ?m = "set_link k (\<lambda>l. l\<lparr>wf_points := Some (pos n, pos a)\<rparr>) m"
  have "monitor_ok ?m"
    by (rule monitor_ok_change [OF assms, where l = "(wm_links m ! k)\<lparr>wf_points := Some (pos n, pos a)\<rparr>"])
      (use ok Some assms(2) n in \<open>simp_all add: link_ok_def Let_def\<close>)
  then show ?thesis using Some n
    by (intro exI [of _ ?m]) (simp add: update_link_points_def shown_points_def)
qed

text \<open>Attaching a link: nothing raises, and only this link and the lists of the two nodes change.\<close>

lemma set_ap_ok:
  assumes "monitor_ok m" "k < length (wm_links m)" "wf_sta (wm_links m ! k) \<noteq> None"
  shows "\<exists>m'. set_ap pos k ap m = Inr m' \<and> monitor_ok m' \<and> wm_stations m' = wm_stations m \<and> wm_aps m' = wm_aps m \<and>
    length (wm_links m') = length (wm_links m) \<and> wf_ap (wm_links m' ! k) = ap \<and> (\<forall>j. j \<noteq> k \<longrightarrow> wm_links m' ! j = wm_links m ! j)"
proof (cases "ap = wf_ap (wm_links m ! k)")
  case True
  then show ?thesis using assms by (intro exI [of _ m]) (simp add: set_ap_def)
next
  case False
  let ?l = "wm_links m ! k"
  have ok: "link_ok m k" using assms by (simp add: monitor_ok_def)
  define m1 where "m1 = m\<lparr>wm_node_links := (case wf_ap ?l of None \<Rightarrow> wm_node_links m | Some a \<Rightarrow> (wm_node_links m)(a := remove1 k (wm_node_links m a)))\<rparr>"
  have get: "(case wf_ap ?l of None \<Rightarrow> Inr m | Some a \<Rightarrow> remove_link a k m) = Inr m1"
  proof (cases "wf_ap ?l")
    case (Some a)
    then have "count (mset (wm_node_links m a)) k = 1" using ok assms(3) by (auto simp: link_ok_def Let_def)
    then have "k \<in> set (wm_node_links m a)" by (metis count_mset_0_iff zero_neq_one)
    then show ?thesis using Some by (simp add: remove_link_def m1_def)
  qed (simp add: m1_def)
  define m2 where "m2 = set_link k (\<lambda>l. l\<lparr>wf_ap := ap\<rparr>) m1"
  define m3 where "m3 = (case ap of None \<Rightarrow> set_link k (\<lambda>l. l\<lparr>wf_visible := False\<rparr>) m2
      | Some a \<Rightarrow> set_link k (\<lambda>l. l\<lparr>wf_visible := True\<rparr>) (append_link a k m2))"
  have e: "set_ap pos k ap m = update_link_points pos k m3"
    unfolding set_ap_def get m3_def m2_def Let_def bindE_simps using False by simp
  have m1: "count (mset (wm_node_links m1 a)) k = 0" for a
  proof -
    have c: "count (mset (wm_node_links m a)) k = (if wf_ap ?l = Some a then 1 else 0)"
      using ok assms(3) unfolding link_ok_def Let_def by blast
    then show ?thesis by (cases "wf_ap ?l") (auto simp: m1_def simp del: count_eq_zero_iff count_mset_0_iff split: if_splits)
  qed
  have m1o: "j \<noteq> k \<Longrightarrow> count (mset (wm_node_links m1 a)) j = count (mset (wm_node_links m a)) j" for a j
    by (cases "wf_ap ?l") (simp_all add: m1_def)
  have links: "wm_links m3 = (wm_links m)[k := ?l\<lparr>wf_ap := ap, wf_visible := (ap \<noteq> None)\<rparr>]"
    "wm_stations m3 = wm_stations m" "wm_aps m3 = wm_aps m"
    using assms(2) by (cases ap; simp add: m3_def m2_def m1_def append_link_def)+
  have nl: "wm_node_links m3 a = wm_node_links m1 a @ (if ap = Some a then [k] else [])" for a
    by (cases ap) (simp_all add: m3_def m2_def append_link_def)
  have "monitor_ok m3"
  proof (rule monitor_ok_change [OF assms(1,2) links(2,1)])
    show "count (mset (wm_node_links m3 a)) j = count (mset (wm_node_links m a)) j" if "j \<noteq> k" for a j
      using m1o [OF that, of a] that by (simp add: nl)
    show "link_ok m3 k" using assms(2,3) m1 by (auto simp: link_ok_def Let_def links(1) nl)
  qed simp_all
  moreover have "k < length (wm_links m3)" using links(1) assms(2) by simp
  ultimately obtain m' where m': "update_link_points pos k m3 = Inr m'" "monitor_ok m'" "wm_stations m' = wm_stations m3" "wm_aps m' = wm_aps m3"
    "wm_links m' = (wm_links m3)[k := (wm_links m3 ! k)\<lparr>wf_points := shown_points pos (wm_links m3 ! k)\<rparr>]"
    using update_link_points_ok by blast
  then show ?thesis using links assms(2) e by (intro exI [of _ m']) simp
qed

section \<open>A new scan\<close>

lemma destroy_all:
  "wm_node_links (foldl (\<lambda>m (_, _, k). destroy_link k m) m ss) = wm_node_links m \<and>
   length (wm_links (foldl (\<lambda>m (_, _, k). destroy_link k m) m ss)) = length (wm_links m) \<and>
   (\<forall>j < length (wm_links m). wm_links (foldl (\<lambda>m (_, _, k). destroy_link k m) m ss) ! j =
      (if j \<in> (snd \<circ> snd) ` set ss then (wm_links m ! j)\<lparr>wf_sta := None, wf_ap := None\<rparr> else wm_links m ! j))"
proof (induction ss arbitrary: m)
  case (Cons s ss)
  obtain d n k where s: "s = (d, n, k)" by (cases s)
  have "wm_links (destroy_link k m) ! j = (if j = k then (wm_links m ! k)\<lparr>wf_sta := None, wf_ap := None\<rparr> else wm_links m ! j)"
    if "j < length (wm_links m)" for j using that by (simp add: destroy_link_def)
  moreover have "wm_node_links (destroy_link k m) = wm_node_links m" "length (wm_links (destroy_link k m)) = length (wm_links m)"
    by (simp_all add: destroy_link_def)
  ultimately show ?case using Cons.IH [of "destroy_link k m"] by (auto simp: s)
qed simp

lemma scan_device_ok: "monitor_ok m \<Longrightarrow> monitor_ok (scan_wifi_device n m im)"
proof -
  assume a: "monitor_ok m"
  have "monitor_ok (new_link n d m)" for d
  proof -
    have fresh: "length (wm_links m) \<notin> set (wm_node_links m x)" for x using a unfolding monitor_ok_def by blast
    then have "count (mset (wm_node_links m x)) (length (wm_links m)) = 0" for x by simp
    then have this_ok: "link_ok (new_link n d m) (length (wm_links m))" by (simp add: link_ok_def new_link_def)
    have others: "link_ok (new_link n d m) j = link_ok m j" if "j < length (wm_links m)" for j
      using that by (simp add: link_ok_def new_link_def nth_append)
    have dist: "length (wm_links m) \<notin> (snd \<circ> snd) ` set (wm_stations m)" using a by (fastforce simp: monitor_ok_def)
    show ?thesis unfolding monitor_ok_def
    proof (intro conjI)
      show "distinct (map (snd \<circ> snd) (wm_stations (new_link n d m)))" using a dist by (simp add: monitor_ok_def new_link_def)
      show "\<forall>(d', n', k) \<in> set (wm_stations (new_link n d m)). k < length (wm_links (new_link n d m)) \<and>
          wf_sta (wm_links (new_link n d m) ! k) = Some n' \<and> wf_dev (wm_links (new_link n d m) ! k) = d'"
        using a by (auto simp: monitor_ok_def new_link_def nth_append)
      show "\<forall>k < length (wm_links (new_link n d m)). link_ok (new_link n d m) k \<and>
          (wf_sta (wm_links (new_link n d m) ! k) \<noteq> None \<longrightarrow> k \<in> (snd \<circ> snd) ` set (wm_stations (new_link n d m)))"
        using a this_ok others by (auto simp: monitor_ok_def less_Suc_eq new_link_def nth_append)
      show "\<forall>x. \<forall>k \<in> set (wm_node_links (new_link n d m) x). k < length (wm_links (new_link n d m))"
        using a by (auto simp: monitor_ok_def new_link_def less_Suc_eq)
    qed
  qed
  moreover have "monitor_ok (m\<lparr>wm_aps := x\<rparr>)" for x using a by (simp add: monitor_ok_def link_ok_def)
  ultimately show ?thesis using a by (auto simp: scan_wifi_device_def split: wifi_mac.splits prod.splits)
qed

lemma scan_nodes_ok: "monitor_ok m \<Longrightarrow> monitor_ok (scan_nodes nodes m)"
proof -
  assume a: "monitor_ok m"
  define m1 where "m1 = (foldl (\<lambda>m (_, _, k). destroy_link k m) m (wm_stations m))\<lparr>wm_aps := [], wm_stations := []\<rparr>"
  note d = destroy_all [of m "wm_stations m"]
  have gone: "wf_sta (wm_links m1 ! j) = None \<and> wf_ap (wm_links m1 ! j) = None" if "j < length (wm_links m)" for j
  proof (cases "j \<in> (snd \<circ> snd) ` set (wm_stations m)")
    case True
    then show ?thesis using d that by (simp add: m1_def)
  next
    case False
    moreover have "link_ok m j" "wf_sta (wm_links m ! j) = None" using a that False unfolding monitor_ok_def by blast+
    ultimately show ?thesis using d that by (simp add: m1_def link_ok_def Let_def)
  qed
  have len: "length (wm_links m1) = length (wm_links m)" and nl: "wm_node_links m1 = wm_node_links m" using d by (simp_all add: m1_def)
  have "monitor_ok m1"
    using a gone by (simp add: monitor_ok_def link_ok_def Let_def len nl) (simp add: m1_def)
  moreover have "monitor_ok m \<Longrightarrow> monitor_ok (foldl (scan_wifi_device n) m xs)" for m n xs
    by (induction xs arbitrary: m) (simp_all add: scan_device_ok)
  then have "monitor_ok m \<Longrightarrow> monitor_ok (foldl (\<lambda>m (n, macs). foldl (scan_wifi_device n) m (enumerate 0 macs)) m nodes)" for m
    by (induction nodes arbitrary: m) (auto split: prod.splits)
  ultimately show ?thesis unfolding scan_nodes_def Let_def m1_def by blast
qed

section \<open>An update of the stations\<close>

definition wanted_ap :: "monitor \<Rightarrow> association \<Rightarrow> nat \<times> nat \<Rightarrow> nat option res" where
  "wanted_ap m assoc d =
     (if \<not> fst (assoc d) \<or> snd (assoc d) = no_bssid then Inr None
      else (case dict_get (wm_aps m) (snd (assoc d)) of None \<Rightarrow> Inl KeyError | Some a \<Rightarrow> Inr (Some a)))"

lemma update_station_wanted:
  "update_station pos assoc (d, n, k) m = bindE (wanted_ap m assoc d) (\<lambda>ap. set_ap pos k ap m)"
  by (simp add: update_station_def wanted_ap_def split: option.splits)

lemma update_stations_ok:
  assumes "monitor_ok m" "set ss \<subseteq> set (wm_stations m)" "distinct (map (snd \<circ> snd) ss)" "update_stations pos assoc ss m = (m', r)"
  shows "monitor_ok m' \<and> wm_stations m' = wm_stations m \<and> wm_aps m' = wm_aps m \<and>
    (\<forall>j. j \<notin> (snd \<circ> snd) ` set ss \<longrightarrow> wm_links m' ! j = wm_links m ! j) \<and>
    (case r of Inr _ \<Rightarrow> (\<forall>(d, n, k) \<in> set ss. wanted_ap m assoc d = Inr (wf_ap (wm_links m' ! k)))
     | Inl e \<Rightarrow> e = KeyError \<and> (\<exists>(d, n, k) \<in> set ss. wanted_ap m assoc d = Inl KeyError))"
  using assms
proof (induction ss arbitrary: m)
  case Nil
  then show ?case by auto
next
  case (Cons s ss)
  obtain d n k where s: "s = (d, n, k)" by (cases s)
  show ?case
  proof (cases "wanted_ap m assoc d")
    case (Inl e)
    then have "e = KeyError" by (auto simp: wanted_ap_def split: if_splits option.splits)
    then show ?thesis using Cons.prems Inl by (auto simp: s update_station_wanted)
  next
    case (Inr ap)
    have "(d, n, k) \<in> set (wm_stations m)" using Cons.prems(2) by (simp add: s)
    then have "k < length (wm_links m)" "wf_sta (wm_links m ! k) \<noteq> None" using Cons.prems(1) by (auto simp: monitor_ok_def)
    from set_ap_ok [OF Cons.prems(1) this] obtain m1 where m1: "set_ap pos k ap m = Inr m1" "monitor_ok m1"
      "wm_stations m1 = wm_stations m" "wm_aps m1 = wm_aps m" "wf_ap (wm_links m1 ! k) = ap"
      "\<forall>j. j \<noteq> k \<longrightarrow> wm_links m1 ! j = wm_links m ! j" by blast
    have want: "wanted_ap m1 = wanted_ap m" using m1(4) by (simp add: wanted_ap_def fun_eq_iff)
    have "update_stations pos assoc ss m1 = (m', r)" using Cons.prems(4) Inr m1(1) by (simp add: s update_station_wanted)
    from Cons.IH [OF m1(2) _ _ this, unfolded want m1(3,4)] Cons.prems(2,3)
    have ih: "monitor_ok m'" "wm_stations m' = wm_stations m" "wm_aps m' = wm_aps m"
      "\<forall>j. j \<notin> (snd \<circ> snd) ` set ss \<longrightarrow> wm_links m' ! j = wm_links m1 ! j"
      "case r of Inr _ \<Rightarrow> (\<forall>(d, n, k) \<in> set ss. wanted_ap m assoc d = Inr (wf_ap (wm_links m' ! k)))
        | Inl e \<Rightarrow> e = KeyError \<and> (\<exists>(d, n, k) \<in> set ss. wanted_ap m assoc d = Inl KeyError)"
      by simp_all
    have "k \<notin> (snd \<circ> snd) ` set ss" using Cons.prems(3) by (simp add: s)
    then have "wf_ap (wm_links m' ! k) = ap" using ih(4) m1(5) by simp
    moreover have "\<forall>j. j \<notin> (snd \<circ> snd) ` set (s # ss) \<longrightarrow> wm_links m' ! j = wm_links m ! j" using ih(4) m1(6) by (simp add: s)
    ultimately show ?thesis using ih Inr by (cases r) (auto simp: s)
  qed
qed

section \<open>Redrawing\<close>

lemma redraw_links_ok:
  assumes "monitor_ok m" "\<forall>k \<in> set ks. k < length (wm_links m)"
  shows "\<exists>m'. foldE (\<lambda>m k. update_link_points pos k m) m ks = Inr m' \<and> monitor_ok m' \<and> wm_stations m' = wm_stations m \<and>
    length (wm_links m') = length (wm_links m) \<and>
    (\<forall>j < length (wm_links m). wm_links m' ! j =
       (if j \<in> set ks then (wm_links m ! j)\<lparr>wf_points := shown_points pos (wm_links m ! j)\<rparr> else wm_links m ! j))"
  using assms
proof (induction ks arbitrary: m)
  case (Cons k ks)
  obtain m1 where m1: "update_link_points pos k m = Inr m1" "monitor_ok m1" "wm_stations m1 = wm_stations m"
    "wm_links m1 = (wm_links m)[k := (wm_links m ! k)\<lparr>wf_points := shown_points pos (wm_links m ! k)\<rparr>]"
    using update_link_points_ok [OF Cons.prems(1), of k pos] Cons.prems(2) by auto
  obtain m' where m': "foldE (\<lambda>m k. update_link_points pos k m) m1 ks = Inr m'" "monitor_ok m'" "wm_stations m' = wm_stations m1"
    "length (wm_links m') = length (wm_links m1)"
    "\<forall>j < length (wm_links m1). wm_links m' ! j =
       (if j \<in> set ks then (wm_links m1 ! j)\<lparr>wf_points := shown_points pos (wm_links m1 ! j)\<rparr> else wm_links m1 ! j)"
    using Cons.IH [OF m1(2)] Cons.prems(2) m1(4) by auto
  have "wm_links m' ! j = (if j \<in> set (k # ks) then (wm_links m ! j)\<lparr>wf_points := shown_points pos (wm_links m ! j)\<rparr> else wm_links m ! j)"
    if "j < length (wm_links m)" for j
    using m'(5) m1(4) that by (cases "j = k") simp_all
  then show ?case using m1(1,3,4) m'(1-4) by auto
qed simp

lemma monitor_view_links: "monitor_view pos m = foldE (\<lambda>m k. update_link_points pos k m) m (map (snd \<circ> snd) (wm_stations m))"
proof -
  have "foldE (\<lambda>m (_, _, k). update_link_points pos k m) m ss = foldE (\<lambda>m k. update_link_points pos k m) m (map (snd \<circ> snd) ss)"
    for m and ss :: "((nat \<times> nat) \<times> nat \<times> nat) list"
    by (induction ss arbitrary: m) (auto simp: bindE_def split: sum.splits)
  then show ?thesis by (simp add: monitor_view_def)
qed

lemma monitor_step_ok: "monitor_ok m \<Longrightarrow> monitor_ok (fst (monitor_step m e))"
proof -
  assume a: "monitor_ok m"
  then have st: "\<forall>k \<in> set (map (snd \<circ> snd) (wm_stations m)). k < length (wm_links m)"
    and nl: "\<forall>k \<in> set (wm_node_links m x). k < length (wm_links m)" for x
    by (auto simp: monitor_ok_def)
  show ?thesis
  proof (cases e)
    case (Scanned nodes)
    then show ?thesis using scan_nodes_ok [OF a] by (simp add: monitor_step_def)
  next
    case (Periodic pos assoc)
    moreover obtain m' r where u: "update_stations pos assoc (wm_stations m) m = (m', r)" by fastforce
    moreover have "distinct (map (snd \<circ> snd) (wm_stations m))" using a by (simp add: monitor_ok_def)
    ultimately show ?thesis using update_stations_ok [OF a subset_refl _ u] by (simp add: monitor_step_def monitor_update_def)
  next
    case (Redraw pos)
    then show ?thesis using redraw_links_ok [OF a st, of pos] by (auto simp: monitor_step_def monitor_view_links)
  next
    case (Moved pos x)
    then show ?thesis using redraw_links_ok [OF a nl, of pos x] by (auto simp: monitor_step_def node_moved_def)
  qed
qed

lemma run_monitor_ok: "monitor_ok (run_monitor new_monitor es)"
proof -
  have "monitor_ok m \<Longrightarrow> monitor_ok (run_monitor m es)" for m
    unfolding run_monitor_def by (induction es arbitrary: m) (simp_all add: monitor_step_ok)
  moreover have "monitor_ok new_monitor" by (simp add: monitor_ok_def new_monitor_def)
  ultimately show ?thesis by blast
qed

section \<open>The links follow the associations\<close>

text \<open>
  C40: After any signals: an update that returns leaves every link attached to the access point that its
  station names, or to none; it can only end in KeyError, when a station names an access point that
  the scan did not find. Either way every link is in the list of its access point once and in no
  other list, a link with an access point is visible, and the next redrawing gives it its ends.
\<close>

theorem wifi_links_follow:
  assumes "monitor_update pos assoc (run_monitor new_monitor es) = (m, r)"
  shows "(case r of
      Inr _ \<Rightarrow> (\<forall>(d, n, k) \<in> set (wm_stations m). wanted_ap m assoc d = Inr (wf_ap (wm_links m ! k)))
    | Inl e \<Rightarrow> e = KeyError \<and> (\<exists>(d, n, k) \<in> set (wm_stations m). wanted_ap m assoc d = Inl KeyError)) \<and>
    (\<forall>(d, n, k) \<in> set (wm_stations m).
       (\<forall>a. count (mset (wm_node_links m a)) k = (if wf_ap (wm_links m ! k) = Some a then 1 else 0)) \<and>
       (wf_ap (wm_links m ! k) \<noteq> None \<longrightarrow> wf_visible (wm_links m ! k))) \<and>
    (\<exists>m'. monitor_view pos m = Inr m' \<and>
       (\<forall>(d, n, k) \<in> set (wm_stations m). \<forall>a. wf_ap (wm_links m ! k) = Some a \<longrightarrow> wf_points (wm_links m' ! k) = Some (pos n, pos a)))"
proof (intro conjI)
  let ?m = "run_monitor new_monitor es"
  have ok: "monitor_ok ?m" by (rule run_monitor_ok)
  then have "distinct (map (snd \<circ> snd) (wm_stations ?m))" by (simp add: monitor_ok_def)
  note u = update_stations_ok [OF ok subset_refl this assms [unfolded monitor_update_def]]
  have want: "wanted_ap m = wanted_ap ?m" using u by (simp add: wanted_ap_def fun_eq_iff)
  have stations: "wm_stations m = wm_stations ?m" using u by blast
  show "case r of
      Inr _ \<Rightarrow> (\<forall>(d, n, k) \<in> set (wm_stations m). wanted_ap m assoc d = Inr (wf_ap (wm_links m ! k)))
    | Inl e \<Rightarrow> e = KeyError \<and> (\<exists>(d, n, k) \<in> set (wm_stations m). wanted_ap m assoc d = Inl KeyError)"
    unfolding want stations using u by blast
  have m: "monitor_ok m" using u by blast
  have st: "k < length (wm_links m) \<and> link_ok m k \<and> wf_sta (wm_links m ! k) = Some n" if "(d, n, k) \<in> set (wm_stations m)" for d n k
    using m that unfolding monitor_ok_def by fastforce
  show "\<forall>(d, n, k) \<in> set (wm_stations m).
       (\<forall>a. count (mset (wm_node_links m a)) k = (if wf_ap (wm_links m ! k) = Some a then 1 else 0)) \<and>
       (wf_ap (wm_links m ! k) \<noteq> None \<longrightarrow> wf_visible (wm_links m ! k))"
  proof (rule ballI, clarify, rule conjI)
    fix d1 d2 n k
    assume a: "((d1, d2), n, k) \<in> set (wm_stations m)"
    show "\<forall>a. count (mset (wm_node_links m a)) k = (if wf_ap (wm_links m ! k) = Some a then 1 else 0)"
      using st [OF a] unfolding link_ok_def Let_def by blast
    show "wf_ap (wm_links m ! k) \<noteq> None \<longrightarrow> wf_visible (wm_links m ! k)"
      using st [OF a] unfolding link_ok_def Let_def by blast
  qed
  have "\<forall>k \<in> set (map (snd \<circ> snd) (wm_stations m)). k < length (wm_links m)" using st by auto
  from redraw_links_ok [OF m this, of pos] obtain m' where m': "monitor_view pos m = Inr m'"
    "\<And>k. k < length (wm_links m) \<Longrightarrow> k \<in> set (map (snd \<circ> snd) (wm_stations m)) \<Longrightarrow>
      wm_links m' ! k = (wm_links m ! k)\<lparr>wf_points := shown_points pos (wm_links m ! k)\<rparr>"
    unfolding monitor_view_links by auto
  have "wf_points (wm_links m' ! k) = Some (pos n, pos a)"
    if "(d, n, k) \<in> set (wm_stations m)" "wf_ap (wm_links m ! k) = Some a" for d n k a
  proof -
    have "k \<in> set (map (snd \<circ> snd) (wm_stations m))" using that(1) by force
    then show ?thesis using m'(2) [of k] st [OF that(1)] that(2) by (simp add: shown_points_def)
  qed
  then show "\<exists>m'. monitor_view pos m = Inr m' \<and>
       (\<forall>(d, n, k) \<in> set (wm_stations m). \<forall>a. wf_ap (wm_links m ! k) = Some a \<longrightarrow> wf_points (wm_links m' ! k) = Some (pos n, pos a))"
    using m'(1) by (intro exI [of _ m']) auto
qed

text \<open>A station that goes from one access point to another.\<close>

definition demo_nodes :: "(nat \<times> wifi_mac list) list" where
  "demo_nodes = [(0, [Ap_Mac ''a'']), (1, [No_Wifi, Sta_Mac]), (2, [Ap_Mac ''b''])]"

definition demo_place :: place where "demo_place i = (of_nat i, 0)"

definition demo_events :: "wifi_event list" where
  "demo_events = [Scanned demo_nodes, Periodic demo_place (\<lambda>_. (True, ''a'')), Redraw demo_place, Scanned demo_nodes,
     Periodic demo_place (\<lambda>_. (True, ''a''))]"

theorem wifi_links_follow_witness:
  "\<exists>m. monitor_update demo_place (\<lambda>_. (True, ''b'')) (run_monitor new_monitor demo_events) = (m, Inr ()) \<and>
     wm_stations m = [((1, 1), 1, 1)] \<and> wf_ap (wm_links m ! 1) = Some 2 \<and> count (mset (wm_node_links m 2)) 1 = 1"
proof -
  let ?u = "monitor_update demo_place (\<lambda>_. (True, ''b'')) (run_monitor new_monitor demo_events)"
  have r: "snd ?u = Inr ()" by code_simp
  have s: "wm_stations (fst ?u) = [((1, 1), 1, 1)]" by code_simp
  have w: "wanted_ap (fst ?u) (\<lambda>_. (True, ''b'')) (1, 1) = Inr (Some 2)" by code_simp
  have p: "?u = (fst ?u, Inr ())" using r by (metis prod.collapse)
  have "wf_ap (wm_links (fst ?u) ! 1) = Some 2" "count (mset (wm_node_links (fst ?u) 2)) 1 = 1"
    using wifi_links_follow [OF p] w unfolding s by auto
  then show ?thesis using p s by blast
qed

end
