(* ===== verification/Viz_View.thy ===== *)
theory Viz_View
  imports Viz_Scan
begin

text \<open>
  What the user does with the window of the visualizer, \<^verbatim>\<open>src/src/visualizer/visualizer/core.py\<close>:
  panning, zooming, following and dragging nodes, the node size, the first scaling and the picture
  of the visible part. The canvas and its scroll bars belong to the toolkit: how it converts between
  canvas and pixels, and which value a scroll bar or the zoom takes when it is set, are parameters.
\<close>

section \<open>The toolkit\<close>

type_synonym point = "rat \<times> rat"

text \<open>The conversions depend on the zoom and the bounds of the canvas, a scroll bar on its page size, too.\<close>

type_synonym canvas_state = "rat \<times> (rat \<times> rat \<times> rat \<times> rat) option"

record toolkit =
  tk_to_pixels :: "canvas_state \<Rightarrow> point \<Rightarrow> point"
  tk_from_pixels :: "canvas_state \<Rightarrow> point \<Rightarrow> point"
  tk_hscroll :: "canvas_state \<Rightarrow> rat \<Rightarrow> rat \<Rightarrow> rat"
  tk_vscroll :: "canvas_state \<Rightarrow> rat \<Rightarrow> rat \<Rightarrow> rat"
  tk_zoom :: "rat \<Rightarrow> rat"
  tk_rescaled :: "canvas_state \<Rightarrow> rat \<Rightarrow> point \<Rightarrow> point \<Rightarrow> point"  \<comment> \<open>where the scroll bars are after a change of the scale\<close>

section \<open>The window\<close>

text \<open>
  \<open>vw_handlers\<close> holds the nodes whose item has the motion handler of a drag connected, and
  \<open>vw_mobility\<close> the positions of the mobility models of the simulator.
\<close>

record node_drag =
  dg_canvas :: point
  dg_sim :: point
  dg_signal :: nat

record view =
  vw_scroll :: point
  vw_page :: point
  vw_zoom :: rat
  vw_panning :: "(point \<times> point) option"
  vw_drag :: "node_drag option"
  vw_handlers :: "nat list"
  vw_follow :: "nat option"
  vw_scene :: scene
  vw_mobility :: "nat \<Rightarrow> point option"

definition canvas_of :: "view \<Rightarrow> canvas_state" where
  "canvas_of v = (vw_zoom v, sn_bounds (vw_scene v))"

definition scroll_to_value :: "toolkit \<Rightarrow> point \<Rightarrow> view \<Rightarrow> view" where
  \<comment> \<open>\<open>set_value\<close> of both scroll bars\<close>
  "scroll_to_value tk p v =
     v\<lparr>vw_scroll := (tk_hscroll tk (canvas_of v) (fst (vw_page v)) (fst p), tk_vscroll tk (canvas_of v) (snd (vw_page v)) (snd p))\<rparr>"

definition set_zoom :: "toolkit \<Rightarrow> rat \<Rightarrow> view \<Rightarrow> view" where
  "set_zoom tk z v =
     (let z' = tk_zoom tk z in
      if z' = vw_zoom v then v
      else v\<lparr>vw_zoom := z', vw_scroll := tk_rescaled tk (canvas_of v) z' (vw_page v) (vw_scroll v)\<rparr>)"

text \<open>Panning with the middle button and zooming with the wheel.\<close>

definition begin_panning :: "point \<Rightarrow> view \<Rightarrow> view" where
  "begin_panning mouse v = v\<lparr>vw_panning := Some (mouse, vw_scroll v)\<rparr>"

definition end_panning :: "view \<Rightarrow> view" where
  "end_panning v = (case vw_panning v of None \<Rightarrow> v | Some _ \<Rightarrow> v\<lparr>vw_panning := None\<rparr>)"

definition panning_motion :: "toolkit \<Rightarrow> point \<Rightarrow> view \<Rightarrow> view res" where
  "panning_motion tk mouse v =
     (case vw_panning v of
        None \<Rightarrow> Inl AssertionError
      | Some (m0, c0) \<Rightarrow>
          (let d = (fst mouse - fst m0, snd mouse - snd m0)
           in Inr (scroll_to_value tk (fst c0 - fst d, snd c0 - snd d) v)))"

definition canvas_button_press :: "nat \<Rightarrow> point \<Rightarrow> view \<Rightarrow> view \<times> bool" where
  "canvas_button_press button mouse v = (if button = 2 then (begin_panning mouse v, True) else (v, False))"

definition canvas_button_release :: "nat \<Rightarrow> view \<Rightarrow> view \<times> bool" where
  "canvas_button_release button v = (if button = 2 then (end_panning v, True) else (v, False))"

datatype wheel = Wheel_Up | Wheel_Down | Wheel_Other

definition canvas_scroll_event :: "toolkit \<Rightarrow> wheel \<Rightarrow> view \<Rightarrow> view \<times> bool" where
  "canvas_scroll_event tk w v =
     (case w of
        Wheel_Up \<Rightarrow> (set_zoom tk (vw_zoom v * (125 / 100)) v, True)
      | Wheel_Down \<Rightarrow> (set_zoom tk (vw_zoom v / (125 / 100)) v, True)
      | Wheel_Other \<Rightarrow> (v, False))"

section \<open>Nodes on the screen\<close>

definition center_at :: "toolkit \<Rightarrow> point \<Rightarrow> view \<Rightarrow> view" where
  "center_at tk p v =
     (let q = tk_to_pixels tk (canvas_of v) p
      in scroll_to_value tk (fst q - fst (vw_page v) / 2, snd q - snd (vw_page v) / 2) v)"

definition center_on_node :: "toolkit \<Rightarrow> nat \<Rightarrow> view \<Rightarrow> view res" where
  "center_on_node tk i v =
     (case node_pos (vw_scene v) i of None \<Rightarrow> Inl KeyError | Some p \<Rightarrow> Inr (center_at tk p v))"

definition set_follow_node :: "nat \<Rightarrow> view \<Rightarrow> view res" where
  "set_follow_node i v = (if node_pos (vw_scene v) i = None then Inl KeyError else Inr (v\<lparr>vw_follow := Some i\<rparr>))"

definition update_node_position :: "toolkit \<Rightarrow> view \<Rightarrow> nat \<Rightarrow> view" where
  "update_node_position tk v i =
     (case vw_mobility v i of
        None \<Rightarrow> v
      | Some s \<Rightarrow>
          (let p = point_to_canvas s; v1 = v\<lparr>vw_scene := set_node_position i p (vw_scene v)\<rparr>
           in if vw_follow v1 = Some i then center_at tk p v1 else v1))"

definition update_node_positions :: "toolkit \<Rightarrow> view \<Rightarrow> view" where
  "update_node_positions tk v = foldl (update_node_position tk) v (dict_keys (sn_nodes (vw_scene v)))"

definition node_size_changed :: "rat \<Rightarrow> view \<Rightarrow> view" where
  "node_size_changed sz v =
     v\<lparr>vw_scene := foldl (\<lambda>sc i. set_node_size sz i sc) (vw_scene v) (dict_keys (sn_nodes (vw_scene v)))\<rparr>"

text \<open>The first scaling: all nodes on two thirds of the window, with their middle in the middle.\<close>

definition node_places :: "scene \<Rightarrow> point list" where
  "node_places sc = map (\<lambda>(_, n). vn_pos n) (sn_nodes sc)"

definition autoscale_view :: "toolkit \<Rightarrow> view \<Rightarrow> view" where
  "autoscale_view tk v =
     (if sn_nodes (vw_scene v) = [] then v
      else
        (let v1 = update_node_positions tk v; ps = node_places (vw_scene v1);
             lo = (Min (fst ` set ps), Min (snd ` set ps)); hi = (Max (fst ` set ps), Max (snd ` set ps));
             lo_px = tk_to_pixels tk (canvas_of v1) lo; hi_px = tk_to_pixels tk (canvas_of v1) hi;
             new_dx = 3 / 2 * (fst hi_px - fst lo_px); new_dy = 3 / 2 * (snd hi_px - snd lo_px)
         in if new_dx = 0 \<or> new_dy = 0 then v1
            else
              (let v2 = set_zoom tk (min (fst (vw_page v1) / new_dx) (snd (vw_page v1) / new_dy)) v1;
                   a = tk_from_pixels tk (canvas_of v2) (vw_scroll v2);
                   b = tk_from_pixels tk (canvas_of v2) (fst (vw_scroll v2) + fst (vw_page v2), snd (vw_scroll v2) + snd (vw_page v2));
                   width = fst b - fst a; height = snd b - snd a;
                   center = ((fst lo + fst hi) / 2, (snd lo + snd hi) / 2)
               in scroll_to_value tk (tk_to_pixels tk (canvas_of v2) (fst center - width / 2, snd center - height / 2)) v2)))"

text \<open>The visible part of the canvas, and the picture of it that is saved.\<close>

definition visible_area :: "toolkit \<Rightarrow> view \<Rightarrow> rat \<times> rat \<times> rat \<times> rat" where
  "visible_area tk v =
     (let a = tk_from_pixels tk (canvas_of v) (vw_scroll v);
          b = tk_from_pixels tk (canvas_of v) (fst (vw_scroll v) + fst (vw_page v), snd (vw_scroll v) + snd (vw_page v))
      in (fst a, snd a, fst b, snd b))"

datatype surface = Ps_Surface string rat rat | Pdf_Surface string rat rat | Svg_Surface string rat rat

datatype picture = No_Picture | Unknown_Extension string | Rendered surface "rat \<times> rat \<times> rat \<times> rat" rat

definition take_screenshot :: "toolkit \<Rightarrow> (string \<Rightarrow> string) \<Rightarrow> (string \<Rightarrow> string) \<Rightarrow> string option \<Rightarrow> view \<Rightarrow> picture" where
  \<comment> \<open>\<open>ext\<close> is \<open>os.path.splitext\<close>, \<open>lower\<close> the method of strings; \<open>None\<close> is a cancelled dialog\<close>
  "take_screenshot tk ext lower file_name v =
     (case file_name of
        None \<Rightarrow> No_Picture
      | Some f \<Rightarrow>
          (let (x1, y1, x2, y2) = visible_area tk v; w = x2 - x1; h = y2 - y1; e = lower (ext f)
           in if e = ''.eps'' then Rendered (Ps_Surface f w h) (x1, y1, x2, y2) (vw_zoom v)
              else if e = ''.pdf'' then Rendered (Pdf_Surface f w h) (x1, y1, x2, y2) (vw_zoom v)
              else if e = ''.svg'' then Rendered (Svg_Surface f w h) (x1, y1, x2, y2) (vw_zoom v)
              else Unknown_Extension e))"

section \<open>Dragging a node\<close>

definition begin_node_drag :: "toolkit \<Rightarrow> point \<Rightarrow> nat \<Rightarrow> view \<Rightarrow> view" where
  \<comment> \<open>\<open>mouse\<close> is the place of the pointer in the window of the canvas\<close>
  "begin_node_drag tk mouse i v =
     (case vw_mobility v i of
        None \<Rightarrow> v
      | Some s \<Rightarrow>
          if vw_drag v \<noteq> None then v
          else v\<lparr>vw_drag := Some \<lparr>dg_canvas = tk_from_pixels tk (canvas_of v) mouse, dg_sim = s, dg_signal = i\<rparr>,
                 vw_handlers := vw_handlers v @ [i]\<rparr>)"

definition node_drag_motion :: "toolkit \<Rightarrow> point \<Rightarrow> nat \<Rightarrow> view \<Rightarrow> view" where
  "node_drag_motion tk mouse i v =
     (case (vw_mobility v i, vw_drag v) of
        (Some _, Some d) \<Rightarrow>
          (let c = tk_from_pixels tk (canvas_of v) mouse;
               s = (fst (dg_sim d) + distance_to_simulation (fst c - fst (dg_canvas d)),
                    snd (dg_sim d) + distance_to_simulation (snd c - snd (dg_canvas d)))
           in v\<lparr>vw_mobility := (vw_mobility v)(i := Some s), vw_scene := set_node_position i (point_to_canvas s) (vw_scene v)\<rparr>)
      | _ \<Rightarrow> v)"

definition end_node_drag :: "nat \<Rightarrow> view \<Rightarrow> view" where
  \<comment> \<open>only a handler of the item of this node can be disconnected\<close>
  "end_node_drag i v =
     (case vw_drag v of
        None \<Rightarrow> v
      | Some d \<Rightarrow> v\<lparr>vw_drag := None, vw_handlers := (if dg_signal d = i then remove1 i (vw_handlers v) else vw_handlers v)\<rparr>)"

definition motion_event :: "toolkit \<Rightarrow> point \<Rightarrow> nat \<Rightarrow> view \<Rightarrow> view" where
  \<comment> \<open>the toolkit calls every handler that is connected to the item of the node\<close>
  "motion_event tk mouse i v = foldl (\<lambda>v _. node_drag_motion tk mouse i v) v (filter (\<lambda>j. j = i) (vw_handlers v))"

section \<open>Where an update puts the nodes\<close>

lemma scroll_simps [simp]:
  "vw_scene (scroll_to_value tk p v) = vw_scene v" "vw_mobility (scroll_to_value tk p v) = vw_mobility v"
  "vw_drag (scroll_to_value tk p v) = vw_drag v" "vw_handlers (scroll_to_value tk p v) = vw_handlers v"
  "vw_zoom (scroll_to_value tk p v) = vw_zoom v" "vw_page (scroll_to_value tk p v) = vw_page v"
  by (simp_all add: scroll_to_value_def)

lemma center_simps [simp]:
  "vw_scene (center_at tk p v) = vw_scene v" "vw_mobility (center_at tk p v) = vw_mobility v"
  "vw_drag (center_at tk p v) = vw_drag v" "vw_handlers (center_at tk p v) = vw_handlers v"
  "vw_zoom (center_at tk p v) = vw_zoom v" "vw_page (center_at tk p v) = vw_page v"
  by (simp_all add: center_at_def Let_def)

lemma zoom_simps [simp]:
  "vw_scene (set_zoom tk z v) = vw_scene v" "vw_mobility (set_zoom tk z v) = vw_mobility v" "vw_drag (set_zoom tk z v) = vw_drag v"
  "vw_handlers (set_zoom tk z v) = vw_handlers v" "vw_zoom (set_zoom tk z v) = tk_zoom tk z" "vw_page (set_zoom tk z v) = vw_page v"
  by (simp_all add: set_zoom_def Let_def)

lemma update_one_simps [simp]:
  "vw_mobility (update_node_position tk v i) = vw_mobility v" "vw_drag (update_node_position tk v i) = vw_drag v"
  "vw_handlers (update_node_position tk v i) = vw_handlers v" "vw_zoom (update_node_position tk v i) = vw_zoom v"
  "vw_page (update_node_position tk v i) = vw_page v"
  by (simp_all add: update_node_position_def Let_def split: option.splits)

lemma update_one_pos:
  "node_pos (vw_scene (update_node_position tk v i)) j =
     (if j = i \<and> node_pos (vw_scene v) i \<noteq> None \<and> vw_mobility v i \<noteq> None
      then map_option point_to_canvas (vw_mobility v i) else node_pos (vw_scene v) j)"
  by (cases "vw_mobility v i") (simp_all add: update_node_position_def Let_def node_pos_set del: split_paired_Ex split_paired_All)

lemma update_all:
  fixes tk v and "is" :: "nat list"
  defines "v' \<equiv> foldl (update_node_position tk) v is"
  shows "vw_mobility v' = vw_mobility v \<and> vw_drag v' = vw_drag v \<and> vw_handlers v' = vw_handlers v \<and> vw_zoom v' = vw_zoom v \<and> vw_page v' = vw_page v \<and>
    (\<forall>j. node_pos (vw_scene v') j =
       (if j \<in> set is \<and> node_pos (vw_scene v) j \<noteq> None \<and> vw_mobility v j \<noteq> None
        then map_option point_to_canvas (vw_mobility v j) else node_pos (vw_scene v) j))"
  unfolding v'_def
proof (induction "is" arbitrary: v)
  case (Cons i "is")
  show ?case using Cons.IH [of "update_node_position tk v i"] by (auto simp: update_one_pos simp del: split_paired_Ex split_paired_All)
qed simp

lemma node_pos_dict: "node_pos sc i \<noteq> None \<longleftrightarrow> i \<in> set (dict_keys (sn_nodes sc))"
proof -
  have "node_pos sc i \<noteq> None \<longleftrightarrow> dict_get (sn_nodes sc) i \<noteq> None" by (simp add: end_pos_def del: split_paired_Ex)
  also have "\<dots> \<longleftrightarrow> i \<in> fst ` set (sn_nodes sc)" by (simp add: dict_get_def map_of_eq_None_iff)
  finally show ?thesis by (simp add: dict_keys_def)
qed

lemma update_positions:
  "vw_mobility (update_node_positions tk v) = vw_mobility v" "vw_drag (update_node_positions tk v) = vw_drag v"
  "vw_handlers (update_node_positions tk v) = vw_handlers v" "vw_zoom (update_node_positions tk v) = vw_zoom v"
  "vw_page (update_node_positions tk v) = vw_page v"
  "node_pos (vw_scene (update_node_positions tk v)) j =
     (if node_pos (vw_scene v) j \<noteq> None \<and> vw_mobility v j \<noteq> None
      then map_option point_to_canvas (vw_mobility v j) else node_pos (vw_scene v) j)"
  using update_all [of tk v "dict_keys (sn_nodes (vw_scene v))"] node_pos_dict [of "vw_scene v" j]
  by (auto simp: update_node_positions_def simp del: split_paired_Ex split_paired_All)

section \<open>Dragging\<close>

text \<open>
  What can happen while a node is dragged: the pointer moves over any node, the view is updated,
  the simulation moves its nodes, the user zooms and resizes the nodes. The toolkit grabs the
  pointer while a button is pressed, so that the release goes to the node that was pressed.
\<close>

datatype user_op = Press nat point | Drag_To nat point | Release nat | Refresh | Simulate "nat \<Rightarrow> point" | Wheel wheel | Node_Size rat

primrec user_step :: "toolkit \<Rightarrow> view \<Rightarrow> user_op \<Rightarrow> view" where
  "user_step tk v (Press i mouse) = begin_node_drag tk mouse i v"
| "user_step tk v (Drag_To i mouse) = motion_event tk mouse i v"
| "user_step tk v (Release i) = end_node_drag i v"
| "user_step tk v Refresh = update_node_positions tk v"
| "user_step tk v (Simulate f) = v\<lparr>vw_mobility := (\<lambda>i. map_option (\<lambda>_. f i) (vw_mobility v i))\<rparr>"
| "user_step tk v (Wheel w) = fst (canvas_scroll_event tk w v)"
| "user_step tk v (Node_Size s) = node_size_changed s v"

definition grabbed :: "view \<Rightarrow> user_op \<Rightarrow> bool" where
  "grabbed v p =
     (case p of
        Press i _ \<Rightarrow> node_pos (vw_scene v) i \<noteq> None
      | Release i \<Rightarrow> (case vw_drag v of None \<Rightarrow> True | Some d \<Rightarrow> dg_signal d = i)
      | _ \<Rightarrow> True)"

fun run_user :: "toolkit \<Rightarrow> view \<Rightarrow> user_op list \<Rightarrow> view option" where
  "run_user tk v [] = Some v"
| "run_user tk v (p # ps) = (if grabbed v p then run_user tk (user_step tk v p) ps else None)"

definition drag_ok :: "view \<Rightarrow> bool" where
  "drag_ok v \<longleftrightarrow>
     (case vw_drag v of
        None \<Rightarrow> vw_handlers v = []
      | Some d \<Rightarrow> vw_handlers v = [dg_signal d] \<and> vw_mobility v (dg_signal d) \<noteq> None \<and> node_pos (vw_scene v) (dg_signal d) \<noteq> None)"

lemma node_pos_sized [simp]: "node_pos (set_node_size s i sc) j = node_pos sc j"
  unfolding set_node_size_def by (rule node_pos_change) simp

lemma sized_all [simp]: "node_pos (vw_scene (node_size_changed s v)) j = node_pos (vw_scene v) j"
proof -
  have "node_pos (foldl (\<lambda>sc i. set_node_size s i sc) sc is) j = node_pos sc j" for sc "is"
    by (induction "is" arbitrary: sc) simp_all
  then show ?thesis by (simp add: node_size_changed_def)
qed

lemma sized_simps [simp]:
  "vw_mobility (node_size_changed s v) = vw_mobility v" "vw_drag (node_size_changed s v) = vw_drag v"
  "vw_handlers (node_size_changed s v) = vw_handlers v"
  by (simp_all add: node_size_changed_def)

lemma motion_there: "node_pos (vw_scene (node_drag_motion tk mouse i v)) j \<noteq> None \<longleftrightarrow> node_pos (vw_scene v) j \<noteq> None"
  by (cases "node_pos (vw_scene v) i") (auto simp: node_drag_motion_def Let_def node_pos_set split: option.splits simp del: split_paired_Ex)

lemma drag_ok_step: "drag_ok v \<Longrightarrow> grabbed v p \<Longrightarrow> drag_ok (user_step tk v p)"
proof (cases p)
  case (Press i mouse)
  assume "drag_ok v" "grabbed v p"
  then show ?thesis using Press
    by (cases "vw_mobility v i"; cases "vw_drag v") (simp_all add: drag_ok_def begin_node_drag_def grabbed_def del: split_paired_Ex)
next
  case (Drag_To i mouse)
  assume a: "drag_ok v"
  then show ?thesis
  proof (cases "vw_drag v")
    case None
    then show ?thesis using a Drag_To by (simp add: drag_ok_def motion_event_def)
  next
    case (Some d)
    then have h: "vw_handlers v = [dg_signal d]" using a by (simp add: drag_ok_def)
    have "vw_drag (node_drag_motion tk mouse i v) = vw_drag v" "vw_handlers (node_drag_motion tk mouse i v) = vw_handlers v"
      "vw_mobility (node_drag_motion tk mouse i v) j \<noteq> None \<longleftrightarrow> vw_mobility v j \<noteq> None" for j
      by (auto simp: node_drag_motion_def Let_def split: option.splits simp del: split_paired_Ex)
    then have "drag_ok (node_drag_motion tk mouse i v)" using a Some motion_there [of tk mouse i v] by (simp add: drag_ok_def del: split_paired_Ex)
    then show ?thesis using a Drag_To by (simp add: motion_event_def h)
  qed
next
  case (Release i)
  assume "drag_ok v" "grabbed v p"
  then show ?thesis using Release by (cases "vw_drag v") (simp_all add: drag_ok_def end_node_drag_def grabbed_def)
next
  case Refresh
  assume "drag_ok v"
  then show ?thesis using Refresh
    by (cases "vw_drag v") (auto simp: drag_ok_def update_positions simp del: split_paired_Ex split_paired_All)
next
  case (Simulate f)
  assume "drag_ok v"
  then show ?thesis using Simulate by (simp add: drag_ok_def split: option.splits del: split_paired_Ex)
next
  case (Wheel w)
  assume "drag_ok v"
  then show ?thesis using Wheel by (cases w; cases "vw_drag v") (simp_all add: drag_ok_def canvas_scroll_event_def)
next
  case (Node_Size s)
  assume "drag_ok v"
  then show ?thesis using Node_Size by (cases "vw_drag v") (simp_all add: drag_ok_def del: split_paired_Ex)
qed

lemma run_user_ok: "drag_ok v \<Longrightarrow> run_user tk v ps = Some v' \<Longrightarrow> drag_ok v'"
  by (induction tk v ps rule: run_user.induct) (auto simp: drag_ok_step split: if_splits)

text \<open>
  A dragged node stays under the pointer. Whatever happened since the button was pressed - updates
  of the view, moves by the simulation, zooming - a motion of the pointer over the dragged node puts
  it, in the scene and in the simulator alike, where it was grabbed plus the way of the pointer on
  the canvas; and the pointer moves no other node.
\<close>

theorem drag_follows_pointer:
  fixes tk :: toolkit and v :: view and d :: node_drag and mouse :: point
  assumes "vw_drag v0 = None" "vw_handlers v0 = []" "run_user tk v0 ps = Some v" "vw_drag v = Some d"
  defines "v' \<equiv> motion_event tk mouse (dg_signal d) v"
    and "c \<equiv> tk_from_pixels tk (canvas_of v) mouse"
  shows "node_pos (vw_scene v') (dg_signal d) =
      Some (fst (point_to_canvas (dg_sim d)) + (fst c - fst (dg_canvas d)), snd (point_to_canvas (dg_sim d)) + (snd c - snd (dg_canvas d))) \<and>
    map_option point_to_canvas (vw_mobility v' (dg_signal d)) = node_pos (vw_scene v') (dg_signal d) \<and>
    (\<forall>j. j \<noteq> dg_signal d \<longrightarrow> motion_event tk mouse j v = v \<and>
       vw_mobility v' j = vw_mobility v j \<and> node_pos (vw_scene v') j = node_pos (vw_scene v) j)"
proof -
  have "drag_ok v0" using assms(1,2) by (simp add: drag_ok_def)
  then have "drag_ok v" by (rule run_user_ok [OF _ assms(3)])
  then have ok: "vw_handlers v = [dg_signal d]" "vw_mobility v (dg_signal d) \<noteq> None" "node_pos (vw_scene v) (dg_signal d) \<noteq> None"
    using assms(4) by (simp_all add: drag_ok_def)
  obtain s0 where s0: "vw_mobility v (dg_signal d) = Some s0" using ok(2) by blast
  let ?s = "(fst (dg_sim d) + distance_to_simulation (fst c - fst (dg_canvas d)),
             snd (dg_sim d) + distance_to_simulation (snd c - snd (dg_canvas d)))"
  have v': "v' = v\<lparr>vw_mobility := (vw_mobility v)(dg_signal d := Some ?s),
      vw_scene := set_node_position (dg_signal d) (point_to_canvas ?s) (vw_scene v)\<rparr>"
    by (simp add: v'_def motion_event_def ok(1) node_drag_motion_def s0 assms(4) Let_def c_def)
  have p: "point_to_canvas ?s =
      (fst (point_to_canvas (dg_sim d)) + (fst c - fst (dg_canvas d)), snd (point_to_canvas (dg_sim d)) + (snd c - snd (dg_canvas d)))"
    by (simp add: point_to_canvas_def distance_to_simulation_def pixels_per_meter_def distrib_right)
  have pos: "node_pos (vw_scene v') j = (if j = dg_signal d then Some (point_to_canvas ?s) else node_pos (vw_scene v) j)" for j
    using ok(3) by (simp add: v' node_pos_set del: split_paired_Ex)
  have "vw_mobility v' (dg_signal d) = Some ?s" "j \<noteq> dg_signal d \<Longrightarrow> vw_mobility v' j = vw_mobility v j" for j by (simp_all add: v')
  moreover have "j \<noteq> dg_signal d \<Longrightarrow> motion_event tk mouse j v = v" for j by (simp add: motion_event_def ok(1))
  ultimately show ?thesis using p by (simp add: pos)
qed

text \<open>A toolkit without limits of the scroll bars, with the origin at the corner of the canvas.\<close>

definition demo_toolkit :: toolkit where
  "demo_toolkit =
     \<lparr>tk_to_pixels = (\<lambda>(z, _) p. (z * fst p, z * snd p)), tk_from_pixels = (\<lambda>(z, _) p. (fst p / z, snd p / z)),
      tk_hscroll = (\<lambda>_ _ x. x), tk_vscroll = (\<lambda>_ _ x. x), tk_zoom = (\<lambda>z. max (1 / 100) (min 9 z)), tk_rescaled = (\<lambda>_ _ _ p. p)\<rparr>"

definition demo_view :: view where
  "demo_view =
     \<lparr>vw_scroll = (0, 0), vw_page = (600, 300), vw_zoom = 1, vw_panning = None, vw_drag = None, vw_handlers = [], vw_follow = None,
      vw_scene = get_node 1 (get_node 0 (new_scene True)), vw_mobility = (\<lambda>i. if i = 0 then Some (0, 0) else if i = 1 then Some (100, 20) else None)\<rparr>"

theorem drag_follows_pointer_witness:
  "\<exists>v d. run_user demo_toolkit demo_view [Refresh, Press 1 (300, 60), Simulate (\<lambda>_. (7, 7)), Refresh] = Some v \<and> vw_drag v = Some d \<and>
     node_pos (vw_scene (motion_event demo_toolkit (310, 50) (dg_signal d) v)) (dg_signal d) = Some (310, 50)"
proof -
  let ?ps = "[Refresh, Press 1 (300, 60), Simulate (\<lambda>_. (7, 7)), Refresh]"
  define v where "v = the (run_user demo_toolkit demo_view ?ps)"
  define d where "d = the (vw_drag v)"
  have "\<not> Option.is_none (run_user demo_toolkit demo_view ?ps)" by code_simp
  then have r: "run_user demo_toolkit demo_view ?ps = Some v" by (simp add: v_def Option.is_none_def)
  have d: "vw_drag v = Some d" unfolding d_def v_def by code_simp
  have "dg_sim d = (100, 20)" "dg_canvas d = (300, 60)" "vw_zoom v = 1" unfolding d_def v_def by code_simp+
  then have "node_pos (vw_scene (motion_event demo_toolkit (310, 50) (dg_signal d) v)) (dg_signal d) = Some (310, 50)"
    using drag_follows_pointer [OF _ _ r d, of "(310, 50)"]
    by (simp add: demo_view_def demo_toolkit_def canvas_of_def point_to_canvas_def pixels_per_meter_def)
  then show ?thesis using r d by blast
qed

section \<open>The first scaling\<close>

text \<open>What the documentation of the canvas says: the conversions are linear in the zoom, from some origin.\<close>

definition linear_canvas :: "toolkit \<Rightarrow> ((rat \<times> rat \<times> rat \<times> rat) option \<Rightarrow> point) \<Rightarrow> bool" where
  "linear_canvas tk origin \<longleftrightarrow>
     (\<forall>z b p. tk_to_pixels tk (z, b) p = (z * (fst p - fst (origin b)), z * (snd p - snd (origin b)))) \<and>
     (\<forall>z b q. tk_from_pixels tk (z, b) q = (fst q / z + fst (origin b), snd q / z + snd (origin b)))"

lemma scaled_side:
  fixes z lo hi x page w :: rat
  assumes "lo \<le> x" "x \<le> hi" "0 \<le> z" "z * (w * (hi - lo)) \<le> page" "0 < w"
  shows "\<bar>z * x - z * ((lo + hi) / 2)\<bar> \<le> page / (2 * w)"
proof -
  have "\<bar>x - (lo + hi) / 2\<bar> \<le> (hi - lo) / 2" using assms(1,2) by (auto simp: abs_le_iff field_simps)
  then have "z * \<bar>x - (lo + hi) / 2\<bar> \<le> z * ((hi - lo) / 2)" using assms(3) by (rule mult_left_mono)
  moreover have "z * \<bar>x - (lo + hi) / 2\<bar> = \<bar>z * x - z * ((lo + hi) / 2)\<bar>"
    unfolding right_diff_distrib [symmetric] abs_mult abs_of_nonneg [OF assms(3)] ..
  moreover have "z * ((hi - lo) / 2) \<le> page / (2 * w)" using assms(4,5) by (simp add: field_simps)
  ultimately show ?thesis by linarith
qed

definition extent :: "view \<Rightarrow> point \<times> point" where
  "extent v = (let ps = set (node_places (vw_scene v)) in ((Min (fst ` ps), Min (snd ` ps)), (Max (fst ` ps), Max (snd ` ps))))"

text \<open>
  The first scaling shows all nodes. On a canvas that converts linearly, where the zoom and the
  scroll bars take the values they are given, every node is within a third of the window around its
  middle, divided by the zoom there was before: the scale of the pixels is measured at that zoom, so
  that the result is right for the zoom 1 of the start.
\<close>

theorem autoscale_fits:
  fixes tk :: toolkit and v :: view
  defines "v1 \<equiv> update_node_positions tk v" and "v' \<equiv> autoscale_view tk v"
  assumes "linear_canvas tk origin" "sn_nodes (vw_scene v) \<noteq> []" "0 < vw_zoom v" "0 < fst (vw_page v)" "0 < snd (vw_page v)"
    and "\<And>c w x. tk_hscroll tk c w x = x" "\<And>c w x. tk_vscroll tk c w x = x" "\<And>z. 0 < z \<Longrightarrow> tk_zoom tk z = z"
    and "fst (fst (extent v1)) < fst (snd (extent v1))" "snd (fst (extent v1)) < snd (snd (extent v1))"
    and "p \<in> set (node_places (vw_scene v'))"
  shows "let q = tk_to_pixels tk (canvas_of v') p in
    \<bar>fst q - (fst (vw_scroll v') + fst (vw_page v) / 2)\<bar> \<le> fst (vw_page v) / (3 * vw_zoom v) \<and>
    \<bar>snd q - (snd (vw_scroll v') + snd (vw_page v) / 2)\<bar> \<le> snd (vw_page v) / (3 * vw_zoom v)"
proof -
  define lo where "lo = fst (extent v1)"
  define hi where "hi = snd (extent v1)"
  define z0 where "z0 = vw_zoom v"
  define o0 where "o0 = origin (sn_bounds (vw_scene v1))"
  define pg where "pg = vw_page v"
  have page: "vw_page v1 = pg" "vw_zoom v1 = z0" by (simp_all add: v1_def update_positions pg_def z0_def)
  have to_px: "tk_to_pixels tk (z, sn_bounds (vw_scene v1)) q = (z * (fst q - fst o0), z * (snd q - snd o0))" for z q
    using assms(3) unfolding linear_canvas_def o0_def by blast
  have from_px: "tk_from_pixels tk (z, sn_bounds (vw_scene v1)) q = (fst q / z + fst o0, snd q / z + snd o0)" for z q
    using assms(3) unfolding linear_canvas_def o0_def by blast
  have d: "0 < fst hi - fst lo" "0 < snd hi - snd lo" using assms(11,12) by (simp_all add: lo_def hi_def)
  define dx where "dx = 3 / 2 * (z0 * (fst hi - fst o0) - z0 * (fst lo - fst o0))"
  define dy where "dy = 3 / 2 * (z0 * (snd hi - snd o0) - z0 * (snd lo - snd o0))"
  have dxy: "dx = 3 / 2 * z0 * (fst hi - fst lo)" "dy = 3 / 2 * z0 * (snd hi - snd lo)" by (simp_all add: dx_def dy_def algebra_simps)
  have pos: "0 < dx" "0 < dy" using d assms(5) by (simp_all add: dxy z0_def)
  define z where "z = min (fst pg / dx) (snd pg / dy)"
  have z: "0 < z" using pos assms(6,7) by (simp add: z_def pg_def)
  define v2 where "v2 = set_zoom tk z v1"
  have v2: "vw_zoom v2 = z" "vw_scene v2 = vw_scene v1" "vw_page v2 = pg" using assms(10) [OF z] by (simp_all add: v2_def page)
  have c2: "canvas_of v2 = (z, sn_bounds (vw_scene v1))" by (simp add: canvas_of_def v2)
  define center where "center = ((fst lo + fst hi) / 2, (snd lo + snd hi) / 2)"
  have lohi: "fst (extent v1) = lo" "snd (extent v1) = hi" by (simp_all add: lo_def hi_def)
  have width: "(fst (vw_scroll v2) + fst pg) / z + fst o0 - (fst (vw_scroll v2) / z + fst o0) = fst pg / z"
    "(snd (vw_scroll v2) + snd pg) / z + snd o0 - (snd (vw_scroll v2) / z + snd o0) = snd pg / z"
    by (simp_all add: add_divide_distrib)
  have "v' = scroll_to_value tk (tk_to_pixels tk (canvas_of v2) (fst center - fst pg / z / 2, snd center - snd pg / z / 2)) v2"
  proof -
    have e: "Min (fst ` set (node_places (vw_scene v1))) = fst lo" "Min (snd ` set (node_places (vw_scene v1))) = snd lo"
      "Max (fst ` set (node_places (vw_scene v1))) = fst hi" "Max (snd ` set (node_places (vw_scene v1))) = snd hi"
      by (simp_all add: lo_def hi_def extent_def Let_def)
    have c1: "canvas_of v1 = (z0, sn_bounds (vw_scene v1))" by (simp add: canvas_of_def page)
    have "v' = (let new_dx = dx; new_dy = dy in if new_dx = 0 \<or> new_dy = 0 then v1 else
        (let v2 = set_zoom tk (min (fst pg / new_dx) (snd pg / new_dy)) v1;
             a = tk_from_pixels tk (canvas_of v2) (vw_scroll v2);
             b = tk_from_pixels tk (canvas_of v2) (fst (vw_scroll v2) + fst (vw_page v2), snd (vw_scroll v2) + snd (vw_page v2));
             width = fst b - fst a; height = snd b - snd a
         in scroll_to_value tk (tk_to_pixels tk (canvas_of v2) (fst center - width / 2, snd center - height / 2)) v2))"
      unfolding v'_def autoscale_view_def v1_def [symmetric] Let_def e c1 to_px page fst_conv snd_conv dx_def dy_def center_def
      using assms(4) by (simp only: if_False)
    also have "\<dots> = scroll_to_value tk (tk_to_pixels tk (canvas_of v2) (fst center - fst pg / z / 2, snd center - snd pg / z / 2)) v2"
      unfolding Let_def z_def [symmetric] v2_def [symmetric] using pos by (simp add: c2 from_px v2 add_divide_distrib)
    finally show ?thesis .
  qed
  then have scroll: "vw_scroll v' = (z * (fst center - fst o0) - fst pg / 2, z * (snd center - snd o0) - snd pg / 2)"
    and v': "vw_scene v' = vw_scene v1" "canvas_of v' = (z, sn_bounds (vw_scene v1))"
    using z by (simp_all add: scroll_to_value_def assms(8,9) c2 to_px v2 canvas_of_def right_diff_distrib)
  have fin: "finite (set (node_places (vw_scene v1)))" by simp
  have p: "p \<in> set (node_places (vw_scene v1))" using assms(13) by (simp add: v')
  have between: "fst lo \<le> fst p" "snd lo \<le> snd p" "fst p \<le> fst hi" "snd p \<le> snd hi"
    using p fin by (auto simp: lo_def hi_def extent_def Let_def)
  have fits: "z * (3 / 2 * z0 * (fst hi - fst lo)) \<le> fst pg" "z * (3 / 2 * z0 * (snd hi - snd lo)) \<le> snd pg"
  proof -
    have "z \<le> fst pg / dx" "z \<le> snd pg / dy" by (simp_all add: z_def)
    then show "z * (3 / 2 * z0 * (fst hi - fst lo)) \<le> fst pg" "z * (3 / 2 * z0 * (snd hi - snd lo)) \<le> snd pg"
      unfolding dxy [symmetric] using pos by (simp_all add: pos_le_divide_eq)
  qed
  have z0: "0 < 3 / 2 * z0" using assms(5) by (simp add: z0_def)
  have "\<bar>z * fst p - z * fst center\<bar> \<le> fst pg / (2 * (3 / 2 * z0))" "\<bar>z * snd p - z * snd center\<bar> \<le> snd pg / (2 * (3 / 2 * z0))"
    unfolding center_def fst_conv snd_conv
    using scaled_side [OF between(1,3) less_imp_le [OF z] fits(1) z0] scaled_side [OF between(2,4) less_imp_le [OF z] fits(2) z0] by blast+
  then show ?thesis by (simp add: v' to_px scroll pg_def z0_def right_diff_distrib Let_def)
qed

text \<open>The same toolkit with a zoom without limits.\<close>

definition plain_toolkit :: toolkit where
  "plain_toolkit =
     \<lparr>tk_to_pixels = (\<lambda>(z, _) p. (z * fst p, z * snd p)), tk_from_pixels = (\<lambda>(z, _) p. (fst p / z, snd p / z)),
      tk_hscroll = (\<lambda>_ _ x. x), tk_vscroll = (\<lambda>_ _ x. x), tk_zoom = (\<lambda>z. z), tk_rescaled = (\<lambda>_ _ _ p. p)\<rparr>"

theorem autoscale_fits_witness:
  "\<bar>fst (tk_to_pixels plain_toolkit (canvas_of (autoscale_view plain_toolkit demo_view)) (300, 60)) -
     (fst (vw_scroll (autoscale_view plain_toolkit demo_view)) + 300)\<bar> \<le> 200"
proof -
  have "list_ex (\<lambda>p. p = (300, 60)) (node_places (vw_scene (autoscale_view plain_toolkit demo_view)))" by code_simp
  then have p: "(300, 60) \<in> set (node_places (vw_scene (autoscale_view plain_toolkit demo_view)))" by (auto simp: list_ex_iff)
  have lin: "linear_canvas plain_toolkit (\<lambda>_. (0, 0))" by (simp add: linear_canvas_def plain_toolkit_def)
  have e: "extent (update_node_positions plain_toolkit demo_view) = ((0, 0), (300, 60))" by code_simp
  have n: "sn_nodes (vw_scene demo_view) \<noteq> []" by code_simp
  have pg: "vw_page demo_view = (600, 300)" "vw_zoom demo_view = 1" by (simp_all add: demo_view_def)
  have t: "tk_hscroll plain_toolkit c w x = x" "tk_vscroll plain_toolkit c w x = x" "tk_zoom plain_toolkit x = x" for c w x
    by (simp_all add: plain_toolkit_def)
  show ?thesis using autoscale_fits [OF lin n _ _ _ t(1,2) t(3) _ _ p] by (simp add: e pg Let_def)
qed

end
