(* ===== verification/Viz_Items.thy ===== *)
theory Viz_Items
  imports Py_Prelude
begin

text \<open>
  Canvas items that are used again. The arrows of the visualizer (\<^verbatim>\<open>core.py\<close>) and the labels of its
  axes (\<^verbatim>\<open>hud.py\<close>) are drawn anew at every update: all items are hidden, each drawing takes an item
  of the last time, or creates one when none is left, and what was not used is kept for the next
  time. Only the end of the list that an item is taken from differs, so the loop is the client of a
  locale that the two uses of \<open>pop\<close> interpret. An item is a number; \<open>None\<close> for what an item shows
  means that it is hidden.
\<close>

section \<open>Taking items\<close>

primrec recycle :: "(nat list \<Rightarrow> (nat \<times> nat list) option) \<Rightarrow> 'd list \<Rightarrow> nat list \<Rightarrow> nat \<Rightarrow> (nat \<times> 'd) list \<times> nat list \<times> nat" where
  \<comment> \<open>the items used with what they show, the items left, and the number of the next new item\<close>
  "recycle pop [] pool next = ([], pool, next)"
| "recycle pop (d # ds) pool next =
     (case pop pool of
        Some (i, pool') \<Rightarrow> (let (used, rest, n) = recycle pop ds pool' next in ((i, d) # used, rest, n))
      | None \<Rightarrow> (let (used, rest, n) = recycle pop ds pool (next + 1) in ((next, d) # used, rest, n)))"

definition pop_last :: "nat list \<Rightarrow> (nat \<times> nat list) option" where
  "pop_last xs = (if xs = [] then None else Some (last xs, butlast xs))"

definition pop_first :: "nat list \<Rightarrow> (nat \<times> nat list) option" where
  "pop_first xs = (case xs of [] \<Rightarrow> None | x # ys \<Rightarrow> Some (x, ys))"

text \<open>
  The items of a drawing: the list that is kept, the number of the next new item, and what every
  item shows. After a drawing the items used come first.
\<close>

record 'd drawn =
  dr_items :: "nat list"
  dr_next :: nat
  dr_shows :: "nat \<Rightarrow> 'd option"

definition nothing_drawn :: "'d drawn" where
  "nothing_drawn = \<lparr>dr_items = [], dr_next = 0, dr_shows = (\<lambda>_. None)\<rparr>"

definition redraw_items :: "(nat list \<Rightarrow> (nat \<times> nat list) option) \<Rightarrow> 'd list \<Rightarrow> 'd drawn \<Rightarrow> 'd drawn" where
  "redraw_items pop ds s =
     (let hidden = (\<lambda>i. if i \<in> set (dr_items s) then None else dr_shows s i);
          (used, rest, n) = recycle pop ds (dr_items s) (dr_next s)
      in \<lparr>dr_items = map fst used @ rest, dr_next = n,
          dr_shows = (\<lambda>i. case map_of used i of Some d \<Rightarrow> Some d | None \<Rightarrow> hidden i)\<rparr>)"

section \<open>What any way of taking items gives\<close>

text \<open>The items in the list are different, and only they can show something.\<close>

definition items_ok :: "'d drawn \<Rightarrow> bool" where
  "items_ok s \<longleftrightarrow> distinct (dr_items s) \<and> (\<forall>i \<in> set (dr_items s). i < dr_next s) \<and> (\<forall>i. dr_shows s i \<noteq> None \<longrightarrow> i \<in> set (dr_items s))"

lemma nothing_ok: "items_ok nothing_drawn"
  by (simp add: items_ok_def nothing_drawn_def)

locale item_pool =
  fixes take_item :: "nat list \<Rightarrow> (nat \<times> nat list) option"
  assumes take_none: "take_item xs = None \<longleftrightarrow> xs = []"
    and take_some: "take_item xs = Some (i, ys) \<Longrightarrow> mset xs = add_mset i (mset ys)"
begin

lemma recycle_items:
  "recycle take_item ds pool next = (used, rest, n) \<Longrightarrow>
   map snd used = ds \<and> mset (map fst used) + mset rest = mset pool + mset [next..<n] \<and>
   n = next + (length ds - length pool) \<and> length rest = length pool - length ds"
proof (induction ds arbitrary: pool "next" used rest n)
  case Nil
  then show ?case by simp
next
  case (Cons d ds)
  show ?case
  proof (cases "take_item pool")
    case None
    then have p: "pool = []" using take_none by simp
    obtain used' where u: "recycle take_item ds pool (next + 1) = (used', rest, n)" "used = (next, d) # used'"
      using Cons.prems None by (auto split: prod.splits)
    have ih: "map snd used' = ds" "mset (map fst used') + mset rest = mset [next + 1..<n]" "n = next + 1 + length ds" "rest = []"
      using Cons.IH [OF u(1), unfolded p] by (auto simp del: mset_upt upt_Suc)
    have "next < n" using ih(3) by simp
    then have "[next..<n] = next # [next + 1..<n]" using upt_conv_Cons [of "next" n] by (simp del: upt_Suc)
    then show ?thesis using ih by (simp add: u(2) p del: mset_upt upt_Suc)
  next
    case (Some iy)
    obtain i ys where iy: "iy = (i, ys)" by (cases iy)
    with Some have m: "mset pool = add_mset i (mset ys)" using take_some by simp
    then have l: "length pool = Suc (length ys)" by (metis size_add_mset size_mset)
    obtain used' where u: "recycle take_item ds ys next = (used', rest, n)" "used = (i, d) # used'"
      using Cons.prems Some iy by (auto split: prod.splits)
    from Cons.IH [OF u(1)] show ?thesis by (simp add: u(2) m l)
  qed
qed

text \<open>
  A drawing shows exactly the given things, the first items of the list in order one each; no item
  is lost or shown twice, and items are only created when there are fewer than things to show.
\<close>

lemma redraw_shows:
  fixes s :: "'d drawn" and ds :: "'d list"
  assumes "items_ok s"
  defines "s' \<equiv> redraw_items take_item ds s"
  shows "items_ok s'" "map (dr_shows s') (take (length ds) (dr_items s')) = map Some ds"
    "\<forall>i. i \<notin> set (take (length ds) (dr_items s')) \<longrightarrow> dr_shows s' i = None"
    "length (dr_items s') = max (length (dr_items s)) (length ds)" "set (dr_items s) \<subseteq> set (dr_items s')"
proof -
  obtain used rest n where r: "recycle take_item ds (dr_items s) (dr_next s) = (used, rest, n)" by (cases "recycle take_item ds (dr_items s) (dr_next s)")
  note p = recycle_items [OF r]
  have s': "dr_items s' = map fst used @ rest" "dr_next s' = n"
    "dr_shows s' = (\<lambda>i. case map_of used i of Some d \<Rightarrow> Some d | None \<Rightarrow> if i \<in> set (dr_items s) then None else dr_shows s i)"
    by (simp_all add: s'_def redraw_items_def Let_def r)
  have len: "length used = length ds" using p by (metis length_map)
  have ms: "mset (dr_items s') = mset (dr_items s) + mset [dr_next s..<n]" using p by (simp add: s')
  have new: "dr_next s \<le> n" using p by simp
  have old: "distinct (dr_items s)" "\<forall>i \<in> set (dr_items s). i < dr_next s" "\<forall>i. dr_shows s i \<noteq> None \<longrightarrow> i \<in> set (dr_items s)"
    using assms(1) by (simp_all add: items_ok_def)
  have "distinct (dr_items s @ [dr_next s..<n])" using old by auto
  then have dist: "distinct (dr_items s')" using ms by (metis mset_append mset_eq_imp_distinct_iff)
  have st: "set (dr_items s') = set (dr_items s) \<union> {dr_next s..<n}" using ms by (metis mset_append set_append set_mset_mset set_upt)
  have first: "take (length ds) (dr_items s') = map fst used" by (simp add: s' len [symmetric])
  have shows_used: "dr_shows s' i = (case map_of used i of Some d \<Rightarrow> Some d | None \<Rightarrow> None)" for i
    using old(3) by (auto simp: s' split: option.splits)
  show "items_ok s'"
  proof -
    have "i \<in> set (dr_items s')" if "dr_shows s' i \<noteq> None" for i
    proof -
      have "map_of used i \<noteq> None" using that shows_used [of i] by (auto split: option.splits)
      then have "i \<in> fst ` set used" by (simp add: map_of_eq_None_iff)
      then show ?thesis by (simp add: s')
    qed
    then show ?thesis using dist st old(2) new by (auto simp: items_ok_def s'(2))
  qed
  have "distinct (map fst used)" using dist by (simp add: s')
  then have "map (dr_shows s') (map fst used) = map (Some \<circ> snd) used" by (auto simp: shows_used)
  then show "map (dr_shows s') (take (length ds) (dr_items s')) = map Some ds" using p by (simp add: first flip: map_map)
  show "\<forall>i. i \<notin> set (take (length ds) (dr_items s')) \<longrightarrow> dr_shows s' i = None"
  proof (intro allI impI)
    fix i
    assume "i \<notin> set (take (length ds) (dr_items s'))"
    then have "map_of used i = None" by (simp add: first map_of_eq_None_iff)
    then show "dr_shows s' i = None" by (simp add: shows_used)
  qed
  show "length (dr_items s') = max (length (dr_items s)) (length ds)" using p by (simp add: s' len max_def)
  show "set (dr_items s) \<subseteq> set (dr_items s')" using st by simp
qed

end

lemma mset_last: "xs \<noteq> [] \<Longrightarrow> mset xs = add_mset (last xs) (mset (butlast xs))"
  by (induction xs rule: rev_induct) simp_all

interpretation arrows: item_pool pop_last
  by unfold_locales (auto simp: pop_last_def mset_last split: if_splits)

interpretation labels: item_pool pop_first
  by unfold_locales (auto simp: pop_first_def split: list.splits)

end
