(* ===== verification/Viz_Arrows.thy ===== *)
theory Viz_Arrows
  imports Viz_View Viz_Items Viz_Threads
begin

text \<open>
  The arrows of the visualizer, \<^verbatim>\<open>src/src/visualizer/visualizer/core.py\<close>: the transmissions and the
  drops of the last samples are summed up per pair of nodes and per node, and every sum is drawn as
  an arrow with the rate on it. Parameters are the logarithm for the line width and the clipping of
  a line to the visible area, which is a function of the C++ helper. An angle is given by the
  vector that it is the angle of; the text of a label by its rate and the side of its arrow head.
\<close>

section \<open>Summing up\<close>

definition count_sample :: "('s \<Rightarrow> 'k) \<Rightarrow> ('s \<Rightarrow> nat) \<Rightarrow> ('k, nat \<times> nat) dict \<Rightarrow> 's \<Rightarrow> ('k, nat \<times> nat) dict" where
  "count_sample key bytes d s =
     (let (b, n) = (case dict_get d (key s) of None \<Rightarrow> (0, 0) | Some x \<Rightarrow> x)
      in dict_set (key s) (b + bytes s, n + 1) d)"

definition transmissions_average :: "transmission list list \<Rightarrow> (nat \<times> nat, nat \<times> nat) dict" where
  "transmissions_average sets =
     foldl (foldl (count_sample (\<lambda>t. (tm_from t, tm_to t)) tm_bytes)) [] sets"

definition drops_average :: "drop_sample list list \<Rightarrow> (nat, nat \<times> nat) dict" where
  "drops_average sets = foldl (foldl (count_sample dr_from dr_bytes)) [] sets"

section \<open>Arrows\<close>

record arrow =
  ar_width :: rat
  ar_from :: point
  ar_to :: point
  ar_rate :: rat                \<comment> \<open>kbit/s\<close>
  ar_font :: int
  ar_label :: point
  ar_turn :: point              \<comment> \<open>the label is turned by the angle of this vector\<close>
  ar_offset :: rat
  ar_forward :: bool            \<comment> \<open>the arrow head stands behind the rate\<close>

record paint =
  pn_log :: "rat \<Rightarrow> rat"
  pn_clip :: "rat \<times> rat \<times> rat \<times> rat \<Rightarrow> point \<times> point \<Rightarrow> point \<times> point"
  pn_area :: "rat \<times> rat \<times> rat \<times> rat"
  pn_edge :: rat                \<comment> \<open>the lower edge of the window, in canvas coordinates\<close>
  pn_scale :: rat               \<comment> \<open>the node size adjustment\<close>
  pn_period :: rat

definition math_log :: "paint \<Rightarrow> rat \<Rightarrow> rat res" where
  "math_log pn x = (if x \<le> 0 then Inl ValueError else Inr (pn_log pn x))"

definition line_width :: "paint \<Rightarrow> nat \<times> nat \<Rightarrow> rat res" where
  "line_width pn = (\<lambda>(bytes, n).
     if n = 0 \<or> pn_period pn = 0 then Inl ZeroDivisionError
     else bindE (math_log pn (of_nat bytes / of_nat n / pn_period pn)) (\<lambda>l. Inr (max (1 / 10) (l * (pn_scale pn / 5)))))"

definition bit_rate :: "paint \<Rightarrow> nat \<times> nat \<Rightarrow> rat" where
  "bit_rate pn = (\<lambda>(bytes, n). of_nat (bytes * 8) / 1000 / of_nat n / pn_period pn)"

definition font_size :: "paint \<Rightarrow> int" where
  "font_size pn = trunc_rat (1 + 10 * (pn_scale pn / 5))"

definition label_over_line :: "paint \<Rightarrow> point \<Rightarrow> point \<Rightarrow> point" where
  \<comment> \<open>\<open>_get_label_over_line_position\<close>\<close>
  "label_over_line pn p q =
     (let (a, b) = pn_clip pn (pn_area pn) (p, q) in ((fst a + fst b) / 2, (snd a + snd b) / 2))"

definition place_of :: "scene \<Rightarrow> nat \<Rightarrow> point" where
  "place_of sc i = (case node_pos sc i of None \<Rightarrow> (0, 0) | Some p \<Rightarrow> p)"

definition transmission_arrow :: "paint \<Rightarrow> scene \<Rightarrow> (nat \<times> nat) \<times> (nat \<times> nat) \<Rightarrow> arrow res" where
  "transmission_arrow pn sc = (\<lambda>((tx, rx), avg).
     bindE (line_width pn avg) (\<lambda>w.
     let p = place_of sc tx; q = place_of sc rx; forward = fst q - fst p \<ge> 0
     in Inr \<lparr>ar_width = w, ar_from = p, ar_to = q, ar_rate = bit_rate pn avg, ar_font = font_size pn,
             ar_label = label_over_line pn p q, ar_turn = (fst q - fst p, snd q - snd p),
             ar_offset = (if forward then - w / 2 else w / 2), ar_forward = forward\<rparr>))"

definition drop_arrow :: "paint \<Rightarrow> scene \<Rightarrow> nat \<times> (nat \<times> nat) \<Rightarrow> arrow res" where
  \<comment> \<open>straight down to the lower edge of the window\<close>
  "drop_arrow pn sc = (\<lambda>(tx, avg).
     bindE (line_width pn avg) (\<lambda>w.
     let p = place_of sc tx; q = (fst p, pn_edge pn)
     in Inr \<lparr>ar_width = w, ar_from = p, ar_to = q, ar_rate = bit_rate pn avg, ar_font = font_size pn,
             ar_label = ((fst p + fst q) / 2, (snd p + snd q) / 2), ar_turn = (1, 0), ar_offset = 0, ar_forward = False\<rparr>))"

text \<open>
  The loop over the sums: the nodes are looked up, or created, then the arrow is made. An exception
  ends it; what was drawn before stays drawn.
\<close>

primrec arrow_loop :: "('k \<Rightarrow> scene \<Rightarrow> scene) \<Rightarrow> (scene \<Rightarrow> 'k \<times> (nat \<times> nat) \<Rightarrow> arrow res) \<Rightarrow> ('k \<times> (nat \<times> nat)) list \<Rightarrow>
    scene \<Rightarrow> scene \<times> arrow list \<times> unit res" where
  "arrow_loop nodes shape [] sc = (sc, [], Inr ())"
| "arrow_loop nodes shape (x # xs) sc =
     (let sc1 = nodes (fst x) sc in
      case shape sc1 x of
        Inl e \<Rightarrow> (sc1, [], Inl e)
      | Inr a \<Rightarrow> (let (sc2, arrs, r) = arrow_loop nodes shape xs sc1 in (sc2, a # arrs, r)))"

definition interrupted_redraw :: "'d list \<Rightarrow> 'd drawn \<Rightarrow> 'd drawn" where
  \<comment> \<open>the items that were taken before the exception are not put back into the list; of the last one the arrow is visible as it was,
    while its label stays hidden\<close>
  "interrupted_redraw ds s =
     (let hidden = (\<lambda>i. if i \<in> set (dr_items s) then None else dr_shows s i);
          (used, rest, n) = recycle pop_last ds (dr_items s) (dr_next s);
          (i, rest', n') = (case pop_last rest of Some (i, r) \<Rightarrow> (i, r, n) | None \<Rightarrow> (n, rest, n + 1))
      in \<lparr>dr_items = rest', dr_next = n',
          dr_shows = (\<lambda>j. if j = i then dr_shows s i else case map_of used j of Some d \<Rightarrow> Some d | None \<Rightarrow> hidden j)\<rparr>)"

definition draw_arrows :: "arrow list \<times> unit res \<Rightarrow> arrow drawn \<Rightarrow> arrow drawn" where
  "draw_arrows = (\<lambda>(arrs, r) s. case r of Inr _ \<Rightarrow> redraw_items pop_last arrs s | Inl _ \<Rightarrow> interrupted_redraw arrs s)"

definition update_transmissions_view :: "paint \<Rightarrow> transmission list list \<Rightarrow> scene \<Rightarrow> arrow drawn \<Rightarrow> scene \<times> arrow drawn \<times> unit res" where
  "update_transmissions_view pn sets sc s =
     (let (sc', arrs, r) = arrow_loop (\<lambda>(tx, rx) sc. get_node rx (get_node tx sc)) (transmission_arrow pn) (transmissions_average sets) sc
      in (sc', draw_arrows (arrs, r) s, r))"

definition update_drops_view :: "paint \<Rightarrow> drop_sample list list \<Rightarrow> scene \<Rightarrow> arrow drawn \<Rightarrow> scene \<times> arrow drawn \<times> unit res" where
  "update_drops_view pn sets sc s =
     (let (sc', arrs, r) = arrow_loop get_node (drop_arrow pn) (drops_average sets) sc
      in (sc', draw_arrows (arrs, r) s, r))"

section \<open>The sums\<close>

lemma dict_get_count:
  "dict_get (foldl (count_sample key bytes) d ss) k =
     (let bs = map bytes (filter (\<lambda>s. key s = k) ss) in
      if bs = [] then dict_get d k
      else (let (b, n) = (case dict_get d k of None \<Rightarrow> (0, 0) | Some x \<Rightarrow> x) in Some (b + sum_list bs, n + length bs)))"
proof (induction ss arbitrary: d)
  case (Cons s ss)
  have "dict_get (count_sample key bytes d s) k =
      (if key s = k then (let (b, n) = (case dict_get d k of None \<Rightarrow> (0, 0) | Some x \<Rightarrow> x) in Some (b + bytes s, n + 1)) else dict_get d k)"
    by (simp add: count_sample_def Let_def dict_get_set split: prod.splits)
  then show ?case using Cons.IH [of "count_sample key bytes d s"]
    by (auto simp: Let_def split: prod.splits option.splits)
qed simp

lemma foldl_foldl: "foldl (foldl f) a xss = foldl f a (concat xss)"
  by (induction xss arbitrary: a) simp_all

lemma count_keys: "dict_ok d \<Longrightarrow> dict_ok (foldl (count_sample key bytes) d ss)"
  by (induction ss arbitrary: d) (auto simp: count_sample_def Let_def dict.ok_set split: prod.splits)

lemma sums_of:
  fixes key :: "'s \<Rightarrow> 'k" and bytes :: "'s \<Rightarrow> nat"
  defines "d ss \<equiv> foldl (count_sample key bytes) [] ss"
  shows "distinct (map fst (d ss))"
    "set (map fst (d ss)) = key ` set ss"
    "(k, b, n) \<in> set (d ss) \<Longrightarrow> b = sum_list (map bytes (filter (\<lambda>s. key s = k) ss)) \<and> n = length (filter (\<lambda>s. key s = k) ss) \<and> 0 < n"
proof -
  have ok: "dict_ok (d ss)" unfolding d_def by (rule count_keys) (simp add: dict_ok_def)
  then show dist: "distinct (map fst (d ss))" by (simp add: dict_ok_def)
  have get: "dict_get (d ss) k = (let bs = map bytes (filter (\<lambda>s. key s = k) ss) in if bs = [] then None else Some (sum_list bs, length bs))" for k
    unfolding d_def using dict_get_count [of key bytes "[]" ss k] by (simp add: Let_def dict_get_def)
  have "k \<in> set (map fst (d ss)) \<longleftrightarrow> k \<in> key ` set ss" for k
  proof -
    have "k \<in> set (map fst (d ss)) \<longleftrightarrow> dict_get (d ss) k \<noteq> None" by (simp add: dict_get_def map_of_eq_None_iff)
    also have "\<dots> \<longleftrightarrow> filter (\<lambda>s. key s = k) ss \<noteq> []" by (simp add: get Let_def)
    also have "\<dots> \<longleftrightarrow> k \<in> key ` set ss" by (auto simp: filter_empty_conv)
    finally show ?thesis .
  qed
  then show "set (map fst (d ss)) = key ` set ss" by blast
  assume "(k, b, n) \<in> set (d ss)"
  then have "dict_get (d ss) k = Some (b, n)" using dist by (simp add: dict_get_def)
  then show "b = sum_list (map bytes (filter (\<lambda>s. key s = k) ss)) \<and> n = length (filter (\<lambda>s. key s = k) ss) \<and> 0 < n"
    unfolding get Let_def by (auto split: if_splits)
qed

section \<open>The loop\<close>

lemma arrow_loop_final:
  assumes hold: "\<And>k sc. holds_on sc (nodes k sc)"
    and stable: "\<And>k v sc sc'. holds_on (nodes k sc) sc' \<Longrightarrow> shape sc' (k, v) = shape (nodes k sc) (k, v)"
  shows "\<forall>x \<in> set xs. \<forall>sc. is_ok (shape sc x) \<Longrightarrow> arrow_loop nodes shape xs sc = (sc', arrs, r) \<Longrightarrow>
    r = Inr () \<and> holds_on sc sc' \<and> map (shape sc') xs = map Inr arrs"
proof (induction xs arbitrary: sc arrs)
  case (Cons x xs)
  obtain k v where x: "x = (k, v)" by (cases x)
  obtain a where a: "shape (nodes k sc) x = Inr a" using Cons.prems(1) by (cases "shape (nodes k sc) x") (auto simp: is_ok_def split: sum.splits)
  obtain arrs' where l: "arrow_loop nodes shape xs (nodes k sc) = (sc', arrs', r)" "arrs = a # arrs'"
    using Cons.prems(2) a by (auto simp: x split: prod.splits)
  from Cons.IH [OF _ l(1)] Cons.prems(1) have ih: "r = Inr ()" "holds_on (nodes k sc) sc'" "map (shape sc') xs = map Inr arrs'" by simp_all
  have "shape sc' x = Inr a" using stable [OF ih(2)] a by (simp add: x)
  then show ?case using ih hold [of sc k] holds_on_trans by (auto simp: l(2))
qed simp

lemma line_width_ok:
  "0 < pn_period pn \<Longrightarrow> 0 < b \<Longrightarrow> 0 < n \<Longrightarrow> line_width pn (b, n) = Inr (max (1 / 10) (pn_log pn (of_nat b / of_nat n / pn_period pn) * (pn_scale pn / 5)))"
proof -
  assume a: "0 < pn_period pn" "0 < b" "0 < n"
  then have "0 < rat_of_nat b / rat_of_nat n / pn_period pn" by simp
  then have "\<not> rat_of_nat b / rat_of_nat n / pn_period pn \<le> 0" by linarith
  then show ?thesis using a unfolding line_width_def math_log_def by simp
qed

lemma place_of_holds: "holds_on sc sc' \<Longrightarrow> node_pos sc i \<noteq> None \<Longrightarrow> place_of sc' i = place_of sc i"
  by (auto simp: holds_on_def place_of_def)

lemma two_nodes: "node_pos (get_node rx (get_node tx sc)) tx \<noteq> None" "node_pos (get_node rx (get_node tx sc)) rx \<noteq> None"
proof -
  obtain p where "node_pos (get_node tx sc) tx = Some p" using get_node_there [of tx sc] by blast
  then have "node_pos (get_node rx (get_node tx sc)) tx = Some p" using holds_on_get_node [of "get_node tx sc" rx] unfolding holds_on_def by blast
  then show "node_pos (get_node rx (get_node tx sc)) tx \<noteq> None" by simp
  show "node_pos (get_node rx (get_node tx sc)) rx \<noteq> None" by (rule get_node_there)
qed

lemma transmission_arrow_fields:
  "transmission_arrow pn sc ((tx, rx), b, n) = Inr a \<Longrightarrow>
   ar_from a = place_of sc tx \<and> ar_to a = place_of sc rx \<and> ar_rate a = of_nat b * 8 / 1000 / of_nat n / pn_period pn"
  by (auto simp: transmission_arrow_def bindE_Inr_conv Let_def bit_rate_def)

text \<open>
  What the arrows show. Whenever no sample is empty, an update draws one arrow for every pair of
  nodes with a transmission in the last samples and no other arrow: it goes from the one node to the
  other, where they are now, and shows their mean rate. No item is shown twice or lost.
\<close>

theorem transmissions_shown:
  assumes "items_ok s" "0 < pn_period pn" "\<forall>t \<in> set (concat sets). 0 < tm_bytes t" "update_transmissions_view pn sets sc s = (sc', s', r)"
  shows "r = Inr () \<and> items_ok s' \<and>
    (let avg = transmissions_average sets; items = take (length avg) (dr_items s') in
       distinct (map fst avg) \<and> set (map fst avg) = (\<lambda>t. (tm_from t, tm_to t)) ` set (concat sets) \<and>
       length items = length avg \<and> (\<forall>i. dr_shows s' i \<noteq> None \<longrightarrow> i \<in> set items) \<and>
       (\<forall>j < length avg. \<exists>a b n tx rx. avg ! j = ((tx, rx), b, n) \<and> dr_shows s' (items ! j) = Some a \<and>
          ar_from a = place_of sc' tx \<and> ar_to a = place_of sc' rx \<and>
          b = sum_list (map tm_bytes (filter (\<lambda>t. (tm_from t, tm_to t) = (tx, rx)) (concat sets))) \<and>
          n = length (filter (\<lambda>t. (tm_from t, tm_to t) = (tx, rx)) (concat sets)) \<and>
          ar_rate a = of_nat b * 8 / 1000 / of_nat n / pn_period pn))"
proof -
  let ?key = "\<lambda>t. (tm_from t, tm_to t)" and ?nodes = "\<lambda>(tx, rx) sc. get_node rx (get_node tx sc)"
  define avg where "avg = transmissions_average sets"
  have avg: "avg = foldl (count_sample ?key tm_bytes) [] (concat sets)" by (simp add: avg_def transmissions_average_def foldl_foldl)
  note sums = sums_of [where key = ?key and bytes = tm_bytes and ss = "concat sets", folded avg]
  have pos: "0 < b \<and> 0 < n" if "((tx, rx), b, n) \<in> set avg" for tx rx b n
  proof -
    note e = sums(3) [OF that]
    then have "filter (\<lambda>t. ?key t = (tx, rx)) (concat sets) \<noteq> []" by (metis length_0_conv less_irrefl)
    then obtain t where t: "t \<in> set (concat sets)" "?key t = (tx, rx)" unfolding filter_empty_conv by blast
    then have "tm_bytes t \<in> set (map tm_bytes (filter (\<lambda>t. ?key t = (tx, rx)) (concat sets)))" by auto
    then have "tm_bytes t \<le> b" using e member_le_sum_list by blast
    then show ?thesis using e assms(3) t(1) by fastforce
  qed
  obtain arrs where l: "arrow_loop ?nodes (transmission_arrow pn) avg sc = (sc', arrs, r)" "s' = draw_arrows (arrs, r) s"
    using assms(4) by (auto simp: update_transmissions_view_def Let_def avg_def split: prod.splits)
  have ok: "\<forall>x \<in> set avg. \<forall>sc. is_ok (transmission_arrow pn sc x)"
    using pos assms(2) by (auto simp: transmission_arrow_def line_width_ok Let_def)
  have final: "r = Inr () \<and> holds_on sc sc' \<and> map (transmission_arrow pn sc') avg = map Inr arrs"
  proof (rule arrow_loop_final [OF _ _ ok l(1)])
    show "holds_on sc (?nodes k sc)" for k sc by (cases k) (simp, meson holds_on_trans holds_on_get_node)
    show "transmission_arrow pn sc' (k, v) = transmission_arrow pn (?nodes k sc) (k, v)" if "holds_on (?nodes k sc) sc'" for k v sc sc'
    proof -
      obtain tx rx where k: "k = (tx, rx)" by (cases k)
      then have "place_of sc' tx = place_of (?nodes k sc) tx" "place_of sc' rx = place_of (?nodes k sc) rx"
        using that two_nodes [of rx tx sc] place_of_holds by auto
      then show ?thesis by (simp add: k transmission_arrow_def)
    qed
  qed
  then have s': "s' = redraw_items pop_last arrs s" using l(2) by (simp add: draw_arrows_def)
  have len: "length arrs = length avg" using final by (metis length_map)
  note shown = arrows.redraw_shows [OF assms(1), of arrs, folded s', unfolded len]
  have items: "length (take (length avg) (dr_items s')) = length avg" using shown(4) by simp
  have each: "\<exists>a b n tx rx. avg ! j = ((tx, rx), b, n) \<and> dr_shows s' (take (length avg) (dr_items s') ! j) = Some a \<and>
          ar_from a = place_of sc' tx \<and> ar_to a = place_of sc' rx \<and>
          b = sum_list (map tm_bytes (filter (\<lambda>t. (tm_from t, tm_to t) = (tx, rx)) (concat sets))) \<and>
          n = length (filter (\<lambda>t. (tm_from t, tm_to t) = (tx, rx)) (concat sets)) \<and>
          ar_rate a = of_nat b * 8 / 1000 / of_nat n / pn_period pn" if j: "j < length avg" for j
  proof -
    obtain tx rx b n where x: "avg ! j = ((tx, rx), b, n)" by (metis prod.exhaust)
    then have mem: "((tx, rx), b, n) \<in> set avg" using j by (metis nth_mem)
    have "map (transmission_arrow pn sc') avg ! j = map Inr arrs ! j" using final by simp
    then have a: "transmission_arrow pn sc' ((tx, rx), b, n) = Inr (arrs ! j)" using j by (simp add: len x)
    have sh: "dr_shows s' (take (length avg) (dr_items s') ! j) = Some (arrs ! j)"
      using arg_cong [OF shown(2), of "\<lambda>l. l ! j"] j items by (simp add: len)
    have f: "ar_from (arrs ! j) = place_of sc' tx" "ar_to (arrs ! j) = place_of sc' rx"
      "ar_rate (arrs ! j) = of_nat b * 8 / 1000 / of_nat n / pn_period pn"
      using transmission_arrow_fields [OF a] by blast+
    have bn: "b = sum_list (map tm_bytes (filter (\<lambda>t. ?key t = (tx, rx)) (concat sets)))" "n = length (filter (\<lambda>t. ?key t = (tx, rx)) (concat sets))"
      using sums(3) [OF mem] by (rule conjunct1, rule conjunct1 [OF conjunct2])
    show ?thesis
      by (rule exI [of _ "arrs ! j"], rule exI [of _ b], rule exI [of _ n], rule exI [of _ tx], rule exI [of _ rx])
        (rule conjI [OF x conjI [OF sh conjI [OF f(1) conjI [OF f(2) conjI [OF bn(1) conjI [OF bn(2) f(3)]]]]]])
  qed
  have only: "i \<in> set (take (length avg) (dr_items s'))" if "dr_shows s' i \<noteq> None" for i
  proof (rule ccontr)
    assume "i \<notin> set (take (length avg) (dr_items s'))"
    then have "dr_shows s' i = None" by (rule shown(3) [rule_format])
    with that show False ..
  qed
  show ?thesis unfolding avg_def [symmetric] Let_def
  proof (intro conjI allI impI)
    show "r = Inr ()" using final by blast
  qed (rule shown(1) sums(1) sums(2) items only each, assumption?)+
qed

definition demo_paint :: paint where
  "demo_paint = \<lparr>pn_log = (\<lambda>x. x), pn_clip = (\<lambda>_ l. l), pn_area = (0, 0, 600, 300), pn_edge = 300, pn_scale = 1, pn_period = 1 / 10\<rparr>"

definition demo_samples :: "transmission list list" where
  "demo_samples = [[\<lparr>tm_from = 0, tm_to = 1, tm_bytes = 100\<rparr>, \<lparr>tm_from = 1, tm_to = 0, tm_bytes = 40\<rparr>], [\<lparr>tm_from = 0, tm_to = 1, tm_bytes = 300\<rparr>]]"

theorem transmissions_shown_witness:
  "\<exists>sc s r a. update_transmissions_view demo_paint demo_samples (new_scene True) nothing_drawn = (sc, s, r) \<and> r = Inr () \<and> items_ok s \<and>
     dr_shows s (dr_items s ! 0) = Some a \<and> ar_rate a = 16"
proof -
  obtain sc s r where u: "update_transmissions_view demo_paint demo_samples (new_scene True) nothing_drawn = (sc, s, r)"
    by (metis prod.exhaust)
  have avg: "transmissions_average demo_samples = [((0, 1), 400, 2), ((1, 0), 40, 1)]" by code_simp
  have p: "0 < pn_period demo_paint" "\<forall>t \<in> set (concat demo_samples). 0 < tm_bytes t" by (simp_all add: demo_paint_def demo_samples_def)
  note t = transmissions_shown [OF nothing_ok p u, unfolded Let_def avg]
  then have "r = Inr ()" "items_ok s" by blast+
  moreover have "\<exists>a. dr_shows s (dr_items s ! 0) = Some a \<and> ar_rate a = 16"
  proof -
    have "\<forall>j < length [((0::nat, 1::nat), 400::nat, 2::nat), ((1, 0), 40, 1)]. \<exists>a b n tx rx.
        [((0::nat, 1::nat), 400::nat, 2::nat), ((1, 0), 40, 1)] ! j = ((tx, rx), b, n) \<and>
        dr_shows s (take (length [((0::nat, 1::nat), 400::nat, 2::nat), ((1, 0), 40, 1)]) (dr_items s) ! j) = Some a \<and>
        ar_rate a = of_nat b * 8 / 1000 / of_nat n / pn_period demo_paint"
      using t by blast
    from this [rule_format, of 0] show ?thesis by (auto simp: demo_paint_def)
  qed
  ultimately show ?thesis using u by blast
qed

end
