(* ===== verification/Viz_Axes.thy ===== *)
theory Viz_Axes
  imports Complex_Main Viz_View Viz_Items Py_Num
begin

text \<open>
  The axes of the visualizer, \<^verbatim>\<open>src/src/visualizer/visualizer/hud.py\<close>: a horizontal axis at the lower
  edge of the window and a vertical one at the left edge, with marks at round numbers of metres and
  labels that are used again. The decimal logarithm is a parameter; how a number is printed in a
  label or a path is left to the reader of the drawing.
\<close>

section \<open>The distance of the marks\<close>

definition rint :: "rat \<Rightarrow> int" where
  "rint x = \<lfloor>x + 1 / 2\<rfloor>"

definition division :: "(rat \<Rightarrow> rat) \<Rightarrow> rat \<Rightarrow> rat" where
  \<comment> \<open>the power of ten next to \<open>x\<close>, or its half or double if that is closer\<close>
  "division log10 x =
     (let dv = 10 powi (rint (log10 x)) in
      if \<bar>dv / 2 - x\<bar> < \<bar>dv - x\<bar> then dv / 2
      else if \<bar>dv * 2 - x\<bar> < \<bar>dv - x\<bar> then dv * 2
      else dv)"

definition first_mark :: "rat \<Rightarrow> rat \<Rightarrow> rat" where
  "first_mark xi dv = dv * of_int \<lceil>xi / dv\<rceil> - dv"

definition compute_divisions :: "(rat \<Rightarrow> rat) \<Rightarrow> rat \<Rightarrow> rat \<Rightarrow> (rat \<times> rat) res" where
  \<comment> \<open>five rounds, with the state \<open>ndiv\<close>, \<open>x0\<close>, \<open>dv\<close>\<close>
  "compute_divisions log10 xi xf =
     (if \<not> xf > xi then Inl AssertionError
      else
        (let dx = xf - xi; ndiv = 5; text_width = dx / ndiv / 2; dx_over_ndiv = dx / ndiv;
             (_, x0, dv) = foldl (\<lambda>(nd, _, _) n.
               let dv = division log10 dx_over_ndiv; x0 = first_mark xi dv
               in (if n > 1 then of_int (rint (dx / text_width)) else nd, x0, dv)) (ndiv, 0, 0) [0..<5]
         in Inr (x0, dv)))"

section \<open>The axes\<close>

record label =
  la_font :: int
  la_number :: rat
  la_centered :: bool
  la_at :: point

record axes =
  ax_visible :: bool
  ax_hlines :: "rat \<times> (point \<times> point) list"      \<comment> \<open>line width and segments\<close>
  ax_vlines :: "rat \<times> (point \<times> point) list"
  ax_labels :: "label drawn"

text \<open>The loop over the marks ends because the distance is positive, which is written out.\<close>

function marks :: "rat \<Rightarrow> rat \<Rightarrow> rat \<Rightarrow> rat list" where
  "marks dv hi x = (if 0 < dv \<and> x < hi then x # marks dv hi (x + dv) else [])"
  by pat_completeness auto
termination
proof (relation "measure (\<lambda>(dv, hi, x). nat \<lceil>(hi - x) / dv\<rceil>)")
  fix dv hi x :: rat
  assume a: "0 < dv \<and> x < hi"
  then have "(hi - (x + dv)) / dv = (hi - x) / dv - 1" by (simp add: field_simps)
  moreover have "0 < (hi - x) / dv" using a by simp
  ultimately show "((dv, hi, x + dv), dv, hi, x) \<in> measure (\<lambda>(dv, hi, x). nat \<lceil>(hi - x) / dv\<rceil>)"
    by (simp add: ceiling_diff_one)
qed simp

declare marks.simps [simp del]

text \<open>The lists of both axes for the visible area \<open>(x1, y1, x2, y2)\<close>: segments and labels.\<close>

definition horizontal :: "(rat \<Rightarrow> rat) \<Rightarrow> rat \<Rightarrow> rat \<times> rat \<times> rat \<times> rat \<Rightarrow> ((point \<times> point) list \<times> label list) res" where
  "horizontal log10 zoom = (\<lambda>(x1, y1, x2, y2).
     let offset = 10 / zoom; w = 5 / zoom; yc = y2 - w / 2; hi = x2 / pixels_per_meter in
     bindE (compute_divisions log10 (x1 / pixels_per_meter) hi) (\<lambda>(x0, dv).
     let xs = marks dv hi x0 in
     Inr (((x1, yc), (x2, yc)) # map (\<lambda>x. ((pixels_per_meter * x, yc - offset), (pixels_per_meter * x, yc))) xs,
          map (\<lambda>x. \<lparr>la_font = trunc_rat (12 / zoom), la_number = x, la_centered = True, la_at = (pixels_per_meter * x, yc - offset)\<rparr>) xs)))"

definition vertical :: "(rat \<Rightarrow> rat) \<Rightarrow> rat \<Rightarrow> rat \<times> rat \<times> rat \<times> rat \<Rightarrow> ((point \<times> point) list \<times> label list) res" where
  "vertical log10 zoom = (\<lambda>(x1, y1, x2, y2).
     let offset = 10 / zoom; w = 5 / zoom; xc = x1 + w / 2; hi = y2 / pixels_per_meter in
     bindE (compute_divisions log10 (y1 / pixels_per_meter) hi) (\<lambda>(y0, dv).
     let ys = marks dv hi y0 in
     Inr (((xc, y1), (xc, y2)) # map (\<lambda>y. ((xc, pixels_per_meter * y), (xc + offset, pixels_per_meter * y))) ys,
          map (\<lambda>y. \<lparr>la_font = trunc_rat (12 / zoom), la_number = y, la_centered = False, la_at = (xc + offset, pixels_per_meter * y)\<rparr>) ys)))"

definition dropped_labels :: "label list \<Rightarrow> label drawn \<Rightarrow> label drawn" where
  \<comment> \<open>an exception comes before the unused labels are put back: the list is left with the ones that were taken\<close>
  "dropped_labels ls s =
     (let hidden = (\<lambda>i. if i \<in> set (dr_items s) then None else dr_shows s i);
          (used, rest, n) = recycle pop_first ls (dr_items s) (dr_next s)
      in \<lparr>dr_items = map fst used, dr_next = n,
          dr_shows = (\<lambda>i. case map_of used i of Some d \<Rightarrow> Some d | None \<Rightarrow> hidden i)\<rparr>)"

definition update_axes :: "(rat \<Rightarrow> rat) \<Rightarrow> toolkit \<Rightarrow> view \<Rightarrow> axes \<Rightarrow> axes \<times> unit res" where
  \<comment> \<open>\<open>update_view\<close>; the window has a zoom by then\<close>
  "update_axes log10 tk v ax =
     (let area = visible_area tk v; z = vw_zoom v; w = 5 / z in
      case horizontal log10 z area of
        Inl e \<Rightarrow> (ax\<lparr>ax_hlines := (w, snd (ax_hlines ax)), ax_labels := dropped_labels [] (ax_labels ax)\<rparr>, Inl e)
      | Inr (hsegs, hlabels) \<Rightarrow>
          (case vertical log10 z area of
             Inl e \<Rightarrow> (ax\<lparr>ax_hlines := (w, hsegs), ax_vlines := (w, snd (ax_vlines ax)),
                        ax_labels := dropped_labels hlabels (ax_labels ax)\<rparr>, Inl e)
           | Inr (vsegs, vlabels) \<Rightarrow>
               (ax\<lparr>ax_hlines := (w, hsegs), ax_vlines := (w, vsegs),
                  ax_labels := redraw_items pop_first (hlabels @ vlabels) (ax_labels ax)\<rparr>, Inr ())))"

definition scrolled :: "(rat \<Rightarrow> rat) \<Rightarrow> toolkit \<Rightarrow> view \<Rightarrow> axes \<Rightarrow> axes \<times> unit res" where
  \<comment> \<open>what the signals of the scroll bars call\<close>
  "scrolled log10 tk v ax = (if ax_visible ax then update_axes log10 tk v ax else (ax, Inr ()))"

definition set_axes_visible :: "bool \<Rightarrow> axes \<Rightarrow> axes" where
  \<comment> \<open>hiding hides the labels, too; showing does not draw them\<close>
  "set_axes_visible b ax =
     (if b then ax\<lparr>ax_visible := True\<rparr>
      else ax\<lparr>ax_visible := False, ax_labels := (ax_labels ax)\<lparr>dr_shows := (\<lambda>i. if i \<in> set (dr_items (ax_labels ax)) then None else dr_shows (ax_labels ax) i)\<rparr>\<rparr>)"

section \<open>Five rounds are one\<close>

lemma compute_divisions_once:
  "compute_divisions log10 xi xf =
     (if xi < xf then (let dv = division log10 ((xf - xi) / 5) in Inr (first_mark xi dv, dv)) else Inl AssertionError)"
  by (simp add: compute_divisions_def Let_def upt_rec)

text \<open>That the logarithm is right to the next integer: the power of ten is closest to the number by ratio.\<close>

definition log_rounds :: "(rat \<Rightarrow> rat) \<Rightarrow> rat \<Rightarrow> bool" where
  "log_rounds log10 x \<longleftrightarrow> (let p = 10 powi (rint (log10 x)) in p * p \<le> 10 * (x * x) \<and> x * x < 10 * (p * p))"

lemma division_bounds:
  assumes "log_rounds log10 x" "0 < x"
  defines "d \<equiv> division log10 x"
  shows "0 < d" "2 * d * d \<le> 5 * (x * x)" "2 * (x * x) < 5 * d * d"
proof -
  define p where "p = (10 powi (rint (log10 x)) :: rat)"
  have p: "0 < p" by (simp add: p_def)
  have r: "p * p \<le> 10 * (x * x)" "x * x < 10 * (p * p)" using assms(1) by (simp_all add: log_rounds_def p_def Let_def)
  have d: "d = (if \<bar>p / 2 - x\<bar> < \<bar>p - x\<bar> then p / 2 else if \<bar>p * 2 - x\<bar> < \<bar>p - x\<bar> then p * 2 else p)"
    by (simp add: d_def division_def p_def Let_def)
  have sq: "a * a \<le> b * b" if "0 \<le> a" "a \<le> b" for a b :: rat using that by (simp add: mult_mono)
  have t: "\<bar>p / 2 - x\<bar> < \<bar>p - x\<bar> \<longleftrightarrow> 4 * x < 3 * p" "\<bar>p * 2 - x\<bar> < \<bar>p - x\<bar> \<longleftrightarrow> 3 * p < 2 * x"
    using p by (auto simp: abs_if)
  consider (half) "d = p / 2" "4 * x < 3 * p" | (twice) "d = p * 2" "3 * p < 2 * x" | (one) "d = p" "3 * p \<le> 4 * x" "2 * x \<le> 3 * p"
    by (cases "4 * x < 3 * p"; cases "3 * p < 2 * x") (auto simp: d [unfolded t])
  then have "0 < d \<and> 2 * d * d \<le> 5 * (x * x) \<and> 2 * (x * x) < 5 * d * d"
  proof cases
    case half
    have "(4 * x) * (4 * x) \<le> (3 * p) * (3 * p)" using half(2) assms(2) by (intro sq) simp_all
    moreover have pd: "p = 2 * d" using half(1) by simp
    then have "p * p = 4 * (d * d)" "0 < d * d" using p by simp_all
    moreover have "0 < d" using half(1) p by simp
    ultimately show ?thesis using r by (auto simp: mult.assoc)
  next
    case twice
    have "(3 * p) * (3 * p) \<le> (2 * x) * (2 * x)" using twice(2) p by (intro sq) simp_all
    moreover have "d * d = 4 * (p * p)" "0 < d * d" unfolding twice(1) using p by simp_all
    ultimately show ?thesis using twice(1) p r assms(2) by (auto simp: mult.assoc)
  next
    case one
    have "(3 * p) * (3 * p) \<le> (4 * x) * (4 * x)" "(2 * x) * (2 * x) \<le> (3 * p) * (3 * p)" using p assms(2) one(2,3) by (intro sq; simp)+
    moreover have "0 < p * p" "0 < x * x" using p assms(2) by simp_all
    ultimately show ?thesis using one(1) p by simp
  qed
  then show "0 < d" "2 * d * d \<le> 5 * (x * x)" "2 * (x * x) < 5 * d * d" by simp_all
qed

lemma division_round: "\<exists>m k. (m = 1 \<or> m = 2 \<or> m = 5) \<and> division log10 x = m * 10 powi k"
proof -
  define k where "k = rint (log10 x)"
  define p where "p = (10 powi k :: rat)"
  define q where "q = (10 powi (k - 1) :: rat)"
  have "p / 2 = 5 * q" by (simp add: p_def q_def power_int_diff)
  then have "division log10 x = 5 * q \<or> division log10 x = 2 * p \<or> division log10 x = 1 * p"
    unfolding division_def Let_def k_def [symmetric] p_def [symmetric] by (simp add: mult.commute)
  then show ?thesis unfolding p_def q_def by blast
qed

section \<open>The marks\<close>

lemma marks_steps: "0 < dv \<Longrightarrow> marks dv hi x = map (\<lambda>k. x + of_nat k * dv) [0..<nat \<lceil>(hi - x) / dv\<rceil>]"
proof (induction dv hi x rule: marks.induct)
  case (1 dv hi x)
  show ?case
  proof (cases "x < hi")
    case True
    have "(hi - (x + dv)) / dv = (hi - x) / dv - 1" using 1(2) by (simp add: field_simps)
    then have c: "\<lceil>(hi - x) / dv\<rceil> = \<lceil>(hi - (x + dv)) / dv\<rceil> + 1" by (simp add: ceiling_diff_one)
    have "0 < (hi - x) / dv" using True 1(2) by simp
    then have n: "nat \<lceil>(hi - x) / dv\<rceil> = Suc (nat \<lceil>(hi - (x + dv)) / dv\<rceil>)" using c by (simp add: zero_less_ceiling [symmetric]) linarith
    have "marks dv hi x = x # marks dv hi (x + dv)" using True 1(2) by (subst marks.simps) simp
    also have "marks dv hi (x + dv) = map (\<lambda>k. x + dv + of_nat k * dv) [0..<nat \<lceil>(hi - (x + dv)) / dv\<rceil>]" using 1 True by simp
    also have "x # \<dots> = map (\<lambda>k. x + of_nat k * dv) [0..<Suc (nat \<lceil>(hi - (x + dv)) / dv\<rceil>)]"
      by (simp add: upt_conv_Cons map_Suc_upt [symmetric] comp_def algebra_simps del: upt_Suc)
    finally show ?thesis by (simp add: n)
  next
    case False
    then have "(hi - x) / dv \<le> 0" using 1(2) by (simp add: divide_nonpos_pos)
    then show ?thesis using False by (subst marks.simps) (simp add: ceiling_le_zero)
  qed
qed

text \<open>
  The marks of an axis. They are the multiples of a round number - one, two or five times a power
  of ten - from the last one left of the window (that is where the first label stands) up to its
  end, none left out; and there are between four and nine of them at any zoom.
\<close>

theorem axis_marks:
  assumes "xi < xf" "log_rounds log10 ((xf - xi) / 5)"
  shows "\<exists>x0 dv. compute_divisions log10 xi xf = Inr (x0, dv) \<and>
    (\<exists>m k. (m = 1 \<or> m = 2 \<or> m = 5) \<and> dv = m * 10 powi k) \<and>
    4 \<le> length (marks dv xf x0) \<and> length (marks dv xf x0) \<le> 9 \<and> distinct (marks dv xf x0) \<and>
    set (marks dv xf x0) = {x. (\<exists>k. x = of_int k * dv) \<and> xi - dv \<le> x \<and> x < xf}"
proof -
  define y where "y = (xf - xi) / 5"
  define dv where "dv = division log10 y"
  define c where "c = \<lceil>xi / dv\<rceil>"
  define x0 where "x0 = dv * of_int c - dv"
  define n where "n = nat \<lceil>(xf - x0) / dv\<rceil>"
  have x: "0 < y" using assms(1) by (simp add: y_def)
  note b = division_bounds [OF assms(2) [folded y_def] x, folded dv_def]
  have c: "of_int c - 1 < xi / dv" "xi / dv \<le> of_int c" unfolding c_def by linarith+
  then have "(of_int c - 1) * dv < xi" "xi \<le> of_int c * dv" using b(1) by (simp_all only: pos_less_divide_eq pos_divide_le_eq)
  then have xi: "dv * of_int c - dv < xi" "xi \<le> dv * of_int c" by (simp_all add: algebra_simps)
  have ms: "marks dv xf x0 = map (\<lambda>k. x0 + of_nat k * dv) [0..<n]" unfolding n_def by (rule marks_steps [OF b(1)])
  have low: "3 * dv < 5 * y"
  proof (rule ccontr)
    assume "\<not> 3 * dv < 5 * y"
    then have le: "5 * y \<le> 3 * dv" by (simp add: not_less)
    have "(5 * y) * (5 * y) \<le> (3 * dv) * (3 * dv)" by (rule mult_mono) (use le x b(1) in simp_all)
    then have "25 * (y * y) \<le> 9 * (dv * dv)" by simp
    moreover have "2 * (dv * dv) \<le> 5 * (y * y)" using b(2) by (simp only: mult.assoc)
    ultimately have "y * y \<le> 0" by linarith
    then show False using x by (simp add: mult_le_0_iff)
  qed
  have high: "5 * y < 8 * dv"
  proof (rule ccontr)
    assume "\<not> 5 * y < 8 * dv"
    then have le: "8 * dv \<le> 5 * y" by (simp add: not_less)
    have "(8 * dv) * (8 * dv) \<le> (5 * y) * (5 * y)" by (rule mult_mono) (use le x b(1) in simp_all)
    then have "64 * (dv * dv) \<le> 25 * (y * y)" by simp
    moreover have "2 * (y * y) < 5 * (dv * dv)" using b(3) by (simp only: mult.assoc)
    moreover have "0 < dv * dv" using b(1) by simp
    ultimately show False by linarith
  qed
  have five: "5 * y = xf - xi" by (simp add: y_def)
  have "3 < (xf - x0) / dv" using low xi(1) b(1) by (simp add: five x0_def pos_less_divide_eq)
  moreover have "(xf - x0) / dv < 9" using high xi(2) b(1) by (simp add: five x0_def pos_divide_less_eq)
  ultimately have n: "4 \<le> n" "n \<le> 9" unfolding n_def by linarith+
  have top: "of_int \<lceil>(xf - x0) / dv\<rceil> - 1 < (xf - x0) / dv" "(xf - x0) / dv \<le> of_int \<lceil>(xf - x0) / dv\<rceil>" by linarith+
  have below: "k < n \<longleftrightarrow> x0 + of_nat k * dv < xf" for k
  proof -
    have "k < n \<longleftrightarrow> int k < \<lceil>(xf - x0) / dv\<rceil>" unfolding n_def by linarith
    also have "\<dots> \<longleftrightarrow> of_nat k < (xf - x0) / dv" by (simp add: less_ceiling_iff)
    also have "\<dots> \<longleftrightarrow> x0 + of_nat k * dv < xf" using b(1) by (simp add: pos_less_divide_eq algebra_simps)
    finally show ?thesis .
  qed
  have "set (marks dv xf x0) = {x. (\<exists>k. x = of_int k * dv) \<and> xi - dv \<le> x \<and> x < xf}"
  proof (intro equalityI subsetI)
    fix x
    assume "x \<in> set (marks dv xf x0)"
    then obtain k where k: "k < n" "x = x0 + of_nat k * dv" by (auto simp: ms)
    have "x = of_int (c - 1 + int k) * dv" by (simp add: k(2) x0_def algebra_simps)
    moreover have "xi - dv \<le> x"
    proof -
      have "0 \<le> of_nat k * dv" using b(1) by simp
      then show ?thesis using xi(2) by (simp add: k(2) x0_def)
    qed
    moreover have "x < xf" using below k by simp
    ultimately show "x \<in> {x. (\<exists>k. x = of_int k * dv) \<and> xi - dv \<le> x \<and> x < xf}" by blast
  next
    fix x
    assume "x \<in> {x. (\<exists>k. x = of_int k * dv) \<and> xi - dv \<le> x \<and> x < xf}"
    then obtain k where k: "x = of_int k * dv" "xi - dv \<le> x" "x < xf" by blast
    have "xi / dv \<le> of_int (k + 1)" using k(1,2) b(1) by (simp add: pos_divide_le_eq algebra_simps)
    then have "c \<le> k + 1" unfolding c_def by (simp only: ceiling_le_iff)
    then have e: "x = x0 + of_nat (nat (k + 1 - c)) * dv" by (simp add: k(1) x0_def algebra_simps)
    then have "nat (k + 1 - c) < n" using below k(3) by simp
    then show "x \<in> set (marks dv xf x0)" unfolding ms set_map e by (intro imageI) simp
  qed
  moreover have "distinct (marks dv xf x0)" using b(1) by (simp add: ms distinct_map inj_on_def)
  moreover have "compute_divisions log10 xi xf = Inr (x0, dv)"
    using assms(1) by (simp add: compute_divisions_once Let_def first_mark_def x0_def c_def dv_def y_def)
  moreover have "\<exists>m k. (m = 1 \<or> m = 2 \<or> m = 5) \<and> dv = m * 10 powi k" unfolding dv_def by (rule division_round)
  ultimately show ?thesis using n by (intro exI [of _ x0] exI [of _ dv]) (simp add: ms)
qed

text \<open>A logarithm that is right between 1/3 and 300, tabulated.\<close>

definition demo_log10 :: "rat \<Rightarrow> rat" where
  "demo_log10 x = (if x < 3 then 0 else if x < 30 then 1 else 2)"

theorem axis_marks_witness:
  "\<exists>x0 dv. compute_divisions demo_log10 (-10) 190 = Inr (x0, dv) \<and> dv = 50 \<and> length (marks dv 190 x0) = 5 \<and> -50 \<in> set (marks dv 190 x0)"
proof -
  have "log_rounds demo_log10 ((190 - -10) / 5)" by code_simp
  then obtain x0 dv where x: "compute_divisions demo_log10 (-10) 190 = Inr (x0, dv)"
    "set (marks dv 190 x0) = {x. (\<exists>k. x = of_int k * dv) \<and> -10 - dv \<le> x \<and> x < 190}"
    using axis_marks [of "-10" 190 demo_log10] by auto
  have "compute_divisions demo_log10 (-10) 190 = Inr (-50, 50)" by code_simp
  then have e: "x0 = -50" "dv = 50" using x(1) by simp_all
  have "length (marks 50 190 (-50)) = 5" by code_simp
  moreover have "-50 \<in> set (marks dv 190 x0)" using x(2) by (auto simp: e intro!: exI [of _ "-1"])
  ultimately show ?thesis using x(1) e by blast
qed

text \<open>
  After a drawing exactly the labels of both axes are visible, each on an item of its own, and the
  labels left over are kept; an exception of the second axis makes the labels it did not take be
  created anew the next time.
\<close>

lemma update_axes_labels:
  assumes "items_ok (ax_labels ax)" "update_axes log10 tk v ax = (ax', Inr ())"
  shows "\<exists>hs hl vs vl. horizontal log10 (vw_zoom v) (visible_area tk v) = Inr (hs, hl) \<and> vertical log10 (vw_zoom v) (visible_area tk v) = Inr (vs, vl) \<and>
    ax_hlines ax' = (5 / vw_zoom v, hs) \<and> ax_vlines ax' = (5 / vw_zoom v, vs) \<and> items_ok (ax_labels ax') \<and>
    map (dr_shows (ax_labels ax')) (take (length hl + length vl) (dr_items (ax_labels ax'))) = map Some (hl @ vl) \<and>
    set (dr_items (ax_labels ax)) \<subseteq> set (dr_items (ax_labels ax'))"
proof -
  obtain hs hl vs vl where d: "horizontal log10 (vw_zoom v) (visible_area tk v) = Inr (hs, hl)"
    "vertical log10 (vw_zoom v) (visible_area tk v) = Inr (vs, vl)"
    "ax' = ax\<lparr>ax_hlines := (5 / vw_zoom v, hs), ax_vlines := (5 / vw_zoom v, vs), ax_labels := redraw_items pop_first (hl @ vl) (ax_labels ax)\<rparr>"
    using assms(2) by (auto simp: update_axes_def Let_def split: sum.splits)
  show ?thesis using d labels.redraw_shows [OF assms(1), of "hl @ vl"]
    by (intro exI [of _ hs] exI [of _ hl] exI [of _ vs] exI [of _ vl]) simp
qed

end
