(* ===== verification/Viz_Stats.thy ===== *)
theory Viz_Stats
  imports Viz_Threads
begin

text \<open>
  The plugin of the visualizer that shows the statistics of the interfaces,
  \<^verbatim>\<open>src/src/visualizer/visualizer/plugins/interface_statistics.py\<close>: the collector keeps the counters
  of the last ten samples of every node, and the window shows the newest ones with the rates over
  the time that they span. Rates are rationals; their text is a parameter.
\<close>

section \<open>The collector\<close>

record counters =
  co_tx_bytes :: nat
  co_rx_bytes :: nat
  co_tx_packets :: nat
  co_rx_packets :: nat

record net_dev_stats =
  ns_rx_packets :: nat
  ns_rx_bytes :: nat
  ns_tx_packets :: nat
  ns_tx_bytes :: nat
  ns_rx_packet_rate :: rat
  ns_rx_bit_rate :: rat
  ns_tx_packet_rate :: rat
  ns_tx_bit_rate :: rat

type_synonym collector = "(nat, counters list list) dict"

definition node_statistics_memory :: nat where "node_statistics_memory = 10"

definition collect_node :: "collector \<Rightarrow> nat \<times> counters list \<Rightarrow> collector" where
  "collect_node c = (\<lambda>(node, sample).
     dict_set node (keep_last node_statistics_memory ((case dict_get c node of None \<Rightarrow> [] | Some l \<Rightarrow> l) @ [sample])) c)"

definition collect_statistics :: "collector \<Rightarrow> (nat \<times> counters list) list \<Rightarrow> collector" where
  \<comment> \<open>\<open>simulation_periodic_update\<close>\<close>
  "collect_statistics = foldl collect_node"

definition difference :: "nat \<Rightarrow> nat \<Rightarrow> rat" where
  "difference b a = rat_of_int (int b - int a)"

definition interface_stats :: "rat \<Rightarrow> counters list \<Rightarrow> nat \<times> counters \<Rightarrow> net_dev_stats res" where
  \<comment> \<open>one interface of the newest sample against the oldest sample\<close>
  "interface_stats k oldest = (\<lambda>(i, new).
     if i \<ge> length oldest then Inl IndexError
     else if k = 0 then Inl ZeroDivisionError
     else (let old = oldest ! i in Inr
       \<lparr>ns_rx_packets = co_rx_packets new, ns_rx_bytes = co_rx_bytes new,
        ns_tx_packets = co_tx_packets new, ns_tx_bytes = co_tx_bytes new,
        ns_rx_packet_rate = difference (co_rx_packets new) (co_rx_packets old) / k,
        ns_rx_bit_rate = difference (co_rx_bytes new) (co_rx_bytes old) * 8 / k,
        ns_tx_packet_rate = difference (co_tx_packets new) (co_tx_packets old) / k,
        ns_tx_bit_rate = difference (co_tx_bytes new) (co_tx_bytes old) * 8 / k\<rparr>))"

definition get_interface_statistics :: "rat \<Rightarrow> collector \<Rightarrow> nat \<Rightarrow> net_dev_stats list res" where
  \<comment> \<open>\<open>period\<close> is the sample period of the visualizer at the time of the call\<close>
  "get_interface_statistics period c node =
     (case dict_get c node of
        None \<Rightarrow> Inr []
      | Some raw \<Rightarrow>
          if length raw < node_statistics_memory then Inr []
          else if length raw \<noteq> node_statistics_memory then Inl AssertionError
          else mapE (interface_stats (period * (rat_of_nat node_statistics_memory - 1)) (hd raw)) (enumerate 0 (last raw)))"

section \<open>The window\<close>

text \<open>
  A row of the table. The name of an interface and the text of a rate are parameters; an interface
  that the node does not have any more raises in the simulator's bindings.
\<close>

definition interface_name :: "string option \<Rightarrow> nat \<Rightarrow> string" where
  "interface_name found i =
     (case found of None \<Rightarrow> ''(interface '' @ show_nat i @ '')'' | Some n \<Rightarrow> if n = [] then ''(interface '' @ show_nat i @ '')'' else n)"

definition statistics_row :: "(nat \<Rightarrow> string option) \<Rightarrow> (rat \<Rightarrow> string) \<Rightarrow> nat \<times> net_dev_stats \<Rightarrow> string list" where
  "statistics_row find_name str_float = (\<lambda>(i, s).
     [interface_name (find_name i) i,
      show_nat (ns_tx_packets s), show_nat (ns_tx_bytes s), str_float (ns_tx_packet_rate s), str_float (ns_tx_bit_rate s),
      show_nat (ns_rx_packets s), show_nat (ns_rx_bytes s), str_float (ns_rx_packet_rate s), str_float (ns_rx_bit_rate s)])"

definition update_statistics :: "(nat \<Rightarrow> string option) \<Rightarrow> (rat \<Rightarrow> string) \<Rightarrow> rat \<Rightarrow> collector \<Rightarrow> nat \<Rightarrow>
    string list list \<Rightarrow> string list list \<times> unit res" where
  \<comment> \<open>the table is cleared once the statistics are there\<close>
  "update_statistics find_name str_float period c node table =
     (case get_interface_statistics period c node of
        Inl e \<Rightarrow> (table, Inl e)
      | Inr stats \<Rightarrow> (map (statistics_row find_name str_float) (enumerate 0 stats), Inr ()))"

section \<open>What is kept\<close>

definition samples_of :: "nat \<Rightarrow> (nat \<times> counters list) list \<Rightarrow> counters list list" where
  "samples_of node us = map snd (filter (\<lambda>u. fst u = node) us)"

lemma keep_last_short: "length xs \<le> n \<Longrightarrow> keep_last n xs = xs"
  by (simp add: keep_last_def)

lemma length_keep_last: "length (keep_last n xs) = min n (length xs)"
  by (simp add: keep_last_def)

lemma keep_last_rev: "keep_last n xs = rev (take n (rev xs))"
  by (simp add: keep_last_def take_rev)

lemma keep_last_twice: "keep_last n (keep_last n xs @ [x]) = keep_last n (xs @ [x])"
  by (cases n) (simp_all add: keep_last_rev take_Cons min_def)

lemma samples_of_snoc [simp]: "samples_of node (us @ [(m, s)]) = samples_of node us @ (if m = node then [s] else [])"
  by (simp add: samples_of_def)

lemma collect_snoc: "collect_statistics c (us @ [u]) = collect_node (collect_statistics c us) u"
  by (simp add: collect_statistics_def)

lemma collected:
  "dict_get (collect_statistics c us) node =
     (if samples_of node us = [] then dict_get c node
      else Some (keep_last node_statistics_memory ((case dict_get c node of None \<Rightarrow> [] | Some l \<Rightarrow> l) @ samples_of node us)))"
proof (induction us rule: rev_induct)
  case Nil
  then show ?case by (simp add: collect_statistics_def samples_of_def)
next
  case (snoc u us)
  let ?l = "case dict_get c node of None \<Rightarrow> [] | Some l \<Rightarrow> l"
  obtain m s where u: "u = (m, s)" by (cases u)
  show ?case using snoc keep_last_twice [of node_statistics_memory "?l @ samples_of node us" s]
    by (cases "samples_of node us = []") (auto simp: collect_snoc collect_node_def u dict_get_set)
qed

section \<open>The rates\<close>

text \<open>The mean over the last nine periods of the growth of a counter per period.\<close>

definition mean_rate :: "(counters \<Rightarrow> nat) \<Rightarrow> rat \<Rightarrow> counters list list \<Rightarrow> nat \<Rightarrow> rat" where
  "mean_rate f period h i =
     (\<Sum>j = length h - 10..<length h - 1. (rat_of_nat (f (h ! Suc j ! i)) - rat_of_nat (f (h ! j ! i))) / period) / 9"

lemma mean_rate_ends:
  assumes "10 \<le> length h"
  shows "mean_rate f period h i = difference (f (last h ! i)) (f (h ! (length h - 10) ! i)) / (period * 9)"
proof -
  have "h \<noteq> []" using assms by auto
  then have "(\<Sum>j = length h - 10..<length h - 1. rat_of_nat (f (h ! Suc j ! i)) - rat_of_nat (f (h ! j ! i))) =
      rat_of_nat (f (last h ! i)) - rat_of_nat (f (h ! (length h - 10) ! i))"
    using sum_Suc_diff' [of "length h - 10" "length h - 1" "\<lambda>j. rat_of_nat (f (h ! j ! i))"] by (simp add: last_conv_nth)
  then show ?thesis by (simp add: mean_rate_def difference_def sum_divide_distrib [symmetric])
qed

lemma mapE_enumerate:
  assumes "\<And>i. i < length xs \<Longrightarrow> f (i, xs ! i) = Inr (g i)"
  shows "mapE f (enumerate 0 xs) = Inr (map g [0..<length xs])"
proof -
  have "mapE f (enumerate 0 xs) = Inr (map (\<lambda>p. g (fst p)) (enumerate 0 xs))"
    by (rule mapE_all_Inr) (auto simp: in_set_enumerate_eq assms)
  moreover have "map (\<lambda>p. g (fst p)) (enumerate 0 xs) = map g [0..<length xs]"
    by (rule nth_equalityI) (simp_all add: nth_enumerate_eq)
  ultimately show ?thesis by simp
qed

lemma mapE_fails:
  assumes "\<And>x e'. f x = Inl e' \<Longrightarrow> e' = e"
  shows "k < length xs \<Longrightarrow> f (xs ! k) = Inl e \<Longrightarrow> mapE f xs = Inl e"
proof (induction xs arbitrary: k)
  case Nil
  from Nil(1) show ?case by simp
next
  case (Cons x xs)
  show ?case
  proof (cases "f x")
    case (Inl e')
    then show ?thesis using assms [OF Inl] by (simp add: bindE_def)
  next
    case (Inr y)
    then have "k \<noteq> 0" using Cons.prems(2) by (metis nth_Cons_0 sum.distinct(1))
    then have "mapE f xs = Inl e" using Cons.IH [of "k - 1"] Cons.prems by (simp add: nth_Cons')
    then show ?thesis using Inr by (simp add: bindE_def)
  qed
qed

text \<open>
  What the window shows of a node. With fewer than ten samples it shows nothing. With ten or more
  it shows the newest counters, and every rate is the mean of the nine rates between neighbouring
  samples - as long as the period was the same for all of them - whatever samples of other nodes
  came in between. An interface that was added within the last ten samples ends in IndexError.
\<close>

theorem rates_are_means:
  fixes us node period
  defines "h \<equiv> samples_of node us"
  assumes "period \<noteq> 0"
  shows "(length h < 10 \<longrightarrow> get_interface_statistics period (collect_statistics [] us) node = Inr []) \<and>
    (10 \<le> length h \<and> length (last h) \<le> length (h ! (length h - 10)) \<longrightarrow>
       get_interface_statistics period (collect_statistics [] us) node = Inr (map (\<lambda>i. let c = last h ! i in
         \<lparr>ns_rx_packets = co_rx_packets c, ns_rx_bytes = co_rx_bytes c, ns_tx_packets = co_tx_packets c, ns_tx_bytes = co_tx_bytes c,
          ns_rx_packet_rate = mean_rate co_rx_packets period h i, ns_rx_bit_rate = 8 * mean_rate co_rx_bytes period h i,
          ns_tx_packet_rate = mean_rate co_tx_packets period h i, ns_tx_bit_rate = 8 * mean_rate co_tx_bytes period h i\<rparr>)
         [0..<length (last h)])) \<and>
    (10 \<le> length h \<and> length (last h) > length (h ! (length h - 10)) \<longrightarrow>
       get_interface_statistics period (collect_statistics [] us) node = Inl IndexError)"
proof -
  have got: "dict_get (collect_statistics [] us) node = (if h = [] then None else Some (keep_last 10 h))"
    unfolding h_def using collected [of "[]" us node] by (simp add: node_statistics_memory_def dict_get_def)
  let ?k = "period * (rat_of_nat node_statistics_memory - 1)"
  have k: "?k = period * 9" by (simp add: node_statistics_memory_def)
  have long: "get_interface_statistics period (collect_statistics [] us) node =
      mapE (interface_stats ?k (h ! (length h - 10))) (enumerate 0 (last h))" if "10 \<le> length h"
  proof -
    have "h \<noteq> []" "keep_last 10 h \<noteq> []" "length (keep_last 10 h) = 10" using that by (auto simp: keep_last_def)
    moreover have "hd (keep_last 10 h) = h ! (length h - 10)" using that by (simp add: keep_last_def hd_drop_conv_nth)
    moreover have "last (keep_last 10 h) = last h" using that by (simp add: keep_last_def)
    ultimately show ?thesis by (simp add: get_interface_statistics_def got node_statistics_memory_def)
  qed
  show ?thesis
  proof (intro conjI impI)
    assume "length h < 10"
    then show "get_interface_statistics period (collect_statistics [] us) node = Inr []"
      by (auto simp: get_interface_statistics_def got node_statistics_memory_def length_keep_last)
  next
    assume a: "10 \<le> length h \<and> length (last h) \<le> length (h ! (length h - 10))"
    show "get_interface_statistics period (collect_statistics [] us) node = Inr (map (\<lambda>i. let c = last h ! i in
         \<lparr>ns_rx_packets = co_rx_packets c, ns_rx_bytes = co_rx_bytes c, ns_tx_packets = co_tx_packets c, ns_tx_bytes = co_tx_bytes c,
          ns_rx_packet_rate = mean_rate co_rx_packets period h i, ns_rx_bit_rate = 8 * mean_rate co_rx_bytes period h i,
          ns_tx_packet_rate = mean_rate co_tx_packets period h i, ns_tx_bit_rate = 8 * mean_rate co_tx_bytes period h i\<rparr>)
         [0..<length (last h)])"
      unfolding long [OF a [THEN conjunct1]]
      by (rule mapE_enumerate) (use a assms(2) in \<open>simp add: interface_stats_def k mean_rate_ends Let_def mult.commute\<close>)
  next
    assume a: "10 \<le> length h \<and> length (last h) > length (h ! (length h - 10))"
    show "get_interface_statistics period (collect_statistics [] us) node = Inl IndexError"
      unfolding long [OF a [THEN conjunct1]]
    proof (rule mapE_fails [where k = "length (h ! (length h - 10))"])
      show "length (h ! (length h - 10)) < length (enumerate 0 (last h))" using a by simp
      show "interface_stats ?k (h ! (length h - 10)) (enumerate 0 (last h) ! length (h ! (length h - 10))) = Inl IndexError"
        using a by (simp add: interface_stats_def nth_enumerate_eq)
      show "e' = IndexError" if "interface_stats ?k (h ! (length h - 10)) x = Inl e'" for x e'
        using that assms(2) k by (auto simp: interface_stats_def Let_def split: if_splits prod.splits)
    qed
  qed
qed

theorem rates_are_means_witness:
  "let c = (\<lambda>n. [\<lparr>co_tx_bytes = 100 * n, co_rx_bytes = 0, co_tx_packets = n, co_rx_packets = 0\<rparr>]) in
   map ns_tx_bit_rate (projr (get_interface_statistics (1 / 10) (collect_statistics [] (map (\<lambda>n. (3, c n)) [0..<12])) 3)) = [8000]"
proof -
  let ?c = "\<lambda>n. [\<lparr>co_tx_bytes = 100 * n, co_rx_bytes = 0, co_tx_packets = n, co_rx_packets = 0\<rparr>]"
  let ?us = "map (\<lambda>n. (3, ?c n)) [0..<12]"
  have h: "samples_of 3 ?us = map ?c [0..<12]" by (simp add: samples_of_def comp_def)
  have "10 \<le> length (samples_of 3 ?us) \<and> length (last (samples_of 3 ?us)) \<le> length (samples_of 3 ?us ! (length (samples_of 3 ?us) - 10))"
    unfolding h by (simp add: last_map)
  with rates_are_means [of "1 / 10" 3 ?us, THEN conjunct2, THEN conjunct1]
  show ?thesis by (simp add: h mean_rate_ends difference_def last_map)
qed

end
