(* ===== verification/Viz_Tables.thy ===== *)
theory Viz_Tables
  imports Viz_Stats
begin

text \<open>
  The information windows of the visualizer: the list of the \<open>Visualizer\<close> that updates them
  (\<^verbatim>\<open>core.py\<close>), the tables of the plugins \<^verbatim>\<open>ipv4_routing_table.py\<close>, \<^verbatim>\<open>olsr.py\<close> and
  \<^verbatim>\<open>show_last_packets.py\<close>, and the packet filter of the last. What the simulator answers is a
  parameter, and so are the texts of its addresses, times and packets. Windows, menus and the
  columns of the tables are not modelled, only the rows.
\<close>

section \<open>Routing tables\<close>

record route =
  ro_dest :: string
  ro_next :: string
  ro_interface :: nat
  ro_distance :: nat

datatype protocol = Static_Routing "route list" | Global_Routing "route list" | Other_Protocol

datatype routing = Single_Protocol protocol | List_Routing "(protocol \<times> int) list"

text \<open>The device of an interface of a node: none, or one with the name that is registered for it.\<close>

type_synonym devices = "nat \<Rightarrow> string option option"

definition route_interface :: "devices \<Rightarrow> nat \<Rightarrow> string" where
  "route_interface dev i = (case dev i of None \<Rightarrow> ''lo'' | Some name \<Rightarrow> interface_name name i)"

definition routing_protocols :: "routing \<Rightarrow> (route list \<times> string \<times> int) list" where
  "routing_protocols r =
     (case r of
        Single_Protocol (Static_Routing rs) \<Rightarrow> [(rs, ''static'', 0)]
      | Single_Protocol _ \<Rightarrow> []
      | List_Routing ps \<Rightarrow> concat (map (\<lambda>(p, prio).
          case p of Static_Routing rs \<Rightarrow> [(rs, ''static'', prio)] | Global_Routing rs \<Rightarrow> [(rs, ''global'', prio)] | Other_Protocol \<Rightarrow> []) ps))"

type_synonym table = "string list list"

definition ipv4_row :: "devices \<Rightarrow> string \<Rightarrow> int \<Rightarrow> route \<Rightarrow> string list" where
  "ipv4_row dev ty prio r = [ro_dest r, ro_next r, route_interface dev (ro_interface r), ty, show_int prio]"

definition update_ipv4_table :: "(devices \<times> routing option) option \<Rightarrow> table \<Rightarrow> table res" where
  \<comment> \<open>a node without IPv4 raises; without a routing protocol to show the table stays as it was\<close>
  "update_ipv4_table ipv4 table =
     (case ipv4 of
        None \<Rightarrow> Inl AttributeError
      | Some (dev, routing) \<Rightarrow>
          Inr (case routing of
             None \<Rightarrow> table
           | Some r \<Rightarrow>
               if routing_protocols r = [] then table
               else concat (map (\<lambda>(rs, ty, prio). map (ipv4_row dev ty prio) rs) (routing_protocols r))))"

definition olsr_row :: "devices \<Rightarrow> route \<Rightarrow> string list" where
  "olsr_row dev r = [ro_dest r, ro_next r, route_interface dev (ro_interface r), show_nat (ro_distance r)]"

definition update_olsr_table :: "route list option \<Rightarrow> devices option \<Rightarrow> table \<Rightarrow> table \<times> unit res" where
  \<comment> \<open>without IPv4 the first entry raises, when the table has been cleared and a row added\<close>
  "update_olsr_table olsr ipv4 table =
     (case olsr of
        None \<Rightarrow> (table, Inr ())
      | Some rs \<Rightarrow>
          (case (rs, ipv4) of
             ([], _) \<Rightarrow> ([], Inr ())
           | (_, None) \<Rightarrow> ([[]], Inl AttributeError)
           | (_, Some dev) \<Rightarrow> (map (olsr_row dev) rs, Inr ())))"

section \<open>Packets\<close>

record packet_sample =
  ps_time :: string
  ps_device :: "(string option \<times> nat) option"    \<comment> \<open>its registered name and its number\<close>
  ps_size :: nat
  ps_contents :: string

definition packet_row :: "packet_sample \<Rightarrow> string list" where
  "packet_row s =
     [ps_time s,
      (case ps_device s of None \<Rightarrow> ''(unknown)'' | Some (name, i) \<Rightarrow> interface_name name i),
      show_nat (ps_size s), ps_contents s]"

definition update_packet_lists :: "packet_sample list \<Rightarrow> packet_sample list \<Rightarrow> packet_sample list \<Rightarrow> table \<times> table \<times> table" where
  \<comment> \<open>transmitted, received, dropped\<close>
  "update_packet_lists tx rx dropped = (map packet_row tx, map packet_row rx, map packet_row dropped)"

section \<open>The packet filter\<close>

record type_registry =
  rg_types :: "nat list"
  rg_parent :: "nat \<Rightarrow> nat option"
  rg_header :: nat
  rg_trailer :: nat

partial_function (option) type_is_good :: "type_registry \<Rightarrow> nat \<Rightarrow> bool option" where
  "type_is_good rg t =
     (if t = rg_header rg \<or> t = rg_trailer rg then Some True
      else case rg_parent rg t of Some p \<Rightarrow> type_is_good rg p | None \<Rightarrow> Some False)"

declare type_is_good.simps [code]

primrec filter_types :: "type_registry \<Rightarrow> nat list \<Rightarrow> nat list option" where
  "filter_types rg [] = Some []"
| "filter_types rg (t # ts) =
     (case type_is_good rg t of
        None \<Rightarrow> None
      | Some good \<Rightarrow>
          map_option (\<lambda>l. if good \<and> t \<noteq> rg_header rg \<and> t \<noteq> rg_trailer rg then t # l else l) (filter_types rg ts))"

datatype capture_mode = Headers_Or | Headers_And

record capture_options =
  cp_mode :: capture_mode
  cp_last :: nat
  cp_headers :: "nat list"

text \<open>\<open>pf_sent\<close> is what the helper has been given last.\<close>

record packet_filter =
  pf_list :: "(nat \<times> bool) list"
  pf_and :: bool
  pf_sent :: "capture_options option"

definition update_capture_options :: "packet_filter \<Rightarrow> packet_filter" where
  "update_capture_options f =
     f\<lparr>pf_sent := Some \<lparr>cp_mode = (if pf_and f then Headers_And else Headers_Or), cp_last = 100,
        cp_headers = map fst (filter snd (pf_list f))\<rparr>\<rparr>"

definition new_packet_filter :: "type_registry \<Rightarrow> packet_filter option" where
  "new_packet_filter rg =
     map_option (\<lambda>ts. update_capture_options \<lparr>pf_list = map (\<lambda>t. (t, True)) ts, pf_and = False, pf_sent = None\<rparr>)
       (filter_types rg (rg_types rg))"

datatype click = Select_All | Select_None | Choose_And bool | Edit nat bool

primrec filter_click :: "packet_filter \<Rightarrow> click \<Rightarrow> packet_filter" where
  "filter_click f Select_All = update_capture_options (f\<lparr>pf_list := map (\<lambda>(t, _). (t, True)) (pf_list f)\<rparr>)"
| "filter_click f Select_None = update_capture_options (f\<lparr>pf_list := map (\<lambda>(t, _). (t, False)) (pf_list f)\<rparr>)"
| "filter_click f (Choose_And b) = (if pf_and f = b then f else update_capture_options (f\<lparr>pf_and := b\<rparr>))"
| "filter_click f (Edit i b) =
     (if i < length (pf_list f) then update_capture_options (f\<lparr>pf_list := (pf_list f)[i := (fst (pf_list f ! i), b)]\<rparr>) else f)"

section \<open>The windows\<close>

text \<open>A window is its kind with its contents; \<open>upd\<close> is the \<open>update\<close> of its class.\<close>

primrec update_windows :: "('w \<Rightarrow> 'w \<times> unit res) \<Rightarrow> 'w list \<Rightarrow> 'w list \<times> unit res" where
  "update_windows upd [] = ([], Inr ())"
| "update_windows upd (w # ws) =
     (case upd w of
        (w', Inl e) \<Rightarrow> (w' # ws, Inl e)
      | (w', Inr _) \<Rightarrow> (let (ws', r) = update_windows upd ws in (w' # ws', r)))"

definition add_information_window :: "('w \<Rightarrow> 'w \<times> unit res) \<Rightarrow> 'w \<Rightarrow> 'w list \<Rightarrow> 'w list \<times> unit res" where
  \<comment> \<open>the window is in the list before its first update, which may raise\<close>
  "add_information_window upd w ws = (let (w', r) = upd w in (ws @ [w'], r))"

definition remove_information_window :: "'w \<Rightarrow> 'w list \<Rightarrow> 'w list res" where
  "remove_information_window w ws = (if w \<in> set ws then Inr (remove1 w ws) else Inl ValueError)"

section \<open>What the filter offers and sends\<close>

definition parents :: "type_registry \<Rightarrow> (nat \<times> nat) set" where
  "parents rg = {(t, p). rg_parent rg t = Some p}"

lemma type_is_good_reaches:
  assumes "wf ((parents rg)\<inverse>)"
  shows "type_is_good rg t = Some ((t, rg_header rg) \<in> (parents rg)\<^sup>* \<or> (t, rg_trailer rg) \<in> (parents rg)\<^sup>*)"
  using assms
proof (induction t rule: wf_induct_rule)
  case (less t)
  show ?case
  proof (cases "t = rg_header rg \<or> t = rg_trailer rg")
    case True
    then show ?thesis by (subst type_is_good.simps) auto
  next
    case False
    show ?thesis
    proof (cases "rg_parent rg t")
      case None
      then have "(t, x) \<notin> (parents rg)\<^sup>*" if "x \<noteq> t" for x
        using that by (auto simp: parents_def elim: converse_rtranclE)
      then show ?thesis using False None by (subst type_is_good.simps) auto
    next
      case (Some p)
      then have step: "(t, p) \<in> parents rg" "(t, y) \<in> parents rg \<Longrightarrow> y = p" for y by (auto simp: parents_def)
      then have "(t, x) \<in> (parents rg)\<^sup>* \<longleftrightarrow> (p, x) \<in> (parents rg)\<^sup>*" if "x \<noteq> t" for x
        using that by (metis converse_rtranclE converse_rtrancl_into_rtrancl)
      moreover have "type_is_good rg p = Some ((p, rg_header rg) \<in> (parents rg)\<^sup>* \<or> (p, rg_trailer rg) \<in> (parents rg)\<^sup>*)"
        using less step(1) by simp
      ultimately show ?thesis using False Some by (subst type_is_good.simps) simp
    qed
  qed
qed

lemma filter_types_good:
  assumes "wf ((parents rg)\<inverse>)"
  shows "filter_types rg ts = Some (filter (\<lambda>t. t \<noteq> rg_header rg \<and> t \<noteq> rg_trailer rg \<and>
    ((t, rg_header rg) \<in> (parents rg)\<^sup>* \<or> (t, rg_trailer rg) \<in> (parents rg)\<^sup>*)) ts)"
  by (induction ts) (auto simp: type_is_good_reaches [OF assms])

lemma sent_follows: "pf_sent f = pf_sent (update_capture_options f) \<Longrightarrow> pf_sent (filter_click f c) = pf_sent (update_capture_options (filter_click f c))"
  by (cases c) (auto simp: update_capture_options_def)

lemma click_types: "map fst (pf_list (filter_click f c)) = map fst (pf_list f)"
  by (cases c) (auto simp: update_capture_options_def nth_list_update split: prod.splits intro!: nth_equalityI)

text \<open>
  The packet filter. For a registry in which every type has finitely many ancestors the window
  opens; it offers exactly the registered kinds of headers and trailers, without the two roots, and
  after any clicks the helper has been given the ones that are selected and the mode that is shown.
\<close>

theorem filter_sends_choice:
  assumes "wf ((parents rg)\<inverse>)"
  shows "\<exists>f0. new_packet_filter rg = Some f0 \<and>
    map fst (pf_list f0) = filter (\<lambda>t. t \<noteq> rg_header rg \<and> t \<noteq> rg_trailer rg \<and>
      ((t, rg_header rg) \<in> (parents rg)\<^sup>* \<or> (t, rg_trailer rg) \<in> (parents rg)\<^sup>*)) (rg_types rg) \<and>
    (let f = foldl filter_click f0 clicks in
       map fst (pf_list f) = map fst (pf_list f0) \<and>
       pf_sent f = Some \<lparr>cp_mode = (if pf_and f then Headers_And else Headers_Or), cp_last = 100, cp_headers = map fst (filter snd (pf_list f))\<rparr>)"
proof -
  obtain f0 where f0: "new_packet_filter rg = Some f0" "pf_sent f0 = pf_sent (update_capture_options f0)"
    "map fst (pf_list f0) = filter (\<lambda>t. t \<noteq> rg_header rg \<and> t \<noteq> rg_trailer rg \<and>
      ((t, rg_header rg) \<in> (parents rg)\<^sup>* \<or> (t, rg_trailer rg) \<in> (parents rg)\<^sup>*)) (rg_types rg)"
    by (simp add: new_packet_filter_def filter_types_good [OF assms] update_capture_options_def comp_def)
  have "map fst (pf_list (foldl filter_click f clicks)) = map fst (pf_list f) \<and>
      (pf_sent f = pf_sent (update_capture_options f) \<longrightarrow>
       pf_sent (foldl filter_click f clicks) = pf_sent (update_capture_options (foldl filter_click f clicks)))" for f
    by (induction clicks arbitrary: f) (auto simp: click_types sent_follows)
  then show ?thesis using f0 by (intro exI [of _ f0]) (simp add: Let_def update_capture_options_def)
qed

definition demo_registry :: type_registry where
  "demo_registry = \<lparr>rg_types = [0, 1, 2, 3, 4], rg_parent = (\<lambda>t. if t = 2 then Some 0 else if t = 3 then Some 2 else None), rg_header = 0, rg_trailer = 1\<rparr>"

theorem filter_sends_choice_witness:
  "\<exists>f. new_packet_filter demo_registry = Some f \<and> map fst (pf_list f) = [2, 3] \<and>
     pf_sent (filter_click f (Edit 0 False)) = Some \<lparr>cp_mode = Headers_Or, cp_last = 100, cp_headers = [3]\<rparr>"
proof -
  have "(parents demo_registry)\<inverse> \<subseteq> less_than" by (auto simp: parents_def demo_registry_def split: if_splits)
  then have w: "wf ((parents demo_registry)\<inverse>)" by (rule wf_subset [OF wf_less_than])
  have n: "new_packet_filter demo_registry = Some (update_capture_options \<lparr>pf_list = [(2, True), (3, True)], pf_and = False, pf_sent = None\<rparr>)"
    by code_simp
  then have "pf_sent (filter_click (update_capture_options \<lparr>pf_list = [(2, True), (3, True)], pf_and = False, pf_sent = None\<rparr>) (Edit 0 False)) =
      Some \<lparr>cp_mode = Headers_Or, cp_last = 100, cp_headers = [3]\<rparr>"
    using filter_sends_choice [OF w, of "[Edit 0 False]"] by (auto simp: update_capture_options_def Let_def)
  then show ?thesis using n by (simp add: update_capture_options_def)
qed

end
