(* ===== verification/Viz_Plugins.thy ===== *)
theory Viz_Plugins
  imports Py_Strings
begin

text \<open>
  Loading the plugins of the visualizer, \<^verbatim>\<open>src/src/visualizer/visualizer/base.py\<close>, and the hooks
  that are called once it runs (\<^verbatim>\<open>core.py\<close>). The listing of the directory, \<open>repr\<close> of a string, \<open>os.path.splitext\<close> and
  the import of a module are parameters: an import gives a module, with its \<open>register\<close> function if
  it has one, raises \<open>ImportError\<close> with a text, or raises something else.
\<close>

datatype 'f imported = Imported "'f option" | No_Import string | Other_Error py_error

record 'f plugin_state =
  pl_loaded :: bool
  pl_plugins :: "'f list"
  pl_modules :: "(string, 'f) dict"
  pl_path :: "string list"
  pl_said :: "string list"

definition register_plugin :: "'f \<Rightarrow> string \<Rightarrow> 'f plugin_state \<Rightarrow> 'f plugin_state" where
  \<comment> \<open>the call of \<open>load_plugins\<close>, with a name and a module\<close>
  "register_plugin f name s = s\<lparr>pl_plugins := pl_plugins s @ [f], pl_modules := dict_set name f (pl_modules s)\<rparr>"

definition load_plugin :: "(string \<Rightarrow> string) \<Rightarrow> (string \<Rightarrow> string \<times> string) \<Rightarrow> (string list \<Rightarrow> string \<Rightarrow> 'f imported) \<Rightarrow> string \<Rightarrow> 'f plugin_state \<Rightarrow>
    'f plugin_state \<times> unit res" where
  "load_plugin repr splitext import_module filename s =
     (let (name, ext) = splitext filename in
      if ext \<noteq> ''.py'' then (s, Inr ())
      else
        (case import_module (pl_path s) name of
           No_Import ex \<Rightarrow> (s\<lparr>pl_said := pl_said s @ [''Could not load plugin '' @ repr filename @ '': '' @ ex]\<rparr>, Inr ())
         | Other_Error e \<Rightarrow> (s, Inl e)
         | Imported None \<Rightarrow> (s\<lparr>pl_said := pl_said s @ [''Plugin '' @ repr name @ '' has no 'register' function'']\<rparr>, Inr ())
         | Imported (Some f) \<Rightarrow> (register_plugin f name s, Inr ())))"

primrec load_all :: "(string \<Rightarrow> string) \<Rightarrow> (string \<Rightarrow> string \<times> string) \<Rightarrow> (string list \<Rightarrow> string \<Rightarrow> 'f imported) \<Rightarrow> string list \<Rightarrow> 'f plugin_state \<Rightarrow>
    'f plugin_state \<times> unit res" where
  "load_all repr splitext import_module [] s = (s, Inr ())"
| "load_all repr splitext import_module (f # fs) s =
     (case load_plugin repr splitext import_module f s of
        (s', Inl e) \<Rightarrow> (s', Inl e)
      | (s', Inr _) \<Rightarrow> load_all repr splitext import_module fs s')"

definition load_plugins :: "(string \<Rightarrow> string) \<Rightarrow> (string \<Rightarrow> string \<times> string) \<Rightarrow> (string list \<Rightarrow> string \<Rightarrow> 'f imported) \<Rightarrow> string \<Rightarrow> string list \<Rightarrow> 'f plugin_state \<Rightarrow>
    'f plugin_state \<times> unit res" where
  "load_plugins repr splitext import_module plugins_dir listing s =
     (if pl_loaded s then (s, Inr ())
      else
        (case load_all repr splitext import_module listing (s\<lparr>pl_loaded := True, pl_path := plugins_dir # pl_path s\<rparr>) of
           (s', Inl e) \<Rightarrow> (s', Inl e)
         | (s', Inr _) \<Rightarrow> (s'\<lparr>pl_path := pl_path s\<rparr>, Inr ())))"

text \<open>The functions of the plugins that can be used, in the order of the listing.\<close>

definition usable :: "(string \<Rightarrow> string \<times> string) \<Rightarrow> (string \<Rightarrow> 'f imported) \<Rightarrow> string list \<Rightarrow> 'f list" where
  "usable splitext imp listing =
     List.map_filter (\<lambda>f. if snd (splitext f) = ''.py'' then (case imp (fst (splitext f)) of Imported x \<Rightarrow> x | _ \<Rightarrow> None) else None) listing"

definition breaks :: "(string \<Rightarrow> string \<times> string) \<Rightarrow> (string \<Rightarrow> 'f imported) \<Rightarrow> string \<Rightarrow> bool" where
  "breaks splitext imp f \<longleftrightarrow> snd (splitext f) = ''.py'' \<and> (case imp (fst (splitext f)) of Other_Error _ \<Rightarrow> True | _ \<Rightarrow> False)"

lemma usable_Cons: "usable splitext imp (f # fs) = usable splitext imp [f] @ usable splitext imp fs"
  by (simp add: usable_def map_filter_simps split: option.splits)

lemma load_plugin_one:
  assumes "\<not> breaks splitext (imp (pl_path s)) f"
  shows "\<exists>s1. load_plugin repr splitext imp f s = (s1, Inr ()) \<and> pl_path s1 = pl_path s \<and> pl_loaded s1 = pl_loaded s \<and>
    pl_plugins s1 = pl_plugins s @ usable splitext (imp (pl_path s)) [f]"
proof -
  obtain nm ext where e: "splitext f = (nm, ext)" by (cases "splitext f")
  show ?thesis
  proof (cases "ext = ''.py''")
    case False
    then show ?thesis by (simp add: load_plugin_def e usable_def map_filter_simps)
  next
    case True
    show ?thesis
    proof (cases "imp (pl_path s) nm")
      case (Imported x)
      then show ?thesis using True
        by (cases x) (simp_all add: load_plugin_def e usable_def map_filter_simps register_plugin_def)
    next
      case (No_Import t)
      then show ?thesis using True by (simp add: load_plugin_def e usable_def map_filter_simps)
    next
      case (Other_Error x)
      then show ?thesis using True assms by (simp add: breaks_def e)
    qed
  qed
qed

lemma load_all_usable:
  assumes "load_all repr splitext imp listing s = (s', r)"
  shows "pl_path s' = pl_path s \<and> pl_loaded s' = pl_loaded s \<and>
    (case r of
       Inr _ \<Rightarrow> (\<forall>f \<in> set listing. \<not> breaks splitext (imp (pl_path s)) f) \<and> pl_plugins s' = pl_plugins s @ usable splitext (imp (pl_path s)) listing
     | Inl _ \<Rightarrow> (\<exists>before f after. listing = before @ f # after \<and> breaks splitext (imp (pl_path s)) f \<and>
         pl_plugins s' = pl_plugins s @ usable splitext (imp (pl_path s)) before))"
  using assms
proof (induction listing arbitrary: s)
  case Nil
  then show ?case by (auto simp: usable_def map_filter_simps)
next
  case (Cons f fs)
  let ?i = "imp (pl_path s)"
  obtain nm ext where e: "splitext f = (nm, ext)" by (cases "splitext f")
  show ?case
  proof (cases "breaks splitext ?i f")
    case True
    then obtain x where x: "ext = ''.py''" "?i nm = Other_Error x" by (auto simp: breaks_def e split: imported.splits)
    then have "s' = s" "r = Inl x" using Cons.prems by (simp_all add: load_plugin_def e)
    then show ?thesis using True by (auto simp: usable_def map_filter_simps intro: exI [of _ "[]"])
  next
    case False
    obtain s1 where s1: "load_plugin repr splitext imp f s = (s1, Inr ())" "pl_path s1 = pl_path s" "pl_loaded s1 = pl_loaded s"
      "pl_plugins s1 = pl_plugins s @ usable splitext ?i [f]"
      using load_plugin_one [of splitext imp s f repr] False by blast
    have "load_all repr splitext imp fs s1 = (s', r)" using Cons.prems s1(1) by simp
    note ih = Cons.IH [OF this, unfolded s1(2-4)]
    have u: "usable splitext ?i (f # gs) = usable splitext ?i [f] @ usable splitext ?i gs" for gs by (rule usable_Cons)
    show ?thesis
    proof (cases r)
      case (Inr y)
      then show ?thesis using ih False by (simp add: u [of fs])
    next
      case (Inl e)
      then obtain before g after where "fs = before @ g # after" "breaks splitext ?i g"
        "pl_plugins s' = (pl_plugins s @ usable splitext ?i [f]) @ usable splitext ?i before" using ih by auto
      then have "f # fs = (f # before) @ g # after \<and> breaks splitext ?i g \<and> pl_plugins s' = pl_plugins s @ usable splitext ?i (f # before)"
        by (simp add: u [of before])
      then have "\<exists>before g after. f # fs = before @ g # after \<and> breaks splitext ?i g \<and> pl_plugins s' = pl_plugins s @ usable splitext ?i before"
        by (intro exI [of _ "f # before"] exI [of _ g] exI [of _ after])
      moreover have "pl_path s' = pl_path s \<and> pl_loaded s' = pl_loaded s" using ih by blast
      ultimately show ?thesis unfolding Inl by (simp only: sum.case simp_thms)
    qed
  qed
qed

text \<open>
  Which plugins are loaded: the first call registers every plugin that can be imported and has a
  \<open>register\<close> function, in the order of the listing, and puts the search path back; further calls do
  nothing. When an import raises anything but ImportError the plugins before it are registered, the
  ones after it never will be, and the directory stays in front of the search path.
\<close>

theorem plugins_loaded_once:
  assumes "\<not> pl_loaded s" "load_plugins repr splitext imp d listing s = (s', r)"
  shows "load_plugins repr splitext imp d listing s' = (s', Inr ()) \<and>
    (case r of
       Inr _ \<Rightarrow> pl_plugins s' = pl_plugins s @ usable splitext (imp (d # pl_path s)) listing \<and> pl_path s' = pl_path s
     | Inl _ \<Rightarrow> pl_path s' = d # pl_path s \<and> (\<exists>before f after. listing = before @ f # after \<and> breaks splitext (imp (d # pl_path s)) f \<and>
         pl_plugins s' = pl_plugins s @ usable splitext (imp (d # pl_path s)) before))"
proof -
  obtain s1 r1 where l: "load_all repr splitext imp listing (s\<lparr>pl_loaded := True, pl_path := d # pl_path s\<rparr>) = (s1, r1)"
    by (metis prod.exhaust)
  note a = load_all_usable [OF l]
  have "s' = (case r1 of Inl _ \<Rightarrow> s1 | Inr _ \<Rightarrow> s1\<lparr>pl_path := pl_path s\<rparr>)" "r = r1"
    using assms l by (auto simp: load_plugins_def split: sum.splits)
  then show ?thesis using a by (cases r1) (auto simp: load_plugins_def)
qed

theorem plugins_loaded_once_witness:
  "let splitext = (\<lambda>f. if f = ''a.py'' then (''a'', ''.py'') else (f, [])); imp = (\<lambda>_ nm. Imported (Some nm));
       s = \<lparr>pl_loaded = False, pl_plugins = [], pl_modules = [], pl_path = [''x''], pl_said = []\<rparr>
   in pl_plugins (fst (load_plugins (\<lambda>n. n) splitext imp ''plugins'' [''README'', ''a.py''] s)) = [''a'']"
proof -
  let ?splitext = "\<lambda>f. if f = ''a.py'' then (''a'', ''.py'') else (f, [])"
  let ?imp = "\<lambda>_ nm. Imported (Some nm)"
  let ?s = "\<lparr>pl_loaded = False, pl_plugins = [], pl_modules = [], pl_path = [''x''], pl_said = []\<rparr>"
  obtain s' r where l: "load_plugins (\<lambda>n. n) ?splitext ?imp ''plugins'' [''README'', ''a.py''] ?s = (s', r)"
    by (cases "load_plugins (\<lambda>n. n) ?splitext ?imp ''plugins'' [''README'', ''a.py''] ?s")
  have b: "\<not> breaks ?splitext (?imp (''plugins'' # pl_path ?s)) f" for f by (simp add: breaks_def)
  note o = plugins_loaded_once [OF _ l, THEN conjunct2]
  have "r = Inr ()"
  proof (cases r)
    case (Inl e)
    then show ?thesis using o b by auto
  qed simp
  then have "pl_plugins s' = usable ?splitext (?imp (''plugins'' # pl_path ?s)) [''README'', ''a.py'']"
    using o by simp
  then show ?thesis using l by (simp add: usable_def map_filter_simps)
qed

end
