(* ===== verification/Spec2Isabelle.thy ===== *)
theory Spec2Isabelle
  imports Test_Runner Config_File Wutils_Path Wutils_Run Shell_Run Rad_Util Topsort Style_Patch Timeline
    Replay Versioning Module_Tree Grid_Window Flow_Monitor Viz_Threads Viz_Scan
    Viz_Wifi Viz_Arrows Viz_Axes Viz_Tables Viz_Plugins
begin

text \<open>
  The Python tools of the repository, a fork of the ns-3 network simulator. The simulator itself is
  C++; around it stand the test driver \<^verbatim>\<open>test.py\<close>, the helpers of its waf build, and command-line
  tools. They are modelled here function by function, with the names of the source where Isabelle
  allows them.

  How a program becomes definitions. Integers are unbounded, as in Python, hence \<^verbatim>\<open>int\<close> and
  \<^verbatim>\<open>nat\<close>; floats that are compared or divided exactly are \<^verbatim>\<open>rat\<close>. Strings are lists of
  characters, dictionaries association lists in insertion order, objects records. An exception is
  the left side of a sum (\<^verbatim>\<open>res\<close>), so every \<^verbatim>\<open>raise\<close>, failing \<^verbatim>\<open>assert\<close>, missing key and
  unassigned variable is a branch. State that a function changes (environments, counters, files,
  queues, open processes) is passed through explicitly. What the scripts call but the repository
  does not contain as Python source is an argument of the definitions that use it: \<^verbatim>\<open>eval\<close> and
  \<^verbatim>\<open>exec\<close>, the file system, child processes and their exit statuses, the XML parser, waf's build
  context, \<^verbatim>\<open>uncrustify\<close>, \<^verbatim>\<open>difflib\<close>, \<^verbatim>\<open>patch\<close> and \<^verbatim>\<open>git\<close>, and the order in which a
  dictionary of Python 2 enumerates its keys. The parts of the standard library whose behaviour the
  scripts rest on (\<^verbatim>\<open>str\<close> methods, \<^verbatim>\<open>os.path\<close>, \<^verbatim>\<open>int\<close>, \<^verbatim>\<open>fnmatch\<close>, \<^verbatim>\<open>shlex\<close>,
  \<^verbatim>\<open>optparse\<close>, \<^verbatim>\<open>queue\<close>) are executable definitions of their own.

  The theories.

  \<^item> \<^verbatim>\<open>Py_Prelude\<close>, \<^verbatim>\<open>Py_Strings\<close>, \<^verbatim>\<open>Py_Int\<close>, \<^verbatim>\<open>Py_Num\<close>: exceptions and their combinators,
    dictionaries with the locale \<^verbatim>\<open>py_mapping\<close> of their laws, string methods, decimal printing, POSIX
    paths, \<^verbatim>\<open>int(s, radix)\<close>, slices, numbers that may be integers or floats. \<^verbatim>\<open>Fnmatch\<close> and
    \<^verbatim>\<open>Shlex\<close>: the two standard modules.
  \<^item> \<^verbatim>\<open>Config_File\<close>: \<^verbatim>\<open>src/utils.py\<close>, the readers of lists, Booleans and the \<^verbatim>\<open>.ns3rc\<close> file.
  \<^item> \<^verbatim>\<open>Test_Options\<close>, \<^verbatim>\<open>Test_Env\<close>, \<^verbatim>\<open>Test_Jobs\<close>, \<^verbatim>\<open>Worker_Pool\<close>, \<^verbatim>\<open>Test_Report\<close>,
    \<^verbatim>\<open>Test_Render\<close>, \<^verbatim>\<open>Test_Runner\<close>: \<^verbatim>\<open>src/test.py\<close> from its command line to its exit status.
    \<^verbatim>\<open>main\<close> reads the options, \<^verbatim>\<open>run_tests\<close> reads waf's state, runs waf, sets the search paths
    and reads the examples (\<^verbatim>\<open>Test_Env\<close>), selects suites and examples and puts jobs on a queue
    (\<^verbatim>\<open>Test_Jobs\<close>), worker threads run them (\<^verbatim>\<open>Worker_Pool\<close>, locale \<^verbatim>\<open>fifo\<close> for the queues and
    \<^verbatim>\<open>job_runner\<close> for the work), the main thread collects the answers (\<^verbatim>\<open>Test_Report\<close>), writes the
    text or HTML report (\<^verbatim>\<open>Test_Render\<close>) and returns (\<^verbatim>\<open>Test_Runner\<close>, which composes the phases).
  \<^item> \<^verbatim>\<open>Wutils_Path\<close>, \<^verbatim>\<open>Wutils_Run\<close>: \<^verbatim>\<open>src/wutils.py\<close>, relative paths and duplicates; finding,
    starting and judging a program of the build.
  \<^item> \<^verbatim>\<open>Shell_Parse\<close>, \<^verbatim>\<open>Shell_Run\<close>: \<^verbatim>\<open>src/waf-tools/shellcmd.py\<close>, the six-state parser of shell
    pipelines and the loop that runs them. \<^verbatim>\<open>Versioning\<close>: \<^verbatim>\<open>src/waf-tools/versioning.py\<close>, the version
    of a build out of the tags of git or a cache file.
  \<^item> \<^verbatim>\<open>Rad_Util\<close>, \<^verbatim>\<open>Topsort\<close>: \<^verbatim>\<open>src/bindings/python/rad_util.py\<close> (integers, lists, arguments) and
    \<^verbatim>\<open>topsort.py\<close> (topological order, levels, cycles).
  \<^item> \<^verbatim>\<open>Style_Patch\<close>: \<^verbatim>\<open>src/utils/check-style.py\<close>, the patch parser and printer, the repair of trailing
    blanks, the check of a list of files and its exit status.
  \<^item> \<^verbatim>\<open>Create_Module\<close>, \<^verbatim>\<open>Module_Tree\<close>: \<^verbatim>\<open>src/utils/create-module.py\<close>, its nine templates, the writers,
    the clean-up and the checks of its arguments; then what all this does to a tree of files.
  \<^item> \<^verbatim>\<open>Timeline\<close>, \<^verbatim>\<open>Grid_Draw\<close>, \<^verbatim>\<open>Grid_Layout\<close>, \<^verbatim>\<open>Grid_Window\<close>: \<^verbatim>\<open>src/utils/grid.py\<close>. Ranges and
    events on time lines, both binary searches, the reader of the file, bounds and colours (locale
    \<^verbatim>\<open>named_data\<close> for the three tables of a time line); the renderers, whose drawing is the list of
    their Cairo calls; what the layouts promise to the drawing; the reactions of the window.
  \<^item> \<^verbatim>\<open>Flow_Monitor\<close>: \<^verbatim>\<open>flowmon-parse-results.py\<close> of the flow monitor, from the XML tree to the
    printed lines.
  \<^item> \<^verbatim>\<open>Replay\<close>: \<^verbatim>\<open>src/Visualizer/vis.py\<close>, the replay and measurement of recorded positions.
  \<^item> The network visualizer, \<^verbatim>\<open>src/src/visualizer/visualizer\<close>. \<^verbatim>\<open>Viz_Threads\<close>: the simulation thread
    and the callbacks that share its state, with the part of the C++ helper that they drive.
    \<^verbatim>\<open>Viz_Nodes\<close>, \<^verbatim>\<open>Viz_Scan\<close>: nodes, channels and wired links with what they draw, and reading the
    topology of the simulation into them. \<^verbatim>\<open>Viz_View\<close>: panning, scaling, following and dragging.
    \<^verbatim>\<open>Viz_Items\<close>, \<^verbatim>\<open>Viz_Arrows\<close>, \<^verbatim>\<open>Viz_Axes\<close>: the use of old canvas items (locale \<^verbatim>\<open>item_pool\<close>, once
    for the arrows, once for the labels), the arrows of transmissions and drops in \<^verbatim>\<open>core.py\<close>, the axes
    in \<^verbatim>\<open>hud.py\<close>. \<^verbatim>\<open>Svg_Item\<close>: \<^verbatim>\<open>svgitem.py\<close>. \<^verbatim>\<open>Viz_Plugins\<close>: loading the plugins; \<^verbatim>\<open>Viz_Wifi\<close>,
    \<^verbatim>\<open>Viz_Stats\<close>, \<^verbatim>\<open>Viz_Tables\<close>: the five plugins themselves and the windows that they fill.

  What is shown. For \<^verbatim>\<open>test.py\<close>: the exact content of the queue of jobs; over all interleavings of
  the threads no job is lost or answered twice, every run is finite, a state that cannot move has all
  answers, and the exit status of the whole program depends on the jobs only; the counters, the
  results file and the nesting of the HTML report are characterised exactly; the command line is read
  back from its rendering. For \<^verbatim>\<open>shellcmd.py\<close>: parsing inverts printing, parsed pipelines are well
  formed, running refines the shell's semantics of pipes, \<^verbatim>\<open>&&\<close> and \<^verbatim>\<open>||\<close> as long as the two operators
  are not mixed, and a run that returns has closed and waited for everything. For \<^verbatim>\<open>topsort.py\<close>:
  soundness and completeness of all three algorithms. For \<^verbatim>\<open>create-module.py\<close>: a run only adds files,
  a module is complete or gone. For \<^verbatim>\<open>grid.py\<close>: the exact content of the time lines after reading,
  which ranges a window shows, which marks a scale has, that the picture of the legend has the
  right squares and texts without overlap, how the height reserved for the rows compares with the
  height drawn, and what every reaction of the window keeps of the visible range. For \<^verbatim>\<open>vis.py\<close>: the
  remembered line of a vehicle finds what a search from the start would, and exactly when the replay
  ends. For the visualizer: the lock protects the shared state over all interleavings, closing the
  window ends the program, no message is lost, when samples are recorded exactly once and when they
  are not; the scene shows the present positions after any operations, a scan draws exactly the links
  that the devices ask for, the links of wireless stations follow their associations, a dragged node
  follows the pointer, the arrows show the sums of the samples, the rates are means over the last ten
  samples, the filter sends what is chosen, every plugin is loaded once. For the other files: round
  trips (\<^verbatim>\<open>relpath\<close>, \<^verbatim>\<open>shlex\<close>, patches, version tags), the exact effect of the trailing-blank
  repair, the environment and command line of a program, when the flow monitor reader prints all
  flows. Several of these theorems state a behaviour that the code hardly intends, as found; each of
  them says so in its text.

  Termination. Loops over lists are structural or folds. The other loops have measures: the sum over
  jobs and workers of the transitions left to them in the pool (at most six per job and worker, and
  one for the interrupt), the numbers of elements not yet retired in \<^verbatim>\<open>topsort_loop\<close> and
  \<^verbatim>\<open>levels_loop\<close>, a multiset of unseen nodes over the stack of paths in \<^verbatim>\<open>cycles_loop\<close>, the width
  of the interval in the binary searches, the lines behind the remembered one in \<^verbatim>\<open>search_lines\<close>, the
  number of marks left in \<^verbatim>\<open>marks\<close>, the remainder in \<^verbatim>\<open>gcf_loop\<close>, the digits in printing. Three
  loops may not end and are partial functions: \<^verbatim>\<open>binary_range_loop\<close> of \<^verbatim>\<open>rad_util.py\<close>,
  \<^verbatim>\<open>replay_loop\<close>, for which both the inputs on which it ends and some on which it does not are
  theorems, and \<^verbatim>\<open>type_is_good\<close>, which follows the parents of a type and returns when they have no
  cycle. The collecting loop of the test driver and the threads of the visualizer are step relations;
  that the first can wait forever is a theorem, and so is that the second end after the window is
  closed. No definition uses fuel.

  Not modelled. The generated bindings (\<^verbatim>\<open>modulegen__gcc_*.py\<close>, most of the Python lines) only
  register classes and methods with a library that is not here; the binding generators drive that
  library. Of the visualizer, the construction of the windows, menus and tool bars, the tooltips and
  the embedded shell \<^verbatim>\<open>ipython_view.py\<close> are left out; of \<^verbatim>\<open>vis.py\<close>, the window, the camera and the
  plots. The small tools of waf (\<^verbatim>\<open>boost\<close>, \<^verbatim>\<open>cflags\<close>, \<^verbatim>\<open>command\<close>, \<^verbatim>\<open>misc\<close>, \<^verbatim>\<open>relocation\<close>, the
  compilation database) are glue around waf, the plots of \<^verbatim>\<open>gen_graphs.py\<close> and the Sphinx settings call
  other libraries. Of \<^verbatim>\<open>rad_util.py\<close>, the floating-point helpers (\<^verbatim>\<open>quantile\<close>, \<^verbatim>\<open>trim\<close>,
  \<^verbatim>\<open>nice_units\<close>, \<^verbatim>\<open>float_range\<close>, \<^verbatim>\<open>round_grid\<close>), time stamps, random vectors and introspection are left
  out. Verbose messages of \<^verbatim>\<open>test.py\<close>, help texts and the creation of temporary files are left out;
  what a temporary file holds is passed as a value.
\<close>

end
